(* ===== verification/Kernox_Prelude.thy ===== *)
theory Kernox_Prelude
  imports
    Main
    "HOL-Library.List_Lexorder"
    "HOL-Library.Char_ord"
    "HOL-Library.Product_Lexorder"
    "HOL-Library.Word"
    "HOL-Library.Multiset"
begin

text \<open>
  The vocabulary every component of the development shares.

  \<^item> Rust's \<open>Result<T, E>\<close> is the sum \<open>'e + 'a\<close> with \<open>Inl\<close> for the error; the \<open>?\<close>
    operator is \<open>and_then\<close>, and a \<open>for\<close> loop whose body may return early is \<open>for_each\<close>.
  \<^item> Code that can also panic (an index, a subtraction on an unsigned integer, an
    \<open>unreachable!\<close>) returns its error in \<open>'e fault\<close>, so that the panic is a value that a
    theorem can exclude; \<open>fallible\<close> embeds a result that cannot panic.
  \<^item> \<open>str\<close> is a list of bytes where the source works bytewise (identifiers, tags) and
    \<open>text\<close> a list of Unicode scalar values where it works on characters (labels, package
    names); both are ordered lexicographically, as Rust orders \<open>str\<close>.
\<close>

named_theorems result_simps \<open>equations that run results and early-return loops\<close>

type_synonym str = string
type_synonym utext = "nat list"

section \<open>Results and early returns\<close>

definition and_then :: "'e + 'a \<Rightarrow> ('a \<Rightarrow> 'e + 'b) \<Rightarrow> 'e + 'b" where
  "and_then r k = (case r of Inl e \<Rightarrow> Inl e | Inr a \<Rightarrow> k a)"

lemma and_then_simps [simp]:
  "and_then (Inl e) k = Inl e"
  "and_then (Inr a) k = k a"
  by (simp_all add: and_then_def)

lemma and_then_Inr_iff [result_simps]:
  "and_then r k = Inr b \<longleftrightarrow> (\<exists>a. r = Inr a \<and> k a = Inr b)"
  by (cases r) auto

lemma and_then_Inl_iff [result_simps]:
  "and_then r k = Inl e \<longleftrightarrow> r = Inl e \<or> (\<exists>a. r = Inr a \<and> k a = Inl e)"
  by (cases r) auto

lemma and_then_assoc: "and_then (and_then r k) l = and_then r (\<lambda>a. and_then (k a) l)"
  by (cases r) auto

lemma and_then_cong [fundef_cong]:
  "r = r' \<Longrightarrow> (\<And>a. r' = Inr a \<Longrightarrow> k a = k' a) \<Longrightarrow> and_then r k = and_then r' k'"
  by (cases r') auto

definition map_err :: "('e \<Rightarrow> 'f) \<Rightarrow> 'e + 'a \<Rightarrow> 'f + 'a" where
  \<comment> \<open>\<open>Result::map_err\<close>, also the conversion of \<open>?\<close>\<close>
  "map_err f r = map_sum f id r"

lemma map_err_iff [result_simps]:
  "map_err f r = Inr a \<longleftrightarrow> r = Inr a"
  "map_err f r = Inl e \<longleftrightarrow> (\<exists>d. r = Inl d \<and> e = f d)"
  by (cases r; auto simp: map_err_def)+

datatype 'e fault = Panic | Err 'e

definition fallible :: "'e + 'a \<Rightarrow> 'e fault + 'a" where
  "fallible r = (case r of Inl e \<Rightarrow> Inl (Err e) | Inr a \<Rightarrow> Inr a)"

lemma fallible_simps [simp]:
  "fallible (Inl e) = Inl (Err e)"
  "fallible (Inr a) = Inr a"
  "fallible r \<noteq> Inl Panic"
  by (simp_all add: fallible_def split: sum.splits)

lemma fallible_eq_iff [result_simps]:
  "fallible r = Inr a \<longleftrightarrow> r = Inr a"
  "fallible r = Inl (Err e) \<longleftrightarrow> r = Inl e"
  by (cases r; simp)+

fun for_each :: "('a \<Rightarrow> 's \<Rightarrow> 'e + 's) \<Rightarrow> 'a list \<Rightarrow> 's \<Rightarrow> 'e + 's" where
  "for_each step [] s = Inr s"
| "for_each step (x # xs) s = and_then (step x s) (for_each step xs)"

lemma for_each_append:
  "for_each step (xs @ ys) s = and_then (for_each step xs s) (for_each step ys)"
proof (induction xs arbitrary: s)
  case (Cons x xs)
  then show ?case by (cases "step x s") auto
qed simp

lemma for_each_cong:
  "(\<And>x s. x \<in> set xs \<Longrightarrow> step x s = step' x s) \<Longrightarrow> for_each step xs s = for_each step' xs s"
proof (induction xs arbitrary: s)
  case (Cons x xs)
  then show ?case by (cases "step' x s") auto
qed simp

lemma for_each_invariant:
  assumes "for_each step xs s = Inr s'" and "P s"
    and "\<And>x s s'. x \<in> set xs \<Longrightarrow> P s \<Longrightarrow> step x s = Inr s' \<Longrightarrow> P s'"
  shows "P s'"
  using assms
proof (induction xs arbitrary: s)
  case (Cons x xs)
  from Cons.prems(1) obtain t where t: "step x s = Inr t" "for_each step xs t = Inr s'"
    by (auto simp: result_simps)
  with Cons.prems(2,3) have "P t" by auto
  with Cons.IH [OF t(2)] Cons.prems(3) show ?case by auto
qed simp

lemma for_each_error:
  "for_each step xs s = Inl e \<longleftrightarrow>
     (\<exists>ys x zs t. xs = ys @ x # zs \<and> for_each step ys s = Inr t \<and> step x t = Inl e)"
proof
  show "for_each step xs s = Inl e \<Longrightarrow>
     \<exists>ys x zs t. xs = ys @ x # zs \<and> for_each step ys s = Inr t \<and> step x t = Inl e"
  proof (induction xs arbitrary: s)
    case (Cons x xs)
    show ?case
    proof (cases "step x s")
      case (Inl d)
      with Cons.prems show ?thesis by (intro exI [of _ "[]"]) auto
    next
      case (Inr t)
      with Cons.prems have "for_each step xs t = Inl e" by simp
      from Cons.IH [OF this] obtain ys y zs u where
        "xs = ys @ y # zs" "for_each step ys t = Inr u" "step y u = Inl e" by blast
      with Inr show ?thesis by (intro exI [of _ "x # ys"]) auto
    qed
  qed simp
qed (auto simp: for_each_append)

text \<open>A loop whose body works on one field of its state is that loop on the field.\<close>

lemma for_each_field:
  assumes "\<And>x s. x \<in> set xs \<Longrightarrow> step x (f s) = map_sum id f (step' x s)"
  shows "for_each step xs (f s) = map_sum id f (for_each step' xs s)"
  using assms
proof (induction xs arbitrary: s)
  case (Cons x xs)
  then show ?case by (cases "step' x s") auto
qed simp

text \<open>A loop that only checks: its state is the unit value.\<close>

lemma for_each_check_ok:
  "for_each (\<lambda>x _. check x) xs () = Inr () \<longleftrightarrow> (\<forall>x \<in> set xs. check x = Inr ())"
  by (induction xs) (auto simp: result_simps)

lemma unit_result_cases: "(r :: 'e + unit) = Inr () \<or> (\<exists>e. r = Inl e)"
  by (cases r) auto

lemma Inr_unit_iff: "(\<exists>u. (r :: 'e + unit) = Inr u) \<longleftrightarrow> r = Inr ()"
  by (cases r) auto

section \<open>Finding the first element\<close>

lemma find_SomeD: "find P xs = Some x \<Longrightarrow> P x \<and> x \<in> set xs"
  by (induction xs) (auto split: if_splits)

section \<open>Strictly ascending lists\<close>

abbreviation ascending :: "'a::linorder list \<Rightarrow> bool" where
  "ascending xs \<equiv> sorted_wrt (<) xs"

lemma ascending_distinct: "ascending xs \<Longrightarrow> distinct xs"
  by (simp add: strict_sorted_iff)

lemma ascending_sorted: "ascending xs \<Longrightarrow> sorted xs"
  by (simp add: strict_sorted_iff)

lemma ascending_unique: "ascending xs \<Longrightarrow> ascending ys \<Longrightarrow> set xs = set ys \<Longrightarrow> xs = ys"
  by (simp add: strict_sorted_equal)

lemma ascending_filter: "ascending xs \<Longrightarrow> ascending (filter P xs)"
  by (rule sorted_wrt_filter)

lemma ascending_hd_least: "ascending (x # xs) \<Longrightarrow> y \<in> set (x # xs) \<Longrightarrow> x \<le> y"
  by auto

lemma ascending_map_key:
  assumes "ascending (map f xs)" and "\<And>x y. f x < f y \<Longrightarrow> (g x :: 'b::linorder) < g y"
  shows "ascending (map g xs)"
  using assms by (auto simp: sorted_wrt_map elim: sorted_wrt_mono_rel [rotated])

section \<open>Bytes and characters\<close>

definition utf8_width :: "nat \<Rightarrow> nat" where
  "utf8_width c = (if c < 0x80 then 1 else if c < 0x800 then 2 else if c < 0x10000 then 3 else 4)"

definition text_len :: "utext \<Rightarrow> nat" where
  \<comment> \<open>\<open>str::len\<close>: the number of bytes of the UTF-8 encoding\<close>
  "text_len t = (\<Sum>c\<leftarrow>t. utf8_width c)"

definition is_control :: "nat \<Rightarrow> bool" where
  \<comment> \<open>\<open>char::is_control\<close>: the general category Cc\<close>
  "is_control c \<longleftrightarrow> c < 0x20 \<or> 0x7F \<le> c \<and> c < 0xA0"

definition is_whitespace :: "nat \<Rightarrow> bool" where
  \<comment> \<open>\<open>char::is_whitespace\<close>: the property White_Space\<close>
  "is_whitespace c \<longleftrightarrow>
     9 \<le> c \<and> c \<le> 13 \<or> c = 0x20 \<or> c = 0x85 \<or> c = 0xA0 \<or> c = 0x1680
     \<or> 0x2000 \<le> c \<and> c \<le> 0x200A \<or> c = 0x2028 \<or> c = 0x2029 \<or> c = 0x202F \<or> c = 0x205F \<or> c = 0x3000"

definition trim :: "utext \<Rightarrow> utext" where
  "trim t = rev (dropWhile is_whitespace (rev (dropWhile is_whitespace t)))"

definition text_of :: "string \<Rightarrow> utext" where
  \<comment> \<open>the text of an ASCII literal\<close>
  "text_of s = map of_char s"

lemma text_len_simps [simp]:
  "text_len [] = 0"
  "text_len (c # t) = utf8_width c + text_len t"
  by (simp_all add: text_len_def)

lemma trim_eq_Nil_iff: "trim t = [] \<longleftrightarrow> (\<forall>c \<in> set t. is_whitespace c)"
proof -
  have "trim t = [] \<longleftrightarrow> (\<forall>c \<in> set (dropWhile is_whitespace t). is_whitespace c)"
    by (simp add: trim_def dropWhile_eq_Nil_conv)
  also have "\<dots> \<longleftrightarrow> dropWhile is_whitespace t = []"
    using hd_dropWhile [of is_whitespace t]
    by (cases "dropWhile is_whitespace t") (auto simp del: dropWhile_eq_Nil_conv)
  finally show ?thesis by (simp add: dropWhile_eq_Nil_conv)
qed

lemma dropWhile_fix_iff: "dropWhile P xs = xs \<longleftrightarrow> xs = [] \<or> \<not> P (hd xs)"
proof (cases xs)
  case (Cons y ys)
  have "length (dropWhile P ys) \<le> length ys" by (rule length_dropWhile_le)
  then have "dropWhile P ys \<noteq> y # ys" by (metis impossible_Cons)
  with Cons show ?thesis by simp
qed simp

lemma length_trim: "length (trim t) \<le> length t"
proof -
  have "length (trim t) \<le> length (dropWhile is_whitespace t)"
    unfolding trim_def
    by (metis length_dropWhile_le length_rev)
  then show ?thesis
    using length_dropWhile_le [of is_whitespace t] by linarith
qed

lemma trim_fix_iff:
  "trim t = t \<longleftrightarrow> t = [] \<or> \<not> is_whitespace (hd t) \<and> \<not> is_whitespace (last t)"
proof -
  have "trim t = t \<Longrightarrow> dropWhile is_whitespace t = t"
  proof -
    assume eq: "trim t = t"
    have "length (trim t) \<le> length (dropWhile is_whitespace t)"
      unfolding trim_def by (metis length_dropWhile_le length_rev)
    then have "length (dropWhile is_whitespace t) = length t"
      using eq length_dropWhile_le [of is_whitespace t] by simp
    then show ?thesis
      by (metis append_Nil append_eq_append_conv takeWhile_dropWhile_id)
  qed
  moreover have "dropWhile is_whitespace t = t \<Longrightarrow>
      trim t = t \<longleftrightarrow> dropWhile is_whitespace (rev t) = rev t"
    by (metis rev_rev_ident trim_def)
  ultimately show ?thesis
    by (cases "t = []") (auto simp: dropWhile_fix_iff hd_rev)
qed

end
