(* ===== verification/Identifier.thy ===== *)
theory Identifier
  imports Kernox_Prelude
begin

text \<open>
  \<open>kernox-core/src/id.rs\<close> and the identifier half of \<open>error.rs\<close>: the validation of plugin and
  capability identifiers, the two identifier types and their order. An identifier is a byte
  string; \<open>canonical_identifier\<close> is the declarative grammar that \<open>validate_identifier\<close> decides.
\<close>

section \<open>Errors\<close>

datatype identifier_error =
    EmptyIdentifier
  | TooLong nat nat                    \<comment> \<open>actual, maximum\<close>
  | NonAscii
  | EmptySegment nat                   \<comment> \<open>segment\<close>
  | SegmentTooLong nat nat nat         \<comment> \<open>segment, actual, maximum\<close>
  | InvalidSegmentStart nat nat        \<comment> \<open>segment, byte index\<close>
  | InvalidSegmentEnd nat nat          \<comment> \<open>segment, byte index\<close>
  | InvalidCharacter nat char          \<comment> \<open>byte index, character\<close>

fun identifier_error_tag :: "identifier_error \<Rightarrow> str" where
  "identifier_error_tag EmptyIdentifier = ''identifier.empty''"
| "identifier_error_tag (TooLong _ _) = ''identifier.too-long''"
| "identifier_error_tag NonAscii = ''identifier.non-ascii''"
| "identifier_error_tag (EmptySegment _) = ''identifier.empty-segment''"
| "identifier_error_tag (SegmentTooLong _ _ _) = ''identifier.segment-too-long''"
| "identifier_error_tag (InvalidSegmentStart _ _) = ''identifier.invalid-segment-start''"
| "identifier_error_tag (InvalidSegmentEnd _ _) = ''identifier.invalid-segment-end''"
| "identifier_error_tag (InvalidCharacter _ _) = ''identifier.invalid-character''"

section \<open>Bytes and segments\<close>

definition MAX_IDENTIFIER_LENGTH :: nat where "MAX_IDENTIFIER_LENGTH = 255"
definition MAX_IDENTIFIER_SEGMENT_LENGTH :: nat where "MAX_IDENTIFIER_SEGMENT_LENGTH = 63"

definition is_ascii_lowercase :: "char \<Rightarrow> bool" where
  "is_ascii_lowercase c \<longleftrightarrow> CHR ''a'' \<le> c \<and> c \<le> CHR ''z''"

definition is_ascii_digit :: "char \<Rightarrow> bool" where
  "is_ascii_digit c \<longleftrightarrow> CHR ''0'' \<le> c \<and> c \<le> CHR ''9''"

definition is_ascii :: "str \<Rightarrow> bool" where
  "is_ascii s \<longleftrightarrow> (\<forall>c \<in> set s. (of_char c :: nat) < 128)"

definition is_segment_byte :: "char \<Rightarrow> bool" where
  "is_segment_byte c \<longleftrightarrow> is_ascii_lowercase c \<or> is_ascii_digit c \<or> c = CHR ''-''"

fun split_on :: "char \<Rightarrow> str \<Rightarrow> str list" where
  \<comment> \<open>\<open>str::split\<close>: one segment more than there are separators\<close>
  "split_on d [] = [[]]"
| "split_on d (c # s) =
     (if c = d then [] # split_on d s
      else (case split_on d s of [] \<Rightarrow> [[c]] | seg # segs \<Rightarrow> (c # seg) # segs))"

fun join_with :: "'a list \<Rightarrow> 'a list list \<Rightarrow> 'a list" where
  "join_with d [] = []"
| "join_with d [s] = s"
| "join_with d (s # t # ss) = s @ d @ join_with d (t # ss)"

section \<open>Validation\<close>

definition check_segment_byte :: "nat \<Rightarrow> nat \<times> char \<Rightarrow> unit \<Rightarrow> identifier_error + unit" where
  "check_segment_byte offset p u =
     (case p of (index, byte) \<Rightarrow>
        if is_segment_byte byte then Inr () else Inl (InvalidCharacter (offset + index) byte))"

definition validate_segment :: "str \<Rightarrow> nat \<times> nat \<Rightarrow> identifier_error + nat \<times> nat" where
  \<comment> \<open>one round of the loop over the segments; the state is the segment index and its offset\<close>
  "validate_segment segment st =
     (case st of (segment_index, offset) \<Rightarrow>
        if segment = [] then Inl (EmptySegment segment_index)
        else if length segment > MAX_IDENTIFIER_SEGMENT_LENGTH then
          Inl (SegmentTooLong segment_index (length segment) MAX_IDENTIFIER_SEGMENT_LENGTH)
        else if \<not> is_ascii_lowercase (hd segment) then
          Inl (InvalidSegmentStart segment_index offset)
        else
          and_then (for_each (check_segment_byte offset) (drop 1 (enumerate 0 segment)) ())
            (\<lambda>_. if last segment = CHR ''-'' then
                    Inl (InvalidSegmentEnd segment_index (offset + length segment - 1))
                  else Inr (segment_index + 1, offset + (length segment + 1))))"

definition validate_identifier :: "str \<Rightarrow> identifier_error + unit" where
  "validate_identifier value =
     (if value = [] then Inl EmptyIdentifier
      else if length value > MAX_IDENTIFIER_LENGTH then
        Inl (TooLong (length value) MAX_IDENTIFIER_LENGTH)
      else if \<not> is_ascii value then Inl NonAscii
      else and_then (for_each validate_segment (split_on CHR ''.'' value) (0, 0)) (\<lambda>_. Inr ()))"

section \<open>The identifier types\<close>

datatype plugin_id = PluginId (plugin_id_as_str: str)
datatype capability_id = CapabilityId (capability_id_as_str: str)

definition plugin_id_new :: "str \<Rightarrow> identifier_error + plugin_id" where
  "plugin_id_new value = and_then (validate_identifier value) (\<lambda>_. Inr (PluginId value))"

definition capability_id_new :: "str \<Rightarrow> identifier_error + capability_id" where
  "capability_id_new value = and_then (validate_identifier value) (\<lambda>_. Inr (CapabilityId value))"

text \<open>The derived orders compare the underlying strings.\<close>

instantiation plugin_id :: linorder
begin

definition less_eq_plugin_id :: "plugin_id \<Rightarrow> plugin_id \<Rightarrow> bool" where
  "less_eq_plugin_id p q \<longleftrightarrow> plugin_id_as_str p \<le> plugin_id_as_str q"

definition less_plugin_id :: "plugin_id \<Rightarrow> plugin_id \<Rightarrow> bool" where
  "less_plugin_id p q \<longleftrightarrow> plugin_id_as_str p < plugin_id_as_str q"

instance
  by standard (auto simp: less_eq_plugin_id_def less_plugin_id_def plugin_id.expand)

end

instantiation capability_id :: linorder
begin

definition less_eq_capability_id :: "capability_id \<Rightarrow> capability_id \<Rightarrow> bool" where
  "less_eq_capability_id p q \<longleftrightarrow> capability_id_as_str p \<le> capability_id_as_str q"

definition less_capability_id :: "capability_id \<Rightarrow> capability_id \<Rightarrow> bool" where
  "less_capability_id p q \<longleftrightarrow> capability_id_as_str p < capability_id_as_str q"

instance
  by standard (auto simp: less_eq_capability_id_def less_capability_id_def capability_id.expand)

end

section \<open>The grammar\<close>

definition canonical_segment :: "str \<Rightarrow> bool" where
  "canonical_segment s \<longleftrightarrow>
     s \<noteq> [] \<and> length s \<le> 63 \<and> is_ascii_lowercase (hd s) \<and>
     (\<forall>c \<in> set s. is_segment_byte c) \<and> last s \<noteq> CHR ''-''"

definition canonical_identifier :: "str \<Rightarrow> bool" where
  "canonical_identifier s \<longleftrightarrow>
     length s \<le> 255 \<and> (\<exists>segs. segs \<noteq> [] \<and> s = join_with ''.'' segs \<and> (\<forall>seg \<in> set segs. canonical_segment seg))"

section \<open>Splitting and joining\<close>

lemma split_on_nonempty [simp]: "split_on d s \<noteq> []"
  by (cases s) (auto split: list.splits)

lemma join_with_Cons: "ss \<noteq> [] \<Longrightarrow> join_with d (s # ss) = s @ d @ join_with d ss"
  by (cases ss) auto

lemma join_split: "join_with [d] (split_on d s) = s"
proof (induction s)
  case (Cons c s)
  then show ?case
    by (cases "split_on d s"; cases "tl (split_on d s)") (auto simp: join_with_Cons)
qed simp

lemma split_on_free: "seg \<in> set (split_on d s) \<Longrightarrow> d \<notin> set seg"
proof (induction s arbitrary: seg)
  case (Cons c s)
  obtain t ts where "split_on d s = t # ts" by (cases "split_on d s") auto
  with Cons show ?case by (auto split: if_splits)
qed simp

lemma split_on_prefix:
  "d \<notin> set s \<Longrightarrow> split_on d (s @ r) = (case split_on d r of [] \<Rightarrow> [s] | t # ts \<Rightarrow> (s @ t) # ts)"
proof (induction s)
  case Nil
  then show ?case by (cases "split_on d r") auto
next
  case (Cons c s)
  then show ?case by (cases "split_on d r") auto
qed

lemma split_join:
  "segs \<noteq> [] \<Longrightarrow> (\<forall>seg \<in> set segs. d \<notin> set seg) \<Longrightarrow> split_on d (join_with [d] segs) = segs"
proof (induction segs rule: list_nonempty_induct)
  case (single s)
  then show ?case using split_on_prefix [of d s "[]"] by simp
next
  case (cons s ss)
  then show ?case using split_on_prefix [of d s "d # join_with [d] ss"] by (simp add: join_with_Cons)
qed

text \<open>Where a segment of the split lies in the whole string.\<close>

lemma split_on_position:
  assumes "split_on d s = ys @ x # zs"
  obtains p q where "s = p @ x @ q" and "length p = (\<Sum>y\<leftarrow>ys. length y + 1)"
    and "p = [] \<or> last p = d" and "q = [] \<or> hd q = d" and "count_list p d = length ys"
proof -
  have free: "\<forall>y \<in> set ys. d \<notin> set y" using assms split_on_free [of _ d s] by auto
  let ?p = "concat (map (\<lambda>y. y @ [d]) ys)"
  let ?q = "if zs = [] then [] else d # join_with [d] zs"
  have "join_with [d] (ys @ x # zs) = ?p @ x @ ?q"
    by (induction ys) (auto simp: join_with_Cons)
  then have "s = ?p @ x @ ?q" using assms join_split [of d s] by simp
  moreover have "length ?p = (\<Sum>y\<leftarrow>ys. length y + 1)" by (induction ys) auto
  moreover have "?p = [] \<or> last ?p = d" by (induction ys rule: rev_induct) auto
  moreover have "?q = [] \<or> hd ?q = d" by simp
  moreover have "count_list ?p d = length ys"
    using free by (induction ys) (auto simp: count_list_append count_notin)
  ultimately show thesis using that by blast
qed

section \<open>One segment\<close>

lemma check_segment_bytes_ok:
  "for_each (check_segment_byte offset) ps () = Inr () \<longleftrightarrow> (\<forall>p \<in> set ps. is_segment_byte (snd p))"
  by (induction ps) (auto simp: result_simps check_segment_byte_def split: if_splits)

lemma check_segment_bytes_error:
  "for_each (check_segment_byte offset) ps () = Inl e \<Longrightarrow>
     \<exists>i c. (i, c) \<in> set ps \<and> \<not> is_segment_byte c \<and> e = InvalidCharacter (offset + i) c"
  by (auto simp: for_each_error check_segment_byte_def split: if_splits prod.splits)

lemma set_enumerate_drop:
  "(i, c) \<in> set (drop n (enumerate 0 s)) \<Longrightarrow> n \<le> i \<and> i < length s \<and> s ! i = c"
  by (auto simp: in_set_conv_nth nth_enumerate_eq add.commute less_diff_conv2)

lemma snd_drop_enumerate: "map snd (drop n (enumerate 0 s)) = drop n s"
  by (metis drop_map map_snd_enumerate)

lemma lowercase_segment_byte: "is_ascii_lowercase c \<Longrightarrow> is_segment_byte c"
  by (simp add: is_segment_byte_def)

lemma validate_segment_ok:
  "validate_segment seg (k, offset) = Inr st \<longleftrightarrow>
     canonical_segment seg \<and> st = (k + 1, offset + (length seg + 1))"
proof -
  have "(\<forall>p \<in> set (drop 1 (enumerate 0 seg)). is_segment_byte (snd p)) \<longleftrightarrow>
      (\<forall>c \<in> set (drop 1 seg). is_segment_byte c)"
    by (metis (no_types, lifting) image_iff list.set_map snd_drop_enumerate)
  then show ?thesis
    by (cases seg)
       (auto simp: validate_segment_def canonical_segment_def check_segment_bytes_ok result_simps
          MAX_IDENTIFIER_SEGMENT_LENGTH_def lowercase_segment_byte split: if_splits)
qed

lemma validate_segments_ok:
  "for_each validate_segment segs (k, offset) = Inr st \<longleftrightarrow>
     (\<forall>seg \<in> set segs. canonical_segment seg) \<and>
     st = (k + length segs, offset + (\<Sum>seg\<leftarrow>segs. length seg + 1))"
proof (induction segs arbitrary: k offset)
  case (Cons seg segs)
  then show ?case by (auto simp: result_simps validate_segment_ok algebra_simps)
qed auto

lemma segment_byte_not_dot: "is_segment_byte c \<Longrightarrow> c \<noteq> CHR ''.'' \<and> (of_char c :: nat) < 128"
proof -
  assume "is_segment_byte c"
  then have "(of_char c :: nat) \<in> {97..122} \<union> {48..57} \<union> {45}"
    by (auto simp: is_segment_byte_def is_ascii_lowercase_def is_ascii_digit_def less_eq_char_def)
  then show ?thesis by (auto simp: )
qed

lemma canonical_identifier_split:
  "canonical_identifier s \<longleftrightarrow> length s \<le> 255 \<and> (\<forall>seg \<in> set (split_on CHR ''.'' s). canonical_segment seg)"
proof -
  have "split_on CHR ''.'' (join_with ''.'' segs) = segs"
    if "segs \<noteq> []" "\<forall>seg \<in> set segs. canonical_segment seg" for segs
    using that by (intro split_join) (auto simp: canonical_segment_def dest: segment_byte_not_dot)
  then show ?thesis
    unfolding canonical_identifier_def by (metis join_split split_on_nonempty)
qed

lemma canonical_identifier_ascii: "canonical_identifier s \<Longrightarrow> s \<noteq> [] \<and> is_ascii s"
proof -
  assume canonical: "canonical_identifier s"
  then have segs: "\<forall>seg \<in> set (split_on CHR ''.'' s). canonical_segment seg"
    by (simp add: canonical_identifier_split)
  have "set (join_with ''.'' segs) \<subseteq> {CHR ''.''} \<union> \<Union> (set ` set segs)" for segs
    by (induction segs rule: induct_list012) auto
  then have "set s \<subseteq> {CHR ''.''} \<union> \<Union> (set ` set (split_on CHR ''.'' s))"
    by (metis join_split)
  then have "c = CHR ''.'' \<or> is_segment_byte c" if "c \<in> set s" for c
    using that segs by (fastforce simp: canonical_segment_def)
  then have "(of_char c :: nat) < 128" if "c \<in> set s" for c
    using that segment_byte_not_dot [of c] by fastforce
  then have "is_ascii s" by (simp add: is_ascii_def)
  moreover from segs have "s \<noteq> []" by (auto simp: canonical_segment_def)
  ultimately show ?thesis by simp
qed

section \<open>Properties\<close>

lemma validate_identifier_ok: "validate_identifier v = Inr () \<longleftrightarrow> canonical_identifier v"
proof -
  have "validate_identifier v = Inr () \<longleftrightarrow> v \<noteq> [] \<and> length v \<le> 255 \<and> is_ascii v \<and>
      (\<forall>seg \<in> set (split_on CHR ''.'' v). canonical_segment seg)"
    by (auto simp: validate_identifier_def MAX_IDENTIFIER_LENGTH_def result_simps validate_segments_ok)
  then show ?thesis
    using canonical_identifier_ascii [of v] by (auto simp: canonical_identifier_split)
qed

text \<open>C25: the validator accepts exactly the identifiers of the grammar: at most 255 bytes, one or
  more dot-separated segments of at most 63 bytes that start with a lowercase letter, continue
  with lowercase letters, digits or hyphens and do not end with a hyphen.\<close>

theorem validate_identifier_iff: "validate_identifier v = Inr () \<longleftrightarrow> canonical_identifier v"
  by (rule validate_identifier_ok)

definition points_at :: "str \<Rightarrow> identifier_error \<Rightarrow> bool" where
  \<comment> \<open>what a positioned error says of the identifier it was raised for\<close>
  "points_at v e = (case e of
     InvalidCharacter i c \<Rightarrow> i < length v \<and> v ! i = c \<and> \<not> is_segment_byte c \<and> c \<noteq> CHR ''.''
   | InvalidSegmentStart k i \<Rightarrow> i < length v \<and> \<not> is_ascii_lowercase (v ! i) \<and>
       (i = 0 \<or> v ! (i - 1) = CHR ''.'') \<and> count_list (take i v) CHR ''.'' = k
   | InvalidSegmentEnd k i \<Rightarrow> i < length v \<and> v ! i = CHR ''-'' \<and>
       (i + 1 = length v \<or> v ! (i + 1) = CHR ''.'') \<and> count_list (take i v) CHR ''.'' = k
   | EmptySegment k \<Rightarrow> split_on CHR ''.'' v ! k = [] \<and> k < length (split_on CHR ''.'' v)
   | SegmentTooLong k actual maximum \<Rightarrow> k < length (split_on CHR ''.'' v) \<and>
       actual = length (split_on CHR ''.'' v ! k) \<and> maximum < actual
   | TooLong actual maximum \<Rightarrow> actual = length v \<and> maximum < actual
   | _ \<Rightarrow> True)"

lemma validate_segment_error_points:
  assumes split: "split_on CHR ''.'' v = ys @ x # zs"
    and err: "validate_segment x (length ys, \<Sum>y\<leftarrow>ys. length y + 1) = Inl e"
  shows "points_at v e"
proof -
  from split_on_position [OF split] obtain p q where v: "v = p @ x @ q"
    and p: "length p = (\<Sum>y\<leftarrow>ys. length y + 1)" "p = [] \<or> last p = CHR ''.''"
    and q: "q = [] \<or> hd q = CHR ''.''" and count: "count_list p CHR ''.'' = length ys" .
  have free: "CHR ''.'' \<notin> set x" using split_on_free [of x "CHR ''.''" v] split by simp
  have seg: "split_on CHR ''.'' v ! length ys = x" "length ys < length (split_on CHR ''.'' v)"
    using split by simp_all
  have before: "p = [] \<or> v ! (length p - 1) = CHR ''.''"
    using p(2) v by (cases "p = []") (simp_all add: nth_append last_conv_nth)
  have after: "length p + length x = length v \<or> v ! (length p + length x) = CHR ''.''"
    using q v by (cases q) (auto simp: nth_append)
  show ?thesis
    using err
  proof (cases "x = [] \<or> length x > MAX_IDENTIFIER_SEGMENT_LENGTH \<or> \<not> is_ascii_lowercase (hd x)")
    case True
    then show ?thesis
      using err seg v before count p(1)
      by (cases x) (auto simp: validate_segment_def points_at_def nth_append split: if_splits)
  next
    case False
    then have x: "x \<noteq> []" by simp
    show ?thesis
    proof (cases "for_each (check_segment_byte (length p)) (drop 1 (enumerate 0 x)) ()")
      case (Inl d)
      with check_segment_bytes_error [OF Inl] obtain i c where
        "(i, c) \<in> set (drop 1 (enumerate 0 x))" "\<not> is_segment_byte c" "d = InvalidCharacter (length p + i) c"
        by blast
      moreover have "e = d" using err False Inl p(1) by (simp add: validate_segment_def split: if_splits)
      ultimately show ?thesis
        using v free set_enumerate_drop [of i c 1 x] nth_mem [of i x] by (auto simp: points_at_def nth_append)
    next
      case (Inr u)
      then have "last x = CHR ''-''" and "e = InvalidSegmentEnd (length ys) (length p + length x - 1)"
        using err False p(1) by (auto simp: validate_segment_def split: if_splits)
      moreover have "v ! (length p + length x - 1) = last x"
        using x v by (cases x rule: rev_cases) (simp_all add: nth_append)
      moreover have "take (length p + length x - 1) v = p @ butlast x"
        using x v by (cases x rule: rev_cases) simp_all
      moreover have "count_list (butlast x) CHR ''.'' = 0"
        using free by (meson count_notin in_set_butlastD)
      ultimately show ?thesis
        using x after v count by (cases x) (auto simp: points_at_def count_list_append)
    qed
  qed
qed

text \<open>Every error of the validator names what is wrong where it says: the byte index of an
  invalid character, segment start or segment end is an index of the whole identifier that holds
  such a byte, and segment numbers and lengths are those of the split.\<close>

lemma validate_identifier_error_located:
  assumes "validate_identifier v = Inl e"
  shows "points_at v e"
proof (cases "v = [] \<or> length v > MAX_IDENTIFIER_LENGTH \<or> \<not> is_ascii v")
  case True
  with assms show ?thesis by (auto simp: validate_identifier_def points_at_def split: if_splits)
next
  case False
  with assms have "for_each validate_segment (split_on CHR ''.'' v) (0, 0) = Inl e"
    by (auto simp: validate_identifier_def result_simps)
  then obtain ys x zs st where split: "split_on CHR ''.'' v = ys @ x # zs"
    and "for_each validate_segment ys (0, 0) = Inr st" and err: "validate_segment x st = Inl e"
    by (auto simp: for_each_error)
  then have "st = (length ys, \<Sum>y\<leftarrow>ys. length y + 1)" by (simp add: validate_segments_ok)
  with err show ?thesis by (auto intro: validate_segment_error_points [OF split])
qed

theorem validate_identifier_error_located_witness:
  "validate_identifier ''dev.bad@cap'' = Inl (InvalidCharacter 7 CHR ''@'') \<and>
   points_at ''dev.bad@cap'' (InvalidCharacter 7 CHR ''@'')"
proof -
  have e: "validate_identifier ''dev.bad@cap'' = Inl (InvalidCharacter 7 CHR ''@'')" by code_simp
  show ?thesis using e validate_identifier_error_located [OF e] by simp
qed

end
