(* ===== verification/Ordered_Collections.thy ===== *)
theory Ordered_Collections
  imports Kernox_Prelude
begin

text \<open>
  \<open>BTreeMap\<close> and \<open>BTreeSet\<close> of Rust's standard library, as the program uses them: a map is
  its list of entries in strictly ascending key order, a set the list of its elements in
  strictly ascending order. Iteration is the list itself, so every order the source promises
  ("stable identity order") is visible in the model, and two maps with the same content are
  equal.

  The interface the clients rely on is stated twice: \<open>keyed_store\<close> is what a loop of the form
  "insert, and fail when the key was already there" needs, \<open>ordered_map\<close> adds lookup and the
  ordered iteration. Both are interpreted on the model below.
\<close>

section \<open>Operations\<close>

type_synonym ('k, 'v) btree_map = "('k \<times> 'v) list"
type_synonym 'k btree_set = "'k list"

definition bm_wf :: "('k::linorder, 'v) btree_map \<Rightarrow> bool" where
  "bm_wf m \<longleftrightarrow> ascending (map fst m)"

fun bm_insert :: "'k::linorder \<Rightarrow> 'v \<Rightarrow> ('k, 'v) btree_map \<Rightarrow> ('k, 'v) btree_map" where
  "bm_insert k v [] = [(k, v)]"
| "bm_insert k v (p # m) =
     (if k < fst p then (k, v) # p # m
      else if fst p < k then p # bm_insert k v m
      else (k, v) # m)"

definition bm_get :: "('k, 'v) btree_map \<Rightarrow> 'k \<Rightarrow> 'v option" where
  "bm_get m k = map_of m k"

definition bm_contains :: "('k, 'v) btree_map \<Rightarrow> 'k \<Rightarrow> bool" where
  "bm_contains m k \<longleftrightarrow> bm_get m k \<noteq> None"

definition bm_keys :: "('k, 'v) btree_map \<Rightarrow> 'k list" where
  "bm_keys m = map fst m"

definition bm_values :: "('k, 'v) btree_map \<Rightarrow> 'v list" where
  "bm_values m = map snd m"

definition bm_remove :: "'k \<Rightarrow> ('k, 'v) btree_map \<Rightarrow> ('k, 'v) btree_map" where
  "bm_remove k m = filter (\<lambda>p. fst p \<noteq> k) m"

definition bm_modify :: "'k \<Rightarrow> ('v \<Rightarrow> 'v) \<Rightarrow> ('k, 'v) btree_map \<Rightarrow> ('k, 'v) btree_map" where
  \<comment> \<open>\<open>entry(k).and_modify(f)\<close> and an update through \<open>get_mut(k)\<close>: nothing is inserted\<close>
  "bm_modify k f m = map (\<lambda>p. if fst p = k then (fst p, f (snd p)) else p) m"

definition bs_insert :: "'k::linorder \<Rightarrow> 'k btree_set \<Rightarrow> 'k btree_set" where
  "bs_insert k s = insort_insert k s"

definition bs_contains :: "'k btree_set \<Rightarrow> 'k \<Rightarrow> bool" where
  "bs_contains s k \<longleftrightarrow> k \<in> set s"

definition bs_of :: "'k::linorder list \<Rightarrow> 'k btree_set" where
  \<comment> \<open>\<open>collect::<BTreeSet<_>>()\<close>\<close>
  "bs_of xs = fold bs_insert xs []"

section \<open>Facts\<close>

lemma bm_get_simps [simp]:
  "bm_get [] k = None"
  "bm_get (p # m) k = (if fst p = k then Some (snd p) else bm_get m k)"
  by (cases p; simp add: bm_get_def)+

lemma bm_keys_simps [simp]: "bm_keys [] = []" "bm_keys (p # m) = fst p # bm_keys m"
  by (simp_all add: bm_keys_def)

lemma bm_values_simps [simp]: "bm_values [] = []" "bm_values (p # m) = snd p # bm_values m"
  by (simp_all add: bm_values_def)

lemma bm_wf_Nil [simp]: "bm_wf []"
  by (simp add: bm_wf_def)

lemma bm_wf_Cons: "bm_wf (p # m) \<longleftrightarrow> (\<forall>k \<in> set (bm_keys m). fst p < k) \<and> bm_wf m"
  by (simp add: bm_wf_def bm_keys_def)

lemma bm_get_None_iff: "bm_get m k = None \<longleftrightarrow> k \<notin> set (bm_keys m)"
  by (induction m) auto

lemma bm_contains_iff: "bm_contains m k \<longleftrightarrow> k \<in> set (bm_keys m)"
  by (simp add: bm_contains_def bm_get_None_iff)

lemma bm_get_SomeD: "bm_get m k = Some v \<Longrightarrow> (k, v) \<in> set m"
  by (induction m) (auto split: if_splits)

lemma bm_get_eq_Some_iff: "bm_wf m \<Longrightarrow> bm_get m k = Some v \<longleftrightarrow> (k, v) \<in> set m"
  by (induction m) (force simp: bm_wf_Cons bm_keys_def)+

lemma bm_get_insert: "bm_wf m \<Longrightarrow> bm_get (bm_insert k v m) j = (if j = k then Some v else bm_get m j)"
  by (induction m) (auto simp: bm_wf_Cons)

lemma set_bm_keys_insert: "set (bm_keys (bm_insert k v m)) = insert k (set (bm_keys m))"
proof (induction m)
  case (Cons p m)
  then show ?case by (cases k "fst p" rule: linorder_cases) auto
qed simp

lemma bm_wf_insert: "bm_wf m \<Longrightarrow> bm_wf (bm_insert k v m)"
  by (induction m) (auto simp: bm_wf_Cons set_bm_keys_insert)

lemma bm_wf_distinct: "bm_wf m \<Longrightarrow> distinct (bm_keys m)"
  by (simp add: bm_wf_def bm_keys_def ascending_distinct)

lemma bm_wf_keys: "bm_wf m \<Longrightarrow> ascending (bm_keys m)"
  by (simp add: bm_wf_def bm_keys_def)

lemma set_bm_insert_fresh:
  "bm_get m k = None \<Longrightarrow> set (bm_insert k v m) = insert (k, v) (set m)"
  by (induction m) (auto split: if_splits simp: not_less_iff_gr_or_eq)

lemma bm_extensional:
  assumes "bm_wf m" "bm_wf n" and same: "\<And>k. bm_get m k = bm_get n k"
  shows "m = n"
proof -
  have sets: "set m = set n"
    using bm_get_eq_Some_iff [OF assms(1)] bm_get_eq_Some_iff [OF assms(2)] same by auto
  have keys: "map fst m = map fst n"
    using assms(1,2) sets by (intro ascending_unique) (auto simp: bm_wf_def)
  have "m ! i = n ! i" if i: "i < length m" for i
  proof -
    from keys have len: "length m = length n" by (metis length_map)
    have "m ! i \<in> set n" using i sets nth_mem by blast
    moreover have "n ! i \<in> set n" using i len by simp
    moreover have "fst (m ! i) = fst (n ! i)" using keys i len by (metis nth_map)
    ultimately show ?thesis
      using bm_get_eq_Some_iff [OF assms(2)] by (metis option.inject prod.collapse)
  qed
  moreover from keys have "length m = length n" by (metis length_map)
  ultimately show ?thesis by (rule nth_equalityI [rotated])
qed

lemma bm_wf_remove: "bm_wf m \<Longrightarrow> bm_wf (bm_remove k m)"
  by (induction m) (auto simp: bm_wf_Cons bm_remove_def bm_keys_def)

lemma bm_get_remove: "bm_get (bm_remove k m) j = (if j = k then None else bm_get m j)"
  by (induction m) (auto simp: bm_remove_def)

lemma bm_get_modify: "bm_get (bm_modify k f m) j = (if j = k then map_option f (bm_get m j) else bm_get m j)"
  by (induction m) (auto simp: bm_modify_def)

lemma bm_keys_modify [simp]: "bm_keys (bm_modify k f m) = bm_keys m"
  by (induction m) (auto simp: bm_modify_def)

lemma bm_wf_modify [simp]: "bm_wf (bm_modify k f m) = bm_wf m"
  by (simp add: bm_wf_def flip: bm_keys_def)

lemma bm_modify_same: "bm_wf m \<Longrightarrow> bm_get m k = Some x \<Longrightarrow> bm_modify k (\<lambda>_. x) m = m"
  unfolding bm_modify_def by (intro map_idI) (auto simp: bm_get_eq_Some_iff [symmetric])

lemma set_bs_insert [simp]: "set (bs_insert k s) = insert k (set s)"
  by (simp add: bs_insert_def set_insort_insert)

lemma bs_insert_ascending: "ascending s \<Longrightarrow> ascending (bs_insert k s)"
  by (simp add: bs_insert_def strict_sorted_iff sorted_insort_insert distinct_insort_insert)

lemma bs_of_set_ascending: "set (bs_of xs) = set xs \<and> ascending (bs_of xs)"
proof -
  have "set (fold bs_insert xs s) = set xs \<union> set s \<and> (ascending s \<longrightarrow> ascending (fold bs_insert xs s))" for s
    by (induction xs arbitrary: s) (auto simp: bs_insert_ascending)
  from this [of "[]"] show ?thesis by (simp add: bs_of_def)
qed

lemma set_bs_of [simp]: "set (bs_of xs) = set xs"
  using bs_of_set_ascending by blast

lemma ascending_bs_of [simp]: "ascending (bs_of xs)"
  using bs_of_set_ascending by blast

lemma bs_of_ascending: "ascending xs \<Longrightarrow> bs_of xs = xs"
  by (rule ascending_unique) simp_all

lemma bs_contains_iff [simp]: "bs_contains s k \<longleftrightarrow> k \<in> set s"
  by (simp add: bs_contains_def)

section \<open>The interface of a keyed store\<close>

text \<open>
  Many loops of the program insert one item after the other and return an error as soon as an
  item is malformed (\<open>bad\<close>) or its key is already present (\<open>dup\<close>). What they need of the
  collection is this contract; what they get from it is proved once.
\<close>

locale keyed_store =
  fixes has :: "'m \<Rightarrow> 'k \<Rightarrow> bool"
    and put :: "'k \<Rightarrow> 'v \<Rightarrow> 'm \<Rightarrow> 'm"
    and wf :: "'m \<Rightarrow> bool"
  assumes has_put: "wf m \<Longrightarrow> has (put k v m) j \<longleftrightarrow> j = k \<or> has m j"
    and wf_put: "wf m \<Longrightarrow> wf (put k v m)"
begin

definition inserts_once ::
  "('x \<Rightarrow> 'm \<Rightarrow> 'e + 'm) \<Rightarrow> ('x \<Rightarrow> 'e option) \<Rightarrow> ('x \<Rightarrow> 'e) \<Rightarrow> ('x \<Rightarrow> 'k) \<Rightarrow> ('x \<Rightarrow> 'v) \<Rightarrow> 'x set \<Rightarrow> bool" where
  "inserts_once step bad dup key val X \<longleftrightarrow> (\<forall>x \<in> X. \<forall>m. wf m \<longrightarrow> step x m =
     (case bad x of Some e \<Rightarrow> Inl e
      | None \<Rightarrow> if has m (key x) then Inl (dup x) else Inr (put (key x) (val x) m)))"

lemma inserts_onceD:
  assumes "inserts_once step bad dup key val X" "x \<in> X" "wf m"
  shows "step x m = (case bad x of Some e \<Rightarrow> Inl e
      | None \<Rightarrow> if has m (key x) then Inl (dup x) else Inr (put (key x) (val x) m))"
  using assms by (simp add: inserts_once_def)

lemma inserts_once_step:
  assumes "inserts_once step bad dup key val X" "x \<in> X" "wf m" "step x m = Inr n"
  shows "n = put (key x) (val x) m \<and> wf n \<and> bad x = None \<and> \<not> has m (key x)"
  using assms(4) inserts_onceD [OF assms(1-3)]
  by (auto split: option.splits if_splits simp: wf_put assms(3))

lemma inserts_once_subset: "inserts_once step bad dup key val X \<Longrightarrow> Y \<subseteq> X \<Longrightarrow> inserts_once step bad dup key val Y"
  by (auto simp: inserts_once_def)

lemma inserts_once_loop_result:
  assumes "inserts_once step bad dup key val (set xs)" and "wf m" and "for_each step xs m = Inr m'"
  shows "wf m' \<and> (\<forall>k. has m' k \<longleftrightarrow> has m k \<or> k \<in> key ` set xs)"
  using assms
proof (induction xs arbitrary: m)
  case (Cons x xs)
  from Cons.prems(3) obtain n where n: "step x m = Inr n" "for_each step xs n = Inr m'"
    by (auto simp: result_simps)
  have put: "n = put (key x) (val x) m" and "wf n"
    using inserts_once_step [OF Cons.prems(1) _ Cons.prems(2) n(1)] by auto
  moreover have "inserts_once step bad dup key val (set xs)"
    by (rule inserts_once_subset [OF Cons.prems(1)]) auto
  ultimately show ?case
    using Cons.IH [of n] n(2) Cons.prems(2) by (auto simp: has_put)
qed simp

lemma inserts_once_loop_ok:
  assumes "inserts_once step bad dup key val (set xs)" and "wf m"
  shows "(\<exists>m'. for_each step xs m = Inr m') \<longleftrightarrow>
    (\<forall>x \<in> set xs. bad x = None \<and> \<not> has m (key x)) \<and> distinct (map key xs)"
  using assms
proof (induction xs arbitrary: m)
  case (Cons x xs)
  have x: "step x m = (case bad x of Some e \<Rightarrow> Inl e
      | None \<Rightarrow> if has m (key x) then Inl (dup x) else Inr (put (key x) (val x) m))"
    by (rule inserts_onceD [OF Cons.prems(1) _ Cons.prems(2)]) simp
  have sub: "inserts_once step bad dup key val (set xs)"
    by (rule inserts_once_subset [OF Cons.prems(1)]) auto
  show ?case
  proof (cases "bad x = None \<and> \<not> has m (key x)")
    case True
    have rest: "(\<exists>m'. for_each step xs (put (key x) (val x) m) = Inr m') \<longleftrightarrow>
        (\<forall>y \<in> set xs. bad y = None \<and> key y \<noteq> key x \<and> \<not> has m (key y)) \<and> distinct (map key xs)"
      using Cons.IH [OF sub wf_put [OF Cons.prems(2)]] Cons.prems(2) by (auto simp: has_put)
    have loop: "for_each step (x # xs) m = for_each step xs (put (key x) (val x) m)"
      using True x by simp
    have dist: "distinct (map key (x # xs)) \<longleftrightarrow> (\<forall>y \<in> set xs. key y \<noteq> key x) \<and> distinct (map key xs)"
      by (simp add: image_iff) metis
    show ?thesis unfolding loop rest dist using True by auto
  qed (auto simp: x split: option.splits)
qed simp

end

locale ordered_map = keyed_store has put wf
  for has :: "'m \<Rightarrow> 'k \<Rightarrow> bool" and put :: "'k \<Rightarrow> 'v \<Rightarrow> 'm \<Rightarrow> 'm" and wf :: "'m \<Rightarrow> bool" +
  fixes get :: "'m \<Rightarrow> 'k \<Rightarrow> 'v option"
  assumes has_get: "has m k \<longleftrightarrow> get m k \<noteq> None"
    and get_put: "wf m \<Longrightarrow> get (put k v m) j = (if j = k then Some v else get m j)"
    and ext: "wf m \<Longrightarrow> wf n \<Longrightarrow> (\<And>k. get m k = get n k) \<Longrightarrow> m = n"
begin

lemma inserts_once_loop_get:
  assumes "inserts_once step bad dup key val (set xs)" and "wf m" and "for_each step xs m = Inr m'"
  shows "get m' k = (case map_of (map (\<lambda>x. (key x, val x)) xs) k of Some v \<Rightarrow> Some v | None \<Rightarrow> get m k)"
  using assms
proof (induction xs arbitrary: m)
  case (Cons x xs)
  from Cons.prems(3) obtain n where n: "step x m = Inr n" "for_each step xs n = Inr m'"
    by (auto simp: result_simps)
  have put: "n = put (key x) (val x) m" and wf: "wf n"
    using inserts_once_step [OF Cons.prems(1) _ Cons.prems(2) n(1)] by auto
  have sub: "inserts_once step bad dup key val (set xs)"
    by (rule inserts_once_subset [OF Cons.prems(1)]) auto
  have "\<forall>y \<in> set xs. \<not> has n (key y)"
    using inserts_once_loop_ok [OF sub wf] n(2) by blast
  then have "map_of (map (\<lambda>x. (key x, val x)) xs) (key x) = None"
    using put Cons.prems(2) by (auto simp: map_of_eq_None_iff has_put)
  with Cons.IH [OF sub wf n(2)] show ?case
    using put Cons.prems(2) by (auto simp: get_put split: option.splits)
qed simp

text \<open>A loop that succeeds does not depend on the order of the items.\<close>

lemma inserts_once_loop_permute:
  assumes xs: "inserts_once step bad dup key val (set xs)" and wf: "wf m"
    and ok: "for_each step xs m = Inr m'" and perm: "mset ys = mset xs"
  shows "for_each step ys m = Inr m'"
proof -
  from perm have set: "set ys = set xs" by (metis set_mset_mset)
  with xs have ys: "inserts_once step bad dup key val (set ys)" by simp
  from perm have dist: "distinct (map key ys) = distinct (map key xs)"
    by (metis mset_eq_imp_distinct_iff mset_map)
  have cond: "(\<forall>x \<in> set xs. bad x = None \<and> \<not> has m (key x)) \<and> distinct (map key xs)"
    using inserts_once_loop_ok [OF xs wf] ok by blast
  then obtain n where n: "for_each step ys m = Inr n"
    using inserts_once_loop_ok [OF ys wf] set dist by auto
  have "map_of (map (\<lambda>x. (key x, val x)) ys) = map_of (map (\<lambda>x. (key x, val x)) xs)"
    using cond dist set by (subst map_of_inject_set) (auto simp: comp_def)
  then have same: "get n k = get m' k" for k
    using inserts_once_loop_get [OF xs wf ok, of k] inserts_once_loop_get [OF ys wf n, of k] by simp
  have "n = m'"
    using inserts_once_loop_result [OF xs wf ok] inserts_once_loop_result [OF ys wf n] same
    by (intro ext) simp_all
  with n show ?thesis by simp
qed

end

text \<open>Both collections of the standard library satisfy the contract.\<close>

interpretation bmap: ordered_map bm_contains bm_insert bm_wf bm_get
proof
  show "bm_wf m \<Longrightarrow> bm_contains (bm_insert k v m) j \<longleftrightarrow> j = k \<or> bm_contains m j" for m k v j
    by (simp add: bm_contains_iff set_bm_keys_insert)
qed (auto simp: bm_wf_insert bm_contains_def bm_get_insert intro: bm_extensional)

interpretation bset: ordered_map bs_contains "\<lambda>k _. bs_insert k" ascending
  "\<lambda>s k. if bs_contains s k then Some () else None"
proof
  show "ascending m \<Longrightarrow> ascending n \<Longrightarrow>
      (\<And>k. (if bs_contains m k then Some () else None) = (if bs_contains n k then Some () else None)) \<Longrightarrow>
      m = n" for m n :: "'a list"
    by (rule ascending_unique) (auto split: if_splits, (metis option.distinct(1))+)
qed (auto simp: bs_insert_ascending)

section \<open>Loops that fill a map\<close>

lemma bm_wf_set_unique: "bm_wf m \<Longrightarrow> bm_wf n \<Longrightarrow> set m = set n \<Longrightarrow> m = n"
  by (rule bm_extensional) (auto, metis bm_get_eq_Some_iff not_None_eq)

lemma bmap_loop_entries:
  assumes once: "bmap.inserts_once step bad dup key val (set xs)" and ok: "for_each step xs [] = Inr m"
  shows "bm_wf m" and "set m = (\<lambda>x. (key x, val x)) ` set xs" and "distinct (map key xs)"
proof -
  show wf: "bm_wf m" using bmap.inserts_once_loop_result [OF once _ ok] by simp
  show dist: "distinct (map key xs)" using bmap.inserts_once_loop_ok [OF once, of "[]"] ok by auto
  have "(k, v) \<in> set m \<longleftrightarrow> (k, v) \<in> set (map (\<lambda>x. (key x, val x)) xs)" for k v
  proof -
    have "(k, v) \<in> set m \<longleftrightarrow> bm_get m k = Some v" by (simp add: bm_get_eq_Some_iff [OF wf])
    also have "\<dots> \<longleftrightarrow> map_of (map (\<lambda>x. (key x, val x)) xs) k = Some v"
      using bmap.inserts_once_loop_get [OF once _ ok, of k] by (simp split: option.splits)
    also have "\<dots> \<longleftrightarrow> (k, v) \<in> set (map (\<lambda>x. (key x, val x)) xs)"
      using dist by (intro map_of_eq_Some_iff) (simp add: comp_def)
    finally show ?thesis .
  qed
  then show "set m = (\<lambda>x. (key x, val x)) ` set xs" by auto
qed

lemma bmap_loop_ok:
  assumes "bmap.inserts_once step bad dup key val (set xs)"
  shows "(\<exists>m. for_each step xs [] = Inr m) \<longleftrightarrow> (\<forall>x \<in> set xs. bad x = None) \<and> distinct (map key xs)"
  using bmap.inserts_once_loop_ok [OF assms, of "[]"] by (simp add: bm_contains_def)

text \<open>Inserting the values of a map whose values carry their own key rebuilds the map.\<close>

lemma bmap_loop_of_entries:
  assumes once: "bmap.inserts_once step (\<lambda>_. None) dup key id (set (bm_values m))"
    and wf: "bm_wf m" and ids: "\<forall>(c, x) \<in> set m. key x = c"
  shows "for_each step (bm_values m) [] = Inr m"
proof -
  have "map key (bm_values m) = map fst m"
    using ids by (induction m) (auto simp: bm_values_def)
  with wf have "distinct (map key (bm_values m))"
    by (simp add: bm_wf_def ascending_distinct)
  then obtain n where n: "for_each step (bm_values m) [] = Inr n"
    using bmap_loop_ok [OF once] by auto
  have "set n = set m"
    using bmap_loop_entries(2) [OF once n] ids by (force simp: bm_values_def)
  then have "n = m" using bmap_loop_entries(1) [OF once n] wf by (intro bm_wf_set_unique)
  with n show ?thesis by simp
qed

lemma bset_loop_ok:
  assumes "bset.inserts_once step bad dup key val (set xs)"
  shows "(\<exists>s. for_each step xs [] = Inr s) \<longleftrightarrow> (\<forall>x \<in> set xs. bad x = None) \<and> distinct (map key xs)"
  using bset.inserts_once_loop_ok [OF assms, of "[]"] by simp

lemma bset_loop_elements:
  assumes "bset.inserts_once step bad dup key val (set xs)" and "for_each step xs [] = Inr s"
  shows "ascending s" and "set s = key ` set xs"
  using bset.inserts_once_loop_result [OF assms(1) _ assms(2)] by auto

end
