(* ===== verification/Descriptor.thy ===== *)
theory Descriptor
  imports Identifier Ordered_Collections
begin

text \<open>
  \<open>kernox-core/src/descriptor.rs\<close> and the descriptor half of \<open>error.rs\<close>: source attribution,
  capability offers and requirements, the plugin descriptor with its builder operations, its
  wire form and explicit bindings. The type \<open>'v\<close> stands for \<open>semver::Version\<close> and \<open>'q\<close> for
  \<open>semver::VersionReq\<close>, types of a library the repository only uses.
\<close>

section \<open>Errors\<close>

datatype descriptor_error =
    DuplicateOffer plugin_id capability_id
  | DuplicateRequirement plugin_id capability_id
  | DuplicateConflict plugin_id plugin_id
  | SelfConflict plugin_id
  | InvalidSource str str                \<comment> \<open>field, reason\<close>

fun descriptor_error_tag :: "descriptor_error \<Rightarrow> str" where
  "descriptor_error_tag (DuplicateOffer _ _) = ''descriptor.duplicate-offer''"
| "descriptor_error_tag (DuplicateRequirement _ _) = ''descriptor.duplicate-requirement''"
| "descriptor_error_tag (DuplicateConflict _ _) = ''descriptor.duplicate-conflict''"
| "descriptor_error_tag (SelfConflict _) = ''descriptor.self-conflict''"
| "descriptor_error_tag (InvalidSource _ _) = ''descriptor.invalid-source''"

section \<open>Source attribution\<close>

record plugin_source =
  src_package :: utext
  src_repository :: "utext option"

definition MAX_SOURCE_PACKAGE_LENGTH :: nat where "MAX_SOURCE_PACKAGE_LENGTH = 255"
definition MAX_SOURCE_REPOSITORY_LENGTH :: nat where "MAX_SOURCE_REPOSITORY_LENGTH = 2048"

definition validate_source_field :: "str \<Rightarrow> utext \<Rightarrow> nat \<Rightarrow> descriptor_error + unit" where
  "validate_source_field field value maximum =
     (if trim value = [] then Inl (InvalidSource field ''must not be empty'')
      else if trim value \<noteq> value then
        Inl (InvalidSource field ''must not have surrounding whitespace'')
      else if text_len value > maximum then Inl (InvalidSource field ''exceeds length bound'')
      else if (\<exists>c \<in> set value. is_control c) then
        Inl (InvalidSource field ''contains control characters'')
      else Inr ())"

definition plugin_source_new :: "utext \<Rightarrow> utext option \<Rightarrow> descriptor_error + plugin_source" where
  "plugin_source_new package repository =
     and_then (validate_source_field ''package'' package MAX_SOURCE_PACKAGE_LENGTH) (\<lambda>_.
     and_then
       (case repository of
          None \<Rightarrow> Inr ()
        | Some r \<Rightarrow> validate_source_field ''repository'' r MAX_SOURCE_REPOSITORY_LENGTH) (\<lambda>_.
     Inr \<lparr>src_package = package, src_repository = repository\<rparr>))"

section \<open>Offers, requirements and bindings\<close>

record 'v capability_offer =
  offer_id :: capability_id
  offer_version :: 'v

datatype cardinality = ExactlyOne | ZeroOrOne | ZeroOrMore | OneOrMore

definition is_bindable :: "cardinality \<Rightarrow> bool" where
  "is_bindable c = (case c of ExactlyOne \<Rightarrow> True | ZeroOrOne \<Rightarrow> True | _ \<Rightarrow> False)"

definition permits_zero :: "cardinality \<Rightarrow> bool" where
  "permits_zero c = (case c of ZeroOrOne \<Rightarrow> True | ZeroOrMore \<Rightarrow> True | _ \<Rightarrow> False)"

record 'q capability_requirement =
  req_id :: capability_id
  req_version :: 'q
  req_cardinality :: cardinality

definition exactly_one :: "capability_id \<Rightarrow> 'q \<Rightarrow> 'q capability_requirement" where
  "exactly_one c q = \<lparr>req_id = c, req_version = q, req_cardinality = ExactlyOne\<rparr>"

record binding =
  bind_consumer :: plugin_id
  bind_capability :: capability_id
  bind_provider :: plugin_id

section \<open>Plugin descriptors\<close>

record ('v, 'q) plugin_descriptor =
  pd_id :: plugin_id
  pd_version :: 'v
  pd_source :: "plugin_source option"
  pd_provides :: "(capability_id, 'v capability_offer) btree_map"
  pd_requires :: "(capability_id, 'q capability_requirement) btree_map"
  pd_conflicts :: "plugin_id btree_set"

definition descriptor_new :: "plugin_id \<Rightarrow> 'v \<Rightarrow> ('v, 'q) plugin_descriptor" where
  "descriptor_new p v =
     \<lparr>pd_id = p, pd_version = v, pd_source = None, pd_provides = [], pd_requires = [], pd_conflicts = []\<rparr>"

definition sourced_from :: "plugin_source \<Rightarrow> ('v, 'q) plugin_descriptor \<Rightarrow> ('v, 'q) plugin_descriptor" where
  "sourced_from s d = d\<lparr>pd_source := Some s\<rparr>"

definition provide ::
  "'v capability_offer \<Rightarrow> ('v, 'q) plugin_descriptor \<Rightarrow> descriptor_error + ('v, 'q) plugin_descriptor" where
  "provide offer d =
     (let capability = offer_id offer;
          previous = bm_get (pd_provides d) capability;
          d' = d\<lparr>pd_provides := bm_insert capability offer (pd_provides d)\<rparr>
      in if previous \<noteq> None then Inl (DuplicateOffer (pd_id d) capability) else Inr d')"

definition require_capability ::
  "'q capability_requirement \<Rightarrow> ('v, 'q) plugin_descriptor \<Rightarrow> descriptor_error + ('v, 'q) plugin_descriptor" where
  "require_capability requirement d =
     (let capability = req_id requirement;
          previous = bm_get (pd_requires d) capability;
          d' = d\<lparr>pd_requires := bm_insert capability requirement (pd_requires d)\<rparr>
      in if previous \<noteq> None then Inl (DuplicateRequirement (pd_id d) capability) else Inr d')"

definition conflict_with ::
  "plugin_id \<Rightarrow> ('v, 'q) plugin_descriptor \<Rightarrow> descriptor_error + ('v, 'q) plugin_descriptor" where
  "conflict_with conflict d =
     (if conflict = pd_id d then Inl (SelfConflict (pd_id d))
      else if bs_contains (pd_conflicts d) conflict then Inl (DuplicateConflict (pd_id d) conflict)
      else Inr (d\<lparr>pd_conflicts := bs_insert conflict (pd_conflicts d)\<rparr>))"

definition provides :: "('v, 'q) plugin_descriptor \<Rightarrow> 'v capability_offer list" where
  "provides d = bm_values (pd_provides d)"

definition requires :: "('v, 'q) plugin_descriptor \<Rightarrow> 'q capability_requirement list" where
  "requires d = bm_values (pd_requires d)"

definition offer :: "('v, 'q) plugin_descriptor \<Rightarrow> capability_id \<Rightarrow> 'v capability_offer option" where
  "offer d capability = bm_get (pd_provides d) capability"

section \<open>The wire form\<close>

record ('v, 'q) descriptor_wire =
  wire_id :: plugin_id
  wire_version :: 'v
  wire_source :: "plugin_source option"
  wire_provides :: "'v capability_offer list"
  wire_requires :: "'q capability_requirement list"
  wire_conflicts :: "plugin_id list"

definition descriptor_to_wire :: "('v, 'q) plugin_descriptor \<Rightarrow> ('v, 'q) descriptor_wire" where
  "descriptor_to_wire d =
     \<lparr>wire_id = pd_id d, wire_version = pd_version d, wire_source = pd_source d,
      wire_provides = bm_values (pd_provides d), wire_requires = bm_values (pd_requires d),
      wire_conflicts = pd_conflicts d\<rparr>"

definition descriptor_from_wire ::
  "('v, 'q) descriptor_wire \<Rightarrow> descriptor_error + ('v, 'q) plugin_descriptor" where
  "descriptor_from_wire wire =
     (let descriptor = descriptor_new (wire_id wire) (wire_version wire);
          descriptor = (case wire_source wire of Some s \<Rightarrow> sourced_from s descriptor | None \<Rightarrow> descriptor)
      in and_then (for_each provide (wire_provides wire) descriptor) (\<lambda>descriptor.
         and_then (for_each require_capability (wire_requires wire) descriptor) (\<lambda>descriptor.
         for_each conflict_with (wire_conflicts wire) descriptor)))"

section \<open>Well-formed descriptors\<close>

definition descriptor_wf :: "('v, 'q) plugin_descriptor \<Rightarrow> bool" where
  "descriptor_wf d \<longleftrightarrow>
     bm_wf (pd_provides d) \<and> (\<forall>(c, ofr) \<in> set (pd_provides d). offer_id ofr = c) \<and>
     bm_wf (pd_requires d) \<and> (\<forall>(c, r) \<in> set (pd_requires d). req_id r = c) \<and>
     ascending (pd_conflicts d) \<and> pd_id d \<notin> set (pd_conflicts d)"

lemma descriptor_new_wf [simp]: "descriptor_wf (descriptor_new p v)"
  by (simp add: descriptor_wf_def descriptor_new_def)

lemma sourced_from_wf [simp]: "descriptor_wf (sourced_from s d) = descriptor_wf d"
  by (simp add: descriptor_wf_def sourced_from_def)

lemma set_bm_insert_subset: "set (bm_insert k v m) \<subseteq> insert (k, v) (set m)"
  by (induction m) auto

lemma provide_wf: "descriptor_wf d \<Longrightarrow> provide ofr d = Inr d' \<Longrightarrow> descriptor_wf d'"
  using set_bm_insert_subset [of "offer_id ofr" ofr "pd_provides d"]
  by (fastforce simp: provide_def Let_def descriptor_wf_def bm_wf_insert split: if_splits)

lemma require_capability_wf:
  "descriptor_wf d \<Longrightarrow> require_capability r d = Inr d' \<Longrightarrow> descriptor_wf d'"
  using set_bm_insert_subset [of "req_id r" r "pd_requires d"]
  by (fastforce simp: require_capability_def Let_def descriptor_wf_def bm_wf_insert split: if_splits)

lemma conflict_with_wf: "descriptor_wf d \<Longrightarrow> conflict_with c d = Inr d' \<Longrightarrow> descriptor_wf d'"
  by (auto simp: conflict_with_def descriptor_wf_def bs_insert_ascending split: if_splits)

lemmas descriptor_builder_wf = provide_wf require_capability_wf conflict_with_wf

lemma provides_offer: "descriptor_wf d \<Longrightarrow> ofr \<in> set (provides d) \<longleftrightarrow> offer d (offer_id ofr) = Some ofr"
  by (force simp: descriptor_wf_def provides_def offer_def bm_values_def bm_get_eq_Some_iff)

lemma offer_id_of_offer: "descriptor_wf d \<Longrightarrow> offer d c = Some ofr \<Longrightarrow> offer_id ofr = c"
  by (auto simp: descriptor_wf_def offer_def bm_get_eq_Some_iff)

lemma offer_ids_ascending: "descriptor_wf d \<Longrightarrow> ascending (map offer_id (provides d))"
proof -
  assume "descriptor_wf d"
  then have "map offer_id (provides d) = map fst (pd_provides d)" and "bm_wf (pd_provides d)"
    by (auto simp: descriptor_wf_def provides_def bm_values_def)
  then show ?thesis by (simp add: bm_wf_def)
qed

lemma req_ids_ascending: "descriptor_wf d \<Longrightarrow> ascending (map req_id (requires d))"
proof -
  assume "descriptor_wf d"
  then have "map req_id (requires d) = map fst (pd_requires d)" and "bm_wf (pd_requires d)"
    by (auto simp: descriptor_wf_def requires_def bm_values_def)
  then show ?thesis by (simp add: bm_wf_def)
qed

section \<open>The builder loops of the wire form\<close>

text \<open>Each loop is an insert-once loop over one collection of the descriptor.\<close>

definition insert_offer where
  "insert_offer p ofr m = (if bm_contains m (offer_id ofr) then Inl (DuplicateOffer p (offer_id ofr))
     else Inr (bm_insert (offer_id ofr) ofr m))"

definition insert_requirement where
  "insert_requirement p r m = (if bm_contains m (req_id r) then Inl (DuplicateRequirement p (req_id r))
     else Inr (bm_insert (req_id r) r m))"

definition insert_conflict where
  "insert_conflict p c s = (if c = p then Inl (SelfConflict p)
     else if bs_contains s c then Inl (DuplicateConflict p c) else Inr (bs_insert c s))"

lemma provide_loop:
  "for_each provide ofrs (d\<lparr>pd_provides := m\<rparr>) =
     map_sum id (\<lambda>m. d\<lparr>pd_provides := m\<rparr>) (for_each (insert_offer (pd_id d)) ofrs m)"
  by (rule for_each_field)
     (simp add: provide_def insert_offer_def Let_def bm_contains_def)

lemma require_loop:
  "for_each require_capability rs (d\<lparr>pd_requires := m\<rparr>) =
     map_sum id (\<lambda>m. d\<lparr>pd_requires := m\<rparr>) (for_each (insert_requirement (pd_id d)) rs m)"
  by (rule for_each_field)
     (simp add: require_capability_def insert_requirement_def Let_def bm_contains_def)

lemma conflict_loop:
  "for_each conflict_with cs (d\<lparr>pd_conflicts := s\<rparr>) =
     map_sum id (\<lambda>s. d\<lparr>pd_conflicts := s\<rparr>) (for_each (insert_conflict (pd_id d)) cs s)"
  by (rule for_each_field)
     (simp add: conflict_with_def insert_conflict_def)

lemma insert_offer_once:
  "bmap.inserts_once (insert_offer p) (\<lambda>_. None) (\<lambda>ofr. DuplicateOffer p (offer_id ofr)) offer_id id X"
  by (simp add: bmap.inserts_once_def insert_offer_def)

lemma insert_requirement_once:
  "bmap.inserts_once (insert_requirement p) (\<lambda>_. None) (\<lambda>r. DuplicateRequirement p (req_id r)) req_id id X"
  by (simp add: bmap.inserts_once_def insert_requirement_def)

lemma insert_conflict_once:
  "bset.inserts_once (insert_conflict p) (\<lambda>c. if c = p then Some (SelfConflict p) else None)
     (\<lambda>c. DuplicateConflict p c) id (\<lambda>_. ()) X"
  by (simp add: bset.inserts_once_def insert_conflict_def)

lemma sum_map_Inr_iff: "map_sum id f r = Inr b \<longleftrightarrow> (\<exists>a. r = Inr a \<and> b = f a)"
  by (cases r) auto

lemma descriptor_from_wire_loops:
  "descriptor_from_wire w =
     and_then (for_each (insert_offer (wire_id w)) (wire_provides w) []) (\<lambda>ps.
     and_then (for_each (insert_requirement (wire_id w)) (wire_requires w) []) (\<lambda>rs.
     and_then (for_each (insert_conflict (wire_id w)) (wire_conflicts w) []) (\<lambda>cs.
     Inr \<lparr>pd_id = wire_id w, pd_version = wire_version w, pd_source = wire_source w,
          pd_provides = ps, pd_requires = rs, pd_conflicts = cs\<rparr>)))"
proof -
  let ?d = "\<lambda>ps rs cs. \<lparr>pd_id = wire_id w, pd_version = wire_version w, pd_source = wire_source w,
          pd_provides = ps, pd_requires = rs, pd_conflicts = cs\<rparr>"
  have start: "(case wire_source w of Some s \<Rightarrow> sourced_from s (descriptor_new (wire_id w) (wire_version w))
      | None \<Rightarrow> descriptor_new (wire_id w) (wire_version w)) = ?d [] [] []"
    by (simp add: sourced_from_def descriptor_new_def split: option.splits)
  have p: "for_each provide (wire_provides w) (?d [] [] []) =
      map_sum id (\<lambda>ps. ?d ps [] []) (for_each (insert_offer (wire_id w)) (wire_provides w) [])"
    using provide_loop [where ofrs = "wire_provides w" and d = "?d [] [] []" and m = "[]"] by simp
  have r: "for_each require_capability (wire_requires w) (?d ps [] []) =
      map_sum id (\<lambda>rs. ?d ps rs []) (for_each (insert_requirement (wire_id w)) (wire_requires w) [])" for ps
    using require_loop [where rs = "wire_requires w" and d = "?d ps [] []" and m = "[]"] by simp
  have c: "for_each conflict_with (wire_conflicts w) (?d ps rs []) =
      map_sum id (\<lambda>cs. ?d ps rs cs) (for_each (insert_conflict (wire_id w)) (wire_conflicts w) [])" for ps rs
    using conflict_loop [where cs = "wire_conflicts w" and d = "?d ps rs []" and s = "[]"] by simp
  show ?thesis
    unfolding descriptor_from_wire_def Let_def start p
    by (cases "for_each (insert_offer (wire_id w)) (wire_provides w) []";
        cases "for_each (insert_requirement (wire_id w)) (wire_requires w) []";
        cases "for_each (insert_conflict (wire_id w)) (wire_conflicts w) []")
       (simp_all add: r c)
qed

lemma insert_conflicts_of_elements:
  assumes "ascending s" and "p \<notin> set s"
  shows "for_each (insert_conflict p) s [] = Inr s"
proof -
  obtain n where n: "for_each (insert_conflict p) s [] = Inr n"
    using bset_loop_ok [OF insert_conflict_once, of p s] assms by (auto simp: ascending_distinct)
  have "n = s"
    using bset_loop_elements [OF insert_conflict_once n] assms(1) by (intro ascending_unique) auto
  with n show ?thesis by simp
qed

lemmas descriptor_loop_of_entries =
  bmap_loop_of_entries [OF insert_offer_once] bmap_loop_of_entries [OF insert_requirement_once]
  insert_conflicts_of_elements

section \<open>Properties\<close>

text \<open>C22: decoding the wire form of a well-formed descriptor gives the descriptor back.\<close>

theorem descriptor_wire_roundtrip:
  "descriptor_wf d \<Longrightarrow> descriptor_from_wire (descriptor_to_wire d) = Inr d"
  by (simp add: descriptor_from_wire_loops descriptor_to_wire_def descriptor_wf_def
      descriptor_loop_of_entries)

definition sample_descriptor :: "(nat, nat) plugin_descriptor" where
  "sample_descriptor =
     \<lparr>pd_id = PluginId ''dev.orders'', pd_version = 3, pd_source = None,
      pd_provides = [(CapabilityId ''dev.order-book'', \<lparr>offer_id = CapabilityId ''dev.order-book'', offer_version = 2\<rparr>)],
      pd_requires = [(CapabilityId ''dev.clock'', exactly_one (CapabilityId ''dev.clock'') 1),
                     (CapabilityId ''dev.store'', exactly_one (CapabilityId ''dev.store'') 4)],
      pd_conflicts = [PluginId ''dev.legacy-orders'']\<rparr>"

lemma sample_descriptor_wf: "descriptor_wf sample_descriptor"
  by code_simp

theorem descriptor_wire_roundtrip_witness:
  "descriptor_from_wire (descriptor_to_wire sample_descriptor) = Inr sample_descriptor \<and>
   wire_provides (descriptor_to_wire sample_descriptor) \<noteq> []"
proof
  show "wire_provides (descriptor_to_wire sample_descriptor) \<noteq> []" by code_simp
qed (rule descriptor_wire_roundtrip [OF sample_descriptor_wf])

text \<open>A wire descriptor is accepted exactly when it offers no capability twice, requires no
  capability twice, declares no conflict twice and does not conflict with itself; what is accepted
  is a well-formed descriptor with exactly the declared offers, requirements and conflicts.\<close>

lemma descriptor_from_wire_spec:
  "(\<exists>d. descriptor_from_wire w = Inr d \<and> descriptor_wf d \<and>
      set (provides d) = set (wire_provides w) \<and> set (requires d) = set (wire_requires w) \<and>
      set (pd_conflicts d) = set (wire_conflicts w)) \<longleftrightarrow>
   distinct (map offer_id (wire_provides w)) \<and> distinct (map req_id (wire_requires w)) \<and>
   distinct (wire_conflicts w) \<and> wire_id w \<notin> set (wire_conflicts w)"
  (is "?ok \<longleftrightarrow> ?unique")
proof
  assume ?ok
  then obtain ps rs cs where
    p: "for_each (insert_offer (wire_id w)) (wire_provides w) [] = Inr ps" and
    r: "for_each (insert_requirement (wire_id w)) (wire_requires w) [] = Inr rs" and
    c: "for_each (insert_conflict (wire_id w)) (wire_conflicts w) [] = Inr cs"
    by (auto simp: descriptor_from_wire_loops result_simps)
  with bmap_loop_ok [OF insert_offer_once] bmap_loop_ok [OF insert_requirement_once]
    bset_loop_ok [OF insert_conflict_once]
  show ?unique by (metis id_apply map_idI option.distinct(1))
next
  assume unique: ?unique
  obtain ps where p: "for_each (insert_offer (wire_id w)) (wire_provides w) [] = Inr ps"
    using unique bmap_loop_ok [OF insert_offer_once] by blast
  obtain rs where r: "for_each (insert_requirement (wire_id w)) (wire_requires w) [] = Inr rs"
    using unique bmap_loop_ok [OF insert_requirement_once] by blast
  obtain cs where c: "for_each (insert_conflict (wire_id w)) (wire_conflicts w) [] = Inr cs"
    using unique bset_loop_ok [OF insert_conflict_once, of "wire_id w" "wire_conflicts w"] by auto
  show ?ok
    using p r c unique bmap_loop_entries(1,2) [OF insert_offer_once p]
      bmap_loop_entries(1,2) [OF insert_requirement_once r] bset_loop_elements [OF insert_conflict_once c]
    by (auto simp: descriptor_from_wire_loops descriptor_wf_def provides_def requires_def bm_values_def image_image)
qed

definition source_field_ok :: "utext \<Rightarrow> nat \<Rightarrow> bool" where
  "source_field_ok value maximum \<longleftrightarrow> value \<noteq> [] \<and> \<not> is_whitespace (hd value) \<and>
     \<not> is_whitespace (last value) \<and> text_len value \<le> maximum \<and> (\<forall>c \<in> set value. \<not> is_control c)"

lemma validate_source_field_ok:
  "validate_source_field field value maximum = Inr () \<longleftrightarrow> source_field_ok value maximum"
proof -
  have "value \<noteq> [] \<Longrightarrow> \<not> is_whitespace (hd value) \<Longrightarrow> trim value \<noteq> []"
    by (auto simp: trim_eq_Nil_iff)
  then show ?thesis
    by (auto simp: validate_source_field_def source_field_ok_def trim_fix_iff)
qed

text \<open>source attribution is accepted exactly when each given field is non-empty, has no white
  space at either end, stays within its byte bound (255 for the package, 2048 for the repository)
  and contains no control character.\<close>

lemma plugin_source_new_iff:
  "plugin_source_new package repository = Inr s \<longleftrightarrow>
     source_field_ok package 255 \<and>
     (case repository of None \<Rightarrow> True | Some r \<Rightarrow> source_field_ok r 2048) \<and>
     s = \<lparr>src_package = package, src_repository = repository\<rparr>"
  by (cases repository)
     (auto simp: plugin_source_new_def result_simps validate_source_field_ok
       MAX_SOURCE_PACKAGE_LENGTH_def MAX_SOURCE_REPOSITORY_LENGTH_def)

end
