(* ===== verification/Graph_Types.thy ===== *)
theory Graph_Types
  imports Descriptor
begin

text \<open>
  The data of \<open>kernox-core/src/graph.rs\<close> and \<open>lib.rs\<close> and the resolution half of \<open>error.rs\<close>:
  limits, the composition specification and its builder, resolved requirements and edges,
  diagnostics, the resolved graph and its report, and the errors of resolution. Types whose
  derived order the source uses (edges, diagnostics) are datatypes with that order.
\<close>

section \<open>Constants and limits\<close>

type_synonym u32 = "32 word"

definition COMPOSITION_SCHEMA_VERSION :: u32 where "COMPOSITION_SCHEMA_VERSION = 1"
definition GRAPH_REPORT_SCHEMA_VERSION :: u32 where "GRAPH_REPORT_SCHEMA_VERSION = 1"
definition ABSOLUTE_MAX_PLUGINS :: nat where "ABSOLUTE_MAX_PLUGINS = 65536"
definition ABSOLUTE_MAX_CAPABILITIES_PER_PLUGIN :: nat where "ABSOLUTE_MAX_CAPABILITIES_PER_PLUGIN = 4096"
definition ABSOLUTE_MAX_EDGES :: nat where "ABSOLUTE_MAX_EDGES = 1048576"

definition USIZE_MAX :: nat where "USIZE_MAX = 2 ^ 64 - 1"

definition saturating_add :: "nat \<Rightarrow> nat \<Rightarrow> nat" where
  "saturating_add a b = min (a + b) USIZE_MAX"

record graph_limits =
  max_plugins :: nat
  max_capabilities_per_plugin :: nat
  max_edges :: nat

definition graph_limits_default :: graph_limits where
  "graph_limits_default = \<lparr>max_plugins = 4096, max_capabilities_per_plugin = 512, max_edges = 131072\<rparr>"

section \<open>The composition and its builder\<close>

record ('v, 'q) composition_spec =
  spec_schema_version :: u32
  spec_limits :: graph_limits
  spec_plugins :: "('v, 'q) plugin_descriptor list"
  spec_bindings :: "binding list"

definition composition_spec_default :: "('v, 'q) composition_spec" where
  "composition_spec_default =
     \<lparr>spec_schema_version = COMPOSITION_SCHEMA_VERSION, spec_limits = graph_limits_default,
      spec_plugins = [], spec_bindings = []\<rparr>"

definition builder_new :: "('v, 'q) composition_spec" where
  "builder_new = composition_spec_default"

definition with_limits :: "graph_limits \<Rightarrow> ('v, 'q) composition_spec \<Rightarrow> ('v, 'q) composition_spec" where
  "with_limits limits b = b\<lparr>spec_limits := limits\<rparr>"

definition add_plugin ::
  "('v, 'q) plugin_descriptor \<Rightarrow> ('v, 'q) composition_spec \<Rightarrow> ('v, 'q) composition_spec" where
  "add_plugin d b = b\<lparr>spec_plugins := spec_plugins b @ [d]\<rparr>"

definition add_binding :: "binding \<Rightarrow> ('v, 'q) composition_spec \<Rightarrow> ('v, 'q) composition_spec" where
  "add_binding x b = b\<lparr>spec_bindings := spec_bindings b @ [x]\<rparr>"

section \<open>The resolved graph\<close>

record resolved_requirement =
  rr_consumer :: plugin_id
  rr_capability :: capability_id
  rr_cardinality :: cardinality
  rr_providers :: "plugin_id list"

datatype resolved_edge =
  ResolvedEdge (edge_provider: plugin_id) (edge_consumer: plugin_id) (edge_capability: capability_id)

datatype graph_diagnostic =
    OptionalProviderMissing plugin_id capability_id   \<comment> \<open>consumer, capability\<close>
  | UnselectedOffer plugin_id capability_id           \<comment> \<open>provider, capability\<close>

fun graph_diagnostic_tag :: "graph_diagnostic \<Rightarrow> str" where
  "graph_diagnostic_tag (OptionalProviderMissing _ _) = ''graph.optional-provider-missing''"
| "graph_diagnostic_tag (UnselectedOffer _ _) = ''graph.unselected-offer''"

text \<open>The derived orders: fields from left to right, variants in declaration order.\<close>

definition edge_key :: "resolved_edge \<Rightarrow> plugin_id \<times> plugin_id \<times> capability_id" where
  "edge_key e = (edge_provider e, edge_consumer e, edge_capability e)"

fun diagnostic_key :: "graph_diagnostic \<Rightarrow> nat \<times> plugin_id \<times> capability_id" where
  "diagnostic_key (OptionalProviderMissing p c) = (0, p, c)"
| "diagnostic_key (UnselectedOffer p c) = (1, p, c)"

lemma edge_key_inject: "edge_key e = edge_key f \<longleftrightarrow> e = f"
  by (cases e; cases f) (simp add: edge_key_def)

lemma diagnostic_key_inject: "diagnostic_key d = diagnostic_key e \<longleftrightarrow> d = e"
  by (cases d; cases e) auto

instantiation resolved_edge :: linorder
begin

definition less_eq_resolved_edge :: "resolved_edge \<Rightarrow> resolved_edge \<Rightarrow> bool" where
  "less_eq_resolved_edge e f \<longleftrightarrow> edge_key e \<le> edge_key f"

definition less_resolved_edge :: "resolved_edge \<Rightarrow> resolved_edge \<Rightarrow> bool" where
  "less_resolved_edge e f \<longleftrightarrow> edge_key e < edge_key f"

instance
proof
  fix e f :: resolved_edge
  show "e < f \<longleftrightarrow> e \<le> f \<and> \<not> f \<le> e"
    unfolding less_eq_resolved_edge_def less_resolved_edge_def by (rule less_le_not_le)
  show "e \<le> f \<Longrightarrow> f \<le> e \<Longrightarrow> e = f"
    unfolding less_eq_resolved_edge_def by (metis antisym edge_key_inject)
qed (auto simp only: less_eq_resolved_edge_def order_refl linear intro: order_trans)

end

instantiation graph_diagnostic :: linorder
begin

definition less_eq_graph_diagnostic :: "graph_diagnostic \<Rightarrow> graph_diagnostic \<Rightarrow> bool" where
  "less_eq_graph_diagnostic e f \<longleftrightarrow> diagnostic_key e \<le> diagnostic_key f"

definition less_graph_diagnostic :: "graph_diagnostic \<Rightarrow> graph_diagnostic \<Rightarrow> bool" where
  "less_graph_diagnostic e f \<longleftrightarrow> diagnostic_key e < diagnostic_key f"

instance
proof
  fix e f :: graph_diagnostic
  show "e < f \<longleftrightarrow> e \<le> f \<and> \<not> f \<le> e"
    unfolding less_eq_graph_diagnostic_def less_graph_diagnostic_def by (rule less_le_not_le)
  show "e \<le> f \<Longrightarrow> f \<le> e \<Longrightarrow> e = f"
    unfolding less_eq_graph_diagnostic_def by (metis antisym diagnostic_key_inject)
qed (auto simp only: less_eq_graph_diagnostic_def order_refl linear intro: order_trans)

end

record ('v, 'q) resolved_graph =
  rg_plugins :: "(plugin_id, ('v, 'q) plugin_descriptor) btree_map"
  rg_requirements :: "resolved_requirement list"
  rg_edges :: "resolved_edge list"
  rg_diagnostics :: "graph_diagnostic list"
  rg_startup_order :: "plugin_id list"

record 'v plugin_summary =
  ps_id :: plugin_id
  ps_version :: 'v

record 'v graph_report =
  rep_schema_version :: u32
  rep_plugins :: "'v plugin_summary list"
  rep_requirements :: "resolved_requirement list"
  rep_edges :: "resolved_edge list"
  rep_diagnostics :: "graph_diagnostic list"
  rep_startup_order :: "plugin_id list"
  rep_teardown_order :: "plugin_id list"

section \<open>Errors of resolution\<close>

datatype ('v, 'q) resolve_error =
    UnsupportedSchemaVersion u32 u32                   \<comment> \<open>actual, supported\<close>
  | UnsupportedReportSchemaVersion u32 u32
  | InconsistentReportLifecycle
  | DuplicateReportPlugin plugin_id
  | UnknownReportPlugin plugin_id
  | ConfiguredLimitExceeded str nat nat                \<comment> \<open>limit, actual, maximum\<close>
  | PluginLimitExceeded nat nat
  | CapabilityLimitExceeded plugin_id nat nat
  | EdgeLimitExceeded nat nat
  | DuplicatePlugin plugin_id
  | PluginConflict plugin_id plugin_id
  | SelfDependency plugin_id capability_id
  | MissingProvider plugin_id capability_id 'q         \<comment> \<open>consumer, capability, requirement\<close>
  | IncompatibleProvider plugin_id capability_id 'q "(plugin_id \<times> 'v) list"
  | AmbiguousProvider plugin_id capability_id "plugin_id list"
  | UnknownBindingConsumer plugin_id
  | UnknownBindingProvider plugin_id
  | UnusedBinding plugin_id capability_id
  | BoundProviderDoesNotOffer plugin_id capability_id plugin_id
  | IncompatibleBinding plugin_id capability_id plugin_id 'v 'q
  | DuplicateBinding plugin_id capability_id
  | BindingForMultiple plugin_id capability_id
  | DependencyCycle "plugin_id list"

fun resolve_error_tag :: "('v, 'q) resolve_error \<Rightarrow> str" where
  "resolve_error_tag (UnsupportedSchemaVersion _ _) = ''graph.unsupported-schema-version''"
| "resolve_error_tag (UnsupportedReportSchemaVersion _ _) = ''graph.unsupported-report-schema''"
| "resolve_error_tag InconsistentReportLifecycle = ''graph.inconsistent-report-lifecycle''"
| "resolve_error_tag (DuplicateReportPlugin _) = ''graph.duplicate-report-plugin''"
| "resolve_error_tag (UnknownReportPlugin _) = ''graph.unknown-report-plugin''"
| "resolve_error_tag (ConfiguredLimitExceeded _ _ _) = ''graph.configured-limit-exceeded''"
| "resolve_error_tag (PluginLimitExceeded _ _) = ''graph.plugin-limit''"
| "resolve_error_tag (CapabilityLimitExceeded _ _ _) = ''graph.capability-limit''"
| "resolve_error_tag (EdgeLimitExceeded _ _) = ''graph.edge-limit''"
| "resolve_error_tag (DuplicatePlugin _) = ''graph.duplicate-plugin''"
| "resolve_error_tag (PluginConflict _ _) = ''graph.plugin-conflict''"
| "resolve_error_tag (SelfDependency _ _) = ''graph.self-dependency''"
| "resolve_error_tag (MissingProvider _ _ _) = ''graph.missing-provider''"
| "resolve_error_tag (IncompatibleProvider _ _ _ _) = ''graph.incompatible-provider''"
| "resolve_error_tag (AmbiguousProvider _ _ _) = ''graph.ambiguous-provider''"
| "resolve_error_tag (UnknownBindingConsumer _) = ''graph.unknown-binding-consumer''"
| "resolve_error_tag (UnknownBindingProvider _) = ''graph.unknown-binding-provider''"
| "resolve_error_tag (UnusedBinding _ _) = ''graph.unused-binding''"
| "resolve_error_tag (BoundProviderDoesNotOffer _ _ _) = ''graph.binding-provider-does-not-offer''"
| "resolve_error_tag (IncompatibleBinding _ _ _ _ _) = ''graph.incompatible-binding''"
| "resolve_error_tag (DuplicateBinding _ _) = ''graph.duplicate-binding''"
| "resolve_error_tag (BindingForMultiple _ _) = ''graph.binding-for-multiple''"
| "resolve_error_tag (DependencyCycle _) = ''graph.dependency-cycle''"

end
