(* ===== verification/Topology.thy ===== *)
theory Topology
  imports Graph_Types
begin

text \<open>
  \<open>topological_order\<close> and \<open>find_cycle\<close> of \<open>kernox-core/src/graph.rs\<close>. The first is Kahn's
  algorithm with an ordered ready set, the second an iterative depth-first search with an
  explicit stack. Both mutate maps in place; the loops here return the new maps. Operations that
  can panic return \<open>Inl Panic\<close>; the theorems show that they never do on the graphs the
  resolver builds, that the order is the least topological order, and that a reported cycle is
  a cycle of the graph.
\<close>

section \<open>Kahn's algorithm\<close>

type_synonym 'n adjacency = "('n, 'n btree_set) btree_map"

definition successors :: "('n, 'n btree_set) btree_map \<Rightarrow> 'n \<Rightarrow> 'n list" where
  "successors adjacency u = (case bm_get adjacency u of None \<Rightarrow> [] | Some s \<Rightarrow> s)"

definition add_edge ::
  "resolved_edge \<Rightarrow> (plugin_id, nat) btree_map \<times> plugin_id adjacency
     \<Rightarrow> (plugin_id, nat) btree_map \<times> plugin_id adjacency" where
  "add_edge edge st =
     (case st of (indegree, adjacency) \<Rightarrow>
        let consumers = successors adjacency (edge_provider edge);
            inserted = (\<not> bs_contains consumers (edge_consumer edge))
        in (if inserted then bm_modify (edge_consumer edge) (\<lambda>degree. degree + 1) indegree else indegree,
            bm_insert (edge_provider edge) (bs_insert (edge_consumer edge) consumers) adjacency))"

definition release_consumer ::
  "'n::linorder \<Rightarrow> ('n, nat) btree_map \<times> 'n btree_set \<Rightarrow> 'e fault + ('n, nat) btree_map \<times> 'n btree_set" where
  \<comment> \<open>the body of the inner loop; \<open>*degree -= 1\<close> panics on underflow\<close>
  "release_consumer consumer st =
     (case st of (indegree, ready) \<Rightarrow>
       (case bm_get indegree consumer of
          None \<Rightarrow> Inr (indegree, ready)
        | Some degree \<Rightarrow>
            if degree = 0 then Inl Panic
            else Inr (bm_modify consumer (\<lambda>degree. degree - 1) indegree,
                      if degree - 1 = 0 then bs_insert consumer ready else ready)))"

definition kahn_work :: "('n, nat) btree_map \<times> 'n btree_set \<Rightarrow> nat" where
  \<comment> \<open>what bounds the loop: the degrees still to release and the nodes waiting\<close>
  "kahn_work st = sum_list (map snd (fst st)) + length (snd st)"

lemma bm_modify_decrement_le:
  "sum_list (map snd (bm_modify k (\<lambda>d. d - 1) m)) \<le> sum_list (map snd (m :: ('k, nat) btree_map))"
  by (induction m) (auto simp: bm_modify_def)

lemma bm_modify_decrement_less:
  "bm_get m k = Some d \<Longrightarrow> d \<noteq> 0 \<Longrightarrow>
     sum_list (map snd (bm_modify k (\<lambda>d. d - 1) m)) < sum_list (map snd (m :: ('k, nat) btree_map))"
proof (induction m)
  case (Cons p m)
  have "sum_list (map snd (bm_modify k (\<lambda>d. d - 1) m)) \<le> sum_list (map snd m)"
    by (rule bm_modify_decrement_le)
  with Cons show ?case by (auto simp: bm_modify_def split: if_splits)
qed simp

lemma length_bs_insert: "length (bs_insert k s) \<le> Suc (length s)"
  by (simp add: bs_insert_def insort_insert_key_def)

lemma release_consumer_work: "release_consumer c st = Inr st' \<Longrightarrow> kahn_work st' \<le> kahn_work st"
  using bm_modify_decrement_less [of "fst st" c] length_bs_insert [of c "snd st"]
  by (force simp: release_consumer_def kahn_work_def split: prod.splits option.splits if_splits)

lemma release_loop_work: "for_each release_consumer cs st = Inr st' \<Longrightarrow> kahn_work st' \<le> kahn_work st"
  by (erule for_each_invariant [where P = "\<lambda>s. kahn_work s \<le> kahn_work st"])
     (auto dest: release_consumer_work)

function kahn_loop ::
  "'n::linorder adjacency \<Rightarrow> ('n, nat) btree_map \<times> 'n btree_set \<Rightarrow> 'n list
     \<Rightarrow> 'e fault + ('n, nat) btree_map \<times> 'n list" where
  "kahn_loop adjacency (indegree, ready) order =
     (case ready of
        [] \<Rightarrow> Inr (indegree, order)
      | next # ready' \<Rightarrow>
          and_then (for_each release_consumer (successors adjacency next) (indegree, ready')) (\<lambda>st.
          kahn_loop adjacency st (order @ [next])))"
  by pat_completeness auto
termination
proof (relation "measure (\<lambda>(_, st, _). kahn_work st)")
  fix adjacency :: "'n::linorder adjacency" and indegree ready order x ready' st
  assume ready: "ready = x # ready'"
    and loop: "for_each release_consumer (successors adjacency x) (indegree, ready') = Inr st"
  from release_loop_work [OF loop] ready
  show "((adjacency, st, order @ [x]), adjacency, (indegree, ready), order)
      \<in> measure (\<lambda>(_, st, _). kahn_work st)"
    by (simp add: kahn_work_def)
qed simp

declare kahn_loop.simps [simp del]

section \<open>Searching a cycle\<close>

datatype visit = Visiting | Done

definition neighbours_of :: "'n btree_set \<Rightarrow> 'n adjacency \<Rightarrow> ('n, 'n list) btree_map" where
  "neighbours_of remaining adjacency =
     map (\<lambda>p. (p, filter (bs_contains remaining) (successors adjacency p))) remaining"

definition all_neighbours :: "('n, 'n list) btree_map \<Rightarrow> 'n set" where
  "all_neighbours neighbours = \<Union> (set ` snd ` set neighbours)"

definition unvisited :: "('n, 'n list) btree_map \<Rightarrow> ('n, visit) btree_map \<Rightarrow> 'n set" where
  "unvisited neighbours states = all_neighbours neighbours - set (bm_keys states)"

definition frame_work :: "('n, 'n list) btree_map \<Rightarrow> ('n \<times> nat) list \<Rightarrow> nat" where
  "frame_work neighbours stack =
     (\<Sum>(node, i)\<leftarrow>stack. 1 + (case bm_get neighbours node of None \<Rightarrow> 0 | Some os \<Rightarrow> length os - i))"

lemma finite_unvisited [simp]: "finite (unvisited neighbours states)"
  by (auto simp: unvisited_def all_neighbours_def)

lemma unvisited_insert: "unvisited neighbours (bm_insert k v states) = unvisited neighbours states - {k}"
  by (auto simp: unvisited_def set_bm_keys_insert)

lemma outgoing_unvisited:
  assumes "bm_get neighbours node = Some outgoing" "i < length outgoing"
    "bm_get states (outgoing ! i) = None"
  shows "outgoing ! i \<in> unvisited neighbours states"
proof -
  have "(node, outgoing) \<in> set neighbours" using assms(1) by (rule bm_get_SomeD)
  then show ?thesis
    using assms(2,3) by (force simp: unvisited_def all_neighbours_def bm_get_None_iff)
qed

lemma unvisited_finish: "card (unvisited neighbours (bm_insert node v states)) \<le> card (unvisited neighbours states)"
  by (simp add: unvisited_insert card_mono)

lemma unvisited_push:
  assumes "bm_get neighbours node = Some outgoing" "\<not> length outgoing \<le> i" "bm_get states (outgoing ! i) = None"
  shows "card (unvisited neighbours (bm_insert (outgoing ! i) v states)) < card (unvisited neighbours states)"
  using outgoing_unvisited [of neighbours node outgoing i states] assms
  unfolding unvisited_insert by (intro card_Diff1_less) auto

function walk ::
  "('n::linorder, 'n list) btree_map \<Rightarrow> ('n \<times> nat) list \<Rightarrow> 'n list \<Rightarrow> ('n, nat) btree_map
     \<Rightarrow> ('n, visit) btree_map \<Rightarrow> 'e fault + 'n list option \<times> ('n, visit) btree_map" where
  \<comment> \<open>the inner loop; the head of the list is the top of the stack\<close>
  "walk neighbours [] path positions states = Inr (None, states)"
| "walk neighbours ((node, next_index) # below) path positions states =
     (case bm_get neighbours node of
        None \<Rightarrow> Inl Panic
      | Some outgoing \<Rightarrow>
          if length outgoing \<le> next_index then
            walk neighbours below (butlast path) (bm_remove node positions) (bm_insert node Done states)
          else
            (case bm_get states (outgoing ! next_index) of
               Some Visiting \<Rightarrow>
                 (case bm_get positions (outgoing ! next_index) of
                    Some position \<Rightarrow>
                      if length path < position then Inl Panic
                      else Inr (Some (drop position path @ [outgoing ! next_index]), states)
                  | None \<Rightarrow> walk neighbours ((node, next_index + 1) # below) path positions states)
             | Some Done \<Rightarrow> walk neighbours ((node, next_index + 1) # below) path positions states
             | None \<Rightarrow>
                 walk neighbours ((outgoing ! next_index, 0) # (node, next_index + 1) # below)
                   (path @ [outgoing ! next_index])
                   (bm_insert (outgoing ! next_index) (length path) positions)
                   (bm_insert (outgoing ! next_index) Visiting states)))"
  by pat_completeness auto
termination
  by (relation "inv_image (less_than <*lex*> less_than)
        (\<lambda>(neighbours, stack, _, _, states). (card (unvisited neighbours states), frame_work neighbours stack))")
     (auto simp: frame_work_def unvisited_push order.order_iff_strict [symmetric] unvisited_finish
       dest: le_neq_implies_less)

declare walk.simps [simp del]

fun find_cycle_loop ::
  "('n::linorder, 'n list) btree_map \<Rightarrow> 'n list \<Rightarrow> ('n, visit) btree_map \<Rightarrow> 'e fault + 'n list option" where
  "find_cycle_loop neighbours [] states = Inr None"
| "find_cycle_loop neighbours (start # rest) states =
     (if bm_contains states start then find_cycle_loop neighbours rest states
      else and_then
        (walk neighbours [(start, 0)] [start] (bm_insert start 0 []) (bm_insert start Visiting states))
        (\<lambda>(found, states'). case found of
            Some cycle \<Rightarrow> Inr (Some cycle)
          | None \<Rightarrow> find_cycle_loop neighbours rest states'))"

definition find_cycle :: "'n::linorder btree_set \<Rightarrow> 'n adjacency \<Rightarrow> 'e fault + 'n list" where
  "find_cycle remaining adjacency =
     and_then (find_cycle_loop (neighbours_of remaining adjacency) remaining []) (\<lambda>found.
       case found of
         Some cycle \<Rightarrow> Inr cycle
       | None \<Rightarrow> Inr (case remaining of [] \<Rightarrow> [] | p # _ \<Rightarrow> [p]))"

definition topological_order ::
  "plugin_id list \<Rightarrow> resolved_edge list \<Rightarrow> ('v, 'q) resolve_error fault + plugin_id list" where
  "topological_order plugin_ids edges =
     (let nodes = bs_of plugin_ids;
          (indegree, adjacency) = fold add_edge edges (map (\<lambda>p. (p, 0)) nodes, []);
          ready = bs_of (map fst (filter (\<lambda>p. snd p = 0) indegree))
      in and_then (kahn_loop adjacency (indegree, ready) []) (\<lambda>(indegree, order).
           if length order \<noteq> length nodes then
             (let remaining = bs_of (map fst (filter (\<lambda>p. 0 < snd p) indegree))
              in and_then (find_cycle remaining adjacency) (\<lambda>cycle. Inl (Err (DependencyCycle cycle))))
           else Inr order))"

section \<open>Orderings of a finite graph\<close>

definition linked :: "'n set \<Rightarrow> ('n \<Rightarrow> 'n list) \<Rightarrow> bool" where
  "linked N succ \<longleftrightarrow> finite N \<and> (\<forall>u. distinct (succ u) \<and> set (succ u) \<subseteq> N) \<and> (\<forall>u. u \<notin> N \<longrightarrow> succ u = [])"

definition preds :: "('n \<Rightarrow> 'n list) \<Rightarrow> 'n \<Rightarrow> 'n set" where
  "preds succ v = {u. v \<in> set (succ u)}"

definition available :: "'n set \<Rightarrow> ('n \<Rightarrow> 'n set) \<Rightarrow> 'n set \<Rightarrow> 'n set" where
  \<comment> \<open>what can come next once the nodes of \<open>S\<close> have been listed\<close>
  "available N pre S = {v \<in> N - S. pre v \<subseteq> S}"

definition topological :: "'n set \<Rightarrow> ('n \<Rightarrow> 'n set) \<Rightarrow> 'n list \<Rightarrow> bool" where
  "topological N pre xs \<longleftrightarrow>
     distinct xs \<and> set xs = N \<and> (\<forall>ys v zs. xs = ys @ v # zs \<longrightarrow> pre v \<subseteq> set ys)"

definition greedy :: "'n::linorder set \<Rightarrow> ('n \<Rightarrow> 'n set) \<Rightarrow> 'n list \<Rightarrow> bool" where
  "greedy N pre xs \<longleftrightarrow>
     (\<forall>ys v zs. xs = ys @ v # zs \<longrightarrow>
        v \<in> available N pre (set ys) \<and> (\<forall>w \<in> available N pre (set ys). v \<le> w))"

lemma linked_preds_finite: "linked N succ \<Longrightarrow> finite (preds succ v)"
  by (rule finite_subset [of _ N]) (auto simp: linked_def preds_def)

lemma greedy_Nil [simp]: "greedy N pre []"
  by (simp add: greedy_def)

lemma greedyD:
  "greedy N pre (ys @ v # zs) \<Longrightarrow> v \<in> available N pre (set ys)"
  "greedy N pre (ys @ v # zs) \<Longrightarrow> w \<in> available N pre (set ys) \<Longrightarrow> v \<le> w"
  unfolding greedy_def by blast+

lemma greedy_snoc:
  assumes "greedy N pre xs" "x \<in> available N pre (set xs)" "\<And>w. w \<in> available N pre (set xs) \<Longrightarrow> x \<le> w"
  shows "greedy N pre (xs @ [x])"
  unfolding greedy_def
proof (intro allI impI)
  fix ys v zs
  assume split: "xs @ [x] = ys @ v # zs"
  show "v \<in> available N pre (set ys) \<and> (\<forall>w \<in> available N pre (set ys). v \<le> w)"
  proof (cases zs rule: rev_cases)
    case Nil
    with split assms(2,3) show ?thesis by simp
  next
    case (snoc zs' z)
    with split have "xs = ys @ v # zs'" by simp
    with assms(1) greedyD [of N pre ys v zs'] show ?thesis by blast
  qed
qed

lemma greedy_preds: "greedy N pre xs \<Longrightarrow> v \<in> set xs \<Longrightarrow> pre v \<subseteq> set xs"
  by (fastforce simp: greedy_def available_def dest: split_list)

lemma greedy_topological:
  "greedy N pre xs \<Longrightarrow> distinct xs \<Longrightarrow> set xs = N \<Longrightarrow> topological N pre xs"
  by (auto simp: greedy_def topological_def available_def)

lemma greedy_distinct: "greedy N pre xs \<Longrightarrow> distinct xs"
proof (induction xs rule: rev_induct)
  case (snoc x xs)
  from snoc.prems have "x \<in> available N pre (set xs)" by (simp add: greedy_def)
  moreover have "greedy N pre xs"
    using snoc.prems unfolding greedy_def by (metis append.assoc append_Cons)
  ultimately show ?case using snoc.IH by (simp add: available_def)
qed simp

text \<open>The greedy order is the least topological order in the lexicographic order of lists.\<close>

lemma greedy_least:
  assumes greedy: "greedy N pre xs" and all: "set xs = N" and ys: "topological N pre ys"
  shows "xs \<le> ys"
proof -
  have len: "length xs = length ys"
    using greedy_distinct [OF greedy] all ys unfolding topological_def
    by (metis distinct_card)
  show ?thesis
  proof (cases "xs = ys")
    case False
    from same_length_different [OF this len] obtain ps a as b bs where
      split: "xs = ps @ [a] @ as" "ys = ps @ [b] @ bs" and ne: "a \<noteq> b" by blast
    from ys split(2) have "b \<in> N" "b \<notin> set ps" "pre b \<subseteq> set ps" by (auto simp: topological_def)
    then have "b \<in> available N pre (set ps)" by (simp add: available_def)
    with greedy split(1) ne have "a < b" by (force simp: greedy_def)
    with split have "xs < ys" by (auto simp: list_less_def lexord_same_pref_iff)
    then show ?thesis by simp
  qed simp
qed

section \<open>Kahn's algorithm lists the graph greedily\<close>

lemma release_consumer_result:
  assumes "bm_wf d" "ascending r" "bm_get d c \<noteq> Some 0"
  obtains d' r' where "release_consumer c (d, r) = (Inr (d', r') :: 'e fault + _)"
    and "bm_wf d'" and "bm_keys d' = bm_keys d"
    and "\<And>v. bm_get d' v = (if v = c then map_option (\<lambda>n. n - 1) (bm_get d v) else bm_get d v)"
    and "ascending r'" and "set r' = set r \<union> {v. v = c \<and> bm_get d v = Some 1}"
proof (cases "bm_get d c")
  case None
  then have run: "release_consumer c (d, r) = (Inr (d, r) :: 'e fault + _)" by (simp add: release_consumer_def)
  show thesis by (rule that [OF run]) (use None assms in auto)
next
  case (Some n)
  with assms(3) have "n \<noteq> 0" by simp
  with Some have run: "release_consumer c (d, r) =
      (Inr (bm_modify c (\<lambda>n. n - 1) d, if n - 1 = 0 then bs_insert c r else r) :: 'e fault + _)"
    by (simp add: release_consumer_def)
  show thesis
    by (rule that [OF run])
       (use Some assms \<open>n \<noteq> 0\<close> in \<open>auto simp: bm_get_modify bs_insert_ascending\<close>)
qed

lemma release_loop:
  assumes "distinct cs" "bm_wf d" "ascending r" "\<forall>c \<in> set cs. bm_get d c \<noteq> Some 0"
  shows "\<exists>d' r'. for_each release_consumer cs (d, r) = (Inr (d', r') :: 'e fault + _) \<and> bm_wf d' \<and> bm_keys d' = bm_keys d \<and>
    (\<forall>v. bm_get d' v = (if v \<in> set cs then map_option (\<lambda>n. n - 1) (bm_get d v) else bm_get d v)) \<and>
    ascending r' \<and> set r' = set r \<union> {v \<in> set cs. bm_get d v = Some 1}"
  using assms
proof (induction cs arbitrary: d r)
  case (Cons c cs)
  have c: "bm_get d c \<noteq> Some 0" using Cons.prems(4) by simp
  obtain d1 r1 where one: "release_consumer c (d, r) = (Inr (d1, r1) :: 'e fault + _)" "bm_wf d1" "bm_keys d1 = bm_keys d"
    "\<And>v. bm_get d1 v = (if v = c then map_option (\<lambda>n. n - 1) (bm_get d v) else bm_get d v)"
    "ascending r1" "set r1 = set r \<union> {v. v = c \<and> bm_get d v = Some 1}"
    by (rule release_consumer_result [OF Cons.prems(2,3) c]) (rule that)
  have "\<forall>v \<in> set cs. bm_get d1 v \<noteq> Some 0"
    using Cons.prems(1,4) one(4) by auto
  moreover have "distinct cs" using Cons.prems(1) by simp
  ultimately obtain d2 r2 where
    two: "for_each release_consumer cs (d1, r1) = (Inr (d2, r2) :: 'e fault + _)" "bm_wf d2" "bm_keys d2 = bm_keys d1"
    "\<forall>v. bm_get d2 v = (if v \<in> set cs then map_option (\<lambda>n. n - 1) (bm_get d1 v) else bm_get d1 v)"
    "ascending r2" "set r2 = set r1 \<union> {v \<in> set cs. bm_get d1 v = Some 1}"
    using Cons.IH [OF _ one(2,5)] by blast
  have "set r2 = set r \<union> {v \<in> set (c # cs). bm_get d v = Some 1}"
    using two(6) one(4,6) Cons.prems(1) by auto
  moreover have "\<forall>v. bm_get d2 v = (if v \<in> set (c # cs) then map_option (\<lambda>n. n - 1) (bm_get d v) else bm_get d v)"
    using two(4) one(4) Cons.prems(1) by auto
  ultimately show ?case using one two(1-3,5) by simp
qed simp

definition kahn_inv ::
  "'n::linorder set \<Rightarrow> ('n \<Rightarrow> 'n set) \<Rightarrow> ('n, nat) btree_map \<Rightarrow> 'n btree_set \<Rightarrow> 'n list \<Rightarrow> bool" where
  "kahn_inv N pre d r order \<longleftrightarrow>
     bm_wf d \<and> set (bm_keys d) = N \<and> (\<forall>v \<in> N. bm_get d v = Some (card (pre v - set order))) \<and>
     ascending r \<and> set r = available N pre (set order) \<and> greedy N pre order \<and> set order \<subseteq> N"

lemma card_one_member: "x \<in> S \<Longrightarrow> card S = 1 \<longleftrightarrow> S = {x}"
  by (auto simp: card_1_singleton_iff)

lemma available_insert:
  assumes "x \<in> available N pre S" and "\<And>v. v \<in> S \<Longrightarrow> pre v \<subseteq> S"
  shows "available N pre (insert x S) = (available N pre S - {x}) \<union> {v \<in> N. pre v - S = {x}}"
proof -
  have x: "x \<notin> S" "pre x \<subseteq> S" using assms(1) by (simp_all add: available_def)
  have "pre v - S = {x} \<longleftrightarrow> pre v \<subseteq> insert x S \<and> \<not> pre v \<subseteq> S" for v using x(1) by blast
  moreover have "\<not> pre v \<subseteq> S \<Longrightarrow> v \<notin> insert x S" for v using x assms(2) by blast
  ultimately show ?thesis unfolding available_def by blast
qed

lemma kahn_step:
  assumes graph: "linked N succ" and inv: "kahn_inv N (preds succ) d (x # r) order"
  obtains d' r' where "for_each release_consumer (succ x) (d, r) = (Inr (d', r') :: 'e fault + _)"
    and "kahn_inv N (preds succ) d' r' (order @ [x])"
proof -
  let ?pre = "preds succ"
  have x: "x \<in> available N ?pre (set order)" "\<And>w. w \<in> available N ?pre (set order) \<Longrightarrow> x \<le> w"
    and r: "set r = available N ?pre (set order) - {x}" and asc: "ascending r"
    using inv by (auto simp: kahn_inv_def dest: order.strict_implies_order)
  have deg: "\<And>v. v \<in> N \<Longrightarrow> bm_get d v = Some (card (?pre v - set order))"
    and keys: "bm_wf d" "set (bm_keys d) = N" and ord: "greedy N ?pre order" "set order \<subseteq> N"
    using inv by (auto simp: kahn_inv_def)
  have fin: "finite (?pre v - set order)" for v using linked_preds_finite [OF graph, of v] by simp
  have sub: "set (succ x) \<subseteq> N" "distinct (succ x)" using graph by (auto simp: linked_def)
  have mem: "v \<in> set (succ x) \<Longrightarrow> x \<in> ?pre v - set order" for v
    using x(1) by (auto simp: preds_def available_def)
  have pos: "\<forall>c \<in> set (succ x). bm_get d c \<noteq> Some 0"
  proof
    fix c assume c: "c \<in> set (succ x)"
    with sub deg have "bm_get d c = Some (card (?pre c - set order))" by blast
    with mem [OF c] fin [of c] show "bm_get d c \<noteq> Some 0" by (auto simp: card_eq_0_iff)
  qed
  obtain d' r' where loop: "for_each release_consumer (succ x) (d, r) = (Inr (d', r') :: 'e fault + _)" "bm_wf d'"
    "bm_keys d' = bm_keys d" "ascending r'"
    "\<And>v. bm_get d' v = (if v \<in> set (succ x) then map_option (\<lambda>n. n - 1) (bm_get d v) else bm_get d v)"
    "set r' = set r \<union> {v \<in> set (succ x). bm_get d v = Some 1}"
    using release_loop [OF sub(2) keys(1) asc pos] by blast
  have deg': "bm_get d' v = Some (card (?pre v - set (order @ [x])))" if "v \<in> N" for v
  proof -
    have "?pre v - set (order @ [x]) = (?pre v - set order) - {x}" by auto
    moreover have "v \<notin> set (succ x) \<Longrightarrow> x \<notin> ?pre v" by (simp add: preds_def)
    ultimately show ?thesis using loop(5) [of v] deg [OF that] mem [of v] by auto
  qed
  have "{v \<in> set (succ x). bm_get d v = Some 1} = {v \<in> N. ?pre v - set order = {x}}"
  proof (rule Collect_cong)
    fix v
    have "v \<in> set (succ x) \<Longrightarrow> bm_get d v = Some 1 \<longleftrightarrow> ?pre v - set order = {x}"
      using card_one_member [OF mem, of v] deg [of v] sub by auto
    moreover have "?pre v - set order = {x} \<Longrightarrow> v \<in> set (succ x)" by (auto simp: preds_def)
    ultimately show "v \<in> set (succ x) \<and> bm_get d v = Some 1 \<longleftrightarrow> v \<in> N \<and> ?pre v - set order = {x}"
      using sub(1) by blast
  qed
  with loop(6) r have ready: "set r' = available N ?pre (set (order @ [x]))"
    using available_insert [OF x(1) greedy_preds [OF ord(1)]] by simp
  have "x \<in> N" using x(1) by (simp add: available_def)
  then have "kahn_inv N ?pre d' r' (order @ [x])"
    unfolding kahn_inv_def
    using loop(2-4) keys deg' ready ord(2) greedy_snoc [OF ord(1) x] by simp
  with loop(1) show thesis by (rule that)
qed

lemma kahn_loop_result:
  assumes "linked N (successors adjacency)" and "kahn_inv N (preds (successors adjacency)) d r order"
  shows "\<exists>d' order'. kahn_loop adjacency (d, r) order = (Inr (d', order') :: 'e fault + _) \<and>
    kahn_inv N (preds (successors adjacency)) d' [] order'"
  using assms(2)
proof (induction "kahn_work (d, r)" arbitrary: d r order rule: less_induct)
  case less
  show ?case
  proof (cases r)
    case Nil
    with less.prems show ?thesis by (simp add: kahn_loop.simps)
  next
    case (Cons x r')
    from kahn_step [OF assms(1)] less.prems Cons obtain d1 r1 where
      step: "for_each release_consumer (successors adjacency x) (d, r') = (Inr (d1, r1) :: 'e fault + _)"
      and inv: "kahn_inv N (preds (successors adjacency)) d1 r1 (order @ [x])"
      by metis
    have "kahn_work (d1, r1) < kahn_work (d, r)"
      using release_loop_work [OF step] Cons by (simp add: kahn_work_def)
    from less.hyps [OF this inv] show ?thesis using Cons step by (simp add: kahn_loop.simps)
  qed
qed

section \<open>The depth-first search\<close>

definition cycle_in :: "('n \<Rightarrow> 'n list) \<Rightarrow> 'n list \<Rightarrow> bool" where
  "cycle_in out c \<longleftrightarrow>
     2 \<le> length c \<and> hd c = last c \<and> distinct (tl c) \<and> successively (\<lambda>a b. b \<in> set (out a)) c"

text \<open>\<open>finished out D\<close>: the nodes of \<open>D\<close> were completed one after the other, each after everything
  it leads to.\<close>

inductive finished :: "('n \<Rightarrow> 'n list) \<Rightarrow> 'n set \<Rightarrow> bool" for out where
  finished_empty: "finished out {}"
| finished_insert: "finished out D \<Longrightarrow> x \<notin> D \<Longrightarrow> set (out x) \<subseteq> D \<Longrightarrow> finished out (insert x D)"

lemma finished_closed: "finished out D \<Longrightarrow> x \<in> D \<Longrightarrow> set (out x) \<subseteq> D"
  by (induction rule: finished.induct) auto

text \<open>The node completed last has no edge into it.\<close>

lemma finished_source: "finished out D \<Longrightarrow> D \<noteq> {} \<Longrightarrow> \<exists>x \<in> D. \<forall>y \<in> D. x \<notin> set (out y)"
proof (induction rule: finished.induct)
  case (finished_insert D x)
  then have "\<forall>y \<in> insert x D. x \<notin> set (out y)" by (auto dest: finished_closed)
  then show ?case by blast
qed simp

definition done_nodes :: "('n, visit) btree_map \<Rightarrow> 'n set" where
  "done_nodes states = {x. bm_get states x = Some Done}"

fun frames :: "('n \<Rightarrow> 'n list) \<Rightarrow> 'n set \<Rightarrow> 'n option \<Rightarrow> ('n \<times> nat) list \<Rightarrow> bool" where
  \<comment> \<open>every frame has dealt with the edges before its index, the one in progress leads to the frame above it\<close>
  "frames out D up [] \<longleftrightarrow> True"
| "frames out D up ((n, i) # rest) \<longleftrightarrow>
     set (take i (out n)) \<subseteq> D \<union> set_option up \<and> set_option up \<subseteq> set (out n) \<and> frames out D (Some n) rest"

lemma frames_path:
  "frames out D up st \<Longrightarrow>
     successively (\<lambda>a b. b \<in> set (out a)) (rev (map fst st) @ (case up of None \<Rightarrow> [] | Some a \<Rightarrow> [a]))"
proof (induction out D up st rule: frames.induct)
  case (2 out D up n i rest)
  then have "successively (\<lambda>a b. b \<in> set (out a)) (rev (map fst rest) @ [n])" by simp
  with "2.prems" show ?case by (cases up) (auto simp: successively_append_iff)
qed (auto split: option.splits)

lemma frames_mono: "frames out D up st \<Longrightarrow> D \<subseteq> D' \<Longrightarrow> frames out D' up st"
  by (induction out D up st rule: frames.induct) auto

lemma frames_pop: "frames out D (Some n) st \<Longrightarrow> frames out (insert n D) None st"
proof (cases st)
  case (Cons f st')
  assume "frames out D (Some n) st"
  then show ?thesis using Cons by (cases f) (auto intro: frames_mono)
qed simp

definition walk_inv ::
  "('n::linorder \<Rightarrow> 'n list) \<Rightarrow> 'n set \<Rightarrow> ('n \<times> nat) list \<Rightarrow> 'n list \<Rightarrow> ('n, nat) btree_map
     \<Rightarrow> ('n, visit) btree_map \<Rightarrow> bool" where
  "walk_inv out W stack path positions states \<longleftrightarrow>
     path = rev (map fst stack) \<and> distinct path \<and> set path \<subseteq> W \<and> bm_wf positions \<and> bm_wf states \<and>
     (\<forall>x i. bm_get positions x = Some i \<longleftrightarrow> i < length path \<and> path ! i = x) \<and>
     (\<forall>x. bm_get states x = Some Visiting \<longleftrightarrow> x \<in> set path) \<and>
     finished out (done_nodes states) \<and> done_nodes states \<subseteq> W \<and> frames out (done_nodes states) None stack"

lemma walk_inv_node: "walk_inv out W ((n, i) # below) path positions states \<Longrightarrow> n \<in> W"
proof -
  assume inv: "walk_inv out W ((n, i) # below) path positions states"
  then have "path = rev (map fst below) @ [n]" "set path \<subseteq> W"
    unfolding walk_inv_def list.map fst_conv rev.simps by blast+
  then show ?thesis by simp
qed

lemma walk_inv_pop:
  assumes inv: "walk_inv out W ((n, i) # below) path positions states" and over: "length (out n) \<le> i"
  shows "walk_inv out W below (butlast path) (bm_remove n positions) (bm_insert n Done states)"
proof -
  let ?D = "done_nodes states"
  have path: "path = rev (map fst below) @ [n]" "distinct path" "set path \<subseteq> W"
    and wf: "bm_wf positions" "bm_wf states"
    and pos: "\<And>x i. bm_get positions x = Some i \<longleftrightarrow> i < length path \<and> path ! i = x"
    and vis: "\<And>x. bm_get states x = Some Visiting \<longleftrightarrow> x \<in> set path"
    and fin: "finished out ?D" "?D \<subseteq> W" and fr: "frames out ?D None ((n, i) # below)"
    using inv unfolding walk_inv_def list.map fst_conv rev.simps by blast+
  have done': "done_nodes (bm_insert n Done states) = insert n ?D"
    using wf by (auto simp: done_nodes_def bm_get_insert)
  have "bm_get states n = Some Visiting" using vis [of n] path(1) by simp
  then have "n \<notin> ?D" by (simp add: done_nodes_def)
  moreover have "set (out n) \<subseteq> ?D" using fr over by simp
  ultimately have "finished out (insert n ?D)" using fin(1) by (rule finished_insert [rotated])
  moreover have "frames out (insert n ?D) None below" using fr by (simp add: frames_pop)
  moreover have "bm_get (bm_remove n positions) x = Some k \<longleftrightarrow> k < length (butlast path) \<and> butlast path ! k = x"
    for x k
    using pos [of x k] path(1,2) nth_mem [of k "rev (map fst below)"]
    by (auto simp: bm_get_remove nth_append less_Suc_eq dest: nth_mem split: if_splits)
  moreover have "bm_get (bm_insert n Done states) x = Some Visiting \<longleftrightarrow> x \<in> set (butlast path)" for x
    using vis [of x] path(1,2) wf by (auto simp: bm_get_insert)
  ultimately show ?thesis
    unfolding walk_inv_def using path wf fin(2) done'
    by (simp add: bm_wf_remove bm_wf_insert)
qed

lemma walk_inv_skip:
  assumes inv: "walk_inv out W ((n, i) # below) path positions states"
    and "i < length (out n)" "bm_get states (out n ! i) = Some Done"
  shows "walk_inv out W ((n, Suc i) # below) path positions states"
proof -
  have "frames out (done_nodes states) None ((n, i) # below) \<Longrightarrow>
      frames out (done_nodes states) None ((n, Suc i) # below)"
    using assms(2,3) by (simp add: take_Suc_conv_app_nth done_nodes_def)
  with inv show ?thesis unfolding walk_inv_def list.map fst_conv by blast
qed

lemma walk_inv_push:
  assumes inv: "walk_inv out W ((n, i) # below) path positions states"
    and i: "i < length (out n)" and fresh: "bm_get states (out n ! i) = None" and W: "set (out n) \<subseteq> W"
  shows "walk_inv out W ((out n ! i, 0) # (n, Suc i) # below) (path @ [out n ! i])
    (bm_insert (out n ! i) (length path) positions) (bm_insert (out n ! i) Visiting states)"
proof -
  let ?x = "out n ! i"
  have path: "path = rev (map fst below) @ [n]" "distinct path" "set path \<subseteq> W"
    and wf: "bm_wf positions" "bm_wf states"
    and pos: "\<And>x i. bm_get positions x = Some i \<longleftrightarrow> i < length path \<and> path ! i = x"
    and vis: "\<And>x. bm_get states x = Some Visiting \<longleftrightarrow> x \<in> set path"
    and fin: "finished out (done_nodes states)" "done_nodes states \<subseteq> W"
    and fr: "frames out (done_nodes states) None ((n, i) # below)"
    using inv unfolding walk_inv_def list.map fst_conv rev.simps by blast+
  have done': "done_nodes (bm_insert ?x Visiting states) = done_nodes states"
    using wf fresh by (auto simp: done_nodes_def bm_get_insert)
  have new: "?x \<notin> set path" using vis [of ?x] fresh by simp
  have mem: "?x \<in> set (out n)" using i by simp
  have "frames out (done_nodes states) None ((?x, 0) # (n, Suc i) # below)"
    using fr mem i by (auto simp: take_Suc_conv_app_nth)
  moreover have "bm_get (bm_insert ?x (length path) positions) x = Some k \<longleftrightarrow>
      k < length (path @ [?x]) \<and> (path @ [?x]) ! k = x" for x k
  proof -
    have "k < length path \<Longrightarrow> path ! k \<noteq> ?x" using new nth_mem [of k path] by metis
    then show ?thesis using pos [of x k] wf by (auto simp: bm_get_insert nth_append less_Suc_eq)
  qed
  moreover have "bm_get (bm_insert ?x Visiting states) x = Some Visiting \<longleftrightarrow> x \<in> set (path @ [?x])" for x
    using vis [of x] wf by (auto simp: bm_get_insert)
  ultimately show ?thesis
    unfolding walk_inv_def using path wf fin done' new mem W
    by (auto simp: bm_wf_insert)
qed

lemma walk_inv_cycle:
  assumes inv: "walk_inv out W ((n, i) # below) path positions states"
    and i: "i < length (out n)" and at: "bm_get positions (out n ! i) = Some p"
  shows "p < length path" and "cycle_in out (drop p path @ [out n ! i])"
proof -
  let ?x = "out n ! i"
  have path: "path = rev (map fst below) @ [n]" "distinct path"
    and p: "p < length path" "path ! p = ?x"
    and fr: "frames out (done_nodes states) None ((n, i) # below)"
    using inv at unfolding walk_inv_def list.map fst_conv rev.simps by blast+
  show "p < length path" by (rule p(1))
  have drop: "drop p path = ?x # drop (Suc p) path" using p by (metis Cons_nth_drop_Suc)
  have "successively (\<lambda>a b. b \<in> set (out a)) path" using frames_path [OF fr] path(1) by simp
  then have "successively (\<lambda>a b. b \<in> set (out a)) (drop p path)"
    by (metis append_take_drop_id successively_append_iff)
  moreover have "last (drop p path) = n" using path(1) p(1) by simp
  ultimately have "successively (\<lambda>a b. b \<in> set (out a)) (drop p path @ [?x])"
    using i by (auto simp: successively_append_iff)
  moreover have "distinct (drop (Suc p) path @ [?x])"
    using path(2) drop by (metis distinct.simps(2) distinct1_rotate distinct_drop rotate1.simps(2))
  ultimately show "cycle_in out (drop p path @ [?x])"
    using drop by (simp add: cycle_in_def)
qed

definition search_done :: "('n::linorder \<Rightarrow> 'n list) \<Rightarrow> 'n set \<Rightarrow> ('n, visit) btree_map \<Rightarrow> bool" where
  \<comment> \<open>between two searches: what has been seen is finished\<close>
  "search_done out W states \<longleftrightarrow>
     bm_wf states \<and> finished out (done_nodes states) \<and> done_nodes states \<subseteq> W \<and>
     (\<forall>x. bm_get states x \<noteq> Some Visiting)"

lemma walk_result:
  assumes "walk_inv out W stack path positions states"
    and "\<forall>x \<in> W. bm_get neighbours x = Some (out x)" and "\<forall>x. set (out x) \<subseteq> W"
  shows "(\<exists>c states'. walk neighbours stack path positions states = (Inr (Some c, states') :: 'e fault + _) \<and> cycle_in out c) \<or>
    (\<exists>states'. walk neighbours stack path positions states = (Inr (None, states') :: 'e fault + _) \<and>
       search_done out W states' \<and> set (bm_keys states) \<subseteq> set (bm_keys states'))"
  using assms
proof (induction neighbours stack path positions states rule: walk.induct)
  case (1 neighbours path positions states)
  then have "search_done out W states" by (simp add: walk_inv_def search_done_def)
  then show ?case by (simp add: walk.simps)
next
  case (2 neighbours node i below path positions states)
  let ?st = "(node, i) # below"
  note inv = "2.prems"(1) and nb = "2.prems"(2) and W = "2.prems"(3)
  then have sub: "set (out node) \<subseteq> W" by blast
  have get: "bm_get neighbours node = Some (out node)"
    using nb walk_inv_node [OF inv] by blast
  show ?case
  proof (cases "length (out node) \<le> i")
    case True
    have run: "walk neighbours ?st path positions states =
        walk neighbours below (butlast path) (bm_remove node positions) (bm_insert node Done states)"
      using get True by (simp add: walk.simps)
    show ?thesis
      unfolding run using "2.IH"(1) [OF get True walk_inv_pop [OF inv True] nb W]
      by (auto simp: set_bm_keys_insert)
  next
    case False
    let ?x = "out node ! i"
    have i: "i < length (out node)" using False by simp
    show ?thesis
    proof (cases "bm_get states ?x")
      case None
      have run: "walk neighbours ?st path positions states =
          walk neighbours ((?x, 0) # (node, i + 1) # below) (path @ [?x])
            (bm_insert ?x (length path) positions) (bm_insert ?x Visiting states)"
        using get False None by (simp add: walk.simps)
      have inv': "walk_inv out W ((?x, 0) # (node, i + 1) # below) (path @ [?x])
          (bm_insert ?x (length path) positions) (bm_insert ?x Visiting states)"
        using walk_inv_push [OF inv i None sub] by simp
      show ?thesis
        unfolding run using "2.IH"(2) [OF get False None inv' nb W] by (auto simp: set_bm_keys_insert)
    next
      case (Some v)
      show ?thesis
      proof (cases v)
        case Visiting
        have "bm_get states y = Some Visiting \<longleftrightarrow> y \<in> set path" for y
          using inv unfolding walk_inv_def by blast
        with Some Visiting have "?x \<in> set path" by simp
        moreover have "bm_get positions y = Some j \<longleftrightarrow> j < length path \<and> path ! j = y" for y j
          using inv unfolding walk_inv_def by blast
        ultimately obtain p where at: "bm_get positions ?x = Some p"
          by (metis in_set_conv_nth)
        have "walk neighbours ?st path positions states = Inr (Some (drop p path @ [?x]), states)"
          using get False Some Visiting at walk_inv_cycle(1) [OF inv i at] by (simp add: walk.simps)
        then show ?thesis using walk_inv_cycle(2) [OF inv i at] by blast
      next
        case Done
        have run: "walk neighbours ?st path positions states =
            walk neighbours ((node, i + 1) # below) path positions states"
          using get False Some Done by (simp add: walk.simps)
        have inv': "walk_inv out W ((node, i + 1) # below) path positions states"
          using walk_inv_skip [OF inv i] Some Done by simp
        show ?thesis
          unfolding run by (rule "2.IH"(4) [OF get False Some Done inv' nb W])
      qed
    qed
  qed
qed

lemma search_done_keys: "search_done out W states \<Longrightarrow> set (bm_keys states) = done_nodes states"
proof (rule set_eqI)
  fix x
  assume done': "search_done out W states"
  have "x \<in> set (bm_keys states) \<longleftrightarrow> bm_get states x \<noteq> None" by (simp add: bm_get_None_iff)
  also have "\<dots> \<longleftrightarrow> x \<in> done_nodes states"
    using done' unfolding search_done_def done_nodes_def by (metis (mono_tags) mem_Collect_eq not_None_eq visit.exhaust)
  finally show "x \<in> set (bm_keys states) \<longleftrightarrow> x \<in> done_nodes states" .
qed

lemma walk_inv_start:
  assumes done': "search_done out W states" and start: "bm_get states x = None" "x \<in> W"
  shows "walk_inv out W [(x, 0)] [x] (bm_insert x 0 []) (bm_insert x Visiting states)"
proof -
  have "done_nodes (bm_insert x Visiting states) = done_nodes states"
    using done' start by (auto simp: search_done_def done_nodes_def bm_get_insert)
  with done' start show ?thesis
    by (auto simp: walk_inv_def search_done_def bm_get_insert bm_wf_insert bm_wf_Cons)
qed

lemma find_cycle_loop_result:
  assumes "search_done out W states" and "set starts \<subseteq> W"
    and "\<forall>x \<in> W. bm_get neighbours x = Some (out x)" and "\<forall>x. set (out x) \<subseteq> W"
  shows "(\<exists>c. find_cycle_loop neighbours starts states = (Inr (Some c) :: 'e fault + _) \<and> cycle_in out c) \<or>
    (find_cycle_loop neighbours starts states = (Inr None :: 'e fault + _) \<and>
       (\<exists>D. finished out D \<and> D \<subseteq> W \<and> set starts \<union> done_nodes states \<subseteq> D))"
  using assms(1,2)
proof (induction starts arbitrary: states)
  case Nil
  then show ?case by (auto simp: search_done_def)
next
  case (Cons x starts)
  show ?case
  proof (cases "bm_contains states x")
    case True
    then have "x \<in> done_nodes states" using search_done_keys [OF Cons.prems(1)] by (simp add: bm_contains_iff)
    then have same: "set (x # starts) \<union> done_nodes states = set starts \<union> done_nodes states" by auto
    from True have "find_cycle_loop neighbours (x # starts) states = (find_cycle_loop neighbours starts states :: 'e fault + _)"
      by simp
    with Cons.IH [OF Cons.prems(1)] Cons.prems(2) show ?thesis unfolding same by simp
  next
    case False
    then have inv: "walk_inv out W [(x, 0)] [x] (bm_insert x 0 []) (bm_insert x Visiting states)"
      using walk_inv_start [OF Cons.prems(1)] Cons.prems(2) by (simp add: bm_contains_def)
    from walk_result [OF inv assms(3,4)] show ?thesis
    proof (elim disjE exE conjE)
      fix c states'
      assume "walk neighbours [(x, 0)] [x] (bm_insert x 0 []) (bm_insert x Visiting states)
          = (Inr (Some c, states') :: 'e fault + _)" "cycle_in out c"
      with False show ?thesis by simp
    next
      fix states'
      assume run: "walk neighbours [(x, 0)] [x] (bm_insert x 0 []) (bm_insert x Visiting states)
          = (Inr (None, states') :: 'e fault + _)"
        and after: "search_done out W states'"
        and more: "set (bm_keys (bm_insert x Visiting states)) \<subseteq> set (bm_keys states')"
      have "insert x (done_nodes states) \<subseteq> done_nodes states'"
        using more search_done_keys [OF after] search_done_keys [OF Cons.prems(1)]
        by (simp add: set_bm_keys_insert)
      then have grow: "set (x # starts) \<union> done_nodes states \<subseteq> set starts \<union> done_nodes states'" by auto
      have "find_cycle_loop neighbours (x # starts) states = (find_cycle_loop neighbours starts states' :: 'e fault + _)"
        using False run by simp
      moreover have "set starts \<subseteq> W" using Cons.prems(2) by simp
      ultimately show ?thesis using Cons.IH [OF after] subset_trans [OF grow] by metis
    qed
  qed
qed

text \<open>When every remaining node has a remaining predecessor, the search returns a cycle; the
  fallback behind the loop is never reached.\<close>

lemma bm_get_map_key: "x \<in> set xs \<Longrightarrow> bm_get (map (\<lambda>p. (p, f p)) xs) x = Some (f x)"
  by (induction xs) auto

lemma find_cycle_result:
  assumes "ascending remaining" "remaining \<noteq> []"
    and pred: "\<And>v. v \<in> set remaining \<Longrightarrow> \<exists>u \<in> set remaining. v \<in> set (successors adjacency u)"
  obtains c where "find_cycle remaining adjacency = (Inr c :: 'e fault + _)"
    and "cycle_in (successors adjacency) c"
proof -
  let ?out = "\<lambda>u. filter (bs_contains remaining) (successors adjacency u)"
  have nb: "\<forall>x \<in> set remaining. bm_get (neighbours_of remaining adjacency) x = Some (?out x)"
    unfolding neighbours_of_def by (intro ballI bm_get_map_key [where f = ?out])
  have start: "search_done ?out (set remaining) []"
    by (simp add: search_done_def done_nodes_def finished.intros)
  have "\<not> (\<exists>D. finished ?out D \<and> D \<subseteq> set remaining \<and> set remaining \<union> done_nodes [] \<subseteq> D)"
  proof
    assume "\<exists>D. finished ?out D \<and> D \<subseteq> set remaining \<and> set remaining \<union> done_nodes [] \<subseteq> D"
    then have "finished ?out (set remaining)" by (metis le_sup_iff subset_antisym)
    from finished_source [OF this] assms(2) obtain x where
      "x \<in> set remaining" "\<forall>y \<in> set remaining. x \<notin> set (?out y)" by auto
    with pred show False by fastforce
  qed
  moreover have "\<forall>x. set (?out x) \<subseteq> set remaining" by auto
  ultimately obtain c where c: "find_cycle_loop (neighbours_of remaining adjacency) remaining [] = (Inr (Some c) :: 'e fault + _)"
    "cycle_in ?out c"
    using find_cycle_loop_result [OF start subset_refl nb] by blast
  have "cycle_in (successors adjacency) c"
    using c(2) unfolding cycle_in_def by (auto elim: successively_mono)
  then show thesis using c(1) that by (simp add: find_cycle_def)
qed

section \<open>The graph of a list of edges\<close>

definition edge_preds :: "resolved_edge list \<Rightarrow> plugin_id \<Rightarrow> plugin_id set" where
  "edge_preds edges v = edge_provider ` {e \<in> set edges. edge_consumer e = v}"

definition edges_within :: "plugin_id list \<Rightarrow> resolved_edge list \<Rightarrow> bool" where
  "edges_within plugin_ids edges \<longleftrightarrow>
     (\<forall>e \<in> set edges. edge_provider e \<in> set plugin_ids \<and> edge_consumer e \<in> set plugin_ids)"

definition dependency_cycle :: "resolved_edge list \<Rightarrow> plugin_id list \<Rightarrow> bool" where
  "dependency_cycle edges c \<longleftrightarrow>
     2 \<le> length c \<and> hd c = last c \<and> distinct (tl c) \<and>
     successively (\<lambda>a b. \<exists>e \<in> set edges. edge_provider e = a \<and> edge_consumer e = b) c"

lemma successors_insert:
  "bm_wf adj \<Longrightarrow> successors (bm_insert p s adj) u = (if u = p then s else successors adj u)"
  by (simp add: successors_def bm_get_insert)

definition degrees_inv :: "plugin_id set \<Rightarrow> (plugin_id, nat) btree_map \<times> plugin_id adjacency \<Rightarrow> bool" where
  "degrees_inv N st \<longleftrightarrow>
     bm_wf (fst st) \<and> set (bm_keys (fst st)) = N \<and> bm_wf (snd st) \<and>
     (\<forall>u. ascending (successors (snd st) u)) \<and> linked N (successors (snd st)) \<and>
     (\<forall>v \<in> N. bm_get (fst st) v = Some (card (preds (successors (snd st)) v)))"

lemma add_edge_successors:
  assumes "bm_wf (snd st)"
  shows "set (successors (snd (add_edge e st)) u) =
    set (successors (snd st) u) \<union> {v. u = edge_provider e \<and> v = edge_consumer e}"
  using assms by (cases st) (auto simp: add_edge_def Let_def successors_insert)

lemma add_edge_preds:
  assumes "bm_wf (snd st)"
  shows "preds (successors (snd (add_edge e st))) v =
    (if v = edge_consumer e then insert (edge_provider e) (preds (successors (snd st)) v)
     else preds (successors (snd st)) v)"
  using add_edge_successors [OF assms, of e] by (auto simp: preds_def)

lemma add_edge_inv:
  assumes inv: "degrees_inv N st" and e: "edge_provider e \<in> N" "edge_consumer e \<in> N"
  shows "degrees_inv N (add_edge e st)"
proof -
  obtain d adj where st: "st = (d, adj)" by (cases st)
  let ?p = "edge_provider e" and ?c = "edge_consumer e"
  let ?st' = "add_edge e st"
  have wf: "bm_wf d" "bm_wf adj" and keys: "set (bm_keys d) = N"
    and asc: "ascending (successors adj u)" and graph: "linked N (successors adj)"
    and deg: "v \<in> N \<Longrightarrow> bm_get d v = Some (card (preds (successors adj) v))" for u v
    using inv unfolding degrees_inv_def st fst_conv snd_conv by blast+
  have succ': "set (successors (snd ?st') u) = set (successors adj u) \<union> {v. u = ?p \<and> v = ?c}" for u
    using add_edge_successors [of st e u] wf by (simp add: st)
  have asc': "ascending (successors (snd ?st') u)" for u
    using asc wf by (simp add: st add_edge_def Let_def successors_insert bs_insert_ascending)
  have fin: "finite (preds (successors adj) v)" for v by (rule linked_preds_finite [OF graph])
  have d': "fst ?st' = (if ?p \<in> preds (successors adj) ?c then d else bm_modify ?c (\<lambda>n. n + 1) d)"
    by (simp add: st add_edge_def Let_def preds_def)
  have "linked N (successors (snd ?st'))"
    unfolding linked_def
  proof (intro conjI allI impI)
    show "finite N" using graph by (simp add: linked_def)
    show "distinct (successors (snd ?st') u)" for u using asc' by (rule ascending_distinct)
    show "set (successors (snd ?st') u) \<subseteq> N" for u using graph e by (auto simp: succ' linked_def)
    show "u \<notin> N \<Longrightarrow> successors (snd ?st') u = []" for u
      using graph e succ' [of u] by (cases "successors (snd ?st') u") (auto simp: linked_def)
  qed
  moreover have "bm_get (fst ?st') v = Some (card (preds (successors (snd ?st')) v))" if "v \<in> N" for v
  proof -
    have "preds (successors (snd ?st')) v =
        (if v = ?c then insert ?p (preds (successors adj) v) else preds (successors adj) v)"
      using add_edge_preds [of st e v] wf by (simp add: st)
    then show ?thesis
      unfolding d' using deg [OF that] fin [of v] by (auto simp: bm_get_modify insert_absorb)
  qed
  moreover have "bm_wf (snd ?st')" using wf by (simp add: st add_edge_def Let_def bm_wf_insert)
  moreover have "bm_wf (fst ?st')" "set (bm_keys (fst ?st')) = N" using wf keys by (simp_all add: d')
  ultimately show ?thesis using asc' by (simp add: degrees_inv_def)
qed

lemma add_edges_inv:
  assumes "degrees_inv N st" and "\<forall>e \<in> set edges. edge_provider e \<in> N \<and> edge_consumer e \<in> N"
  shows "degrees_inv N (fold add_edge edges st)" and
    "preds (successors (snd (fold add_edge edges st))) v = preds (successors (snd st)) v \<union> edge_preds edges v"
proof -
  have "degrees_inv N (fold add_edge edges st) \<and>
    preds (successors (snd (fold add_edge edges st))) v = preds (successors (snd st)) v \<union> edge_preds edges v"
    using assms
  proof (induction edges arbitrary: st)
    case (Cons e edges)
    have "degrees_inv N (add_edge e st)" using add_edge_inv [OF Cons.prems(1)] Cons.prems(2) by simp
    moreover have "bm_wf (snd st)" using Cons.prems(1) by (simp add: degrees_inv_def)
    then have "preds (successors (snd (add_edge e st))) v \<union> edge_preds edges v =
        preds (successors (snd st)) v \<union> edge_preds (e # edges) v"
      using add_edge_preds [of st e v] by (auto simp: edge_preds_def)
    ultimately show ?case using Cons.IH [of "add_edge e st"] Cons.prems(2) by auto
  qed (simp add: edge_preds_def)
  then show "degrees_inv N (fold add_edge edges st)" and
    "preds (successors (snd (fold add_edge edges st))) v = preds (successors (snd st)) v \<union> edge_preds edges v"
    by blast+
qed

section \<open>The result of \<open>topological_order\<close>\<close>

lemma bm_keys_map_key: "bm_keys (map (\<lambda>p. (p, f p)) xs) = xs"
  by (induction xs) auto

lemma preds_Nil [simp]: "preds (successors []) v = {}" "successors [] u = []"
  by (simp_all add: preds_def successors_def)

lemma empty_degrees_inv: "degrees_inv (set ids) (map (\<lambda>p. (p, 0)) (bs_of ids), [])"
  by (simp add: degrees_inv_def bm_wf_def linked_def bm_keys_map_key bm_get_map_key comp_def)

lemma set_map_fst_filter:
  "bm_wf m \<Longrightarrow> set (map fst (filter (\<lambda>p. P (snd p)) m)) = {k. \<exists>v. bm_get m k = Some v \<and> P v}"
  by (force simp: bm_get_eq_Some_iff)

lemma kahn_inv_start:
  assumes inv: "degrees_inv N (d, adj)" and pre: "pre = preds (successors adj)"
  shows "kahn_inv N pre d (bs_of (map fst (filter (\<lambda>p. snd p = 0) d))) []"
proof -
  have wf: "bm_wf d" "set (bm_keys d) = N" and graph: "linked N (successors adj)"
    and deg: "\<forall>v \<in> N. bm_get d v = Some (card (pre v))"
    using inv unfolding degrees_inv_def fst_conv snd_conv pre by blast+
  have zero: "card (pre v) = 0 \<longleftrightarrow> pre v = {}" for v
    using linked_preds_finite [OF graph, of v] by (simp add: pre)
  have "bm_get d v = Some 0 \<longleftrightarrow> v \<in> N \<and> pre v = {}" for v
    using deg zero [of v] wf(2) bm_get_None_iff [of d v] by (cases "v \<in> N") auto
  then have "set (bs_of (map fst (filter (\<lambda>p. snd p = 0) d))) = available N pre {}"
    using set_map_fst_filter [OF wf(1), of "\<lambda>n. n = 0"] by (auto simp: available_def)
  then show ?thesis using wf deg by (simp add: kahn_inv_def)
qed

text \<open>When the loop stops early, the nodes left over have a predecessor among themselves, and no
  topological order exists.\<close>

lemma kahn_inv_stuck:
  assumes graph: "linked N succ" and inv: "kahn_inv N (preds succ) d [] order"
  shows "set (map fst (filter (\<lambda>p. 0 < snd p) d)) = N - set order"
    and "v \<in> N - set order \<Longrightarrow> \<exists>u \<in> N - set order. v \<in> set (succ u)"
proof -
  let ?pre = "preds succ"
  have wf: "bm_wf d" "set (bm_keys d) = N" and ord: "greedy N ?pre order" "set order \<subseteq> N"
    and deg: "\<forall>v \<in> N. bm_get d v = Some (card (?pre v - set order))"
    and none: "available N ?pre (set order) = {}"
    using inv unfolding kahn_inv_def by auto
  have pos: "0 < card (?pre v - set order) \<longleftrightarrow> \<not> ?pre v \<subseteq> set order" for v
    using linked_preds_finite [OF graph, of v] by (auto simp: card_gt_0_iff)
  have left: "v \<in> N \<Longrightarrow> \<not> ?pre v \<subseteq> set order \<longleftrightarrow> v \<notin> set order" for v
    using none greedy_preds [OF ord(1), of v] by (auto simp: available_def)
  have "(\<exists>n. bm_get d v = Some n \<and> 0 < n) \<longleftrightarrow> v \<in> N - set order" for v
    using deg pos [of v] left [of v] wf(2) bm_get_None_iff [of d v] by (cases "v \<in> N") auto
  then show "set (map fst (filter (\<lambda>p. 0 < snd p) d)) = N - set order"
    using set_map_fst_filter [OF wf(1), of "\<lambda>n. 0 < n"] by auto
  assume v: "v \<in> N - set order"
  with left have "\<not> ?pre v \<subseteq> set order" by blast
  moreover have "?pre v \<subseteq> N" using graph by (auto simp: preds_def linked_def)
  ultimately show "\<exists>u \<in> N - set order. v \<in> set (succ u)" by (auto simp: preds_def)
qed

lemma stuck_not_topological:
  assumes none: "available N pre S = {}" and ys: "topological N pre ys"
  shows "N \<subseteq> S"
proof (rule ccontr)
  assume "\<not> N \<subseteq> S"
  then have "\<exists>y \<in> set ys. y \<notin> S" using ys by (auto simp: topological_def)
  then obtain as b bs where split: "ys = as @ b # bs" "b \<notin> S" "\<forall>a \<in> set as. a \<in> S"
    using split_list_first_prop [of ys "\<lambda>y. y \<notin> S"] by auto
  from ys split(1) have "b \<in> N" "pre b \<subseteq> set as" unfolding topological_def by auto
  moreover from this(2) split(3) have "pre b \<subseteq> S" by blast
  ultimately show False using split(2) none by (auto simp: available_def)
qed

lemma topological_order_cases:
  assumes within: "edges_within ids edges"
  obtains (order) order where "topological_order ids edges = (Inr order :: ('v, 'q) resolve_error fault + _)"
      and "greedy (set ids) (edge_preds edges) order" and "set order = set ids"
    | (cycle) c where "topological_order ids edges = (Inl (Err (DependencyCycle c)) :: ('v, 'q) resolve_error fault + _)"
      and "dependency_cycle edges c" and "\<nexists>ys. topological (set ids) (edge_preds edges) ys"
proof -
  let ?N = "set ids"
  obtain d adj where graph: "fold add_edge edges (map (\<lambda>p. (p, 0)) (bs_of ids), []) = (d, adj)"
    by (cases "fold add_edge edges (map (\<lambda>p. (p, 0)) (bs_of ids), [])")
  have inv: "degrees_inv ?N (d, adj)"
    using add_edges_inv(1) [OF empty_degrees_inv, of edges ids] within graph
    by (simp add: edges_within_def)
  have pre: "preds (successors adj) = edge_preds edges"
    using add_edges_inv(2) [OF empty_degrees_inv, of edges ids] within graph
    by (auto simp: edges_within_def)
  have linked: "linked ?N (successors adj)" using inv by (simp add: degrees_inv_def)
  let ?ready = "bs_of (map fst (filter (\<lambda>p. snd p = 0) d))"
  obtain d' order where loop: "kahn_loop adj (d, ?ready) [] = (Inr (d', order) :: ('v, 'q) resolve_error fault + _)"
    and after: "kahn_inv ?N (preds (successors adj)) d' [] order"
    using kahn_loop_result [OF linked kahn_inv_start [OF inv refl]] by blast
  have ord: "greedy ?N (edge_preds edges) order" "set order \<subseteq> ?N"
    and none: "available ?N (edge_preds edges) (set order) = {}"
    using after unfolding kahn_inv_def pre by auto
  have len: "length order = length (bs_of ids) \<longleftrightarrow> set order = ?N"
  proof -
    have "length order = card (set order)" using greedy_distinct [OF ord(1)] by (simp add: distinct_card)
    moreover have "length (bs_of ids) = card ?N"
      using distinct_card [OF ascending_distinct [OF ascending_bs_of [of ids]]] by simp
    ultimately show ?thesis using ord(2) by (metis List.finite_set card_subset_eq)
  qed
  have run: "topological_order ids edges = (if set order \<noteq> ?N
      then and_then (find_cycle (bs_of (map fst (filter (\<lambda>p. 0 < snd p) d'))) adj)
        (\<lambda>c. Inl (Err (DependencyCycle c)))
      else Inr order :: ('v, 'q) resolve_error fault + _)"
    using graph loop len by (simp add: topological_order_def)
  show thesis
  proof (cases "set order = ?N")
    case True
    with run ord(1) show ?thesis by (intro order [of order]) simp_all
  next
    case False
    let ?left = "bs_of (map fst (filter (\<lambda>p. 0 < snd p) d'))"
    have left: "set ?left = ?N - set order"
      using kahn_inv_stuck(1) [OF linked after] by simp
    with False ord(2) have "?left \<noteq> []" by force
    moreover have "\<exists>u \<in> set ?left. v \<in> set (successors adj u)" if "v \<in> set ?left" for v
      using kahn_inv_stuck(2) [OF linked after] that unfolding left by blast
    ultimately obtain c where c: "find_cycle ?left adj = (Inr c :: ('v, 'q) resolve_error fault + _)"
      "cycle_in (successors adj) c"
      using find_cycle_result [OF ascending_bs_of] by metis
    have "a \<in> preds (successors adj) b \<longleftrightarrow> a \<in> edge_preds edges b" for a b by (simp add: pre)
    then have "b \<in> set (successors adj a) \<longleftrightarrow> (\<exists>e \<in> set edges. edge_provider e = a \<and> edge_consumer e = b)" for a b
      by (auto simp: preds_def edge_preds_def)
    with c(2) have "dependency_cycle edges c" by (simp add: cycle_in_def dependency_cycle_def)
    moreover have "\<nexists>ys. topological ?N (edge_preds edges) ys"
      using stuck_not_topological [OF none] False ord(2) by blast
    ultimately show ?thesis using run False c(1) by (intro cycle) simp_all
  qed
qed

lemma topological_order_failure:
  assumes "edges_within ids edges" and "topological_order ids edges = (Inl (e :: ('v, 'q) resolve_error fault))"
  shows "\<exists>c. e = Err (DependencyCycle c) \<and> dependency_cycle edges c"
  using assms(1)
proof (cases rule: topological_order_cases [where ?'v = 'v and ?'q = 'q])
  case (cycle c)
  with assms(2) show ?thesis by auto
qed (use assms(2) in simp)

section \<open>Properties\<close>

definition least_topological :: "plugin_id set \<Rightarrow> (plugin_id \<Rightarrow> plugin_id set) \<Rightarrow> plugin_id list \<Rightarrow> bool" where
  "least_topological N pre order \<longleftrightarrow>
     topological N pre order \<and> (\<forall>ys. topological N pre ys \<longrightarrow> order \<le> ys)"

lemma greedy_least_topological: "greedy N pre order \<Longrightarrow> set order = N \<Longrightarrow> least_topological N pre order"
  by (simp add: least_topological_def greedy_least greedy_topological greedy_distinct)

text \<open>C2: the order returned by \<open>topological_order\<close> lists every plugin once, each after the plugins
  it depends on, and it is the lexicographically least order that does so.\<close>

theorem topological_order_least:
  assumes "edges_within ids edges" and "topological_order ids edges = (Inr order :: ('v, 'q) resolve_error fault + _)"
  shows "least_topological (set ids) (edge_preds edges) order"
  using assms(1)
proof (cases rule: topological_order_cases [where ?'v = 'v and ?'q = 'q])
  case (order order')
  with assms(2) show ?thesis by (simp add: greedy_least_topological)
qed (use assms(2) in simp)

definition demo_ids :: "plugin_id list" where
  "demo_ids = [PluginId ''d'', PluginId ''b'', PluginId ''a'', PluginId ''c'']"

definition demo_edges :: "resolved_edge list" where
  "demo_edges =
    [ResolvedEdge (PluginId ''d'') (PluginId ''b'') (CapabilityId ''x''),
     ResolvedEdge (PluginId ''d'') (PluginId ''b'') (CapabilityId ''y''),
     ResolvedEdge (PluginId ''b'') (PluginId ''a'') (CapabilityId ''z'')]"

lemma demo_within: "edges_within demo_ids demo_edges"
  by (simp add: edges_within_def demo_ids_def demo_edges_def)

lemma demo_order: "topological_order demo_ids demo_edges =
    (Inr [PluginId ''c'', PluginId ''d'', PluginId ''b'', PluginId ''a''] :: (nat, nat) resolve_error fault + _)"
  by code_simp

theorem topological_order_least_witness:
  "least_topological (set demo_ids) (edge_preds demo_edges)
     [PluginId ''c'', PluginId ''d'', PluginId ''b'', PluginId ''a'']"
  by (rule topological_order_least [OF demo_within demo_order])

text \<open>C13: \<open>topological_order\<close> fails only with a dependency cycle, and the reported path is a cycle of
  the graph: it has at least two entries, ends where it starts, visits no other plugin twice, and
  every step follows an edge from provider to consumer. In particular no degree underflows, no
  lookup in the search panics and its fallback is never reached.\<close>

theorem topological_order_error:
  assumes "edges_within ids edges" and "topological_order ids edges = (Inl (e :: ('v, 'q) resolve_error fault))"
  shows "\<exists>c. e = Err (DependencyCycle c) \<and> dependency_cycle edges c"
  by (rule topological_order_failure [OF assms])

definition loop_ids :: "plugin_id list" where
  "loop_ids = [PluginId ''a'', PluginId ''b'', PluginId ''c'', PluginId ''d'']"

definition loop_edges :: "resolved_edge list" where
  "loop_edges =
    [ResolvedEdge (PluginId ''a'') (PluginId ''b'') (CapabilityId ''w''),
     ResolvedEdge (PluginId ''b'') (PluginId ''c'') (CapabilityId ''x''),
     ResolvedEdge (PluginId ''b'') (PluginId ''d'') (CapabilityId ''y''),
     ResolvedEdge (PluginId ''d'') (PluginId ''b'') (CapabilityId ''z'')]"

lemma loop_within: "edges_within loop_ids loop_edges"
  by (simp add: edges_within_def loop_ids_def loop_edges_def)

lemma loop_error: "topological_order loop_ids loop_edges =
    (Inl (Err (DependencyCycle [PluginId ''b'', PluginId ''d'', PluginId ''b'']))
       :: (nat, nat) resolve_error fault + _)"
  by code_simp

theorem topological_order_error_witness:
  "\<exists>c. Err (DependencyCycle [PluginId ''b'', PluginId ''d'', PluginId ''b'']) =
         (Err (DependencyCycle c) :: (nat, nat) resolve_error fault) \<and> dependency_cycle loop_edges c"
  by (rule topological_order_error [OF loop_within loop_error])

text \<open>An order is found whenever one exists.\<close>

lemma topological_order_complete:
  assumes "edges_within ids edges" and "topological (set ids) (edge_preds edges) ys"
  shows "\<exists>order. topological_order ids edges = (Inr order :: ('v, 'q) resolve_error fault + _)"
  using assms(1)
proof (cases rule: topological_order_cases [where ?'v = 'v and ?'q = 'q])
  case (cycle c)
  with assms(2) show ?thesis by blast
qed blast

lemma demo_topological:
  "topological (set demo_ids) (edge_preds demo_edges)
     [PluginId ''d'', PluginId ''c'', PluginId ''b'', PluginId ''a'']"
  by (auto simp: topological_def demo_ids_def edge_preds_def demo_edges_def Cons_eq_append_conv)

theorem topological_order_complete_witness:
  "\<exists>order. topological_order demo_ids demo_edges = (Inr order :: (nat, nat) resolve_error fault + _)"
  by (rule topological_order_complete [OF demo_within demo_topological])

end
