(* ===== verification/Resolve.thy ===== *)
theory Resolve
  imports Topology
begin

text \<open>
  \<open>resolve\<close> of \<open>kernox-core/src/graph.rs\<close> and its helpers, and the queries of a resolved graph.
  \<open>matches\<close> stands for \<open>semver::VersionReq::matches\<close>, a function of a library. The loops of
  \<open>resolve\<close> are \<open>for_each\<close> over the entries of its maps, in the order of the source; the only
  operation that can panic is the index \<open>plugins[provider]\<close>.
\<close>

section \<open>Checks before the resolution\<close>

definition validate_schema_version :: "u32 \<Rightarrow> ('v, 'q) resolve_error + unit" where
  "validate_schema_version actual =
     (if actual = COMPOSITION_SCHEMA_VERSION then Inr ()
      else Inl (UnsupportedSchemaVersion actual COMPOSITION_SCHEMA_VERSION))"

definition validate_configured_limits :: "graph_limits \<Rightarrow> ('v, 'q) resolve_error + unit" where
  "validate_configured_limits limits =
     for_each
       (\<lambda>(limit, actual, maximum) _.
          if actual > maximum then Inl (ConfiguredLimitExceeded limit actual maximum) else Inr ())
       [(''plugins'', max_plugins limits, ABSOLUTE_MAX_PLUGINS),
        (''capabilities-per-plugin'', max_capabilities_per_plugin limits, ABSOLUTE_MAX_CAPABILITIES_PER_PLUGIN),
        (''edges'', max_edges limits, ABSOLUTE_MAX_EDGES)] ()"

definition validate_plugin_limit :: "nat \<Rightarrow> nat \<Rightarrow> ('v, 'q) resolve_error + unit" where
  "validate_plugin_limit actual maximum =
     (if actual \<le> maximum then Inr () else Inl (PluginLimitExceeded actual maximum))"

type_synonym ('v, 'q) plugin_map = "(plugin_id, ('v, 'q) plugin_descriptor) btree_map"

definition insert_plugin ::
  "graph_limits \<Rightarrow> ('v, 'q) plugin_descriptor \<Rightarrow> ('v, 'q) plugin_map \<Rightarrow> ('v, 'q) resolve_error + ('v, 'q) plugin_map" where
  "insert_plugin limits descriptor plugins =
     (let p = pd_id descriptor;
          declaration_count = saturating_add (length (provides descriptor)) (length (requires descriptor))
      in if declaration_count > max_capabilities_per_plugin limits then
           Inl (CapabilityLimitExceeded p declaration_count (max_capabilities_per_plugin limits))
         else if bm_get plugins p \<noteq> None then Inl (DuplicatePlugin p)
         else Inr (bm_insert p descriptor plugins))"

definition check_conflict ::
  "('v, 'q) plugin_map \<Rightarrow> ('v, 'q) plugin_descriptor \<Rightarrow> plugin_id \<Rightarrow> unit \<Rightarrow> ('v, 'q) resolve_error + unit" where
  "check_conflict plugins descriptor conflict u =
     (if bm_contains plugins conflict then
        (if pd_id descriptor < conflict then Inl (PluginConflict (pd_id descriptor) conflict)
         else Inl (PluginConflict conflict (pd_id descriptor)))
      else Inr ())"

definition validate_conflicts :: "('v, 'q) plugin_map \<Rightarrow> ('v, 'q) resolve_error + unit" where
  "validate_conflicts plugins =
     for_each (\<lambda>descriptor. for_each (check_conflict plugins descriptor) (pd_conflicts descriptor))
       (bm_values plugins) ()"

definition check_self_dependency ::
  "('v, 'q) plugin_descriptor \<Rightarrow> 'q capability_requirement \<Rightarrow> unit \<Rightarrow> ('v, 'q) resolve_error + unit" where
  "check_self_dependency descriptor requirement u =
     (if offer descriptor (req_id requirement) \<noteq> None then
        Inl (SelfDependency (pd_id descriptor) (req_id requirement))
      else Inr ())"

definition validate_no_self_dependencies :: "('v, 'q) plugin_map \<Rightarrow> ('v, 'q) resolve_error + unit" where
  "validate_no_self_dependencies plugins =
     for_each (\<lambda>descriptor. for_each (check_self_dependency descriptor) (requires descriptor))
       (bm_values plugins) ()"

section \<open>Providers and bindings\<close>

record 'v provider_candidate =
  cand_plugin :: plugin_id
  cand_version :: 'v

type_synonym 'v provider_index = "(capability_id, 'v provider_candidate list) btree_map"

definition index_offer ::
  "('v, 'q) plugin_descriptor \<Rightarrow> 'v capability_offer \<Rightarrow> 'v provider_index \<Rightarrow> 'v provider_index" where
  "index_offer descriptor ofr providers =
     (let known = (case bm_get providers (offer_id ofr) of None \<Rightarrow> [] | Some cs \<Rightarrow> cs)
      in bm_insert (offer_id ofr)
           (known @ [\<lparr>cand_plugin = pd_id descriptor, cand_version = offer_version ofr\<rparr>]) providers)"

definition index_providers :: "('v, 'q) plugin_map \<Rightarrow> 'v provider_index" where
  "index_providers plugins =
     fold (\<lambda>descriptor. fold (index_offer descriptor) (provides descriptor)) (bm_values plugins) []"

type_synonym binding_map = "(plugin_id \<times> capability_id, plugin_id) btree_map"

definition insert_binding ::
  "('v, 'q) plugin_map \<Rightarrow> binding \<Rightarrow> binding_map \<Rightarrow> ('v, 'q) resolve_error + binding_map" where
  "insert_binding plugins b bindings =
     (if \<not> bm_contains plugins (bind_consumer b) then Inl (UnknownBindingConsumer (bind_consumer b))
      else if \<not> bm_contains plugins (bind_provider b) then Inl (UnknownBindingProvider (bind_provider b))
      else
        let key = (bind_consumer b, bind_capability b)
        in if bm_get bindings key \<noteq> None then
             Inl (DuplicateBinding (bind_consumer b) (bind_capability b))
           else Inr (bm_insert key (bind_provider b) bindings))"

definition validated_bindings ::
  "binding list \<Rightarrow> ('v, 'q) plugin_map \<Rightarrow> ('v, 'q) resolve_error + binding_map" where
  "validated_bindings declared plugins = for_each (insert_binding plugins) declared []"

section \<open>Selecting the providers of a requirement\<close>

definition select_bound ::
  "('q \<Rightarrow> 'v \<Rightarrow> bool) \<Rightarrow> plugin_id \<Rightarrow> 'q capability_requirement \<Rightarrow> plugin_id \<Rightarrow> ('v, 'q) plugin_map
     \<Rightarrow> ('v, 'q) resolve_error fault + plugin_id list" where
  "select_bound matches consumer requirement provider plugins =
     (case bm_get plugins provider of
        None \<Rightarrow> Inl Panic
      | Some descriptor \<Rightarrow>
          (case offer descriptor (req_id requirement) of
             None \<Rightarrow> Inl (Err (BoundProviderDoesNotOffer consumer (req_id requirement) provider))
           | Some ofr \<Rightarrow>
               if \<not> matches (req_version requirement) (offer_version ofr) then
                 Inl (Err (IncompatibleBinding consumer (req_id requirement) provider
                   (offer_version ofr) (req_version requirement)))
               else Inr [provider]))"

definition missing_or_incompatible ::
  "plugin_id \<Rightarrow> 'q capability_requirement \<Rightarrow> 'v provider_candidate list \<Rightarrow> ('v, 'q) resolve_error" where
  "missing_or_incompatible consumer requirement candidates =
     (if candidates = [] then MissingProvider consumer (req_id requirement) (req_version requirement)
      else IncompatibleProvider consumer (req_id requirement) (req_version requirement)
        (map (\<lambda>c. (cand_plugin c, cand_version c)) candidates))"

definition select_unbound ::
  "('q \<Rightarrow> 'v \<Rightarrow> bool) \<Rightarrow> plugin_id \<Rightarrow> 'q capability_requirement \<Rightarrow> 'v provider_candidate list
     \<Rightarrow> ('v, 'q) resolve_error + plugin_id list" where
  "select_unbound matches consumer requirement candidates =
     (let compatible = map cand_plugin (filter (\<lambda>c. matches (req_version requirement) (cand_version c)) candidates)
      in if is_bindable (req_cardinality requirement) then
           (case compatible of
              [provider] \<Rightarrow> Inr [provider]
            | [] \<Rightarrow>
                if permits_zero (req_cardinality requirement) then Inr []
                else Inl (missing_or_incompatible consumer requirement candidates)
            | _ \<Rightarrow> Inl (AmbiguousProvider consumer (req_id requirement) compatible))
         else if req_cardinality requirement = OneOrMore \<and> compatible = [] then
           Inl (missing_or_incompatible consumer requirement candidates)
         else Inr compatible)"

definition select_providers ::
  "('q \<Rightarrow> 'v \<Rightarrow> bool) \<Rightarrow> plugin_id \<Rightarrow> 'q capability_requirement \<Rightarrow> plugin_id option
     \<Rightarrow> 'v provider_candidate list \<Rightarrow> ('v, 'q) plugin_map
     \<Rightarrow> ('v, 'q) resolve_error fault + plugin_id list" where
  "select_providers matches consumer requirement bound candidates plugins =
     (if bound \<noteq> None \<and> \<not> is_bindable (req_cardinality requirement) then
        Inl (Err (BindingForMultiple consumer (req_id requirement)))
      else
        case bound of
          Some provider \<Rightarrow> select_bound matches consumer requirement provider plugins
        | None \<Rightarrow> fallible (select_unbound matches consumer requirement candidates))"

section \<open>The resolution loop\<close>

record resolution =
  res_requirements :: "resolved_requirement list"
  res_edges :: "resolved_edge btree_set"
  res_used :: "(plugin_id \<times> capability_id) btree_set"

definition insert_edge ::
  "nat \<Rightarrow> plugin_id \<Rightarrow> capability_id \<Rightarrow> plugin_id \<Rightarrow> resolved_edge btree_set
     \<Rightarrow> ('v, 'q) resolve_error + resolved_edge btree_set" where
  "insert_edge maximum consumer capability provider edges =
     (let edges = bs_insert (ResolvedEdge provider consumer capability) edges
      in if length edges > maximum then Inl (EdgeLimitExceeded (length edges) maximum) else Inr edges)"

definition resolve_requirement ::
  "('q \<Rightarrow> 'v \<Rightarrow> bool) \<Rightarrow> graph_limits \<Rightarrow> ('v, 'q) plugin_map \<Rightarrow> 'v provider_index \<Rightarrow> binding_map
     \<Rightarrow> ('v, 'q) plugin_descriptor \<Rightarrow> 'q capability_requirement \<Rightarrow> resolution
     \<Rightarrow> ('v, 'q) resolve_error fault + resolution" where
  "resolve_requirement matches limits plugins providers bindings descriptor requirement st =
     (let key = (pd_id descriptor, req_id requirement);
          bound = bm_get bindings key
      in and_then
           (select_providers matches (pd_id descriptor) requirement bound
              (case bm_get providers (req_id requirement) of None \<Rightarrow> [] | Some cs \<Rightarrow> cs) plugins)
           (\<lambda>selected.
         let used = (if bound \<noteq> None then bs_insert key (res_used st) else res_used st)
         in and_then
              (fallible (for_each (insert_edge (max_edges limits) (pd_id descriptor) (req_id requirement))
                 selected (res_edges st)))
              (\<lambda>edges.
            Inr \<lparr>res_requirements = res_requirements st @
                   [\<lparr>rr_consumer = pd_id descriptor, rr_capability = req_id requirement,
                     rr_cardinality = req_cardinality requirement, rr_providers = selected\<rparr>],
                 res_edges = edges, res_used = used\<rparr>)))"

definition requirement_key :: "resolved_requirement \<Rightarrow> plugin_id \<times> capability_id" where
  "requirement_key r = (rr_consumer r, rr_capability r)"

definition graph_diagnostics ::
  "('v, 'q) plugin_map \<Rightarrow> resolved_requirement list \<Rightarrow> resolved_edge list \<Rightarrow> graph_diagnostic list" where
  "graph_diagnostics plugins requirements edges =
     (let selected = set (map (\<lambda>e. (edge_provider e, edge_capability e)) edges);
          diagnostics = fold
            (\<lambda>r ds. if rr_providers r = [] \<and> permits_zero (rr_cardinality r)
               then bs_insert (OptionalProviderMissing (rr_consumer r) (rr_capability r)) ds else ds)
            requirements []
      in fold
           (\<lambda>descriptor. fold
              (\<lambda>ofr ds. if (pd_id descriptor, offer_id ofr) \<notin> selected
                 then bs_insert (UnselectedOffer (pd_id descriptor) (offer_id ofr)) ds else ds)
              (provides descriptor))
           (bm_values plugins) diagnostics)"

definition resolve_loop ::
  "('q \<Rightarrow> 'v \<Rightarrow> bool) \<Rightarrow> graph_limits \<Rightarrow> ('v, 'q) plugin_map \<Rightarrow> binding_map
     \<Rightarrow> ('v, 'q) resolve_error fault + resolution" where
  "resolve_loop matches limits plugins bindings =
     for_each
       (\<lambda>descriptor. for_each
          (resolve_requirement matches limits plugins (index_providers plugins) bindings descriptor)
          (requires descriptor))
       (bm_values plugins) \<lparr>res_requirements = [], res_edges = [], res_used = []\<rparr>"

definition finish_resolution ::
  "('v, 'q) plugin_map \<Rightarrow> binding_map \<Rightarrow> resolution \<Rightarrow> ('v, 'q) resolve_error fault + ('v, 'q) resolved_graph" where
  "finish_resolution plugins bindings st =
     (case find (\<lambda>key. \<not> bs_contains (res_used st) key) (bm_keys bindings) of
        Some (consumer, capability) \<Rightarrow> Inl (Err (UnusedBinding consumer capability))
      | None \<Rightarrow>
          let requirements = sort_key requirement_key (res_requirements st);
              edges = res_edges st;
              diagnostics = graph_diagnostics plugins requirements edges
          in and_then (topological_order (bm_keys plugins) edges) (\<lambda>startup_order.
               Inr \<lparr>rg_plugins = plugins, rg_requirements = requirements, rg_edges = edges,
                    rg_diagnostics = diagnostics, rg_startup_order = startup_order\<rparr>))"

definition resolve ::
  "('q \<Rightarrow> 'v \<Rightarrow> bool) \<Rightarrow> ('v, 'q) composition_spec \<Rightarrow> ('v, 'q) resolve_error fault + ('v, 'q) resolved_graph" where
  "resolve matches spec =
     and_then (fallible (validate_schema_version (spec_schema_version spec))) (\<lambda>_.
     and_then (fallible (validate_configured_limits (spec_limits spec))) (\<lambda>_.
     and_then (fallible (validate_plugin_limit (length (spec_plugins spec)) (max_plugins (spec_limits spec)))) (\<lambda>_.
     and_then (fallible (for_each (insert_plugin (spec_limits spec)) (spec_plugins spec) [])) (\<lambda>plugins.
     and_then (fallible (validate_conflicts plugins)) (\<lambda>_.
     and_then (fallible (validate_no_self_dependencies plugins)) (\<lambda>_.
     and_then (fallible (validated_bindings (spec_bindings spec) plugins)) (\<lambda>bindings.
     and_then (resolve_loop matches (spec_limits spec) plugins bindings) (\<lambda>st.
     finish_resolution plugins bindings st))))))))"

section \<open>Queries of a resolved graph\<close>

datatype ordering = Less | Equal | Greater

definition cmp :: "'a::linorder \<Rightarrow> 'a \<Rightarrow> ordering" where
  "cmp a b = (if a < b then Less else if a = b then Equal else Greater)"

definition then_with :: "ordering \<Rightarrow> ordering \<Rightarrow> ordering" where
  "then_with a b = (if a = Equal then b else a)"

function binary_search_from :: "('a \<Rightarrow> ordering) \<Rightarrow> 'a list \<Rightarrow> nat \<Rightarrow> nat \<Rightarrow> nat option" where
  \<comment> \<open>\<open>slice::binary_search_by(..).ok()\<close> on the indices from \<open>lo\<close> to before \<open>hi\<close>\<close>
  "binary_search_from f xs lo hi =
     (if hi \<le> lo then None
      else
        let mid = (lo + hi) div 2
        in case f (xs ! mid) of
             Less \<Rightarrow> binary_search_from f xs (mid + 1) hi
           | Equal \<Rightarrow> Some mid
           | Greater \<Rightarrow> binary_search_from f xs lo mid)"
  by pat_completeness auto
termination
  by (relation "measure (\<lambda>(_, _, lo, hi). hi - lo)") auto

declare binary_search_from.simps [simp del]

definition requirement ::
  "('v, 'q) resolved_graph \<Rightarrow> plugin_id \<Rightarrow> capability_id \<Rightarrow> resolved_requirement option" where
  "requirement g consumer capability =
     map_option (\<lambda>index. rg_requirements g ! index)
       (binary_search_from
          (\<lambda>r. then_with (cmp (rr_consumer r) consumer) (cmp (rr_capability r) capability))
          (rg_requirements g) 0 (length (rg_requirements g)))"

definition graph_plugin :: "('v, 'q) resolved_graph \<Rightarrow> plugin_id \<Rightarrow> ('v, 'q) plugin_descriptor option" where
  "graph_plugin g p = bm_get (rg_plugins g) p"

definition teardown_order :: "('v, 'q) resolved_graph \<Rightarrow> plugin_id list" where
  "teardown_order g = rev (rg_startup_order g)"

definition report :: "('v, 'q) resolved_graph \<Rightarrow> 'v graph_report" where
  "report g =
     \<lparr>rep_schema_version = GRAPH_REPORT_SCHEMA_VERSION,
      rep_plugins = map (\<lambda>d. \<lparr>ps_id = pd_id d, ps_version = pd_version d\<rparr>) (bm_values (rg_plugins g)),
      rep_requirements = rg_requirements g, rep_edges = rg_edges g, rep_diagnostics = rg_diagnostics g,
      rep_startup_order = rg_startup_order g, rep_teardown_order = rev (rg_startup_order g)\<rparr>"

end
