(* ===== verification/Resolve_Spec.thy ===== *)
theory Resolve_Spec
  imports Resolve
begin

text \<open>
  What \<open>resolve\<close> promises, stated over the composition specification itself:
  \<open>valid_composition\<close> says which specifications have a graph and \<open>resolves_to\<close> which graph that
  is. The lemmas here relate each helper of \<open>resolve\<close> to its share of that specification; the
  main theorem \<open>resolve_iff\<close> puts them together.
\<close>

section \<open>Declarative specification\<close>

definition offers_match :: "('q \<Rightarrow> 'v \<Rightarrow> bool) \<Rightarrow> 'q capability_requirement \<Rightarrow> ('v, 'q) plugin_descriptor \<Rightarrow> bool" where
  "offers_match matches r d =
     (case offer d (req_id r) of None \<Rightarrow> False | Some ofr \<Rightarrow> matches (req_version r) (offer_version ofr))"

definition compatible_ids ::
  "('q \<Rightarrow> 'v \<Rightarrow> bool) \<Rightarrow> ('v, 'q) plugin_descriptor list \<Rightarrow> 'q capability_requirement \<Rightarrow> plugin_id list" where
  "compatible_ids matches ds r = bs_of (map pd_id (filter (offers_match matches r) ds))"

definition bound_provider :: "binding list \<Rightarrow> plugin_id \<Rightarrow> capability_id \<Rightarrow> plugin_id option" where
  "bound_provider bs p c =
     map_option bind_provider (find (\<lambda>b. bind_consumer b = p \<and> bind_capability b = c) bs)"

definition chosen ::
  "('q \<Rightarrow> 'v \<Rightarrow> bool) \<Rightarrow> ('v, 'q) plugin_descriptor list \<Rightarrow> binding list \<Rightarrow> ('v, 'q) plugin_descriptor
     \<Rightarrow> 'q capability_requirement \<Rightarrow> plugin_id list" where
  "chosen matches ds bs d r =
     (case bound_provider bs (pd_id d) (req_id r) of
        Some p \<Rightarrow> [p] | None \<Rightarrow> compatible_ids matches ds r)"

fun admits :: "cardinality \<Rightarrow> nat \<Rightarrow> bool" where
  "admits ExactlyOne n = (n = 1)"
| "admits ZeroOrOne n = (n \<le> 1)"
| "admits ZeroOrMore n = True"
| "admits OneOrMore n = (1 \<le> n)"

definition satisfiable ::
  "('q \<Rightarrow> 'v \<Rightarrow> bool) \<Rightarrow> ('v, 'q) plugin_descriptor list \<Rightarrow> binding list \<Rightarrow> ('v, 'q) plugin_descriptor
     \<Rightarrow> 'q capability_requirement \<Rightarrow> bool" where
  "satisfiable matches ds bs d r =
     (case bound_provider bs (pd_id d) (req_id r) of
        Some p \<Rightarrow> is_bindable (req_cardinality r) \<and> p \<in> set (compatible_ids matches ds r)
      | None \<Rightarrow> admits (req_cardinality r) (length (compatible_ids matches ds r)))"

definition dependency_edges ::
  "('q \<Rightarrow> 'v \<Rightarrow> bool) \<Rightarrow> ('v, 'q) plugin_descriptor list \<Rightarrow> binding list \<Rightarrow> resolved_edge list" where
  "dependency_edges matches ds bs =
     bs_of (concat (map (\<lambda>d. concat (map (\<lambda>r.
       map (\<lambda>p. ResolvedEdge p (pd_id d) (req_id r)) (chosen matches ds bs d r)) (requires d))) ds))"

definition limits_ok :: "graph_limits \<Rightarrow> bool" where
  "limits_ok l \<longleftrightarrow> max_plugins l \<le> 65536 \<and> max_capabilities_per_plugin l \<le> 4096 \<and> max_edges l \<le> 1048576"

definition bindings_ok :: "('v, 'q) plugin_descriptor list \<Rightarrow> binding list \<Rightarrow> bool" where
  "bindings_ok ds bs \<longleftrightarrow>
     distinct (map (\<lambda>b. (bind_consumer b, bind_capability b)) bs) \<and>
     (\<forall>b \<in> set bs. bind_provider b \<in> pd_id ` set ds \<and>
        (\<exists>d \<in> set ds. pd_id d = bind_consumer b \<and> bind_capability b \<in> req_id ` set (requires d)))"

definition valid_composition :: "('q \<Rightarrow> 'v \<Rightarrow> bool) \<Rightarrow> ('v, 'q) composition_spec \<Rightarrow> bool" where
  "valid_composition matches spec \<longleftrightarrow>
     (let ds = spec_plugins spec; bs = spec_bindings spec; l = spec_limits spec;
          edges = dependency_edges matches ds bs
      in spec_schema_version spec = 1 \<and> limits_ok l \<and> length ds \<le> max_plugins l \<and>
         distinct (map pd_id ds) \<and>
         (\<forall>d \<in> set ds. length (provides d) + length (requires d) \<le> max_capabilities_per_plugin l) \<and>
         (\<forall>d \<in> set ds. set (pd_conflicts d) \<inter> pd_id ` set ds = {}) \<and>
         (\<forall>d \<in> set ds. \<forall>r \<in> set (requires d). offer d (req_id r) = None) \<and>
         bindings_ok ds bs \<and>
         (\<forall>d \<in> set ds. \<forall>r \<in> set (requires d). satisfiable matches ds bs d r) \<and>
         length edges \<le> max_edges l \<and>
         (\<exists>ys. topological (pd_id ` set ds) (edge_preds edges) ys))"

definition expected_requirements ::
  "('q \<Rightarrow> 'v \<Rightarrow> bool) \<Rightarrow> ('v, 'q) plugin_descriptor list \<Rightarrow> binding list \<Rightarrow> resolved_requirement set" where
  "expected_requirements matches ds bs =
     {\<lparr>rr_consumer = pd_id d, rr_capability = req_id r, rr_cardinality = req_cardinality r,
       rr_providers = chosen matches ds bs d r\<rparr> | d r. d \<in> set ds \<and> r \<in> set (requires d)}"

definition expected_diagnostics ::
  "('q \<Rightarrow> 'v \<Rightarrow> bool) \<Rightarrow> ('v, 'q) plugin_descriptor list \<Rightarrow> binding list \<Rightarrow> graph_diagnostic set" where
  "expected_diagnostics matches ds bs =
     {OptionalProviderMissing (pd_id d) (req_id r) | d r.
        d \<in> set ds \<and> r \<in> set (requires d) \<and> chosen matches ds bs d r = []} \<union>
     {UnselectedOffer (pd_id d) (offer_id ofr) | d ofr.
        d \<in> set ds \<and> ofr \<in> set (provides d) \<and>
        (\<forall>d' \<in> set ds. \<forall>r \<in> set (requires d'). req_id r = offer_id ofr \<longrightarrow> pd_id d \<notin> set (chosen matches ds bs d' r))}"

definition resolves_to ::
  "('q \<Rightarrow> 'v \<Rightarrow> bool) \<Rightarrow> ('v, 'q) composition_spec \<Rightarrow> ('v, 'q) resolved_graph \<Rightarrow> bool" where
  "resolves_to matches spec g \<longleftrightarrow>
     (let ds = spec_plugins spec; bs = spec_bindings spec; edges = dependency_edges matches ds bs
      in bm_wf (rg_plugins g) \<and> set (rg_plugins g) = (\<lambda>d. (pd_id d, d)) ` set ds \<and>
         ascending (map requirement_key (rg_requirements g)) \<and>
         set (rg_requirements g) = expected_requirements matches ds bs \<and>
         rg_edges g = edges \<and>
         ascending (rg_diagnostics g) \<and> set (rg_diagnostics g) = expected_diagnostics matches ds bs \<and>
         least_topological (pd_id ` set ds) (edge_preds edges) (rg_startup_order g))"

section \<open>The checks\<close>

lemma for_each_unit_ok: "for_each step xs () = Inr () \<longleftrightarrow> (\<forall>x \<in> set xs. step x () = Inr ())"
  by (induction xs) (auto simp: result_simps)

lemma validate_schema_version_ok [result_simps]: "validate_schema_version v = Inr u \<longleftrightarrow> v = 1"
  by (simp add: validate_schema_version_def COMPOSITION_SCHEMA_VERSION_def)

lemma validate_configured_limits_ok [result_simps]: "validate_configured_limits l = Inr u \<longleftrightarrow> limits_ok l"
  by (auto simp: validate_configured_limits_def limits_ok_def result_simps ABSOLUTE_MAX_PLUGINS_def
      ABSOLUTE_MAX_CAPABILITIES_PER_PLUGIN_def ABSOLUTE_MAX_EDGES_def)

lemma validate_plugin_limit_ok [result_simps]: "validate_plugin_limit n m = Inr u \<longleftrightarrow> n \<le> m"
  by (simp add: validate_plugin_limit_def)

definition is_plugin_map :: "('v, 'q) plugin_descriptor list \<Rightarrow> ('v, 'q) plugin_map \<Rightarrow> bool" where
  "is_plugin_map ds m \<longleftrightarrow> bm_wf m \<and> set m = (\<lambda>d. (pd_id d, d)) ` set ds \<and> distinct (map pd_id ds)"

lemma insert_plugin_once:
  "bmap.inserts_once (insert_plugin l)
     (\<lambda>d. let n = saturating_add (length (provides d)) (length (requires d)) in
        if n > max_capabilities_per_plugin l
        then Some (CapabilityLimitExceeded (pd_id d) n (max_capabilities_per_plugin l)) else None)
     (\<lambda>d. DuplicatePlugin (pd_id d)) pd_id id X"
  by (simp add: bmap.inserts_once_def insert_plugin_def Let_def bm_contains_def)

lemma saturating_add_le: "m \<le> 4096 \<Longrightarrow> saturating_add a b \<le> m \<longleftrightarrow> a + b \<le> m"
  by (auto simp: saturating_add_def USIZE_MAX_def)

lemma insert_plugins_ok:
  assumes "limits_ok l"
  shows "(\<exists>m. for_each (insert_plugin l) ds [] = Inr m) \<longleftrightarrow>
    distinct (map pd_id ds) \<and>
    (\<forall>d \<in> set ds. length (provides d) + length (requires d) \<le> max_capabilities_per_plugin l)"
  using assms bmap_loop_ok [OF insert_plugin_once, of l ds]
  by (auto simp: Let_def limits_ok_def saturating_add_le not_less split: if_splits)

lemma insert_plugins_map: "for_each (insert_plugin l) ds [] = Inr m \<Longrightarrow> is_plugin_map ds m"
  using bmap_loop_entries [OF insert_plugin_once] by (fastforce simp: is_plugin_map_def)

lemma plugin_map_get:
  assumes "is_plugin_map ds m"
  shows "bm_get m p = Some d \<longleftrightarrow> d \<in> set ds \<and> pd_id d = p"
  using assms by (auto simp: is_plugin_map_def bm_get_eq_Some_iff)

lemma plugin_map_values: "is_plugin_map ds m \<Longrightarrow> set (bm_values m) = set ds"
  by (auto simp: is_plugin_map_def bm_values_def image_image)

lemma plugin_map_keys: "is_plugin_map ds m \<Longrightarrow> bm_keys m = map pd_id (bm_values m)"
  by (auto simp: is_plugin_map_def bm_values_def bm_keys_def)

lemma plugin_map_ids_ascending: "is_plugin_map ds m \<Longrightarrow> ascending (map pd_id (bm_values m))"
  by (metis bm_wf_keys is_plugin_map_def plugin_map_keys)

lemma plugin_map_contains: "is_plugin_map ds m \<Longrightarrow> bm_contains m p \<longleftrightarrow> p \<in> pd_id ` set ds"
  by (auto simp: bm_contains_def plugin_map_get dest: plugin_map_get)

lemma validate_conflicts_ok:
  assumes "is_plugin_map ds m"
  shows "validate_conflicts m = Inr () \<longleftrightarrow> (\<forall>d \<in> set ds. set (pd_conflicts d) \<inter> pd_id ` set ds = {})"
  unfolding validate_conflicts_def for_each_unit_ok check_conflict_def
  using assms by (auto simp: plugin_map_values plugin_map_contains)

lemma validate_no_self_dependencies_ok:
  assumes "is_plugin_map ds m"
  shows "validate_no_self_dependencies m = Inr () \<longleftrightarrow> (\<forall>d \<in> set ds. \<forall>r \<in> set (requires d). offer d (req_id r) = None)"
  unfolding validate_no_self_dependencies_def for_each_unit_ok check_self_dependency_def
  using assms by (auto simp: plugin_map_values)

section \<open>The provider index\<close>

definition candidates_of :: "'v provider_index \<Rightarrow> capability_id \<Rightarrow> 'v provider_candidate list" where
  "candidates_of index c = (case bm_get index c of None \<Rightarrow> [] | Some cs \<Rightarrow> cs)"

lemma index_offers:
  "bm_wf index \<Longrightarrow> bm_wf (fold (index_offer d) ofrs index) \<and>
     candidates_of (fold (index_offer d) ofrs index) c = candidates_of index c @
       map (\<lambda>ofr. \<lparr>cand_plugin = pd_id d, cand_version = offer_version ofr\<rparr>) (filter (\<lambda>ofr. offer_id ofr = c) ofrs)"
proof (induction ofrs arbitrary: index)
  case (Cons ofr ofrs)
  have wf: "bm_wf (index_offer d ofr index)" using Cons.prems by (simp add: index_offer_def Let_def bm_wf_insert)
  have "candidates_of (index_offer d ofr index) c = candidates_of index c @
      (if offer_id ofr = c then [\<lparr>cand_plugin = pd_id d, cand_version = offer_version ofr\<rparr>] else [])"
    using Cons.prems by (simp add: index_offer_def candidates_of_def Let_def bm_get_insert)
  with Cons.IH [OF wf] show ?case by simp
qed simp

lemma distinct_singleton: "distinct xs \<Longrightarrow> set xs = {a} \<Longrightarrow> xs = [a]"
  by (cases xs; cases "tl xs") auto

lemma provides_with_id:
  assumes "descriptor_wf d"
  shows "filter (\<lambda>ofr. offer_id ofr = c) (provides d) = (case offer d c of None \<Rightarrow> [] | Some ofr \<Rightarrow> [ofr])"
proof (cases "offer d c")
  case None
  then have "\<forall>ofr \<in> set (provides d). offer_id ofr \<noteq> c"
    using provides_offer [OF assms] by (metis option.distinct(1))
  with None show ?thesis by (simp add: filter_empty_conv)
next
  case (Some ofr)
  have c: "offer_id ofr = c" by (rule offer_id_of_offer [OF assms Some])
  have mem: "ofr \<in> set (provides d)" using provides_offer [OF assms, of ofr] c Some by simp
  have "x = ofr" if "x \<in> set (provides d)" "offer_id x = c" for x
    using that Some provides_offer [OF assms, of x] by simp
  then have "set (filter (\<lambda>ofr. offer_id ofr = c) (provides d)) = {ofr}"
    using c mem unfolding set_filter by blast
  moreover have "distinct (filter (\<lambda>ofr. offer_id ofr = c) (provides d))"
    using ascending_distinct [OF offer_ids_ascending [OF assms]] by (simp add: distinct_map)
  ultimately have "filter (\<lambda>ofr. offer_id ofr = c) (provides d) = [ofr]"
    by (intro distinct_singleton)
  with Some show ?thesis by simp
qed

definition offer_candidates :: "('v, 'q) plugin_descriptor \<Rightarrow> capability_id \<Rightarrow> 'v provider_candidate list" where
  "offer_candidates d c =
     (case offer d c of None \<Rightarrow> [] | Some ofr \<Rightarrow> [\<lparr>cand_plugin = pd_id d, cand_version = offer_version ofr\<rparr>])"

lemma index_descriptors:
  assumes "\<forall>d \<in> set ds. descriptor_wf d" "bm_wf index"
  shows "candidates_of (fold (\<lambda>d. fold (index_offer d) (provides d)) ds index) c =
    candidates_of index c @ concat (map (\<lambda>d. offer_candidates d c) ds)"
  using assms
proof (induction ds arbitrary: index)
  case (Cons d ds)
  then show ?case
    using index_offers [OF Cons.prems(2), of d "provides d" c] provides_with_id [of d c]
    by (simp add: offer_candidates_def split: option.splits)
qed simp

lemma index_providers_candidates:
  "\<forall>d \<in> set (bm_values m). descriptor_wf d \<Longrightarrow>
   candidates_of (index_providers m) c = concat (map (\<lambda>d. offer_candidates d c) (bm_values m))"
  using index_descriptors [of "bm_values m" "[]" c] by (simp add: index_providers_def candidates_of_def)

lemma compatible_candidates:
  "map cand_plugin (filter (\<lambda>c. matches (req_version r) (cand_version c))
      (concat (map (\<lambda>d. offer_candidates d (req_id r)) ds))) =
   map pd_id (filter (offers_match matches r) ds)"
  by (induction ds) (auto simp: offer_candidates_def offers_match_def split: option.splits)

lemma compatible_plugin_map:
  assumes "is_plugin_map ds m" and "\<forall>d \<in> set ds. descriptor_wf d"
  shows "map cand_plugin (filter (\<lambda>c. matches (req_version r) (cand_version c))
      (candidates_of (index_providers m) (req_id r))) = compatible_ids matches ds r"
proof -
  have "map pd_id (filter (offers_match matches r) (bm_values m)) = compatible_ids matches ds r"
    unfolding compatible_ids_def
  proof (rule ascending_unique)
    show "ascending (map pd_id (filter (offers_match matches r) (bm_values m)))"
      using plugin_map_ids_ascending [OF assms(1)] by (simp add: sorted_wrt_map sorted_wrt_filter)
  qed (use plugin_map_values [OF assms(1)] in auto)
  with assms show ?thesis
    by (simp add: index_providers_candidates plugin_map_values compatible_candidates)
qed

lemma set_compatible_ids:
  "p \<in> set (compatible_ids matches ds r) \<longleftrightarrow> (\<exists>d \<in> set ds. pd_id d = p \<and> offers_match matches r d)"
  by (auto simp: compatible_ids_def)

section \<open>Bindings\<close>

definition is_binding_map :: "binding list \<Rightarrow> binding_map \<Rightarrow> bool" where
  "is_binding_map bs m \<longleftrightarrow>
     bm_wf m \<and> set (bm_keys m) = (\<lambda>b. (bind_consumer b, bind_capability b)) ` set bs \<and>
     (\<forall>p c. bm_get m (p, c) = bound_provider bs p c)"

lemma insert_binding_once:
  "bmap.inserts_once (insert_binding plugins)
     (\<lambda>b. if \<not> bm_contains plugins (bind_consumer b) then Some (UnknownBindingConsumer (bind_consumer b))
        else if \<not> bm_contains plugins (bind_provider b) then Some (UnknownBindingProvider (bind_provider b))
        else None)
     (\<lambda>b. DuplicateBinding (bind_consumer b) (bind_capability b))
     (\<lambda>b. (bind_consumer b, bind_capability b)) bind_provider X"
  by (auto simp: bmap.inserts_once_def insert_binding_def Let_def bm_contains_def)

lemma validated_bindings_ok:
  assumes "is_plugin_map ds m"
  shows "(\<exists>bm. validated_bindings bs m = Inr bm) \<longleftrightarrow>
    distinct (map (\<lambda>b. (bind_consumer b, bind_capability b)) bs) \<and>
    (\<forall>b \<in> set bs. bind_consumer b \<in> pd_id ` set ds \<and> bind_provider b \<in> pd_id ` set ds)"
  unfolding validated_bindings_def bmap_loop_ok [OF insert_binding_once]
  using plugin_map_contains [OF assms] by (auto split: if_splits)

lemma map_of_find:
  "map_of (map (\<lambda>x. (f x, g x)) xs) k = map_option g (find (\<lambda>x. f x = k) xs)"
  by (induction xs) auto

lemma validated_bindings_map:
  assumes "validated_bindings bs m = Inr bm"
  shows "is_binding_map bs bm"
proof -
  note loop = assms [unfolded validated_bindings_def]
  have "bm_get bm (p, c) = bound_provider bs p c" for p c
    using bmap.inserts_once_loop_get [OF insert_binding_once bm_wf_Nil loop, of "(p, c)"]
    by (simp add: map_of_find bound_provider_def split: option.splits)
  moreover have "bm_wf bm" "\<forall>k. bm_contains bm k \<longleftrightarrow> k \<in> (\<lambda>b. (bind_consumer b, bind_capability b)) ` set bs"
    using bmap.inserts_once_loop_result [OF insert_binding_once bm_wf_Nil loop]
    by (auto simp: bm_contains_def)
  ultimately show ?thesis by (auto simp: is_binding_map_def bm_contains_iff)
qed

lemma bound_provider_Some:
  "bound_provider bs p c = Some q \<Longrightarrow> \<exists>b \<in> set bs. bind_consumer b = p \<and> bind_capability b = c \<and> bind_provider b = q"
  by (auto simp: bound_provider_def dest: find_SomeD)

lemma bound_provider_None:
  "bound_provider bs p c = None \<longleftrightarrow> (p, c) \<notin> (\<lambda>b. (bind_consumer b, bind_capability b)) ` set bs"
  by (auto simp: bound_provider_def find_None_iff)

section \<open>Selection\<close>

lemma select_unbound_ok:
  "select_unbound matches consumer r cs = Inr ps \<longleftrightarrow>
     admits (req_cardinality r)
       (length (map cand_plugin (filter (\<lambda>c. matches (req_version r) (cand_version c)) cs))) \<and>
     ps = map cand_plugin (filter (\<lambda>c. matches (req_version r) (cand_version c)) cs)"
proof -
  define compat where "compat = map cand_plugin (filter (\<lambda>c. matches (req_version r) (cand_version c)) cs)"
  show ?thesis
    unfolding select_unbound_def Let_def compat_def [symmetric]
    by (cases "req_cardinality r"; cases compat; cases "tl compat")
       (auto simp: is_bindable_def permits_zero_def)
qed

lemma select_bound_ok:
  assumes "is_plugin_map ds m" and "p \<in> pd_id ` set ds"
  shows "select_bound matches consumer r p m \<noteq> Inl Panic" and
    "select_bound matches consumer r p m = Inr ps \<longleftrightarrow> p \<in> set (compatible_ids matches ds r) \<and> ps = [p]"
proof -
  obtain d where d: "d \<in> set ds" "pd_id d = p" using assms(2) by auto
  then have get: "bm_get m p = Some d" using assms(1) by (simp add: plugin_map_get)
  then show "select_bound matches consumer r p m \<noteq> Inl Panic"
    by (simp add: select_bound_def split: option.splits)
  have "p \<in> set (compatible_ids matches ds r) \<longleftrightarrow> offers_match matches r d"
    using d get plugin_map_get [OF assms(1), of p] unfolding set_compatible_ids by (metis option.inject)
  then show "select_bound matches consumer r p m = Inr ps \<longleftrightarrow> p \<in> set (compatible_ids matches ds r) \<and> ps = [p]"
    using get by (auto simp: select_bound_def offers_match_def split: option.splits)
qed

lemma select_providers_ok:
  assumes "is_plugin_map ds m" and "\<forall>d \<in> set ds. descriptor_wf d"
    and "\<forall>b \<in> set bs. bind_provider b \<in> pd_id ` set ds"
  shows "select_providers matches (pd_id d) r (bound_provider bs (pd_id d) (req_id r))
      (candidates_of (index_providers m) (req_id r)) m \<noteq> Inl Panic" (is "?sel \<noteq> _")
    and "select_providers matches (pd_id d) r (bound_provider bs (pd_id d) (req_id r))
      (candidates_of (index_providers m) (req_id r)) m = Inr ps \<longleftrightarrow>
      satisfiable matches ds bs d r \<and> ps = chosen matches ds bs d r"
proof -
  have bound: "p \<in> pd_id ` set ds" if "bound_provider bs (pd_id d) (req_id r) = Some p" for p
    using bound_provider_Some [OF that] assms(3) by blast
  note ok = select_bound_ok [OF assms(1) bound, of _ matches "pd_id d" r]
  show "?sel \<noteq> Inl Panic"
    using ok(1) by (auto simp: select_providers_def split: option.splits)
  show "?sel = Inr ps \<longleftrightarrow> satisfiable matches ds bs d r \<and> ps = chosen matches ds bs d r"
  proof (cases "bound_provider bs (pd_id d) (req_id r)")
    case None
    then show ?thesis
      using compatible_plugin_map [OF assms(1,2), where matches = matches and r = r]
      by (simp add: select_providers_def satisfiable_def chosen_def fallible_eq_iff select_unbound_ok)
  next
    case (Some p)
    then show ?thesis using ok(2) [OF Some]
      by (auto simp: select_providers_def satisfiable_def chosen_def)
  qed
qed

section \<open>The resolution loop\<close>

definition requirement_pairs ::
  "('v, 'q) plugin_descriptor list \<Rightarrow> (('v, 'q) plugin_descriptor \<times> 'q capability_requirement) list" where
  "requirement_pairs ds = concat (map (\<lambda>d. map (Pair d) (requires d)) ds)"

lemma set_requirement_pairs: "(d, r) \<in> set (requirement_pairs ds) \<longleftrightarrow> d \<in> set ds \<and> r \<in> set (requires d)"
  by (auto simp: requirement_pairs_def)

lemma all_requirement_pairs:
  "(\<forall>x \<in> set (requirement_pairs ds). P (fst x) (snd x)) \<longleftrightarrow> (\<forall>d \<in> set ds. \<forall>r \<in> set (requires d). P d r)"
  by (auto simp: requirement_pairs_def)

lemma for_each_map: "for_each f (map g xs) s = for_each (\<lambda>x. f (g x)) xs s"
  by (induction xs arbitrary: s) (auto intro: and_then_cong)

lemma for_each_nested:
  "for_each (\<lambda>d. for_each (f d) (requires d)) ds s = for_each (\<lambda>x. f (fst x) (snd x)) (requirement_pairs ds) s"
  unfolding requirement_pairs_def
proof (induction ds arbitrary: s)
  case (Cons d ds)
  have "for_each (\<lambda>d. for_each (f d) (requires d)) ds =
      for_each (\<lambda>x. f (fst x) (snd x)) (concat (map (\<lambda>d. map (Pair d) (requires d)) ds))"
    using Cons.IH by (rule ext)
  then show ?case by (simp add: for_each_append for_each_map)
qed simp

definition pair_edges ::
  "('q \<Rightarrow> 'v \<Rightarrow> bool) \<Rightarrow> ('v, 'q) plugin_descriptor list \<Rightarrow> binding list
     \<Rightarrow> ('v, 'q) plugin_descriptor \<times> 'q capability_requirement \<Rightarrow> resolved_edge list" where
  "pair_edges matches ds bs x =
     map (\<lambda>p. ResolvedEdge p (pd_id (fst x)) (req_id (snd x))) (chosen matches ds bs (fst x) (snd x))"

definition pair_requirement ::
  "('q \<Rightarrow> 'v \<Rightarrow> bool) \<Rightarrow> ('v, 'q) plugin_descriptor list \<Rightarrow> binding list
     \<Rightarrow> ('v, 'q) plugin_descriptor \<times> 'q capability_requirement \<Rightarrow> resolved_requirement" where
  "pair_requirement matches ds bs x =
     \<lparr>rr_consumer = pd_id (fst x), rr_capability = req_id (snd x), rr_cardinality = req_cardinality (snd x),
      rr_providers = chosen matches ds bs (fst x) (snd x)\<rparr>"

definition pair_key :: "('v, 'q) plugin_descriptor \<times> 'q capability_requirement \<Rightarrow> plugin_id \<times> capability_id" where
  "pair_key x = (pd_id (fst x), req_id (snd x))"

lemma fold_bs_insert_length: "length s \<le> length (fold bs_insert xs s)"
proof (induction xs arbitrary: s)
  case (Cons x xs)
  have "length s \<le> length (bs_insert x s)" by (simp add: bs_insert_def insort_insert_key_def)
  with Cons.IH [of "bs_insert x s"] show ?case by simp
qed simp

lemma insert_edges_ok:
  "length E \<le> maximum \<Longrightarrow>
   for_each (insert_edge maximum c cap) ps E = Inr E' \<longleftrightarrow>
     E' = fold bs_insert (map (\<lambda>p. ResolvedEdge p c cap) ps) E \<and> length E' \<le> maximum"
proof (induction ps arbitrary: E)
  case (Cons p ps)
  let ?E = "bs_insert (ResolvedEdge p c cap) E"
  show ?case
  proof (cases "length ?E \<le> maximum")
    case True
    with Cons.IH [of ?E] show ?thesis by (simp add: insert_edge_def Let_def)
  next
    case False
    with fold_bs_insert_length [of ?E "map (\<lambda>p. ResolvedEdge p c cap) ps"]
    have "\<not> length (fold bs_insert (map (\<lambda>p. ResolvedEdge p c cap) ps) ?E) \<le> maximum" by linarith
    with False show ?thesis by (auto simp: insert_edge_def Let_def)
  qed
qed auto

definition pair_step ::
  "('q \<Rightarrow> 'v \<Rightarrow> bool) \<Rightarrow> ('v, 'q) plugin_descriptor list \<Rightarrow> binding list
     \<Rightarrow> ('v, 'q) plugin_descriptor \<times> 'q capability_requirement \<Rightarrow> resolution \<Rightarrow> resolution" where
  "pair_step matches ds bs x st =
     \<lparr>res_requirements = res_requirements st @ [pair_requirement matches ds bs x],
      res_edges = fold bs_insert (pair_edges matches ds bs x) (res_edges st),
      res_used = (if bound_provider bs (fst (pair_key x)) (snd (pair_key x)) \<noteq> None
                  then bs_insert (pair_key x) (res_used st) else res_used st)\<rparr>"

lemma resolve_requirement_ok:
  assumes "is_plugin_map ds m" and "\<forall>d \<in> set ds. descriptor_wf d"
    and "\<forall>b \<in> set bs. bind_provider b \<in> pd_id ` set ds" and "is_binding_map bs bm"
  shows "resolve_requirement matches l m (index_providers m) bm d r st \<noteq> Inl Panic"
    and "length (res_edges st) \<le> max_edges l \<Longrightarrow>
      resolve_requirement matches l m (index_providers m) bm d r st = Inr st' \<longleftrightarrow>
        satisfiable matches ds bs d r \<and> st' = pair_step matches ds bs (d, r) st \<and>
        length (res_edges st') \<le> max_edges l"
proof -
  have get: "bm_get bm (pd_id d, req_id r) = bound_provider bs (pd_id d) (req_id r)"
    using assms(4) by (simp add: is_binding_map_def)
  note sel = select_providers_ok [OF assms(1-3), of matches d r]
  note step = resolve_requirement_def Let_def get candidates_of_def [symmetric]
  show "resolve_requirement matches l m (index_providers m) bm d r st \<noteq> Inl Panic"
    using sel(1) by (auto simp: step result_simps)
  assume "length (res_edges st) \<le> max_edges l"
  then show "resolve_requirement matches l m (index_providers m) bm d r st = Inr st' \<longleftrightarrow>
      satisfiable matches ds bs d r \<and> st' = pair_step matches ds bs (d, r) st \<and>
      length (res_edges st') \<le> max_edges l"
    by (auto simp: step result_simps sel(2) insert_edges_ok pair_step_def pair_requirement_def pair_edges_def pair_key_def)
qed

lemma pair_steps_edges:
  "res_edges (fold (pair_step matches ds bs) xs st) =
     fold bs_insert (concat (map (pair_edges matches ds bs) xs)) (res_edges st)"
  by (induction xs arbitrary: st) (simp_all add: pair_step_def)

lemma pair_steps_requirements:
  "res_requirements (fold (pair_step matches ds bs) xs st) =
     res_requirements st @ map (pair_requirement matches ds bs) xs"
  by (induction xs arbitrary: st) (simp_all add: pair_step_def)

lemma pair_steps_used:
  "set (res_used (fold (pair_step matches ds bs) xs st)) =
     set (res_used st) \<union> {pair_key x | x. x \<in> set xs \<and> bound_provider bs (fst (pair_key x)) (snd (pair_key x)) \<noteq> None}"
  by (induction xs arbitrary: st) (auto simp: pair_step_def)

lemma resolve_pairs_ok:
  assumes "is_plugin_map ds m" and "\<forall>d \<in> set ds. descriptor_wf d"
    and "\<forall>b \<in> set bs. bind_provider b \<in> pd_id ` set ds" and "is_binding_map bs bm"
    and "length (res_edges st) \<le> max_edges l"
  shows "for_each (\<lambda>x. resolve_requirement matches l m (index_providers m) bm (fst x) (snd x)) xs st = Inr st' \<longleftrightarrow>
    (\<forall>x \<in> set xs. satisfiable matches ds bs (fst x) (snd x)) \<and>
    st' = fold (pair_step matches ds bs) xs st \<and> length (res_edges st') \<le> max_edges l"
  using assms(5)
proof (induction xs arbitrary: st)
  case (Cons x xs)
  let ?st = "pair_step matches ds bs x st"
  let ?rest = "fold (pair_step matches ds bs) xs ?st"
  have le: "length (res_edges ?st) \<le> length (res_edges ?rest)"
    unfolding pair_steps_edges by (rule fold_bs_insert_length)
  note step = resolve_requirement_ok(2) [OF assms(1-4) Cons.prems, of matches "fst x" "snd x"]
  show ?case
  proof (cases "satisfiable matches ds bs (fst x) (snd x) \<and> length (res_edges ?st) \<le> max_edges l")
    case True
    then have "resolve_requirement matches l m (index_providers m) bm (fst x) (snd x) st = Inr ?st"
      using step [of ?st] by simp
    then show ?thesis using Cons.IH [of ?st] True by simp
  next
    case False
    then have "resolve_requirement matches l m (index_providers m) bm (fst x) (snd x) st \<noteq> Inr t" for t
      using step [of t] by auto
    then show ?thesis using False le by (auto simp: result_simps)
  qed
qed auto

lemma resolve_pairs_no_panic:
  assumes "is_plugin_map ds m" and "\<forall>d \<in> set ds. descriptor_wf d"
    and "\<forall>b \<in> set bs. bind_provider b \<in> pd_id ` set ds" and "is_binding_map bs bm"
  shows "for_each (\<lambda>x. resolve_requirement matches l m (index_providers m) bm (fst x) (snd x)) xs st \<noteq> Inl Panic"
  using resolve_requirement_ok(1) [OF assms] by (auto simp: for_each_error)

definition initial_resolution :: resolution where
  "initial_resolution = \<lparr>res_requirements = [], res_edges = [], res_used = []\<rparr>"

lemma resolve_loop_pairs:
  "resolve_loop matches l m bm =
     for_each (\<lambda>x. resolve_requirement matches l m (index_providers m) bm (fst x) (snd x))
       (requirement_pairs (bm_values m)) initial_resolution"
  unfolding resolve_loop_def initial_resolution_def by (rule for_each_nested)

lemma set_pairs_of_map: "is_plugin_map ds m \<Longrightarrow> set (requirement_pairs (bm_values m)) = set (requirement_pairs ds)"
  by (auto simp: set_requirement_pairs plugin_map_values)

lemma concat_pair_edges:
  "concat (map (pair_edges matches ds bs) (requirement_pairs es)) =
     concat (map (\<lambda>d. concat (map (\<lambda>r.
       map (\<lambda>p. ResolvedEdge p (pd_id d) (req_id r)) (chosen matches ds bs d r)) (requires d))) es)"
  by (induction es) (simp_all add: requirement_pairs_def pair_edges_def comp_def)

lemma resolve_loop_edges:
  assumes "is_plugin_map ds m"
  shows "res_edges (fold (pair_step matches ds bs) (requirement_pairs (bm_values m)) initial_resolution) =
    dependency_edges matches ds bs"
proof -
  have "set (concat (map (pair_edges matches ds bs) (requirement_pairs (bm_values m)))) =
      set (dependency_edges matches ds bs)"
    using set_pairs_of_map [OF assms]
    unfolding dependency_edges_def concat_pair_edges [symmetric] set_bs_of by simp
  then show ?thesis
    unfolding pair_steps_edges
    by (intro ascending_unique) (simp_all add: initial_resolution_def dependency_edges_def flip: bs_of_def)
qed

lemma resolve_loop_ok:
  assumes "is_plugin_map ds m" and "\<forall>d \<in> set ds. descriptor_wf d"
    and "\<forall>b \<in> set bs. bind_provider b \<in> pd_id ` set ds" and "is_binding_map bs bm"
  shows "resolve_loop matches l m bm = Inr st \<longleftrightarrow>
    (\<forall>d \<in> set ds. \<forall>r \<in> set (requires d). satisfiable matches ds bs d r) \<and>
    st = fold (pair_step matches ds bs) (requirement_pairs (bm_values m)) initial_resolution \<and>
    length (dependency_edges matches ds bs) \<le> max_edges l"
proof -
  have "length (res_edges initial_resolution) \<le> max_edges l" by (simp add: initial_resolution_def)
  from resolve_pairs_ok [OF assms this, of matches "requirement_pairs (bm_values m)" st]
  have "resolve_loop matches l m bm = Inr st \<longleftrightarrow>
      (\<forall>d \<in> set ds. \<forall>r \<in> set (requires d). satisfiable matches ds bs d r) \<and>
      st = fold (pair_step matches ds bs) (requirement_pairs (bm_values m)) initial_resolution \<and>
      length (res_edges st) \<le> max_edges l"
    unfolding resolve_loop_pairs all_requirement_pairs plugin_map_values [OF assms(1)] .
  then show ?thesis
    unfolding resolve_loop_edges [OF assms(1), of matches bs, symmetric] by blast
qed

lemma pairs_ascending:
  assumes "ascending (map pd_id ds)" and "\<forall>d \<in> set ds. ascending (map req_id (requires d))"
  shows "ascending (map pair_key (requirement_pairs ds))"
  using assms
proof (induction ds)
  case (Cons d ds)
  have "ascending (map pair_key (map (Pair d) (requires d)))"
    using Cons.prems(2) by (simp add: sorted_wrt_map pair_key_def)
  moreover have "pair_key x < pair_key y"
    if "x \<in> set (map (Pair d) (requires d))" "y \<in> set (requirement_pairs ds)" for x y
    using that Cons.prems(1) by (cases y) (auto simp: pair_key_def set_requirement_pairs)
  then have "\<forall>x \<in> set (map pair_key (map (Pair d) (requires d))). \<forall>y \<in> set (map pair_key (requirement_pairs ds)). x < y"
    by (simp only: set_map ball_simps) blast
  moreover have "ascending (map pair_key (requirement_pairs ds))" using Cons.IH Cons.prems by simp
  moreover have "requirement_pairs (d # ds) = map (Pair d) (requires d) @ requirement_pairs ds"
    by (simp add: requirement_pairs_def)
  ultimately show ?case by (simp only: map_append sorted_wrt_append)
qed (simp add: requirement_pairs_def)

lemma requirement_key_pair: "requirement_key (pair_requirement matches ds bs x) = pair_key x"
  by (simp add: requirement_key_def pair_requirement_def pair_key_def)

lemma map_requirements_ascending:
  assumes "is_plugin_map ds m" and "\<forall>d \<in> set ds. descriptor_wf d"
  shows "ascending (map requirement_key (map (pair_requirement matches ds bs) (requirement_pairs (bm_values m))))"
  using pairs_ascending [OF plugin_map_ids_ascending [OF assms(1)]] assms plugin_map_values [OF assms(1)]
  by (simp add: requirement_key_pair comp_def req_ids_ascending)

lemma set_map_pairs: "set (map f (requirement_pairs ds)) = {f (d, r) | d r. d \<in> set ds \<and> r \<in> set (requires d)}"
  by (auto simp: requirement_pairs_def)

lemma set_pair_requirements:
  "set (map (pair_requirement matches ds bs) (requirement_pairs ds)) = expected_requirements matches ds bs"
  unfolding set_map_pairs by (simp add: expected_requirements_def pair_requirement_def)

section \<open>Diagnostics\<close>

lemma fold_insert_if:
  "set (fold (\<lambda>x s. if P x then bs_insert (f x) s else s) xs s) = set s \<union> {f x | x. x \<in> set xs \<and> P x}"
  "ascending s \<Longrightarrow> ascending (fold (\<lambda>x s. if P x then bs_insert (f x) s else s) xs s)"
  by (induction xs arbitrary: s) (auto simp: bs_insert_ascending)

lemma fold_fold_insert_if:
  "set (fold (\<lambda>d. fold (\<lambda>x s. if P d x then bs_insert (f d x) s else s) (g d)) ds s) =
     set s \<union> {f d x | d x. d \<in> set ds \<and> x \<in> set (g d) \<and> P d x}"
  "ascending s \<Longrightarrow> ascending (fold (\<lambda>d. fold (\<lambda>x s. if P d x then bs_insert (f d x) s else s) (g d)) ds s)"
  by (induction ds arbitrary: s) (auto simp: fold_insert_if)

lemma graph_diagnostics_ascending: "ascending (graph_diagnostics m rs es)"
  unfolding graph_diagnostics_def Let_def by (intro fold_fold_insert_if(2) fold_insert_if(2)) simp

lemma chosen_empty_permits_zero:
  "satisfiable matches ds bs d r \<Longrightarrow> chosen matches ds bs d r = [] \<Longrightarrow> permits_zero (req_cardinality r)"
  by (cases "req_cardinality r") (auto simp: satisfiable_def chosen_def permits_zero_def split: option.splits)

lemma set_dependency_edges:
  "ResolvedEdge p c cap \<in> set (dependency_edges matches ds bs) \<longleftrightarrow>
     (\<exists>d \<in> set ds. \<exists>r \<in> set (requires d). pd_id d = c \<and> req_id r = cap \<and> p \<in> set (chosen matches ds bs d r))"
  by (auto simp: dependency_edges_def)

lemma graph_diagnostics_set:
  assumes "is_plugin_map ds m" and rs: "set rs = expected_requirements matches ds bs"
    and sat: "\<forall>d \<in> set ds. \<forall>r \<in> set (requires d). satisfiable matches ds bs d r"
  shows "set (graph_diagnostics m rs (dependency_edges matches ds bs)) = expected_diagnostics matches ds bs"
proof -
  let ?es = "dependency_edges matches ds bs"
  let ?sel = "set (map (\<lambda>e. (edge_provider e, edge_capability e)) ?es)"
  have sel: "(p, c) \<notin> ?sel \<longleftrightarrow>
      (\<forall>d \<in> set ds. \<forall>r \<in> set (requires d). req_id r = c \<longrightarrow> p \<notin> set (chosen matches ds bs d r))" for p c
  proof -
    have "(p, c) \<in> ?sel \<longleftrightarrow> (\<exists>k. ResolvedEdge p k c \<in> set ?es)"
      by (simp add: image_iff) (metis resolved_edge.collapse resolved_edge.sel)
    then show ?thesis unfolding set_dependency_edges by blast
  qed
  have "set (graph_diagnostics m rs ?es) =
      {OptionalProviderMissing (rr_consumer r) (rr_capability r) | r.
         r \<in> set rs \<and> rr_providers r = [] \<and> permits_zero (rr_cardinality r)} \<union>
      {UnselectedOffer (pd_id d) (offer_id ofr) | d ofr.
         d \<in> set (bm_values m) \<and> ofr \<in> set (provides d) \<and> (pd_id d, offer_id ofr) \<notin> ?sel}"
    unfolding graph_diagnostics_def Let_def fold_fold_insert_if(1) fold_insert_if(1) by simp
  moreover have "{OptionalProviderMissing (rr_consumer r) (rr_capability r) | r.
         r \<in> set rs \<and> rr_providers r = [] \<and> permits_zero (rr_cardinality r)} =
      {OptionalProviderMissing (pd_id d) (req_id r) | d r.
         d \<in> set ds \<and> r \<in> set (requires d) \<and> chosen matches ds bs d r = []}" (is "?L = ?R")
  proof
    show "?L \<subseteq> ?R" unfolding rs expected_requirements_def by (clarsimp, blast)
    show "?R \<subseteq> ?L"
    proof
      fix x assume "x \<in> ?R"
      then obtain d r where x: "x = OptionalProviderMissing (pd_id d) (req_id r)"
        and dr: "d \<in> set ds" "r \<in> set (requires d)" "chosen matches ds bs d r = []" by blast
      let ?rr = "pair_requirement matches ds bs (d, r)"
      have "?rr \<in> set rs"
        using dr unfolding rs set_pair_requirements [symmetric] set_map_pairs by blast
      moreover have "satisfiable matches ds bs d r" using sat dr by blast
      from chosen_empty_permits_zero [OF this dr(3)]
      have "rr_providers ?rr = [] \<and> permits_zero (rr_cardinality ?rr)"
        using dr(3) by (simp add: pair_requirement_def)
      moreover have "x = OptionalProviderMissing (rr_consumer ?rr) (rr_capability ?rr)"
        by (simp add: x pair_requirement_def)
      ultimately show "x \<in> ?L" by blast
    qed
  qed
  ultimately show ?thesis
    unfolding expected_diagnostics_def sel plugin_map_values [OF assms(1)] by simp
qed

section \<open>The whole resolution\<close>

lemma mem_image_if: "P k \<Longrightarrow> k \<in> {f x | x. x \<in> S \<and> P (f x)} \<longleftrightarrow> k \<in> f ` S"
  by auto

lemma topological_order_no_panic:
  "edges_within ids edges \<Longrightarrow> topological_order ids edges \<noteq> (Inl Panic :: ('v, 'q) resolve_error fault + _)"
  by (erule topological_order_cases [where ?'v = 'v and ?'q = 'q]) simp_all

lemma used_bindings_ok:
  assumes "is_plugin_map ds m" and "is_binding_map bs bm"
    and used: "set used = {pair_key x | x. x \<in> set (requirement_pairs (bm_values m)) \<and>
      bound_provider bs (fst (pair_key x)) (snd (pair_key x)) \<noteq> None}"
  shows "find (\<lambda>key. \<not> bs_contains used key) (bm_keys bm) = None \<longleftrightarrow>
    (\<forall>b \<in> set bs. \<exists>d \<in> set ds. pd_id d = bind_consumer b \<and> bind_capability b \<in> req_id ` set (requires d))"
proof -
  have "(bind_consumer b, bind_capability b) \<in> set used \<longleftrightarrow>
      (\<exists>d \<in> set ds. pd_id d = bind_consumer b \<and> bind_capability b \<in> req_id ` set (requires d))"
    if b: "b \<in> set bs" for b
  proof -
    have "bound_provider bs (bind_consumer b) (bind_capability b) \<noteq> None"
      using b by (simp add: bound_provider_None)
    then have "(bind_consumer b, bind_capability b) \<in> set used \<longleftrightarrow>
        (bind_consumer b, bind_capability b) \<in> pair_key ` set (requirement_pairs ds)"
      unfolding used set_pairs_of_map [OF assms(1)]
      using mem_image_if [of "\<lambda>k. bound_provider bs (fst k) (snd k) \<noteq> None"
          "(bind_consumer b, bind_capability b)" pair_key "set (requirement_pairs ds)"] by simp
    also have "\<dots> \<longleftrightarrow> (\<exists>d \<in> set ds. \<exists>r \<in> set (requires d). pd_id d = bind_consumer b \<and> req_id r = bind_capability b)"
      unfolding set_map [symmetric] set_map_pairs by (simp add: pair_key_def) metis
    finally show ?thesis by (simp add: image_iff) metis
  qed
  moreover have "set (bm_keys bm) = (\<lambda>b. (bind_consumer b, bind_capability b)) ` set bs"
    using assms(2) by (simp add: is_binding_map_def)
  ultimately show ?thesis by (simp add: find_None_iff)
qed

lemma finish_resolution_ok:
  fixes ds :: "('v, 'q) plugin_descriptor list"
  assumes m: "is_plugin_map ds m" and wf: "\<forall>d \<in> set ds. descriptor_wf d"
    and bm: "is_binding_map bs bm" and sat: "\<forall>d \<in> set ds. \<forall>r \<in> set (requires d). satisfiable matches ds bs d r"
    and providers: "\<forall>b \<in> set bs. bind_provider b \<in> pd_id ` set ds"
    and st: "st = fold (pair_step matches ds bs) (requirement_pairs (bm_values m)) initial_resolution"
  shows "finish_resolution m bm st \<noteq> Inl Panic"
    and "finish_resolution m bm st = Inr g \<longleftrightarrow>
      (\<forall>b \<in> set bs. \<exists>d \<in> set ds. pd_id d = bind_consumer b \<and> bind_capability b \<in> req_id ` set (requires d)) \<and>
      g = \<lparr>rg_plugins = m, rg_requirements = map (pair_requirement matches ds bs) (requirement_pairs (bm_values m)),
           rg_edges = dependency_edges matches ds bs,
           rg_diagnostics = graph_diagnostics m (map (pair_requirement matches ds bs) (requirement_pairs (bm_values m)))
             (dependency_edges matches ds bs),
           rg_startup_order = rg_startup_order g\<rparr> \<and>
      topological_order (bm_keys m) (dependency_edges matches ds bs) =
        (Inr (rg_startup_order g) :: ('v, 'q) resolve_error fault + _)"
    and "edges_within (bm_keys m) (dependency_edges matches ds bs)"
proof -
  let ?rs = "map (pair_requirement matches ds bs) (requirement_pairs (bm_values m))"
  have rs: "sort_key requirement_key (res_requirements st) = ?rs"
    using map_requirements_ascending [OF m wf, of matches bs]
    unfolding st pair_steps_requirements
    by (simp add: initial_resolution_def sort_key_id_if_sorted ascending_sorted)
  have es: "res_edges st = dependency_edges matches ds bs"
    unfolding st by (rule resolve_loop_edges [OF m])
  have used: "find (\<lambda>key. \<not> bs_contains (res_used st) key) (bm_keys bm) = None \<longleftrightarrow>
      (\<forall>b \<in> set bs. \<exists>d \<in> set ds. pd_id d = bind_consumer b \<and> bind_capability b \<in> req_id ` set (requires d))"
    by (rule used_bindings_ok [OF m bm]) (simp add: st pair_steps_used initial_resolution_def)
  have keys: "set (bm_keys m) = pd_id ` set ds"
    using m by (auto simp: is_plugin_map_def bm_keys_def image_image)
  have "p \<in> pd_id ` set ds" if "p \<in> set (chosen matches ds bs d r)" for p d r
    using that bound_provider_Some [of bs "pd_id d" "req_id r"] providers
    by (fastforce simp: chosen_def set_compatible_ids split: option.splits)
  then show within: "edges_within (bm_keys m) (dependency_edges matches ds bs)"
    unfolding edges_within_def keys by (auto simp: dependency_edges_def)
  show "finish_resolution m bm st \<noteq> Inl Panic"
    using topological_order_no_panic [OF within]
    by (auto simp: finish_resolution_def Let_def es rs result_simps split: option.splits)
  show "finish_resolution m bm st = Inr g \<longleftrightarrow>
      (\<forall>b \<in> set bs. \<exists>d \<in> set ds. pd_id d = bind_consumer b \<and> bind_capability b \<in> req_id ` set (requires d)) \<and>
      g = \<lparr>rg_plugins = m, rg_requirements = ?rs, rg_edges = dependency_edges matches ds bs,
           rg_diagnostics = graph_diagnostics m ?rs (dependency_edges matches ds bs),
           rg_startup_order = rg_startup_order g\<rparr> \<and>
      topological_order (bm_keys m) (dependency_edges matches ds bs) =
        (Inr (rg_startup_order g) :: ('v, 'q) resolve_error fault + _)"
    unfolding used [symmetric]
    by (auto simp: finish_resolution_def Let_def es rs result_simps split: option.splits)
qed

lemma least_topological_exists:
  assumes "edges_within ids edges"
  shows "(\<exists>order. topological_order ids edges = (Inr order :: ('v, 'q) resolve_error fault + _)) \<longleftrightarrow>
      (\<exists>ys. topological (set ids) (edge_preds edges) ys)"
    and "topological_order ids edges = (Inr order :: ('v, 'q) resolve_error fault + _) \<longleftrightarrow>
      least_topological (set ids) (edge_preds edges) order"
proof -
  have unique: "least_topological N pre xs \<Longrightarrow> least_topological N pre ys \<Longrightarrow> xs = ys" for N pre xs ys
    by (metis least_topological_def order_antisym)
  show "(\<exists>order. topological_order ids edges = (Inr order :: ('v, 'q) resolve_error fault + _)) \<longleftrightarrow>
      (\<exists>ys. topological (set ids) (edge_preds edges) ys)"
    by (rule topological_order_cases [OF assms, where ?'v = 'v and ?'q = 'q])
       (metis greedy_least_topological least_topological_def, simp)
  show "topological_order ids edges = (Inr order :: ('v, 'q) resolve_error fault + _) \<longleftrightarrow>
      least_topological (set ids) (edge_preds edges) order"
  proof (rule topological_order_cases [OF assms, where ?'v = 'v and ?'q = 'q])
    fix xs
    assume run: "topological_order ids edges = (Inr xs :: ('v, 'q) resolve_error fault + _)"
      and "greedy (set ids) (edge_preds edges) xs" "set xs = set ids"
    then have "least_topological (set ids) (edge_preds edges) xs" by (intro greedy_least_topological)
    with run unique show ?thesis by auto
  qed (simp add: least_topological_def)
qed

lemma resolve_stages:
  "resolve matches spec = Inr g \<longleftrightarrow>
     (\<exists>m bm st. spec_schema_version spec = 1 \<and> limits_ok (spec_limits spec) \<and>
        length (spec_plugins spec) \<le> max_plugins (spec_limits spec) \<and>
        for_each (insert_plugin (spec_limits spec)) (spec_plugins spec) [] = Inr m \<and>
        validate_conflicts m = Inr () \<and> validate_no_self_dependencies m = Inr () \<and>
        validated_bindings (spec_bindings spec) m = Inr bm \<and>
        resolve_loop matches (spec_limits spec) m bm = Inr st \<and>
        finish_resolution m bm st = Inr g)"
  by (simp add: resolve_def result_simps)

lemma resolves_to_unique:
  assumes "is_plugin_map ds m" and "\<forall>d \<in> set ds. descriptor_wf d" and "ds = spec_plugins spec"
    and "bs = spec_bindings spec" and sat: "\<forall>d \<in> set ds. \<forall>r \<in> set (requires d). satisfiable matches ds bs d r"
  shows "resolves_to matches spec g \<longleftrightarrow>
    g = \<lparr>rg_plugins = m, rg_requirements = map (pair_requirement matches ds bs) (requirement_pairs (bm_values m)),
         rg_edges = dependency_edges matches ds bs,
         rg_diagnostics = graph_diagnostics m (map (pair_requirement matches ds bs) (requirement_pairs (bm_values m)))
           (dependency_edges matches ds bs),
         rg_startup_order = rg_startup_order g\<rparr> \<and>
    least_topological (pd_id ` set ds) (edge_preds (dependency_edges matches ds bs)) (rg_startup_order g)"
proof -
  let ?rs = "map (pair_requirement matches ds bs) (requirement_pairs (bm_values m))"
  let ?es = "dependency_edges matches ds bs"
  let ?diag = "graph_diagnostics m ?rs ?es"
  have rs: "ascending (map requirement_key ?rs)" "set ?rs = expected_requirements matches ds bs"
    using map_requirements_ascending [OF assms(1,2)] set_pairs_of_map [OF assms(1)] set_pair_requirements
    by (simp, metis (no_types, lifting) set_map)
  have diag: "ascending ?diag" "set ?diag = expected_diagnostics matches ds bs"
    using graph_diagnostics_ascending graph_diagnostics_set [OF assms(1) rs(2) sat] by auto
  have rs_unique: "xs = ?rs"
    if "ascending (map requirement_key xs)" "set xs = expected_requirements matches ds bs" for xs
  proof -
    have "map requirement_key xs = map requirement_key ?rs"
      by (rule ascending_unique [OF that(1) rs(1)]) (simp add: that(2) image_image flip: rs(2))
    moreover have "inj_on requirement_key (set ?rs)"
      using ascending_distinct [OF rs(1)] by (metis distinct_map)
    ultimately show ?thesis
      using that(2) rs(2) by (metis inj_on_map_eq_map sup.idem)
  qed
  show ?thesis
  proof (cases g)
    case (fields ps reqs es ds' order)
    have "ps = m \<longleftrightarrow> bm_wf ps \<and> set ps = (\<lambda>d. (pd_id d, d)) ` set ds"
      using assms(1) bm_wf_set_unique [of ps m] by (auto simp: is_plugin_map_def)
    moreover have "reqs = ?rs \<longleftrightarrow> ascending (map requirement_key reqs) \<and> set reqs = expected_requirements matches ds bs"
      using rs rs_unique by blast
    moreover have "ds' = ?diag \<longleftrightarrow> ascending ds' \<and> set ds' = expected_diagnostics matches ds bs"
      using diag ascending_unique [of ds' ?diag] by auto
    ultimately show ?thesis
      unfolding fields resolves_to_def Let_def assms(3,4) [symmetric] by simp
  qed
qed

lemma resolve_sound:
  assumes wf: "\<forall>d \<in> set (spec_plugins spec). descriptor_wf d" and run: "resolve matches spec = Inr g"
  shows "valid_composition matches spec \<and> resolves_to matches spec g"
proof -
  define ds where "ds = spec_plugins spec"
  define bs where "bs = spec_bindings spec"
  define l where "l = spec_limits spec"
  define es where "es = dependency_edges matches ds bs"
  have wf_ds: "\<forall>d \<in> set ds. descriptor_wf d" using wf by (simp add: ds_def)
  from run obtain m bm st where pre: "spec_schema_version spec = 1" "limits_ok l" "length ds \<le> max_plugins l"
    and ps: "for_each (insert_plugin l) ds [] = Inr m"
    and checks: "validate_conflicts m = Inr ()" "validate_no_self_dependencies m = Inr ()"
    and bind: "validated_bindings bs m = Inr bm"
    and loop: "resolve_loop matches l m bm = Inr st" and fin: "finish_resolution m bm st = Inr g"
    unfolding resolve_stages ds_def bs_def l_def by blast
  note m = insert_plugins_map [OF ps] and bm = validated_bindings_map [OF bind]
  have ids: "distinct (map pd_id ds)"
      "\<forall>d \<in> set ds. length (provides d) + length (requires d) \<le> max_capabilities_per_plugin l"
    using insert_plugins_ok [OF pre(2), of ds] ps by blast+
  have bs: "distinct (map (\<lambda>b. (bind_consumer b, bind_capability b)) bs)"
      "\<forall>b \<in> set bs. bind_provider b \<in> pd_id ` set ds"
    using validated_bindings_ok [OF m, of bs] bind by blast+
  have sat_all: "\<forall>d \<in> set ds. \<forall>r \<in> set (requires d). satisfiable matches ds bs d r"
    and st: "st = fold (pair_step matches ds bs) (requirement_pairs (bm_values m)) initial_resolution"
    and len: "length es \<le> max_edges l"
    using loop unfolding resolve_loop_ok [OF m wf_ds bs(2) bm] es_def by blast+
  note ok = finish_resolution_ok [OF m wf_ds bm sat_all bs(2) st]
  have keys: "set (bm_keys m) = pd_id ` set ds"
    using m by (auto simp: is_plugin_map_def bm_keys_def image_image)
  have used: "\<forall>b \<in> set bs. \<exists>d \<in> set ds. pd_id d = bind_consumer b \<and> bind_capability b \<in> req_id ` set (requires d)"
    using ok(2) [of g] fin by blast
  have g: "resolves_to matches spec g"
    using ok(2) [of g] fin least_topological_exists(2) [OF ok(3)] keys
    unfolding resolves_to_unique [OF m wf_ds ds_def bs_def sat_all] by auto
  moreover note len
  moreover have "\<exists>ys. topological (pd_id ` set ds) (edge_preds es) ys"
    using g unfolding resolves_to_def Let_def least_topological_def es_def ds_def bs_def by blast
  moreover have "bindings_ok ds bs" using bs used unfolding bindings_ok_def by blast
  moreover have "\<forall>d \<in> set ds. set (pd_conflicts d) \<inter> pd_id ` set ds = {}"
    using checks(1) unfolding validate_conflicts_ok [OF m] .
  moreover have "\<forall>d \<in> set ds. \<forall>r \<in> set (requires d). offer d (req_id r) = None"
    using checks(2) unfolding validate_no_self_dependencies_ok [OF m] .
  ultimately show ?thesis
    using pre ids sat_all
    unfolding valid_composition_def Let_def ds_def [symmetric] bs_def [symmetric] l_def [symmetric] es_def [symmetric]
    by (intro conjI)
qed

lemma resolve_complete:
  fixes spec :: "('v, 'q) composition_spec"
  assumes wf: "\<forall>d \<in> set (spec_plugins spec). descriptor_wf d"
    and v: "valid_composition matches spec"
  shows "\<exists>g. resolve matches spec = Inr g" and "resolves_to matches spec g \<Longrightarrow> resolve matches spec = Inr g"
proof -
  define ds where "ds = spec_plugins spec"
  define bs where "bs = spec_bindings spec"
  define l where "l = spec_limits spec"
  define es where "es = dependency_edges matches ds bs"
  have wf_ds: "\<forall>d \<in> set ds. descriptor_wf d" using wf by (simp add: ds_def)
  have pre: "spec_schema_version spec = 1" "limits_ok l" "length ds \<le> max_plugins l"
    and ids: "distinct (map pd_id ds)"
      "\<forall>d \<in> set ds. length (provides d) + length (requires d) \<le> max_capabilities_per_plugin l"
    and conf: "\<forall>d \<in> set ds. set (pd_conflicts d) \<inter> pd_id ` set ds = {}"
    and self: "\<forall>d \<in> set ds. \<forall>r \<in> set (requires d). offer d (req_id r) = None"
    and bs: "bindings_ok ds bs"
    and sat: "\<forall>d \<in> set ds. \<forall>r \<in> set (requires d). satisfiable matches ds bs d r"
    and len: "length es \<le> max_edges l" and top: "\<exists>ys. topological (pd_id ` set ds) (edge_preds es) ys"
    using v
    unfolding valid_composition_def Let_def ds_def [symmetric] bs_def [symmetric] l_def [symmetric] es_def [symmetric]
    by - (elim conjE, assumption)+
  obtain m where ps: "for_each (insert_plugin l) ds [] = Inr m"
    using insert_plugins_ok [OF pre(2), of ds] ids by blast
  note m = insert_plugins_map [OF ps]
  have prov: "\<forall>b \<in> set bs. bind_provider b \<in> pd_id ` set ds" using bs by (simp add: bindings_ok_def)
  have "\<forall>b \<in> set bs. bind_consumer b \<in> pd_id ` set ds" using bs unfolding bindings_ok_def by (metis image_eqI)
  with prov obtain bm where bind: "validated_bindings bs m = Inr bm"
    using validated_bindings_ok [OF m, of bs] bs unfolding bindings_ok_def by blast
  note bm = validated_bindings_map [OF bind]
  define st where "st = fold (pair_step matches ds bs) (requirement_pairs (bm_values m)) initial_resolution"
  have loop: "resolve_loop matches l m bm = Inr st"
    using sat len unfolding resolve_loop_ok [OF m wf_ds prov bm] st_def es_def by blast
  note ok = finish_resolution_ok [OF m wf_ds bm sat prov st_def]
  have keys: "set (bm_keys m) = pd_id ` set ds"
    using m by (auto simp: is_plugin_map_def bm_keys_def image_image)
  have run: "resolve matches spec = Inr h" if "finish_resolution m bm st = Inr h" for h
    unfolding resolve_stages
    using that pre ps bind loop conf self validate_conflicts_ok [OF m] validate_no_self_dependencies_ok [OF m]
    unfolding ds_def bs_def l_def by blast
  obtain order where "topological_order (bm_keys m) (dependency_edges matches ds bs) =
      (Inr order :: ('v, 'q) resolve_error fault + _)"
    using least_topological_exists(1) [OF ok(3)] top unfolding keys es_def by blast
  then have "finish_resolution m bm st =
      Inr \<lparr>rg_plugins = m, rg_requirements = map (pair_requirement matches ds bs) (requirement_pairs (bm_values m)),
           rg_edges = dependency_edges matches ds bs,
           rg_diagnostics = graph_diagnostics m (map (pair_requirement matches ds bs) (requirement_pairs (bm_values m)))
             (dependency_edges matches ds bs),
           rg_startup_order = order\<rparr>"
    using bs unfolding ok(2) bindings_ok_def by simp
  from run [OF this] show "\<exists>g. resolve matches spec = Inr g" by blast
  assume g: "resolves_to matches spec g"
  have "finish_resolution m bm st = Inr g"
    using g bs least_topological_exists(2) [OF ok(3)] keys
    unfolding ok(2) resolves_to_unique [OF m wf_ds ds_def bs_def sat] bindings_ok_def by auto
  then show "resolve matches spec = Inr g" by (rule run)
qed

lemma resolve_correct:
  assumes "\<forall>d \<in> set (spec_plugins spec). descriptor_wf d"
  shows "resolve matches spec = Inr g \<longleftrightarrow> valid_composition matches spec \<and> resolves_to matches spec g"
  using resolve_sound [OF assms] resolve_complete(2) [OF assms] by blast

end
