(* ===== verification/Resolve_Errors.thy ===== *)
theory Resolve_Errors
  imports Resolve_Spec
begin

text \<open>
  What each error of \<open>resolve\<close> says about the composition it was raised for. \<open>explains\<close> states,
  constructor by constructor, the defect the error names; the main lemma shows that whatever
  error \<open>resolve\<close> returns, its defect is present.
\<close>

definition required_at ::
  "('v, 'q) plugin_descriptor list \<Rightarrow> plugin_id \<Rightarrow> 'q capability_requirement \<Rightarrow> bool" where
  "required_at ds p r \<longleftrightarrow> (\<exists>d \<in> set ds. pd_id d = p \<and> r \<in> set (requires d))"

definition offered :: "('v, 'q) plugin_descriptor list \<Rightarrow> capability_id \<Rightarrow> (plugin_id \<times> 'v) set" where
  "offered ds c = {(pd_id d, offer_version ofr) | d ofr. d \<in> set ds \<and> offer d c = Some ofr}"

definition declared_count :: "('v, 'q) plugin_descriptor \<Rightarrow> nat" where
  "declared_count d = saturating_add (length (provides d)) (length (requires d))"

fun explains ::
  "('q \<Rightarrow> 'v \<Rightarrow> bool) \<Rightarrow> ('v, 'q) composition_spec \<Rightarrow> ('v, 'q) resolve_error \<Rightarrow> bool" where
  "explains matches spec (UnsupportedSchemaVersion actual supported) =
     (actual = spec_schema_version spec \<and> supported = 1 \<and> actual \<noteq> 1)"
| "explains matches spec (ConfiguredLimitExceeded limit actual maximum) =
     ((limit, actual, maximum) \<in> {(''plugins'', max_plugins (spec_limits spec), 65536),
        (''capabilities-per-plugin'', max_capabilities_per_plugin (spec_limits spec), 4096),
        (''edges'', max_edges (spec_limits spec), 1048576)} \<and> maximum < actual)"
| "explains matches spec (PluginLimitExceeded actual maximum) =
     (actual = length (spec_plugins spec) \<and> maximum = max_plugins (spec_limits spec) \<and> maximum < actual)"
| "explains matches spec (CapabilityLimitExceeded p actual maximum) =
     (maximum = max_capabilities_per_plugin (spec_limits spec) \<and> maximum < actual \<and>
      (\<exists>d \<in> set (spec_plugins spec). pd_id d = p \<and> actual = declared_count d))"
| "explains matches spec (DuplicatePlugin p) =
     (2 \<le> count_list (map pd_id (spec_plugins spec)) p)"
| "explains matches spec (PluginConflict p q) =
     (p < q \<and> (\<exists>d \<in> set (spec_plugins spec). \<exists>d' \<in> set (spec_plugins spec).
        pd_id d' \<in> set (pd_conflicts d) \<and> {pd_id d, pd_id d'} = {p, q}))"
| "explains matches spec (SelfDependency p c) =
     (\<exists>d \<in> set (spec_plugins spec). pd_id d = p \<and> offer d c \<noteq> None \<and> c \<in> req_id ` set (requires d))"
| "explains matches spec (UnknownBindingConsumer p) =
     (p \<in> bind_consumer ` set (spec_bindings spec) \<and> p \<notin> pd_id ` set (spec_plugins spec))"
| "explains matches spec (UnknownBindingProvider p) =
     (p \<in> bind_provider ` set (spec_bindings spec) \<and> p \<notin> pd_id ` set (spec_plugins spec))"
| "explains matches spec (DuplicateBinding p c) =
     (2 \<le> count_list (map (\<lambda>b. (bind_consumer b, bind_capability b)) (spec_bindings spec)) (p, c))"
| "explains matches spec (UnusedBinding p c) =
     (bound_provider (spec_bindings spec) p c \<noteq> None \<and>
      (\<nexists>r. required_at (spec_plugins spec) p r \<and> req_id r = c))"
| "explains matches spec (BindingForMultiple p c) =
     (bound_provider (spec_bindings spec) p c \<noteq> None \<and>
      (\<exists>r. required_at (spec_plugins spec) p r \<and> req_id r = c \<and> \<not> is_bindable (req_cardinality r)))"
| "explains matches spec (BoundProviderDoesNotOffer p c q) =
     (bound_provider (spec_bindings spec) p c = Some q \<and>
      (\<exists>r. required_at (spec_plugins spec) p r \<and> req_id r = c) \<and>
      (\<exists>d \<in> set (spec_plugins spec). pd_id d = q \<and> offer d c = None))"
| "explains matches spec (IncompatibleBinding p c q v req) =
     (bound_provider (spec_bindings spec) p c = Some q \<and>
      (\<exists>r. required_at (spec_plugins spec) p r \<and> req_id r = c \<and> req_version r = req) \<and>
      (q, v) \<in> offered (spec_plugins spec) c \<and> \<not> matches req v)"
| "explains matches spec (MissingProvider p c req) =
     (offered (spec_plugins spec) c = {} \<and>
      (\<exists>r. required_at (spec_plugins spec) p r \<and> req_id r = c \<and> req_version r = req \<and>
         \<not> permits_zero (req_cardinality r)))"
| "explains matches spec (IncompatibleProvider p c req versions) =
     (versions \<noteq> [] \<and> ascending (map fst versions) \<and> set versions = offered (spec_plugins spec) c \<and>
      (\<forall>(q, v) \<in> set versions. \<not> matches req v) \<and>
      (\<exists>r. required_at (spec_plugins spec) p r \<and> req_id r = c \<and> req_version r = req \<and>
         \<not> permits_zero (req_cardinality r)))"
| "explains matches spec (AmbiguousProvider p c qs) =
     (2 \<le> length qs \<and> bound_provider (spec_bindings spec) p c = None \<and>
      (\<exists>r. required_at (spec_plugins spec) p r \<and> req_id r = c \<and> is_bindable (req_cardinality r) \<and>
         qs = compatible_ids matches (spec_plugins spec) r))"
| "explains matches spec (EdgeLimitExceeded actual maximum) =
     (maximum = max_edges (spec_limits spec) \<and> actual = maximum + 1 \<and>
      maximum < length (dependency_edges matches (spec_plugins spec) (spec_bindings spec)))"
| "explains matches spec (DependencyCycle c) =
     (dependency_cycle (dependency_edges matches (spec_plugins spec) (spec_bindings spec)) c \<and>
      set c \<subseteq> pd_id ` set (spec_plugins spec))"
| "explains matches spec (UnsupportedReportSchemaVersion _ _) = False"
| "explains matches spec InconsistentReportLifecycle = False"
| "explains matches spec (DuplicateReportPlugin _) = False"
| "explains matches spec (UnknownReportPlugin _) = False"

section \<open>The checks\<close>

lemma for_each_unit_error:
  "for_each step xs () = Inl e \<Longrightarrow> \<exists>x \<in> set xs. step x () = Inl e"
  by (induction xs) (auto simp: result_simps)

lemma schema_error: "validate_schema_version (spec_schema_version spec) = Inl e \<Longrightarrow> explains matches spec e"
  by (auto simp: validate_schema_version_def COMPOSITION_SCHEMA_VERSION_def split: if_splits)

lemma limits_error: "validate_configured_limits (spec_limits spec) = Inl e \<Longrightarrow> explains matches spec e"
  by (auto simp: validate_configured_limits_def ABSOLUTE_MAX_PLUGINS_def ABSOLUTE_MAX_EDGES_def
      ABSOLUTE_MAX_CAPABILITIES_PER_PLUGIN_def split: if_splits)

lemma plugin_limit_error:
  "validate_plugin_limit (length (spec_plugins spec)) (max_plugins (spec_limits spec)) = Inl e \<Longrightarrow> explains matches spec e"
  by (auto simp: validate_plugin_limit_def split: if_splits)

text \<open>An insert-once loop fails at an item that is malformed or whose key an earlier item had.\<close>

lemma bmap_loop_error:
  assumes once: "bmap.inserts_once step bad dup key val (set xs)" and err: "for_each step xs [] = Inl e"
  shows "(\<exists>x \<in> set xs. bad x = Some e) \<or> (\<exists>x \<in> set xs. e = dup x \<and> 2 \<le> count_list (map key xs) (key x))"
proof -
  from err obtain ys x zs t where split: "xs = ys @ x # zs" and run: "for_each step ys [] = Inr t"
    and fail: "step x t = Inl e"
    by (auto simp: for_each_error)
  have "bmap.inserts_once step bad dup key val (set ys)"
    by (rule bmap.inserts_once_subset [OF once]) (auto simp: split)
  from bmap.inserts_once_loop_result [OF this bm_wf_Nil run]
  have t: "bm_wf t" "bm_contains t (key x) \<longleftrightarrow> key x \<in> key ` set ys" by (auto simp: bm_contains_def)
  have "1 \<le> count_list (map key ys) (key x)" if "key x \<in> key ` set ys"
    using that by (metis count_list_0_iff less_one not_le set_map)
  moreover have "step x t = (case bad x of Some e \<Rightarrow> Inl e | None \<Rightarrow>
      if bm_contains t (key x) then Inl (dup x) else Inr (bm_insert (key x) (val x) t))"
    by (rule bmap.inserts_onceD [OF once]) (use split t in auto)
  ultimately show ?thesis using fail t(2) split
    by (auto simp: count_list_append split: option.splits if_splits)
qed

lemma insert_plugins_error:
  assumes "for_each (insert_plugin (spec_limits spec)) (spec_plugins spec) [] = Inl e"
  shows "explains matches spec e"
  using bmap_loop_error [OF insert_plugin_once assms]
  by (auto simp: Let_def declared_count_def split: if_splits)

lemma conflicts_error:
  assumes m: "is_plugin_map (spec_plugins spec) m" and wf: "\<forall>d \<in> set (spec_plugins spec). descriptor_wf d"
    and err: "validate_conflicts m = Inl e"
  shows "explains matches spec e"
proof -
  from err obtain d c where d: "d \<in> set (spec_plugins spec)" "c \<in> set (pd_conflicts d)"
    and fail: "check_conflict m d c () = Inl e"
    unfolding validate_conflicts_def by (auto dest!: for_each_unit_error simp: plugin_map_values [OF m])
  from fail obtain d' where d': "d' \<in> set (spec_plugins spec)" "pd_id d' = c"
    by (auto simp: check_conflict_def plugin_map_contains [OF m] split: if_splits)
  have ne: "pd_id d \<noteq> c" using wf d by (auto simp: descriptor_wf_def)
  have pair: "\<exists>d1 \<in> set (spec_plugins spec). \<exists>d2 \<in> set (spec_plugins spec).
      pd_id d2 \<in> set (pd_conflicts d1) \<and> {pd_id d1, pd_id d2} = {pd_id d, c}"
    using d d' by blast
  note flipped = pair [unfolded insert_commute [of "pd_id d" c "{}"]]
  have "e = PluginConflict (pd_id d) c \<and> pd_id d < c \<or> e = PluginConflict c (pd_id d) \<and> c < pd_id d"
    using fail ne by (auto simp: check_conflict_def split: if_splits)
  then show ?thesis
  proof (elim disjE conjE)
    assume "e = PluginConflict (pd_id d) c" "pd_id d < c"
    with pair show ?thesis by simp
  next
    assume "e = PluginConflict c (pd_id d)" "c < pd_id d"
    with flipped show ?thesis by simp
  qed
qed

lemma self_dependency_error:
  assumes m: "is_plugin_map (spec_plugins spec) m" and err: "validate_no_self_dependencies m = Inl e"
  shows "explains matches spec e"
proof -
  from err obtain d r where d: "d \<in> set (spec_plugins spec)" "r \<in> set (requires d)"
    and fail: "check_self_dependency d r () = Inl e"
    unfolding validate_no_self_dependencies_def
    by (auto dest!: for_each_unit_error simp: plugin_map_values [OF m])
  with fail show ?thesis
    by (auto simp: check_self_dependency_def split: if_splits intro!: bexI [of _ d])
qed

lemma bindings_error:
  assumes m: "is_plugin_map (spec_plugins spec) m"
    and err: "validated_bindings (spec_bindings spec) m = Inl e"
  shows "explains matches spec e"
  using bmap_loop_error [OF insert_binding_once err [unfolded validated_bindings_def]]
  by (auto simp: plugin_map_contains [OF m] split: if_splits)

section \<open>Selection and the resolution loop\<close>

lemma set_offer_candidates:
  assumes "is_plugin_map ds m" and "\<forall>d \<in> set ds. descriptor_wf d"
  shows "(\<lambda>c. (cand_plugin c, cand_version c)) ` set (candidates_of (index_providers m) c) = offered ds c"
proof -
  let ?f = "\<lambda>c. (cand_plugin c, cand_version c)"
  have "?f ` set (candidates_of (index_providers m) c) = (\<Union>d \<in> set ds. ?f ` set (offer_candidates d c))"
    using assms by (simp add: index_providers_candidates plugin_map_values image_UN)
  also have "\<dots> = (\<Union>d \<in> set ds. {(pd_id d, offer_version ofr) | ofr. offer d c = Some ofr})"
  proof (intro SUP_cong refl)
    fix d
    show "?f ` set (offer_candidates d c) = {(pd_id d, offer_version ofr) | ofr. offer d c = Some ofr}"
      by (cases "offer d c") (simp_all add: offer_candidates_def)
  qed
  also have "\<dots> = offered ds c" unfolding offered_def by auto
  finally show ?thesis .
qed

lemma candidates_ascending:
  assumes "is_plugin_map ds m" and "\<forall>d \<in> set ds. descriptor_wf d"
  shows "ascending (map cand_plugin (candidates_of (index_providers m) c))"
proof -
  have "map cand_plugin (concat (map (\<lambda>d. offer_candidates d c) xs)) =
      map pd_id (filter (\<lambda>d. offer d c \<noteq> None) xs)" for xs
    by (induction xs) (auto simp: offer_candidates_def split: option.splits)
  then have "map cand_plugin (candidates_of (index_providers m) c) =
      map pd_id (filter (\<lambda>d. offer d c \<noteq> None) (bm_values m))"
    using assms by (simp add: index_providers_candidates plugin_map_values)
  then show ?thesis
    using plugin_map_ids_ascending [OF assms(1)] by (simp add: sorted_wrt_map sorted_wrt_filter)
qed

lemma offered_none_matches:
  assumes "compatible_ids matches ds r = []" and "(q, v) \<in> offered ds (req_id r)"
  shows "\<not> matches (req_version r) v"
proof
  assume "matches (req_version r) v"
  with assms(2) have "\<exists>d \<in> set ds. offers_match matches r d" by (force simp: offered_def offers_match_def)
  with assms(1) set_compatible_ids [of _ matches ds r] show False by fastforce
qed

lemma missing_or_incompatible_explained:
  assumes m: "is_plugin_map (spec_plugins spec) m" and wf: "\<forall>d \<in> set (spec_plugins spec). descriptor_wf d"
    and r: "required_at (spec_plugins spec) p r" "\<not> permits_zero (req_cardinality r)"
    and none: "compatible_ids matches (spec_plugins spec) r = []"
  shows "explains matches spec
    (missing_or_incompatible p r (candidates_of (index_providers m) (req_id r)))"
proof (cases "candidates_of (index_providers m) (req_id r) = []")
  case True
  then show ?thesis
    using set_offer_candidates [OF m wf, of "req_id r"] r by (auto simp: missing_or_incompatible_def)
next
  case False
  let ?cs = "candidates_of (index_providers m) (req_id r)"
  have "ascending (map fst (map (\<lambda>c. (cand_plugin c, cand_version c)) ?cs))"
    using candidates_ascending [OF m wf, of "req_id r"] by (simp add: comp_def)
  moreover have "set (map (\<lambda>c. (cand_plugin c, cand_version c)) ?cs) = offered (spec_plugins spec) (req_id r)"
    using set_offer_candidates [OF m wf, of "req_id r"] by simp
  moreover have "\<forall>(q, v) \<in> offered (spec_plugins spec) (req_id r). \<not> matches (req_version r) v"
    using offered_none_matches [OF none] by blast
  ultimately show ?thesis
    unfolding missing_or_incompatible_def using False r
    by (simp only: if_False explains.simps) (auto simp: comp_def)
qed

lemma select_unbound_error:
  assumes m: "is_plugin_map (spec_plugins spec) m" and wf: "\<forall>d \<in> set (spec_plugins spec). descriptor_wf d"
    and r: "required_at (spec_plugins spec) p r"
    and free: "bound_provider (spec_bindings spec) p (req_id r) = None"
    and err: "select_unbound matches p r (candidates_of (index_providers m) (req_id r)) = Inl e"
  shows "explains matches spec e"
proof -
  let ?ids = "compatible_ids matches (spec_plugins spec) r"
  have "e = missing_or_incompatible p r (candidates_of (index_providers m) (req_id r)) \<and>
        ?ids = [] \<and> \<not> permits_zero (req_cardinality r) \<or>
      e = AmbiguousProvider p (req_id r) ?ids \<and> 2 \<le> length ?ids \<and> is_bindable (req_cardinality r)"
    using err
    unfolding select_unbound_def Let_def compatible_plugin_map [OF m wf, where matches = matches and r = r]
    by (cases "req_cardinality r")
       (auto simp: is_bindable_def permits_zero_def split: list.splits if_splits)
  then show ?thesis
    using missing_or_incompatible_explained [OF m wf r] r free by auto
qed

lemma select_error:
  assumes m: "is_plugin_map (spec_plugins spec) m" and wf: "\<forall>d \<in> set (spec_plugins spec). descriptor_wf d"
    and r: "required_at (spec_plugins spec) p r"
    and err: "select_providers matches p r (bound_provider (spec_bindings spec) p (req_id r))
      (candidates_of (index_providers m) (req_id r)) m = Inl (Err e)"
  shows "explains matches spec e"
proof (cases "bound_provider (spec_bindings spec) p (req_id r)")
  case None
  with err have "select_unbound matches p r (candidates_of (index_providers m) (req_id r)) = Inl e"
    by (simp add: select_providers_def fallible_eq_iff)
  with select_unbound_error [OF m wf r None] show ?thesis by blast
next
  case (Some q)
  show ?thesis
  proof (cases "is_bindable (req_cardinality r)")
    case True
    with err Some obtain d where d: "d \<in> set (spec_plugins spec)" "pd_id d = q"
      and fail: "select_bound matches p r q m = Inl (Err e)" and get: "bm_get m q = Some d"
      by (auto simp: select_providers_def select_bound_def plugin_map_get [OF m] split: option.splits)
    show ?thesis
    proof (cases "offer d (req_id r)")
      case None
      with fail get have "e = BoundProviderDoesNotOffer p (req_id r) q" by (simp add: select_bound_def)
      with Some r d None show ?thesis by auto
    next
      case (Some ofr)
      with fail get have "e = IncompatibleBinding p (req_id r) q (offer_version ofr) (req_version r)"
        "\<not> matches (req_version r) (offer_version ofr)"
        by (auto simp: select_bound_def split: if_splits)
      moreover have "(q, offer_version ofr) \<in> offered (spec_plugins spec) (req_id r)"
        using Some d by (auto simp: offered_def)
      ultimately show ?thesis
        using \<open>bound_provider (spec_bindings spec) p (req_id r) = Some q\<close> r by auto
    qed
  next
    case False
    with err Some r show ?thesis by (auto simp: select_providers_def)
  qed
qed

lemma insert_edges_error:
  "length E \<le> maximum \<Longrightarrow> for_each (insert_edge maximum c cap) ps E = Inl e \<Longrightarrow>
     e = EdgeLimitExceeded (maximum + 1) maximum \<and>
     maximum < length (fold bs_insert (map (\<lambda>p. ResolvedEdge p c cap) ps) E)"
proof (induction ps arbitrary: E)
  case (Cons p ps)
  let ?E = "bs_insert (ResolvedEdge p c cap) E"
  show ?case
  proof (cases "length ?E \<le> maximum")
    case True
    with Cons.prems Cons.IH [of ?E] show ?thesis by (simp add: insert_edge_def Let_def)
  next
    case False
    with Cons.prems(1) length_bs_insert [of "ResolvedEdge p c cap" E] have "length ?E = maximum + 1" by linarith
    then show ?thesis
      using Cons.prems False fold_bs_insert_length [of ?E "map (\<lambda>p. ResolvedEdge p c cap) ps"]
      by (auto simp: insert_edge_def Let_def)
  qed
qed simp

lemma resolve_requirement_error:
  assumes m: "is_plugin_map (spec_plugins spec) m" and wf: "\<forall>d \<in> set (spec_plugins spec). descriptor_wf d"
    and bm: "is_binding_map (spec_bindings spec) bm"
    and prov: "\<forall>b \<in> set (spec_bindings spec). bind_provider b \<in> pd_id ` set (spec_plugins spec)"
    and d: "d \<in> set (spec_plugins spec)" "r \<in> set (requires d)"
    and le: "length (res_edges st) \<le> max_edges (spec_limits spec)"
    and err: "resolve_requirement matches (spec_limits spec) m (index_providers m) bm d r st = Inl (Err e)"
  shows "explains matches spec e \<or>
    e = EdgeLimitExceeded (max_edges (spec_limits spec) + 1) (max_edges (spec_limits spec)) \<and>
    max_edges (spec_limits spec) < length (fold bs_insert
      (pair_edges matches (spec_plugins spec) (spec_bindings spec) (d, r)) (res_edges st))"
proof -
  have get: "bm_get bm (pd_id d, req_id r) = bound_provider (spec_bindings spec) (pd_id d) (req_id r)"
    using bm by (simp add: is_binding_map_def)
  let ?sel = "select_providers matches (pd_id d) r (bound_provider (spec_bindings spec) (pd_id d) (req_id r))
      (candidates_of (index_providers m) (req_id r)) m"
  have at: "required_at (spec_plugins spec) (pd_id d) r" using d by (auto simp: required_at_def)
  note run = err [unfolded resolve_requirement_def Let_def get candidates_of_def [symmetric]]
  show ?thesis
  proof (cases ?sel)
    case (Inl f)
    with run have "?sel = Inl (Err e)" by simp
    then show ?thesis using select_error [OF m wf at] by blast
  next
    case (Inr ps)
    with run have edges: "for_each (insert_edge (max_edges (spec_limits spec)) (pd_id d) (req_id r)) ps (res_edges st) = Inl e"
      by (simp add: and_then_Inl_iff fallible_eq_iff)
    have "ps = chosen matches (spec_plugins spec) (spec_bindings spec) d r"
      using Inr select_providers_ok(2) [OF m wf prov] by blast
    then show ?thesis using insert_edges_error [OF le edges] by (simp add: pair_edges_def)
  qed
qed

lemma resolve_loop_error:
  assumes m: "is_plugin_map (spec_plugins spec) m" and wf: "\<forall>d \<in> set (spec_plugins spec). descriptor_wf d"
    and bm: "is_binding_map (spec_bindings spec) bm"
    and prov: "\<forall>b \<in> set (spec_bindings spec). bind_provider b \<in> pd_id ` set (spec_plugins spec)"
    and err: "resolve_loop matches (spec_limits spec) m bm = Inl (Err e)"
  shows "explains matches spec e"
proof -
  let ?ds = "spec_plugins spec" and ?bs = "spec_bindings spec" and ?max = "max_edges (spec_limits spec)"
  let ?es = "dependency_edges matches ?ds ?bs"
  from err obtain ys x zs st where split: "requirement_pairs (bm_values m) = ys @ x # zs"
    and run: "for_each (\<lambda>x. resolve_requirement matches (spec_limits spec) m (index_providers m) bm (fst x) (snd x))
        ys initial_resolution = Inr st"
    and fail: "resolve_requirement matches (spec_limits spec) m (index_providers m) bm (fst x) (snd x) st = Inl (Err e)"
    unfolding resolve_loop_pairs by (auto simp: for_each_error)
  have st: "st = fold (pair_step matches ?ds ?bs) ys initial_resolution" "length (res_edges st) \<le> ?max"
    using resolve_pairs_ok [OF m wf prov bm, of initial_resolution "spec_limits spec"] run
    by (auto simp: initial_resolution_def)
  have "x \<in> set (requirement_pairs ?ds)"
    using set_pairs_of_map [OF m] split by auto
  then have "(fst x, snd x) \<in> set (requirement_pairs ?ds)" by simp
  then have x: "fst x \<in> set ?ds" "snd x \<in> set (requires (fst x))"
    unfolding set_requirement_pairs by blast+
  from resolve_requirement_error [OF m wf bm prov x st(2) fail] show ?thesis
  proof
    assume limit: "e = EdgeLimitExceeded (?max + 1) ?max \<and>
      ?max < length (fold bs_insert (pair_edges matches ?ds ?bs (fst x, snd x)) (res_edges st))"
    have "fold bs_insert (pair_edges matches ?ds ?bs x) (res_edges st) =
        res_edges (fold (pair_step matches ?ds ?bs) (ys @ [x]) initial_resolution)"
      by (simp add: st(1) pair_step_def)
    moreover have "length \<dots> \<le> length (res_edges (fold (pair_step matches ?ds ?bs)
        (requirement_pairs (bm_values m)) initial_resolution))"
      unfolding pair_steps_edges split by (simp add: fold_bs_insert_length)
    ultimately have "?max < length ?es"
      using limit unfolding resolve_loop_edges [OF m] by simp
    then show ?thesis using limit by simp
  qed
qed

lemma cycle_nodes:
  assumes within: "edges_within ids es" and cyc: "dependency_cycle es c"
  shows "set c \<subseteq> set ids"
proof -
  have "successively (\<lambda>a b. \<exists>e \<in> set es. edge_provider e = a \<and> edge_consumer e = b) xs \<Longrightarrow>
      2 \<le> length xs \<Longrightarrow> set xs \<subseteq> set ids" for xs
  proof (induction xs rule: induct_list012)
    case (3 x y zs)
    then show ?case using within by (cases zs) (auto simp: edges_within_def)
  qed auto
  with cyc show ?thesis by (simp add: dependency_cycle_def)
qed

lemma finish_resolution_error:
  assumes m: "is_plugin_map (spec_plugins spec) m" and wf: "\<forall>d \<in> set (spec_plugins spec). descriptor_wf d"
    and bm: "is_binding_map (spec_bindings spec) bm"
    and prov: "\<forall>b \<in> set (spec_bindings spec). bind_provider b \<in> pd_id ` set (spec_plugins spec)"
    and sat: "\<forall>d \<in> set (spec_plugins spec). \<forall>r \<in> set (requires d).
      satisfiable matches (spec_plugins spec) (spec_bindings spec) d r"
    and st: "st = fold (pair_step matches (spec_plugins spec) (spec_bindings spec))
      (requirement_pairs (bm_values m)) initial_resolution"
    and err: "finish_resolution m bm st = Inl (Err e)"
  shows "explains matches spec e"
proof (cases "find (\<lambda>key. \<not> bs_contains (res_used st) key) (bm_keys bm)")
  case (Some k)
  obtain p c where k: "k = (p, c)" by (cases k)
  have e: "e = UnusedBinding p c" using err Some k by (simp add: finish_resolution_def)
  have "(p, c) \<in> set (bm_keys bm)" "(p, c) \<notin> set (res_used st)" using find_SomeD [OF Some] k by auto
  then have bound: "bound_provider (spec_bindings spec) p c \<noteq> None"
    and unused: "(p, c) \<notin> {pair_key x | x. x \<in> set (requirement_pairs (spec_plugins spec)) \<and>
      bound_provider (spec_bindings spec) (fst (pair_key x)) (snd (pair_key x)) \<noteq> None}"
    using bm unfolding st pair_steps_used set_pairs_of_map [OF m]
    by (auto simp: is_binding_map_def bound_provider_None)
  have "(p, c) \<notin> pair_key ` set (requirement_pairs (spec_plugins spec))"
    using unused bound mem_image_if [of "\<lambda>k. bound_provider (spec_bindings spec) (fst k) (snd k) \<noteq> None"
        "(p, c)" pair_key "set (requirement_pairs (spec_plugins spec))"]
    unfolding fst_conv snd_conv by blast
  then have "\<nexists>r. required_at (spec_plugins spec) p r \<and> req_id r = c"
    unfolding set_map [symmetric] set_map_pairs by (auto simp: required_at_def pair_key_def)
  with e bound show ?thesis by simp
next
  case None
  have within: "edges_within (bm_keys m) (dependency_edges matches (spec_plugins spec) (spec_bindings spec))"
    by (rule finish_resolution_ok(3) [OF m wf bm sat prov st])
  have "topological_order (bm_keys m) (dependency_edges matches (spec_plugins spec) (spec_bindings spec)) = Inl (Err e)"
    using err None resolve_loop_edges [OF m, of matches "spec_bindings spec"]
    by (simp add: finish_resolution_def Let_def result_simps st)
  then obtain c where e: "e = DependencyCycle c"
    and cyc: "dependency_cycle (dependency_edges matches (spec_plugins spec) (spec_bindings spec)) c"
    using topological_order_failure [OF within] by blast
  have "set c \<subseteq> set (bm_keys m)" by (rule cycle_nodes [OF within cyc])
  then show ?thesis
    using e cyc m by (auto simp: is_plugin_map_def bm_keys_def)
qed

lemma resolve_error_explained:
  assumes wf: "\<forall>d \<in> set (spec_plugins spec). descriptor_wf d" and err: "resolve matches spec = Inl (Err e)"
  shows "explains matches spec e"
  using err [unfolded resolve_def, simplified result_simps]
proof (elim disjE conjE exE, goal_cases)
  case 1
  then show ?case by (rule schema_error)
next
  case 2
  from 2(2) show ?case by (rule limits_error)
next
  case 3
  from 3(3) show ?case by (rule plugin_limit_error)
next
  case 4
  from 4(4) show ?case by (rule insert_plugins_error)
next
  case 5
  from conflicts_error [OF insert_plugins_map [OF 5(4)] wf 5(5)] show ?case .
next
  case 6
  from self_dependency_error [OF insert_plugins_map [OF 6(4)] 6(6)] show ?case .
next
  case 7
  from bindings_error [OF insert_plugins_map [OF 7(4)] 7(7)] show ?case .
next
  case (8 u1 u2 u3 m u4 u5 bm)
  note m = insert_plugins_map [OF 8(4)] and bm = validated_bindings_map [OF 8(7)]
  have "\<forall>b \<in> set (spec_bindings spec). bind_provider b \<in> pd_id ` set (spec_plugins spec)"
    using validated_bindings_ok [OF m] 8(7) by blast
  from resolve_loop_error [OF m wf bm this 8(8)] show ?case .
next
  case (9 u1 u2 u3 m u4 u5 bm st)
  note m = insert_plugins_map [OF 9(4)] and bm = validated_bindings_map [OF 9(7)]
  have prov: "\<forall>b \<in> set (spec_bindings spec). bind_provider b \<in> pd_id ` set (spec_plugins spec)"
    using validated_bindings_ok [OF m] 9(7) by blast
  have "\<forall>d \<in> set (spec_plugins spec). \<forall>r \<in> set (requires d).
      satisfiable matches (spec_plugins spec) (spec_bindings spec) d r"
    and st: "st = fold (pair_step matches (spec_plugins spec) (spec_bindings spec))
      (requirement_pairs (bm_values m)) initial_resolution"
    using 9(8) unfolding resolve_loop_ok [OF m wf prov bm] by blast+
  from finish_resolution_error [OF m wf bm prov this 9(9)] show ?case .
qed

lemma resolve_never_panics:
  assumes wf: "\<forall>d \<in> set (spec_plugins spec). descriptor_wf d"
  shows "resolve matches spec \<noteq> Inl Panic"
proof
  assume "resolve matches spec = Inl Panic"
  then obtain m bm where ps: "for_each (insert_plugin (spec_limits spec)) (spec_plugins spec) [] = Inr m"
    and bind: "validated_bindings (spec_bindings spec) m = Inr bm"
    and run: "resolve_loop matches (spec_limits spec) m bm = Inl Panic \<or>
      (\<exists>st. resolve_loop matches (spec_limits spec) m bm = Inr st \<and> finish_resolution m bm st = Inl Panic)"
    unfolding resolve_def by (auto simp: result_simps)
  note m = insert_plugins_map [OF ps] and bm = validated_bindings_map [OF bind]
  have prov: "\<forall>b \<in> set (spec_bindings spec). bind_provider b \<in> pd_id ` set (spec_plugins spec)"
    using validated_bindings_ok [OF m] bind by blast
  have "resolve_loop matches (spec_limits spec) m bm \<noteq> Inl Panic"
    unfolding resolve_loop_pairs by (rule resolve_pairs_no_panic [OF m wf prov bm])
  with run obtain st where loop: "resolve_loop matches (spec_limits spec) m bm = Inr st"
    and fin: "finish_resolution m bm st = Inl Panic" by blast
  have "\<forall>d \<in> set (spec_plugins spec). \<forall>r \<in> set (requires d).
      satisfiable matches (spec_plugins spec) (spec_bindings spec) d r"
    and "st = fold (pair_step matches (spec_plugins spec) (spec_bindings spec))
      (requirement_pairs (bm_values m)) initial_resolution"
    using loop unfolding resolve_loop_ok [OF m wf prov bm] by blast+
  from finish_resolution_ok(1) [OF m wf bm this(1) prov this(2)] fin show False by blast
qed

end
