(* ===== verification/Resolve_Props.thy ===== *)
theory Resolve_Props
  imports Resolve_Errors "HOL-Library.Code_Target_Nat"
begin

text \<open>
  The properties of \<open>resolve\<close> and of the queries on a resolved graph, with a small composition on
  which they are evaluated: a clock with two providers, one of them selected by a binding, an
  optional capability nobody offers and an offer nobody selects.
\<close>

section \<open>A composition to evaluate\<close>

definition sample_matches :: "nat \<Rightarrow> nat \<Rightarrow> bool" where
  "sample_matches required provided \<longleftrightarrow> required \<le> provided"

definition clock_plugin :: "str \<Rightarrow> nat \<Rightarrow> (nat, nat) plugin_descriptor" where
  "clock_plugin name v =
     (descriptor_new (PluginId name) 1)\<lparr>pd_provides :=
        [(CapabilityId ''x.clock'', \<lparr>offer_id = CapabilityId ''x.clock'', offer_version = v\<rparr>)]\<rparr>"

definition orders_plugin :: "(nat, nat) plugin_descriptor" where
  "orders_plugin =
     (descriptor_new (PluginId ''x.orders'') 3)\<lparr>pd_requires :=
        [(CapabilityId ''x.audit'', \<lparr>req_id = CapabilityId ''x.audit'', req_version = 1, req_cardinality = ZeroOrOne\<rparr>),
         (CapabilityId ''x.clock'', exactly_one (CapabilityId ''x.clock'') 2)]\<rparr>"

definition sample_spec :: "(nat, nat) composition_spec" where
  "sample_spec = composition_spec_default\<lparr>
     spec_plugins := [orders_plugin, clock_plugin ''x.sundial'' 2, clock_plugin ''x.quartz'' 4],
     spec_bindings := [\<lparr>bind_consumer = PluginId ''x.orders'', bind_capability = CapabilityId ''x.clock'',
       bind_provider = PluginId ''x.sundial''\<rparr>]\<rparr>"

definition sample_graph :: "(nat, nat) resolved_graph" where
  "sample_graph =
     \<lparr>rg_plugins = [(PluginId ''x.orders'', orders_plugin), (PluginId ''x.quartz'', clock_plugin ''x.quartz'' 4),
        (PluginId ''x.sundial'', clock_plugin ''x.sundial'' 2)],
      rg_requirements =
        [\<lparr>rr_consumer = PluginId ''x.orders'', rr_capability = CapabilityId ''x.audit'',
          rr_cardinality = ZeroOrOne, rr_providers = []\<rparr>,
         \<lparr>rr_consumer = PluginId ''x.orders'', rr_capability = CapabilityId ''x.clock'',
          rr_cardinality = ExactlyOne, rr_providers = [PluginId ''x.sundial'']\<rparr>],
      rg_edges = [ResolvedEdge (PluginId ''x.sundial'') (PluginId ''x.orders'') (CapabilityId ''x.clock'')],
      rg_diagnostics =
        [OptionalProviderMissing (PluginId ''x.orders'') (CapabilityId ''x.audit''),
         UnselectedOffer (PluginId ''x.quartz'') (CapabilityId ''x.clock'')],
      rg_startup_order = [PluginId ''x.quartz'', PluginId ''x.sundial'', PluginId ''x.orders'']\<rparr>"

lemma sample_wf: "\<forall>d \<in> set (spec_plugins sample_spec). descriptor_wf d"
  by code_simp

lemma sample_resolves: "resolve sample_matches sample_spec = Inr sample_graph"
  by code_simp

definition ambiguous_spec :: "(nat, nat) composition_spec" where
  "ambiguous_spec = sample_spec\<lparr>spec_bindings := []\<rparr>"

lemma ambiguous_wf: "\<forall>d \<in> set (spec_plugins ambiguous_spec). descriptor_wf d"
  by code_simp

lemma ambiguous_resolves: "resolve sample_matches ambiguous_spec =
    Inl (Err (AmbiguousProvider (PluginId ''x.orders'') (CapabilityId ''x.clock'')
      [PluginId ''x.quartz'', PluginId ''x.sundial'']))"
  by code_simp

section \<open>Resolution\<close>

text \<open>C1: \<open>resolve\<close> returns a graph exactly for the valid compositions, and then the graph the
  specification determines: all plugins in identity order, one entry per declared requirement with
  the selected providers, exactly the edges of those selections, exactly the two kinds of
  diagnostics, and the least topological startup order.\<close>

theorem resolve_iff:
  assumes "\<forall>d \<in> set (spec_plugins spec). descriptor_wf d"
  shows "resolve matches spec = Inr g \<longleftrightarrow> valid_composition matches spec \<and> resolves_to matches spec g"
  by (rule resolve_correct [OF assms])

theorem resolve_iff_witness:
  "valid_composition sample_matches sample_spec \<and> resolves_to sample_matches sample_spec sample_graph"
  using resolve_iff [OF sample_wf, of sample_matches sample_graph] sample_resolves by blast

text \<open>C8: \<open>resolve\<close> never panics, and when it fails, the error it returns describes a defect the
  composition has: every field of the error is what its constructor says it is.\<close>

theorem resolve_failure_explained:
  assumes "\<forall>d \<in> set (spec_plugins spec). descriptor_wf d" and "resolve matches spec = Inl f"
  shows "\<exists>e. f = Err e \<and> explains matches spec e"
  using resolve_error_explained [OF assms(1)] resolve_never_panics [OF assms(1), of matches] assms(2)
  by (cases f) auto

theorem resolve_failure_explained_witness:
  "\<exists>e. Err (AmbiguousProvider (PluginId ''x.orders'') (CapabilityId ''x.clock'')
          [PluginId ''x.quartz'', PluginId ''x.sundial'']) = Err e \<and> explains sample_matches ambiguous_spec e"
  by (rule resolve_failure_explained [OF ambiguous_wf ambiguous_resolves])

section \<open>Insertion order\<close>

lemma bound_provider_permute:
  assumes "distinct (map (\<lambda>b. (bind_consumer b, bind_capability b)) bs)" and "mset bs' = mset bs"
  shows "bound_provider bs' = bound_provider bs"
proof (intro ext)
  fix p c
  let ?key = "\<lambda>b. (bind_consumer b, bind_capability b)"
  have dist: "distinct (map ?key bs')"
    using assms by (metis mset_eq_imp_distinct_iff mset_map)
  have "map_of (map (\<lambda>b. (?key b, bind_provider b)) bs') = map_of (map (\<lambda>b. (?key b, bind_provider b)) bs)"
    using assms dist by (intro map_of_inject_set [THEN iffD2]) (auto simp: comp_def dest: mset_eq_setD)
  then have "map_of (map (\<lambda>b. (?key b, bind_provider b)) bs') (p, c) =
      map_of (map (\<lambda>b. (?key b, bind_provider b)) bs) (p, c)" by simp
  then show "bound_provider bs' p c = bound_provider bs p c"
    unfolding map_of_find bound_provider_def by simp
qed

lemma chosen_cong:
  assumes "set ds' = set ds" "bound_provider bs' = bound_provider bs"
  shows "chosen matches ds' bs' = chosen matches ds bs" and "satisfiable matches ds' bs' = satisfiable matches ds bs"
    and "dependency_edges matches ds' bs' = dependency_edges matches ds bs"
    and "expected_requirements matches ds' bs' = expected_requirements matches ds bs"
    and "expected_diagnostics matches ds' bs' = expected_diagnostics matches ds bs"
proof -
  have ids: "compatible_ids matches ds' r = compatible_ids matches ds r" for r
    unfolding compatible_ids_def by (rule ascending_unique) (simp_all add: assms(1))
  then show chosen: "chosen matches ds' bs' = chosen matches ds bs"
    by (intro ext) (simp add: chosen_def assms(2) split: option.split)
  show "satisfiable matches ds' bs' = satisfiable matches ds bs"
    by (intro ext) (simp add: satisfiable_def assms(2) ids split: option.split)
  show "dependency_edges matches ds' bs' = dependency_edges matches ds bs"
    unfolding dependency_edges_def by (rule ascending_unique) (simp_all add: assms(1) chosen)
  show "expected_requirements matches ds' bs' = expected_requirements matches ds bs"
    by (simp add: expected_requirements_def assms(1) chosen)
  show "expected_diagnostics matches ds' bs' = expected_diagnostics matches ds bs"
    by (simp add: expected_diagnostics_def assms(1) chosen)
qed

text \<open>C21: the graph does not depend on the order in which plugins and bindings were added.\<close>

theorem resolve_insertion_order:
  assumes "\<forall>d \<in> set (spec_plugins spec). descriptor_wf d" and "resolve matches spec = Inr g"
    and "mset ds = mset (spec_plugins spec)" and "mset bs = mset (spec_bindings spec)"
  shows "resolve matches (spec\<lparr>spec_plugins := ds, spec_bindings := bs\<rparr>) = Inr g"
proof -
  let ?spec = "spec\<lparr>spec_plugins := ds, spec_bindings := bs\<rparr>"
  have ds: "set ds = set (spec_plugins spec)" "length ds = length (spec_plugins spec)"
      "distinct (map pd_id ds) = distinct (map pd_id (spec_plugins spec))"
    using assms(3) by (metis mset_eq_setD, metis mset_eq_length, metis mset_eq_imp_distinct_iff mset_map)
  have ok: "valid_composition matches spec" "resolves_to matches spec g"
    using assms(1,2) resolve_correct by blast+
  have keys: "distinct (map (\<lambda>b. (bind_consumer b, bind_capability b)) (spec_bindings spec))"
    using ok(1) by (simp add: valid_composition_def Let_def bindings_ok_def)
  have bs: "set bs = set (spec_bindings spec)" using assms(4) by (rule mset_eq_setD)
  have "mset (map (\<lambda>b. (bind_consumer b, bind_capability b)) bs) =
      mset (map (\<lambda>b. (bind_consumer b, bind_capability b)) (spec_bindings spec))"
    using assms(4) by simp
  from mset_eq_imp_distinct_iff [OF this]
  have "bindings_ok ds bs = bindings_ok (spec_plugins spec) (spec_bindings spec)"
    unfolding bindings_ok_def ds(1) bs by simp
  moreover note cong = chosen_cong [OF ds(1) bound_provider_permute [OF keys assms(4)], of matches]
  ultimately have "valid_composition matches ?spec" "resolves_to matches ?spec g"
    using ok by (simp_all add: valid_composition_def resolves_to_def Let_def ds cong)
  then show ?thesis using assms(1) ds(1) by (intro resolve_correct [THEN iffD2]) simp_all
qed

theorem resolve_insertion_order_witness:
  "resolve sample_matches (sample_spec\<lparr>spec_plugins := rev (spec_plugins sample_spec),
     spec_bindings := spec_bindings sample_spec\<rparr>) = Inr sample_graph"
  by (rule resolve_insertion_order [OF sample_wf sample_resolves]) simp_all

section \<open>Queries\<close>

lemma then_with_cmp:
  "then_with (cmp a b) (cmp c d) = cmp (a, c) (b, d)"
  by (auto simp: then_with_def cmp_def)

text \<open>A binary search over strictly ascending keys finds the index of a key if there is one.\<close>

lemma binary_search_from_correct:
  assumes "ascending (map f xs)" and "hi \<le> length xs"
    and "\<forall>i < length xs. f (xs ! i) = k \<longrightarrow> lo \<le> i \<and> i < hi"
  shows "binary_search_from (\<lambda>x. cmp (f x) k) xs lo hi = Some i \<longleftrightarrow> i < length xs \<and> f (xs ! i) = k"
  using assms
proof (induction "\<lambda>x. cmp (f x) k" xs lo hi rule: binary_search_from.induct)
  case (1 xs lo hi)
  let ?mid = "(lo + hi) div 2"
  have less: "f (xs ! i) < f (xs ! j)" if "i < j" "j < length xs" for i j
    using "1.prems"(1) that by (simp add: sorted_wrt_iff_nth_less)
  show ?case
  proof (cases "hi \<le> lo")
    case True
    then show ?thesis using "1.prems"(3) by (auto simp: binary_search_from.simps)
  next
    case False
    then have mid: "lo \<le> ?mid" "?mid < hi" "?mid < length xs" using "1.prems"(2) by auto
    consider "f (xs ! ?mid) < k" | "f (xs ! ?mid) = k" | "k < f (xs ! ?mid)" by fastforce
    then show ?thesis
    proof cases
      case 1
      have "?mid < i" if "i < length xs" "f (xs ! i) = k" for i
        using that 1 less [of i ?mid] mid(3) by (cases i ?mid rule: linorder_cases) auto
      then have "\<forall>i < length xs. f (xs ! i) = k \<longrightarrow> ?mid + 1 \<le> i \<and> i < hi"
        using "1.prems"(3) by (simp add: Suc_le_eq)
      with "1.hyps"(1) [OF False refl] "1.prems"(1,2) 1 False show ?thesis
        by (subst binary_search_from.simps) (simp add: cmp_def Let_def)
    next
      case 2
      then have "i < length xs \<and> f (xs ! i) = k \<longleftrightarrow> i = ?mid"
        using less mid(3) by (metis less_irrefl linorder_neqE_nat)
      with 2 False show ?thesis
        by (subst binary_search_from.simps) (auto simp: cmp_def Let_def)
    next
      case 3
      have "i < ?mid" if "i < length xs" "f (xs ! i) = k" for i
        using that 3 less [of ?mid i] mid(3) by (cases i ?mid rule: linorder_cases) auto
      then have "\<forall>i < length xs. f (xs ! i) = k \<longrightarrow> lo \<le> i \<and> i < ?mid"
        using "1.prems"(3) by simp
      moreover have "?mid \<le> length xs" using mid by simp
      ultimately show ?thesis
        using "1.hyps"(2) [OF False refl] "1.prems"(1) 3 False
        by (subst binary_search_from.simps) (auto simp: cmp_def Let_def)
    qed
  qed
qed

lemma requirement_lookup:
  assumes "ascending (map requirement_key (rg_requirements g))"
  shows "requirement g p c = Some r \<longleftrightarrow> r \<in> set (rg_requirements g) \<and> requirement_key r = (p, c)"
proof -
  let ?rs = "rg_requirements g"
  have "requirement g p c = map_option (\<lambda>i. ?rs ! i)
      (binary_search_from (\<lambda>r. cmp (requirement_key r) (p, c)) ?rs 0 (length ?rs))"
    by (simp add: requirement_def requirement_key_def then_with_cmp)
  then have "requirement g p c = Some r \<longleftrightarrow>
      (\<exists>i < length ?rs. requirement_key (?rs ! i) = (p, c) \<and> ?rs ! i = r)"
    using binary_search_from_correct [OF assms, of "length ?rs" "(p, c)" 0] by auto
  then show ?thesis by (auto simp: in_set_conv_nth)
qed

text \<open>On a resolved graph, \<open>requirement\<close> finds exactly the declared requirements: it returns an
  entry for a plugin and a capability if and only if that plugin declares a requirement for the
  capability, and the entry carries its cardinality and its selected providers.\<close>

lemma requirement_lookup_exact:
  assumes "\<forall>d \<in> set (spec_plugins spec). descriptor_wf d" and "resolve matches spec = Inr g"
  shows "requirement g p c = Some r \<longleftrightarrow>
    (\<exists>d \<in> set (spec_plugins spec). \<exists>q \<in> set (requires d). pd_id d = p \<and> req_id q = c \<and>
       r = \<lparr>rr_consumer = p, rr_capability = c, rr_cardinality = req_cardinality q,
            rr_providers = chosen matches (spec_plugins spec) (spec_bindings spec) d q\<rparr>)"
proof -
  have g: "resolves_to matches spec g" using resolve_correct [OF assms(1)] assms(2) by blast
  then have "ascending (map requirement_key (rg_requirements g))"
    and rs: "set (rg_requirements g) = expected_requirements matches (spec_plugins spec) (spec_bindings spec)"
    by (simp_all add: resolves_to_def Let_def)
  note lookup = requirement_lookup [OF this(1), of p c r]
  show ?thesis
    unfolding lookup rs expected_requirements_def requirement_key_def by (auto, blast)
qed

theorem requirement_lookup_exact_witness:
  "requirement sample_graph (PluginId ''x.orders'') (CapabilityId ''x.clock'') =
     Some \<lparr>rr_consumer = PluginId ''x.orders'', rr_capability = CapabilityId ''x.clock'',
       rr_cardinality = ExactlyOne, rr_providers = [PluginId ''x.sundial'']\<rparr>"
proof -
  have "orders_plugin \<in> set (spec_plugins sample_spec)"
    and "exactly_one (CapabilityId ''x.clock'') 2 \<in> set (requires orders_plugin)"
    and "pd_id orders_plugin = PluginId ''x.orders''"
    and "chosen sample_matches (spec_plugins sample_spec) (spec_bindings sample_spec) orders_plugin
      (exactly_one (CapabilityId ''x.clock'') 2) = [PluginId ''x.sundial'']"
    by code_simp+
  then show ?thesis
    unfolding requirement_lookup_exact [OF sample_wf sample_resolves]
    by (intro bexI [of _ orders_plugin] bexI [of _ "exactly_one (CapabilityId ''x.clock'') 2"])
       (simp_all add: exactly_one_def)
qed

definition precedes :: "'a list \<Rightarrow> 'a \<Rightarrow> 'a \<Rightarrow> bool" where
  "precedes xs a b \<longleftrightarrow> (\<exists>us vs ws. xs = us @ a # vs @ b # ws)"

lemma topological_precedes:
  assumes "topological N pre xs" "b \<in> N" "a \<in> pre b"
  shows "precedes xs a b"
proof -
  from assms obtain us ws where xs: "xs = us @ b # ws" unfolding topological_def by (metis split_list)
  with assms have "a \<in> set us" unfolding topological_def by blast
  then obtain ps qs where "us = ps @ a # qs" by (meson split_list)
  with xs show ?thesis by (auto simp: precedes_def)
qed

lemma precedes_rev: "precedes xs a b \<Longrightarrow> precedes (rev xs) b a"
proof -
  assume "precedes xs a b"
  then obtain us vs ws where "xs = us @ a # vs @ b # ws" unfolding precedes_def by blast
  then have "rev xs = rev ws @ b # rev vs @ a # rev us" by simp
  then show ?thesis unfolding precedes_def by blast
qed

text \<open>A resolved graph starts every plugin once, providers before their consumers, and tears
  them down in the exact reverse order, consumers before their providers.\<close>

lemma lifecycle_orders:
  assumes "\<forall>d \<in> set (spec_plugins spec). descriptor_wf d" and "resolve matches spec = Inr g"
    and "e \<in> set (rg_edges g)"
  shows "distinct (rg_startup_order g) \<and> set (rg_startup_order g) = pd_id ` set (spec_plugins spec) \<and>
    teardown_order g = rev (rg_startup_order g) \<and>
    precedes (rg_startup_order g) (edge_provider e) (edge_consumer e) \<and>
    precedes (teardown_order g) (edge_consumer e) (edge_provider e)"
proof -
  let ?N = "pd_id ` set (spec_plugins spec)"
  have "resolves_to matches spec g" using resolve_correct [OF assms(1)] assms(2) by blast
  then have edges: "rg_edges g = dependency_edges matches (spec_plugins spec) (spec_bindings spec)"
    and top: "topological ?N (edge_preds (rg_edges g)) (rg_startup_order g)"
    by (simp_all add: resolves_to_def Let_def least_topological_def)
  have "edge_consumer e \<in> ?N" using assms(3) unfolding edges by (auto simp: dependency_edges_def)
  moreover have "edge_provider e \<in> edge_preds (rg_edges g) (edge_consumer e)"
    using assms(3) by (auto simp: edge_preds_def)
  ultimately have "precedes (rg_startup_order g) (edge_provider e) (edge_consumer e)"
    by (rule topological_precedes [OF top])
  with top show ?thesis by (simp add: topological_def teardown_order_def precedes_rev)
qed

theorem lifecycle_orders_witness:
  "precedes (teardown_order sample_graph) (PluginId ''x.orders'') (PluginId ''x.sundial'')"
proof -
  have "ResolvedEdge (PluginId ''x.sundial'') (PluginId ''x.orders'') (CapabilityId ''x.clock'') \<in> set (rg_edges sample_graph)"
    by (simp add: sample_graph_def)
  from lifecycle_orders [OF sample_wf sample_resolves this] show ?thesis
    unfolding resolved_edge.sel by blast
qed

end
