(* ===== verification/Report.thy ===== *)
theory Report
  imports Resolve_Props
begin

text \<open>
  \<open>GraphReport::accept\<close> and \<open>validate_report\<close> of \<open>kernox-core/src/graph.rs\<close>: the check a decoded
  report passes before it is used. The theorems say exactly what is accepted, that every report
  of a resolved graph is, and which malformed lifecycle is accepted as well.
\<close>

section \<open>The checks\<close>

definition validate_report_schema :: "u32 \<Rightarrow> ('v, 'q) resolve_error + unit" where
  "validate_report_schema actual =
     (if actual = GRAPH_REPORT_SCHEMA_VERSION then Inr ()
      else Inl (UnsupportedReportSchemaVersion actual GRAPH_REPORT_SCHEMA_VERSION))"

definition insert_report_plugin ::
  "'v plugin_summary \<Rightarrow> plugin_id btree_set \<Rightarrow> ('v, 'q) resolve_error + plugin_id btree_set" where
  "insert_report_plugin summary plugins =
     (if bs_contains plugins (ps_id summary) then Inl (DuplicateReportPlugin (ps_id summary))
      else Inr (bs_insert (ps_id summary) plugins))"

definition validate_report_startup ::
  "plugin_id btree_set \<Rightarrow> plugin_id list \<Rightarrow> ('v, 'q) resolve_error + unit" where
  "validate_report_startup plugins startup =
     (if length startup \<noteq> length plugins \<or> (\<exists>p \<in> set startup. \<not> bs_contains plugins p) then
        (case (case find (\<lambda>p. \<not> bs_contains plugins p) startup of
                 Some p \<Rightarrow> Some p
               | None \<Rightarrow> find (\<lambda>p. p \<notin> set startup) plugins) of
           Some p \<Rightarrow> Inl (UnknownReportPlugin p)
         | None \<Rightarrow> Inl InconsistentReportLifecycle)
      else Inr ())"

definition validate_report_teardown ::
  "plugin_id list \<Rightarrow> plugin_id list \<Rightarrow> ('v, 'q) resolve_error + unit" where
  "validate_report_teardown startup teardown =
     (if length teardown \<noteq> length startup \<or> (\<exists>(actual, expected) \<in> set (zip teardown (rev startup)). actual \<noteq> expected)
      then Inl InconsistentReportLifecycle else Inr ())"

fun diagnostic_plugin :: "graph_diagnostic \<Rightarrow> plugin_id" where
  "diagnostic_plugin (OptionalProviderMissing consumer _) = consumer"
| "diagnostic_plugin (UnselectedOffer provider _) = provider"

definition report_relation_plugins :: "'v graph_report \<Rightarrow> plugin_id list" where
  "report_relation_plugins r =
     concat (map (\<lambda>q. rr_consumer q # rr_providers q) (rep_requirements r)) @
     concat (map (\<lambda>e. [edge_provider e, edge_consumer e]) (rep_edges r)) @
     map diagnostic_plugin (rep_diagnostics r)"

definition validate_report :: "'v graph_report \<Rightarrow> ('v, 'q) resolve_error + unit" where
  "validate_report r =
     and_then (validate_report_schema (rep_schema_version r)) (\<lambda>_.
     and_then (for_each insert_report_plugin (rep_plugins r) []) (\<lambda>plugins.
     and_then (validate_report_startup plugins (rep_startup_order r)) (\<lambda>_.
     and_then (validate_report_teardown (rep_startup_order r) (rep_teardown_order r)) (\<lambda>_.
     for_each (\<lambda>p _. if \<not> bs_contains plugins p then Inl (UnknownReportPlugin p) else Inr ())
       (report_relation_plugins r) ()))))"

definition accept_report :: "'v graph_report \<Rightarrow> ('v, 'q) resolve_error + 'v graph_report" where
  "accept_report r = and_then (validate_report r) (\<lambda>_. Inr r)"

section \<open>What the checks accept\<close>

lemma insert_report_plugin_once:
  "bset.inserts_once insert_report_plugin (\<lambda>_. None) (\<lambda>s. DuplicateReportPlugin (ps_id s)) ps_id (\<lambda>_. ()) X"
  by (simp add: bset.inserts_once_def insert_report_plugin_def)

lemma report_plugins_ok:
  "(\<exists>s. for_each insert_report_plugin ps [] = Inr s) \<longleftrightarrow> distinct (map ps_id ps)"
  "for_each insert_report_plugin ps [] = Inr s \<Longrightarrow> set s = ps_id ` set ps \<and> length s = length ps"
proof -
  show iff: "(\<exists>s. for_each insert_report_plugin ps [] = Inr s) \<longleftrightarrow> distinct (map ps_id ps)"
    using bset_loop_ok [OF insert_report_plugin_once] by simp
  assume run: "for_each insert_report_plugin ps [] = Inr s"
  note s = bset_loop_elements [OF insert_report_plugin_once run]
  have "length s = card (set s)" using ascending_distinct [OF s(1)] by (simp add: distinct_card)
  also have "\<dots> = length (map ps_id ps)"
    using iff run s(2) by (metis distinct_card set_map)
  finally show "set s = ps_id ` set ps \<and> length s = length ps" using s(2) by simp
qed

lemma validate_report_startup_ok:
  "validate_report_startup plugins startup = Inr () \<longleftrightarrow>
     length startup = length plugins \<and> set startup \<subseteq> set plugins"
  by (auto simp: validate_report_startup_def split: option.splits)

lemma validate_report_teardown_ok:
  "validate_report_teardown startup teardown = Inr () \<longleftrightarrow> teardown = rev startup"
proof -
  have "(\<forall>(a, b) \<in> set (zip xs ys). a = b) \<longleftrightarrow> xs = ys" if "length xs = length ys" for xs ys :: "plugin_id list"
    using that by (induction xs ys rule: list_induct2) auto
  from this [of teardown "rev startup"] show ?thesis
    by (auto simp: validate_report_teardown_def)
qed

definition acceptable_report :: "'v graph_report \<Rightarrow> bool" where
  "acceptable_report r \<longleftrightarrow>
     rep_schema_version r = 1 \<and> distinct (map ps_id (rep_plugins r)) \<and>
     length (rep_startup_order r) = length (rep_plugins r) \<and>
     set (rep_startup_order r) \<subseteq> ps_id ` set (rep_plugins r) \<and>
     rep_teardown_order r = rev (rep_startup_order r) \<and>
     set (report_relation_plugins r) \<subseteq> ps_id ` set (rep_plugins r)"

lemma accept_report_ok:
  fixes r :: "'v graph_report"
  shows "accept_report r = (Inr r' :: ('v, 'q) resolve_error + _) \<longleftrightarrow> r' = r \<and> acceptable_report r"
proof -
  have "validate_report r = (Inr () :: ('v, 'q) resolve_error + _) \<longleftrightarrow> rep_schema_version r = 1 \<and>
      (\<exists>s. for_each insert_report_plugin (rep_plugins r) [] = (Inr s :: ('v, 'q) resolve_error + _) \<and>
        validate_report_startup s (rep_startup_order r) = (Inr () :: ('v, 'q) resolve_error + _) \<and>
        validate_report_teardown (rep_startup_order r) (rep_teardown_order r) = (Inr () :: ('v, 'q) resolve_error + _) \<and>
        set (report_relation_plugins r) \<subseteq> set s)"
    by (auto simp: validate_report_def result_simps for_each_unit_ok validate_report_schema_def
        GRAPH_REPORT_SCHEMA_VERSION_def split: if_splits)
  also have "\<dots> \<longleftrightarrow> acceptable_report r"
    unfolding validate_report_startup_ok validate_report_teardown_ok acceptable_report_def
    using report_plugins_ok by metis
  finally show ?thesis by (auto simp: accept_report_def result_simps)
qed

text \<open>C23: a decoded report is accepted exactly when its schema is version 1, its plugin identities
  are unique, its startup order has as many entries as there are plugins and names only plugins of
  the report, its teardown order is the exact reverse, and every requirement, edge and diagnostic
  names plugins of the report; it is returned unchanged.\<close>

theorem accept_report_iff: "accept_report r = Inr r' \<longleftrightarrow> r' = r \<and> acceptable_report r"
  by (rule accept_report_ok)

lemma resolved_report_acceptable:
  assumes "resolves_to matches spec g" "valid_composition matches spec"
  shows "acceptable_report (report g)"
proof -
  let ?ds = "spec_plugins spec" and ?bs = "spec_bindings spec"
  let ?N = "pd_id ` set ?ds"
  have wf: "bm_wf (rg_plugins g)" and ps: "set (rg_plugins g) = (\<lambda>d. (pd_id d, d)) ` set ?ds"
    and rs: "set (rg_requirements g) = expected_requirements matches ?ds ?bs"
    and es: "rg_edges g = dependency_edges matches ?ds ?bs"
    and diags: "set (rg_diagnostics g) = expected_diagnostics matches ?ds ?bs"
    and top: "topological ?N (edge_preds (rg_edges g)) (rg_startup_order g)"
    using assms(1) by (simp_all add: resolves_to_def Let_def least_topological_def)
  have keys: "map ps_id (rep_plugins (report g)) = bm_keys (rg_plugins g)"
  proof -
    have "\<forall>x \<in> set (rg_plugins g). pd_id (snd x) = fst x" unfolding ps by auto
    then show ?thesis by (simp add: report_def bm_values_def bm_keys_def)
  qed
  have ids: "set (bm_keys (rg_plugins g)) = ?N" using ps by (auto simp: bm_keys_def image_image)
  have len: "length (rg_startup_order g) = length (bm_keys (rg_plugins g))"
    using top bm_wf_distinct [OF wf] ids unfolding topological_def by (metis distinct_card)
  have chosen: "p \<in> ?N" if "d \<in> set ?ds" "r \<in> set (requires d)" "p \<in> set (chosen matches ?ds ?bs d r)" for p d r
  proof -
    have bound: "\<forall>b \<in> set ?bs. bind_provider b \<in> ?N"
      using assms(2) by (simp add: valid_composition_def Let_def bindings_ok_def)
    show ?thesis
    proof (cases "bound_provider ?bs (pd_id d) (req_id r)")
      case None
      with that(3) show ?thesis by (auto simp: chosen_def set_compatible_ids)
    next
      case (Some q)
      with that(3) bound bound_provider_Some [OF Some] show ?thesis by (auto simp: chosen_def)
    qed
  qed
  have "\<forall>q \<in> set (rg_requirements g). rr_consumer q \<in> ?N \<and> set (rr_providers q) \<subseteq> ?N"
    unfolding rs expected_requirements_def using chosen by auto
  moreover have "\<forall>e \<in> set (rg_edges g). edge_provider e \<in> ?N \<and> edge_consumer e \<in> ?N"
    unfolding es dependency_edges_def using chosen by auto
  moreover have "\<forall>d \<in> set (rg_diagnostics g). diagnostic_plugin d \<in> ?N"
    unfolding diags expected_diagnostics_def by auto
  ultimately have "set (report_relation_plugins (report g)) \<subseteq> ?N"
    by (auto simp: report_relation_plugins_def report_def)
  moreover have "ps_id ` set (rep_plugins (report g)) = ?N"
    using keys ids by (metis set_map)
  moreover have "distinct (map ps_id (rep_plugins (report g)))"
    unfolding keys by (rule bm_wf_distinct [OF wf])
  moreover have "length (rep_startup_order (report g)) = length (rep_plugins (report g))"
    using len by (simp add: report_def bm_values_def bm_keys_def)
  ultimately show ?thesis
    using top by (simp add: acceptable_report_def topological_def report_def GRAPH_REPORT_SCHEMA_VERSION_def)
qed

text \<open>The report of every resolved graph passes the check and comes back unchanged.\<close>

lemma resolved_report_accepted:
  assumes "\<forall>d \<in> set (spec_plugins spec). descriptor_wf d" and "resolve matches spec = Inr g"
  shows "accept_report (report g) = Inr (report g)"
  using resolve_correct [OF assms(1)] assms(2) resolved_report_acceptable
  unfolding accept_report_ok by blast

theorem resolved_report_accepted_witness:
  "accept_report (report sample_graph) = Inr (report sample_graph)"
  by (rule resolved_report_accepted [OF sample_wf sample_resolves])

text \<open>The check does not establish that the startup order lists every plugin once: a repeated
  entry can take the place of an omitted plugin.\<close>

definition replaced_in_lifecycle :: "plugin_id \<Rightarrow> plugin_id \<Rightarrow> 'v graph_report \<Rightarrow> 'v graph_report" where
  \<comment> \<open>every \<open>q\<close> of the startup order is made a \<open>p\<close>, and the teardown order its reverse\<close>
  "replaced_in_lifecycle p q r =
     (let startup = map (\<lambda>x. if x = q then p else x) (rep_startup_order r)
      in r\<lparr>rep_startup_order := startup, rep_teardown_order := rev startup\<rparr>)"

text \<open>C24: in any accepted report any plugin can take the place of any other one in the lifecycle: the
  report then repeats a plugin in its startup order and omits one it lists, and is accepted all the
  same.\<close>

theorem accept_report_repeated_startup:
  fixes r :: "'v graph_report"
  assumes "accept_report r = (Inr r :: ('v, 'q) resolve_error + _)"
    and "p \<in> ps_id ` set (rep_plugins r)" and "q \<in> ps_id ` set (rep_plugins r)" and "p \<noteq> q"
  shows "accept_report (replaced_in_lifecycle p q r) = (Inr (replaced_in_lifecycle p q r) :: ('v, 'q) resolve_error + _) \<and>
    \<not> distinct (rep_startup_order (replaced_in_lifecycle p q r)) \<and>
    q \<in> ps_id ` set (rep_plugins (replaced_in_lifecycle p q r)) \<and>
    q \<notin> set (rep_startup_order (replaced_in_lifecycle p q r))"
proof -
  let ?ids = "ps_id ` set (rep_plugins r)" and ?r = "replaced_in_lifecycle p q r"
  have ok: "acceptable_report r" using assms(1) by (simp add: accept_report_ok)
  have known: "set (rep_startup_order r) \<subseteq> ?ids" using ok by (simp add: acceptable_report_def)
  have startup: "set (rep_startup_order ?r) \<subseteq> ?ids - {q}"
    using known assms(2,4) by (auto simp: replaced_in_lifecycle_def Let_def)
  have "length (rep_startup_order ?r) = card ?ids"
    using ok distinct_card [of "map ps_id (rep_plugins r)"]
    by (simp add: acceptable_report_def replaced_in_lifecycle_def Let_def)
  moreover have "card (set (rep_startup_order ?r)) < card ?ids"
    using startup assms(3) by (intro psubset_card_mono) auto
  ultimately have "\<not> distinct (rep_startup_order ?r)" by (metis distinct_card less_irrefl)
  moreover have "acceptable_report ?r"
    using ok startup by (auto simp: acceptable_report_def replaced_in_lifecycle_def Let_def report_relation_plugins_def)
  ultimately show ?thesis
    using startup assms(3) by (auto simp: accept_report_ok replaced_in_lifecycle_def Let_def)
qed

definition pair_report :: "nat graph_report" where
  "pair_report =
     \<lparr>rep_schema_version = 1,
      rep_plugins = [\<lparr>ps_id = PluginId ''x.a'', ps_version = 1\<rparr>, \<lparr>ps_id = PluginId ''x.b'', ps_version = 1\<rparr>],
      rep_requirements = [], rep_edges = [], rep_diagnostics = [],
      rep_startup_order = [PluginId ''x.a'', PluginId ''x.b''],
      rep_teardown_order = [PluginId ''x.b'', PluginId ''x.a'']\<rparr>"

lemma accept_report_repeated_startup_witness:
  "rep_startup_order (replaced_in_lifecycle (PluginId ''x.a'') (PluginId ''x.b'') pair_report) =
     [PluginId ''x.a'', PluginId ''x.a''] \<and>
   accept_report (replaced_in_lifecycle (PluginId ''x.a'') (PluginId ''x.b'') pair_report) =
     (Inr (replaced_in_lifecycle (PluginId ''x.a'') (PluginId ''x.b'') pair_report) :: (nat, nat) resolve_error + _)"
proof -
  have "accept_report pair_report = (Inr pair_report :: (nat, nat) resolve_error + _)"
    by (simp add: accept_report_ok acceptable_report_def pair_report_def report_relation_plugins_def)
  moreover have "PluginId ''x.a'' \<in> ps_id ` set (rep_plugins pair_report)" "PluginId ''x.b'' \<in> ps_id ` set (rep_plugins pair_report)"
    by (simp_all add: pair_report_def)
  ultimately have "accept_report (replaced_in_lifecycle (PluginId ''x.a'') (PluginId ''x.b'') pair_report) =
      (Inr (replaced_in_lifecycle (PluginId ''x.a'') (PluginId ''x.b'') pair_report) :: (nat, nat) resolve_error + _)"
    using accept_report_repeated_startup by fastforce
  moreover have "rep_startup_order (replaced_in_lifecycle (PluginId ''x.a'') (PluginId ''x.b'') pair_report) =
      [PluginId ''x.a'', PluginId ''x.a'']"
    by (simp add: replaced_in_lifecycle_def pair_report_def Let_def)
  ultimately show ?thesis by blast
qed

end
