(* ===== verification/Decoding.thy ===== *)
theory Decoding
  imports Report
begin

text \<open>
  The conversions of \<open>id.rs\<close>, \<open>descriptor.rs\<close> and \<open>graph.rs\<close> between values and their text or decoded
  form. The format, that is the derived part of \<open>serde\<close>, is a parameter: \<open>decoded\<close> is what it
  made of its input or its error, and \<open>custom\<close> is \<open>serde::de::Error::custom\<close>. Every way in goes
  through the validating constructor, so nothing unvalidated gets in.
\<close>

section \<open>Identifiers\<close>

definition plugin_id_into_string :: "plugin_id \<Rightarrow> str" where
  "plugin_id_into_string self = (case self of PluginId value \<Rightarrow> value)"

definition plugin_id_display :: "plugin_id \<Rightarrow> str" where
  "plugin_id_display self = plugin_id_as_str self"

definition plugin_id_from_str :: "str \<Rightarrow> identifier_error + plugin_id" where
  "plugin_id_from_str value = plugin_id_new value"

definition plugin_id_try_from :: "str \<Rightarrow> identifier_error + plugin_id" where
  "plugin_id_try_from value = plugin_id_new value"

definition plugin_id_serialize :: "(str \<Rightarrow> 's) \<Rightarrow> plugin_id \<Rightarrow> 's" where
  "plugin_id_serialize serialize_str self = serialize_str (plugin_id_as_str self)"

definition plugin_id_deserialize :: "(identifier_error \<Rightarrow> 'e) \<Rightarrow> 'e + str \<Rightarrow> 'e + plugin_id" where
  "plugin_id_deserialize custom decoded =
     and_then decoded (\<lambda>value. map_err custom (plugin_id_new value))"

definition capability_id_into_string :: "capability_id \<Rightarrow> str" where
  "capability_id_into_string self = (case self of CapabilityId value \<Rightarrow> value)"

definition capability_id_display :: "capability_id \<Rightarrow> str" where
  "capability_id_display self = capability_id_as_str self"

definition capability_id_from_str :: "str \<Rightarrow> identifier_error + capability_id" where
  "capability_id_from_str value = capability_id_new value"

definition capability_id_try_from :: "str \<Rightarrow> identifier_error + capability_id" where
  "capability_id_try_from value = capability_id_new value"

definition capability_id_serialize :: "(str \<Rightarrow> 's) \<Rightarrow> capability_id \<Rightarrow> 's" where
  "capability_id_serialize serialize_str self = serialize_str (capability_id_as_str self)"

definition capability_id_deserialize :: "(identifier_error \<Rightarrow> 'e) \<Rightarrow> 'e + str \<Rightarrow> 'e + capability_id" where
  "capability_id_deserialize custom decoded =
     and_then decoded (\<lambda>value. map_err custom (capability_id_new value))"

section \<open>Sources and reports\<close>

record source_wire =
  sw_package :: utext
  sw_repository :: "utext option"

definition plugin_source_deserialize ::
  "(descriptor_error \<Rightarrow> 'e) \<Rightarrow> 'e + source_wire \<Rightarrow> 'e + plugin_source" where
  "plugin_source_deserialize custom decoded =
     and_then decoded (\<lambda>wire. map_err custom (plugin_source_new (sw_package wire) (sw_repository wire)))"

definition graph_report_deserialize ::
  "(('v, 'q) resolve_error \<Rightarrow> 'e) \<Rightarrow> 'e + 'v graph_report \<Rightarrow> 'e + 'v graph_report" where
  \<comment> \<open>the wire structure has the fields of the report\<close>
  "graph_report_deserialize custom decoded =
     and_then decoded (\<lambda>wire. map_err custom (accept_report wire))"

section \<open>Nothing unvalidated gets in\<close>

lemma plugin_id_new_iff: "plugin_id_new v = Inr p \<longleftrightarrow> canonical_identifier v \<and> p = PluginId v"
  by (auto simp: plugin_id_new_def result_simps validate_identifier_ok)

lemma capability_id_new_iff: "capability_id_new v = Inr c \<longleftrightarrow> canonical_identifier v \<and> c = CapabilityId v"
  by (auto simp: capability_id_new_def result_simps validate_identifier_ok)

text \<open>Every conversion into an identifier accepts exactly the canonical texts and keeps the text, so each
  is inverse to the conversions back.\<close>

lemma plugin_id_conversions:
  "plugin_id_from_str v = Inr p \<longleftrightarrow> canonical_identifier v \<and> plugin_id_display p = v"
  "plugin_id_try_from v = Inr p \<longleftrightarrow> canonical_identifier v \<and> plugin_id_into_string p = v"
  "plugin_id_deserialize custom (plugin_id_serialize Inr p) = Inr p \<longleftrightarrow> canonical_identifier (plugin_id_as_str p)"
  "plugin_id_deserialize custom decoded = Inr p \<longleftrightarrow>
     decoded = Inr (plugin_id_as_str p) \<and> canonical_identifier (plugin_id_as_str p)"
  by (cases p; auto simp: plugin_id_from_str_def plugin_id_try_from_def plugin_id_deserialize_def plugin_id_serialize_def
    plugin_id_display_def plugin_id_into_string_def plugin_id_new_iff result_simps)+

lemma capability_id_conversions:
  "capability_id_from_str v = Inr c \<longleftrightarrow> canonical_identifier v \<and> capability_id_display c = v"
  "capability_id_try_from v = Inr c \<longleftrightarrow> canonical_identifier v \<and> capability_id_into_string c = v"
  "capability_id_deserialize custom (capability_id_serialize Inr c) = Inr c \<longleftrightarrow> canonical_identifier (capability_id_as_str c)"
  "capability_id_deserialize custom decoded = Inr c \<longleftrightarrow>
     decoded = Inr (capability_id_as_str c) \<and> canonical_identifier (capability_id_as_str c)"
  by (cases c; auto simp: capability_id_from_str_def capability_id_try_from_def capability_id_deserialize_def
    capability_id_serialize_def capability_id_display_def capability_id_into_string_def capability_id_new_iff result_simps)+

lemma plugin_source_deserialize_iff:
  "plugin_source_deserialize custom decoded = Inr s \<longleftrightarrow>
     (\<exists>wire. decoded = Inr wire \<and> source_field_ok (sw_package wire) 255 \<and>
        (case sw_repository wire of None \<Rightarrow> True | Some r \<Rightarrow> source_field_ok r 2048) \<and>
        s = \<lparr>src_package = sw_package wire, src_repository = sw_repository wire\<rparr>)"
  by (auto simp: plugin_source_deserialize_def result_simps plugin_source_new_iff)

text \<open>What a resolved graph reports is decoded again, and only acceptable reports are decoded.\<close>

lemma graph_report_deserialize_iff:
  "graph_report_deserialize custom decoded = Inr r \<longleftrightarrow> decoded = Inr r \<and> acceptable_report r"
  by (auto simp: graph_report_deserialize_def result_simps accept_report_ok)

lemma resolved_report_decodes:
  assumes "\<forall>d \<in> set (spec_plugins spec). descriptor_wf d" and "resolve matches spec = Inr g"
  shows "graph_report_deserialize custom (Inr (report g)) = Inr (report g)"
  using resolved_report_accepted [OF assms] by (simp add: graph_report_deserialize_iff accept_report_ok)

end
