(* ===== verification/Attribution.thy ===== *)
theory Attribution
  imports Graph_Types
begin

text \<open>
  \<open>kernox-core/src/attribution.rs\<close>: the source-attribution check over a resolved graph that the
  test kit and the command line share.
\<close>

definition MINIMUM_VERIFIED_PLUGINS :: nat where "MINIMUM_VERIFIED_PLUGINS = 3"

record attribution_report =
  att_plugin_count :: nat
  att_source_packages :: "utext list"

datatype attribution_error =
    TooFewPlugins nat nat             \<comment> \<open>actual, minimum\<close>
  | MissingSource plugin_id
  | DuplicateSourcePackage utext

fun attribution_error_tag :: "attribution_error \<Rightarrow> str" where
  "attribution_error_tag (TooFewPlugins _ _) = ''conformance.too-few-plugins''"
| "attribution_error_tag (MissingSource _) = ''conformance.missing-source''"
| "attribution_error_tag (DuplicateSourcePackage _) = ''conformance.duplicate-source-package''"

definition attribute_plugin ::
  "('v, 'q) plugin_descriptor \<Rightarrow> utext btree_set \<times> utext list
     \<Rightarrow> attribution_error + utext btree_set \<times> utext list" where
  "attribute_plugin descriptor st =
     (case pd_source descriptor of
        None \<Rightarrow> Inl (MissingSource (pd_id descriptor))
      | Some source \<Rightarrow>
          if src_repository source = None then Inl (MissingSource (pd_id descriptor))
          else if bs_contains (fst st) (src_package source) then
            Inl (DuplicateSourcePackage (src_package source))
          else Inr (bs_insert (src_package source) (fst st), snd st @ [src_package source]))"

definition verify_graph_attribution ::
  "('v, 'q) resolved_graph \<Rightarrow> attribution_error + attribution_report" where
  "verify_graph_attribution graph =
     (let descriptors = bm_values (rg_plugins graph); plugin_count = length descriptors
      in if plugin_count < MINIMUM_VERIFIED_PLUGINS then
           Inl (TooFewPlugins plugin_count MINIMUM_VERIFIED_PLUGINS)
         else and_then (for_each attribute_plugin descriptors ([], [])) (\<lambda>st.
           Inr \<lparr>att_plugin_count = plugin_count, att_source_packages = snd st\<rparr>))"

section \<open>Facts\<close>

definition package_of :: "('v, 'q) plugin_descriptor \<Rightarrow> utext option" where
  \<comment> \<open>the package of a completely attributed plugin\<close>
  "package_of d = (case pd_source d of None \<Rightarrow> None
     | Some s \<Rightarrow> if src_repository s = None then None else Some (src_package s))"

lemma attribute_plugin_cases:
  "attribute_plugin d st = (case package_of d of
     None \<Rightarrow> Inl (MissingSource (pd_id d))
   | Some p \<Rightarrow> if p \<in> set (fst st) then Inl (DuplicateSourcePackage p)
       else Inr (bs_insert p (fst st), snd st @ [p]))"
  by (auto simp: attribute_plugin_def package_of_def split: option.splits)

lemma attribute_plugins_ok:
  "for_each attribute_plugin ds (s, ps) = Inr st \<longleftrightarrow>
     (\<forall>d \<in> set ds. package_of d \<noteq> None) \<and>
     distinct (map package_of ds) \<and> (\<forall>d \<in> set ds. the (package_of d) \<notin> set s) \<and>
     st = (fold bs_insert (map (the \<circ> package_of) ds) s, ps @ map (the \<circ> package_of) ds)"
proof (induction ds arbitrary: s ps)
  case (Cons d ds)
  show ?case
  proof (cases "package_of d")
    case (Some p)
    have other: "package_of d' = Some p \<longleftrightarrow> the (package_of d') = p" if "package_of d' \<noteq> None" for d'
      using that by (cases "package_of d'") auto
    have "(\<forall>d' \<in> set ds. package_of d' \<noteq> None) \<Longrightarrow>
        Some p \<notin> package_of ` set ds \<longleftrightarrow> (\<forall>d' \<in> set ds. the (package_of d') \<noteq> p)"
      using other by (force simp: image_iff)
    then show ?thesis
      using Some Cons.IH [of "bs_insert p s" "ps @ [p]"]
      by (auto simp: attribute_plugin_cases)
  qed (simp add: attribute_plugin_cases)
qed auto

definition attributed :: "('v, 'q) resolved_graph \<Rightarrow> bool" where
  "attributed g \<longleftrightarrow> 3 \<le> length (rg_plugins g) \<and>
     (\<forall>d \<in> set (bm_values (rg_plugins g)). package_of d \<noteq> None) \<and>
     distinct (map package_of (bm_values (rg_plugins g)))"

lemma verify_graph_attribution_ok:
  "verify_graph_attribution g = Inr r \<longleftrightarrow> attributed g \<and>
     r = \<lparr>att_plugin_count = length (rg_plugins g),
          att_source_packages = map (the \<circ> package_of) (bm_values (rg_plugins g))\<rparr>"
proof -
  have "length (bm_values (rg_plugins g)) = length (rg_plugins g)" by (simp add: bm_values_def)
  then show ?thesis
    by (auto simp: verify_graph_attribution_def attributed_def MINIMUM_VERIFIED_PLUGINS_def Let_def
        result_simps attribute_plugins_ok)
qed

text \<open>The attribution check succeeds exactly when the graph has at least three plugins, each has
  a source with a package and a repository, and no two share a package; the report then lists the
  packages in plugin identity order.\<close>

lemma verify_graph_attribution_iff:
  "verify_graph_attribution g = Inr r \<longleftrightarrow> attributed g \<and>
     r = \<lparr>att_plugin_count = length (rg_plugins g),
          att_source_packages = map (the \<circ> package_of) (bm_values (rg_plugins g))\<rparr>"
  by (rule verify_graph_attribution_ok)

end
