(* ===== verification/Scope.thy ===== *)
theory Scope
  imports Kernox_Prelude
begin

text \<open>
  \<open>kernox-runtime/src/scope.rs\<close>: the tree of closable scopes behind an application and its
  invocations.

  A \<open>ScopeInner\<close> lives behind an \<open>Arc\<close> and is shared: its parent and the children registry point to
  it through \<open>Weak\<close> references. The store keeps every \<open>ScopeInner\<close> ever allocated under its address,
  \<open>None\<close> once the last strong reference is gone, so that \<open>Weak::upgrade\<close> is a lookup. Recursion over
  the registry takes fuel; \<open>begin_close_effect\<close> and \<open>finish_close_effect\<close> show that the number of
  allocated scopes is enough. The interleaving of admission and closure is in \<open>Scope_Race\<close>.
\<close>

section \<open>Scopes and their store\<close>

datatype scope_id = ScopeId (scope_namespace: "64 word") (scope_sequence: "64 word")

datatype scope_kind = Application | Invocation

datatype scope_state = Open | Closing | Closed

datatype scope_error = ScopeError

definition state_byte :: "scope_state \<Rightarrow> 8 word" where
  \<comment> \<open>the discriminants of \<open>repr(u8)\<close>\<close>
  "state_byte s = (case s of Open \<Rightarrow> 0 | Closing \<Rightarrow> 1 | Closed \<Rightarrow> 2)"

definition decode_state :: "8 word \<Rightarrow> scope_state" where
  "decode_state v = (if v = 0 then Open else if v = 1 then Closing else Closed)"

type_synonym scope_ref = nat

record scope_inner =
  si_id :: scope_id
  si_kind :: scope_kind
  si_parent :: "scope_ref option"
  si_state :: "8 word"
  si_next_id :: nat                 \<comment> \<open>the shared \<open>Arc<AtomicU64>\<close>, by its address\<close>
  si_children :: "scope_ref list"

record scope_store =
  next_scope_namespace :: "64 word"
  scope_counters :: "64 word list"
  scope_inners :: "scope_inner option list"

definition live :: "scope_store \<Rightarrow> scope_ref \<Rightarrow> bool" where
  \<comment> \<open>\<open>Weak::upgrade\<close> succeeds\<close>
  "live st a \<longleftrightarrow> a < length (scope_inners st) \<and> scope_inners st ! a \<noteq> None"

definition inner :: "scope_store \<Rightarrow> scope_ref \<Rightarrow> scope_inner" where
  "inner st a = the (scope_inners st ! a)"

definition update_inner :: "scope_ref \<Rightarrow> (scope_inner \<Rightarrow> scope_inner) \<Rightarrow> scope_store \<Rightarrow> scope_store" where
  "update_inner a f st =
     st\<lparr>scope_inners := (scope_inners st)[a := map_option f (scope_inners st ! a)]\<rparr>"

definition store_state :: "scope_ref \<Rightarrow> scope_state \<Rightarrow> scope_store \<Rightarrow> scope_store" where
  "store_state a s = update_inner a (\<lambda>i. i\<lparr>si_state := state_byte s\<rparr>)"

definition state_of :: "scope_store \<Rightarrow> scope_ref \<Rightarrow> scope_state" where
  "state_of st a = decode_state (si_state (inner st a))"

section \<open>Operations\<close>

definition new_inner :: "scope_inner \<Rightarrow> scope_store \<Rightarrow> scope_ref \<times> scope_store" where
  \<comment> \<open>\<open>Arc::new\<close>\<close>
  "new_inner i st = (length (scope_inners st), st\<lparr>scope_inners := scope_inners st @ [Some i]\<rparr>)"

definition drop_inner :: "scope_ref \<Rightarrow> scope_store \<Rightarrow> scope_store" where
  \<comment> \<open>the last strong reference goes away\<close>
  "drop_inner a st = st\<lparr>scope_inners := (scope_inners st)[a := None]\<rparr>"

definition application :: "scope_store \<Rightarrow> scope_ref \<times> scope_store" where
  "application st =
     (let namespace = next_scope_namespace st;
          st = st\<lparr>next_scope_namespace := namespace + 1\<rparr>;
          counter = length (scope_counters st);
          st = st\<lparr>scope_counters := scope_counters st @ [1]\<rparr>
      in new_inner \<lparr>si_id = ScopeId namespace 0, si_kind = Application, si_parent = None,
           si_state = state_byte Open, si_next_id = counter, si_children = []\<rparr> st)"

definition child :: "scope_ref \<Rightarrow> scope_kind \<Rightarrow> scope_store
    \<Rightarrow> (scope_error + scope_ref) \<times> scope_store" where
  "child self kind st =
     (if state_of st self \<noteq> Open then (Inl ScopeError, st)
      else
        let counter = si_next_id (inner st self);
            sequence = scope_counters st ! counter;
            st = st\<lparr>scope_counters := (scope_counters st)[counter := sequence + 1]\<rparr>;
            (c, st) = new_inner
              \<lparr>si_id = ScopeId (scope_namespace (si_id (inner st self))) sequence, si_kind = kind,
               si_parent = Some self, si_state = state_byte Open, si_next_id = counter,
               si_children = []\<rparr> st
        in if state_of st self \<noteq> Open then (Inl ScopeError, drop_inner c st)
           else (Inr c, update_inner self (\<lambda>i. i\<lparr>si_children := si_children i @ [c]\<rparr>) st))"

definition child_count :: "scope_ref \<Rightarrow> scope_store \<Rightarrow> nat" where
  "child_count self st = length (si_children (inner st self))"

fun each_live :: "(scope_ref \<Rightarrow> scope_store \<Rightarrow> scope_store option) \<Rightarrow> scope_ref list
    \<Rightarrow> scope_store \<Rightarrow> scope_store option" where
  \<comment> \<open>\<open>for child in children.into_iter().filter_map(|child| child.upgrade())\<close>\<close>
  "each_live f [] st = Some st"
| "each_live f (c # cs) st =
     (if live st c then (case f c st of None \<Rightarrow> None | Some st' \<Rightarrow> each_live f cs st')
      else each_live f cs st)"

primrec begin_close :: "nat \<Rightarrow> scope_ref \<Rightarrow> scope_store \<Rightarrow> scope_store option" where
  "begin_close 0 self st = None"
| "begin_close (Suc fuel) self st =
     (let prior = si_state (inner st self);
          st = store_state self Closing st
      in if prior = state_byte Closed then Some (store_state self Closed st)
         else each_live (begin_close fuel) (si_children (inner st self)) st)"

definition retain_others :: "scope_ref \<Rightarrow> scope_ref \<Rightarrow> scope_store \<Rightarrow> scope_store" where
  \<comment> \<open>the parent forgets its dead children and this one\<close>
  "retain_others parent self st = update_inner parent (\<lambda>i. i\<lparr>si_children :=
     filter (\<lambda>c. live st c \<and> si_id (inner st c) \<noteq> si_id (inner st self)) (si_children i)\<rparr>) st"

primrec finish_close :: "nat \<Rightarrow> scope_ref \<Rightarrow> scope_store \<Rightarrow> scope_store option" where
  "finish_close 0 self st = None"
| "finish_close (Suc fuel) self st =
     (case each_live (finish_close fuel) (si_children (inner st self)) st of
        None \<Rightarrow> None
      | Some st \<Rightarrow>
          let st = store_state self Closed st in
          Some (case si_parent (inner st self) of
              None \<Rightarrow> st
            | Some parent \<Rightarrow> if live st parent then retain_others parent self st else st))"

section \<open>Views\<close>

definition view_id :: "scope_store \<Rightarrow> scope_ref \<Rightarrow> scope_id" where
  "view_id st a = si_id (inner st a)"

definition view_kind :: "scope_store \<Rightarrow> scope_ref \<Rightarrow> scope_kind" where
  "view_kind st a = si_kind (inner st a)"

definition view_parent :: "scope_store \<Rightarrow> scope_ref \<Rightarrow> scope_id option" where
  "view_parent st a = (case si_parent (inner st a) of
     None \<Rightarrow> None | Some p \<Rightarrow> if live st p then Some (si_id (inner st p)) else None)"

definition is_closing :: "scope_store \<Rightarrow> scope_ref \<Rightarrow> bool" where
  "is_closing st a \<longleftrightarrow> state_of st a \<noteq> Open"

section \<open>The store\<close>

named_theorems scope_simps \<open>how the accesses of a store change\<close>

lemma decode_state_byte [simp]: "decode_state (state_byte s) = s"
  by (cases s) (simp_all add: decode_state_def state_byte_def)

lemma state_byte_eq_iff [simp]: "state_byte s = state_byte t \<longleftrightarrow> s = t"
  by (metis decode_state_byte)

lemma live_update_inner [scope_simps]: "live (update_inner a f st) b = live st b"
  by (cases "a = b") (auto simp: live_def update_inner_def)

lemma inner_update_inner [scope_simps]:
  "live st a \<Longrightarrow> inner (update_inner a f st) b = (if b = a then f (inner st a) else inner st b)"
  by (auto simp: live_def inner_def update_inner_def)

lemma update_inner_fields [scope_simps]:
  "length (scope_inners (update_inner a f st)) = length (scope_inners st)"
  "scope_counters (update_inner a f st) = scope_counters st"
  "next_scope_namespace (update_inner a f st) = next_scope_namespace st"
  by (simp_all add: update_inner_def)

lemma live_bound: "live st a \<Longrightarrow> a < length (scope_inners st)"
  by (simp add: live_def)

lemma store_state_facts [scope_simps]:
  "live (store_state a s st) b = live st b"
  "length (scope_inners (store_state a s st)) = length (scope_inners st)"
  "scope_counters (store_state a s st) = scope_counters st"
  "next_scope_namespace (store_state a s st) = next_scope_namespace st"
  "live st a \<Longrightarrow> state_of (store_state a s st) b = (if b = a then s else state_of st b)"
  "live st a \<Longrightarrow> si_id (inner (store_state a s st) b) = si_id (inner st b)"
  "live st a \<Longrightarrow> si_kind (inner (store_state a s st) b) = si_kind (inner st b)"
  "live st a \<Longrightarrow> si_parent (inner (store_state a s st) b) = si_parent (inner st b)"
  "live st a \<Longrightarrow> si_next_id (inner (store_state a s st) b) = si_next_id (inner st b)"
  "live st a \<Longrightarrow> si_children (inner (store_state a s st) b) = si_children (inner st b)"
  by (simp_all add: store_state_def scope_simps state_of_def)

text \<open>What closing never changes: which scopes are alive and what they are.\<close>

definition same_scopes :: "scope_store \<Rightarrow> scope_store \<Rightarrow> bool" where
  "same_scopes st st' \<longleftrightarrow>
     length (scope_inners st') = length (scope_inners st) \<and>
     scope_counters st' = scope_counters st \<and> next_scope_namespace st' = next_scope_namespace st \<and>
     (\<forall>b. live st' b = live st b) \<and>
     (\<forall>b. live st b \<longrightarrow> si_id (inner st' b) = si_id (inner st b) \<and>
        si_kind (inner st' b) = si_kind (inner st b) \<and>
        si_parent (inner st' b) = si_parent (inner st b) \<and>
        si_next_id (inner st' b) = si_next_id (inner st b))"

lemma same_scopes_refl [simp]: "same_scopes st st"
  by (simp add: same_scopes_def)

lemma same_scopes_trans: "same_scopes st st' \<Longrightarrow> same_scopes st' st'' \<Longrightarrow> same_scopes st st''"
  by (simp add: same_scopes_def)

lemma same_scopesD:
  assumes "same_scopes st st'"
  shows "live st' b = live st b"
    and "length (scope_inners st') = length (scope_inners st)"
    and "live st b \<Longrightarrow> si_id (inner st' b) = si_id (inner st b)"
    and "live st b \<Longrightarrow> si_parent (inner st' b) = si_parent (inner st b)"
    and "live st b \<Longrightarrow> si_next_id (inner st' b) = si_next_id (inner st b)"
    and "scope_counters st' = scope_counters st"
    and "next_scope_namespace st' = next_scope_namespace st"
  using assms by (simp_all add: same_scopes_def)

lemma same_scopes_store_state: "live st a \<Longrightarrow> same_scopes st (store_state a s st)"
  by (simp add: same_scopes_def scope_simps)

text \<open>The scopes below a live scope, along live parents.\<close>

inductive within :: "scope_store \<Rightarrow> scope_ref \<Rightarrow> scope_ref \<Rightarrow> bool" for st a where
  within_self: "live st a \<Longrightarrow> within st a a"
| within_child: "within st a p \<Longrightarrow> live st b \<Longrightarrow> si_parent (inner st b) = Some p \<Longrightarrow> within st a b"

lemma within_live: "within st a b \<Longrightarrow> live st a \<and> live st b"
  by (induction rule: within.induct) auto

lemma within_same_scopes:
  assumes "same_scopes st st'"
  shows "within st' a b = within st a b"
proof
  show "within st a b \<Longrightarrow> within st' a b"
    by (induction rule: within.induct)
      (auto intro: within.intros simp: same_scopesD [OF assms])
  show "within st' a b \<Longrightarrow> within st a b"
  proof (induction rule: within.induct)
    case (within_child p b)
    then have "live st b" "si_parent (inner st b) = Some p"
      using same_scopesD [OF assms] by auto
    with within_child.IH show ?case by (rule within.within_child)
  qed (simp add: same_scopesD [OF assms] within_self)
qed

lemma within_trans: "within st b c \<Longrightarrow> within st a b \<Longrightarrow> within st a c"
  by (induction rule: within.induct) (auto intro: within_child)

lemma within_cases_child:
  assumes "within st a b" and "b \<noteq> a"
  obtains c where "live st c" "si_parent (inner st c) = Some a" "within st c b"
proof -
  have "b \<noteq> a \<Longrightarrow> \<exists>c. live st c \<and> si_parent (inner st c) = Some a \<and> within st c b"
    using assms(1)
  proof (induction rule: within.induct)
    case (within_child p b)
    show ?case
    proof (cases "p = a")
      case True
      with within_child.hyps show ?thesis by (intro exI [of _ b]) (auto intro: within_self)
    next
      case False
      with within_child.IH obtain c where "live st c" "si_parent (inner st c) = Some a" "within st c p"
        by blast
      with within_child.hyps show ?thesis by (intro exI [of _ c]) (auto intro: within.within_child)
    qed
  qed simp
  with assms(2) that show ?thesis by blast
qed

section \<open>The invariant\<close>

definition wf_scope :: "scope_store \<Rightarrow> scope_ref \<Rightarrow> bool" where
  \<comment> \<open>a live scope: its state byte, its parent, and its registry\<close>
  "wf_scope st a \<longleftrightarrow>
     si_state (inner st a) \<in> range state_byte \<and>
     (\<forall>p. si_parent (inner st a) = Some p \<longrightarrow> p < a \<and> (live st p \<longrightarrow>
        (state_of st p = Closed \<longrightarrow> state_of st a = Closed) \<and>
        (a \<in> set (si_children (inner st p)) \<longleftrightarrow> state_of st a \<noteq> Closed))) \<and>
     (\<forall>c \<in> set (si_children (inner st a)). c < length (scope_inners st) \<and>
        (live st c \<longrightarrow> si_parent (inner st c) = Some a)) \<and>
     distinct (si_children (inner st a))"

definition gated :: "scope_store \<Rightarrow> scope_ref \<Rightarrow> bool" where
  \<comment> \<open>below a scope that is not open nothing is open\<close>
  "gated st a \<longleftrightarrow> (\<forall>p. si_parent (inner st a) = Some p \<longrightarrow> live st p \<longrightarrow>
     state_of st p \<noteq> Open \<longrightarrow> state_of st a \<noteq> Open)"

definition wf_ids :: "scope_store \<Rightarrow> bool" where
  \<comment> \<open>identities are handed out once: namespaces and, within one, sequence numbers\<close>
  "wf_ids st \<longleftrightarrow>
     (\<forall>a. live st a \<longrightarrow> si_next_id (inner st a) < length (scope_counters st) \<and>
        scope_namespace (si_id (inner st a)) < next_scope_namespace st \<and>
        scope_sequence (si_id (inner st a)) < scope_counters st ! si_next_id (inner st a)) \<and>
     (\<forall>a b. live st a \<longrightarrow> live st b \<longrightarrow>
        (scope_namespace (si_id (inner st a)) = scope_namespace (si_id (inner st b))
          \<longleftrightarrow> si_next_id (inner st a) = si_next_id (inner st b)) \<and>
        (si_id (inner st a) = si_id (inner st b) \<longrightarrow> a = b))"

lemma wf_idsD:
  assumes "wf_ids st" and "live st a"
  shows "si_next_id (inner st a) < length (scope_counters st)"
    and "scope_namespace (si_id (inner st a)) < next_scope_namespace st"
    and "scope_sequence (si_id (inner st a)) < scope_counters st ! si_next_id (inner st a)"
    and "live st b \<Longrightarrow> scope_namespace (si_id (inner st a)) = scope_namespace (si_id (inner st b))
      \<longleftrightarrow> si_next_id (inner st a) = si_next_id (inner st b)"
    and "live st b \<Longrightarrow> si_id (inner st a) = si_id (inner st b) \<Longrightarrow> a = b"
  using assms unfolding wf_ids_def by blast+

definition wf_tree :: "scope_store \<Rightarrow> bool" where
  "wf_tree st \<longleftrightarrow> wf_ids st \<and> (\<forall>a. live st a \<longrightarrow> wf_scope st a)"

definition wf_scopes :: "scope_store \<Rightarrow> bool" where
  "wf_scopes st \<longleftrightarrow> wf_tree st \<and> (\<forall>a. live st a \<longrightarrow> gated st a)"

lemma wf_idD: "wf_tree st \<Longrightarrow> live st a \<Longrightarrow> live st b \<Longrightarrow>
    si_id (inner st a) = si_id (inner st b) \<Longrightarrow> a = b"
  by (simp add: wf_tree_def wf_ids_def)

lemma wf_ids_same_scopes: "same_scopes st st' \<Longrightarrow> wf_ids st \<Longrightarrow> wf_ids st'"
  by (simp add: wf_ids_def same_scopes_def)

lemma wf_treeD:
  assumes "wf_tree st" and "live st a"
  shows "si_state (inner st a) \<in> range state_byte"
    and "si_parent (inner st a) = Some p \<Longrightarrow> p < a"
    and "si_parent (inner st a) = Some p \<Longrightarrow> live st p \<Longrightarrow> state_of st p = Closed \<Longrightarrow>
      state_of st a = Closed"
    and "si_parent (inner st a) = Some p \<Longrightarrow> live st p \<Longrightarrow>
      a \<in> set (si_children (inner st p)) \<longleftrightarrow> state_of st a \<noteq> Closed"
    and "c \<in> set (si_children (inner st a)) \<Longrightarrow> c < length (scope_inners st)"
    and "c \<in> set (si_children (inner st a)) \<Longrightarrow> live st c \<Longrightarrow> si_parent (inner st c) = Some a"
    and "distinct (si_children (inner st a))"
  using assms unfolding wf_tree_def wf_scope_def by blast+

lemma wf_within_closed:
  assumes "wf_tree st" and "within st a b" and "state_of st a = Closed"
  shows "state_of st b = Closed"
  using assms(2,3)
proof (induction rule: within.induct)
  case (within_child p b)
  then show ?case using wf_treeD(3) [OF assms(1)] within_live by blast
qed

lemma wf_within_le:
  assumes "wf_tree st" and "within st a b"
  shows "a \<le> b"
  using assms(2,1)
proof (induction rule: within.induct)
  case (within_child p b)
  then show ?case using wf_treeD(2) [of st b p] by simp
qed simp

section \<open>Closing\<close>

text \<open>The effect of \<open>begin_close\<close>: open scopes of a set become closing.\<close>

definition marked :: "scope_ref set \<Rightarrow> scope_store \<Rightarrow> scope_store \<Rightarrow> bool" where
  "marked S st st' \<longleftrightarrow> same_scopes st st' \<and> (\<forall>b. live st b \<longrightarrow>
     si_state (inner st' b) \<in> range state_byte \<and>
     si_children (inner st' b) = si_children (inner st b) \<and>
     state_of st' b = (if b \<in> S \<and> state_of st b = Open then Closing else state_of st b))"

lemma marked_same: "marked S st st' \<Longrightarrow> same_scopes st st'"
  by (simp add: marked_def)

lemma markedD:
  assumes "marked S st st'" and "live st b"
  shows "live st' b"
    and "si_state (inner st' b) \<in> range state_byte"
    and "si_children (inner st' b) = si_children (inner st b)"
    and "state_of st' b =
      (if b \<in> S \<and> state_of st b = Open then Closing else state_of st b)"
    and "state_of st' b = Closed \<longleftrightarrow> state_of st b = Closed"
  using same_scopesD(1) [OF marked_same [OF assms(1)]] assms unfolding marked_def by simp_all

lemma marked_trans:
  assumes m: "marked S st st'" and n: "marked T st' st''"
  shows "marked (S \<union> T) st st''"
proof -
  have "same_scopes st st''" using marked_same [OF m] marked_same [OF n] by (rule same_scopes_trans)
  moreover have "si_state (inner st'' b) \<in> range state_byte \<and>
      si_children (inner st'' b) = si_children (inner st b) \<and> state_of st'' b =
        (if b \<in> S \<union> T \<and> state_of st b = Open then Closing else state_of st b)"
    if "live st b" for b
    using markedD [OF m that] markedD [OF n] by simp
  ultimately show ?thesis by (simp add: marked_def)
qed

lemma marked_cong:
  "marked S st st' \<Longrightarrow> (\<And>b. live st b \<Longrightarrow> state_of st b = Open \<Longrightarrow> b \<in> S \<longleftrightarrow> b \<in> T) \<Longrightarrow> marked T st st'"
  unfolding marked_def by auto

lemma marked_wf_tree:
  assumes m: "marked S st st'" and wf: "wf_tree st"
  shows "wf_tree st'"
proof -
  note same = same_scopesD [OF marked_same [OF m]]
  have "wf_scope st' a" if a: "live st a" for a
    unfolding wf_scope_def
  proof (intro conjI allI impI ballI)
    show "si_state (inner st' a) \<in> range state_byte" by (rule markedD(2) [OF m a])
    show "distinct (si_children (inner st' a))"
      using wf_treeD(7) [OF wf a] by (simp add: markedD(3) [OF m a])
  next
    fix p assume "si_parent (inner st' a) = Some p"
    then have p: "si_parent (inner st a) = Some p" by (simp add: same(4) [OF a])
    then show "p < a" by (rule wf_treeD(2) [OF wf a])
    assume "live st' p"
    then have lp: "live st p" by (simp add: same(1))
    show "a \<in> set (si_children (inner st' p)) \<longleftrightarrow> state_of st' a \<noteq> Closed"
      using wf_treeD(4) [OF wf a p lp] by (simp add: markedD(3) [OF m lp] markedD(5) [OF m a])
    show "state_of st' a = Closed" if "state_of st' p = Closed"
      using wf_treeD(3) [OF wf a p lp] that by (simp add: markedD(5) [OF m lp] markedD(5) [OF m a])
  next
    fix c assume "c \<in> set (si_children (inner st' a))"
    then have c: "c \<in> set (si_children (inner st a))" by (simp add: markedD(3) [OF m a])
    then show "c < length (scope_inners st')" using wf_treeD(5) [OF wf a] by (simp add: same(2))
    show "si_parent (inner st' c) = Some a" if "live st' c"
      using wf_treeD(6) [OF wf a c] that by (simp add: same)
  qed
  then show ?thesis
    using wf wf_ids_same_scopes [OF marked_same [OF m]] by (simp add: wf_tree_def same(1))
qed

text \<open>What a closing operation does to a set of scopes, as the loop over a registry composes it.\<close>

locale closing_effect =
  fixes eff :: "scope_ref set \<Rightarrow> scope_store \<Rightarrow> scope_store \<Rightarrow> bool"
  assumes eff_same: "eff S st st' \<Longrightarrow> same_scopes st st'"
    and eff_none: "wf_tree st \<Longrightarrow> eff {} st st"
    and eff_trans: "eff S st st' \<Longrightarrow> eff T st' st'' \<Longrightarrow> eff (S \<union> T) st st''"
    and eff_wf: "eff {b. within st a b} st st' \<Longrightarrow> wf_tree st \<Longrightarrow> wf_tree st'"
begin

lemma each_live_effect:
  assumes step: "\<And>c st1. c \<in> set cs \<Longrightarrow> live st1 c \<Longrightarrow> wf_tree st1 \<Longrightarrow> same_scopes st st1 \<Longrightarrow>
      \<exists>st2. f c st1 = Some st2 \<and> eff {b. within st c b} st1 st2"
    and wf: "wf_tree st"
  shows "\<exists>st'. each_live f cs st = Some st' \<and> eff (\<Union>c \<in> set cs. {b. within st c b}) st st'"
  using assms
proof (induction cs arbitrary: st)
  case Nil
  then show ?case by (simp add: eff_none)
next
  case (Cons c cs)
  show ?case
  proof (cases "live st c")
    case True
    from Cons.prems(1) [of c st] True Cons.prems(2) obtain st1 where
      st1: "f c st = Some st1" "eff {b. within st c b} st st1" by auto
    note same1 = eff_same [OF st1(2)]
    have "\<exists>st'. each_live f cs st1 = Some st' \<and> eff (\<Union>c \<in> set cs. {b. within st1 c b}) st1 st'"
    proof (rule Cons.IH [OF _ eff_wf [OF st1(2) Cons.prems(2)]])
      fix d st2 assume "d \<in> set cs" "live st2 d" "wf_tree st2" "same_scopes st1 st2"
      then show "\<exists>st3. f d st2 = Some st3 \<and> eff {b. within st1 d b} st2 st3"
        using Cons.prems(1) [of d st2] same_scopes_trans [OF same1]
        by (simp add: within_same_scopes [OF same1])
    qed
    then obtain st' where st': "each_live f cs st1 = Some st'"
      "eff (\<Union>c \<in> set cs. {b. within st c b}) st1 st'"
      by (auto simp: within_same_scopes [OF same1])
    with True st1(1) eff_trans [OF st1(2) st'(2)] show ?thesis by simp
  next
    case False
    then have "(\<Union>c \<in> set (c # cs). {b. within st c b}) = (\<Union>c \<in> set cs. {b. within st c b})"
      using within_live by fastforce
    moreover have "\<exists>st'. each_live f cs st = Some st' \<and>
        eff (\<Union>c \<in> set cs. {b. within st c b}) st st'"
      by (rule Cons.IH) (simp_all add: Cons.prems)
    ultimately show ?thesis using False by (simp only: each_live.simps if_False)
  qed
qed

end

interpretation marking: closing_effect marked
proof
  show "marked S st st' \<Longrightarrow> same_scopes st st'" for S st st' by (rule marked_same)
  show "wf_tree st \<Longrightarrow> marked {} st st" for st unfolding marked_def by (simp add: wf_treeD(1))
  show "marked S st st' \<Longrightarrow> marked T st' st'' \<Longrightarrow> marked (S \<union> T) st st''" for S T st st' st''
    by (rule marked_trans)
  show "marked {b. within st a b} st st' \<Longrightarrow> wf_tree st \<Longrightarrow> wf_tree st'" for st a st'
    by (rule marked_wf_tree)
qed

lemma store_byte: "live st a \<Longrightarrow> si_state (inner (store_state a s st) b) =
    (if b = a then state_byte s else si_state (inner st b))"
  by (simp add: store_state_def scope_simps)

lemma marked_closing: "live st a \<Longrightarrow> wf_tree st \<Longrightarrow> state_of st a \<noteq> Closed \<Longrightarrow>
    marked {a} st (store_state a Closing st)"
proof -
  assume a: "live st a" "wf_tree st" "state_of st a \<noteq> Closed"
  then have "state_of st a = Open \<or> state_of st a = Closing" by (cases "state_of st a") auto
  with a show ?thesis
    unfolding marked_def by (auto simp: scope_simps same_scopes_store_state store_byte wf_treeD(1))
qed

lemma closing_closed: "live st a \<Longrightarrow> wf_tree st \<Longrightarrow> state_of st a = Closed \<Longrightarrow>
    marked {} st (store_state a Closed (store_state a Closing st))"
  unfolding marked_def
  by (auto simp: scope_simps store_byte wf_treeD(1)
      intro: same_scopes_trans [OF same_scopes_store_state same_scopes_store_state])

lemma scope_byte_closed: "wf_tree st \<Longrightarrow> live st a \<Longrightarrow>
    si_state (inner st a) = state_byte Closed \<longleftrightarrow> state_of st a = Closed"
  using wf_treeD(1) [of st a] by (auto simp: state_of_def)

lemma within_children:
  assumes wf: "wf_tree st" and a: "live st a" and b: "state_of st b \<noteq> Closed"
  shows "within st a b \<longleftrightarrow> b = a \<or> (\<exists>c \<in> set (si_children (inner st a)). within st c b)"
proof
  assume w: "within st a b"
  show "b = a \<or> (\<exists>c \<in> set (si_children (inner st a)). within st c b)"
  proof (cases "b = a")
    case False
    from within_cases_child [OF w False] obtain c where
      c: "live st c" "si_parent (inner st c) = Some a" "within st c b" .
    then have "state_of st c \<noteq> Closed" using wf_within_closed [OF wf c(3)] b by blast
    with wf_treeD(4) [OF wf c(1,2) a] c(3) show ?thesis by blast
  qed simp
next
  assume "b = a \<or> (\<exists>c \<in> set (si_children (inner st a)). within st c b)"
  then show "within st a b"
  proof
    assume "\<exists>c \<in> set (si_children (inner st a)). within st c b"
    then obtain c where c: "c \<in> set (si_children (inner st a))" "within st c b" by blast
    then have "si_parent (inner st c) = Some a" "live st c"
      using wf_treeD(6) [OF wf a c(1)] within_live by blast+
    then have "within st a c" using a by (blast intro: within.intros)
    with c(2) show ?thesis by (rule within_trans)
  qed (simp add: a within_self)
qed

lemma begin_close_marks:
  assumes "wf_tree st" and "live st a" and "length (scope_inners st) - a \<le> n"
  shows "\<exists>st'. begin_close n a st = Some st' \<and> marked {b. within st a b} st st'"
  using assms
proof (induction n arbitrary: a st)
  case 0
  then show ?case using live_bound by fastforce
next
  case (Suc n)
  note wf = Suc.prems(1) and a = Suc.prems(2)
  show ?case
  proof (cases "state_of st a = Closed")
    case True
    have "marked {b. within st a b} st (store_state a Closed (store_state a Closing st))"
      by (rule marked_cong [OF closing_closed [OF a wf True]])
        (use wf_within_closed [OF wf _ True] in fastforce)
    with True show ?thesis by (simp add: Let_def scope_byte_closed [OF wf a])
  next
    case False
    let ?st = "store_state a Closing st" and ?cs = "si_children (inner st a)"
    note m = marked_closing [OF a wf False]
    note same = same_scopesD [OF marked_same [OF m]]
    have "\<exists>st'. each_live (begin_close n) ?cs ?st = Some st' \<and>
        marked (\<Union>c \<in> set ?cs. {b. within ?st c b}) ?st st'"
    proof (rule marking.each_live_effect)
      show "wf_tree ?st" by (rule marked_wf_tree [OF m wf])
      fix c st1 assume c: "c \<in> set ?cs" "live st1 c" "wf_tree st1" "same_scopes ?st st1"
      have "live st c" using c(2) same_scopesD(1) [OF c(4)] same(1) by simp
      then have "a < c" using wf_treeD(2,6) [OF wf] a c(1) by blast
      then have "length (scope_inners st1) - c \<le> n"
        using Suc.prems(3) same_scopesD(2) [OF c(4)] same(2) by simp
      from Suc.IH [OF c(3,2) this]
      show "\<exists>st2. begin_close n c st1 = Some st2 \<and> marked {b. within ?st c b} st1 st2"
        by (simp add: within_same_scopes [OF c(4)])
    qed
    then obtain st' where st': "each_live (begin_close n) ?cs ?st = Some st'"
      "marked (\<Union>c \<in> set ?cs. {b. within st c b}) ?st st'"
      by (auto simp: within_same_scopes [OF marked_same [OF m]])
    have "marked {b. within st a b} st st'"
      by (rule marked_cong [OF marked_trans [OF m st'(2)]])
        (simp add: within_children [OF wf a])
    with False st'(1) show ?thesis
      using a by (simp add: Let_def scope_byte_closed [OF wf a] scope_simps)
  qed
qed

text \<open>The effect of \<open>finish_close\<close>: the scopes of a set are closed and unregistered.\<close>

definition finished :: "scope_ref set \<Rightarrow> scope_store \<Rightarrow> scope_store \<Rightarrow> bool" where
  "finished S st st' \<longleftrightarrow> same_scopes st st' \<and> (\<forall>b. live st b \<longrightarrow>
     si_state (inner st' b) \<in> range state_byte \<and>
     state_of st' b = (if b \<in> S then Closed else state_of st b) \<and>
     distinct (si_children (inner st' b)) \<and>
     set (si_children (inner st' b)) \<subseteq> set (si_children (inner st b)) \<and>
     filter (live st) (si_children (inner st' b)) =
       filter (\<lambda>c. live st c \<and> c \<notin> S) (si_children (inner st b)))"

lemma finished_same: "finished S st st' \<Longrightarrow> same_scopes st st'"
  by (simp add: finished_def)

lemma finishedD:
  assumes "finished S st st'" and "live st b"
  shows "live st' b"
    and "si_state (inner st' b) \<in> range state_byte"
    and "state_of st' b = (if b \<in> S then Closed else state_of st b)"
    and "distinct (si_children (inner st' b))"
    and "set (si_children (inner st' b)) \<subseteq> set (si_children (inner st b))"
    and "filter (live st) (si_children (inner st' b)) =
      filter (\<lambda>c. live st c \<and> c \<notin> S) (si_children (inner st b))"
  using same_scopesD(1) [OF finished_same [OF assms(1)]] assms unfolding finished_def by simp_all

lemma finished_member:
  assumes "finished S st st'" and "live st b" and "live st c"
  shows "c \<in> set (si_children (inner st' b)) \<longleftrightarrow> c \<in> set (si_children (inner st b)) \<and> c \<notin> S"
  using arg_cong [OF finishedD(6) [OF assms(1,2)], of "\<lambda>l. c \<in> set l"] assms(3) by simp

lemma live_same: "same_scopes st st' \<Longrightarrow> live st' = live st"
  by (rule ext) (simp add: same_scopesD(1))

lemma finished_trans:
  assumes m: "finished S st st'" and n: "finished T st' st''"
  shows "finished (S \<union> T) st st''"
proof -
  note same = live_same [OF finished_same [OF m]]
  have "same_scopes st st''" using finished_same [OF m] finished_same [OF n] by (rule same_scopes_trans)
  moreover have "filter (live st) (si_children (inner st'' b)) =
      filter (\<lambda>c. live st c \<and> c \<notin> S \<union> T) (si_children (inner st b))" if b: "live st b" for b
  proof -
    have "filter (live st) (si_children (inner st'' b)) =
        filter (\<lambda>c. live st c \<and> c \<notin> T) (si_children (inner st' b))"
      using finishedD(6) [OF n] b by (simp add: same)
    also have "\<dots> = filter (\<lambda>c. c \<notin> T) (filter (live st) (si_children (inner st' b)))"
      by (simp add: conj_commute)
    finally show ?thesis
      using finishedD(6) [OF m b] by (simp add: conj_ac)
  qed
  moreover have "si_state (inner st'' b) \<in> range state_byte \<and>
      state_of st'' b = (if b \<in> S \<union> T then Closed else state_of st b) \<and>
      distinct (si_children (inner st'' b)) \<and>
      set (si_children (inner st'' b)) \<subseteq> set (si_children (inner st b))" if "live st b" for b
    using finishedD [OF m that] finishedD [OF n, of b] by auto
  ultimately show ?thesis by (simp add: finished_def)
qed

lemma finished_cong:
  assumes f: "finished S st st'" and wf: "wf_tree st" and sub: "S \<subseteq> T"
    and new: "\<And>b. live st b \<Longrightarrow> b \<in> T \<Longrightarrow> b \<notin> S \<Longrightarrow> state_of st b = Closed"
  shows "finished T st st'"
proof -
  have "filter (\<lambda>c. live st c \<and> c \<notin> S) (si_children (inner st b)) =
      filter (\<lambda>c. live st c \<and> c \<notin> T) (si_children (inner st b))" if b: "live st b" for b
  proof (rule filter_cong [OF refl])
    fix c assume c: "c \<in> set (si_children (inner st b))"
    show "(live st c \<and> c \<notin> S) = (live st c \<and> c \<notin> T)"
    proof (cases "live st c")
      case True
      then have "state_of st c \<noteq> Closed"
        using wf_treeD(4) [OF wf True wf_treeD(6) [OF wf b c True] b] c by simp
      with new [OF True] sub True show ?thesis by blast
    qed simp
  qed
  moreover have "(if b \<in> S then Closed else state_of st b) = (if b \<in> T then Closed else state_of st b)"
    if "live st b" for b
    using new [OF that] sub by auto
  ultimately show ?thesis using f unfolding finished_def by simp
qed

lemma finished_wf_tree:
  assumes m: "finished S st st'" and wf: "wf_tree st"
    and down: "\<And>c p. live st c \<Longrightarrow> live st p \<Longrightarrow> si_parent (inner st c) = Some p \<Longrightarrow> p \<in> S \<Longrightarrow> c \<in> S"
  shows "wf_tree st'"
proof -
  note same = same_scopesD [OF finished_same [OF m]]
  have "wf_scope st' a" if a: "live st a" for a
    unfolding wf_scope_def
  proof (intro conjI allI impI ballI)
    show "si_state (inner st' a) \<in> range state_byte" by (rule finishedD(2) [OF m a])
    show "distinct (si_children (inner st' a))" by (rule finishedD(4) [OF m a])
  next
    fix p assume "si_parent (inner st' a) = Some p"
    then have p: "si_parent (inner st a) = Some p" by (simp add: same(4) [OF a])
    then show "p < a" by (rule wf_treeD(2) [OF wf a])
    assume "live st' p"
    then have lp: "live st p" by (simp add: same(1))
    show "a \<in> set (si_children (inner st' p)) \<longleftrightarrow> state_of st' a \<noteq> Closed"
      using wf_treeD(4) [OF wf a p lp] by (simp add: finished_member [OF m lp a] finishedD(3) [OF m a])
    show "state_of st' a = Closed" if "state_of st' p = Closed"
      using wf_treeD(3) [OF wf a p lp] down [OF a lp p] that
      by (simp add: finishedD(3) [OF m lp] finishedD(3) [OF m a] split: if_splits)
  next
    fix c assume "c \<in> set (si_children (inner st' a))"
    then have c: "c \<in> set (si_children (inner st a))" using finishedD(5) [OF m a] by blast
    then show "c < length (scope_inners st')" using wf_treeD(5) [OF wf a] by (simp add: same(2))
    show "si_parent (inner st' c) = Some a" if "live st' c"
      using wf_treeD(6) [OF wf a c] that by (simp add: same)
  qed
  then show ?thesis
    using wf wf_ids_same_scopes [OF finished_same [OF m]] by (simp add: wf_tree_def same(1))
qed

lemma within_down: "live st c \<Longrightarrow> si_parent (inner st c) = Some p \<Longrightarrow> within st a p \<Longrightarrow> within st a c"
  by (blast intro: within_child)

interpretation finishing: closing_effect finished
proof
  show "finished S st st' \<Longrightarrow> same_scopes st st'" for S st st' by (rule finished_same)
  show "wf_tree st \<Longrightarrow> finished {} st st" for st unfolding finished_def by (simp add: wf_treeD(1,7))
  show "finished S st st' \<Longrightarrow> finished T st' st'' \<Longrightarrow> finished (S \<union> T) st st''" for S T st st' st''
    by (rule finished_trans)
  show "wf_tree st'" if "finished {b. within st a b} st st'" "wf_tree st" for st a st'
    by (rule finished_wf_tree [OF that]) (simp add: within_down)
qed

text \<open>The last step of \<open>finish_close\<close>: the scope is closed and its parent forgets it.\<close>

definition unregister :: "scope_ref \<Rightarrow> scope_store \<Rightarrow> scope_store" where
  "unregister a st = (case si_parent (inner st a) of None \<Rightarrow> st
     | Some p \<Rightarrow> if live st p then retain_others p a st else st)"

lemma unregister_facts:
  assumes "live st a" and wf: "\<And>b. live st b \<Longrightarrow> si_id (inner st b) = si_id (inner st a) \<Longrightarrow> b = a"
  shows "same_scopes st (unregister a st)"
    and "si_state (inner (unregister a st) b) = si_state (inner st b)"
    and "si_children (inner (unregister a st) b) =
      (if si_parent (inner st a) = Some b \<and> live st b
       then filter (\<lambda>c. live st c \<and> c \<noteq> a) (si_children (inner st b)) else si_children (inner st b))"
proof -
  have retained: "(live st c \<and> si_id (inner st c) \<noteq> si_id (inner st a)) = (live st c \<and> c \<noteq> a)" for c
    using wf by auto
  show "same_scopes st (unregister a st)"
    by (auto simp: unregister_def retain_others_def same_scopes_def scope_simps split: option.splits)
  show "si_state (inner (unregister a st) b) = si_state (inner st b)"
    by (auto simp: unregister_def retain_others_def scope_simps split: option.splits)
  show "si_children (inner (unregister a st) b) =
      (if si_parent (inner st a) = Some b \<and> live st b
       then filter (\<lambda>c. live st c \<and> c \<noteq> a) (si_children (inner st b)) else si_children (inner st b))"
    by (auto simp: unregister_def retain_others_def scope_simps retained split: option.splits)
qed

lemma finish_close_Suc:
  "finish_close (Suc n) a st = map_option (\<lambda>st. unregister a (store_state a Closed st))
     (each_live (finish_close n) (si_children (inner st a)) st)"
  by (simp add: unregister_def Let_def split: option.split)

lemma closed_unregistered:
  assumes wf: "wf_tree st" and a: "live st a"
    and down: "\<And>c. live st c \<Longrightarrow> si_parent (inner st c) = Some a \<Longrightarrow> state_of st c = Closed"
  shows "finished {a} st (unregister a (store_state a Closed st))"
proof -
  let ?st = "store_state a Closed st" and ?st' = "unregister a (store_state a Closed st)"
  have ids: "b = a" if "live ?st b" "si_id (inner ?st b) = si_id (inner ?st a)" for b
    using wf_idD [OF wf, of b a] that a by (simp add: scope_simps)
  have live: "live ?st a" using a by (simp add: scope_simps)
  note facts = unregister_facts [OF live ids, simplified]
  have same: "same_scopes st ?st'"
    by (rule same_scopes_trans [OF same_scopes_store_state [OF a] facts(1)])
  have children: "si_children (inner ?st' b) =
      (if si_parent (inner st a) = Some b \<and> live st b
       then filter (\<lambda>c. live st c \<and> c \<noteq> a) (si_children (inner st b)) else si_children (inner st b))" for b
    using facts(3) [of b] a by (simp add: scope_simps live_same [OF same_scopes_store_state [OF a]])
  have "filter (live st) (si_children (inner ?st' b)) =
      filter (\<lambda>c. live st c \<and> c \<notin> {a}) (si_children (inner st b))" if b: "live st b" for b
  proof (cases "si_parent (inner st a) = Some b")
    case False
    then have "a \<notin> set (si_children (inner st b))" using wf_treeD(6) [OF wf b _ a] by blast
    then show ?thesis using False by (auto simp: children intro: filter_cong)
  qed (simp add: children b conj_ac)
  moreover have "state_of ?st' b = (if b \<in> {a} then Closed else state_of st b)" for b
    using facts(2) [of b] a by (simp add: state_of_def store_byte)
  moreover have "si_state (inner ?st' b) \<in> range state_byte" if "live st b" for b
    using facts(2) [of b] a wf_treeD(1) [OF wf that] by (simp add: store_byte)
  ultimately show ?thesis
    using same wf_treeD(7) [OF wf] unfolding finished_def by (simp add: children)
qed

lemma unregister_prunes:
  "live st p \<Longrightarrow> si_parent (inner st a) = Some p \<Longrightarrow>
     x \<in> set (si_children (inner (unregister a st) p)) \<Longrightarrow> live st x"
  by (simp add: unregister_def retain_others_def scope_simps)

lemma finish_close_finishes:
  assumes "wf_tree st" and "live st a" and "length (scope_inners st) - a \<le> n"
  shows "\<exists>st'. finish_close n a st = Some st' \<and> finished {b. within st a b} st st' \<and>
    (\<forall>p x. si_parent (inner st a) = Some p \<longrightarrow> live st p \<longrightarrow>
       x \<in> set (si_children (inner st' p)) \<longrightarrow> live st x)"
  using assms
proof (induction n arbitrary: a st)
  case 0
  then show ?case using live_bound by fastforce
next
  case (Suc n)
  note wf = Suc.prems(1) and a = Suc.prems(2)
  let ?cs = "si_children (inner st a)" and ?S = "\<Union>c \<in> set (si_children (inner st a)). {b. within st c b}"
  have "\<exists>st1. each_live (finish_close n) ?cs st = Some st1 \<and> finished ?S st st1"
  proof (rule finishing.each_live_effect [OF _ wf])
    fix c st1 assume c: "c \<in> set ?cs" "live st1 c" "wf_tree st1" "same_scopes st st1"
    then have "live st c" by (simp add: same_scopesD(1) [OF c(4)])
    then have "a < c" using wf_treeD(2,6) [OF wf] a c(1) by blast
    then have "length (scope_inners st1) - c \<le> n"
      using Suc.prems(3) same_scopesD(2) [OF c(4)] by simp
    from Suc.IH [OF c(3,2) this]
    show "\<exists>st2. finish_close n c st1 = Some st2 \<and> finished {b. within st c b} st1 st2"
      unfolding within_same_scopes [OF c(4)] by blast
  qed
  then obtain st1 where st1: "each_live (finish_close n) ?cs st = Some st1" "finished ?S st st1" by blast
  note same1 = same_scopesD [OF finished_same [OF st1(2)]]
  have wf1: "wf_tree st1"
    by (rule finished_wf_tree [OF st1(2) wf]) (blast intro: within_down)
  have "finished {a} st1 (unregister a (store_state a Closed st1))"
  proof (rule closed_unregistered [OF wf1])
    show "live st1 a" using a by (simp add: same1(1))
    fix c assume c1: "live st1 c" "si_parent (inner st1 c) = Some a"
    then have c: "live st c" "si_parent (inner st c) = Some a" using same1(1,4) by simp_all
    then show "state_of st1 c = Closed"
      using wf_treeD(4) [OF wf c a] within_self [OF c(1)] by (auto simp: finishedD(3) [OF st1(2)])
  qed
  from finished_trans [OF st1(2) this]
  have "finished {b. within st a b} st (unregister a (store_state a Closed st1))"
  proof (rule finished_cong [OF _ wf])
    show "?S \<union> {a} \<subseteq> {b. within st a b}"
    proof
      fix b assume "b \<in> ?S \<union> {a}"
      then show "b \<in> {b. within st a b}"
      proof
        assume "b \<in> ?S"
        then obtain c where c: "c \<in> set ?cs" "within st c b" by blast
        then have "within st a c"
          using wf_treeD(6) [OF wf a c(1)] within_live [OF c(2)] a by (blast intro: within.intros)
        with c(2) show ?thesis by (simp add: within_trans)
      qed (simp add: a within_self)
    qed
    show "state_of st b = Closed" if "b \<in> {b. within st a b}" "b \<notin> ?S \<union> {a}" for b
      using within_children [OF wf a, of b] that by blast
  qed
  moreover have "live st x"
    if "si_parent (inner st a) = Some p" "live st p"
      "x \<in> set (si_children (inner (unregister a (store_state a Closed st1)) p))" for p x
    using unregister_prunes [of "store_state a Closed st1" p a x] that a by (simp add: same1 scope_simps)
  ultimately show ?case using st1(1) by (simp add: finish_close_Suc del: finish_close.simps)
qed

section \<open>The operations keep the invariant\<close>

lemma begin_close_gated:
  assumes "marked {b. within st a b} st st'" and "wf_scopes st"
  shows "wf_scopes st'"
proof -
  note m = assms(1) and same = same_scopesD [OF marked_same [OF assms(1)]]
  have wf: "wf_tree st" using assms(2) by (simp add: wf_scopes_def)
  have "gated st' b" if b: "live st b" for b
    unfolding gated_def
  proof (intro allI impI)
    fix p assume "si_parent (inner st' b) = Some p" "live st' p" and closing: "state_of st' p \<noteq> Open"
    then have p: "si_parent (inner st b) = Some p" "live st p" using same(1,4) b by auto
    show "state_of st' b \<noteq> Open"
    proof (cases "state_of st p = Open")
      case True
      then have "within st a p" using closing markedD(4) [OF m p(2)] by (auto split: if_splits)
      then have "within st a b" using b p(1) by (simp add: within_child)
      then show ?thesis by (simp add: markedD(4) [OF m b])
    next
      case False
      then have "state_of st b \<noteq> Open" using assms(2) b p by (simp add: wf_scopes_def gated_def)
      then show ?thesis by (simp add: markedD(4) [OF m b])
    qed
  qed
  then show ?thesis using marked_wf_tree [OF m wf] by (simp add: wf_scopes_def same(1))
qed

lemma finish_close_gated:
  assumes "finished {b. within st a b} st st'" and "wf_scopes st"
  shows "wf_scopes st'"
proof -
  note m = assms(1) and same = same_scopesD [OF finished_same [OF assms(1)]]
  have wf: "wf_tree st" using assms(2) by (simp add: wf_scopes_def)
  have "gated st' b" if b: "live st b" for b
    unfolding gated_def
  proof (intro allI impI)
    fix p assume "si_parent (inner st' b) = Some p" "live st' p" and closing: "state_of st' p \<noteq> Open"
    then have p: "si_parent (inner st b) = Some p" "live st p" using same(1,4) b by auto
    show "state_of st' b \<noteq> Open"
    proof (cases "within st a p")
      case True
      then have "within st a b" using b p(1) by (simp add: within_child)
      then show ?thesis by (simp add: finishedD(3) [OF m b])
    next
      case False
      then have "state_of st p \<noteq> Open" using closing by (simp add: finishedD(3) [OF m p(2)])
      then have "state_of st b \<noteq> Open" using assms(2) b p by (simp add: wf_scopes_def gated_def)
      then show ?thesis by (simp add: finishedD(3) [OF m b])
    qed
  qed
  then show ?thesis
    using finishing.eff_wf [OF m wf] by (simp add: wf_scopes_def same(1))
qed

lemma drop_inner_facts:
  "live (drop_inner a st) b \<longleftrightarrow> live st b \<and> b \<noteq> a"
  "live st b \<Longrightarrow> b \<noteq> a \<Longrightarrow> inner (drop_inner a st) b = inner st b"
  "scope_counters (drop_inner a st) = scope_counters st"
  "next_scope_namespace (drop_inner a st) = next_scope_namespace st"
  "length (scope_inners (drop_inner a st)) = length (scope_inners st)"
  by (cases "a = b"; simp add: drop_inner_def live_def inner_def)+

lemma drop_inner_wf:
  assumes "wf_scopes st"
  shows "wf_scopes (drop_inner a st)"
proof -
  have state: "state_of (drop_inner a st) b = state_of st b" if "live st b" "b \<noteq> a" for b
    using that by (simp add: state_of_def drop_inner_facts)
  have wf: "wf_ids st" "\<And>b. live st b \<Longrightarrow> wf_scope st b" "\<And>b. live st b \<Longrightarrow> gated st b"
    using assms by (simp_all add: wf_scopes_def wf_tree_def)
  have "wf_ids (drop_inner a st)"
    using wf(1) unfolding wf_ids_def by (simp add: drop_inner_facts)
  moreover have "wf_scope (drop_inner a st) b" if "live st b" "b \<noteq> a" for b
    using wf(2) [OF that(1)] that unfolding wf_scope_def by (simp add: drop_inner_facts state)
  moreover have "gated (drop_inner a st) b" if "live st b" "b \<noteq> a" for b
    using wf(3) [OF that(1)] that unfolding gated_def by (simp add: drop_inner_facts state)
  ultimately show ?thesis by (simp add: wf_scopes_def wf_tree_def drop_inner_facts)
qed

lemma new_inner_facts:
  assumes "new_inner i st = (c, st')"
  shows "c = length (scope_inners st)"
    and "live st' b \<longleftrightarrow> live st b \<or> b = c"
    and "inner st' c = i"
    and "live st b \<Longrightarrow> inner st' b = inner st b"
    and "scope_counters st' = scope_counters st"
    and "next_scope_namespace st' = next_scope_namespace st"
    and "length (scope_inners st') = Suc c"
  using assms by (auto simp: new_inner_def live_def inner_def nth_append split: if_splits)

lemma scope_counters_frame [simp]:
  "live (st\<lparr>scope_counters := x\<rparr>) = live st"
  "inner (st\<lparr>scope_counters := x\<rparr>) = inner st"
  "live (st\<lparr>next_scope_namespace := y\<rparr>) = live st"
  "inner (st\<lparr>next_scope_namespace := y\<rparr>) = inner st"
  by (auto simp: live_def inner_def fun_eq_iff)

lemma child_closed: "state_of st a \<noteq> Open \<Longrightarrow> child a kind st = (Inl ScopeError, st)"
  by (simp add: child_def)

text \<open>A successful admission: the new scope, and what it changes.\<close>

definition child_inner :: "scope_store \<Rightarrow> scope_ref \<Rightarrow> scope_kind \<Rightarrow> scope_inner" where
  "child_inner st a kind = \<lparr>si_id = ScopeId (scope_namespace (si_id (inner st a)))
       (scope_counters st ! si_next_id (inner st a)),
     si_kind = kind, si_parent = Some a, si_state = state_byte Open,
     si_next_id = si_next_id (inner st a), si_children = []\<rparr>"

definition admitted :: "scope_store \<Rightarrow> scope_ref \<Rightarrow> scope_kind \<Rightarrow> scope_ref \<Rightarrow> scope_store \<Rightarrow> bool" where
  "admitted st a kind c st' \<longleftrightarrow> c = length (scope_inners st) \<and>
     length (scope_inners st') = Suc c \<and> next_scope_namespace st' = next_scope_namespace st \<and>
     scope_counters st' = (scope_counters st)[si_next_id (inner st a) :=
       scope_counters st ! si_next_id (inner st a) + 1] \<and>
     (\<forall>b. live st' b \<longleftrightarrow> live st b \<or> b = c) \<and> inner st' c = child_inner st a kind \<and>
     (\<forall>b. live st b \<longrightarrow> inner st' b =
       (if b = a then (inner st a)\<lparr>si_children := si_children (inner st a) @ [c]\<rparr> else inner st b))"

lemma admittedD:
  assumes "admitted st a kind c st'"
  shows "c = length (scope_inners st)" and "length (scope_inners st') = Suc c"
    and "next_scope_namespace st' = next_scope_namespace st"
    and "scope_counters st' = (scope_counters st)[si_next_id (inner st a) :=
       scope_counters st ! si_next_id (inner st a) + 1]"
    and "live st' b \<longleftrightarrow> live st b \<or> b = c" and "inner st' c = child_inner st a kind"
    and "live st b \<Longrightarrow> si_id (inner st' b) = si_id (inner st b)"
    and "live st b \<Longrightarrow> si_next_id (inner st' b) = si_next_id (inner st b)"
    and "live st b \<Longrightarrow> si_parent (inner st' b) = si_parent (inner st b)"
    and "live st b \<Longrightarrow> si_state (inner st' b) = si_state (inner st b)"
    and "live st b \<Longrightarrow> state_of st' b = state_of st b"
    and "live st b \<Longrightarrow> si_children (inner st' b) = si_children (inner st b) @ (if b = a then [c] else [])"
    and "state_of st' c = Open" and "\<not> live st c" and "live st b \<Longrightarrow> b < c"
proof -
  have old: "inner st' b = (if b = a then (inner st a)\<lparr>si_children := si_children (inner st a) @ [c]\<rparr>
      else inner st b)" if "live st b" for b
    using assms that unfolding admitted_def by blast
  show new: "inner st' c = child_inner st a kind" and c: "c = length (scope_inners st)"
    using assms unfolding admitted_def by blast+
  show "length (scope_inners st') = Suc c" "next_scope_namespace st' = next_scope_namespace st"
    "scope_counters st' = (scope_counters st)[si_next_id (inner st a) :=
       scope_counters st ! si_next_id (inner st a) + 1]"
    "live st' b \<longleftrightarrow> live st b \<or> b = c"
    using assms unfolding admitted_def by blast+
  show "state_of st' c = Open" by (simp add: state_of_def new child_inner_def)
  show "\<not> live st c" "live st b \<Longrightarrow> b < c" by (simp_all add: live_def c)
  show "live st b \<Longrightarrow> si_id (inner st' b) = si_id (inner st b)"
    "live st b \<Longrightarrow> si_next_id (inner st' b) = si_next_id (inner st b)"
    "live st b \<Longrightarrow> si_parent (inner st' b) = si_parent (inner st b)"
    "live st b \<Longrightarrow> si_state (inner st' b) = si_state (inner st b)"
    "live st b \<Longrightarrow> state_of st' b = state_of st b"
    "live st b \<Longrightarrow> si_children (inner st' b) = si_children (inner st b) @ (if b = a then [c] else [])"
    by (simp_all add: old state_of_def)
qed

lemma child_open:
  assumes a: "live st a" and op: "state_of st a = Open"
  obtains c st' where "child a kind st = (Inr c, st')" and "admitted st a kind c st'"
proof -
  define c where "c = length (scope_inners st)"
  define k where "k = si_next_id (inner st a)"
  let ?st = "st\<lparr>scope_counters := (scope_counters st)[k := scope_counters st ! k + 1]\<rparr>"
  obtain st1 where st1: "new_inner (child_inner st a kind) ?st = (c, st1)"
    by (simp add: new_inner_def c_def)
  note new = new_inner_facts [OF st1, simplified]
  have inner1: "inner st1 a = inner st a" by (rule new(4) [OF a])
  have "child a kind st = (Inr c, update_inner a (\<lambda>i. i\<lparr>si_children := si_children i @ [c]\<rparr>) st1)"
    using op st1 inner1
    by (simp add: child_def Let_def child_inner_def k_def state_of_def)
  moreover have "admitted st a kind c (update_inner a (\<lambda>i. i\<lparr>si_children := si_children i @ [c]\<rparr>) st1)"
  proof -
    have "live st1 a" "c \<noteq> a" using a new(2) by (auto simp: c_def live_def)
    then show ?thesis
      unfolding admitted_def using new(2-7) inner1
      by (intro conjI allI impI) (assumption | auto simp: scope_simps k_def c_def [symmetric])+
  qed
  ultimately show ?thesis by (rule that)
qed

definition room :: "64 word \<Rightarrow> bool" where
  \<comment> \<open>the next \<open>fetch_add\<close> on this counter does not wrap around\<close>
  "room n \<longleftrightarrow> n \<noteq> - 1"

lemma room_less:
  assumes "room n" and "m \<le> n"
  shows "m < n + 1"
proof -
  have "1 + n \<noteq> 0"
    using assms(1) by (metis add_eq_0_iff minus_equation_iff room_def)
  then have "unat (1 + n) = Suc (unat n)" by (rule unatSuc)
  then show ?thesis using assms(2) by (simp add: word_less_nat_alt word_le_nat_alt add.commute)
qed

lemma admitted_fresh_id:
  assumes ids: "wf_ids st" and a: "live st a" and e: "live st e"
  shows "si_id (inner st e) \<noteq> si_id (child_inner st a kind)"
proof
  assume eq: "si_id (inner st e) = si_id (child_inner st a kind)"
  then have "scope_namespace (si_id (inner st e)) = scope_namespace (si_id (inner st a))"
    by (simp add: child_inner_def)
  then have "si_next_id (inner st e) = si_next_id (inner st a)" by (simp only: wf_idsD(4) [OF ids e a])
  then show False using wf_idsD(3) [OF ids e] eq by (simp add: child_inner_def)
qed

lemma admitted_wf_ids:
  assumes ids: "wf_ids st" and a: "live st a"
    and r: "room (scope_counters st ! si_next_id (inner st a))" and ad: "admitted st a kind c st'"
  shows "wf_ids st'"
  unfolding wf_ids_def
proof (intro conjI allI impI)
  note ad = admittedD [OF ad]
  let ?k = "si_next_id (inner st a)"
  have less: "m \<le> scope_counters st ! ?k \<Longrightarrow> m < scope_counters st ! ?k + 1" for m
    by (rule room_less [OF r])
  fix b assume "live st' b"
  then consider "b = c" | "b \<noteq> c" "live st b" using ad(5,14) by blast
  then have "si_next_id (inner st' b) < length (scope_counters st') \<and>
    scope_namespace (si_id (inner st' b)) < next_scope_namespace st' \<and>
    scope_sequence (si_id (inner st' b)) < scope_counters st' ! si_next_id (inner st' b)"
  proof cases
    case 1
    then show ?thesis using less wf_idsD(1,2) [OF ids a] by (simp add: ad(3,4,6) child_inner_def)
  next
    case 2
    then show ?thesis
      using wf_idsD [OF ids 2(2)] less order_less_imp_le
      by (cases "si_next_id (inner st b) = ?k") (simp_all add: ad(3,4,7,8))
  qed
  then show "si_next_id (inner st' b) < length (scope_counters st')"
    and "scope_namespace (si_id (inner st' b)) < next_scope_namespace st'"
    and "scope_sequence (si_id (inner st' b)) < scope_counters st' ! si_next_id (inner st' b)"
    by blast+
next
  note ad = admittedD [OF ad]
  fix b d assume bd: "live st' b" "live st' d"
  then show "(scope_namespace (si_id (inner st' b)) = scope_namespace (si_id (inner st' d)))
      = (si_next_id (inner st' b) = si_next_id (inner st' d))"
    using wf_idsD(4) [OF ids] a ad(14)
    by (cases "b = c"; cases "d = c") (simp_all add: ad(5-8) child_inner_def)
  show "b = d" if eq: "si_id (inner st' b) = si_id (inner st' d)"
    using eq bd admitted_fresh_id [OF ids a, of _ kind] admitted_fresh_id [OF ids a, of _ kind, symmetric]
      wf_idsD(5) [OF ids]
    by (cases "b = c"; cases "d = c") (auto simp: ad(5-7))
qed

lemma admitted_wf_new:
  assumes a: "live st a" and op: "state_of st a = Open" and ad: "admitted st a kind c st'"
  shows "wf_scope st' c" and "gated st' c"
proof -
  note ad = admittedD [OF ad]
  have parent: "si_parent (inner st' c) = Some p \<longleftrightarrow> p = a" for p by (auto simp: ad(6) child_inner_def)
  have rest: "si_children (inner st' c) = []" "si_state (inner st' c) = state_byte Open"
    by (simp_all add: ad(6) child_inner_def)
  show "wf_scope st' c"
    using a op ad(15) [OF a] by (simp add: wf_scope_def parent rest ad(5,11-13))
  show "gated st' c" using a op by (simp add: gated_def parent ad(11))
qed

lemma admitted_wf_old:
  assumes tree: "wf_tree st" and a: "live st a" and b: "live st b" and ad: "admitted st a kind c st'"
  shows "wf_scope st' b"
  unfolding wf_scope_def
proof (intro conjI allI impI ballI)
  note w = wf_treeD [OF tree b] and ad = admittedD [OF ad]
  have new: "c \<notin> set (si_children (inner st b))" using w(5) ad(1) by blast
  show "si_state (inner st' b) \<in> range state_byte" using w(1) by (simp add: ad(10) b)
  show "distinct (si_children (inner st' b))" using w(7) new by (auto simp: ad(12) [OF b])
  fix e assume e: "e \<in> set (si_children (inner st' b))"
  then have e': "e \<in> set (si_children (inner st b)) \<or> e = c \<and> b = a" by (simp add: ad(12) [OF b] split: if_splits)
  then show "e < length (scope_inners st')" using w(5) ad(1,2) by fastforce
  assume "live st' e"
  with e' show "si_parent (inner st' e) = Some b"
    using new w(6) [of e] by (auto simp: ad(5,6,9) child_inner_def)
next
  note w = wf_treeD [OF tree b] and ad = admittedD [OF ad]
  fix p assume "si_parent (inner st' b) = Some p"
  then have p: "si_parent (inner st b) = Some p" by (simp add: ad(9) b)
  then show "p < b" by (rule w(2))
  then have "p \<noteq> c" "b \<noteq> c" using ad(15) [OF b] by auto
  moreover assume "live st' p"
  ultimately have lp: "live st p" by (simp add: ad(5))
  show "b \<in> set (si_children (inner st' p)) \<longleftrightarrow> state_of st' b \<noteq> Closed"
    using w(4) [OF p lp] \<open>b \<noteq> c\<close> by (simp add: ad(11,12) b lp)
  show "state_of st' b = Closed" if "state_of st' p = Closed"
    using w(3) [OF p lp] that by (simp add: ad(11) b lp)
qed

lemma admitted_gated_old:
  assumes wf: "wf_scopes st" and b: "live st b" and ad: "admitted st a kind c st'"
  shows "gated st' b"
  unfolding gated_def
proof (intro allI impI)
  note ad = admittedD [OF ad]
  fix p assume p: "si_parent (inner st' b) = Some p" "live st' p" "state_of st' p \<noteq> Open"
  then have "si_parent (inner st b) = Some p" by (simp add: ad(9) b)
  moreover from this have "p \<noteq> c"
    using wf_treeD(2) [of st b p] wf b ad(15) [OF b] by (auto simp: wf_scopes_def)
  ultimately show "state_of st' b \<noteq> Open"
    using wf b p(2,3) by (auto simp: wf_scopes_def gated_def ad(5,11))
qed

lemma child_wf:
  assumes wf: "wf_scopes st" and a: "live st a" and r: "room (scope_counters st ! si_next_id (inner st a))"
    and ch: "child a kind st = (Inr c, st')"
  shows "wf_scopes st'"
proof -
  have op: "state_of st a = Open" using ch by (auto simp: child_def split: if_splits)
  with a ch obtain ad: "admitted st a kind c st'" by (auto elim: child_open [where kind = kind])
  have tree: "wf_tree st" and ids: "wf_ids st" using wf by (simp_all add: wf_scopes_def wf_tree_def)
  show ?thesis
    using admitted_wf_ids [OF ids a r ad] admitted_wf_new [OF a op ad]
      admitted_wf_old [OF tree a _ ad] admitted_gated_old [OF wf _ ad] admittedD(5) [OF ad]
    by (auto simp: wf_scopes_def wf_tree_def)
qed

lemma application_facts:
  assumes "application st = (c, st')"
  shows "c = length (scope_inners st)" and "length (scope_inners st') = Suc c"
    and "next_scope_namespace st' = next_scope_namespace st + 1"
    and "scope_counters st' = scope_counters st @ [1]"
    and "live st' b \<longleftrightarrow> live st b \<or> b = c"
    and "inner st' c = \<lparr>si_id = ScopeId (next_scope_namespace st) 0, si_kind = Application,
       si_parent = None, si_state = state_byte Open, si_next_id = length (scope_counters st),
       si_children = []\<rparr>"
    and "live st b \<Longrightarrow> inner st' b = inner st b"
  using assms by (auto simp: application_def Let_def new_inner_def live_def inner_def nth_append
      split: if_splits)

lemma application_wf:
  assumes wf: "wf_scopes st" and r: "room (next_scope_namespace st)" and app: "application st = (c, st')"
  shows "wf_scopes st'"
proof -
  note new = application_facts [OF app]
  have tree: "wf_tree st" and ids: "wf_ids st" and gate: "\<And>b. live st b \<Longrightarrow> gated st b"
    using wf by (simp_all add: wf_scopes_def wf_tree_def)
  have ne: "b < c" if "live st b" for b using that by (simp add: new(1) live_bound)
  have less: "m \<le> next_scope_namespace st \<Longrightarrow> m < next_scope_namespace st + 1" for m
    by (rule room_less [OF r])
  have state: "state_of st' b = state_of st b" if "live st b" for b
    by (simp add: state_of_def new(7) [OF that])
  have "wf_ids st'"
    unfolding wf_ids_def
  proof (intro conjI allI impI)
    fix b assume b: "live st' b"
    then show "si_next_id (inner st' b) < length (scope_counters st')"
      and "scope_namespace (si_id (inner st' b)) < next_scope_namespace st'"
      and "scope_sequence (si_id (inner st' b)) < scope_counters st' ! si_next_id (inner st' b)"
      using wf_idsD [OF ids, of b] less order_less_imp_le ne [of b]
      by (cases "b = c"; simp add: new(3-7) nth_append)+
  next
    fix b d assume bd: "live st' b" "live st' d"
    have dist: "scope_namespace (si_id (inner st e)) \<noteq> next_scope_namespace st"
      "si_next_id (inner st e) \<noteq> length (scope_counters st)" if "live st e" for e
      using wf_idsD(1,2) [OF ids that] by auto
    have dist_id: "si_id (inner st e) \<noteq> ScopeId (next_scope_namespace st) 0" if "live st e" for e
      using dist(1) [OF that] by auto
    show "(scope_namespace (si_id (inner st' b)) = scope_namespace (si_id (inner st' d)))
        = (si_next_id (inner st' b) = si_next_id (inner st' d))"
      using bd wf_idsD(4) [OF ids] dist dist [symmetric]
      by (cases "b = c"; cases "d = c") (simp_all add: new(5-7))
    show "b = d" if "si_id (inner st' b) = si_id (inner st' d)"
      using that bd wf_idsD(5) [OF ids] dist_id dist_id [symmetric]
      by (cases "b = c"; cases "d = c") (auto simp: new(5-7))
  qed
  moreover have "wf_scope st' b" if b: "live st' b" for b
  proof (cases "b = c")
    case True
    then show ?thesis by (simp add: wf_scope_def new(6))
  next
    case False
    then have lb: "live st b" using b by (simp add: new(5))
    note w = wf_treeD [OF tree lb]
    have cs: "e < length (scope_inners st') \<and> (live st' e \<longrightarrow> si_parent (inner st' e) = Some b)"
      if "e \<in> set (si_children (inner st b))" for e
      using w(5,6) [OF that] by (auto simp: new(1,2,5,7))
    have ps: "p < b \<and> (live st' p \<longrightarrow> (state_of st' p = Closed \<longrightarrow> state_of st' b = Closed) \<and>
        (b \<in> set (si_children (inner st' p)) \<longleftrightarrow> state_of st' b \<noteq> Closed))"
      if "si_parent (inner st b) = Some p" for p
      using w(2-4) [OF that] ne [OF lb] by (auto simp: new(5,7) state lb)
    show ?thesis
      unfolding wf_scope_def new(7) [OF lb] using w(1,7) cs ps by blast
  qed
  moreover have "gated st' b" if b: "live st' b" for b
  proof (cases "b = c")
    case True
    then show ?thesis by (simp add: gated_def new(6))
  next
    case False
    then have lb: "live st b" using b by (simp add: new(5))
    have "p \<noteq> c" if "si_parent (inner st b) = Some p" for p
      using wf_treeD(2) [OF tree lb that] ne [OF lb] by auto
    then show ?thesis
      using gate [OF lb] by (auto simp: gated_def new(5,7) lb state)
  qed
  ultimately show ?thesis by (simp add: wf_scopes_def wf_tree_def)
qed

end
