(* ===== verification/Scope_Race.thy ===== *)
theory Scope_Race
  imports Scope
begin

text \<open>
  Admission racing closure: \<open>Scope::child\<close> takes \<open>&self\<close> and may run on many threads while another
  closes the same scope. The step relation interleaves the atomic accesses of any number of threads
  in \<open>child\<close> (\<open>kernox-runtime/src/scope.rs\<close>) with one in \<open>begin_close\<close>: the state byte, the identity
  counter and the registry behind its mutex, each access sequentially consistent. A thread stands
  for the child it creates.
\<close>

section \<open>Threads and steps\<close>

datatype child_pc =
    CheckOpen               \<comment> \<open>before the first test of the state\<close>
  | FetchSequence           \<comment> \<open>before \<open>next_id.fetch_add\<close>\<close>
  | LockRegistry "64 word"  \<comment> \<open>the child exists, the mutex is not yet held\<close>
  | Recheck "64 word"       \<comment> \<open>the mutex is held, before the second test\<close>
  | Push "64 word"          \<comment> \<open>the mutex is held and the scope was open\<close>
  | Admitted "64 word"
  | Rejected

datatype close_pc =
    Swap                    \<comment> \<open>before the state is swapped to closing\<close>
  | LockCopy                \<comment> \<open>before the mutex is taken\<close>
  | Copy                    \<comment> \<open>the mutex is held, before the registry is cloned\<close>
  | Notify "nat list"       \<comment> \<open>the children still to begin closing\<close>

datatype lock_owner = Unlocked | HeldByChild nat | HeldByCloser

record race =
  rc_state :: scope_state
  rc_next_id :: "64 word"
  rc_lock :: lock_owner
  rc_registry :: "nat list"
  rc_threads :: "nat \<Rightarrow> child_pc"
  rc_closer :: close_pc
  rc_closing :: "nat list"   \<comment> \<open>the children whose own closure has begun\<close>

definition set_thread :: "nat \<Rightarrow> child_pc \<Rightarrow> race \<Rightarrow> race" where
  "set_thread i pc s = s\<lparr>rc_threads := (rc_threads s)(i := pc)\<rparr>"

inductive race_step :: "race \<Rightarrow> race \<Rightarrow> bool" where
  check_open: "rc_threads s i = CheckOpen \<Longrightarrow> rc_state s = Open \<Longrightarrow>
    race_step s (set_thread i FetchSequence s)"
| check_refused: "rc_threads s i = CheckOpen \<Longrightarrow> rc_state s \<noteq> Open \<Longrightarrow>
    race_step s (set_thread i Rejected s)"
| fetch_sequence: "rc_threads s i = FetchSequence \<Longrightarrow>
    race_step s (set_thread i (LockRegistry (rc_next_id s)) (s\<lparr>rc_next_id := rc_next_id s + 1\<rparr>))"
| lock_registry: "rc_threads s i = LockRegistry n \<Longrightarrow> rc_lock s = Unlocked \<Longrightarrow>
    race_step s (set_thread i (Recheck n) (s\<lparr>rc_lock := HeldByChild i\<rparr>))"
| recheck_open: "rc_threads s i = Recheck n \<Longrightarrow> rc_state s = Open \<Longrightarrow>
    race_step s (set_thread i (Push n) s)"
| recheck_refused: "rc_threads s i = Recheck n \<Longrightarrow> rc_state s \<noteq> Open \<Longrightarrow>
    race_step s (set_thread i Rejected (s\<lparr>rc_lock := Unlocked\<rparr>))"
| push_child: "rc_threads s i = Push n \<Longrightarrow>
    race_step s (set_thread i (Admitted n)
      (s\<lparr>rc_registry := rc_registry s @ [i], rc_lock := Unlocked\<rparr>))"
| swap_state: "rc_closer s = Swap \<Longrightarrow>
    race_step s (s\<lparr>rc_state := Closing, rc_closer := LockCopy\<rparr>)"
| lock_copy: "rc_closer s = LockCopy \<Longrightarrow> rc_lock s = Unlocked \<Longrightarrow>
    race_step s (s\<lparr>rc_lock := HeldByCloser, rc_closer := Copy\<rparr>)"
| copy_registry: "rc_closer s = Copy \<Longrightarrow>
    race_step s (s\<lparr>rc_lock := Unlocked, rc_closer := Notify (rc_registry s)\<rparr>)"
| notify_child: "rc_closer s = Notify (c # cs) \<Longrightarrow>
    race_step s (s\<lparr>rc_closer := Notify cs, rc_closing := c # rc_closing s\<rparr>)"

definition race_start :: race where
  "race_start = \<lparr>rc_state = Open, rc_next_id = 1, rc_lock = Unlocked, rc_registry = [],
     rc_threads = (\<lambda>_. CheckOpen), rc_closer = Swap, rc_closing = []\<rparr>"

inductive race_reach :: "race \<Rightarrow> bool" where
  race_init: "race_reach race_start"
| race_more: "race_reach s \<Longrightarrow> race_step s s' \<Longrightarrow> race_reach s'"

section \<open>The invariant\<close>

definition holds_lock :: "child_pc \<Rightarrow> bool" where
  "holds_lock pc \<longleftrightarrow> (\<exists>n. pc = Recheck n \<or> pc = Push n)"

lemma holds_lock_simps [simp]:
  "\<not> holds_lock CheckOpen" "\<not> holds_lock FetchSequence" "\<not> holds_lock (LockRegistry n)"
  "holds_lock (Recheck n)" "holds_lock (Push n)" "\<not> holds_lock (Admitted n)" "\<not> holds_lock Rejected"
  by (simp_all add: holds_lock_def)

definition admitted_pc :: "child_pc \<Rightarrow> bool" where
  "admitted_pc pc \<longleftrightarrow> (\<exists>n. pc = Admitted n)"

lemma admitted_pc_simps [simp]:
  "\<not> admitted_pc CheckOpen" "\<not> admitted_pc FetchSequence" "\<not> admitted_pc (LockRegistry n)"
  "\<not> admitted_pc (Recheck n)" "\<not> admitted_pc (Push n)" "admitted_pc (Admitted n)"
  "\<not> admitted_pc Rejected"
  by (simp_all add: admitted_pc_def)

definition lock_inv :: "race \<Rightarrow> bool" where
  \<comment> \<open>the mutex is held by the thread that stands inside its critical section\<close>
  "lock_inv s \<longleftrightarrow> (\<forall>i. holds_lock (rc_threads s i) \<longleftrightarrow> rc_lock s = HeldByChild i) \<and>
     (rc_closer s = Copy \<longleftrightarrow> rc_lock s = HeldByCloser)"

definition registry_inv :: "race \<Rightarrow> bool" where
  \<comment> \<open>exactly the admitted children are registered, and admission is open before the swap\<close>
  "registry_inv s \<longleftrightarrow> (\<forall>i. i \<in> set (rc_registry s) \<longleftrightarrow> admitted_pc (rc_threads s i)) \<and>
     (rc_closer s = Swap \<longleftrightarrow> rc_state s = Open)"

definition notify_inv :: "race \<Rightarrow> bool" where
  \<comment> \<open>once the registry is cloned nothing is pushed, and it is what the closer still has to notify\<close>
  "notify_inv s \<longleftrightarrow> (case rc_closer s of
     Notify cs \<Rightarrow> (\<forall>i n. rc_threads s i \<noteq> Push n) \<and> set (rc_registry s) = set cs \<union> set (rc_closing s)
   | _ \<Rightarrow> rc_closing s = [])"

lemmas race_inv_defs = lock_inv_def registry_inv_def notify_inv_def

lemma set_thread_simps [simp]:
  "rc_state (set_thread i pc s) = rc_state s" "rc_lock (set_thread i pc s) = rc_lock s"
  "rc_registry (set_thread i pc s) = rc_registry s" "rc_closer (set_thread i pc s) = rc_closer s"
  "rc_closing (set_thread i pc s) = rc_closing s"
  "rc_threads (set_thread i pc s) j = (if j = i then pc else rc_threads s j)"
  by (simp_all add: set_thread_def)

lemma race_start_inv: "lock_inv race_start \<and> registry_inv race_start \<and> notify_inv race_start"
  by (simp add: race_inv_defs race_start_def)

lemma lock_owned:
  assumes "lock_inv s" and "holds_lock (rc_threads s i)"
  shows "rc_lock s = HeldByChild i" and "rc_closer s \<noteq> Copy"
    and "j \<noteq> i \<Longrightarrow> \<not> holds_lock (rc_threads s j)"
proof -
  show "rc_lock s = HeldByChild i" using assms by (simp add: lock_inv_def)
  with assms(1) show "rc_closer s \<noteq> Copy" "j \<noteq> i \<Longrightarrow> \<not> holds_lock (rc_threads s j)"
    by (simp_all add: lock_inv_def)
qed

lemma lock_inv_set_thread:
  assumes "lock_inv s" and "holds_lock pc = holds_lock (rc_threads s i)"
  shows "lock_inv (set_thread i pc s)"
  using assms(1) unfolding lock_inv_def by (simp add: assms(2))

lemma lock_inv_next_id [simp]: "lock_inv (s\<lparr>rc_next_id := n\<rparr>) = lock_inv s"
  by (simp add: lock_inv_def)

lemma lock_inv_step: "race_step s s' \<Longrightarrow> lock_inv s \<Longrightarrow> lock_inv s'"
proof (induction rule: race_step.induct)
  case (lock_registry s i n)
  then have "\<forall>j. \<not> holds_lock (rc_threads s j)" "rc_closer s \<noteq> Copy" by (simp_all add: lock_inv_def)
  then show ?case by (simp add: lock_inv_def)
next
  case (recheck_refused s i n)
  note owner = lock_owned [OF recheck_refused.prems, of i]
  from recheck_refused.hyps owner show ?case by (simp add: lock_inv_def)
next
  case (push_child s i n)
  note owner = lock_owned [OF push_child.prems, of i]
  from push_child.hyps owner show ?case by (simp add: lock_inv_def)
next
  case (swap_state s)
  then show ?case by (simp add: lock_inv_def)
next
  case (lock_copy s)
  then show ?case by (simp add: lock_inv_def)
next
  case (copy_registry s)
  then show ?case by (simp add: lock_inv_def)
next
  case (notify_child s c cs)
  then show ?case by (simp add: lock_inv_def)
qed (simp_all add: lock_inv_set_thread)

lemma registry_inv_step: "race_step s s' \<Longrightarrow> registry_inv s \<Longrightarrow> registry_inv s'"
  by (induction rule: race_step.induct) (auto simp: registry_inv_def split: if_splits)

lemma copy_excludes_push: "lock_inv s \<Longrightarrow> rc_closer s = Copy \<Longrightarrow> rc_threads s i \<noteq> Push n"
  by (metis holds_lock_simps(5) lock_inv_def lock_owner.distinct(5))

lemma notify_inv_step:
  "race_step s s' \<Longrightarrow> lock_inv s \<Longrightarrow> registry_inv s \<Longrightarrow> notify_inv s \<Longrightarrow> notify_inv s'"
  by (induction rule: race_step.induct)
    (auto simp: registry_inv_def notify_inv_def copy_excludes_push split: if_splits close_pc.splits)

lemma race_reach_inv: "race_reach s \<Longrightarrow> lock_inv s \<and> registry_inv s \<and> notify_inv s"
proof (induction rule: race_reach.induct)
  case (race_more s s')
  then show ?case using lock_inv_step registry_inv_step notify_inv_step by blast
qed (rule race_start_inv)

section \<open>No child escapes\<close>

text \<open>C9: whatever the interleaving, when the closer has nothing left to notify every child that was
  or is still being admitted is accounted for: the admitted ones have all begun to close, and no
  thread can still register one.\<close>

theorem no_child_escapes:
  assumes "race_reach s" and "rc_closer s = Notify []"
  shows "\<forall>i n. (rc_threads s i = Admitted n \<longrightarrow> i \<in> set (rc_closing s)) \<and> rc_threads s i \<noteq> Push n \<and>
    rc_state s \<noteq> Open"
  using race_reach_inv [OF assms(1)] assms(2)
  by (auto simp: registry_inv_def notify_inv_def)

text \<open>A run in which thread 0 has passed its second test when the state is swapped.\<close>

definition race_trace :: "nat \<Rightarrow> race" where
  "race_trace k = (if k = 0 then race_start
     else \<lparr>rc_state = (if k < 6 then Open else Closing), rc_next_id = (if k < 3 then 1 else 2),
       rc_lock = (if k \<in> {4, 5, 6} then HeldByChild 0 else if k = 8 then HeldByCloser else Unlocked),
       rc_registry = (if k < 7 then [] else [0]),
       rc_threads = (\<lambda>_. CheckOpen)(0 := ([CheckOpen, CheckOpen, FetchSequence, LockRegistry 1, Recheck 1,
         Push 1, Push 1, Admitted 1, Admitted 1, Admitted 1, Admitted 1] ! k)),
       rc_closer = ([Swap, Swap, Swap, Swap, Swap, Swap, LockCopy, LockCopy, Copy, Notify [0], Notify []] ! k),
       rc_closing = (if k < 10 then [] else [0])\<rparr>)"

lemma race_trace_reach: "race_reach (race_trace 10)"
proof -
  have go: "race_reach s \<Longrightarrow> race_step s t \<Longrightarrow> t = s' \<Longrightarrow> race_reach s'" for s t s'
    by (auto intro: race_more)
  have "race_reach (race_trace 1)" using race_init by (simp add: race_trace_def race_start_def fun_upd_idem)
  then have "race_reach (race_trace 2)"
    by (rule go [OF _ check_open [of _ 0]]) (simp_all add: race_trace_def set_thread_def)
  then have "race_reach (race_trace 3)"
    by (rule go [OF _ fetch_sequence [of _ 0]]) (simp_all add: race_trace_def set_thread_def)
  then have "race_reach (race_trace 4)"
    by (rule go [OF _ lock_registry [of _ 0 1]]) (simp_all add: race_trace_def set_thread_def)
  then have "race_reach (race_trace 5)"
    by (rule go [OF _ recheck_open [of _ 0 1]]) (simp_all add: race_trace_def set_thread_def)
  then have "race_reach (race_trace 6)"
    by (rule go [OF _ swap_state]) (simp_all add: race_trace_def)
  then have "race_reach (race_trace 7)"
    by (rule go [OF _ push_child [of _ 0 1]]) (simp_all add: race_trace_def set_thread_def)
  then have "race_reach (race_trace 8)"
    by (rule go [OF _ lock_copy]) (simp_all add: race_trace_def)
  then have "race_reach (race_trace 9)"
    by (rule go [OF _ copy_registry]) (simp_all add: race_trace_def)
  then show ?thesis
    by (rule go [OF _ notify_child [of _ 0 "[]"]]) (simp_all add: race_trace_def)
qed

lemma no_child_escapes_witness:
  "rc_threads (race_trace 10) 0 = Admitted 1 \<and> 0 \<in> set (rc_closing (race_trace 10))"
proof -
  have "rc_closer (race_trace 10) = Notify []" and admitted: "rc_threads (race_trace 10) 0 = Admitted 1"
    by (simp_all add: race_trace_def)
  from no_child_escapes [OF race_trace_reach this(1)] admitted show ?thesis by blast
qed

end
