(* ===== verification/Capability.thy ===== *)
theory Capability
  imports Resolve
begin

text \<open>
  \<open>kernox-runtime/src/capability.rs\<close> and the contract, provision and access errors of
  \<open>kernox-runtime/src/error.rs\<close>: capability contracts, the staged provisions of one plugin, their
  transactional publication, and the typed lookups of an initializing plugin.

  A type that implements \<open>Capability\<close> is a \<open>capability_marker\<close>: its \<open>TypeId\<close> and name, its two
  constants, and the \<open>TypeId\<close> of \<open>Arc<C::Interface>\<close>. A \<open>Box<dyn Any>\<close> is a handle with the
  \<open>TypeId\<close> it was built from, which \<open>downcast_ref\<close> compares. \<open>semver::Version::parse\<close> is not part
  of the repository and is the parameter \<open>parse_version\<close>.
\<close>

section \<open>Contracts and errors\<close>

type_synonym type_id = nat

record capability_marker =
  cm_type :: type_id
  cm_name :: str
  cm_ID :: str
  cm_VERSION :: str
  cm_interface :: type_id

datatype contract_error =
    InvalidContractIdentifier str identifier_error
  | InvalidContractVersion str str               \<comment> \<open>value, reason\<close>

fun contract_error_tag :: "contract_error \<Rightarrow> str" where
  "contract_error_tag (InvalidContractIdentifier _ _) = ''contract.invalid-identifier''"
| "contract_error_tag (InvalidContractVersion _ _) = ''contract.invalid-version''"

datatype 'v provision_error =
    ProvisionContract contract_error
  | ProvisionDuplicate capability_id
  | ProvisionUndeclared plugin_id capability_id
  | ProvisionMissing plugin_id capability_id
  | ProvisionVersionMismatch plugin_id capability_id 'v 'v   \<comment> \<open>declared, actual\<close>

fun provision_error_tag :: "'v provision_error \<Rightarrow> str" where
  "provision_error_tag (ProvisionContract error) = contract_error_tag error"
| "provision_error_tag (ProvisionDuplicate _) = ''provision.duplicate''"
| "provision_error_tag (ProvisionUndeclared _ _) = ''provision.undeclared''"
| "provision_error_tag (ProvisionMissing _ _) = ''provision.missing''"
| "provision_error_tag (ProvisionVersionMismatch _ _ _ _) = ''provision.version-mismatch''"

datatype access_error =
    ApplicationUnavailable
  | AccessContract contract_error
  | AccessUndeclared plugin_id capability_id
  | AccessCardinalityMismatch plugin_id capability_id cardinality
  | AccessMissingProvision plugin_id capability_id
  | AccessTypeMismatch plugin_id capability_id str str       \<comment> \<open>requested, actual\<close>

fun access_error_tag :: "access_error \<Rightarrow> str" where
  "access_error_tag ApplicationUnavailable = ''access.application-unavailable''"
| "access_error_tag (AccessContract error) = contract_error_tag error"
| "access_error_tag (AccessUndeclared _ _) = ''access.undeclared''"
| "access_error_tag (AccessCardinalityMismatch _ _ _) = ''access.cardinality-mismatch''"
| "access_error_tag (AccessMissingProvision _ _) = ''access.missing-provision''"
| "access_error_tag (AccessTypeMismatch _ _ _ _) = ''access.type-mismatch''"

record 'v capability_contract =
  cc_id :: capability_id
  cc_version :: 'v
  cc_marker_type :: type_id
  cc_marker_name :: str

definition contract_of ::
  "(str \<Rightarrow> str + 'v) \<Rightarrow> capability_marker \<Rightarrow> contract_error + 'v capability_contract" where
  "contract_of parse_version C =
     and_then (map_err (InvalidContractIdentifier (cm_ID C)) (capability_id_new (cm_ID C))) (\<lambda>id.
     and_then (map_err (InvalidContractVersion (cm_VERSION C)) (parse_version (cm_VERSION C))) (\<lambda>version.
     Inr \<lparr>cc_id = id, cc_version = version, cc_marker_type = cm_type C, cc_marker_name = cm_name C\<rparr>))"

section \<open>Staged and committed provisions\<close>

record 'h any_value =
  any_type :: type_id
  any_handle :: 'h

definition downcast_ref :: "'h any_value \<Rightarrow> type_id \<Rightarrow> 'h option" where
  "downcast_ref value t = (if any_type value = t then Some (any_handle value) else None)"

record ('v, 'h) provision =
  pv_contract :: "'v capability_contract"
  pv_value :: "'h any_value"

type_synonym ('v, 'h) provision_set = "(capability_id, ('v, 'h) provision) btree_map"
type_synonym ('v, 'h) registry = "(plugin_id \<times> capability_id, ('v, 'h) provision) btree_map"

definition provision_set_provide ::
  "(str \<Rightarrow> str + 'v) \<Rightarrow> capability_marker \<Rightarrow> 'h \<Rightarrow> ('v, 'h) provision_set
     \<Rightarrow> 'v provision_error + ('v, 'h) provision_set" where
  "provision_set_provide parse_version C value self =
     and_then (map_err ProvisionContract (contract_of parse_version C)) (\<lambda>contract.
       let id = cc_id contract;
           previous = bm_get self id;
           self = bm_insert id \<lparr>pv_contract = contract,
             pv_value = \<lparr>any_type = cm_interface C, any_handle = value\<rparr>\<rparr> self
       in if previous \<noteq> None then Inl (ProvisionDuplicate id) else Inr self)"

definition check_staged ::
  "plugin_id \<Rightarrow> ('v, 'q) plugin_descriptor \<Rightarrow> capability_id \<times> ('v, 'h) provision
     \<Rightarrow> 'v provision_error + unit" where
  "check_staged plugin descriptor = (\<lambda>(capability, provision).
     case find (\<lambda>ofr. offer_id ofr = capability) (provides descriptor) of
       None \<Rightarrow> Inl (ProvisionUndeclared plugin capability)
     | Some ofr \<Rightarrow>
         if offer_version ofr \<noteq> cc_version (pv_contract provision) then
           Inl (ProvisionVersionMismatch plugin capability (offer_version ofr)
             (cc_version (pv_contract provision)))
         else Inr ())"

definition check_offered ::
  "plugin_id \<Rightarrow> ('v, 'h) provision_set \<Rightarrow> 'v capability_offer \<Rightarrow> 'v provision_error + unit" where
  "check_offered plugin staged ofr =
     (if \<not> bm_contains staged (offer_id ofr) then Inl (ProvisionMissing plugin (offer_id ofr))
      else Inr ())"

definition commit ::
  "plugin_id \<Rightarrow> ('v, 'q) plugin_descriptor \<Rightarrow> ('v, 'h) provision_set \<Rightarrow> ('v, 'h) registry
     \<Rightarrow> ('v provision_error + unit) \<times> ('v, 'h) registry" where
  "commit plugin descriptor staged self =
     (case for_each (\<lambda>entry _. check_staged plugin descriptor entry) staged () of
        Inl error \<Rightarrow> (Inl error, self)
      | Inr _ \<Rightarrow>
          (case for_each (\<lambda>offer _. check_offered plugin staged offer) (provides descriptor) () of
             Inl error \<Rightarrow> (Inl error, self)
           | Inr _ \<Rightarrow>
               (Inr (), fold (\<lambda>(capability, provision). bm_insert (plugin, capability) provision)
                  staged self)))"

definition registry_get ::
  "capability_marker \<Rightarrow> ('v, 'h) registry \<Rightarrow> plugin_id \<Rightarrow> 'v capability_contract
     \<Rightarrow> access_error + 'h" where
  "registry_get C self provider contract =
     (case bm_get self (provider, cc_id contract) of
        None \<Rightarrow> Inl (AccessMissingProvision provider (cc_id contract))
      | Some provision \<Rightarrow>
          let mismatch = AccessTypeMismatch provider (cc_id contract)
                (cc_marker_name contract) (cc_marker_name (pv_contract provision))
          in if cc_marker_type (pv_contract provision) \<noteq> cc_marker_type contract then Inl mismatch
             else (case downcast_ref (pv_value provision) (cm_interface C) of
                     None \<Rightarrow> Inl mismatch | Some handle \<Rightarrow> Inr handle))"

section \<open>Access during initialization\<close>

record ('v, 'q, 'h) initialization_context =
  ctx_consumer :: plugin_id
  ctx_graph :: "('v, 'q) resolved_graph"
  ctx_registry :: "('v, 'h) registry"

definition ctx_requirement ::
  "('v, 'q, 'h) initialization_context \<Rightarrow> capability_id \<Rightarrow> access_error + resolved_requirement" where
  "ctx_requirement ctx capability =
     (case requirement (ctx_graph ctx) (ctx_consumer ctx) capability of
        None \<Rightarrow> Inl (AccessUndeclared (ctx_consumer ctx) capability)
      | Some r \<Rightarrow> Inr r)"

definition cardinality_error ::
  "('v, 'q, 'h) initialization_context \<Rightarrow> resolved_requirement \<Rightarrow> access_error" where
  "cardinality_error ctx r =
     AccessCardinalityMismatch (ctx_consumer ctx) (rr_capability r) (rr_cardinality r)"

definition ctx_require ::
  "(str \<Rightarrow> str + 'v) \<Rightarrow> capability_marker \<Rightarrow> ('v, 'q, 'h) initialization_context
     \<Rightarrow> access_error fault + 'h" where
  "ctx_require parse_version C ctx =
     and_then (fallible (map_err AccessContract (contract_of parse_version C))) (\<lambda>contract.
     and_then (fallible (ctx_requirement ctx (cc_id contract))) (\<lambda>r.
       if rr_cardinality r \<noteq> ExactlyOne then Inl (Err (cardinality_error ctx r))
       else case rr_providers r of
           [] \<Rightarrow> Inl Panic
         | provider # _ \<Rightarrow> fallible (registry_get C (ctx_registry ctx) provider contract)))"

definition ctx_optional ::
  "(str \<Rightarrow> str + 'v) \<Rightarrow> capability_marker \<Rightarrow> ('v, 'q, 'h) initialization_context
     \<Rightarrow> access_error + 'h option" where
  "ctx_optional parse_version C ctx =
     and_then (map_err AccessContract (contract_of parse_version C)) (\<lambda>contract.
     and_then (ctx_requirement ctx (cc_id contract)) (\<lambda>r.
       if rr_cardinality r \<noteq> ZeroOrOne then Inl (cardinality_error ctx r)
       else case rr_providers r of
           [] \<Rightarrow> Inr None
         | provider # _ \<Rightarrow>
             and_then (registry_get C (ctx_registry ctx) provider contract) (\<lambda>h. Inr (Some h))))"

definition ctx_all ::
  "(str \<Rightarrow> str + 'v) \<Rightarrow> capability_marker \<Rightarrow> ('v, 'q, 'h) initialization_context
     \<Rightarrow> access_error + 'h list" where
  "ctx_all parse_version C ctx =
     and_then (map_err AccessContract (contract_of parse_version C)) (\<lambda>contract.
     and_then (ctx_requirement ctx (cc_id contract)) (\<lambda>r.
       if rr_cardinality r \<noteq> ZeroOrMore \<and> rr_cardinality r \<noteq> OneOrMore then Inl (cardinality_error ctx r)
       else for_each (\<lambda>provider handles.
           and_then (registry_get C (ctx_registry ctx) provider contract) (\<lambda>h. Inr (handles @ [h])))
         (rr_providers r) []))"

definition root_capability ::
  "(str \<Rightarrow> str + 'v) \<Rightarrow> capability_marker \<Rightarrow> ('v, 'h) registry \<Rightarrow> plugin_id \<Rightarrow> access_error + 'h" where
  "root_capability parse_version C registry provider =
     and_then (map_err AccessContract (contract_of parse_version C)) (\<lambda>contract.
       registry_get C registry provider contract)"

section \<open>Publication\<close>

definition agrees :: "('v, 'q) plugin_descriptor \<Rightarrow> ('v, 'h) provision_set \<Rightarrow> bool" where
  \<comment> \<open>the staged set publishes exactly the declared offers, each at its declared version\<close>
  "agrees d staged \<longleftrightarrow> set (bm_keys staged) = offer_id ` set (provides d) \<and>
     (\<forall>(c, p) \<in> set staged. \<forall>ofr \<in> set (provides d).
        offer_id ofr = c \<longrightarrow> offer_version ofr = cc_version (pv_contract p))"

lemma find_offer:
  assumes "descriptor_wf d" and "ofr \<in> set (provides d)"
  shows "find (\<lambda>o'. offer_id o' = offer_id ofr) (provides d) = Some ofr"
proof -
  obtain o' where o': "find (\<lambda>o'. offer_id o' = offer_id ofr) (provides d) = Some o'"
    using assms(2) by (metis (mono_tags, lifting) find_None_iff not_None_eq)
  then have "o' \<in> set (provides d)" "offer_id o' = offer_id ofr" using find_SomeD by fastforce+
  with assms have "o' = ofr" using provides_offer [OF assms(1)] by (metis option.inject)
  with o' show ?thesis by simp
qed

lemma check_staged_ok:
  assumes "descriptor_wf d"
  shows "check_staged p d (c, s) = Inr () \<longleftrightarrow>
    (\<exists>ofr \<in> set (provides d). offer_id ofr = c \<and> offer_version ofr = cc_version (pv_contract s))"
proof
  assume "check_staged p d (c, s) = Inr ()"
  then obtain ofr where "find (\<lambda>o'. offer_id o' = c) (provides d) = Some ofr"
    "offer_version ofr = cc_version (pv_contract s)"
    by (auto simp: check_staged_def split: option.splits if_splits)
  then show "\<exists>ofr \<in> set (provides d). offer_id ofr = c \<and> offer_version ofr = cc_version (pv_contract s)"
    using find_SomeD by fastforce
qed (auto simp: check_staged_def find_offer [OF assms])

lemma commit_checks_iff:
  assumes "descriptor_wf d"
  shows "(\<forall>entry \<in> set staged. check_staged p d entry = Inr ()) \<and>
    (\<forall>ofr \<in> set (provides d). check_offered p staged ofr = Inr ()) \<longleftrightarrow> agrees d staged"
    (is "?L \<longleftrightarrow> _")
proof
  assume L: ?L
  then have staged: "\<exists>ofr \<in> set (provides d). offer_id ofr = c \<and> offer_version ofr = cc_version (pv_contract s)"
    if "(c, s) \<in> set staged" for c s
    using that check_staged_ok [OF assms] by blast
  have "offer_id ofr \<in> set (bm_keys staged)" if "ofr \<in> set (provides d)" for ofr
    using L that by (auto simp: check_offered_def bm_contains_iff split: if_splits)
  moreover have "offer_version ofr = cc_version (pv_contract s)"
    if "(c, s) \<in> set staged" "ofr \<in> set (provides d)" "offer_id ofr = c" for c s ofr
    using staged [OF that(1)] provides_offer [OF assms] that(2,3) by (metis option.inject)
  ultimately show "agrees d staged"
    using staged by (fastforce simp: agrees_def bm_keys_def)
next
  assume R: "agrees d staged"
  have "check_staged p d (c, s) = Inr ()" if "(c, s) \<in> set staged" for c s
  proof -
    have "c \<in> set (bm_keys staged)" using that by (force simp: bm_keys_def)
    then obtain ofr where "ofr \<in> set (provides d)" "offer_id ofr = c"
      using R by (auto simp: agrees_def)
    with R that show ?thesis by (fastforce simp: check_staged_ok [OF assms] agrees_def)
  qed
  moreover have "check_offered p staged ofr = Inr ()" if "ofr \<in> set (provides d)" for ofr
    using R that by (auto simp: check_offered_def bm_contains_iff agrees_def)
  ultimately show ?L by auto
qed

lemma published_get:
  assumes "bm_wf reg" and "bm_wf staged"
  shows "bm_wf (fold (\<lambda>(c, s). bm_insert (p, c) s) staged reg) \<and>
    bm_get (fold (\<lambda>(c, s). bm_insert (p, c) s) staged reg) (q, c) =
      (if q = p \<and> c \<in> set (bm_keys staged) then bm_get staged c else bm_get reg (q, c))"
  using assms
proof (induction staged arbitrary: reg)
  case (Cons e staged)
  obtain c' s' where e: "e = (c', s')" by (cases e)
  have "c' \<notin> set (bm_keys staged)" using Cons.prems(2) by (auto simp: e bm_wf_Cons)
  with Cons.IH [of "bm_insert (p, c') s' reg"] Cons.prems show ?case
    by (auto simp: e bm_wf_insert bm_get_insert bm_wf_Cons)
qed simp

lemma commit_cases:
  assumes "descriptor_wf d"
  shows "agrees d staged \<Longrightarrow>
      commit p d staged reg = (Inr (), fold (\<lambda>(c, s). bm_insert (p, c) s) staged reg)"
    and "\<not> agrees d staged \<Longrightarrow> \<exists>e. commit p d staged reg = (Inl e, reg)"
proof -
  let ?a = "for_each (\<lambda>entry _. check_staged p d entry) staged ()"
  let ?b = "for_each (\<lambda>ofr _. check_offered p staged ofr) (provides d) ()"
  have iff: "?a = Inr () \<and> ?b = Inr () \<longleftrightarrow> agrees d staged"
    using commit_checks_iff [OF assms] by (simp add: for_each_check_ok)
  show "agrees d staged \<Longrightarrow>
      commit p d staged reg = (Inr (), fold (\<lambda>(c, s). bm_insert (p, c) s) staged reg)"
    using iff by (simp add: commit_def)
  show "\<not> agrees d staged \<Longrightarrow> \<exists>e. commit p d staged reg = (Inl e, reg)"
    using iff by (cases ?a; cases ?b) (auto simp: commit_def)
qed

end
