(* ===== verification/Runnable_Graph.thy ===== *)
theory Runnable_Graph
  imports Resolve_Props
begin

text \<open>
  What the runtime relies on in a resolved graph: its plugin map and requirement index are ordered,
  every selected provider exists, offers the capability and precedes its consumer in the startup
  order, and a selection has the number of providers its cardinality allows. Every graph that
  \<open>resolve\<close> returns has these properties.
\<close>

definition serves :: "('v, 'q) resolved_graph \<Rightarrow> resolved_requirement \<Rightarrow> bool" where
  \<comment> \<open>the selection of a requirement agrees with its cardinality, offers the capability and starts first\<close>
  "serves g r \<longleftrightarrow> admits (rr_cardinality r) (length (rr_providers r)) \<and>
     (\<forall>p \<in> set (rr_providers r). (\<exists>d. graph_plugin g p = Some d \<and> offer d (rr_capability r) \<noteq> None) \<and>
        precedes (rg_startup_order g) p (rr_consumer r))"

definition runnable_graph :: "('v, 'q) resolved_graph \<Rightarrow> bool" where
  "runnable_graph g \<longleftrightarrow>
     bm_wf (rg_plugins g) \<and> (\<forall>(p, d) \<in> set (rg_plugins g). pd_id d = p \<and> descriptor_wf d) \<and>
     distinct (rg_startup_order g) \<and> set (rg_startup_order g) = set (bm_keys (rg_plugins g)) \<and>
     ascending (map requirement_key (rg_requirements g)) \<and>
     (\<forall>r \<in> set (rg_requirements g). serves g r)"

lemma chosen_served:
  assumes "satisfiable matches ds bs d r"
  shows "admits (req_cardinality r) (length (chosen matches ds bs d r))"
    and "p \<in> set (chosen matches ds bs d r) \<Longrightarrow> \<exists>d' \<in> set ds. pd_id d' = p \<and> offer d' (req_id r) \<noteq> None"
proof -
  show "admits (req_cardinality r) (length (chosen matches ds bs d r))"
    using assms by (cases "req_cardinality r")
      (auto simp: satisfiable_def chosen_def is_bindable_def split: option.splits)
  assume "p \<in> set (chosen matches ds bs d r)"
  then have "p \<in> set (compatible_ids matches ds r)"
    using assms by (auto simp: satisfiable_def chosen_def split: option.splits)
  then show "\<exists>d' \<in> set ds. pd_id d' = p \<and> offer d' (req_id r) \<noteq> None"
    by (auto simp: compatible_ids_def offers_match_def split: option.splits)
qed

lemma resolved_runnable:
  assumes wf: "\<forall>d \<in> set (spec_plugins spec). descriptor_wf d" and run: "resolve matches spec = Inr g"
  shows "runnable_graph g"
proof -
  let ?ds = "spec_plugins spec" and ?bs = "spec_bindings spec"
  have valid: "valid_composition matches spec" and g: "resolves_to matches spec g"
    using resolve_correct [OF wf] run by blast+
  have map: "bm_wf (rg_plugins g)" "set (rg_plugins g) = (\<lambda>d. (pd_id d, d)) ` set ?ds"
    and rs: "ascending (map requirement_key (rg_requirements g))"
      "set (rg_requirements g) = expected_requirements matches ?ds ?bs"
    and es: "rg_edges g = dependency_edges matches ?ds ?bs"
    and top: "topological (pd_id ` set ?ds) (edge_preds (rg_edges g)) (rg_startup_order g)"
    using g by (simp_all add: resolves_to_def Let_def least_topological_def)
  have keys: "set (bm_keys (rg_plugins g)) = pd_id ` set ?ds"
    by (simp add: bm_keys_def map(2) image_image)
  have "serves g r" if r: "r \<in> set (rg_requirements g)" for r
  proof -
    from r rs(2) obtain d q where dq: "d \<in> set ?ds" "q \<in> set (requires d)"
      and r_eq: "r = \<lparr>rr_consumer = pd_id d, rr_capability = req_id q, rr_cardinality = req_cardinality q,
        rr_providers = chosen matches ?ds ?bs d q\<rparr>"
      by (auto simp: expected_requirements_def)
    have sat: "satisfiable matches ?ds ?bs d q"
      using valid dq by (simp add: valid_composition_def Let_def)
    have "precedes (rg_startup_order g) p (pd_id d)" if p: "p \<in> set (chosen matches ?ds ?bs d q)" for p
    proof -
      have "ResolvedEdge p (pd_id d) (req_id q) \<in> set (rg_edges g)"
        unfolding es set_dependency_edges using dq p by blast
      then have "p \<in> edge_preds (rg_edges g) (pd_id d)" by (force simp: edge_preds_def)
      then show ?thesis using topological_precedes [OF top] dq(1) by blast
    qed
    moreover have "\<exists>d'. graph_plugin g p = Some d' \<and> offer d' (req_id q) \<noteq> None"
      if "p \<in> set (chosen matches ?ds ?bs d q)" for p
    proof -
      from chosen_served(2) [OF sat that] obtain d' where
        "d' \<in> set ?ds" "pd_id d' = p" "offer d' (req_id q) \<noteq> None" by blast
      then show ?thesis
        by (auto simp: graph_plugin_def bm_get_eq_Some_iff [OF map(1)] map(2))
    qed
    ultimately show ?thesis using chosen_served(1) [OF sat] by (simp add: serves_def r_eq)
  qed
  then show ?thesis
    using map rs(1) top wf keys by (auto simp: runnable_graph_def topological_def)
qed

lemma runnable_graphD:
  assumes "runnable_graph g"
  shows "bm_wf (rg_plugins g)" and "graph_plugin g p = Some d \<Longrightarrow> pd_id d = p \<and> descriptor_wf d"
    and "distinct (rg_startup_order g)"
    and "p \<in> set (rg_startup_order g) \<longleftrightarrow> (\<exists>d. graph_plugin g p = Some d)"
    and "requirement g p c = Some r \<Longrightarrow> serves g r \<and> rr_consumer r = p \<and> rr_capability r = c"
proof -
  show "bm_wf (rg_plugins g)" "distinct (rg_startup_order g)"
    using assms by (simp_all add: runnable_graph_def)
  show "graph_plugin g p = Some d \<Longrightarrow> pd_id d = p \<and> descriptor_wf d"
    using assms bm_get_SomeD by (fastforce simp: runnable_graph_def graph_plugin_def)
  show "p \<in> set (rg_startup_order g) \<longleftrightarrow> (\<exists>d. graph_plugin g p = Some d)"
    using assms bm_get_None_iff [of "rg_plugins g" p]
    by (auto simp: runnable_graph_def graph_plugin_def)
  show "requirement g p c = Some r \<Longrightarrow> serves g r \<and> rr_consumer r = p \<and> rr_capability r = c"
    using assms by (auto simp: runnable_graph_def requirement_lookup requirement_key_def)
qed

end
