(* ===== verification/Host.thy ===== *)
theory Host
  imports Runnable_Graph
begin

text \<open>
  \<open>kernox-runtime/src/host.rs\<close>, the host negotiation of \<open>kernox-runtime/src/app.rs\<close> and
  \<open>AppResolveError\<close>: what a host supplies, what plugins require of it, and the check that runs once
  the graph is resolved. \<open>VersionReq::matches\<close> is the parameter \<open>matches\<close>, as in \<open>Resolve\<close>.
\<close>

section \<open>Host capabilities\<close>

record 'v host_capability =
  hc_id :: capability_id
  hc_version :: 'v

record 'q host_requirement =
  hr_id :: capability_id
  hr_version :: 'q

datatype ('v, 'q) host_resolution_error =
    HostDuplicateCapability capability_id
  | HostDuplicateRequirement plugin_id capability_id
  | HostMissing plugin_id capability_id 'q
  | HostIncompatible plugin_id capability_id 'q "'v list"

fun host_resolution_error_tag :: "('v, 'q) host_resolution_error \<Rightarrow> str" where
  "host_resolution_error_tag (HostDuplicateCapability _) = ''host.duplicate-capability''"
| "host_resolution_error_tag (HostDuplicateRequirement _ _) = ''host.duplicate-requirement''"
| "host_resolution_error_tag (HostMissing _ _ _) = ''host.missing-capability''"
| "host_resolution_error_tag (HostIncompatible _ _ _ _) = ''host.incompatible-capability''"

datatype ('v, 'q) app_resolve_error =
    GraphError "('v, 'q) resolve_error"
  | HostError "('v, 'q) host_resolution_error"

fun app_resolve_error_tag :: "('v, 'q) app_resolve_error \<Rightarrow> str" where
  "app_resolve_error_tag (GraphError error) = resolve_error_tag error"
| "app_resolve_error_tag (HostError error) = host_resolution_error_tag error"

definition insert_capability ::
  "'v host_capability \<Rightarrow> (capability_id, 'v) btree_map
     \<Rightarrow> ('v, 'q) host_resolution_error + (capability_id, 'v) btree_map" where
  "insert_capability capability capabilities =
     (if bm_get capabilities (hc_id capability) \<noteq> None then Inl (HostDuplicateCapability (hc_id capability))
      else Inr (bm_insert (hc_id capability) (hc_version capability) capabilities))"

definition check_host_requirement ::
  "('q \<Rightarrow> 'v \<Rightarrow> bool) \<Rightarrow> plugin_id \<Rightarrow> (capability_id, 'v) btree_map \<Rightarrow> 'q host_requirement
     \<Rightarrow> capability_id btree_set \<Rightarrow> ('v, 'q) host_resolution_error + capability_id btree_set" where
  "check_host_requirement matches plugin capabilities r seen =
     (if bs_contains seen (hr_id r) then Inl (HostDuplicateRequirement plugin (hr_id r))
      else case bm_get capabilities (hr_id r) of
          None \<Rightarrow> Inl (HostMissing plugin (hr_id r) (hr_version r))
        | Some version \<Rightarrow>
            if \<not> matches (hr_version r) version then
              Inl (HostIncompatible plugin (hr_id r) (hr_version r) [version])
            else Inr (bs_insert (hr_id r) seen))"

type_synonym ('p, 'v, 'q) declared_plugin = "('v, 'q) plugin_descriptor \<times> 'p \<times> 'q host_requirement list"

definition check_declared ::
  "('q \<Rightarrow> 'v \<Rightarrow> bool) \<Rightarrow> (capability_id, 'v) btree_map \<Rightarrow> ('p, 'v, 'q) declared_plugin
     \<Rightarrow> ('v, 'q) host_resolution_error + unit" where
  "check_declared matches capabilities = (\<lambda>(descriptor, _, requirements).
     and_then (for_each (check_host_requirement matches (pd_id descriptor) capabilities) requirements [])
       (\<lambda>_. Inr ()))"

definition validate_host_requirements ::
  "('q \<Rightarrow> 'v \<Rightarrow> bool) \<Rightarrow> ('p, 'v, 'q) declared_plugin list \<Rightarrow> 'v host_capability list
     \<Rightarrow> ('v, 'q) host_resolution_error + unit" where
  "validate_host_requirements matches declared supplied =
     and_then (for_each insert_capability supplied []) (\<lambda>capabilities.
       for_each (\<lambda>entry _. check_declared matches capabilities entry) declared ())"

section \<open>Facts\<close>

lemma insert_capability_loop:
  assumes "bm_wf m"
  shows "(for_each insert_capability supplied m :: ('v, 'q) host_resolution_error + _) = Inr m' \<longleftrightarrow>
    distinct (map hc_id supplied) \<and> (\<forall>c \<in> set supplied. bm_get m (hc_id c) = None) \<and>
    m' = fold (\<lambda>c. bm_insert (hc_id c) (hc_version c)) supplied m"
  using assms
proof (induction supplied arbitrary: m)
  case (Cons c cs)
  from Cons.IH [of "bm_insert (hc_id c) (hc_version c) m"] Cons.prems show ?case
    by (auto simp: insert_capability_def bm_wf_insert bm_get_insert image_iff)
qed auto

lemma fold_capabilities_get:
  assumes "bm_wf m" and "distinct (map hc_id supplied)"
  shows "bm_get (fold (\<lambda>c. bm_insert (hc_id c) (hc_version c)) supplied m) i = Some v \<longleftrightarrow>
    (\<exists>c \<in> set supplied. hc_id c = i \<and> hc_version c = v) \<or>
    i \<notin> hc_id ` set supplied \<and> bm_get m i = Some v"
  using assms
proof (induction supplied arbitrary: m)
  case (Cons c cs)
  from Cons.IH [of "bm_insert (hc_id c) (hc_version c) m"] Cons.prems show ?case
    by (auto simp: bm_wf_insert bm_get_insert image_iff)
qed simp

lemma check_requirements_ok:
  "(\<exists>s'. for_each (check_host_requirement matches p caps) rs s = Inr s') \<longleftrightarrow>
     distinct (map hr_id rs) \<and> (\<forall>r \<in> set rs. hr_id r \<notin> set s \<and>
       (\<exists>v. bm_get caps (hr_id r) = Some v \<and> matches (hr_version r) v))"
proof (induction rs arbitrary: s)
  case (Cons r rs)
  have step: "(\<exists>s'. check_host_requirement matches p caps r s = Inr s') \<longleftrightarrow>
      hr_id r \<notin> set s \<and> (\<exists>v. bm_get caps (hr_id r) = Some v \<and> matches (hr_version r) v)"
    "check_host_requirement matches p caps r s = Inr s' \<Longrightarrow> s' = bs_insert (hr_id r) s" for s'
    by (auto simp: check_host_requirement_def split: option.splits if_splits)
  show ?case
  proof (cases "\<exists>s'. check_host_requirement matches p caps r s = Inr s'")
    case True
    then have "check_host_requirement matches p caps r s = Inr (bs_insert (hr_id r) s)" using step(2) by blast
    then show ?thesis using Cons.IH [of "bs_insert (hr_id r) s"] step(1) by (auto simp: image_iff)
  next
    case False
    then show ?thesis using step(1) by (auto simp: and_then_Inr_iff)
  qed
qed simp

lemma check_declared_ok:
  "check_declared matches caps (d, p, rs) = Inr () \<longleftrightarrow> distinct (map hr_id rs) \<and>
     (\<forall>r \<in> set rs. \<exists>v. bm_get caps (hr_id r) = Some v \<and> matches (hr_version r) v)"
  using check_requirements_ok [of matches "pd_id d" caps rs "[]"]
  by (auto simp: check_declared_def and_then_Inr_iff)

definition host_satisfies ::
  "('q \<Rightarrow> 'v \<Rightarrow> bool) \<Rightarrow> 'v host_capability list \<Rightarrow> 'q host_requirement list \<Rightarrow> bool" where
  "host_satisfies matches supplied rs \<longleftrightarrow> distinct (map hr_id rs) \<and>
     (\<forall>r \<in> set rs. \<exists>c \<in> set supplied. hc_id c = hr_id r \<and> matches (hr_version r) (hc_version c))"

lemma validate_host_requirements_ok:
  fixes declared :: "('p, 'v, 'q) declared_plugin list"
  shows "validate_host_requirements matches declared supplied = Inr () \<longleftrightarrow>
     distinct (map hc_id supplied) \<and> (\<forall>(d, p, rs) \<in> set declared. host_satisfies matches supplied rs)"
proof (cases "distinct (map hc_id supplied)")
  case True
  define caps where "caps = fold (\<lambda>c. bm_insert (hc_id c) (hc_version c)) supplied []"
  have run: "(for_each insert_capability supplied [] :: ('v, 'q) host_resolution_error + _) = Inr caps"
    using True by (simp add: insert_capability_loop caps_def)
  have get: "bm_get caps i = Some v \<longleftrightarrow> (\<exists>c \<in> set supplied. hc_id c = i \<and> hc_version c = v)" for i v
    using fold_capabilities_get [OF bm_wf_Nil True, of i v] by (simp add: caps_def)
  have "(\<exists>v. bm_get caps i = Some v \<and> P v) \<longleftrightarrow>
      (\<exists>c \<in> set supplied. hc_id c = i \<and> P (hc_version c))" for i P
    by (auto simp: get)
  then have "check_declared matches caps entry = Inr () \<longleftrightarrow>
      (case entry of (d, p, rs) \<Rightarrow> host_satisfies matches supplied rs)"
    for entry :: "('p, 'v, 'q) declared_plugin"
    by (cases entry) (simp add: check_declared_ok host_satisfies_def)
  then show ?thesis
    using True by (simp add: validate_host_requirements_def run for_each_check_ok)
next
  case False
  then show ?thesis
    by (auto simp: validate_host_requirements_def and_then_Inr_iff insert_capability_loop)
qed

text \<open>Host negotiation succeeds exactly when the host supplies each property once and every plugin
  requires each property at most once, only supplied ones, and at a version it accepts.\<close>

lemma validate_host_requirements_iff:
  "validate_host_requirements matches declared supplied = Inr () \<longleftrightarrow>
     distinct (map hc_id supplied) \<and>
     (\<forall>(d, p, rs) \<in> set declared. distinct (map hr_id rs) \<and>
        (\<forall>r \<in> set rs. \<exists>c \<in> set supplied. hc_id c = hr_id r \<and> matches (hr_version r) (hc_version c)))"
  unfolding validate_host_requirements_ok host_satisfies_def ..

lemma validate_host_requirements_iff_witness:
  "validate_host_requirements (\<le>)
     [(clock_plugin ''x.sundial'' 2, (), [\<lparr>hr_id = CapabilityId ''x.timer'', hr_version = (1 :: nat)\<rparr>])]
     [\<lparr>hc_id = CapabilityId ''x.timer'', hc_version = 3\<rparr>, \<lparr>hc_id = CapabilityId ''x.disk'', hc_version = 1\<rparr>] =
   (Inr () :: (nat, nat) host_resolution_error + unit)"
  unfolding validate_host_requirements_iff by simp

end
