(* ===== verification/Stateful.thy ===== *)
theory Stateful
  imports Kernox_Prelude
begin

text \<open>
  Code that changes state and may fail: an action takes the state and returns its result, an error
  or a value, with the new state. \<open>bind_action\<close> is sequencing with \<open>?\<close>; \<open>loop_action\<close> is a \<open>for\<close>
  loop with an accumulator whose body may return early.
\<close>

type_synonym ('s, 'e, 'a) action = "'s \<Rightarrow> ('e + 'a) \<times> 's"

definition return_action :: "'a \<Rightarrow> ('s, 'e, 'a) action" where
  "return_action a s = (Inr a, s)"

definition fail_action :: "'e \<Rightarrow> ('s, 'e, 'a) action" where
  "fail_action e s = (Inl e, s)"

definition bind_action :: "('s, 'e, 'a) action \<Rightarrow> ('a \<Rightarrow> ('s, 'e, 'b) action) \<Rightarrow> ('s, 'e, 'b) action" where
  "bind_action m k s = (case m s of (Inl e, s') \<Rightarrow> (Inl e, s') | (Inr a, s') \<Rightarrow> k a s')"

definition modify_action :: "('s \<Rightarrow> 's) \<Rightarrow> ('s, 'e, unit) action" where
  "modify_action f s = (Inr (), f s)"

fun loop_action :: "('x \<Rightarrow> 'acc \<Rightarrow> ('s, 'e, 'acc) action) \<Rightarrow> 'x list \<Rightarrow> 'acc \<Rightarrow> ('s, 'e, 'acc) action" where
  "loop_action body [] acc = return_action acc"
| "loop_action body (x # xs) acc = bind_action (body x acc) (loop_action body xs)"

lemma action_simps [simp]:
  "return_action a s = (Inr a, s)"
  "fail_action e s = (Inl e, s)"
  "modify_action f s = (Inr (), f s)"
  by (simp_all add: return_action_def fail_action_def modify_action_def)

lemma bind_action_Inr: "m s = (Inr a, s') \<Longrightarrow> bind_action m k s = k a s'"
  by (simp add: bind_action_def)

lemma bind_action_Inl: "m s = (Inl e, s') \<Longrightarrow> bind_action m k s = (Inl e, s')"
  by (simp add: bind_action_def)

lemma bind_action_return [simp]: "bind_action (return_action a) k = k a"
  by (rule ext) (simp add: bind_action_def)

lemma bind_action_modify [simp]: "bind_action (modify_action f) k s = k () (f s)"
  by (simp add: bind_action_def)

lemma bind_action_eq_Inr_iff:
  "bind_action m k s = (Inr b, t) \<longleftrightarrow> (\<exists>a s'. m s = (Inr a, s') \<and> k a s' = (Inr b, t))"
  by (cases "m s") (auto simp: bind_action_def split: sum.splits)

lemma bind_action_eq_Inl_iff:
  "bind_action m k s = (Inl e, t) \<longleftrightarrow>
     m s = (Inl e, t) \<or> (\<exists>a s'. m s = (Inr a, s') \<and> k a s' = (Inl e, t))"
  by (cases "m s") (auto simp: bind_action_def split: sum.splits)

lemma loop_action_append:
  "loop_action body (xs @ ys) acc s = bind_action (loop_action body xs acc) (loop_action body ys) s"
proof (induction xs arbitrary: acc s)
  case (Cons x xs)
  then show ?case by (auto simp: bind_action_def split: sum.splits prod.splits)
qed simp

end
