(* ===== verification/Lifecycle.thy ===== *)
theory Lifecycle
  imports Capability Host Scope Stateful
begin

text \<open>
  \<open>kernox-runtime/src/app.rs\<close> with \<open>plugin.rs\<close>, \<open>observation.rs\<close> and the lifecycle errors of
  \<open>error.rs\<close>: composing plugins into an application, initializing and starting it with rollback,
  and shutting it down.

  A plugin is a value of the type \<open>'p\<close>; its methods are the fields of \<open>plugin_interface\<close>, which act
  on the plugin and on the world \<open>'w\<close> outside Kernox. A hook is run in two steps, as
  \<open>run_plugin_hook\<close> runs it: building its future may unwind (\<open>None\<close>), and so may the future. Hooks
  return; a hook that never completes is outside the model. The clock, the observation sink and the
  \<open>Display\<close> text of a provision error (generated by \<open>thiserror\<close>) are parameters too. The state keeps
  a ghost record of the hooks run and the observations made, which the properties speak about.
\<close>

section \<open>Phases, observations and failures\<close>

datatype lifecycle_phase = Initialize | Start | Quiesce | Stop | Dispose

fun phase_display :: "lifecycle_phase \<Rightarrow> str" where
  "phase_display Initialize = ''initialize''"
| "phase_display Start = ''start''"
| "phase_display Quiesce = ''quiesce''"
| "phase_display Stop = ''stop''"
| "phase_display Dispose = ''dispose''"

datatype lifecycle_outcome = Succeeded | Failed str

record lifecycle_observation =
  ob_plugin :: plugin_id
  ob_scope :: scope_id
  ob_phase :: lifecycle_phase
  ob_outcome :: lifecycle_outcome
  ob_duration :: nat

type_synonym 'w observation_sink = "lifecycle_observation \<Rightarrow> 'w \<Rightarrow> bool \<times> 'w"
  \<comment> \<open>whether \<open>record\<close> unwound, and its effect\<close>

definition default_sink :: "'w observation_sink" where
  "default_sink observation w = (False, w)"

record plugin_error =
  pe_tag :: str
  pe_message :: utext

record failure_record =
  fr_phase :: lifecycle_phase
  fr_plugin :: plugin_id
  fr_error_tag :: str
  fr_message :: utext

definition failure_display :: "failure_record \<Rightarrow> utext" where
  "failure_display f = text_of (plugin_id_as_str (fr_plugin f)) @ text_of '' '' @
     text_of (phase_display (fr_phase f)) @ text_of '' failed: '' @ fr_message f"

record lifecycle_failure =
  lf_primary :: failure_record
  lf_cleanup_failures :: "failure_record list"

record shutdown_report =
  sr_failures :: "failure_record list"

definition is_clean :: "shutdown_report \<Rightarrow> bool" where
  "is_clean r \<longleftrightarrow> sr_failures r = []"

definition safe_tag :: "str \<Rightarrow> str" where
  "safe_tag tag =
     (let valid = tag \<noteq> [] \<and> length tag \<le> 127 \<and>
            list_all (\<lambda>byte. is_ascii_lowercase byte \<or> byte = CHR ''.'' \<or> byte = CHR ''-'') tag \<and>
            is_ascii_lowercase (hd tag) \<and> is_ascii_lowercase (last tag)
      in if valid then tag else ''plugin.invalid-error-tag'')"

section \<open>Plugins and hooks\<close>

type_synonym scope_view = "scope_store \<times> scope_ref"

type_synonym ('s, 't) future = "'s \<Rightarrow> (plugin_error + 't) option \<times> 's"
type_synonym ('s, 't) hook = "'s \<Rightarrow> ('s, 't) future option \<times> 's"

record ('p, 'w, 'v, 'q, 'h) plugin_interface =
  pi_descriptor :: "'p \<Rightarrow> ('v, 'q) plugin_descriptor"
  pi_host_requirements :: "'p \<Rightarrow> 'q host_requirement list"
  pi_initialize :: "('v, 'q, 'h) initialization_context \<Rightarrow> scope_view \<Rightarrow> ('p \<times> 'w, ('v, 'h) provision_set) hook"
  pi_start :: "scope_view \<Rightarrow> ('p \<times> 'w, unit) hook"
  pi_quiesce :: "scope_view \<Rightarrow> ('p \<times> 'w, unit) hook"
  pi_stop :: "scope_view \<Rightarrow> ('p \<times> 'w, unit) hook"
  pi_dispose :: "scope_view \<Rightarrow> ('p \<times> 'w, unit) hook"

definition default_hook :: "scope_view \<Rightarrow> ('s, unit) hook" where
  \<comment> \<open>the provided method bodies of \<open>Plugin\<close>\<close>
  "default_hook view s = (Some (\<lambda>s. (Some (Inr ()), s)), s)"

definition HOOK_PANICKED_TAG :: str where "HOOK_PANICKED_TAG = ''plugin.hook-panicked''"

definition hook_panicked :: plugin_error where
  "hook_panicked = \<lparr>pe_tag = HOOK_PANICKED_TAG, pe_message = text_of ''plugin lifecycle hook panicked''\<rparr>"

definition run_plugin_hook :: "('s, 't) hook \<Rightarrow> 's \<Rightarrow> (plugin_error + 't) \<times> 's" where
  "run_plugin_hook build s =
     (case build s of
        (None, s) \<Rightarrow> (Inl hook_panicked, s)
      | (Some future, s) \<Rightarrow>
          (case future s of (Some result, s) \<Rightarrow> (result, s) | (None, s) \<Rightarrow> (Inl hook_panicked, s)))"

definition plugin_failure :: "plugin_id \<Rightarrow> lifecycle_phase \<Rightarrow> plugin_error \<Rightarrow> failure_record" where
  "plugin_failure plugin phase error =
     \<lparr>fr_phase = phase, fr_plugin = plugin, fr_error_tag = safe_tag (pe_tag error),
      fr_message = pe_message error\<rparr>"

section \<open>Composition\<close>

record ('p, 'w, 'v, 'q) app_builder =
  ab_plugins :: "'p list"
  ab_bindings :: "binding list"
  ab_limits :: graph_limits
  ab_observer :: "'w observation_sink option"
  ab_host_capabilities :: "'v host_capability list"

definition app_builder_new :: "('p, 'w, 'v, 'q) app_builder" where
  "app_builder_new = \<lparr>ab_plugins = [], ab_bindings = [], ab_limits = graph_limits_default,
     ab_observer = None, ab_host_capabilities = []\<rparr>"

definition builder_plugin :: "'p \<Rightarrow> ('p, 'w, 'v, 'q) app_builder \<Rightarrow> ('p, 'w, 'v, 'q) app_builder" where
  "builder_plugin plugin self = self\<lparr>ab_plugins := ab_plugins self @ [plugin]\<rparr>"

definition builder_binding :: "binding \<Rightarrow> ('p, 'w, 'v, 'q) app_builder \<Rightarrow> ('p, 'w, 'v, 'q) app_builder" where
  "builder_binding b self = self\<lparr>ab_bindings := ab_bindings self @ [b]\<rparr>"

definition builder_graph_limits :: "graph_limits \<Rightarrow> ('p, 'w, 'v, 'q) app_builder \<Rightarrow> ('p, 'w, 'v, 'q) app_builder" where
  "builder_graph_limits limits self = self\<lparr>ab_limits := limits\<rparr>"

definition builder_observation_sink ::
  "'w observation_sink \<Rightarrow> ('p, 'w, 'v, 'q) app_builder \<Rightarrow> ('p, 'w, 'v, 'q) app_builder" where
  "builder_observation_sink observer self = self\<lparr>ab_observer := Some observer\<rparr>"

definition builder_host_capability ::
  "'v host_capability \<Rightarrow> ('p, 'w, 'v, 'q) app_builder \<Rightarrow> ('p, 'w, 'v, 'q) app_builder" where
  "builder_host_capability capability self =
     self\<lparr>ab_host_capabilities := ab_host_capabilities self @ [capability]\<rparr>"

record ('p, 'w, 'v, 'q) resolved_app =
  ra_graph :: "('v, 'q) resolved_graph"
  ra_plugins :: "(plugin_id, 'p) btree_map"
  ra_observer :: "'w observation_sink"
  ra_scope :: scope_ref

definition builder_spec ::
  "('p, 'v, 'q) declared_plugin list \<Rightarrow> binding list \<Rightarrow> graph_limits \<Rightarrow> ('v, 'q) composition_spec" where
  "builder_spec declared bindings limits =
     fold add_binding bindings
       (fold (\<lambda>(descriptor, _, _). add_plugin descriptor) declared (with_limits limits builder_new))"

definition app_resolve ::
  "('q \<Rightarrow> 'v \<Rightarrow> bool) \<Rightarrow> ('p, 'w, 'v, 'q, 'h) plugin_interface \<Rightarrow> ('p, 'w, 'v, 'q) app_builder
     \<Rightarrow> (scope_store, ('v, 'q) app_resolve_error fault, ('p, 'w, 'v, 'q) resolved_app) action" where
  "app_resolve matches iface builder scopes =
     (let declared = map (\<lambda>plugin. (pi_descriptor iface plugin, plugin, pi_host_requirements iface plugin))
            (ab_plugins builder)
      in case resolve matches (builder_spec declared (ab_bindings builder) (ab_limits builder)) of
           Inl Panic \<Rightarrow> (Inl Panic, scopes)
         | Inl (Err error) \<Rightarrow> (Inl (Err (GraphError error)), scopes)
         | Inr graph \<Rightarrow>
             (case validate_host_requirements matches declared (ab_host_capabilities builder) of
                Inl error \<Rightarrow> (Inl (Err (HostError error)), scopes)
              | Inr _ \<Rightarrow>
                  let plugins = fold (\<lambda>(descriptor, plugin, _). bm_insert (pd_id descriptor) plugin) declared [];
                      (scope, scopes) = application scopes
                  in (Inr \<lparr>ra_graph = graph, ra_plugins = plugins,
                        ra_observer = (case ab_observer builder of None \<Rightarrow> default_sink | Some sink \<Rightarrow> sink),
                        ra_scope = scope\<rparr>, scopes)))"

section \<open>The running state\<close>

datatype trace_event = HookRan plugin_id lifecycle_phase | Observed lifecycle_observation

record ('p, 'w, 'v, 'h) app_state =
  st_plugins :: "(plugin_id, 'p) btree_map"
  st_registry :: "('v, 'h) registry"
  st_scopes :: scope_store
  st_terminal :: "shutdown_report option"
  st_world :: 'w
  st_trace :: "trace_event list"      \<comment> \<open>ghost\<close>

record ('p, 'w, 'v, 'q, 'h) runtime_env =
  env_interface :: "('p, 'w, 'v, 'q, 'h) plugin_interface"
  env_now :: "'w \<Rightarrow> nat"
  env_display :: "'v provision_error \<Rightarrow> utext"
  env_graph :: "('v, 'q) resolved_graph"
  env_observer :: "'w observation_sink"
  env_scope :: scope_ref

definition trace_append :: "trace_event \<Rightarrow> ('p, 'w, 'v, 'h) app_state \<Rightarrow> ('p, 'w, 'v, 'h) app_state" where
  "trace_append e st = st\<lparr>st_trace := st_trace st @ [e]\<rparr>"

definition plugin_mut ::
  "plugin_id \<Rightarrow> lifecycle_phase \<Rightarrow> ('p \<times> 'w, 't) hook
     \<Rightarrow> (('p, 'w, 'v, 'h) app_state, 'e fault, plugin_error + 't) action" where
  \<comment> \<open>look the plugin up, which panics when it is missing, and run a hook of it\<close>
  "plugin_mut plugin phase hook st =
     (case bm_get (st_plugins st) plugin of
        None \<Rightarrow> (Inl Panic, st)
      | Some p \<Rightarrow>
          let (result, (p, w)) = run_plugin_hook hook (p, st_world st)
          in (Inr result, trace_append (HookRan plugin phase)
                (st\<lparr>st_plugins := bm_modify plugin (\<lambda>_. p) (st_plugins st), st_world := w\<rparr>)))"

definition emit_observation ::
  "('p, 'w, 'v, 'q, 'h) runtime_env \<Rightarrow> lifecycle_observation
     \<Rightarrow> ('p, 'w, 'v, 'h) app_state \<Rightarrow> ('p, 'w, 'v, 'h) app_state" where
  "emit_observation env observation st =
     (let (unwound, w) = env_observer env observation (st_world st)
      in trace_append (Observed observation) (st\<lparr>st_world := w\<rparr>))"

definition observe ::
  "('p, 'w, 'v, 'q, 'h) runtime_env \<Rightarrow> plugin_id \<Rightarrow> lifecycle_phase \<Rightarrow> lifecycle_outcome \<Rightarrow> nat
     \<Rightarrow> ('p, 'w, 'v, 'h) app_state \<Rightarrow> ('p, 'w, 'v, 'h) app_state" where
  "observe env plugin phase outcome started_at st =
     emit_observation env \<lparr>ob_plugin = plugin, ob_scope = view_id (st_scopes st) (env_scope env),
       ob_phase = phase, ob_outcome = outcome, ob_duration = env_now env (st_world st) - started_at\<rparr> st"

definition observe_success ::
  "('p, 'w, 'v, 'q, 'h) runtime_env \<Rightarrow> plugin_id \<Rightarrow> lifecycle_phase \<Rightarrow> nat
     \<Rightarrow> ('p, 'w, 'v, 'h) app_state \<Rightarrow> ('p, 'w, 'v, 'h) app_state" where
  "observe_success env plugin phase = observe env plugin phase Succeeded"

definition observe_failure ::
  "('p, 'w, 'v, 'q, 'h) runtime_env \<Rightarrow> plugin_id \<Rightarrow> lifecycle_phase \<Rightarrow> nat \<Rightarrow> str
     \<Rightarrow> ('p, 'w, 'v, 'h) app_state \<Rightarrow> ('p, 'w, 'v, 'h) app_state" where
  "observe_failure env plugin phase started_at error_tag = observe env plugin phase (Failed error_tag) started_at"

definition begin_scope_close ::
  "('p, 'w, 'v, 'q, 'h) runtime_env \<Rightarrow> (('p, 'w, 'v, 'h) app_state, 'e fault, unit) action" where
  "begin_scope_close env st =
     (case begin_close (length (scope_inners (st_scopes st))) (env_scope env) (st_scopes st) of
        None \<Rightarrow> (Inl Panic, st) | Some scopes \<Rightarrow> (Inr (), st\<lparr>st_scopes := scopes\<rparr>))"

definition finish_scope_close ::
  "('p, 'w, 'v, 'q, 'h) runtime_env \<Rightarrow> (('p, 'w, 'v, 'h) app_state, 'e fault, unit) action" where
  "finish_scope_close env st =
     (case finish_close (length (scope_inners (st_scopes st))) (env_scope env) (st_scopes st) of
        None \<Rightarrow> (Inl Panic, st) | Some scopes \<Rightarrow> (Inr (), st\<lparr>st_scopes := scopes\<rparr>))"

section \<open>Cleanup\<close>

definition cleanup_hook ::
  "('p, 'w, 'v, 'q, 'h) plugin_interface \<Rightarrow> lifecycle_phase \<Rightarrow> scope_view \<Rightarrow> ('p \<times> 'w, unit) hook" where
  "cleanup_hook iface phase context =
     (case phase of
        Quiesce \<Rightarrow> pi_quiesce iface context
      | Stop \<Rightarrow> pi_stop iface context
      | Dispose \<Rightarrow> pi_dispose iface context
      | _ \<Rightarrow> (\<lambda>s. (None, s)))"

definition run_cleanup_hook ::
  "('p, 'w, 'v, 'q, 'h) runtime_env \<Rightarrow> plugin_id \<Rightarrow> lifecycle_phase
     \<Rightarrow> (('p, 'w, 'v, 'h) app_state, 'e fault, failure_record + unit) action" where
  "run_cleanup_hook env plugin phase st =
     (let started_at = env_now env (st_world st);
          context = (st_scopes st, env_scope env)
      in bind_action (plugin_mut plugin phase (cleanup_hook (env_interface env) phase context)) (\<lambda>result.
         let outcome = (case result of Inr _ \<Rightarrow> Succeeded | Inl error \<Rightarrow> Failed (safe_tag (pe_tag error)))
         in bind_action (modify_action (observe env plugin phase outcome started_at)) (\<lambda>_.
            return_action (case result of
              Inr _ \<Rightarrow> Inr () | Inl error \<Rightarrow> Inl (plugin_failure plugin phase error)))) st)"

definition cleanup_one ::
  "('p, 'w, 'v, 'q, 'h) runtime_env \<Rightarrow> lifecycle_phase \<Rightarrow> plugin_id \<Rightarrow> failure_record list
     \<Rightarrow> (('p, 'w, 'v, 'h) app_state, 'e fault, failure_record list) action" where
  "cleanup_one env phase plugin failures =
     bind_action (run_cleanup_hook env plugin phase) (\<lambda>result.
       return_action (case result of Inl failure \<Rightarrow> failures @ [failure] | Inr _ \<Rightarrow> failures))"

definition cleanup ::
  "('p, 'w, 'v, 'q, 'h) runtime_env \<Rightarrow> plugin_id list \<Rightarrow> lifecycle_phase list
     \<Rightarrow> (('p, 'w, 'v, 'h) app_state, 'e fault, failure_record list) action" where
  "cleanup env plugins phases =
     loop_action (\<lambda>phase. loop_action (cleanup_one env phase) (rev plugins)) phases []"

definition rollback_dispose ::
  "('p, 'w, 'v, 'q, 'h) runtime_env \<Rightarrow> plugin_id list
     \<Rightarrow> (('p, 'w, 'v, 'h) app_state, 'e fault, failure_record list) action" where
  "rollback_dispose env plugins =
     bind_action (begin_scope_close env) (\<lambda>_.
     bind_action (cleanup env plugins [Dispose]) (\<lambda>failures.
     bind_action (finish_scope_close env) (\<lambda>_.
     return_action failures)))"

definition rollback_start ::
  "('p, 'w, 'v, 'q, 'h) runtime_env \<Rightarrow> plugin_id list \<Rightarrow> plugin_id list
     \<Rightarrow> (('p, 'w, 'v, 'h) app_state, 'e fault, failure_record list) action" where
  "rollback_start env affected initialized =
     bind_action (begin_scope_close env) (\<lambda>_.
     bind_action (cleanup env affected [Quiesce, Stop]) (\<lambda>failures.
     bind_action (cleanup env initialized [Dispose]) (\<lambda>more.
     bind_action (finish_scope_close env) (\<lambda>_.
     return_action (failures @ more)))))"

section \<open>Starting\<close>

definition rollback_initialize ::
  "('p, 'w, 'v, 'q, 'h) runtime_env \<Rightarrow> plugin_id \<Rightarrow> nat \<Rightarrow> str \<Rightarrow> failure_record \<Rightarrow> plugin_id list
     \<Rightarrow> (('p, 'w, 'v, 'h) app_state, lifecycle_failure fault, 'a) action" where
  "rollback_initialize env plugin started_at error_tag primary initialized =
     bind_action (modify_action (observe_failure env plugin Initialize started_at error_tag)) (\<lambda>_.
     bind_action (rollback_dispose env (initialized @ [plugin])) (\<lambda>cleanup_failures.
     fail_action (Err \<lparr>lf_primary = primary, lf_cleanup_failures = cleanup_failures\<rparr>)))"

definition initialize_context ::
  "('p, 'w, 'v, 'q, 'h) runtime_env \<Rightarrow> plugin_id \<Rightarrow> ('p, 'w, 'v, 'h) app_state
     \<Rightarrow> ('v, 'q, 'h) initialization_context" where
  "initialize_context env plugin st =
     \<lparr>ctx_consumer = plugin, ctx_graph = env_graph env, ctx_registry = st_registry st\<rparr>"

definition commit_staged ::
  "plugin_id \<Rightarrow> ('v, 'q) plugin_descriptor \<Rightarrow> ('v, 'h) provision_set
     \<Rightarrow> (('p, 'w, 'v, 'h) app_state, 'e fault, 'v provision_error + unit) action" where
  "commit_staged plugin descriptor staged st =
     (let (result, registry) = commit plugin descriptor staged (st_registry st)
      in (Inr result, st\<lparr>st_registry := registry\<rparr>))"

definition initialize_one ::
  "('p, 'w, 'v, 'q, 'h) runtime_env \<Rightarrow> plugin_id \<Rightarrow> plugin_id list
     \<Rightarrow> (('p, 'w, 'v, 'h) app_state, lifecycle_failure fault, unit) action" where
  "initialize_one env plugin initialized st =
     (let started_at = env_now env (st_world st);
          hook = pi_initialize (env_interface env) (initialize_context env plugin st)
            (st_scopes st, env_scope env)
      in bind_action (plugin_mut plugin Initialize hook) (\<lambda>result.
         case result of
           Inl error \<Rightarrow>
             rollback_initialize env plugin started_at (safe_tag (pe_tag error))
               (plugin_failure plugin Initialize error) initialized
         | Inr staged \<Rightarrow>
             (case graph_plugin (env_graph env) plugin of
                None \<Rightarrow> fail_action Panic
              | Some descriptor \<Rightarrow>
                  bind_action (commit_staged plugin descriptor staged) (\<lambda>committed.
                    case committed of
                      Inl error \<Rightarrow>
                        rollback_initialize env plugin started_at (provision_error_tag error)
                          \<lparr>fr_phase = Initialize, fr_plugin = plugin,
                           fr_error_tag = provision_error_tag error,
                           fr_message = env_display env error\<rparr> initialized
                    | Inr _ \<Rightarrow>
                        modify_action (observe_success env plugin Initialize started_at)))) st)"

definition initialize_all ::
  "('p, 'w, 'v, 'q, 'h) runtime_env \<Rightarrow> plugin_id list
     \<Rightarrow> (('p, 'w, 'v, 'h) app_state, lifecycle_failure fault, plugin_id list) action" where
  "initialize_all env order =
     loop_action (\<lambda>plugin initialized.
       bind_action (initialize_one env plugin initialized) (\<lambda>_. return_action (initialized @ [plugin])))
     order []"

definition start_one ::
  "('p, 'w, 'v, 'q, 'h) runtime_env \<Rightarrow> plugin_id \<Rightarrow> plugin_id list \<Rightarrow> plugin_id list
     \<Rightarrow> (('p, 'w, 'v, 'h) app_state, lifecycle_failure fault, unit) action" where
  "start_one env plugin started initialized st =
     (let started_at = env_now env (st_world st);
          hook = pi_start (env_interface env) (st_scopes st, env_scope env)
      in bind_action (plugin_mut plugin Start hook) (\<lambda>result.
         bind_action (modify_action (case result of
             Inr _ \<Rightarrow> observe_success env plugin Start started_at
           | Inl error \<Rightarrow> observe_failure env plugin Start started_at (safe_tag (pe_tag error)))) (\<lambda>_.
         case result of
           Inl error \<Rightarrow>
             bind_action (rollback_start env (started @ [plugin]) initialized) (\<lambda>cleanup_failures.
               fail_action (Err \<lparr>lf_primary = plugin_failure plugin Start error,
                 lf_cleanup_failures = cleanup_failures\<rparr>))
         | Inr _ \<Rightarrow> return_action ())) st)"

definition start_all ::
  "('p, 'w, 'v, 'q, 'h) runtime_env \<Rightarrow> plugin_id list \<Rightarrow> plugin_id list
     \<Rightarrow> (('p, 'w, 'v, 'h) app_state, lifecycle_failure fault, plugin_id list) action" where
  "start_all env order initialized =
     loop_action (\<lambda>plugin started.
       bind_action (start_one env plugin started initialized) (\<lambda>_. return_action (started @ [plugin])))
     order []"

definition start ::
  "('p, 'w, 'v, 'q, 'h) runtime_env
     \<Rightarrow> (('p, 'w, 'v, 'h) app_state, lifecycle_failure fault, unit) action" where
  "start env st =
     (let order = rg_startup_order (env_graph env)
      in bind_action (modify_action (\<lambda>st. st\<lparr>st_registry := []\<rparr>)) (\<lambda>_.
         bind_action (initialize_all env order) (\<lambda>initialized.
         bind_action (start_all env order initialized) (\<lambda>_.
         modify_action (\<lambda>st. st\<lparr>st_terminal := None\<rparr>)))) st)"

section \<open>The running application\<close>

definition invocation_scope ::
  "('p, 'w, 'v, 'q, 'h) runtime_env \<Rightarrow> (('p, 'w, 'v, 'h) app_state, scope_error, scope_ref) action" where
  "invocation_scope env st =
     (let (result, scopes) = child (env_scope env) Invocation (st_scopes st)
      in (result, st\<lparr>st_scopes := scopes\<rparr>))"

definition drop_invocation_scope ::
  "scope_ref \<Rightarrow> (('p, 'w, 'v, 'h) app_state, 'e fault, unit) action" where
  \<comment> \<open>\<open>Drop for InvocationScope\<close>, then the last strong reference goes\<close>
  "drop_invocation_scope scope st =
     (case begin_close (length (scope_inners (st_scopes st))) scope (st_scopes st) of
        None \<Rightarrow> (Inl Panic, st)
      | Some scopes \<Rightarrow>
          (case finish_close (length (scope_inners scopes)) scope scopes of
             None \<Rightarrow> (Inl Panic, st)
           | Some scopes \<Rightarrow> (Inr (), st\<lparr>st_scopes := drop_inner scope scopes\<rparr>)))"

definition capability_from ::
  "(str \<Rightarrow> str + 'v) \<Rightarrow> ('p, 'w, 'v, 'q, 'h) runtime_env \<Rightarrow> capability_marker \<Rightarrow> plugin_id
     \<Rightarrow> ('p, 'w, 'v, 'h) app_state \<Rightarrow> access_error + 'h" where
  "capability_from parse_version env C provider st =
     (if st_terminal st \<noteq> None \<or> is_closing (st_scopes st) (env_scope env) then Inl ApplicationUnavailable
      else root_capability parse_version C (st_registry st) provider)"

definition shutdown ::
  "('p, 'w, 'v, 'q, 'h) runtime_env
     \<Rightarrow> (('p, 'w, 'v, 'h) app_state, 'e fault, shutdown_report) action" where
  "shutdown env st =
     (case st_terminal st of
        Some cached \<Rightarrow> (Inr cached, st)
      | None \<Rightarrow>
          bind_action (begin_scope_close env) (\<lambda>_.
          bind_action (loop_action (\<lambda>phase. loop_action (cleanup_one env phase)
              (rev (rg_startup_order (env_graph env)))) [Quiesce, Stop, Dispose] []) (\<lambda>failures.
          bind_action (finish_scope_close env) (\<lambda>_.
          bind_action (modify_action (\<lambda>st. st\<lparr>st_terminal := Some \<lparr>sr_failures = failures\<rparr>\<rparr>)) (\<lambda>_.
          return_action \<lparr>sr_failures = failures\<rparr>)))) st)"

end
