(* ===== verification/Lifecycle_Trace.thy ===== *)
theory Lifecycle_Trace
  imports Lifecycle
begin

text \<open>
  What the lifecycle of \<open>kernox-runtime/src/app.rs\<close> does, hook by hook: every operation is related
  to the sequence of hooks it runs and the failures it reports (\<open>runs\<close>), whatever the hooks, the
  clock and the observation sink do.
\<close>

section \<open>Traces\<close>

fun hooks :: "trace_event list \<Rightarrow> (plugin_id \<times> lifecycle_phase) list" where
  "hooks [] = []"
| "hooks (HookRan p ph # t) = (p, ph) # hooks t"
| "hooks (Observed _ # t) = hooks t"

fun observations :: "trace_event list \<Rightarrow> lifecycle_observation list" where
  "observations [] = []"
| "observations (HookRan _ _ # t) = observations t"
| "observations (Observed o' # t) = o' # observations t"

definition failed_observations :: "trace_event list \<Rightarrow> (plugin_id \<times> lifecycle_phase \<times> str) list" where
  "failed_observations t = concat (map (\<lambda>o'. case ob_outcome o' of
     Succeeded \<Rightarrow> [] | Failed tag \<Rightarrow> [(ob_plugin o', ob_phase o', tag)]) (observations t))"

definition failure_key :: "failure_record \<Rightarrow> plugin_id \<times> lifecycle_phase \<times> str" where
  "failure_key f = (fr_plugin f, fr_phase f, fr_error_tag f)"

lemma hooks_append [simp]: "hooks (s @ t) = hooks s @ hooks t"
  by (induction s rule: hooks.induct) simp_all

lemma observations_append [simp]: "observations (s @ t) = observations s @ observations t"
  by (induction s rule: observations.induct) simp_all

lemma failed_observations_simps [simp]:
  "failed_observations [] = []"
  "failed_observations (HookRan p ph # t) = failed_observations t"
  "failed_observations (Observed o' # t) = (case ob_outcome o' of
     Succeeded \<Rightarrow> [] | Failed tag \<Rightarrow> [(ob_plugin o', ob_phase o', tag)]) @ failed_observations t"
  "failed_observations (s @ t) = failed_observations s @ failed_observations t"
  by (simp_all add: failed_observations_def)

definition valid_tag :: "str \<Rightarrow> bool" where
  "valid_tag tag \<longleftrightarrow> tag \<noteq> [] \<and> length tag \<le> 127 \<and>
     (\<forall>byte \<in> set tag. is_ascii_lowercase byte \<or> byte = CHR ''.'' \<or> byte = CHR ''-'') \<and>
     is_ascii_lowercase (hd tag) \<and> is_ascii_lowercase (last tag)"

lemma safe_tag_valid: "valid_tag (safe_tag tag)"
proof -
  have "valid_tag ''plugin.invalid-error-tag''" by code_simp
  then show ?thesis by (auto simp: safe_tag_def Let_def valid_tag_def list_all_iff)
qed

lemma safe_tag_id: "valid_tag tag \<Longrightarrow> safe_tag tag = tag"
  by (auto simp: safe_tag_def Let_def valid_tag_def list_all_iff)

lemma contract_error_tag_valid: "valid_tag (contract_error_tag e)"
proof -
  have "valid_tag ''contract.invalid-identifier''" "valid_tag ''contract.invalid-version''" by code_simp+
  then show ?thesis by (cases e) simp_all
qed

lemma provision_error_tag_valid: "valid_tag (provision_error_tag e)"
proof -
  have "valid_tag ''provision.duplicate''" "valid_tag ''provision.undeclared''"
    "valid_tag ''provision.missing''" "valid_tag ''provision.version-mismatch''"
    by code_simp+
  then show ?thesis by (cases e) (simp_all add: contract_error_tag_valid)
qed

section \<open>Runs of hooks\<close>

definition app_ok ::
  "('p, 'w, 'v, 'q, 'h) runtime_env \<Rightarrow> ('p, 'w, 'v, 'h) app_state \<Rightarrow> bool" where
  "app_ok env st \<longleftrightarrow> runnable_graph (env_graph env) \<and>
     set (bm_keys (st_plugins st)) = set (rg_startup_order (env_graph env)) \<and>
     wf_scopes (st_scopes st) \<and> live (st_scopes st) (env_scope env)"

definition runs ::
  "('p, 'w, 'v, 'q, 'h) runtime_env \<Rightarrow> ('p, 'w, 'v, 'h) app_state \<Rightarrow> ('p, 'w, 'v, 'h) app_state
     \<Rightarrow> (plugin_id \<times> lifecycle_phase) list \<Rightarrow> failure_record list \<Rightarrow> bool" where
  \<comment> \<open>the hooks run, each observed once and in order, and the failures observed with their tags\<close>
  "runs env st st' hs fs \<longleftrightarrow> app_ok env st' \<and>
     (\<exists>t. st_trace st' = st_trace st @ t \<and> hooks t = hs \<and>
        map (\<lambda>o'. (ob_plugin o', ob_phase o')) (observations t) = hs \<and>
        failed_observations t = map failure_key fs) \<and>
     (\<forall>f \<in> set fs. valid_tag (fr_error_tag f))"

definition same_store :: "('p, 'w, 'v, 'h) app_state \<Rightarrow> ('p, 'w, 'v, 'h) app_state \<Rightarrow> bool" where
  "same_store st st' \<longleftrightarrow> st_registry st' = st_registry st \<and> st_scopes st' = st_scopes st"

lemma runs_ok: "runs env st st' hs fs \<Longrightarrow> app_ok env st'"
  by (simp add: runs_def)

lemma runs_none: "app_ok env st \<Longrightarrow> runs env st st [] []"
  by (auto simp: runs_def intro!: exI [of _ "[]"])

lemma runs_trans:
  assumes "runs env st st' hs fs" and "runs env st' st'' hs' fs'"
  shows "runs env st st'' (hs @ hs') (fs @ fs')"
proof -
  from assms obtain t t' where "st_trace st' = st_trace st @ t" "hooks t = hs"
    "map (\<lambda>o'. (ob_plugin o', ob_phase o')) (observations t) = hs"
    "failed_observations t = map failure_key fs"
    and "st_trace st'' = st_trace st' @ t'" "hooks t' = hs'"
    "map (\<lambda>o'. (ob_plugin o', ob_phase o')) (observations t') = hs'"
    "failed_observations t' = map failure_key fs'"
    unfolding runs_def by blast
  then have "\<exists>t. st_trace st'' = st_trace st @ t \<and> hooks t = hs @ hs' \<and>
      map (\<lambda>o'. (ob_plugin o', ob_phase o')) (observations t) = hs @ hs' \<and>
      failed_observations t = map failure_key (fs @ fs')"
    by (intro exI [of _ "t @ t'"]) simp
  then show ?thesis using assms by (auto simp: runs_def)
qed

lemma runs_frame:
  "runs env st st' hs fs \<Longrightarrow> app_ok env st'' \<Longrightarrow>
     st_trace st'' = st_trace st' \<Longrightarrow> runs env st st'' hs fs"
  by (simp add: runs_def)

lemma same_store_trans: "same_store st st' \<Longrightarrow> same_store st' st'' \<Longrightarrow> same_store st st''"
  by (simp add: same_store_def)

lemma plugin_mut_ok:
  assumes "app_ok env st" and "p \<in> set (rg_startup_order (env_graph env))"
  obtains r st' where "plugin_mut p ph hook st = (Inr r :: 'e fault + _, st')" and "app_ok env st'"
    and "same_store st st'"
    and "st_trace st' = st_trace st @ [HookRan p ph]"
    and "\<exists>x x'. run_plugin_hook hook x = (r, x')"
proof -
  have "bm_get (st_plugins st) p \<noteq> None"
    using assms by (simp add: app_ok_def bm_get_None_iff)
  then obtain x where x: "bm_get (st_plugins st) p = Some x" by blast
  obtain r x' w' where run: "run_plugin_hook hook (x, st_world st) = (r, (x', w'))"
    by (metis prod.collapse)
  show thesis
    by (rule that [of r "trace_append (HookRan p ph) (st\<lparr>st_plugins := bm_modify p (\<lambda>_. x') (st_plugins st),
          st_world := w'\<rparr>)"])
      (use assms run in \<open>simp_all add: plugin_mut_def x trace_append_def app_ok_def same_store_def, blast\<close>)
qed

lemma observe_effect:
  "app_ok env (observe env p ph out t0 st) = app_ok env st"
  "same_store st (observe env p ph out t0 st)"
  "\<exists>o'. st_trace (observe env p ph out t0 st) = st_trace st @ [Observed o'] \<and> ob_plugin o' = p \<and>
     ob_phase o' = ph \<and> ob_outcome o' = out \<and> ob_scope o' = view_id (st_scopes st) (env_scope env)"
  by (auto simp: observe_def emit_observation_def trace_append_def app_ok_def same_store_def
      split: prod.splits)

lemma observed_trace:
  assumes "st_trace st' = st_trace st @ [HookRan p ph]"
  shows "\<exists>t. st_trace (observe env p ph out t0 st') = st_trace st @ t \<and> hooks t = [(p, ph)] \<and>
    map (\<lambda>o'. (ob_plugin o', ob_phase o')) (observations t) = [(p, ph)] \<and>
    failed_observations t = (case out of Succeeded \<Rightarrow> [] | Failed tag \<Rightarrow> [(p, ph, tag)])"
proof -
  obtain o' where "st_trace (observe env p ph out t0 st') = st_trace st' @ [Observed o']"
    "ob_plugin o' = p" "ob_phase o' = ph" "ob_outcome o' = out"
    using observe_effect(3) [of env p ph out t0 st'] by blast
  with assms show ?thesis by (intro exI [of _ "[HookRan p ph, Observed o']"]) (cases out; simp)
qed

lemma runs_success:
  assumes "app_ok env st'" and "st_trace st' = st_trace st @ [HookRan p ph]"
  shows "runs env st (observe env p ph Succeeded t0 st') [(p, ph)] []"
  using observed_trace [OF assms(2), of env Succeeded t0] assms(1) by (simp add: runs_def observe_effect)

lemma runs_failure:
  assumes "app_ok env st'" and "st_trace st' = st_trace st @ [HookRan p ph]"
    and "failure_key f = (p, ph, tag)" and "valid_tag tag"
  shows "runs env st (observe env p ph (Failed tag) t0 st') [(p, ph)] [f]"
proof -
  have "valid_tag (fr_error_tag f)" using assms(3,4) by (simp add: failure_key_def)
  then show ?thesis
    using observed_trace [OF assms(2), of env "Failed tag" t0] assms(1,3)
    by (simp add: runs_def observe_effect)
qed

lemma run_cleanup_hook_runs:
  assumes "app_ok env st" and "p \<in> set (rg_startup_order (env_graph env))"
  obtains r st' where "run_cleanup_hook env p ph st = (Inr r :: 'e fault + _, st')" and "same_store st st'"
    and "runs env st st' [(p, ph)] (case r of Inl f \<Rightarrow> [f] | Inr _ \<Rightarrow> [])"
proof -
  let ?t0 = "env_now env (st_world st)" and ?hook = "cleanup_hook (env_interface env) ph (st_scopes st, env_scope env)"
  obtain r st1 where st1: "plugin_mut p ph ?hook st = (Inr r :: 'e fault + _, st1)" "app_ok env st1" "same_store st st1"
    "st_trace st1 = st_trace st @ [HookRan p ph]"
    by (rule plugin_mut_ok [OF assms])
  show thesis
  proof (cases r)
    case (Inl e)
    let ?st' = "observe env p ph (Failed (safe_tag (pe_tag e))) ?t0 st1"
    have "run_cleanup_hook env p ph st = (Inr (Inl (plugin_failure p ph e)) :: 'e fault + _, ?st')"
      by (simp add: run_cleanup_hook_def Let_def bind_action_def st1(1) Inl)
    moreover have "runs env st ?st' [(p, ph)] [plugin_failure p ph e]"
      by (rule runs_failure [OF st1(2,4) _ safe_tag_valid]) (simp add: failure_key_def plugin_failure_def)
    ultimately show thesis
      using that same_store_trans [OF st1(3) observe_effect(2)] by fastforce
  next
    case (Inr u)
    let ?st' = "observe env p ph Succeeded ?t0 st1"
    have "run_cleanup_hook env p ph st = (Inr (Inr ()) :: 'e fault + _, ?st')"
      by (simp add: run_cleanup_hook_def Let_def bind_action_def st1(1) Inr)
    moreover have "runs env st ?st' [(p, ph)] []"
      by (rule runs_success [OF st1(2,4)])
    ultimately show thesis
      using that same_store_trans [OF st1(3) observe_effect(2)] by fastforce
  qed
qed

section \<open>Cleanup\<close>

lemma cleanup_one_runs:
  assumes "app_ok env st" and "p \<in> set (rg_startup_order (env_graph env))"
  obtains new st' where "cleanup_one env ph p fs st = (Inr (fs @ new) :: 'e fault + _, st')"
    and "same_store st st'" and "runs env st st' [(p, ph)] new"
proof -
  obtain r st' where st': "run_cleanup_hook env p ph st = (Inr r :: 'e fault + _, st')" "same_store st st'"
    "runs env st st' [(p, ph)] (case r of Inl f \<Rightarrow> [f] | Inr _ \<Rightarrow> [])"
    by (rule run_cleanup_hook_runs [OF assms])
  show thesis
    by (rule that [of "case r of Inl f \<Rightarrow> [f] | Inr _ \<Rightarrow> []", OF _ st'(2,3)])
      (simp add: cleanup_one_def bind_action_def st'(1) split: sum.splits)
qed

text \<open>A loop whose body runs hooks and appends the failures they report.\<close>

lemma loop_runs:
  assumes body: "\<And>x fs st. x \<in> set xs \<Longrightarrow> app_ok env st \<Longrightarrow>
      \<exists>new st'. body x fs st = (Inr (fs @ new), st') \<and> same_store st st' \<and> runs env st st' (hs x) new"
    and "app_ok env st"
  shows "\<exists>new st'. loop_action body xs fs st = (Inr (fs @ new), st') \<and> same_store st st' \<and>
    runs env st st' (concat (map hs xs)) new"
  using assms
proof (induction xs arbitrary: fs st)
  case Nil
  then show ?case using runs_none by (intro exI [of _ "[]"] exI [of _ st]) (simp add: same_store_def)
next
  case (Cons x xs)
  from Cons.prems(1) [of x st fs] Cons.prems(2) obtain new st' where
    st': "body x fs st = (Inr (fs @ new), st')" "same_store st st'" "runs env st st' (hs x) new" by auto
  from Cons.IH [OF Cons.prems(1) runs_ok [OF st'(3)], of "fs @ new"] obtain new' st'' where
    st'': "loop_action body xs (fs @ new) st' = (Inr ((fs @ new) @ new'), st'')" "same_store st' st''"
    "runs env st' st'' (concat (map hs xs)) new'" by auto
  show ?case
    using runs_trans [OF st'(3) st''(3)] same_store_trans [OF st'(2) st''(2)]
    by (intro exI [of _ "new @ new'"] exI [of _ st'']) (simp add: bind_action_def st'(1) st''(1))
qed

definition in_phase :: "lifecycle_phase \<Rightarrow> plugin_id list \<Rightarrow> (plugin_id \<times> lifecycle_phase) list" where
  "in_phase ph ps = map (\<lambda>p. (p, ph)) ps"

lemma in_phase_simps [simp]:
  "in_phase ph [] = []" "in_phase ph (p # ps) = (p, ph) # in_phase ph ps"
  "in_phase ph (ps @ qs) = in_phase ph ps @ in_phase ph qs"
  by (simp_all add: in_phase_def)

lemma concat_singles: "concat (map (\<lambda>p. [(p, ph)]) ps) = in_phase ph ps"
  by (induction ps) (simp_all add: in_phase_def)

lemma cleanup_phase_runs:
  assumes "app_ok env st" and "set ps \<subseteq> set (rg_startup_order (env_graph env))"
  shows "\<exists>new st'. loop_action (cleanup_one env ph) ps fs st = (Inr (fs @ new) :: 'e fault + _, st') \<and>
    same_store st st' \<and> runs env st st' (in_phase ph ps) new"
proof -
  have "\<exists>new st'. cleanup_one env ph p fs st = (Inr (fs @ new) :: 'e fault + _, st') \<and>
      same_store st st' \<and> runs env st st' [(p, ph)] new" if "p \<in> set ps" "app_ok env st" for p fs st
    using cleanup_one_runs [OF that(2)] assms(2) that(1) by (metis subsetD)
  from loop_runs [where hs = "\<lambda>p. [(p, ph)]", of ps env "cleanup_one env ph" st fs, OF this assms(1)]
  show ?thesis by (simp only: concat_singles)
qed

lemma cleanup_phases_run:
  assumes "app_ok env st" and "set ps \<subseteq> set (rg_startup_order (env_graph env))"
  shows "\<exists>new st'. loop_action (\<lambda>ph. loop_action (cleanup_one env ph) ps) phases fs st =
      (Inr (fs @ new) :: 'e fault + _, st') \<and>
    same_store st st' \<and> runs env st st' (concat (map (\<lambda>ph. in_phase ph ps) phases)) new"
  by (rule loop_runs [OF cleanup_phase_runs assms(1)]) (use assms(2) in auto)

lemma cleanup_runs:
  assumes "app_ok env st" and "set ps \<subseteq> set (rg_startup_order (env_graph env))"
  obtains fs st' where "cleanup env ps phases st = (Inr fs :: 'e fault + _, st')" and "same_store st st'"
    and "runs env st st' (concat (map (\<lambda>ph. in_phase ph (rev ps)) phases)) fs"
  using cleanup_phases_run [where 'e = 'e, OF assms(1), of "rev ps" phases "[]"] assms(2)
  by (auto simp: cleanup_def)

section \<open>Closing the application scope\<close>

definition app_state_scope :: "('p, 'w, 'v, 'q, 'h) runtime_env \<Rightarrow> ('p, 'w, 'v, 'h) app_state \<Rightarrow> scope_state" where
  "app_state_scope env st = state_of (st_scopes st) (env_scope env)"

lemma begin_scope_close_ok:
  assumes "app_ok env st"
  obtains st' where "begin_scope_close env st = (Inr () :: 'e fault + _, st')" and "runs env st st' [] []"
    and "st_registry st' = st_registry st" and "app_state_scope env st' \<noteq> Open"
proof -
  from assms have wf: "wf_scopes (st_scopes st)" "wf_tree (st_scopes st)" "live (st_scopes st) (env_scope env)"
    by (simp_all add: app_ok_def wf_scopes_def)
  obtain scopes where sc: "begin_close (length (scope_inners (st_scopes st))) (env_scope env) (st_scopes st) = Some scopes"
    "marked {b. within (st_scopes st) (env_scope env) b} (st_scopes st) scopes"
    using begin_close_marks [OF wf(2,3), of "length (scope_inners (st_scopes st))"] by auto
  have "app_ok env (st\<lparr>st_scopes := scopes\<rparr>)"
    using assms begin_close_gated [OF sc(2) wf(1)] markedD(1) [OF sc(2) wf(3)] by (simp add: app_ok_def)
  moreover have "state_of scopes (env_scope env) \<noteq> Open"
    using markedD(4) [OF sc(2) wf(3)] within_self [OF wf(3)] by simp
  ultimately show thesis
    using that [of "st\<lparr>st_scopes := scopes\<rparr>"] runs_frame [OF runs_none [OF assms]]
    by (simp add: begin_scope_close_def sc(1) app_state_scope_def)
qed

lemma finish_scope_close_ok:
  assumes "app_ok env st"
  obtains st' where "finish_scope_close env st = (Inr () :: 'e fault + _, st')" and "runs env st st' [] []"
    and "st_registry st' = st_registry st" and "app_state_scope env st' = Closed"
proof -
  from assms have wf: "wf_scopes (st_scopes st)" "wf_tree (st_scopes st)" "live (st_scopes st) (env_scope env)"
    by (simp_all add: app_ok_def wf_scopes_def)
  obtain scopes where sc: "finish_close (length (scope_inners (st_scopes st))) (env_scope env) (st_scopes st) = Some scopes"
    "finished {b. within (st_scopes st) (env_scope env) b} (st_scopes st) scopes"
    using finish_close_finishes [OF wf(2,3), of "length (scope_inners (st_scopes st))"] by auto
  have "app_ok env (st\<lparr>st_scopes := scopes\<rparr>)"
    using assms finish_close_gated [OF sc(2) wf(1)] finishedD(1) [OF sc(2) wf(3)] by (simp add: app_ok_def)
  moreover have "state_of scopes (env_scope env) = Closed"
    using finishedD(3) [OF sc(2) wf(3)] within_self [OF wf(3)] by simp
  ultimately show thesis
    using that [of "st\<lparr>st_scopes := scopes\<rparr>"] runs_frame [OF runs_none [OF assms]]
    by (simp add: finish_scope_close_def sc(1) app_state_scope_def)
qed

lemma rollback_dispose_runs:
  assumes "app_ok env st" and "set ps \<subseteq> set (rg_startup_order (env_graph env))"
  obtains fs st' where "rollback_dispose env ps st = (Inr fs :: 'e fault + _, st')"
    and "runs env st st' (in_phase Dispose (rev ps)) fs" and "app_state_scope env st' = Closed"
    and "st_registry st' = st_registry st"
proof -
  obtain st1 where 1: "begin_scope_close env st = (Inr () :: 'e fault + _, st1)" "runs env st st1 [] []"
    "st_registry st1 = st_registry st" "app_state_scope env st1 \<noteq> Open"
    by (rule begin_scope_close_ok [OF assms(1)])
  obtain fs st2 where 2: "cleanup env ps [Dispose] st1 = (Inr fs :: 'e fault + _, st2)" "same_store st1 st2"
    "runs env st1 st2 (concat (map (\<lambda>ph. in_phase ph (rev ps)) [Dispose])) fs"
    by (rule cleanup_runs [OF runs_ok [OF 1(2)] assms(2)])
  obtain st3 where 3: "finish_scope_close env st2 = (Inr () :: 'e fault + _, st3)" "runs env st2 st3 [] []"
    "st_registry st3 = st_registry st2" "app_state_scope env st3 = Closed"
    by (rule finish_scope_close_ok [OF runs_ok [OF 2(3)]])
  show thesis
    by (rule that [of fs st3])
      (use runs_trans [OF 1(2) runs_trans [OF 2(3) 3(2)]] 1(3) 2(2) 3(3,4) in
        \<open>simp_all add: rollback_dispose_def bind_action_def 1(1) 2(1) 3(1) same_store_def\<close>)
qed

lemma rollback_start_runs:
  assumes "app_ok env st" and "set affected \<subseteq> set (rg_startup_order (env_graph env))"
    and "set inits \<subseteq> set (rg_startup_order (env_graph env))"
  obtains fs st' where "rollback_start env affected inits st = (Inr fs :: 'e fault + _, st')"
    and "runs env st st' (in_phase Quiesce (rev affected) @ in_phase Stop (rev affected) @ in_phase Dispose (rev inits)) fs"
    and "app_state_scope env st' = Closed" and "st_registry st' = st_registry st"
proof -
  obtain st1 where 1: "begin_scope_close env st = (Inr () :: 'e fault + _, st1)" "runs env st st1 [] []"
    "st_registry st1 = st_registry st" "app_state_scope env st1 \<noteq> Open"
    by (rule begin_scope_close_ok [OF assms(1)])
  obtain fs st2 where 2: "cleanup env affected [Quiesce, Stop] st1 = (Inr fs :: 'e fault + _, st2)" "same_store st1 st2"
    "runs env st1 st2 (concat (map (\<lambda>ph. in_phase ph (rev affected)) [Quiesce, Stop])) fs"
    by (rule cleanup_runs [OF runs_ok [OF 1(2)] assms(2)])
  obtain gs st3 where 3: "cleanup env inits [Dispose] st2 = (Inr gs :: 'e fault + _, st3)" "same_store st2 st3"
    "runs env st2 st3 (concat (map (\<lambda>ph. in_phase ph (rev inits)) [Dispose])) gs"
    by (rule cleanup_runs [OF runs_ok [OF 2(3)] assms(3)])
  obtain st4 where 4: "finish_scope_close env st3 = (Inr () :: 'e fault + _, st4)" "runs env st3 st4 [] []"
    "st_registry st4 = st_registry st3" "app_state_scope env st4 = Closed"
    by (rule finish_scope_close_ok [OF runs_ok [OF 3(3)]])
  show thesis
    by (rule that [of "fs @ gs" st4])
      (use runs_trans [OF 1(2) runs_trans [OF 2(3) runs_trans [OF 3(3) 4(2)]]] 1(3) 2(2) 3(2) 4(3,4) in
        \<open>simp_all add: rollback_start_def bind_action_def 1(1) 2(1) 3(1) 4(1) same_store_def\<close>)
qed

section \<open>Starting\<close>

definition failed_as :: "lifecycle_failure \<Rightarrow> failure_record list" where
  "failed_as lf = lf_primary lf # lf_cleanup_failures lf"

definition init_failed ::
  "('p, 'w, 'v, 'q, 'h) runtime_env \<Rightarrow> ('p, 'w, 'v, 'h) app_state \<Rightarrow> plugin_id list \<Rightarrow> plugin_id
     \<Rightarrow> lifecycle_failure \<Rightarrow> ('p, 'w, 'v, 'h) app_state \<Rightarrow> bool" where
  "init_failed env st prior p lf st' \<longleftrightarrow>
     runs env st st' ((p, Initialize) # in_phase Dispose (rev (prior @ [p]))) (failed_as lf) \<and>
     fr_phase (lf_primary lf) = Initialize \<and> fr_plugin (lf_primary lf) = p \<and>
     app_state_scope env st' = Closed"

lemma rollback_initialize_fails:
  assumes "app_ok env st1" and "st_trace st1 = st_trace st @ [HookRan p Initialize]"
    and "failure_key f = (p, Initialize, tag)" and "valid_tag tag"
    and "set (prior @ [p]) \<subseteq> set (rg_startup_order (env_graph env))"
  shows "\<exists>lf st'. rollback_initialize env p t0 tag f prior st1 = (Inl (Err lf), st') \<and>
    init_failed env st prior p lf st'"
proof -
  let ?st1 = "observe_failure env p Initialize t0 tag st1"
  have 1: "runs env st ?st1 [(p, Initialize)] [f]"
    unfolding observe_failure_def by (rule runs_failure [OF assms(1-4)])
  obtain fs st2 where 2: "rollback_dispose env (prior @ [p]) ?st1 = (Inr fs :: lifecycle_failure fault + _, st2)"
    "runs env ?st1 st2 (in_phase Dispose (rev (prior @ [p]))) fs" "app_state_scope env st2 = Closed"
    by (rule rollback_dispose_runs [OF runs_ok [OF 1] assms(5)])
  show ?thesis
    by (rule exI [of _ "\<lparr>lf_primary = f, lf_cleanup_failures = fs\<rparr>"], rule exI [of _ st2])
      (use runs_trans [OF 1 2(2)] 2(3) assms(3) in
        \<open>simp add: rollback_initialize_def bind_action_def 2(1) init_failed_def failed_as_def failure_key_def\<close>)
qed

definition initialized_by_commit ::
  "('p, 'w, 'v, 'q, 'h) runtime_env \<Rightarrow> ('p, 'w, 'v, 'h) app_state \<Rightarrow> plugin_id
     \<Rightarrow> ('p, 'w, 'v, 'h) app_state \<Rightarrow> bool" where
  "initialized_by_commit env st p st' \<longleftrightarrow>
     (\<exists>d staged x x'. graph_plugin (env_graph env) p = Some d \<and>
        run_plugin_hook (pi_initialize (env_interface env) (initialize_context env p st)
          (st_scopes st, env_scope env)) x = (Inr staged, x') \<and>
        commit p d staged (st_registry st) = (Inr (), st_registry st'))"

lemma initialize_one_cases:
  assumes "app_ok env st" and prior: "set (prior @ [p]) \<subseteq> set (rg_startup_order (env_graph env))"
  shows "(\<exists>st'. initialize_one env p prior st = (Inr (), st') \<and> runs env st st' [(p, Initialize)] [] \<and>
      st_scopes st' = st_scopes st \<and> initialized_by_commit env st p st') \<or>
    (\<exists>lf st'. initialize_one env p prior st = (Inl (Err lf), st') \<and> init_failed env st prior p lf st')"
proof -
  let ?t0 = "env_now env (st_world st)"
  let ?hook = "pi_initialize (env_interface env) (initialize_context env p st) (st_scopes st, env_scope env)"
  have p: "p \<in> set (rg_startup_order (env_graph env))" using prior by simp
  obtain r st1 where 1: "plugin_mut p Initialize ?hook st = (Inr r :: lifecycle_failure fault + _, st1)"
    "app_ok env st1" "same_store st st1"
    "st_trace st1 = st_trace st @ [HookRan p Initialize]" "\<exists>x x'. run_plugin_hook ?hook x = (r, x')"
    by (rule plugin_mut_ok [OF assms(1) p])
  show ?thesis
  proof (cases r)
    case (Inl e)
    have "failure_key (plugin_failure p Initialize e) = (p, Initialize, safe_tag (pe_tag e))"
      by (simp add: failure_key_def plugin_failure_def)
    from rollback_initialize_fails [OF 1(2,4) this safe_tag_valid prior, of ?t0] show ?thesis
      by - (rule disjI2, simp add: initialize_one_def bind_action_def 1(1) Inl Let_def)
  next
    case (Inr staged)
    from p assms(1) obtain d where d: "graph_plugin (env_graph env) p = Some d"
      using runnable_graphD(4) [of "env_graph env" p] by (auto simp: app_ok_def)
    obtain res reg where commit: "commit p d staged (st_registry st1) = (res, reg)" by (cases "commit p d staged (st_registry st1)")
    let ?st2 = "st1\<lparr>st_registry := reg\<rparr>"
    have 2: "app_ok env ?st2" "st_trace ?st2 = st_trace st @ [HookRan p Initialize]"
      using 1(2,4) by (simp_all add: app_ok_def)
    show ?thesis
    proof (cases res)
      case (Inl e)
      let ?f = "\<lparr>fr_phase = Initialize, fr_plugin = p, fr_error_tag = provision_error_tag e,
        fr_message = env_display env e\<rparr>"
      have "failure_key ?f = (p, Initialize, provision_error_tag e)" by (simp add: failure_key_def)
      from rollback_initialize_fails [OF 2 this provision_error_tag_valid prior, of ?t0] show ?thesis
        by - (rule disjI2, simp add: initialize_one_def bind_action_def 1(1) \<open>r = Inr staged\<close> Let_def d commit_staged_def commit Inl)
    next
      case (Inr u)
      let ?st3 = "observe_success env p Initialize ?t0 ?st2"
      have run: "initialize_one env p prior st = (Inr (), ?st3)"
        by (simp add: initialize_one_def bind_action_def 1(1) \<open>r = Inr staged\<close> Let_def d commit_staged_def commit Inr)
      have runs: "runs env st ?st3 [(p, Initialize)] []"
        unfolding observe_success_def by (rule runs_success [OF 2])
      have store: "same_store ?st2 ?st3" unfolding observe_success_def by (rule observe_effect(2))
      obtain x x' where "run_plugin_hook ?hook x = (Inr staged, x')" using 1(5) \<open>r = Inr staged\<close> by blast
      moreover have "commit p d staged (st_registry st) = (Inr (), st_registry ?st3)"
        using commit Inr store 1(3) by (simp add: same_store_def)
      ultimately have "initialized_by_commit env st p ?st3"
        unfolding initialized_by_commit_def using d by blast
      moreover have "st_scopes ?st3 = st_scopes st" using store 1(3) by (simp add: same_store_def)
      ultimately show ?thesis using run runs by blast
    qed
  qed
qed

definition start_failed ::
  "('p, 'w, 'v, 'q, 'h) runtime_env \<Rightarrow> ('p, 'w, 'v, 'h) app_state \<Rightarrow> plugin_id list \<Rightarrow> plugin_id
     \<Rightarrow> plugin_id list \<Rightarrow> lifecycle_failure \<Rightarrow> ('p, 'w, 'v, 'h) app_state \<Rightarrow> bool" where
  "start_failed env st prior p inits lf st' \<longleftrightarrow>
     runs env st st' ((p, Start) # in_phase Quiesce (rev (prior @ [p])) @ in_phase Stop (rev (prior @ [p]))
       @ in_phase Dispose (rev inits)) (failed_as lf) \<and>
     fr_phase (lf_primary lf) = Start \<and> fr_plugin (lf_primary lf) = p \<and>
     app_state_scope env st' = Closed"

lemma start_one_cases:
  assumes "app_ok env st" and prior: "set (prior @ [p]) \<subseteq> set (rg_startup_order (env_graph env))"
    and inits: "set inits \<subseteq> set (rg_startup_order (env_graph env))"
  shows "(\<exists>st'. start_one env p prior inits st = (Inr (), st') \<and> runs env st st' [(p, Start)] [] \<and>
      same_store st st') \<or>
    (\<exists>lf st'. start_one env p prior inits st = (Inl (Err lf), st') \<and> start_failed env st prior p inits lf st')"
proof -
  let ?t0 = "env_now env (st_world st)" and ?hook = "pi_start (env_interface env) (st_scopes st, env_scope env)"
  have p: "p \<in> set (rg_startup_order (env_graph env))" using prior by simp
  obtain r st1 where 1: "plugin_mut p Start ?hook st = (Inr r :: lifecycle_failure fault + _, st1)"
    "app_ok env st1" "same_store st st1"
    "st_trace st1 = st_trace st @ [HookRan p Start]" "\<exists>x x'. run_plugin_hook ?hook x = (r, x')"
    by (rule plugin_mut_ok [OF assms(1) p])
  show ?thesis
  proof (cases r)
    case (Inl e)
    let ?f = "plugin_failure p Start e" and ?st2 = "observe_failure env p Start ?t0 (safe_tag (pe_tag e)) st1"
    have 2: "runs env st ?st2 [(p, Start)] [?f]"
      unfolding observe_failure_def
      by (rule runs_failure [OF 1(2,4) _ safe_tag_valid]) (simp add: failure_key_def plugin_failure_def)
    obtain fs st3 where 3: "rollback_start env (prior @ [p]) inits ?st2 = (Inr fs :: lifecycle_failure fault + _, st3)"
      "runs env ?st2 st3 (in_phase Quiesce (rev (prior @ [p])) @ in_phase Stop (rev (prior @ [p])) @ in_phase Dispose (rev inits)) fs"
      "app_state_scope env st3 = Closed"
      by (rule rollback_start_runs [OF runs_ok [OF 2] prior inits])
    let ?lf = "\<lparr>lf_primary = ?f, lf_cleanup_failures = fs\<rparr>"
    have "start_failed env st prior p inits ?lf st3"
      using runs_trans [OF 2 3(2)] 3(3) by (simp add: start_failed_def failed_as_def plugin_failure_def)
    moreover have "start_one env p prior inits st = (Inl (Err ?lf), st3)"
      by (simp add: start_one_def bind_action_def 1(1) Inl Let_def 3(1))
    ultimately show ?thesis by blast
  next
    case (Inr u)
    let ?st2 = "observe_success env p Start ?t0 st1"
    have "runs env st ?st2 [(p, Start)] []"
      unfolding observe_success_def by (rule runs_success [OF 1(2,4)])
    moreover have "same_store st ?st2"
      unfolding observe_success_def by (rule same_store_trans [OF 1(3) observe_effect(2)])
    moreover have "start_one env p prior inits st = (Inr (), ?st2)"
      by (simp add: start_one_def bind_action_def 1(1) Inr Let_def)
    ultimately show ?thesis by blast
  qed
qed

text \<open>A loop over the startup order that stops at the first failure.\<close>

lemma staged_loop:
  assumes step: "\<And>x before st. set (before @ [x]) \<subseteq> set xs \<union> set acc \<Longrightarrow> app_ok env st \<Longrightarrow> I before st \<Longrightarrow>
      (\<exists>st'. step x before st = (Inr (), st') \<and> runs env st st' [(x, ph)] [] \<and> I (before @ [x]) st') \<or>
      (\<exists>lf st'. step x before st = (Inl (Err lf), st') \<and> F st before x lf st')"
    and "app_ok env st" and "I acc st"
  shows "(\<exists>st'. loop_action (\<lambda>x acc. bind_action (step x acc) (\<lambda>_. return_action (acc @ [x]))) xs acc st =
        (Inr (acc @ xs), st') \<and> runs env st st' (in_phase ph xs) [] \<and> I (acc @ xs) st') \<or>
    (\<exists>lf st1 st' ys x zs. loop_action (\<lambda>x acc. bind_action (step x acc) (\<lambda>_. return_action (acc @ [x]))) xs acc st =
        (Inl (Err lf), st') \<and> xs = ys @ x # zs \<and> runs env st st1 (in_phase ph ys) [] \<and> F st1 (acc @ ys) x lf st')"
  using assms
proof (induction xs arbitrary: acc st)
  case Nil
  then show ?case using runs_none by auto
next
  case (Cons x xs)
  from Cons.prems(1) [of acc x st] Cons.prems(2,3)
  consider st' where "step x acc st = (Inr (), st')" "runs env st st' [(x, ph)] []" "I (acc @ [x]) st'"
    | lf st' where "step x acc st = (Inl (Err lf), st')" "F st acc x lf st'" by auto
  then show ?case
  proof cases
    case 1
    let ?loop = "loop_action (\<lambda>x acc. bind_action (step x acc) (\<lambda>_. return_action (acc @ [x])))"
    have IH: "(\<exists>st''. ?loop xs (acc @ [x]) st' = (Inr ((acc @ [x]) @ xs), st'') \<and>
        runs env st' st'' (in_phase ph xs) [] \<and> I ((acc @ [x]) @ xs) st'') \<or>
      (\<exists>lf st1 st'' ys y zs. ?loop xs (acc @ [x]) st' = (Inl (Err lf), st'') \<and> xs = ys @ y # zs \<and>
        runs env st' st1 (in_phase ph ys) [] \<and> F st1 ((acc @ [x]) @ ys) y lf st'')"
    proof (rule Cons.IH [OF _ runs_ok [OF 1(2)] 1(3)])
      fix y before st
      assume "set (before @ [y]) \<subseteq> set xs \<union> set (acc @ [x])" "app_ok env st" "I before st"
      then show "(\<exists>st'. step y before st = (Inr (), st') \<and> runs env st st' [(y, ph)] [] \<and> I (before @ [y]) st') \<or>
          (\<exists>lf st'. step y before st = (Inl (Err lf), st') \<and> F st before y lf st')"
        by (intro Cons.prems(1)) auto
    qed
    have go: "?loop (x # xs) acc st = ?loop xs (acc @ [x]) st'"
      by (simp add: bind_action_def 1(1))
    from IH show ?thesis
    proof (elim disjE exE conjE)
      fix st'' assume "?loop xs (acc @ [x]) st' = (Inr ((acc @ [x]) @ xs), st'')"
        "runs env st' st'' (in_phase ph xs) []" "I ((acc @ [x]) @ xs) st''"
      moreover from this(2) have "runs env st st'' (in_phase ph (x # xs)) []"
        using runs_trans [OF 1(2), of st'' "in_phase ph xs" "[]"] by simp
      ultimately show ?thesis unfolding go by (intro disjI1 exI [of _ st'']) simp
    next
      fix lf st1 st'' ys y zs
      assume "?loop xs (acc @ [x]) st' = (Inl (Err lf), st'')" "xs = ys @ y # zs"
        "runs env st' st1 (in_phase ph ys) []" "F st1 ((acc @ [x]) @ ys) y lf st''"
      moreover from this(3) have "runs env st st1 (in_phase ph (x # ys)) []"
        using runs_trans [OF 1(2), of st1 "in_phase ph ys" "[]"] by simp
      ultimately show ?thesis
        unfolding go by (intro disjI2 exI [of _ lf] exI [of _ st1] exI [of _ st''] exI [of _ "x # ys"]) simp
    qed
  next
    case 2
    have "runs env st st (in_phase ph []) []" using runs_none [OF Cons.prems(2)] by simp
    with 2 show ?thesis
      by (intro disjI2 exI [of _ lf] exI [of _ st] exI [of _ st'] exI [of _ "[]"]) (simp add: bind_action_def)
  qed
qed

section \<open>What initialization publishes\<close>

definition hooks_wf :: "('p, 'w, 'v, 'q, 'h) plugin_interface \<Rightarrow> bool" where
  \<comment> \<open>\<open>initialize\<close> returns a \<open>ProvisionSet\<close>, whose map only \<open>provide\<close> fills\<close>
  "hooks_wf iface \<longleftrightarrow> (\<forall>ctx view s staged s'.
     run_plugin_hook (pi_initialize iface ctx view) s = (Inr staged, s') \<longrightarrow> bm_wf staged)"

definition publishes :: "('v, 'q) resolved_graph \<Rightarrow> plugin_id list \<Rightarrow> ('v, 'h) registry \<Rightarrow> bool" where
  \<comment> \<open>exactly the declared offers of these plugins are committed\<close>
  "publishes g ps reg \<longleftrightarrow> bm_wf reg \<and> (\<forall>p c. bm_get reg (p, c) \<noteq> None \<longleftrightarrow>
     p \<in> set ps \<and> (\<exists>d. graph_plugin g p = Some d \<and> offer d c \<noteq> None))"

lemma offered_iff:
  assumes wf: "descriptor_wf d"
  shows "offer d c \<noteq> None \<longleftrightarrow> c \<in> offer_id ` set (provides d)"
proof
  assume "offer d c \<noteq> None"
  then obtain ofr where ofr: "offer d c = Some ofr" by blast
  then have "offer_id ofr = c" by (rule offer_id_of_offer [OF wf])
  with ofr show "c \<in> offer_id ` set (provides d)" using provides_offer [OF wf, of ofr] by force
next
  assume "c \<in> offer_id ` set (provides d)"
  then show "offer d c \<noteq> None" using provides_offer [OF wf] by force
qed

lemma commit_publishes:
  assumes "publishes g ps reg" and d: "graph_plugin g p = Some d" "descriptor_wf d" and "bm_wf staged"
    and commit: "commit p d staged reg = (Inr (), reg')"
  shows "publishes g (ps @ [p]) reg'"
proof -
  have agrees: "agrees d staged" using commit_cases(2) [OF d(2), of staged p reg] commit by fastforce
  have reg': "reg' = fold (\<lambda>(c, s). bm_insert (p, c) s) staged reg"
    using commit_cases(1) [OF d(2) agrees, of p reg] commit by simp
  have keys: "c \<in> set (bm_keys staged) \<longleftrightarrow> offer d c \<noteq> None" for c
    unfolding offered_iff [OF d(2)] using agrees by (simp add: agrees_def)
  have wf: "bm_wf reg" and old: "bm_get reg (q, c) \<noteq> None \<longleftrightarrow>
      q \<in> set ps \<and> (\<exists>d. graph_plugin g q = Some d \<and> offer d c \<noteq> None)" for q c
    using assms(1) by (simp_all add: publishes_def)
  note get = published_get [OF wf assms(4), of p, folded reg']
  have "bm_get reg' (q, c) \<noteq> None \<longleftrightarrow>
      q \<in> set (ps @ [p]) \<and> (\<exists>d. graph_plugin g q = Some d \<and> offer d c \<noteq> None)" for q c
  proof (cases "q = p \<and> c \<in> set (bm_keys staged)")
    case True
    then show ?thesis using get [of q c] keys d(1) by (simp add: bm_get_None_iff)
  next
    case False
    then have "bm_get reg' (q, c) = bm_get reg (q, c)" using get [of q c] by (simp only: False if_False)
    then show ?thesis using old [of q c] False keys [of c] d(1) by auto
  qed
  then show ?thesis using get [of p c for c] by (simp add: publishes_def)
qed

definition init_inv ::
  "('p, 'w, 'v, 'q, 'h) runtime_env \<Rightarrow> scope_store \<Rightarrow> plugin_id list \<Rightarrow> ('p, 'w, 'v, 'h) app_state \<Rightarrow> bool" where
  "init_inv env scopes before st \<longleftrightarrow> st_scopes st = scopes \<and>
     (hooks_wf (env_interface env) \<longrightarrow> publishes (env_graph env) before (st_registry st))"

lemma initialize_one_inv:
  assumes "app_ok env st" and "init_inv env scopes before st" and "st_scopes st' = st_scopes st"
    and "initialized_by_commit env st p st'"
  shows "init_inv env scopes (before @ [p]) st'"
proof -
  from assms(4) obtain d staged x x' where d: "graph_plugin (env_graph env) p = Some d"
    and hook: "run_plugin_hook (pi_initialize (env_interface env) (initialize_context env p st)
          (st_scopes st, env_scope env)) x = (Inr staged, x')"
    and commit: "commit p d staged (st_registry st) = (Inr (), st_registry st')"
    unfolding initialized_by_commit_def by blast
  have "descriptor_wf d" using assms(1) runnable_graphD(2) d by (auto simp: app_ok_def)
  moreover have "bm_wf staged" if "hooks_wf (env_interface env)" using that hook unfolding hooks_wf_def by blast
  ultimately have "publishes (env_graph env) (before @ [p]) (st_registry st')"
    if "hooks_wf (env_interface env)"
    using that assms(2) commit_publishes [OF _ d _ _ commit] by (simp add: init_inv_def)
  then show ?thesis using assms(2,3) by (simp add: init_inv_def)
qed

lemma initialize_all_cases:
  assumes "app_ok env st" and "init_inv env scopes [] st"
    and "set order \<subseteq> set (rg_startup_order (env_graph env))"
  shows "(\<exists>st'. initialize_all env order st = (Inr order, st') \<and>
      runs env st st' (in_phase Initialize order) [] \<and> init_inv env scopes order st') \<or>
    (\<exists>lf st1 st' ys x zs. initialize_all env order st = (Inl (Err lf), st') \<and> order = ys @ x # zs \<and>
      runs env st st1 (in_phase Initialize ys) [] \<and> init_failed env st1 ys x lf st')"
proof -
  have "(\<exists>st'. initialize_one env x before st = (Inr (), st') \<and> runs env st st' [(x, Initialize)] [] \<and>
      init_inv env scopes (before @ [x]) st') \<or>
    (\<exists>lf st'. initialize_one env x before st = (Inl (Err lf), st') \<and> init_failed env st before x lf st')"
    if "set (before @ [x]) \<subseteq> set order \<union> set []" "app_ok env st" "init_inv env scopes before st" for x before st
    using initialize_one_cases [of env st before x] initialize_one_inv [OF that(2,3)] that(1,2) assms(3)
    by fastforce
  from staged_loop [where acc = "[]" and F = "init_failed env", OF this assms(1,2)] show ?thesis
    by (simp add: initialize_all_def)
qed

lemma start_all_cases:
  assumes "app_ok env st" and "set order \<subseteq> set (rg_startup_order (env_graph env))"
    and inits: "set inits \<subseteq> set (rg_startup_order (env_graph env))"
  shows "(\<exists>st'. start_all env order inits st = (Inr order, st') \<and>
      runs env st st' (in_phase Start order) [] \<and> same_store st st') \<or>
    (\<exists>lf st1 st' ys x zs. start_all env order inits st = (Inl (Err lf), st') \<and> order = ys @ x # zs \<and>
      runs env st st1 (in_phase Start ys) [] \<and> start_failed env st1 ys x inits lf st')"
proof -
  have "(\<exists>st''. start_one env x before inits st' = (Inr (), st'') \<and> runs env st' st'' [(x, Start)] [] \<and>
      same_store st st'') \<or>
    (\<exists>lf st''. start_one env x before inits st' = (Inl (Err lf), st'') \<and>
      start_failed env st' before x inits lf st'')"
    if "set (before @ [x]) \<subseteq> set order \<union> set []" "app_ok env st'" "same_store st st'" for x before st'
    using start_one_cases [OF that(2) _ inits, of before x] that(1) assms(2) same_store_trans [OF that(3)]
    by fastforce
  from staged_loop [where acc = "[]" and F = "\<lambda>st before x. start_failed env st before x inits"
      and I = "\<lambda>_. same_store st" and step = "\<lambda>x before. start_one env x before inits", OF this assms(1)]
  show ?thesis by (simp add: start_all_def same_store_def)
qed

end
