(* ===== verification/Capability_Access.thy ===== *)
theory Capability_Access
  imports Capability Runnable_Graph
begin

text \<open>
  The guarantees of \<open>kernox-runtime/src/capability.rs\<close>: publication is a transaction, what a plugin
  publishes is what a consumer gets, and during initialization no declared dependency is missing.
\<close>

section \<open>Typed publication\<close>

definition typed_provision :: "(type_id \<Rightarrow> type_id) \<Rightarrow> ('v, 'h) provision \<Rightarrow> bool" where
  \<comment> \<open>the value has the interface type of the marker it was published under\<close>
  "typed_provision iface s \<longleftrightarrow> any_type (pv_value s) = iface (cc_marker_type (pv_contract s))"

definition typed_marker :: "(type_id \<Rightarrow> type_id) \<Rightarrow> capability_marker \<Rightarrow> bool" where
  \<comment> \<open>\<open>C::Interface\<close> is determined by the type \<open>C\<close>\<close>
  "typed_marker iface C \<longleftrightarrow> cm_interface C = iface (cm_type C)"

lemma contract_of_marker:
  "contract_of pv C = Inr k \<Longrightarrow> cc_marker_type k = cm_type C \<and> cc_marker_name k = cm_name C"
  by (auto simp: contract_of_def result_simps)

lemma provision_set_provide_ok:
  assumes "provision_set_provide pv C h s = Inr s'"
  obtains k where "contract_of pv C = Inr k" and "bm_get s (cc_id k) = None"
    and "s' = bm_insert (cc_id k) \<lparr>pv_contract = k,
      pv_value = \<lparr>any_type = cm_interface C, any_handle = h\<rparr>\<rparr> s"
  using assms by (auto simp: provision_set_provide_def result_simps Let_def split: if_splits)

lemma registry_get_typed:
  assumes "typed_marker iface C" and "contract_of pv C = Inr k"
    and "bm_get reg (p, cc_id k) = Some s" and "typed_provision iface s"
  shows "registry_get C reg p k =
    (if cc_marker_type (pv_contract s) = cm_type C then Inr (any_handle (pv_value s))
     else Inl (AccessTypeMismatch p (cc_id k) (cm_name C) (cc_marker_name (pv_contract s))))"
  using assms contract_of_marker [OF assms(2)]
  by (simp add: registry_get_def downcast_ref_def typed_marker_def typed_provision_def)

text \<open>C7: publication is a transaction: it succeeds exactly when the staged set provides every declared
  offer, nothing else, and each at its declared version; then exactly the staged provisions are
  added under the plugin's identity, and otherwise the registry is unchanged.\<close>

theorem commit_transactional:
  assumes "descriptor_wf d" and "bm_wf staged" and "bm_wf reg"
  shows "case commit p d staged reg of
      (Inr _, reg') \<Rightarrow> agrees d staged \<and> bm_wf reg' \<and>
        (\<forall>q c. bm_get reg' (q, c) =
           (if q = p \<and> c \<in> set (bm_keys staged) then bm_get staged c else bm_get reg (q, c)))
    | (Inl _, reg') \<Rightarrow> \<not> agrees d staged \<and> reg' = reg"
proof (cases "agrees d staged")
  case True
  from published_get [OF assms(3,2)] show ?thesis
    unfolding commit_cases(1) [OF assms(1) True] by (simp add: True)
next
  case False
  from commit_cases(2) [OF assms(1) False] obtain e where "commit p d staged reg = (Inl e, reg)" by blast
  with False show ?thesis by simp
qed

definition clock_marker :: capability_marker where
  "clock_marker = \<lparr>cm_type = 7, cm_name = ''Clock'', cm_ID = ''x.clock'', cm_VERSION = ''2'', cm_interface = 70\<rparr>"

definition sample_parse :: "str \<Rightarrow> str + nat" where
  \<comment> \<open>versions of one digit\<close>
  "sample_parse s = (case s of [c] \<Rightarrow> Inr (of_char c - 48) | _ \<Rightarrow> Inl ''unexpected end of input'')"

definition clock_contract :: "nat capability_contract" where
  "clock_contract = \<lparr>cc_id = CapabilityId ''x.clock'', cc_version = 2, cc_marker_type = 7,
     cc_marker_name = ''Clock''\<rparr>"

definition clock_provisions :: "(nat, str) provision_set" where
  "clock_provisions = [(CapabilityId ''x.clock'', \<lparr>pv_contract = clock_contract,
     pv_value = \<lparr>any_type = 70, any_handle = ''sundial''\<rparr>\<rparr>)]"

lemma clock_contract_of: "contract_of sample_parse clock_marker = Inr clock_contract"
  by code_simp

lemma clock_provided:
  "provision_set_provide sample_parse clock_marker ''sundial'' [] = Inr clock_provisions"
  by code_simp

lemma sundial_wf: "descriptor_wf (clock_plugin ''x.sundial'' 2)"
  by code_simp

lemma clock_provisions_wf: "bm_wf clock_provisions"
  by code_simp

lemma commit_transactional_witness:
  "case commit (PluginId ''x.sundial'') (clock_plugin ''x.sundial'' 2) clock_provisions [] of
      (Inr _, reg') \<Rightarrow> agrees (clock_plugin ''x.sundial'' 2) clock_provisions \<and> bm_wf reg' \<and>
        (\<forall>q c. bm_get reg' (q, c) =
           (if q = PluginId ''x.sundial'' \<and> c \<in> set (bm_keys clock_provisions)
            then bm_get clock_provisions c else bm_get [] (q, c)))
    | (Inl _, reg') \<Rightarrow> \<not> agrees (clock_plugin ''x.sundial'' 2) clock_provisions \<and> reg' = []"
  by (rule commit_transactional [OF sundial_wf clock_provisions_wf bm_wf_Nil])

text \<open>A value staged under a marker and committed is the value a lookup under the same marker
  returns, whatever else the set and the registry hold.\<close>

lemma publish_lookup_roundtrip:
  assumes "descriptor_wf d" and "bm_wf staged" and "bm_wf reg"
    and "provision_set_provide parse_version C h staged = Inr staged'"
    and "commit p d staged' reg = (Inr (), reg')"
  shows "root_capability parse_version C reg' p = Inr h"
proof -
  obtain k where k: "contract_of parse_version C = Inr k" and staged': "staged' = bm_insert (cc_id k)
      \<lparr>pv_contract = k, pv_value = \<lparr>any_type = cm_interface C, any_handle = h\<rparr>\<rparr> staged"
    by (rule provision_set_provide_ok [OF assms(4)])
  have wf': "bm_wf staged'" using assms(2) by (simp add: staged' bm_wf_insert)
  have "agrees d staged'"
    using commit_cases(2) [OF assms(1), of staged' p reg] assms(5) by fastforce
  then have "reg' = fold (\<lambda>(c, s). bm_insert (p, c) s) staged' reg"
    using commit_cases(1) [OF assms(1)] assms(5) by fastforce
  then have "bm_get reg' (p, cc_id k) = bm_get staged' (cc_id k)"
    using published_get [OF assms(3) wf', of p p "cc_id k"]
    by (simp add: staged' set_bm_keys_insert)
  also have "\<dots> = Some \<lparr>pv_contract = k, pv_value = \<lparr>any_type = cm_interface C, any_handle = h\<rparr>\<rparr>"
    using assms(2) by (simp add: staged' bm_get_insert)
  finally show ?thesis
    by (simp add: root_capability_def k map_err_def registry_get_def downcast_ref_def)
qed

lemma publish_lookup_roundtrip_witness:
  "root_capability sample_parse clock_marker
     (snd (commit (PluginId ''x.sundial'') (clock_plugin ''x.sundial'' 2) clock_provisions []))
     (PluginId ''x.sundial'') = Inr ''sundial''"
proof (rule publish_lookup_roundtrip [OF sundial_wf bm_wf_Nil bm_wf_Nil clock_provided])
  show "commit (PluginId ''x.sundial'') (clock_plugin ''x.sundial'' 2) clock_provisions [] =
    (Inr (), snd (commit (PluginId ''x.sundial'') (clock_plugin ''x.sundial'' 2) clock_provisions []))"
    by code_simp
qed

section \<open>Access during initialization\<close>

definition published :: "('v, 'q) resolved_graph \<Rightarrow> ('v, 'h) registry \<Rightarrow> plugin_id \<Rightarrow> bool" where
  "published g reg p \<longleftrightarrow> (\<forall>d c. graph_plugin g p = Some d \<longrightarrow> offer d c \<noteq> None \<longrightarrow> bm_get reg (p, c) \<noteq> None)"

definition typed_registry :: "(type_id \<Rightarrow> type_id) \<Rightarrow> ('v, 'h) registry \<Rightarrow> bool" where
  "typed_registry iface reg \<longleftrightarrow> (\<forall>k s. bm_get reg k = Some s \<longrightarrow> typed_provision iface s)"

definition ready_context :: "('v, 'q, 'h) initialization_context \<Rightarrow> bool" where
  \<comment> \<open>every plugin that starts before the consumer has published its offers\<close>
  "ready_context ctx \<longleftrightarrow> runnable_graph (ctx_graph ctx) \<and>
     (\<forall>p. precedes (rg_startup_order (ctx_graph ctx)) p (ctx_consumer ctx) \<longrightarrow>
        published (ctx_graph ctx) (ctx_registry ctx) p)"

lemma ready_provider:
  assumes ready: "ready_context ctx" and r: "ctx_requirement ctx c = Inr r"
    and p: "p \<in> set (rr_providers r)"
  shows "\<exists>s. bm_get (ctx_registry ctx) (p, c) = Some s"
proof -
  have g: "runnable_graph (ctx_graph ctx)" using ready by (simp add: ready_context_def)
  have "requirement (ctx_graph ctx) (ctx_consumer ctx) c = Some r"
    using r by (simp add: ctx_requirement_def split: option.splits)
  from runnable_graphD(5) [OF g this] p obtain d where
    d: "graph_plugin (ctx_graph ctx) p = Some d" "offer d c \<noteq> None"
    and "precedes (rg_startup_order (ctx_graph ctx)) p (ctx_consumer ctx)"
    by (auto simp: serves_def)
  then have "published (ctx_graph ctx) (ctx_registry ctx) p" using ready by (simp add: ready_context_def)
  with d show ?thesis by (simp add: published_def)
qed

lemma ready_requirement:
  assumes "ready_context ctx" and "ctx_requirement ctx c = Inr r"
  shows "admits (rr_cardinality r) (length (rr_providers r))" and "rr_capability r = c"
  using runnable_graphD(5) [of "ctx_graph ctx" "ctx_consumer ctx" c r] assms
  by (auto simp: ready_context_def ctx_requirement_def serves_def split: option.splits)

lemma ready_registry_get:
  assumes "ready_context ctx" and "ctx_requirement ctx (cc_id k) = Inr r" and "p \<in> set (rr_providers r)"
  shows "registry_get C (ctx_registry ctx) p k \<noteq> Inl (AccessMissingProvision q c)"
  using ready_provider [OF assms] by (auto simp: registry_get_def Let_def split: option.splits)

lemma collect_error:
  "for_each (\<lambda>p hs. and_then (get p) (\<lambda>h. Inr (hs @ [h]))) ps hs = Inl e \<Longrightarrow>
     \<exists>p \<in> set ps. get p = Inl e"
  by (induction ps arbitrary: hs) (auto simp: result_simps)

lemma collect_ok:
  "for_each (\<lambda>p hs. and_then (get p) (\<lambda>h. Inr (hs @ [h]))) ps hs = Inr hs' \<longleftrightarrow>
     (\<exists>new. hs' = hs @ new \<and> list_all2 (\<lambda>p h. get p = Inr h) ps new)"
proof (induction ps arbitrary: hs)
  case (Cons p ps)
  then show ?case by (auto simp: result_simps list_all2_Cons1)
qed auto

lemma requirement_not_missing: "ctx_requirement ctx d \<noteq> Inl (AccessMissingProvision p c)"
  by (simp add: ctx_requirement_def split: option.splits)

lemma ready_single:
  assumes "ready_context ctx" and "ctx_requirement ctx d = Inr r" and "rr_cardinality r = ExactlyOne"
  obtains q where "rr_providers r = [q]"
  using ready_requirement(1) [OF assms(1,2)] assms(3) by (cases "rr_providers r") auto

lemma require_no_panic:
  assumes "ready_context ctx"
  shows "ctx_require pv C ctx \<noteq> Inl Panic"
proof
  assume "ctx_require pv C ctx = Inl Panic"
  then obtain k r where r: "ctx_requirement ctx (cc_id k) = Inr r" and card: "rr_cardinality r = ExactlyOne"
    and "(case rr_providers r of [] \<Rightarrow> Inl Panic
      | q # _ \<Rightarrow> fallible (registry_get C (ctx_registry ctx) q k)) = Inl Panic"
    by (auto simp: ctx_require_def and_then_Inl_iff fallible_eq_iff split: if_splits)
  with ready_single [OF assms r card] show False by fastforce
qed

lemma require_not_missing:
  assumes "ready_context ctx"
  shows "ctx_require pv C ctx \<noteq> Inl (Err (AccessMissingProvision p c))"
proof
  assume "ctx_require pv C ctx = Inl (Err (AccessMissingProvision p c))"
  then obtain k r where r: "ctx_requirement ctx (cc_id k) = Inr r" and card: "rr_cardinality r = ExactlyOne"
    and get: "(case rr_providers r of [] \<Rightarrow> Inl Panic
      | q # _ \<Rightarrow> fallible (registry_get C (ctx_registry ctx) q k)) = Inl (Err (AccessMissingProvision p c))"
    by (auto simp: ctx_require_def and_then_Inl_iff fallible_eq_iff map_err_iff requirement_not_missing
        cardinality_error_def split: if_splits)
  obtain q where "rr_providers r = [q]" by (rule ready_single [OF assms r card])
  with get ready_registry_get [OF assms r, of q C p c] show False by (simp add: fallible_eq_iff)
qed

lemma optional_not_missing:
  assumes "ready_context ctx"
  shows "ctx_optional pv C ctx \<noteq> Inl (AccessMissingProvision p c)"
proof
  assume "ctx_optional pv C ctx = Inl (AccessMissingProvision p c)"
  then obtain k r where r: "ctx_requirement ctx (cc_id k) = Inr r"
    and get: "(case rr_providers r of [] \<Rightarrow> Inr None
      | q # _ \<Rightarrow> and_then (registry_get C (ctx_registry ctx) q k) (\<lambda>h. Inr (Some h)))
        = Inl (AccessMissingProvision p c)"
    by (auto simp: ctx_optional_def and_then_Inl_iff map_err_iff requirement_not_missing
        cardinality_error_def split: if_splits)
  from get obtain q where "q \<in> set (rr_providers r)"
    "registry_get C (ctx_registry ctx) q k = Inl (AccessMissingProvision p c)"
    by (cases "rr_providers r") (auto simp: and_then_Inl_iff)
  with ready_registry_get [OF assms r] show False by blast
qed

lemma all_not_missing:
  assumes "ready_context ctx"
  shows "ctx_all pv C ctx \<noteq> Inl (AccessMissingProvision p c)"
proof
  assume "ctx_all pv C ctx = Inl (AccessMissingProvision p c)"
  then obtain k r where r: "ctx_requirement ctx (cc_id k) = Inr r"
    and get: "for_each (\<lambda>q handles. and_then (registry_get C (ctx_registry ctx) q k)
        (\<lambda>h. Inr (handles @ [h]))) (rr_providers r) [] = Inl (AccessMissingProvision p c)"
    by (auto simp: ctx_all_def and_then_Inl_iff map_err_iff requirement_not_missing
        cardinality_error_def split: if_splits)
  from collect_error [OF get] ready_registry_get [OF assms r] show False by blast
qed

text \<open>While a plugin initializes and every plugin before it has published its offers, no typed access
  panics or finds a selected provision missing, in any of the three access modes: a declared
  dependency is always there.\<close>

lemma access_never_missing:
  assumes "ready_context ctx"
  shows "ctx_require parse_version C ctx \<noteq> Inl Panic \<and>
    ctx_require parse_version C ctx \<noteq> Inl (Err (AccessMissingProvision p c)) \<and>
    ctx_optional parse_version C ctx \<noteq> Inl (AccessMissingProvision p c) \<and>
    ctx_all parse_version C ctx \<noteq> Inl (AccessMissingProvision p c)"
  using require_no_panic [OF assms] require_not_missing [OF assms]
    optional_not_missing [OF assms] all_not_missing [OF assms] by blast

definition clock_provision :: "nat \<Rightarrow> str \<Rightarrow> (nat, str) provision" where
  "clock_provision v h = \<lparr>pv_contract = clock_contract\<lparr>cc_version := v\<rparr>,
     pv_value = \<lparr>any_type = 70, any_handle = h\<rparr>\<rparr>"

definition orders_context :: "(nat, nat, str) initialization_context" where
  "orders_context = \<lparr>ctx_consumer = PluginId ''x.orders'', ctx_graph = sample_graph,
     ctx_registry = [((PluginId ''x.quartz'', CapabilityId ''x.clock''), clock_provision 4 ''quartz''),
       ((PluginId ''x.sundial'', CapabilityId ''x.clock''), clock_provision 2 ''sundial'')]\<rparr>"

lemma orders_context_ready: "ready_context orders_context"
proof -
  have "published sample_graph (ctx_registry orders_context) p" for p
    by (auto simp: published_def graph_plugin_def sample_graph_def orders_context_def offer_def
        orders_plugin_def clock_plugin_def descriptor_new_def split: if_splits)
  then show ?thesis
    using resolved_runnable [OF sample_wf sample_resolves]
    by (simp add: ready_context_def orders_context_def)
qed

lemma access_never_missing_witness:
  "ctx_require sample_parse clock_marker orders_context \<noteq> Inl Panic"
  using access_never_missing [OF orders_context_ready, where C = clock_marker] by blast

lemma registry_get_Inr_iff:
  assumes "typed_marker iface C" and "typed_registry iface reg" and "contract_of pv C = Inr k"
  shows "registry_get C reg p k = Inr h \<longleftrightarrow>
    (\<exists>s. bm_get reg (p, cc_id k) = Some s \<and> cc_marker_type (pv_contract s) = cm_type C \<and>
       h = any_handle (pv_value s))"
proof (cases "bm_get reg (p, cc_id k)")
  case (Some s)
  then have "typed_provision iface s" using assms(2) by (simp add: typed_registry_def)
  from registry_get_typed [OF assms(1,3) Some this] Some show ?thesis by auto
qed (simp add: registry_get_def)

definition delivers :: "('v, 'q, 'h) initialization_context \<Rightarrow> capability_marker \<Rightarrow> capability_id
    \<Rightarrow> plugin_id \<Rightarrow> 'h \<Rightarrow> bool" where
  \<comment> \<open>the handle the provider published for the capability, under the same marker type\<close>
  "delivers ctx C c p h \<longleftrightarrow> (\<exists>s. bm_get (ctx_registry ctx) (p, c) = Some s \<and>
     cc_marker_type (pv_contract s) = cm_type C \<and> h = any_handle (pv_value s))"

text \<open>\<open>require\<close> returns a handle exactly when the marker is well formed, the plugin declares an
  exactly-one requirement for its capability, and the one selected provider published the
  capability under the same marker type; the handle is the one that provider published.\<close>

lemma require_returns_selected:
  assumes "ready_context ctx" and "typed_registry iface (ctx_registry ctx)" and "typed_marker iface C"
  shows "ctx_require parse_version C ctx = Inr h \<longleftrightarrow>
    (\<exists>k r p. contract_of parse_version C = Inr k \<and>
       requirement (ctx_graph ctx) (ctx_consumer ctx) (cc_id k) = Some r \<and>
       rr_cardinality r = ExactlyOne \<and> rr_providers r = [p] \<and> delivers ctx C (cc_id k) p h)"
proof -
  have step: "(case rr_providers r of [] \<Rightarrow> Inl Panic
      | p # _ \<Rightarrow> fallible (registry_get C (ctx_registry ctx) p k)) = Inr h \<longleftrightarrow>
      (\<exists>p. rr_providers r = [p] \<and> delivers ctx C (cc_id k) p h)"
    if k: "contract_of parse_version C = Inr k" and r: "ctx_requirement ctx (cc_id k) = Inr r"
      and card: "rr_cardinality r = ExactlyOne" for k r
  proof -
    obtain q where q: "rr_providers r = [q]" by (rule ready_single [OF assms(1) r card])
    show ?thesis
      by (simp add: q fallible_eq_iff delivers_def registry_get_Inr_iff [OF assms(3,2) k])
  qed
  have lookup: "ctx_requirement ctx c = Inr r \<longleftrightarrow>
      requirement (ctx_graph ctx) (ctx_consumer ctx) c = Some r" for c r
    by (simp add: ctx_requirement_def split: option.splits)
  have "ctx_require parse_version C ctx = Inr h \<longleftrightarrow>
      (\<exists>k r. contract_of parse_version C = Inr k \<and> ctx_requirement ctx (cc_id k) = Inr r \<and>
         rr_cardinality r = ExactlyOne \<and> (case rr_providers r of [] \<Rightarrow> Inl Panic
           | p # _ \<Rightarrow> fallible (registry_get C (ctx_registry ctx) p k)) = Inr h)"
    by (auto simp: ctx_require_def and_then_Inr_iff fallible_eq_iff map_err_iff)
  also have "\<dots> \<longleftrightarrow> (\<exists>k r. contract_of parse_version C = Inr k \<and> ctx_requirement ctx (cc_id k) = Inr r \<and>
      rr_cardinality r = ExactlyOne \<and> (\<exists>p. rr_providers r = [p] \<and> delivers ctx C (cc_id k) p h))"
    by (intro ex_cong1 conj_cong refl step)
  finally show ?thesis by (simp add: lookup)
qed

text \<open>\<open>all\<close> returns handles exactly for a declared multi-provider requirement, one per selected
  provider and in their order; \<open>optional\<close> returns none exactly for a declared zero-or-one
  requirement without provider, and otherwise what its provider published.\<close>

lemma optional_and_all_return_selected:
  assumes "typed_registry iface (ctx_registry ctx)" and "typed_marker iface C"
    and "contract_of parse_version C = Inr k"
    and "requirement (ctx_graph ctx) (ctx_consumer ctx) (cc_id k) = Some r"
  shows "(ctx_all parse_version C ctx = Inr hs \<longleftrightarrow> rr_cardinality r \<in> {ZeroOrMore, OneOrMore} \<and>
      list_all2 (delivers ctx C (cc_id k)) (rr_providers r) hs) \<and>
    (ctx_optional parse_version C ctx = Inr ho \<longleftrightarrow> rr_cardinality r = ZeroOrOne \<and>
      (case ho of None \<Rightarrow> rr_providers r = []
       | Some h \<Rightarrow> \<exists>p ps. rr_providers r = p # ps \<and> delivers ctx C (cc_id k) p h))"
proof
  have r: "ctx_requirement ctx (cc_id k) = Inr r" using assms(4) by (simp add: ctx_requirement_def)
  have get: "registry_get C (ctx_registry ctx) p k = Inr h \<longleftrightarrow> delivers ctx C (cc_id k) p h" for p h
    by (simp add: delivers_def registry_get_Inr_iff [OF assms(2,1,3)])
  show "ctx_all parse_version C ctx = Inr hs \<longleftrightarrow> rr_cardinality r \<in> {ZeroOrMore, OneOrMore} \<and>
      list_all2 (delivers ctx C (cc_id k)) (rr_providers r) hs"
    by (auto simp: ctx_all_def assms(3) map_err_def r collect_ok get)
  show "ctx_optional parse_version C ctx = Inr ho \<longleftrightarrow> rr_cardinality r = ZeroOrOne \<and>
      (case ho of None \<Rightarrow> rr_providers r = []
       | Some h \<Rightarrow> \<exists>p ps. rr_providers r = p # ps \<and> delivers ctx C (cc_id k) p h)"
    by (cases "rr_providers r"; cases ho)
      (auto simp: ctx_optional_def assms(3) map_err_def r and_then_Inr_iff get)
qed

text \<open>C16: while a plugin initializes, a typed access gives exactly what the selected providers published
  under the same marker type. \<open>require\<close> gives one handle, exactly for a declared exactly-one
  requirement, that of its only provider; \<open>all\<close> gives one per selected provider and in their order,
  exactly for a multi-provider requirement; \<open>optional\<close> gives none exactly for a zero-or-one
  requirement without provider, and otherwise what its provider published.\<close>

theorem access_returns_selected:
  assumes "ready_context ctx" and "typed_registry iface (ctx_registry ctx)" and "typed_marker iface C"
  shows "(ctx_require parse_version C ctx = Inr h \<longleftrightarrow>
      (\<exists>k r p. contract_of parse_version C = Inr k \<and>
         requirement (ctx_graph ctx) (ctx_consumer ctx) (cc_id k) = Some r \<and>
         rr_cardinality r = ExactlyOne \<and> rr_providers r = [p] \<and> delivers ctx C (cc_id k) p h)) \<and>
    (\<forall>k r. contract_of parse_version C = Inr k \<longrightarrow>
       requirement (ctx_graph ctx) (ctx_consumer ctx) (cc_id k) = Some r \<longrightarrow>
       (ctx_all parse_version C ctx = Inr hs \<longleftrightarrow> rr_cardinality r \<in> {ZeroOrMore, OneOrMore} \<and>
          list_all2 (delivers ctx C (cc_id k)) (rr_providers r) hs) \<and>
       (ctx_optional parse_version C ctx = Inr ho \<longleftrightarrow> rr_cardinality r = ZeroOrOne \<and>
          (case ho of None \<Rightarrow> rr_providers r = []
           | Some h \<Rightarrow> \<exists>p ps. rr_providers r = p # ps \<and> delivers ctx C (cc_id k) p h)))"
  by (intro conjI allI impI require_returns_selected [OF assms]
      optional_and_all_return_selected [OF assms(2,3), THEN conjunct1]
      optional_and_all_return_selected [OF assms(2,3), THEN conjunct2])

lemma access_returns_selected_witness:
  "ctx_require sample_parse clock_marker orders_context = Inr ''sundial''"
proof -
  let ?iface = "\<lambda>t :: type_id. 10 * t"
  have typed: "typed_registry ?iface (ctx_registry orders_context)"
    by (auto simp: typed_registry_def typed_provision_def orders_context_def clock_provision_def
        clock_contract_def split: if_splits)
  have marker: "typed_marker ?iface clock_marker"
    by (simp add: typed_marker_def clock_marker_def)
  have "requirement sample_graph (PluginId ''x.orders'') (CapabilityId ''x.clock'') =
      Some \<lparr>rr_consumer = PluginId ''x.orders'', rr_capability = CapabilityId ''x.clock'',
        rr_cardinality = ExactlyOne, rr_providers = [PluginId ''x.sundial'']\<rparr>"
    by code_simp
  then show ?thesis
    unfolding access_returns_selected [OF orders_context_ready typed marker, THEN conjunct1]
    by (intro exI [of _ clock_contract] exI conjI clock_contract_of)
      (auto simp: orders_context_def clock_contract_def clock_provision_def delivers_def clock_marker_def)
qed

end
