(* ===== verification/Scope_Properties.thy ===== *)
theory Scope_Properties
  imports Scope
begin

text \<open>
  What the scope tree of \<open>kernox-runtime/src/scope.rs\<close> guarantees in every reachable store: unique
  identities, closed admission below a closing scope, the exact effect of both phases of closing,
  and a registry that forgets closed scopes.
\<close>

section \<open>Reachable stores\<close>

definition initial_scopes :: scope_store where
  \<comment> \<open>the process start: \<open>NEXT_SCOPE_NAMESPACE\<close> is 1 and no scope exists\<close>
  "initial_scopes = \<lparr>next_scope_namespace = 1, scope_counters = [], scope_inners = []\<rparr>"

text \<open>Every store the operations can produce while no 64-bit counter has wrapped around.\<close>

inductive scopes_reach :: "scope_store \<Rightarrow> bool" where
  reach_initial: "scopes_reach initial_scopes"
| reach_application: "scopes_reach st \<Longrightarrow> room (next_scope_namespace st) \<Longrightarrow>
    application st = (c, st') \<Longrightarrow> scopes_reach st'"
| reach_child: "scopes_reach st \<Longrightarrow> live st a \<Longrightarrow> room (scope_counters st ! si_next_id (inner st a)) \<Longrightarrow>
    child a kind st = (r, st') \<Longrightarrow> scopes_reach st'"
| reach_begin: "scopes_reach st \<Longrightarrow> live st a \<Longrightarrow>
    begin_close (length (scope_inners st)) a st = Some st' \<Longrightarrow> scopes_reach st'"
| reach_finish: "scopes_reach st \<Longrightarrow> live st a \<Longrightarrow>
    finish_close (length (scope_inners st)) a st = Some st' \<Longrightarrow> scopes_reach st'"
| reach_drop: "scopes_reach st \<Longrightarrow> scopes_reach (drop_inner a st)"

lemma begin_close_ok:
  assumes "wf_tree st" and "live st a" and "length (scope_inners st) \<le> n"
  obtains st' where "begin_close n a st = Some st'" and "marked {b. within st a b} st st'"
proof -
  have "length (scope_inners st) - a \<le> n" using assms(3) by linarith
  from begin_close_marks [OF assms(1,2) this] show ?thesis using that by blast
qed

lemma finish_close_ok:
  assumes "wf_tree st" and "live st a" and "length (scope_inners st) \<le> n"
  obtains st' where "finish_close n a st = Some st'" and "finished {b. within st a b} st st'"
proof -
  have "length (scope_inners st) - a \<le> n" using assms(3) by linarith
  from finish_close_finishes [OF assms(1,2) this] show ?thesis using that by blast
qed

lemma reachable_wf: "scopes_reach st \<Longrightarrow> wf_scopes st"
proof (induction rule: scopes_reach.induct)
  case reach_initial
  show ?case by (simp add: initial_scopes_def wf_scopes_def wf_tree_def wf_ids_def live_def)
next
  case (reach_application st c st')
  then show ?case by (blast intro: application_wf)
next
  case (reach_child st a kind r st')
  show ?case
  proof (cases "state_of st a = Open")
    case True
    from child_open [OF reach_child.hyps(2) True, of kind] reach_child.hyps(4)
    obtain c where "child a kind st = (Inr c, st')" by (metis Pair_inject)
    with reach_child show ?thesis by (blast intro: child_wf)
  next
    case False
    with reach_child show ?thesis by (simp add: child_closed)
  qed
next
  case (reach_begin st a st')
  then show ?case
    using begin_close_ok [of st a "length (scope_inners st)"] begin_close_gated
    by (metis option.inject order_refl wf_scopes_def)
next
  case (reach_finish st a st')
  then show ?case
    using finish_close_ok [of st a "length (scope_inners st)"] finish_close_gated
    by (metis option.inject order_refl wf_scopes_def)
next
  case (reach_drop st a)
  then show ?case by (blast intro: drop_inner_wf)
qed

section \<open>A sample tree\<close>

definition sample_scopes :: scope_store where
  \<comment> \<open>an application (0), an invocation below it (1), and a second one (2)\<close>
  "sample_scopes = snd (child 0 Invocation (snd (child 0 Invocation (snd (application initial_scopes)))))"

lemma sample_scopes_reach: "scopes_reach sample_scopes"
proof -
  let ?s1 = "snd (application initial_scopes)" and ?s2 = "snd (child 0 Invocation (snd (application initial_scopes)))"
  have "scopes_reach ?s1"
    by (rule reach_application [OF reach_initial, of 0]) (code_simp, code_simp)
  then have "scopes_reach ?s2"
    by (rule reach_child [of _ 0 Invocation "Inr 1"]) code_simp+
  then show ?thesis
    unfolding sample_scopes_def by (rule reach_child [of _ 0 Invocation "Inr 2"]) code_simp+
qed

section \<open>Properties\<close>

text \<open>C5: in every reachable store identities are unique, no scope is open below a closing one,
  everything below a closed scope is closed, and the registry of a live scope lists no child twice,
  its live entries being exactly the live children of the scope that are not closed; what else it
  lists are entries whose child was dropped.\<close>

theorem scope_tree_invariant:
  assumes "scopes_reach st"
  shows "(\<forall>a b. live st a \<longrightarrow> live st b \<longrightarrow> view_id st a = view_id st b \<longrightarrow> a = b) \<and>
    (\<forall>b p. live st b \<longrightarrow> live st p \<longrightarrow> si_parent (inner st b) = Some p \<longrightarrow>
      (is_closing st p \<longrightarrow> is_closing st b) \<and>
      (state_of st p = Closed \<longrightarrow> state_of st b = Closed)) \<and>
    (\<forall>p. live st p \<longrightarrow> distinct (si_children (inner st p)) \<and>
      {c \<in> set (si_children (inner st p)). live st c} =
        {c. live st c \<and> si_parent (inner st c) = Some p \<and> state_of st c \<noteq> Closed})"
proof -
  have wf: "wf_scopes st" and tree: "wf_tree st"
    using reachable_wf [OF assms] by (simp_all add: wf_scopes_def)
  have "is_closing st b" if "live st b" "live st p" "si_parent (inner st b) = Some p" "is_closing st p" for b p
    using wf that by (simp add: wf_scopes_def gated_def is_closing_def)
  moreover have "{c \<in> set (si_children (inner st p)). live st c} =
      {c. live st c \<and> si_parent (inner st c) = Some p \<and> state_of st c \<noteq> Closed}" if "live st p" for p
    using wf_treeD(4) [OF tree] wf_treeD(6) [OF tree that] that by blast
  ultimately show ?thesis
    using wf_idD [OF tree] wf_treeD(3,7) [OF tree] by (simp add: view_id_def)
qed

lemma scope_tree_invariant_witness:
  "view_id sample_scopes 1 \<noteq> view_id sample_scopes 2"
proof -
  have "live sample_scopes 1 \<and> live sample_scopes 2" by code_simp
  moreover note scope_tree_invariant [OF sample_scopes_reach, THEN conjunct1]
  ultimately have "view_id sample_scopes 1 = view_id sample_scopes 2 \<longrightarrow> (1 :: nat) = 2" by blast
  then show ?thesis by simp
qed

text \<open>below a live scope of a reachable store a child is admitted exactly while the scope is open;
  it is then a new, open, registered scope whose identity no live scope has, and nothing else
  changes; a refusal leaves the store as it was.\<close>

lemma child_admission:
  assumes "scopes_reach st" and "live st a"
  shows "(is_closing st a \<longrightarrow> child a kind st = (Inl ScopeError, st)) \<and>
    (\<not> is_closing st a \<longrightarrow> (\<exists>c st'. child a kind st = (Inr c, st') \<and>
       \<not> live st c \<and> (\<forall>b. live st' b \<longleftrightarrow> live st b \<or> b = c) \<and>
       view_kind st' c = kind \<and> si_parent (inner st' c) = Some a \<and> \<not> is_closing st' c \<and>
       si_children (inner st' a) = si_children (inner st a) @ [c] \<and>
       (\<forall>b. live st b \<longrightarrow> view_id st' b = view_id st b \<and> view_id st' c \<noteq> view_id st b \<and>
          state_of st' b = state_of st b \<and>
          (b \<noteq> a \<longrightarrow> si_children (inner st' b) = si_children (inner st b)))))"
proof (intro conjI impI)
  show "child a kind st = (Inl ScopeError, st)" if "is_closing st a"
    using that by (simp add: is_closing_def child_closed)
  assume "\<not> is_closing st a"
  then have op: "state_of st a = Open" by (simp add: is_closing_def)
  obtain c st' where ch: "child a kind st = (Inr c, st')" "admitted st a kind c st'"
    by (rule child_open [OF assms(2) op])
  have "wf_ids st" using reachable_wf [OF assms(1)] by (simp add: wf_scopes_def wf_tree_def)
  note fresh = admitted_fresh_id [OF this assms(2)] and ad = admittedD [OF ch(2)]
  have new: "view_id st' c \<noteq> view_id st b" if "live st b" for b
    using fresh [OF that, of kind] by (simp add: view_id_def ad(6))
  show "\<exists>c st'. child a kind st = (Inr c, st') \<and>
       \<not> live st c \<and> (\<forall>b. live st' b \<longleftrightarrow> live st b \<or> b = c) \<and>
       view_kind st' c = kind \<and> si_parent (inner st' c) = Some a \<and> \<not> is_closing st' c \<and>
       si_children (inner st' a) = si_children (inner st a) @ [c] \<and>
       (\<forall>b. live st b \<longrightarrow> view_id st' b = view_id st b \<and> view_id st' c \<noteq> view_id st b \<and>
          state_of st' b = state_of st b \<and>
          (b \<noteq> a \<longrightarrow> si_children (inner st' b) = si_children (inner st b)))"
    by (rule exI [of _ c], rule exI [of _ st'], intro conjI allI impI ch(1) ad(14) ad(5) new)
      (assumption | simp add: ad(6-13) assms(2) child_inner_def view_id_def view_kind_def is_closing_def)+
qed

lemma child_admission_witness:
  "fst (child 1 Invocation sample_scopes) \<noteq> Inl ScopeError"
proof -
  have live: "live sample_scopes 1" and op: "\<not> is_closing sample_scopes 1" by code_simp+
  from child_admission [OF sample_scopes_reach live, of Invocation] op show ?thesis by auto
qed

text \<open>closing can begin on every live scope of a reachable store and returns: recursion as deep as
  the store has scopes is enough. It makes exactly the open scopes at or below it closing; nothing
  is unregistered, and no other state changes.\<close>

lemma begin_close_effect:
  assumes "scopes_reach st" and "live st a" and "length (scope_inners st) \<le> fuel"
  shows "\<exists>st'. begin_close fuel a st = Some st' \<and> (\<forall>b. live st' b \<longleftrightarrow> live st b) \<and>
    (\<forall>b. live st b \<longrightarrow> view_id st' b = view_id st b \<and>
       si_children (inner st' b) = si_children (inner st b) \<and>
       state_of st' b =
         (if within st a b \<and> state_of st b = Open then Closing else state_of st b))"
proof -
  have tree: "wf_tree st" using reachable_wf [OF assms(1)] by (simp add: wf_scopes_def)
  obtain st' where st': "begin_close fuel a st = Some st'" "marked {b. within st a b} st st'"
    by (rule begin_close_ok [OF tree assms(2,3)])
  then show ?thesis
    using same_scopesD [OF marked_same [OF st'(2)]] markedD [OF st'(2)]
    by (intro exI [of _ st']) (simp add: view_id_def)
qed

lemma begin_close_effect_witness:
  "\<exists>st'. begin_close 3 0 sample_scopes = Some st' \<and> is_closing st' 2"
proof -
  have live: "live sample_scopes 0" "live sample_scopes 2" "length (scope_inners sample_scopes) \<le> 3"
    and parent: "si_parent (inner sample_scopes 2) = Some 0" by code_simp+
  have "within sample_scopes 0 2" by (rule within_child [OF within_self [OF live(1)] live(2) parent])
  with begin_close_effect [OF sample_scopes_reach live(1,3)] live(2) show ?thesis
    unfolding is_closing_def by (metis scope_state.distinct(1))
qed

text \<open>C6: closing can be finished on every live scope of a reachable store and returns. Exactly the
  scopes at or below it are closed, each is unregistered, its parent keeps exactly its other live
  children in order, and no other scope changes.\<close>

theorem finish_close_effect:
  assumes "scopes_reach st" and "live st a" and "length (scope_inners st) \<le> fuel"
  shows "\<exists>st'. finish_close fuel a st = Some st' \<and> (\<forall>b. live st' b \<longleftrightarrow> live st b) \<and>
    (\<forall>b. live st b \<longrightarrow> view_id st' b = view_id st b \<and>
       filter (live st) (si_children (inner st' b)) =
         filter (\<lambda>c. live st c \<and> \<not> within st a c) (si_children (inner st b)) \<and>
       state_of st' b = (if within st a b then Closed else state_of st b))"
proof -
  have tree: "wf_tree st" using reachable_wf [OF assms(1)] by (simp add: wf_scopes_def)
  obtain st' where st': "finish_close fuel a st = Some st'" "finished {b. within st a b} st st'"
    by (rule finish_close_ok [OF tree assms(2,3)])
  then show ?thesis
    using same_scopesD [OF finished_same [OF st'(2)]] finishedD [OF st'(2)]
    by (intro exI [of _ st']) (simp add: view_id_def)
qed

lemma finish_close_effect_witness:
  "\<exists>st'. finish_close 3 0 sample_scopes = Some st' \<and> state_of st' 2 = Closed"
proof -
  have live: "live sample_scopes 0" "live sample_scopes 2" "length (scope_inners sample_scopes) \<le> 3"
    and parent: "si_parent (inner sample_scopes 2) = Some 0" by code_simp+
  have "within sample_scopes 0 2" by (rule within_child [OF within_self [OF live(1)] live(2) parent])
  with finish_close_effect [OF sample_scopes_reach live(1,3)] live(2) show ?thesis by auto
qed

end
