(* ===== verification/Lifecycle_Properties.thy ===== *)
theory Lifecycle_Properties
  imports Lifecycle_Trace Capability_Access Scope_Properties
begin

text \<open>
  The lifecycle guarantees of \<open>kernox-runtime/src/app.rs\<close>: what a composed application is, which
  hooks start, rollback and shutdown run and in which order, what they report, and what is refused
  once shutdown has begun.
\<close>

section \<open>Composition\<close>

lemma builder_spec_fields:
  "spec_plugins (builder_spec declared bs limits) = map fst declared"
  "spec_bindings (builder_spec declared bs limits) = bs"
  "spec_limits (builder_spec declared bs limits) = limits"
  "spec_schema_version (builder_spec declared bs limits) = 1"
proof -
  have bind: "fold add_binding bs s = s\<lparr>spec_bindings := spec_bindings s @ bs\<rparr>"
    for s :: "('a, 'b) composition_spec"
    by (induction bs arbitrary: s) (simp_all add: add_binding_def)
  have plug: "fold (\<lambda>(d, _, _). add_plugin d) declared s = s\<lparr>spec_plugins := spec_plugins s @ map fst declared\<rparr>"
    for s :: "('a, 'b) composition_spec"
    by (induction declared arbitrary: s) (auto simp: add_plugin_def)
  note defs = builder_spec_def bind plug with_limits_def builder_new_def composition_spec_default_def
    COMPOSITION_SCHEMA_VERSION_def
  show "spec_plugins (builder_spec declared bs limits) = map fst declared"
    "spec_bindings (builder_spec declared bs limits) = bs"
    "spec_limits (builder_spec declared bs limits) = limits"
    "spec_schema_version (builder_spec declared bs limits) = 1"
    by (simp_all add: defs)
qed

definition app_env ::
  "('p, 'w, 'v, 'q, 'h) plugin_interface \<Rightarrow> ('w \<Rightarrow> nat) \<Rightarrow> ('v provision_error \<Rightarrow> utext)
     \<Rightarrow> ('p, 'w, 'v, 'q) resolved_app \<Rightarrow> ('p, 'w, 'v, 'q, 'h) runtime_env" where
  "app_env iface now display app =
     \<lparr>env_interface = iface, env_now = now, env_display = display, env_graph = ra_graph app,
      env_observer = ra_observer app, env_scope = ra_scope app\<rparr>"

definition app_state_of ::
  "('p, 'w, 'v, 'q) resolved_app \<Rightarrow> scope_store \<Rightarrow> 'w \<Rightarrow> ('p, 'w, 'v, 'h) app_state" where
  "app_state_of app scopes w =
     \<lparr>st_plugins = ra_plugins app, st_registry = [], st_scopes = scopes, st_terminal = None,
      st_world = w, st_trace = []\<rparr>"

lemma fold_insert_keys:
  "set (bm_keys (fold (\<lambda>(d, p, _). bm_insert (pd_id d) p) declared m)) =
     pd_id ` fst ` set declared \<union> set (bm_keys m)"
  by (induction declared arbitrary: m) (auto simp: set_bm_keys_insert)

lemma fold_insert_wf: "bm_wf m \<Longrightarrow> bm_wf (fold (\<lambda>(d, p, _). bm_insert (pd_id d) p) declared m)"
  by (induction declared arbitrary: m) (auto simp: bm_wf_insert)

lemma app_resolve_ok:
  assumes "wf_scopes scopes" and "room (next_scope_namespace scopes)"
    and "\<forall>p \<in> set (ab_plugins builder). descriptor_wf (pi_descriptor iface p)"
    and run: "app_resolve matches iface builder scopes = (Inr app, scopes')"
  shows "app_ok (app_env iface now display app) (app_state_of app scopes' w)"
    and "state_of scopes' (ra_scope app) = Open"
proof -
  define declared where "declared = map (\<lambda>p. (pi_descriptor iface p, p, pi_host_requirements iface p)) (ab_plugins builder)"
  let ?spec = "builder_spec declared (ab_bindings builder) (ab_limits builder)"
  obtain g where g: "resolve matches ?spec = Inr g"
    and host: "validate_host_requirements matches declared (ab_host_capabilities builder) = Inr ()"
    and scope: "application scopes = (ra_scope app, scopes')"
    and app: "ra_graph app = g" "ra_plugins app = fold (\<lambda>(d, p, _). bm_insert (pd_id d) p) declared []"
    using run by (auto simp: app_resolve_def declared_def Let_def split: sum.splits fault.splits prod.splits)
  have ds: "spec_plugins ?spec = map (pi_descriptor iface) (ab_plugins builder)"
    by (simp add: builder_spec_fields declared_def)
  have wf: "\<forall>d \<in> set (spec_plugins ?spec). descriptor_wf d" using assms(3) by (simp add: ds)
  have "set (rg_startup_order g) = pd_id ` set (spec_plugins ?spec)"
    using resolve_correct [OF wf, of matches g] g
    by (simp add: resolves_to_def Let_def least_topological_def topological_def)
  then have "set (rg_startup_order g) = (\<lambda>p. pd_id (pi_descriptor iface p)) ` set (ab_plugins builder)"
    by (simp add: ds image_image)
  moreover have "set (bm_keys (ra_plugins app)) = (\<lambda>p. pd_id (pi_descriptor iface p)) ` set (ab_plugins builder)"
    by (simp add: app(2) fold_insert_keys declared_def image_image)
  ultimately have "set (bm_keys (ra_plugins app)) = set (rg_startup_order g)" by simp
  moreover have "wf_scopes scopes'" by (rule application_wf [OF assms(1,2) scope])
  moreover have "live scopes' (ra_scope app)" using application_facts(5) [OF scope] by simp
  ultimately show "app_ok (app_env iface now display app) (app_state_of app scopes' w)"
    using resolved_runnable [OF wf g] by (simp add: app_ok_def app_env_def app_state_of_def app(1))
  show "state_of scopes' (ra_scope app) = Open"
    by (simp add: state_of_def application_facts(6) [OF scope])
qed

section \<open>Starting\<close>

lemma order_within: "order = ys @ x # zs \<Longrightarrow> order = rg_startup_order g \<Longrightarrow>
    set (ys @ [x]) \<subseteq> set (rg_startup_order g)"
  by auto

lemma start_cases:
  assumes ok: "app_ok env st"
  defines "order \<equiv> rg_startup_order (env_graph env)"
  shows "(\<exists>st'. start env st = (Inr (), st') \<and> runs env st st' (in_phase Initialize order @ in_phase Start order) [] \<and>
      init_inv env (st_scopes st) order st') \<or>
    (\<exists>lf st' prior p rest. start env st = (Inl (Err lf), st') \<and> order = prior @ p # rest \<and>
      app_state_scope env st' = Closed \<and> fr_plugin (lf_primary lf) = p \<and>
      (fr_phase (lf_primary lf) = Initialize \<and>
         runs env st st' (in_phase Initialize (prior @ [p]) @ in_phase Dispose (rev (prior @ [p]))) (failed_as lf) \<or>
       fr_phase (lf_primary lf) = Start \<and>
         runs env st st' (in_phase Initialize order @ in_phase Start (prior @ [p]) @
           in_phase Quiesce (rev (prior @ [p])) @ in_phase Stop (rev (prior @ [p])) @
           in_phase Dispose (rev order)) (failed_as lf)))"
proof -
  let ?st0 = "st\<lparr>st_registry := []\<rparr>"
  have ok0: "app_ok env ?st0" using ok by (simp add: app_ok_def)
  have inv0: "init_inv env (st_scopes st) [] ?st0" by (simp add: init_inv_def publishes_def)
  have r0: "runs env st st1 hs fs" if "runs env ?st0 st1 hs fs" for st1 hs fs
    using that by (simp add: runs_def)
  have within: "set order \<subseteq> set (rg_startup_order (env_graph env))" by (simp add: order_def)
  have go: "start env st = bind_action (initialize_all env order) (\<lambda>initialized.
         bind_action (start_all env order initialized) (\<lambda>_.
         modify_action (\<lambda>st. st\<lparr>st_terminal := None\<rparr>))) ?st0"
    by (simp add: start_def order_def Let_def)
  from initialize_all_cases [OF ok0 inv0 within] show ?thesis
  proof (elim disjE exE conjE)
    fix st1 assume 1: "initialize_all env order ?st0 = (Inr order, st1)"
      "runs env ?st0 st1 (in_phase Initialize order) []" "init_inv env (st_scopes st) order st1"
    from start_all_cases [OF runs_ok [OF 1(2)] within within] show ?thesis
    proof (elim disjE exE conjE)
      fix st2 assume 2: "start_all env order order st1 = (Inr order, st2)"
        "runs env st1 st2 (in_phase Start order) []" "same_store st1 st2"
      let ?st3 = "st2\<lparr>st_terminal := None\<rparr>"
      have "runs env st ?st3 (in_phase Initialize order @ in_phase Start order) []"
        using r0 [OF runs_trans [OF 1(2) 2(2)]] by (simp add: runs_def app_ok_def)
      moreover have "init_inv env (st_scopes st) order ?st3"
        using 1(3) 2(3) by (simp add: init_inv_def same_store_def)
      moreover have "start env st = (Inr (), ?st3)" by (simp add: go bind_action_def 1(1) 2(1))
      ultimately show ?thesis by blast
    next
      fix lf st2 st3 ys x zs assume 2: "start_all env order order st1 = (Inl (Err lf), st3)"
        "order = ys @ x # zs" "runs env st1 st2 (in_phase Start ys) []" "start_failed env st2 ys x order lf st3"
      have "start env st = (Inl (Err lf), st3)" by (simp add: go bind_action_def 1(1) 2(1))
      moreover have "runs env st st3 (in_phase Initialize order @ in_phase Start (ys @ [x]) @
           in_phase Quiesce (rev (ys @ [x])) @ in_phase Stop (rev (ys @ [x])) @
           in_phase Dispose (rev order)) (failed_as lf)"
        using r0 [OF runs_trans [OF 1(2) runs_trans [OF 2(3), of st3]]] 2(4) by (simp add: start_failed_def)
      ultimately show ?thesis using 2(2,4) unfolding start_failed_def by blast
    qed
  next
    fix lf st1 st2 ys x zs assume 1: "initialize_all env order ?st0 = (Inl (Err lf), st2)"
      "order = ys @ x # zs" "runs env ?st0 st1 (in_phase Initialize ys) []" "init_failed env st1 ys x lf st2"
    have "start env st = (Inl (Err lf), st2)" by (simp add: go bind_action_def 1(1))
    moreover have "runs env st st2 (in_phase Initialize (ys @ [x]) @ in_phase Dispose (rev (ys @ [x]))) (failed_as lf)"
      using r0 [OF runs_trans [OF 1(3), of st2]] 1(4) by (simp add: init_failed_def)
    ultimately show ?thesis using 1(2,4) unfolding init_failed_def by blast
  qed
qed

section \<open>Shutdown\<close>

lemma shutdown_ok:
  assumes "app_ok env st" and "st_terminal st = None"
  obtains fs st' where "shutdown env st = (Inr \<lparr>sr_failures = fs\<rparr> :: 'e fault + _, st')"
    and "runs env st st' (concat (map (\<lambda>ph. in_phase ph (rev (rg_startup_order (env_graph env))))
      [Quiesce, Stop, Dispose])) fs"
    and "st_terminal st' = Some \<lparr>sr_failures = fs\<rparr>" and "app_state_scope env st' = Closed"
proof -
  let ?ps = "rev (rg_startup_order (env_graph env))"
  obtain st1 where 1: "begin_scope_close env st = (Inr () :: 'e fault + _, st1)" "runs env st st1 [] []"
    "st_registry st1 = st_registry st" "app_state_scope env st1 \<noteq> Open"
    by (rule begin_scope_close_ok [OF assms(1)])
  have "set ?ps \<subseteq> set (rg_startup_order (env_graph env))" by simp
  from cleanup_phases_run [where 'e = 'e, OF runs_ok [OF 1(2)] this, of "[Quiesce, Stop, Dispose]" "[]"]
  obtain fs st2 where 2: "loop_action (\<lambda>ph. loop_action (cleanup_one env ph) ?ps) [Quiesce, Stop, Dispose] [] st1 =
      (Inr fs :: 'e fault + _, st2)" "same_store st1 st2"
    "runs env st1 st2 (concat (map (\<lambda>ph. in_phase ph ?ps) [Quiesce, Stop, Dispose])) fs" by auto
  obtain st3 where 3: "finish_scope_close env st2 = (Inr () :: 'e fault + _, st3)" "runs env st2 st3 [] []"
    "st_registry st3 = st_registry st2" "app_state_scope env st3 = Closed"
    by (rule finish_scope_close_ok [OF runs_ok [OF 2(3)]])
  let ?st4 = "st3\<lparr>st_terminal := Some \<lparr>sr_failures = fs\<rparr>\<rparr>"
  have "shutdown env st = (Inr \<lparr>sr_failures = fs\<rparr> :: 'e fault + _, ?st4)"
    unfolding shutdown_def assms(2) option.case
    by (simp only: bind_action_def 1(1) 2(1) 3(1) prod.case sum.case action_simps)
  moreover have "runs env st ?st4 (concat (map (\<lambda>ph. in_phase ph ?ps) [Quiesce, Stop, Dispose])) fs"
    using runs_trans [OF 1(2) runs_trans [OF 2(3) 3(2)]] by (simp add: runs_def app_ok_def)
  ultimately show thesis using that 3(4) by (simp add: app_state_scope_def)
qed

section \<open>Sample plugins\<close>

type_synonym sample_plugin = "(nat, nat) plugin_descriptor \<times> lifecycle_phase list"
  \<comment> \<open>a descriptor and the phases in which the plugin fails; it unwinds in \<open>Stop\<close>\<close>

definition sample_hook :: "lifecycle_phase \<Rightarrow> (sample_plugin \<Rightarrow> 't) \<Rightarrow> (sample_plugin \<times> nat, 't) hook" where
  "sample_hook ph result = (\<lambda>(p, w).
     if ph = Stop \<and> ph \<in> set (snd p) then (None, (p, Suc w))
     else (Some (\<lambda>(p, w). (Some (if ph \<in> set (snd p)
         then Inl \<lparr>pe_tag = ''Bad Tag'', pe_message = text_of ''failed''\<rparr> else Inr (result p)),
       (p, Suc w))), (p, Suc w)))"

definition sample_provisions :: "sample_plugin \<Rightarrow> (nat, str) provision_set" where
  "sample_provisions p = fold (\<lambda>ofr. bm_insert (offer_id ofr) (clock_provision (offer_version ofr)
     (plugin_id_as_str (pd_id (fst p))))) (provides (fst p)) []"

definition sample_interface :: "(sample_plugin, nat, nat, nat, str) plugin_interface" where
  "sample_interface = \<lparr>pi_descriptor = fst, pi_host_requirements = (\<lambda>_. []),
     pi_initialize = (\<lambda>_ _. sample_hook Initialize sample_provisions),
     pi_start = (\<lambda>_. sample_hook Start (\<lambda>_. ())), pi_quiesce = (\<lambda>_. sample_hook Quiesce (\<lambda>_. ())),
     pi_stop = (\<lambda>_. sample_hook Stop (\<lambda>_. ())), pi_dispose = (\<lambda>_. sample_hook Dispose (\<lambda>_. ()))\<rparr>"

definition sample_builder :: "lifecycle_phase list \<Rightarrow> (sample_plugin, nat, nat, nat) app_builder" where
  \<comment> \<open>the sample composition, with a sundial that fails in the given phases\<close>
  "sample_builder fails = fold builder_plugin
     [(orders_plugin, []), (clock_plugin ''x.sundial'' 2, fails), (clock_plugin ''x.quartz'' 4, [])]
     (builder_binding \<lparr>bind_consumer = PluginId ''x.orders'', bind_capability = CapabilityId ''x.clock'',
       bind_provider = PluginId ''x.sundial''\<rparr> app_builder_new)"

definition sample_app :: "lifecycle_phase list \<Rightarrow> (sample_plugin, nat, nat, nat) resolved_app" where
  "sample_app fails = projr (fst (app_resolve sample_matches sample_interface (sample_builder fails) initial_scopes))"

definition sample_app_scopes :: "lifecycle_phase list \<Rightarrow> scope_store" where
  "sample_app_scopes fails = snd (app_resolve sample_matches sample_interface (sample_builder fails) initial_scopes)"

definition sample_env :: "lifecycle_phase list \<Rightarrow> (sample_plugin, nat, nat, nat, str) runtime_env" where
  "sample_env fails = app_env sample_interface id (\<lambda>_. []) (sample_app fails)"

definition sample_state :: "lifecycle_phase list \<Rightarrow> (sample_plugin, nat, nat, str) app_state" where
  "sample_state fails = app_state_of (sample_app fails) (sample_app_scopes fails) 0"

lemma isl_projr: "\<not> isl (fst x) \<Longrightarrow> x = (Inr (projr (fst x)), snd x)"
  by (cases x; cases "fst x") auto

lemma sample_app_resolves:
  assumes "fails \<in> {[], [Start], [Stop]}"
  shows "app_resolve sample_matches sample_interface (sample_builder fails) initial_scopes =
    (Inr (sample_app fails), sample_app_scopes fails)"
proof -
  have "\<not> isl (fst (app_resolve sample_matches sample_interface (sample_builder []) initial_scopes))"
    "\<not> isl (fst (app_resolve sample_matches sample_interface (sample_builder [Start]) initial_scopes))"
    "\<not> isl (fst (app_resolve sample_matches sample_interface (sample_builder [Stop]) initial_scopes))"
    by code_simp+
  with assms show ?thesis unfolding sample_app_def sample_app_scopes_def by (intro isl_projr) auto
qed

lemma initial_scopes_ok: "wf_scopes initial_scopes" "room (next_scope_namespace initial_scopes)"
  using reachable_wf [OF reach_initial] by (simp_all add: room_def initial_scopes_def)

lemma sample_plugins_wf: "fails \<in> {[], [Start], [Stop]} \<Longrightarrow>
    \<forall>p \<in> set (ab_plugins (sample_builder fails)). descriptor_wf (pi_descriptor sample_interface p)"
  using sample_wf by (auto simp: sample_builder_def builder_plugin_def builder_binding_def app_builder_new_def
      sample_interface_def sample_spec_def)

lemma sample_ok:
  assumes "fails \<in> {[], [Start], [Stop]}"
  shows "app_ok (sample_env fails) (sample_state fails)"
  unfolding sample_env_def sample_state_def
  by (rule app_resolve_ok(1) [OF initial_scopes_ok sample_plugins_wf [OF assms] sample_app_resolves [OF assms]])

lemma sample_order: "rg_startup_order (env_graph (sample_env [])) =
    [PluginId ''x.quartz'', PluginId ''x.sundial'', PluginId ''x.orders'']"
  by code_simp

lemma sample_provisions_wf: "bm_wf (sample_provisions p)"
proof -
  have "bm_wf m \<Longrightarrow> bm_wf (fold (\<lambda>ofr. bm_insert (offer_id ofr) (f ofr)) ofrs m)"
    for m :: "(nat, str) provision_set" and f and ofrs :: "nat capability_offer list"
    by (induction ofrs arbitrary: m) (simp_all add: bm_wf_insert)
  then show ?thesis by (simp add: sample_provisions_def)
qed

lemma sample_hooks_wf: "hooks_wf sample_interface"
  by (auto simp: hooks_wf_def sample_interface_def run_plugin_hook_def sample_hook_def sample_provisions_wf
      split: if_splits)

section \<open>Composing, step by step\<close>

lemma app_resolve_run:
  fixes iface :: "('p, 'w, 'v, 'q, 'h) plugin_interface" and builder :: "('p, 'w, 'v, 'q) app_builder"
  defines "declared \<equiv> map (\<lambda>p. (pi_descriptor iface p, p, pi_host_requirements iface p)) (ab_plugins builder)"
  shows "app_resolve matches iface builder scopes =
     (case resolve matches (builder_spec declared (ab_bindings builder) (ab_limits builder)) of
        Inl Panic \<Rightarrow> (Inl Panic, scopes)
      | Inl (Err error) \<Rightarrow> (Inl (Err (GraphError error)), scopes)
      | Inr graph \<Rightarrow> (case validate_host_requirements matches declared (ab_host_capabilities builder) of
           Inl error \<Rightarrow> (Inl (Err (HostError error)), scopes)
         | Inr _ \<Rightarrow> (Inr \<lparr>ra_graph = graph,
              ra_plugins = fold (\<lambda>(descriptor, plugin, _). bm_insert (pd_id descriptor) plugin) declared [],
              ra_observer = (case ab_observer builder of None \<Rightarrow> default_sink | Some sink \<Rightarrow> sink),
              ra_scope = fst (application scopes)\<rparr>, snd (application scopes))))"
  unfolding app_resolve_def Let_def declared_def by (simp split: sum.split fault.split prod.split)

lemma app_resolve_okD:
  assumes "app_resolve matches iface builder scopes = (Inr app, scopes')"
  defines "declared \<equiv> map (\<lambda>p. (pi_descriptor iface p, p, pi_host_requirements iface p)) (ab_plugins builder)"
  shows "resolve matches (builder_spec declared (ab_bindings builder) (ab_limits builder)) = Inr (ra_graph app)"
    and "ra_plugins app = fold (\<lambda>(d, p, _). bm_insert (pd_id d) p) declared []"
    and "application scopes = (ra_scope app, scopes')"
    and "validate_host_requirements matches declared (ab_host_capabilities builder) = Inr ()"
  using assms(1) unfolding app_resolve_run declared_def by (auto split: sum.splits fault.splits)

lemma resolved_plugin_keys:
  assumes "app_resolve matches iface builder scopes = (Inr app, scopes')"
    and "resolves_to matches spec (ra_graph app)"
    and "spec_plugins spec = map (pi_descriptor iface) (ab_plugins builder)"
  shows "bm_keys (ra_plugins app) = bm_keys (rg_plugins (ra_graph app))"
proof -
  define declared where "declared = map (\<lambda>p. (pi_descriptor iface p, p, pi_host_requirements iface p)) (ab_plugins builder)"
  have plugins: "ra_plugins app = fold (\<lambda>(d, p, _). bm_insert (pd_id d) p) declared []"
    unfolding declared_def by (rule app_resolve_okD(2) [OF assms(1)])
  have "bm_wf (ra_plugins app)" unfolding plugins by (rule fold_insert_wf) simp
  moreover have "bm_wf (rg_plugins (ra_graph app))" using assms(2) unfolding resolves_to_def Let_def by blast
  moreover have "set (bm_keys (ra_plugins app)) = pd_id ` pi_descriptor iface ` set (ab_plugins builder)"
    unfolding plugins fold_insert_keys by (simp add: declared_def image_image)
  moreover have "set (rg_plugins (ra_graph app)) =
      (\<lambda>d. (pd_id d, d)) ` set (map (pi_descriptor iface) (ab_plugins builder))"
    using assms(2) unfolding resolves_to_def Let_def assms(3) by blast
  then have "set (bm_keys (rg_plugins (ra_graph app))) = pd_id ` pi_descriptor iface ` set (ab_plugins builder)"
    by (simp add: bm_keys_def image_image)
  ultimately show ?thesis by (intro ascending_unique bm_wf_keys) simp_all
qed

lemma fold_insert_get:
  assumes "distinct (map (\<lambda>(d, _). pd_id d) declared)" and "(d, p, r) \<in> set declared" and "bm_wf m"
  shows "bm_get (fold (\<lambda>(d, p, _). bm_insert (pd_id d) p) declared m) (pd_id d) = Some p"
  using assms
proof (induction declared arbitrary: m)
  case (Cons e declared)
  obtain d' p' r' where e: "e = (d', p', r')" by (cases e)
  have skip: "bm_get (fold (\<lambda>(d, p, _). bm_insert (pd_id d) p) declared m) k = bm_get m k"
    if "k \<notin> (\<lambda>(d, _). pd_id d) ` set declared" "bm_wf m" for k m
    using that by (induction declared arbitrary: m) (auto simp: bm_wf_insert bm_get_insert)
  show ?case
  proof (cases "(d, p, r) = e")
    case True
    then have "d' = d" "p' = p" by (simp_all add: e)
    then show ?thesis
      using Cons.prems skip [of "pd_id d" "bm_insert (pd_id d) p m"] by (simp add: e bm_wf_insert bm_get_insert)
  next
    case False
    then show ?thesis using Cons.prems Cons.IH [of "bm_insert (pd_id d') p' m"] by (auto simp: e bm_wf_insert)
  qed
qed simp

lemma resolved_plugin_get:
  assumes run: "app_resolve matches iface builder scopes = (Inr app, scopes')"
    and distinct: "distinct (map (\<lambda>p. pd_id (pi_descriptor iface p)) (ab_plugins builder))"
    and p: "p \<in> set (ab_plugins builder)"
  shows "bm_get (ra_plugins app) (pd_id (pi_descriptor iface p)) = Some p"
proof -
  let ?declared = "map (\<lambda>p. (pi_descriptor iface p, p, pi_host_requirements iface p)) (ab_plugins builder)"
  have "distinct (map (\<lambda>(d, _). pd_id d) ?declared)" using distinct by (simp add: comp_def)
  moreover have "(pi_descriptor iface p, p, pi_host_requirements iface p) \<in> set ?declared" using p by auto
  ultimately show ?thesis
    using app_resolve_okD [OF run] by (simp add: fold_insert_get)
qed

section \<open>Properties\<close>

text \<open>C10: composing an application succeeds exactly for a valid composition whose host requirements the
  host satisfies, and never panics; the application then has the resolved graph, exactly the
  composed plugins, each under its own identity, and a new open scope.\<close>

theorem app_resolve_iff:
  fixes iface :: "('p, 'w, 'v, 'q, 'h) plugin_interface" and builder :: "('p, 'w, 'v, 'q) app_builder"
  assumes wf: "\<forall>p \<in> set (ab_plugins builder). descriptor_wf (pi_descriptor iface p)"
  defines "declared \<equiv> map (\<lambda>p. (pi_descriptor iface p, p, pi_host_requirements iface p)) (ab_plugins builder)"
  shows "fst (app_resolve matches iface builder scopes) \<noteq> Inl Panic \<and>
    ((\<exists>app scopes'. app_resolve matches iface builder scopes = (Inr app, scopes')) \<longleftrightarrow>
       valid_composition matches (builder_spec declared (ab_bindings builder) (ab_limits builder)) \<and>
       distinct (map hc_id (ab_host_capabilities builder)) \<and>
       (\<forall>p \<in> set (ab_plugins builder).
          host_satisfies matches (ab_host_capabilities builder) (pi_host_requirements iface p))) \<and>
    (\<forall>app scopes'. app_resolve matches iface builder scopes = (Inr app, scopes') \<longrightarrow>
       resolves_to matches (builder_spec declared (ab_bindings builder) (ab_limits builder)) (ra_graph app) \<and>
       bm_keys (ra_plugins app) = bm_keys (rg_plugins (ra_graph app)) \<and>
       (\<forall>p \<in> set (ab_plugins builder). bm_get (ra_plugins app) (pd_id (pi_descriptor iface p)) = Some p) \<and>
       \<not> live scopes (ra_scope app) \<and> live scopes' (ra_scope app) \<and> \<not> is_closing scopes' (ra_scope app))"
proof (intro conjI allI impI)
  let ?spec = "builder_spec declared (ab_bindings builder) (ab_limits builder)"
  have ds: "spec_plugins ?spec = map (pi_descriptor iface) (ab_plugins builder)"
    by (simp add: builder_spec_fields declared_def)
  have wf_ds: "\<forall>d \<in> set (spec_plugins ?spec). descriptor_wf d" using wf by (simp add: ds)
  note run = app_resolve_run [of matches iface builder scopes, folded declared_def]
  show "fst (app_resolve matches iface builder scopes) \<noteq> Inl Panic"
    using resolve_never_panics [OF wf_ds, of matches] unfolding run
    by (auto split: sum.splits fault.splits)
  have host: "validate_host_requirements matches declared (ab_host_capabilities builder) = Inr () \<longleftrightarrow>
      distinct (map hc_id (ab_host_capabilities builder)) \<and>
      (\<forall>p \<in> set (ab_plugins builder).
          host_satisfies matches (ab_host_capabilities builder) (pi_host_requirements iface p))"
    by (auto simp: validate_host_requirements_ok declared_def)
  have graph: "(\<exists>g. resolve matches ?spec = Inr g) \<longleftrightarrow> valid_composition matches ?spec"
    using resolve_complete(1) [OF wf_ds] resolve_sound [OF wf_ds, of matches] by blast
  have "(\<exists>app scopes'. app_resolve matches iface builder scopes = (Inr app, scopes')) \<longleftrightarrow>
      (\<exists>g. resolve matches ?spec = Inr g) \<and>
      validate_host_requirements matches declared (ab_host_capabilities builder) = Inr ()"
    unfolding run by (auto split: sum.splits fault.splits)
  then show "(\<exists>app scopes'. app_resolve matches iface builder scopes = (Inr app, scopes')) \<longleftrightarrow>
       valid_composition matches ?spec \<and>
       distinct (map hc_id (ab_host_capabilities builder)) \<and>
       (\<forall>p \<in> set (ab_plugins builder).
          host_satisfies matches (ab_host_capabilities builder) (pi_host_requirements iface p))"
    unfolding graph host by blast
  fix app scopes' assume ok: "app_resolve matches iface builder scopes = (Inr app, scopes')"
  note ran = app_resolve_okD [OF ok, folded declared_def]
  show g: "resolves_to matches ?spec (ra_graph app)" using resolve_correct [OF wf_ds] ran(1) by blast
  show "bm_keys (ra_plugins app) = bm_keys (rg_plugins (ra_graph app))" by (rule resolved_plugin_keys [OF ok g ds])
  have "valid_composition matches ?spec" using resolve_sound [OF wf_ds] ran(1) by blast
  then have "distinct (map (\<lambda>p. pd_id (pi_descriptor iface p)) (ab_plugins builder))"
    unfolding valid_composition_def Let_def ds by (simp add: comp_def)
  then show "\<forall>p \<in> set (ab_plugins builder). bm_get (ra_plugins app) (pd_id (pi_descriptor iface p)) = Some p"
    using resolved_plugin_get [OF ok] by blast
  note scope = ran(3)
  show "\<not> live scopes (ra_scope app)" "live scopes' (ra_scope app)"
    using application_facts(1,5) [OF scope] by (auto simp: live_def)
  show "\<not> is_closing scopes' (ra_scope app)"
    by (simp add: is_closing_def state_of_def application_facts(6) [OF scope])
qed

lemma app_resolve_iff_witness:
  "valid_composition sample_matches (builder_spec
     (map (\<lambda>p. (pi_descriptor sample_interface p, p, pi_host_requirements sample_interface p))
       (ab_plugins (sample_builder []))) (ab_bindings (sample_builder [])) (ab_limits (sample_builder [])))"
  using app_resolve_iff [OF sample_plugins_wf, of "[]" sample_matches initial_scopes]
    sample_app_resolves [of "[]"] by blast

text \<open>C11: when \<open>start\<close> succeeds, it has run \<open>initialize\<close> of every plugin in startup order and then
  \<open>start\<close> of every plugin in startup order, nothing else, no failure was observed, the registry
  holds exactly the declared offers of all plugins, and the scopes are untouched.\<close>

theorem start_success:
  assumes "app_ok env st" and "hooks_wf (env_interface env)" and "start env st = (Inr (), st')"
  defines "order \<equiv> rg_startup_order (env_graph env)"
  shows "(\<exists>t. st_trace st' = st_trace st @ t \<and>
      hooks t = map (\<lambda>p. (p, Initialize)) order @ map (\<lambda>p. (p, Start)) order \<and> failed_observations t = []) \<and>
    (\<forall>p c. bm_get (st_registry st') (p, c) \<noteq> None \<longleftrightarrow>
      (\<exists>d. graph_plugin (env_graph env) p = Some d \<and> offer d c \<noteq> None)) \<and>
    st_scopes st' = st_scopes st"
proof -
  have runs: "runs env st st' (in_phase Initialize order @ in_phase Start order) []"
    and inv: "init_inv env (st_scopes st) order st'"
    using start_cases [OF assms(1)] assms(3) unfolding order_def by auto
  have "p \<in> set order" if "graph_plugin (env_graph env) p = Some d" for p d
    using that runnable_graphD(4) [of "env_graph env" p] assms(1) by (auto simp: app_ok_def order_def)
  then show ?thesis
    using runs inv assms(2) by (auto simp: runs_def in_phase_def init_inv_def publishes_def)
qed

lemma sample_starts: "start (sample_env []) (sample_state []) = (Inr (), snd (start (sample_env []) (sample_state [])))"
proof -
  have "fst (start (sample_env []) (sample_state [])) = Inr ()" by code_simp
  then show ?thesis by (metis prod.collapse)
qed

lemma sample_env_interface: "env_interface (sample_env fails) = sample_interface"
  by (simp add: sample_env_def app_env_def)

lemma start_success_witness:
  "\<exists>t. st_trace (snd (start (sample_env []) (sample_state []))) = st_trace (sample_state []) @ t \<and>
     hooks t = [(PluginId ''x.quartz'', Initialize), (PluginId ''x.sundial'', Initialize),
       (PluginId ''x.orders'', Initialize), (PluginId ''x.quartz'', Start), (PluginId ''x.sundial'', Start),
       (PluginId ''x.orders'', Start)]"
proof -
  have "app_ok (sample_env []) (sample_state [])" by (rule sample_ok) simp
  moreover have "hooks_wf (env_interface (sample_env []))" by (simp add: sample_env_interface sample_hooks_wf)
  ultimately show ?thesis
    using start_success [OF _ _ sample_starts] unfolding sample_order by auto
qed

text \<open>C3: when \<open>start\<close> fails, it fails at one plugin of the startup order, never by a panic of Kernox.
  If its \<open>initialize\<close> or publication failed, the plugins up to it, itself included, are disposed in
  reverse order. If its \<open>start\<close> failed, the plugins up to it are quiesced and then stopped, and all
  are disposed, each in reverse order. Every one of these hooks runs whatever the others do, the
  failure names the primary error and exactly the cleanup failures that were observed, and the
  application scope is closed.\<close>

theorem start_failure_rolls_back:
  assumes "app_ok env st" and "start env st = (Inl f, st')"
  defines "order \<equiv> rg_startup_order (env_graph env)"
  shows "\<exists>lf prior p rest t. f = Err lf \<and> order = prior @ p # rest \<and> st_trace st' = st_trace st @ t \<and>
    fr_plugin (lf_primary lf) = p \<and>
    failed_observations t = map failure_key (lf_primary lf # lf_cleanup_failures lf) \<and>
    state_of (st_scopes st') (env_scope env) = Closed \<and>
    (fr_phase (lf_primary lf) = Initialize \<and>
       hooks t = map (\<lambda>q. (q, Initialize)) (prior @ [p]) @ map (\<lambda>q. (q, Dispose)) (rev (prior @ [p])) \<or>
     fr_phase (lf_primary lf) = Start \<and>
       hooks t = map (\<lambda>q. (q, Initialize)) order @ map (\<lambda>q. (q, Start)) (prior @ [p]) @
         map (\<lambda>q. (q, Quiesce)) (rev (prior @ [p])) @ map (\<lambda>q. (q, Stop)) (rev (prior @ [p])) @
         map (\<lambda>q. (q, Dispose)) (rev order))"
proof -
  from start_cases [OF assms(1)] assms(2) obtain lf prior p rest where
    lf: "f = Err lf" "order = prior @ p # rest" "app_state_scope env st' = Closed" "fr_plugin (lf_primary lf) = p"
    and cases: "fr_phase (lf_primary lf) = Initialize \<and>
         runs env st st' (in_phase Initialize (prior @ [p]) @ in_phase Dispose (rev (prior @ [p]))) (failed_as lf) \<or>
       fr_phase (lf_primary lf) = Start \<and>
         runs env st st' (in_phase Initialize order @ in_phase Start (prior @ [p]) @
           in_phase Quiesce (rev (prior @ [p])) @ in_phase Stop (rev (prior @ [p])) @
           in_phase Dispose (rev order)) (failed_as lf)"
    unfolding order_def by auto
  then obtain t where "st_trace st' = st_trace st @ t" "failed_observations t = map failure_key (failed_as lf)"
    "fr_phase (lf_primary lf) = Initialize \<and>
       hooks t = in_phase Initialize (prior @ [p]) @ in_phase Dispose (rev (prior @ [p])) \<or>
     fr_phase (lf_primary lf) = Start \<and>
       hooks t = in_phase Initialize order @ in_phase Start (prior @ [p]) @
           in_phase Quiesce (rev (prior @ [p])) @ in_phase Stop (rev (prior @ [p])) @ in_phase Dispose (rev order)"
    unfolding runs_def by blast
  with lf show ?thesis
    unfolding failed_as_def in_phase_def app_state_scope_def by blast
qed

lemma sample_start_fails:
  "start (sample_env [Start]) (sample_state [Start]) =
     (Inl (projl (fst (start (sample_env [Start]) (sample_state [Start])))),
      snd (start (sample_env [Start]) (sample_state [Start])))"
proof -
  have "isl (fst (start (sample_env [Start]) (sample_state [Start])))" by code_simp
  then show ?thesis by (metis prod.collapse sum.collapse(1))
qed

lemma start_failure_rolls_back_witness:
  "state_of (st_scopes (snd (start (sample_env [Start]) (sample_state [Start])))) (env_scope (sample_env [Start])) = Closed"
proof -
  have "app_ok (sample_env [Start]) (sample_state [Start])" by (rule sample_ok) simp
  from start_failure_rolls_back [OF this sample_start_fails] show ?thesis by blast
qed

text \<open>C12: during \<open>start\<close>, once the plugins before a plugin have been initialized, the context its
  \<open>initialize\<close> hook gets is ready: all plugins it may depend on have published what they offer.\<close>

theorem initialization_sees_dependencies:
  assumes "app_ok env st" and "hooks_wf (env_interface env)" and "st_registry st = []"
    and "rg_startup_order (env_graph env) = prior @ p # rest"
    and "initialize_all env prior st = (Inr initialized, st')"
  shows "ready_context (initialize_context env p st')"
proof -
  have inv: "init_inv env (st_scopes st) [] st" using assms(3) by (simp add: init_inv_def publishes_def)
  have within: "set prior \<subseteq> set (rg_startup_order (env_graph env))" using assms(4) by auto
  have "init_inv env (st_scopes st) prior st'" "app_ok env st'"
    using initialize_all_cases [OF assms(1) inv within] assms(5) runs_ok by auto
  then have pub: "publishes (env_graph env) prior (st_registry st')" and g: "runnable_graph (env_graph env)"
    using assms(2) by (simp_all add: init_inv_def app_ok_def)
  have "q \<in> set prior" if "precedes (rg_startup_order (env_graph env)) q p" for q
  proof -
    from that obtain us vs ws where eq: "prior @ p # rest = us @ q # vs @ p # ws"
      unfolding precedes_def assms(4) by blast
    have "distinct (prior @ p # rest)" using runnable_graphD(3) [OF g] by (simp add: assms(4))
    with eq have "prior = us @ q # vs"
      using append_Cons_eq_iff [of p "us @ q # vs" ws prior rest] by auto
    then show ?thesis by simp
  qed
  then show ?thesis
    using pub g unfolding ready_context_def published_def publishes_def initialize_context_def by auto
qed

lemma initialization_sees_dependencies_witness:
  "ready_context (initialize_context (sample_env []) (PluginId ''x.orders'')
     (snd (initialize_all (sample_env []) [PluginId ''x.quartz'', PluginId ''x.sundial''] (sample_state []))))"
proof (rule initialization_sees_dependencies [where st = "sample_state []" and rest = "[]"])
  show "app_ok (sample_env []) (sample_state [])" by (rule sample_ok) simp
  show "hooks_wf (env_interface (sample_env []))" by (simp add: sample_env_interface sample_hooks_wf)
  show "st_registry (sample_state []) = []" by (simp add: sample_state_def app_state_of_def)
  show "rg_startup_order (env_graph (sample_env [])) =
    [PluginId ''x.quartz'', PluginId ''x.sundial''] @ PluginId ''x.orders'' # []" by (simp add: sample_order)
  have "fst (initialize_all (sample_env []) [PluginId ''x.quartz'', PluginId ''x.sundial''] (sample_state [])) =
    Inr [PluginId ''x.quartz'', PluginId ''x.sundial'']" by code_simp
  then show "initialize_all (sample_env []) [PluginId ''x.quartz'', PluginId ''x.sundial''] (sample_state []) =
    (Inr [PluginId ''x.quartz'', PluginId ''x.sundial''],
     snd (initialize_all (sample_env []) [PluginId ''x.quartz'', PluginId ''x.sundial''] (sample_state [])))"
    by (metis prod.collapse)
qed

end
