(* ===== verification/Shutdown_Properties.thy ===== *)
theory Shutdown_Properties
  imports Lifecycle_Properties
begin

text \<open>
  The end of an application and its invocation scopes (\<open>kernox-runtime/src/app.rs\<close>): what
  \<open>shutdown\<close> runs and reports, that it happens once, and that opening and dropping an invocation
  scope leaves nothing behind.
\<close>

section \<open>Shutdown\<close>

text \<open>C4: \<open>shutdown\<close> of an application that was not shut down yet never fails. It runs \<open>quiesce\<close>, then
  \<open>stop\<close>, then \<open>dispose\<close> of every plugin, each in the reverse of the startup order and whatever
  fails or unwinds on the way, observes every hook once, reports exactly the failures it observed
  under valid tags, and leaves the application scope closed.\<close>

theorem shutdown_runs_everything:
  assumes "app_ok env st" and "st_terminal st = None"
  defines "order \<equiv> rev (rg_startup_order (env_graph env))"
  shows "\<exists>r st' t. shutdown env st = (Inr r :: 'e fault + _, st') \<and> st_trace st' = st_trace st @ t \<and>
    hooks t = map (\<lambda>p. (p, Quiesce)) order @ map (\<lambda>p. (p, Stop)) order @ map (\<lambda>p. (p, Dispose)) order \<and>
    map (\<lambda>o'. (ob_plugin o', ob_phase o')) (observations t) = hooks t \<and>
    failed_observations t = map failure_key (sr_failures r) \<and>
    (\<forall>f \<in> set (sr_failures r). valid_tag (fr_error_tag f)) \<and>
    (is_clean r \<longleftrightarrow> (\<forall>o' \<in> set (observations t). ob_outcome o' = Succeeded)) \<and>
    state_of (st_scopes st') (env_scope env) = Closed"
proof -
  have clean: "failed_observations t = [] \<longleftrightarrow> (\<forall>o' \<in> set (observations t). ob_outcome o' = Succeeded)" for t
    by (auto simp: failed_observations_def split: lifecycle_outcome.splits) (metis lifecycle_outcome.exhaust)
  obtain fs st' where run: "shutdown env st = (Inr \<lparr>sr_failures = fs\<rparr> :: 'e fault + _, st')"
    "runs env st st' (concat (map (\<lambda>ph. in_phase ph order) [Quiesce, Stop, Dispose])) fs"
    "app_state_scope env st' = Closed"
    using shutdown_ok [OF assms(1,2), where 'e = 'e] unfolding order_def by blast
  from run(2) obtain t where t: "st_trace st' = st_trace st @ t"
    "hooks t = concat (map (\<lambda>ph. in_phase ph order) [Quiesce, Stop, Dispose])"
    "map (\<lambda>o'. (ob_plugin o', ob_phase o')) (observations t) =
       concat (map (\<lambda>ph. in_phase ph order) [Quiesce, Stop, Dispose])"
    "failed_observations t = map failure_key fs" "\<forall>f \<in> set fs. valid_tag (fr_error_tag f)"
    unfolding runs_def by blast
  then show ?thesis
    using run(1,3) clean [of t]
    by (intro exI [of _ "\<lparr>sr_failures = fs\<rparr>"] exI [of _ st'] exI [of _ t])
      (simp add: in_phase_def is_clean_def app_state_scope_def)
qed

lemma shutdown_runs_everything_witness:
  "\<exists>r st'. shutdown (sample_env [Stop]) (sample_state [Stop]) = (Inr r :: nat fault + _, st') \<and>
     state_of (st_scopes st') (env_scope (sample_env [Stop])) = Closed"
proof -
  have "app_ok (sample_env [Stop]) (sample_state [Stop])" by (rule sample_ok) simp
  moreover have "st_terminal (sample_state [Stop]) = None" by (simp add: sample_state_def app_state_of_def)
  ultimately show ?thesis
    using shutdown_runs_everything [where 'e = nat] by blast
qed

text \<open>C14: \<open>shutdown\<close> is final. A second call returns the same report and changes nothing; afterwards
  no capability can be acquired and no invocation scope opened, and the refused scope changes
  nothing.\<close>

theorem shutdown_is_final:
  assumes "app_ok env st" and "shutdown env st = (Inr r :: 'e fault + _, st')" and "st_terminal st = None"
  shows "shutdown env st' = (Inr r :: 'e fault + _, st') \<and>
    capability_from parse_version env C p st' = Inl ApplicationUnavailable \<and>
    invocation_scope env st' = (Inl ScopeError, st')"
proof -
  obtain fs st1 where "shutdown env st = (Inr \<lparr>sr_failures = fs\<rparr> :: 'e fault + _, st1)"
    "st_terminal st1 = Some \<lparr>sr_failures = fs\<rparr>" "app_state_scope env st1 = Closed"
    using shutdown_ok [OF assms(1,3), where 'e = 'e] by blast
  with assms(2) have "st_terminal st' = Some r" "state_of (st_scopes st') (env_scope env) \<noteq> Open"
    by (auto simp: app_state_scope_def)
  then show ?thesis
    by (simp add: shutdown_def capability_from_def invocation_scope_def child_closed)
qed

lemma sample_shutdown:
  "shutdown (sample_env [Stop]) (sample_state [Stop]) =
     (Inr (projr (fst (shutdown (sample_env [Stop]) (sample_state [Stop]) :: (nat fault + _) \<times> _))) :: nat fault + _,
      snd (shutdown (sample_env [Stop]) (sample_state [Stop]) :: (nat fault + _) \<times> _))"
proof -
  have "\<not> isl (fst (shutdown (sample_env [Stop]) (sample_state [Stop]) :: (nat fault + _) \<times> _))" by code_simp
  then show ?thesis by (rule isl_projr)
qed

lemma shutdown_is_final_witness:
  "invocation_scope (sample_env [Stop]) (snd (shutdown (sample_env [Stop]) (sample_state [Stop]) :: (nat fault + _) \<times> _)) =
     (Inl ScopeError, snd (shutdown (sample_env [Stop]) (sample_state [Stop]) :: (nat fault + _) \<times> _))"
proof -
  have "app_ok (sample_env [Stop]) (sample_state [Stop])" by (rule sample_ok) simp
  moreover have "st_terminal (sample_state [Stop]) = None" by (simp add: sample_state_def app_state_of_def)
  ultimately show ?thesis using shutdown_is_final [OF _ sample_shutdown] by blast
qed

section \<open>Invocation scopes\<close>

text \<open>Closing a scope that has no scope below it.\<close>

lemma close_leaf:
  assumes wf: "wf_scopes st" and c: "live st c" and leaf: "\<And>b. live st b \<Longrightarrow> si_parent (inner st b) \<noteq> Some c"
    and p: "si_parent (inner st c) = Some p" "live st p"
  obtains st1 st2 where "begin_close (length (scope_inners st)) c st = Some st1"
    and "finish_close (length (scope_inners st1)) c st1 = Some st2" and "same_scopes st st2" and "wf_scopes st2"
    and "\<And>b. live st b \<Longrightarrow> b \<noteq> c \<Longrightarrow> state_of st2 b = state_of st b"
    and "state_of st2 c = Closed"
    and "si_children (inner st2 p) = filter (\<lambda>x. live st x \<and> x \<noteq> c) (si_children (inner st p))"
proof -
  have within: "within st c b \<longleftrightarrow> b = c" for b
    using c leaf by (blast elim: within_cases_child intro: within_self)
  have tree: "wf_tree st" using wf by (simp add: wf_scopes_def)
  obtain st1 where 1: "begin_close (length (scope_inners st)) c st = Some st1" "marked {b. within st c b} st st1"
    by (rule begin_close_ok [OF tree c order_refl])
  note m = markedD [OF 1(2)] and same1 = same_scopesD [OF marked_same [OF 1(2)]]
  have wf1: "wf_scopes st1" by (rule begin_close_gated [OF 1(2) wf])
  then have tree1: "wf_tree st1" by (simp add: wf_scopes_def)
  have c1: "live st1 c" using c same1(1) by simp
  have "length (scope_inners st1) - c \<le> length (scope_inners st1)" by simp
  from finish_close_finishes [OF tree1 c1 this] obtain st2 where
    2: "finish_close (length (scope_inners st1)) c st1 = Some st2" "finished {b. within st1 c b} st1 st2"
    and pruned: "\<And>x. x \<in> set (si_children (inner st2 p)) \<Longrightarrow> live st1 x"
    using p same1(1,4) c by auto
  note f = finishedD [OF 2(2)] and same2 = same_scopesD [OF finished_same [OF 2(2)]]
  have within1: "within st1 c b \<longleftrightarrow> b = c" for b
    using within by (simp add: within_same_scopes [OF marked_same [OF 1(2)]])
  show thesis
  proof (rule that [OF 1(1) 2(1)])
    show "same_scopes st st2" by (rule same_scopes_trans [OF marked_same [OF 1(2)] finished_same [OF 2(2)]])
    show "wf_scopes st2" by (rule finish_close_gated [OF 2(2) wf1])
    show "state_of st2 b = state_of st b" if "live st b" "b \<noteq> c" for b
      using that m(1,4) f(3) by (simp add: within within1)
    show "state_of st2 c = Closed" using f(3) [OF c1] by (simp add: within1)
    have "si_children (inner st2 p) = filter (live st1) (si_children (inner st2 p))"
      using pruned by (simp add: filter_id_conv)
    also have "\<dots> = filter (\<lambda>x. live st x \<and> x \<noteq> c) (si_children (inner st p))"
      using f(6) m(1,3) p(2) same1(1) by (simp add: within1)
    finally show "si_children (inner st2 p) = filter (\<lambda>x. live st x \<and> x \<noteq> c) (si_children (inner st p))" .
  qed
qed

text \<open>Opening a scope below an open one and closing and freeing it again.\<close>

lemma open_close_child:
  assumes wf: "wf_scopes s" "live s a" and op: "state_of s a = Open"
    and r: "room (scope_counters s ! si_next_id (inner s a))"
  obtains c s1 s2 s3 where "child a kind s = (Inr c, s1)" and "admitted s a kind c s1"
    and "begin_close (length (scope_inners s1)) c s1 = Some s2"
    and "finish_close (length (scope_inners s2)) c s2 = Some s3" and "wf_scopes (drop_inner c s3)"
    and "\<And>b. live (drop_inner c s3) b \<longleftrightarrow> live s b"
    and "\<And>b. live s b \<Longrightarrow> state_of (drop_inner c s3) b = state_of s b"
    and "si_children (inner (drop_inner c s3) a) = filter (live s) (si_children (inner s a))"
proof -
  obtain c s1 where ch: "child a kind s = (Inr c, s1)" and ad: "admitted s a kind c s1"
    by (rule child_open [OF wf(2) op])
  note new = admittedD [OF ad]
  have wf1: "wf_scopes s1" by (rule child_wf [OF wf r ch])
  have tree1: "wf_tree s1" using wf1 by (simp add: wf_scopes_def)
  have ne: "a \<noteq> c" using new(14) wf(2) by blast
  have leaf: "si_parent (inner s1 b) \<noteq> Some c" if b: "live s1 b" for b
  proof
    assume "si_parent (inner s1 b) = Some c"
    with wf_treeD(2) [OF tree1 b] have "c < b" by blast
    with b new(5) new(15) [of b] show False by auto
  qed
  have c1: "live s1 c" and parent: "si_parent (inner s1 c) = Some a" "live s1 a"
    using new(5,6) wf(2) by (simp_all add: child_inner_def)
  obtain s2 s3 where 2: "begin_close (length (scope_inners s1)) c s1 = Some s2"
    "finish_close (length (scope_inners s2)) c s2 = Some s3" "same_scopes s1 s3" "wf_scopes s3"
    "\<And>b. live s1 b \<Longrightarrow> b \<noteq> c \<Longrightarrow> state_of s3 b = state_of s1 b"
    "state_of s3 c = Closed"
    "si_children (inner s3 a) = filter (\<lambda>x. live s1 x \<and> x \<noteq> c) (si_children (inner s1 a))"
    using close_leaf [OF wf1 c1 leaf parent] by blast
  have live3: "live s3 b \<longleftrightarrow> live s b \<or> b = c" for b
    using same_scopesD(1) [OF 2(3)] new(5) by simp
  show thesis
  proof (rule that [OF ch ad 2(1,2) drop_inner_wf [OF 2(4)]])
    show "live (drop_inner c s3) b \<longleftrightarrow> live s b" for b
      using live3 new(14) by (auto simp: drop_inner_facts)
    show "state_of (drop_inner c s3) b = state_of s b" if "live s b" for b
      using that 2(5) new(5,11,14) live3 by (metis drop_inner_facts(2) state_of_def)
    have "filter (\<lambda>x. live s1 x \<and> x \<noteq> c) (si_children (inner s1 a)) = filter (live s) (si_children (inner s a))"
      using new(12) [OF wf(2)] new(5,14) by (auto intro!: filter_cong)
    with 2(7) show "si_children (inner (drop_inner c s3) a) = filter (live s) (si_children (inner s a))"
      using live3 wf(2) ne by (simp add: drop_inner_facts)
  qed
qed

text \<open>C15: an invocation scope is opened exactly while the application scope is open, as a new scope of
  kind \<open>Invocation\<close> below it with an identity no live scope has. Dropping it closes and frees it, and leaves the other scopes as
  they were: the same scopes are alive in the same states and the application scope keeps exactly
  its live children, in order; references to dead children are gone.\<close>

theorem invocation_scope_leaves_nothing:
  assumes ok: "app_ok env st" and r: "room (scope_counters (st_scopes st) ! si_next_id (inner (st_scopes st) (env_scope env)))"
  shows "if app_state_scope env st = Open then
      \<exists>c st1 st2. invocation_scope env st = (Inr c, st1) \<and>
        \<not> live (st_scopes st) c \<and> view_kind (st_scopes st1) c = Invocation \<and>
        view_parent (st_scopes st1) c = Some (view_id (st_scopes st) (env_scope env)) \<and>
        state_of (st_scopes st1) c = Open \<and>
        (\<forall>b. live (st_scopes st) b \<longrightarrow> view_id (st_scopes st) b \<noteq> view_id (st_scopes st1) c) \<and>
        drop_invocation_scope c st1 = (Inr () :: 'e fault + _, st2) \<and> app_ok env st2 \<and>
        (\<forall>b. live (st_scopes st2) b \<longleftrightarrow> live (st_scopes st) b) \<and>
        (\<forall>b. live (st_scopes st) b \<longrightarrow> state_of (st_scopes st2) b = state_of (st_scopes st) b) \<and>
        si_children (inner (st_scopes st2) (env_scope env)) =
          filter (live (st_scopes st)) (si_children (inner (st_scopes st) (env_scope env)))
    else invocation_scope env st = (Inl ScopeError, st)"
proof (cases "app_state_scope env st = Open")
  case False
  then show ?thesis by (simp add: app_state_scope_def invocation_scope_def child_closed)
next
  case True
  let ?a = "env_scope env" and ?s = "st_scopes st"
  have wf: "wf_scopes ?s" "live ?s ?a" and op: "state_of ?s ?a = Open"
    using ok True by (simp_all add: app_ok_def app_state_scope_def)
  then have ids: "wf_ids ?s" by (simp add: wf_scopes_def wf_tree_def)
  obtain c s1 s2 s3 where ch: "child ?a Invocation ?s = (Inr c, s1)" and ad: "admitted ?s ?a Invocation c s1"
    and close: "begin_close (length (scope_inners s1)) c s1 = Some s2"
      "finish_close (length (scope_inners s2)) c s2 = Some s3" "wf_scopes (drop_inner c s3)"
    and after: "\<And>b. live (drop_inner c s3) b \<longleftrightarrow> live ?s b"
      "\<And>b. live ?s b \<Longrightarrow> state_of (drop_inner c s3) b = state_of ?s b"
      "si_children (inner (drop_inner c s3) ?a) = filter (live ?s) (si_children (inner ?s ?a))"
    using open_close_child [OF wf op r, of Invocation] by blast
  note new = admittedD [OF ad]
  let ?st1 = "st\<lparr>st_scopes := s1\<rparr>" and ?st2 = "st\<lparr>st_scopes := drop_inner c s3\<rparr>"
  have "invocation_scope env st = (Inr c, ?st1)" by (simp add: invocation_scope_def ch)
  moreover have "drop_invocation_scope c ?st1 = (Inr () :: 'e fault + _, ?st2)"
    by (simp add: drop_invocation_scope_def close(1,2))
  moreover have "app_ok env ?st2" using ok close(3) after(1) by (simp add: app_ok_def)
  moreover have "view_id ?s b \<noteq> view_id s1 c" if "live ?s b" for b
    using admitted_fresh_id [OF ids wf(2) that, of Invocation] new(6) by (simp add: view_id_def)
  moreover have "view_kind s1 c = Invocation" "view_parent s1 c = Some (view_id ?s ?a)" "state_of s1 c = Open"
    using new(5,6,7,13) wf(2) by (simp_all add: view_kind_def view_parent_def view_id_def child_inner_def)
  ultimately show ?thesis using True after new(14) by auto
qed

lemma invocation_scope_leaves_nothing_witness:
  "\<exists>c st1 st2. invocation_scope (sample_env []) (sample_state []) = (Inr c, st1) \<and>
     drop_invocation_scope c st1 = (Inr () :: nat fault + _, st2) \<and>
     si_children (inner (st_scopes st2) (env_scope (sample_env []))) = []"
proof -
  have ok: "app_ok (sample_env []) (sample_state [])" by (rule sample_ok) simp
  have "room (scope_counters (st_scopes (sample_state [])) !
      si_next_id (inner (st_scopes (sample_state [])) (env_scope (sample_env []))))"
    unfolding room_def by code_simp
  moreover have "app_state_scope (sample_env []) (sample_state []) = Open" by code_simp
  moreover have "si_children (inner (st_scopes (sample_state [])) (env_scope (sample_env []))) = []" by code_simp
  ultimately show ?thesis
    using invocation_scope_leaves_nothing [OF ok, where 'e = nat] by (auto split: if_splits)
qed

section \<open>Observation of a start\<close>

text \<open>Sequences of hooks that initialize some plugins and then run other hooks of these.\<close>

lemma precedes_append: "x \<in> set xs \<Longrightarrow> y \<in> set ys \<Longrightarrow> precedes (xs @ ys) x y"
proof -
  assume "x \<in> set xs" "y \<in> set ys"
  then obtain a b c d where "xs = a @ x # b" "ys = c @ y # d" by (meson split_list)
  then have "xs @ ys = a @ x # (b @ c) @ y # d" by simp
  then show ?thesis unfolding precedes_def by blast
qed

definition well_phased :: "(plugin_id \<times> lifecycle_phase) list \<Rightarrow> bool" where
  "well_phased hs \<longleftrightarrow> distinct hs \<and>
     (\<forall>p ph. (p, ph) \<in> set hs \<longrightarrow> ph \<noteq> Initialize \<longrightarrow> precedes hs (p, Initialize) (p, ph))"

lemma in_phase_facts:
  "(p, ph) \<in> set (in_phase ph' ps) \<longleftrightarrow> ph = ph' \<and> p \<in> set ps"
  "distinct (in_phase ph ps) \<longleftrightarrow> distinct ps"
  by (auto simp: in_phase_def distinct_map inj_on_def)

lemma well_phasedI:
  assumes "distinct ps" and "distinct hs"
    and "\<And>p ph. (p, ph) \<in> set hs \<Longrightarrow> ph \<noteq> Initialize \<and> p \<in> set ps"
  shows "well_phased (in_phase Initialize ps @ hs)"
proof -
  have "distinct (in_phase Initialize ps @ hs)" using assms by (auto simp: in_phase_facts)
  moreover have "precedes (in_phase Initialize ps @ hs) (p, Initialize) (p, ph)"
    if "(p, ph) \<in> set (in_phase Initialize ps @ hs)" "ph \<noteq> Initialize" for p ph
    using that assms(3) by (intro precedes_append) (auto simp: in_phase_facts)
  ultimately show ?thesis unfolding well_phased_def by blast
qed

lemma start_well_phased:
  assumes "app_ok env st"
  obtains r st' hs fs where "start env st = (r, st')" and "runs env st st' hs fs" and "well_phased hs"
    and "\<And>lf. r = Inl (Err lf) \<Longrightarrow> fs = failed_as lf"
proof -
  let ?order = "rg_startup_order (env_graph env)"
  have d: "distinct ?order" using assms by (auto simp: app_ok_def dest: runnable_graphD(3))
  from start_cases [OF assms] show thesis
  proof (elim disjE exE conjE)
    fix st' assume "start env st = (Inr (), st')" "runs env st st' (in_phase Initialize ?order @ in_phase Start ?order) []"
    then show thesis by (rule that) (use d in \<open>auto intro!: well_phasedI simp: in_phase_facts\<close>)
  next
    fix lf st' prior p rest assume *: "start env st = (Inl (Err lf), st')" "?order = prior @ p # rest"
      "runs env st st' (in_phase Initialize (prior @ [p]) @ in_phase Dispose (rev (prior @ [p]))) (failed_as lf)"
    have "well_phased (in_phase Initialize (prior @ [p]) @ in_phase Dispose (rev (prior @ [p])))"
      by (rule well_phasedI) (use d *(2) in \<open>auto simp: in_phase_facts\<close>)
    then show thesis by (rule that [OF *(1,3)]) auto
  next
    fix lf st' prior p rest assume *: "start env st = (Inl (Err lf), st')" "?order = prior @ p # rest"
      "runs env st st' (in_phase Initialize ?order @ in_phase Start (prior @ [p]) @
           in_phase Quiesce (rev (prior @ [p])) @ in_phase Stop (rev (prior @ [p])) @
           in_phase Dispose (rev ?order)) (failed_as lf)"
    have "well_phased (in_phase Initialize ?order @ in_phase Start (prior @ [p]) @
           in_phase Quiesce (rev (prior @ [p])) @ in_phase Stop (rev (prior @ [p])) @
           in_phase Dispose (rev ?order))"
      by (rule well_phasedI) (use d *(2) in \<open>auto simp: in_phase_facts\<close>)
    then show thesis by (rule that [OF *(1,3)]) auto
  qed
qed

text \<open>Whatever happens during \<open>start\<close>, every hook it runs is observed exactly once, in the order
  the hooks ran, no plugin sees a hook of a phase twice, a cleanup hook of a plugin runs only after
  its \<open>initialize\<close>, and every failure of the report carries a valid tag.\<close>

lemma start_observed:
  assumes "app_ok env st" and "start env st = (r, st')"
  shows "\<exists>t. st_trace st' = st_trace st @ t \<and>
    map (\<lambda>o'. (ob_plugin o', ob_phase o')) (observations t) = hooks t \<and> distinct (hooks t) \<and>
    (\<forall>p ph. (p, ph) \<in> set (hooks t) \<longrightarrow> ph \<noteq> Initialize \<longrightarrow> precedes (hooks t) (p, Initialize) (p, ph)) \<and>
    (\<forall>lf. r = Inl (Err lf) \<longrightarrow>
       (\<forall>f \<in> set (lf_primary lf # lf_cleanup_failures lf). valid_tag (fr_error_tag f)))"
proof -
  obtain r1 st1 hs fs where run: "start env st = (r1, st1)" "runs env st st1 hs fs" "well_phased hs"
    "\<And>lf. r1 = Inl (Err lf) \<Longrightarrow> fs = failed_as lf"
    using start_well_phased [OF assms(1)] by blast
  from run(2) obtain t where "st_trace st1 = st_trace st @ t" "hooks t = hs"
    "map (\<lambda>o'. (ob_plugin o', ob_phase o')) (observations t) = hs" "\<forall>f \<in> set fs. valid_tag (fr_error_tag f)"
    unfolding runs_def by blast
  moreover have "r1 = r" "st1 = st'" using assms(2) run(1) by simp_all
  ultimately show ?thesis
    using run(3,4) unfolding well_phased_def failed_as_def by (intro exI [of _ t]) metis
qed

lemma start_observed_witness:
  "\<exists>t. st_trace (snd (start (sample_env [Start]) (sample_state [Start]))) = st_trace (sample_state [Start]) @ t \<and>
     distinct (hooks t)"
proof -
  have "app_ok (sample_env [Start]) (sample_state [Start])" by (rule sample_ok) simp
  from start_observed [OF this sample_start_fails] show ?thesis by blast
qed

end
