(* ===== verification/Serverless.thy ===== *)
theory Serverless
  imports Shutdown_Properties
begin

text \<open>
  \<open>kernox-host-serverless/src/lib.rs\<close>: a warm application behind an admission bound, with one scope
  per invocation.

  \<open>Instant::now\<close> is the clock \<open>env_now\<close> of the application's environment. A handler is user code: a
  parameter that acts on the host and the world outside, and unwinds with \<open>None\<close>. \<open>shutdown\<close> and the
  construction take the host exclusively, so only admissions and releases interleave; the counter
  is touched by single atomic operations.
\<close>

section \<open>Configuration and errors\<close>

record serverless_config =
  max_concurrent_invocations :: nat

definition serverless_config_default :: serverless_config where
  "serverless_config_default = \<lparr>max_concurrent_invocations = 1024\<rparr>"

datatype serverless_config_error = ServerlessConfigError

datatype invocation_admission_error = InvocationClosed | InvocationCapacity | DeadlineExceeded

fun invocation_admission_error_tag :: "invocation_admission_error \<Rightarrow> str" where
  "invocation_admission_error_tag InvocationClosed = ''serverless.closed''"
| "invocation_admission_error_tag InvocationCapacity = ''serverless.capacity''"
| "invocation_admission_error_tag DeadlineExceeded = ''serverless.deadline-exceeded''"

fun invocation_admission_error_display :: "invocation_admission_error \<Rightarrow> str" where
  "invocation_admission_error_display InvocationClosed = ''serverless host is shutting down''"
| "invocation_admission_error_display InvocationCapacity = ''serverless invocation capacity is exhausted''"
| "invocation_admission_error_display DeadlineExceeded = ''serverless invocation deadline has elapsed''"

datatype 'e invocation_error = AdmissionError invocation_admission_error | HandlerError 'e

fun invocation_error_display :: "('e \<Rightarrow> str) \<Rightarrow> 'e invocation_error \<Rightarrow> str" where
  "invocation_error_display display (AdmissionError error) = invocation_admission_error_display error"
| "invocation_error_display display (HandlerError error) = display error"

section \<open>The host\<close>

record ('p, 'w, 'v, 'h) serverless_host =
  sh_app :: "('p, 'w, 'v, 'h) app_state"
  sh_config :: serverless_config
  sh_accepting :: bool
  sh_active :: nat

record invocation =
  iv_scope :: scope_ref
  iv_deadline :: "nat option"

record invocation_context =
  ic_scope :: scope_ref
  ic_deadline :: "nat option"

definition serverless_new ::
  "('p, 'w, 'v, 'h) app_state \<Rightarrow> serverless_config
     \<Rightarrow> serverless_config_error + ('p, 'w, 'v, 'h) serverless_host" where
  "serverless_new app config =
     (if max_concurrent_invocations config = 0 then Inl ServerlessConfigError
      else Inr \<lparr>sh_app = app, sh_config = config, sh_accepting = True, sh_active = 0\<rparr>)"

definition app_scope_id ::
  "('p, 'w, 'v, 'q, 'k) runtime_env \<Rightarrow> ('p, 'w, 'v, 'h) serverless_host \<Rightarrow> scope_id" where
  "app_scope_id env host = view_id (st_scopes (sh_app host)) (env_scope env)"

definition active_invocations :: "('p, 'w, 'v, 'h) serverless_host \<Rightarrow> nat" where
  "active_invocations host = sh_active host"

definition serverless_capability_from ::
  "(str \<Rightarrow> str + 'v) \<Rightarrow> ('p, 'w, 'v, 'q, 'h) runtime_env \<Rightarrow> capability_marker \<Rightarrow> plugin_id
     \<Rightarrow> ('p, 'w, 'v, 'h) serverless_host \<Rightarrow> access_error + 'h" where
  "serverless_capability_from parse_version env C provider host =
     capability_from parse_version env C provider (sh_app host)"

definition fetch_sub :: "nat \<Rightarrow> nat" where
  \<comment> \<open>\<open>AtomicUsize::fetch_sub(1)\<close> wraps around\<close>
  "fetch_sub n = (if n = 0 then USIZE_MAX else n - 1)"

definition elapsed ::
  "('p, 'w, 'v, 'q, 'h) runtime_env \<Rightarrow> nat option \<Rightarrow> ('p, 'w, 'v, 'h) serverless_host \<Rightarrow> bool" where
  "elapsed env deadline host \<longleftrightarrow>
     (case deadline of None \<Rightarrow> False | Some deadline \<Rightarrow> deadline \<le> env_now env (st_world (sh_app host)))"

definition begin_invocation ::
  "('p, 'w, 'v, 'q, 'h) runtime_env \<Rightarrow> nat option
     \<Rightarrow> (('p, 'w, 'v, 'h) serverless_host, invocation_admission_error, invocation) action" where
  "begin_invocation env deadline host =
     (if \<not> sh_accepting host then (Inl InvocationClosed, host)
      else if elapsed env deadline host then (Inl DeadlineExceeded, host)
      else if \<not> sh_active host < max_concurrent_invocations (sh_config host) then
        (Inl InvocationCapacity, host)
      else
        let host = host\<lparr>sh_active := sh_active host + 1\<rparr>
        in if \<not> sh_accepting host then
             (Inl InvocationClosed, host\<lparr>sh_active := fetch_sub (sh_active host)\<rparr>)
           else
             (case invocation_scope env (sh_app host) of
                (Inr scope, app) \<Rightarrow>
                  (Inr \<lparr>iv_scope = scope, iv_deadline = deadline\<rparr>, host\<lparr>sh_app := app\<rparr>)
              | (Inl _, app) \<Rightarrow>
                  (Inl InvocationClosed,
                   host\<lparr>sh_app := app, sh_active := fetch_sub (sh_active host)\<rparr>)))"

definition drop_invocation ::
  "invocation \<Rightarrow> (('p, 'w, 'v, 'h) serverless_host, 'e fault, unit) action" where
  \<comment> \<open>the fields are dropped in order: the scope guard, then \<open>InvocationCounter\<close>\<close>
  "drop_invocation iv host =
     (let (r, app) = drop_invocation_scope (iv_scope iv) (sh_app host)
      in (r, host\<lparr>sh_app := app, sh_active := fetch_sub (sh_active host)\<rparr>))"

definition context_of :: "invocation \<Rightarrow> invocation_context" where
  "context_of iv = \<lparr>ic_scope = iv_scope iv, ic_deadline = iv_deadline iv\<rparr>"

definition deadline_exceeded ::
  "('p, 'w, 'v, 'q, 'h) runtime_env \<Rightarrow> invocation_context \<Rightarrow> ('p, 'w, 'v, 'h) serverless_host \<Rightarrow> bool" where
  "deadline_exceeded env context host \<longleftrightarrow> elapsed env (ic_deadline context) host"

type_synonym ('s, 'e, 't) handler = "invocation_context \<Rightarrow> 's \<Rightarrow> ('e + 't) option \<times> 's"

definition invoke ::
  "('p, 'w, 'v, 'q, 'h) runtime_env \<Rightarrow> nat option
     \<Rightarrow> (('p, 'w, 'v, 'h) serverless_host, 'e, 't) handler
     \<Rightarrow> (('p, 'w, 'v, 'h) serverless_host, 'e invocation_error fault, 't) action" where
  \<comment> \<open>an unwinding handler drops the invocation on the way out\<close>
  "invoke env deadline handler host =
     (case begin_invocation env deadline host of
        (Inl error, host) \<Rightarrow> (Inl (Err (AdmissionError error)), host)
      | (Inr iv, host) \<Rightarrow>
          let (result, host) = handler (context_of iv) host
          in bind_action (drop_invocation iv) (\<lambda>_.
               case result of
                 None \<Rightarrow> fail_action Panic
               | Some (Inl error) \<Rightarrow> fail_action (Err (HandlerError error))
               | Some (Inr x) \<Rightarrow> return_action x) host)"

definition serverless_shutdown ::
  "('p, 'w, 'v, 'q, 'h) runtime_env
     \<Rightarrow> (('p, 'w, 'v, 'h) serverless_host, 'e fault, shutdown_report) action" where
  "serverless_shutdown env host =
     (let (report, app) = shutdown env (sh_app host)
      in (report, host\<lparr>sh_accepting := False, sh_app := app\<rparr>))"

section \<open>Reachable hosts\<close>

text \<open>A host and the invocations that are outstanding. Between the operations plugins and handlers
  change the world. An application counts at most \<open>2^64 - 1\<close> scopes.\<close>

inductive serverless_reach ::
  "('p, 'w, 'v, 'q, 'h) runtime_env \<Rightarrow> ('p, 'w, 'v, 'h) serverless_host \<Rightarrow> invocation list \<Rightarrow> bool"
  for env where
  host_new: "app_ok env app \<Longrightarrow> app_state_scope env app = Open \<Longrightarrow> st_terminal app = None \<Longrightarrow>
    serverless_new app config = Inr host \<Longrightarrow> serverless_reach env host []"
| host_admit: "serverless_reach env host ivs \<Longrightarrow> begin_invocation env deadline host = (Inr iv, host') \<Longrightarrow>
    room (scope_counters (st_scopes (sh_app host)) ! si_next_id (inner (st_scopes (sh_app host)) (env_scope env))) \<Longrightarrow>
    serverless_reach env host' (iv # ivs)"
| host_refuse: "serverless_reach env host ivs \<Longrightarrow> begin_invocation env deadline host = (Inl e, host') \<Longrightarrow>
    serverless_reach env host' ivs"
| host_drop: "serverless_reach env host ivs \<Longrightarrow> iv \<in> set ivs \<Longrightarrow>
    drop_invocation iv host = (r :: unit fault + unit, host') \<Longrightarrow> serverless_reach env host' (remove1 iv ivs)"
| host_shutdown: "serverless_reach env host [] \<Longrightarrow>
    serverless_shutdown env host = (s :: unit fault + shutdown_report, host') \<Longrightarrow> serverless_reach env host' []"
| host_world: "serverless_reach env host ivs \<Longrightarrow>
    serverless_reach env (host\<lparr>sh_app := (sh_app host)\<lparr>st_world := w\<rparr>\<rparr>) ivs"

definition outstanding :: "('p, 'w, 'v, 'q, 'h) runtime_env \<Rightarrow> scope_store \<Rightarrow> invocation \<Rightarrow> bool" where
  \<comment> \<open>the scope of an invocation that was not dropped yet\<close>
  "outstanding env st iv \<longleftrightarrow> live st (iv_scope iv) \<and> state_of st (iv_scope iv) = Open \<and>
     view_kind st (iv_scope iv) = Invocation \<and> si_parent (inner st (iv_scope iv)) = Some (env_scope env) \<and>
     (\<forall>b. live st b \<longrightarrow> si_parent (inner st b) \<noteq> Some (iv_scope iv))"

definition serverless_inv ::
  "('p, 'w, 'v, 'q, 'h) runtime_env \<Rightarrow> ('p, 'w, 'v, 'h) serverless_host \<Rightarrow> invocation list \<Rightarrow> bool" where
  "serverless_inv env host ivs \<longleftrightarrow> app_ok env (sh_app host) \<and>
     sh_active host = length ivs \<and> length ivs \<le> max_concurrent_invocations (sh_config host) \<and>
     0 < max_concurrent_invocations (sh_config host) \<and>
     (sh_accepting host \<longleftrightarrow> app_state_scope env (sh_app host) = Open) \<and>
     (sh_accepting host \<longleftrightarrow> st_terminal (sh_app host) = None) \<and> (\<not> sh_accepting host \<longrightarrow> ivs = []) \<and>
     distinct (map iv_scope ivs) \<and> (\<forall>iv \<in> set ivs. outstanding env (st_scopes (sh_app host)) iv)"

lemma serverless_invD:
  assumes "serverless_inv env host ivs"
  shows "app_ok env (sh_app host)" and "sh_active host = length ivs"
    and "length ivs \<le> max_concurrent_invocations (sh_config host)"
    and "0 < max_concurrent_invocations (sh_config host)"
    and "sh_accepting host \<longleftrightarrow> app_state_scope env (sh_app host) = Open"
    and "sh_accepting host \<longleftrightarrow> st_terminal (sh_app host) = None"
    and "\<not> sh_accepting host \<Longrightarrow> ivs = []" and "distinct (map iv_scope ivs)"
    and "iv \<in> set ivs \<Longrightarrow> outstanding env (st_scopes (sh_app host)) iv"
  using assms unfolding serverless_inv_def by blast+

text \<open>An outstanding invocation is dropped: its scope goes, the others stay.\<close>

lemma app_okD:
  assumes "app_ok env app"
  shows "wf_scopes (st_scopes app)" and "wf_tree (st_scopes app)" and "wf_ids (st_scopes app)"
    and "live (st_scopes app) (env_scope env)"
  using assms by (simp_all add: app_ok_def wf_scopes_def wf_tree_def)

lemma outstandingD:
  assumes "outstanding env st iv"
  shows "live st (iv_scope iv)" and "state_of st (iv_scope iv) = Open"
    and "view_kind st (iv_scope iv) = Invocation" and "si_parent (inner st (iv_scope iv)) = Some (env_scope env)"
    and "live st b \<Longrightarrow> si_parent (inner st b) \<noteq> Some (iv_scope iv)"
  using assms unfolding outstanding_def by blast+

lemma outstanding_above: "wf_tree st \<Longrightarrow> outstanding env st iv \<Longrightarrow> env_scope env < iv_scope iv"
  using wf_treeD(2) outstandingD(1,4) by blast

lemma drop_outstanding:
  assumes ok: "app_ok env app" and out: "outstanding env (st_scopes app) iv"
  obtains s where "drop_invocation_scope (iv_scope iv) app =
      (Inr () :: 'e fault + _, app\<lparr>st_scopes := drop_inner (iv_scope iv) s\<rparr>)"
    and "same_scopes (st_scopes app) s" and "wf_scopes s"
    and "\<forall>b. live (st_scopes app) b \<longrightarrow> b \<noteq> iv_scope iv \<longrightarrow> state_of s b = state_of (st_scopes app) b"
proof -
  note o' = outstandingD [OF out]
  have leaf: "si_parent (inner (st_scopes app) b) \<noteq> Some (iv_scope iv)" if "live (st_scopes app) b" for b
    using that by (rule o'(5))
  show thesis
  proof (rule close_leaf [OF app_okD(1) [OF ok] o'(1) leaf o'(4) app_okD(4) [OF ok]])
    fix s1 s2 assume "begin_close (length (scope_inners (st_scopes app))) (iv_scope iv) (st_scopes app) = Some s1"
      "finish_close (length (scope_inners s1)) (iv_scope iv) s1 = Some s2" "same_scopes (st_scopes app) s2"
      "wf_scopes s2" "\<And>b. live (st_scopes app) b \<Longrightarrow> b \<noteq> iv_scope iv \<Longrightarrow> state_of s2 b = state_of (st_scopes app) b"
    then show thesis using that [of s2] by (simp add: drop_invocation_scope_def)
  qed
qed

lemma outstanding_after_drop:
  assumes "outstanding env st iv'" and "iv_scope iv' \<noteq> c" and "same_scopes st s"
    and "\<forall>b. live st b \<longrightarrow> b \<noteq> c \<longrightarrow> state_of s b = state_of st b"
  shows "outstanding env (drop_inner c s) iv'"
proof -
  note o' = outstandingD [OF assms(1)] and same = same_scopesD [OF assms(3)]
  have "si_kind (inner s (iv_scope iv')) = si_kind (inner st (iv_scope iv'))"
    using assms(3) o'(1) unfolding same_scopes_def by blast
  moreover have "state_of (drop_inner c s) (iv_scope iv') = state_of s (iv_scope iv')"
    using assms(2) o'(1) same(1) by (simp add: state_of_def drop_inner_facts)
  ultimately show ?thesis
    using o' assms(2,4) same(1,4) by (auto simp: outstanding_def drop_inner_facts view_kind_def)
qed

lemma drop_invocation_inv:
  assumes inv: "serverless_inv env host ivs" and iv: "iv \<in> set ivs"
  obtains host' where "drop_invocation iv host = (Inr () :: 'e fault + _, host')"
    and "serverless_inv env host' (remove1 iv ivs)" and "sh_accepting host' = sh_accepting host"
    and "sh_config host' = sh_config host"
proof -
  note i = serverless_invD [OF inv]
  let ?st = "st_scopes (sh_app host)" and ?c = "iv_scope iv"
  obtain s where s: "drop_invocation_scope ?c (sh_app host) =
      (Inr () :: 'e fault + _, (sh_app host)\<lparr>st_scopes := drop_inner ?c s\<rparr>)"
    "same_scopes ?st s" "wf_scopes s"
    "\<forall>b. live ?st b \<longrightarrow> b \<noteq> ?c \<longrightarrow> state_of s b = state_of ?st b"
    by (rule drop_outstanding [OF i(1) i(9) [OF iv]])
  let ?app = "(sh_app host)\<lparr>st_scopes := drop_inner ?c s\<rparr>"
  let ?host = "host\<lparr>sh_app := ?app, sh_active := fetch_sub (sh_active host)\<rparr>"
  have ne: "ivs \<noteq> []" using iv by auto
  have above: "env_scope env \<noteq> ?c" using outstanding_above [OF app_okD(2) [OF i(1)] i(9) [OF iv]] by simp
  have "live (drop_inner ?c s) (env_scope env)"
    using above app_okD(4) [OF i(1)] same_scopesD(1) [OF s(2)] by (simp add: drop_inner_facts)
  then have "app_ok env ?app" using i(1) drop_inner_wf [OF s(3)] by (simp add: app_ok_def)
  moreover have "app_state_scope env ?app = app_state_scope env (sh_app host)"
    using above app_okD(4) [OF i(1)] same_scopesD(1) [OF s(2)] s(4)
    by (simp add: app_state_scope_def state_of_def drop_inner_facts)
  moreover have "outstanding env (drop_inner ?c s) iv'" if "iv' \<in> set (remove1 iv ivs)" for iv'
  proof -
    have "iv' \<in> set ivs" "iv_scope iv' \<noteq> ?c" using that i(8) iv by (auto simp: distinct_map inj_on_def)
    then show ?thesis using outstanding_after_drop [OF i(9) _ s(2,4)] by simp
  qed
  moreover have "distinct (map iv_scope (remove1 iv ivs))"
    using i(8) by (simp add: distinct_map inj_on_def)
  moreover have "sh_active ?host = length (remove1 iv ivs)"
    using i(2) iv ne by (simp add: fetch_sub_def length_remove1)
  moreover have "length (remove1 iv ivs) \<le> max_concurrent_invocations (sh_config ?host)"
    using i(3) by (auto simp: length_remove1)
  moreover have "\<not> sh_accepting ?host \<longrightarrow> remove1 iv ivs = []" using i(7) ne by auto
  ultimately have "serverless_inv env ?host (remove1 iv ivs)"
    using i(4-6) unfolding serverless_inv_def by simp
  moreover have "drop_invocation iv host = (Inr () :: 'e fault + _, ?host)" by (simp add: drop_invocation_def s(1))
  ultimately show thesis using that by simp
qed

text \<open>What \<open>begin_invocation\<close> decides.\<close>

lemma begin_invocation_cases:
  assumes inv: "serverless_inv env host ivs"
  shows "\<not> sh_accepting host \<and> begin_invocation env deadline host = (Inl InvocationClosed, host) \<or>
    sh_accepting host \<and> elapsed env deadline host \<and>
      begin_invocation env deadline host = (Inl DeadlineExceeded, host) \<or>
    sh_accepting host \<and> \<not> elapsed env deadline host \<and>
      length ivs = max_concurrent_invocations (sh_config host) \<and>
      begin_invocation env deadline host = (Inl InvocationCapacity, host) \<or>
    sh_accepting host \<and> \<not> elapsed env deadline host \<and>
      length ivs < max_concurrent_invocations (sh_config host) \<and>
      (\<exists>c s. child (env_scope env) Invocation (st_scopes (sh_app host)) = (Inr c, s) \<and>
        admitted (st_scopes (sh_app host)) (env_scope env) Invocation c s \<and>
        begin_invocation env deadline host = (Inr \<lparr>iv_scope = c, iv_deadline = deadline\<rparr>,
          host\<lparr>sh_active := Suc (sh_active host), sh_app := (sh_app host)\<lparr>st_scopes := s\<rparr>\<rparr>))"
proof (cases "sh_accepting host \<and> \<not> elapsed env deadline host \<and>
    length ivs < max_concurrent_invocations (sh_config host)")
  case True
  note i = serverless_invD [OF inv]
  have "state_of (st_scopes (sh_app host)) (env_scope env) = Open"
    using True i(5) by (simp add: app_state_scope_def)
  then obtain c s where "child (env_scope env) Invocation (st_scopes (sh_app host)) = (Inr c, s)"
    "admitted (st_scopes (sh_app host)) (env_scope env) Invocation c s"
    using child_open [OF app_okD(4) [OF i(1)]] by blast
  with True i(2) show ?thesis by (simp add: begin_invocation_def invocation_scope_def)
next
  case False
  with serverless_invD(2,3) [OF inv] show ?thesis by (auto simp: begin_invocation_def)
qed

lemma outstanding_after_admit:
  assumes tree: "wf_tree st" and out: "outstanding env st iv" and ad: "admitted st (env_scope env) kind c s"
  shows "outstanding env s iv"
proof -
  note o' = outstandingD [OF out] and new = admittedD [OF ad]
  have "inner s b = (if b = env_scope env then (inner st b)\<lparr>si_children := si_children (inner st b) @ [c]\<rparr>
      else inner st b)" if "live st b" for b
    using ad that unfolding admitted_def by simp
  then have "view_kind s (iv_scope iv) = Invocation" using o'(1,3) by (auto simp: view_kind_def)
  moreover have "si_parent (inner s c) \<noteq> Some (iv_scope iv)"
    using outstanding_above [OF tree out] by (simp add: new(6) child_inner_def)
  ultimately show ?thesis
    using o' new(5,9,11) unfolding outstanding_def by metis
qed

lemma begin_invocation_inv:
  assumes inv: "serverless_inv env host ivs" and run: "begin_invocation env deadline host = (Inr iv, host')"
    and r: "room (scope_counters (st_scopes (sh_app host)) ! si_next_id (inner (st_scopes (sh_app host)) (env_scope env)))"
  shows "serverless_inv env host' (iv # ivs)"
proof -
  note i = serverless_invD [OF inv]
  let ?st = "st_scopes (sh_app host)" and ?a = "env_scope env"
  obtain c s where c: "child ?a Invocation ?st = (Inr c, s)" "admitted ?st ?a Invocation c s"
    "iv = \<lparr>iv_scope = c, iv_deadline = deadline\<rparr>"
    "host' = host\<lparr>sh_active := Suc (sh_active host), sh_app := (sh_app host)\<lparr>st_scopes := s\<rparr>\<rparr>"
    and acc: "sh_accepting host" "length ivs < max_concurrent_invocations (sh_config host)"
    using begin_invocation_cases [OF inv, of deadline] run by auto
  note new = admittedD [OF c(2)] and a = app_okD [OF i(1)]
  have wf: "wf_scopes s" by (rule child_wf [OF a(1,4) r c(1)])
  have "app_ok env (sh_app host')" using i(1) wf a(4) new(5) by (simp add: app_ok_def c(4))
  moreover have "app_state_scope env (sh_app host') = app_state_scope env (sh_app host)"
    using new(11) [OF a(4)] by (simp add: app_state_scope_def c(4))
  moreover have "si_parent (inner s b) \<noteq> Some c" if b: "live s b" for b
  proof
    assume "si_parent (inner s b) = Some c"
    then have "c < b" using wf_treeD(2) [of s b c] wf b by (simp add: wf_scopes_def)
    with b new(5) new(15) [of b] show False by auto
  qed
  then have "outstanding env s iv"
    using new(5,6,13) by (simp add: outstanding_def c(3) child_inner_def view_kind_def)
  moreover have "iv_scope iv' \<noteq> c" if "iv' \<in> set ivs" for iv'
    using outstandingD(1) [OF i(9) [OF that]] new(14) by blast
  ultimately show ?thesis
    using i acc outstanding_after_admit [OF a(2) i(9) c(2)]
    unfolding serverless_inv_def by (auto simp: c(3,4))
qed

lemma serverless_reach_inv: "serverless_reach env host ivs \<Longrightarrow> serverless_inv env host ivs"
proof (induction rule: serverless_reach.induct)
  case (host_new app config host)
  then show ?case by (auto simp: serverless_new_def serverless_inv_def split: if_splits)
next
  case (host_admit host ivs deadline iv host')
  then show ?case by (blast intro: begin_invocation_inv)
next
  case (host_refuse host ivs deadline e host')
  then have "host' = host" using begin_invocation_cases [OF host_refuse.IH, of deadline] by auto
  with host_refuse.IH show ?case by simp
next
  case (host_drop host ivs iv r host')
  from drop_invocation_inv [where 'e = unit, OF host_drop.IH host_drop.hyps(2)] host_drop.hyps(3)
  show ?case by (metis prod.inject)
next
  case (host_shutdown host s host')
  note i = serverless_invD [OF host_shutdown.IH]
  show ?case
  proof (cases "st_terminal (sh_app host)")
    case None
    obtain fs app where "shutdown env (sh_app host) = (Inr \<lparr>sr_failures = fs\<rparr> :: unit fault + _, app)"
      "app_ok env app" "st_terminal app = Some \<lparr>sr_failures = fs\<rparr>" "app_state_scope env app = Closed"
      using shutdown_ok [OF i(1) None, where 'e = unit] runs_ok by metis
    with host_shutdown.hyps(2) i(2,4) show ?thesis
      by (auto simp: serverless_shutdown_def serverless_inv_def)
  next
    case (Some cached)
    with host_shutdown.hyps(2) host_shutdown.IH show ?thesis
      by (auto simp: serverless_shutdown_def serverless_inv_def shutdown_def)
  qed
next
  case (host_world host ivs w)
  then show ?case by (simp add: serverless_inv_def app_ok_def app_state_scope_def) blast
qed

end
