(* ===== verification/Serverless_Properties.thy ===== *)
theory Serverless_Properties
  imports Serverless
begin

text \<open>
  The guarantees of the serverless host (\<open>kernox-host-serverless/src/lib.rs\<close>): the admission bound,
  one fresh scope per invocation, and capacity that always comes back.
\<close>

section \<open>A sample host\<close>

definition sample_host :: "(sample_plugin, nat, nat, str) serverless_host" where
  "sample_host = projr (serverless_new (sample_state []) \<lparr>max_concurrent_invocations = 2\<rparr>)"

lemma sample_host_reach: "serverless_reach (sample_env []) sample_host []"
proof (rule host_new)
  show "app_ok (sample_env []) (sample_state [])" by (rule sample_ok) simp
  show "app_state_scope (sample_env []) (sample_state []) = Open" by code_simp
  show "st_terminal (sample_state []) = None" by (simp add: sample_state_def app_state_of_def)
  show "serverless_new (sample_state []) \<lparr>max_concurrent_invocations = 2\<rparr> = Inr sample_host"
    by (simp add: sample_host_def serverless_new_def)
qed

definition sample_admit :: "(invocation_admission_error + invocation) \<times> (sample_plugin, nat, nat, str) serverless_host" where
  "sample_admit = begin_invocation (sample_env []) (Some 5) sample_host"

lemma sample_room: "room (scope_counters (st_scopes (sh_app sample_host)) !
    si_next_id (inner (st_scopes (sh_app sample_host)) (env_scope (sample_env []))))"
  unfolding room_def by code_simp

lemma sample_admitted: "begin_invocation (sample_env []) (Some 5) sample_host =
    (Inr (projr (fst sample_admit)), snd sample_admit)"
proof -
  have "\<not> isl (fst sample_admit)" by code_simp
  then show ?thesis using isl_projr unfolding sample_admit_def by blast
qed

section \<open>Properties\<close>

text \<open>C17: whatever was admitted, refused, dropped or shut down, the counter of a serverless host is the
  number of outstanding invocations and never exceeds the configured bound; each outstanding
  invocation has a live open scope of its own directly below the application scope, with an
  identity no other invocation and not the application has; and a host that stopped accepting
  has no outstanding invocation.\<close>

theorem serverless_admission_invariant:
  assumes "serverless_reach env host ivs"
  shows "active_invocations host = length ivs \<and>
    active_invocations host \<le> max_concurrent_invocations (sh_config host) \<and>
    distinct (map (view_id (st_scopes (sh_app host)) \<circ> iv_scope) ivs) \<and>
    (\<forall>iv \<in> set ivs. state_of (st_scopes (sh_app host)) (iv_scope iv) = Open \<and>
       view_kind (st_scopes (sh_app host)) (iv_scope iv) = Invocation \<and>
       view_parent (st_scopes (sh_app host)) (iv_scope iv) = Some (app_scope_id env host) \<and>
       view_id (st_scopes (sh_app host)) (iv_scope iv) \<noteq> app_scope_id env host) \<and>
    (\<not> sh_accepting host \<longrightarrow> ivs = [])"
proof -
  let ?st = "st_scopes (sh_app host)"
  note i = serverless_invD [OF serverless_reach_inv [OF assms]]
  note app = app_okD [OF i(1)]
  have id: "view_id ?st a = view_id ?st b \<longleftrightarrow> a = b" if "live ?st a" "live ?st b" for a b
    using wf_idD [OF app(2) that] by (auto simp: view_id_def)
  have "inj_on (view_id ?st \<circ> iv_scope) (set ivs)"
  proof (rule inj_onI)
    fix iv iv' assume iv: "iv \<in> set ivs" "iv' \<in> set ivs" "(view_id ?st \<circ> iv_scope) iv = (view_id ?st \<circ> iv_scope) iv'"
    then have "iv_scope iv = iv_scope iv'" using id outstandingD(1) [OF i(9)] by simp
    with iv i(8) show "iv = iv'" by (simp add: distinct_map inj_on_def)
  qed
  moreover have "distinct ivs" using i(8) by (simp add: distinct_map)
  moreover have "view_id ?st (iv_scope iv) \<noteq> app_scope_id env host" if "iv \<in> set ivs" for iv
    using id [OF outstandingD(1) [OF i(9) [OF that]] app(4)] outstanding_above [OF app(2) i(9) [OF that]]
    by (simp add: app_scope_id_def)
  moreover have "view_parent ?st (iv_scope iv) = Some (app_scope_id env host)" if "iv \<in> set ivs" for iv
    using outstandingD(4) [OF i(9) [OF that]] app(4) by (simp add: view_parent_def app_scope_id_def view_id_def)
  ultimately show ?thesis
    using i(2,3,7) outstandingD(2,3) [OF i(9)] by (simp add: active_invocations_def distinct_map)
qed

lemma serverless_admission_invariant_witness:
  "active_invocations (snd sample_admit) = 1 \<and>
   view_id (st_scopes (sh_app (snd sample_admit))) (iv_scope (projr (fst sample_admit))) \<noteq>
     app_scope_id (sample_env []) (snd sample_admit)"
  using serverless_admission_invariant [OF host_admit [OF sample_host_reach sample_admitted sample_room]] by simp

text \<open>An invocation is admitted exactly while the host accepts, its deadline has not elapsed and
  there is capacity; the errors are tested in the order shutdown, deadline, capacity; and a refused
  invocation leaves the host unchanged.\<close>

lemma begin_invocation_decides:
  assumes "serverless_reach env host ivs"
  shows "if \<not> sh_accepting host then begin_invocation env deadline host = (Inl InvocationClosed, host)
    else if elapsed env deadline host then begin_invocation env deadline host = (Inl DeadlineExceeded, host)
    else if length ivs = max_concurrent_invocations (sh_config host) then
      begin_invocation env deadline host = (Inl InvocationCapacity, host)
    else \<exists>iv host'. begin_invocation env deadline host = (Inr iv, host') \<and> iv_deadline iv = deadline \<and>
      \<not> live (st_scopes (sh_app host)) (iv_scope iv) \<and>
      active_invocations host' = Suc (length ivs) \<and> sh_config host' = sh_config host \<and> sh_accepting host'"
proof -
  note inv = serverless_reach_inv [OF assms]
  note i = serverless_invD [OF inv]
  show ?thesis
    using begin_invocation_cases [OF inv, of deadline] i(2)
    by (auto simp: active_invocations_def dest: admittedD(14))
qed

lemma begin_invocation_decides_witness:
  "begin_invocation (sample_env []) (Some 0) sample_host = (Inl DeadlineExceeded, sample_host)"
proof -
  have "sh_accepting sample_host" "elapsed (sample_env []) (Some 0) sample_host" by code_simp+
  then show ?thesis using begin_invocation_decides [OF sample_host_reach, of "Some 0"] by simp
qed

text \<open>C18: once its invocation is admitted \<open>invoke\<close> runs the handler in its context, returns its result, and
  gives the capacity back whatever the handler does, also when it fails or unwinds: afterwards
  exactly the invocations are outstanding that were before, or that the handler itself admitted
  or released.\<close>

theorem invoke_releases_capacity:
  fixes handler :: "(('p, 'w, 'v, 'h) serverless_host, 'e, 't) handler"
  assumes "serverless_reach env host ivs"
    and "begin_invocation env deadline host = (Inr iv, host1)"
    and "handler (context_of iv) host1 = (r, host2)"
    and "serverless_reach env host2 ivs2" and "iv \<in> set ivs2"
  shows "\<exists>host3. invoke env deadline handler host =
      (case r of None \<Rightarrow> Inl Panic | Some (Inl error) \<Rightarrow> Inl (Err (HandlerError error)) | Some (Inr x) \<Rightarrow> Inr x,
       host3) \<and>
    serverless_reach env host3 (remove1 iv ivs2) \<and> Suc (active_invocations host3) = active_invocations host2"
proof -
  note inv2 = serverless_reach_inv [OF assms(4)]
  obtain host3 where drop: "drop_invocation iv host2 = (Inr () :: 'e invocation_error fault + _, host3)"
    by (rule drop_invocation_inv [OF inv2 assms(5)])
  obtain host3' where "drop_invocation iv host2 = (Inr () :: unit fault + _, host3')"
    by (rule drop_invocation_inv [OF inv2 assms(5)])
  moreover from this drop have "host3' = host3"
    by (auto simp: drop_invocation_def drop_invocation_scope_def split: option.splits)
  ultimately have reach: "serverless_reach env host3 (remove1 iv ivs2)"
    using host_drop [OF assms(4,5)] by blast
  have "Suc (length (remove1 iv ivs2)) = length ivs2"
    using assms(5) length_pos_if_in_set [OF assms(5)] by (simp add: length_remove1)
  then have "Suc (active_invocations host3) = active_invocations host2"
    using serverless_invD(2) [OF serverless_reach_inv [OF reach]] serverless_invD(2) [OF inv2]
    by (simp add: active_invocations_def)
  moreover have "invoke env deadline handler host =
      (case r of None \<Rightarrow> Inl Panic | Some (Inl error) \<Rightarrow> Inl (Err (HandlerError error)) | Some (Inr x) \<Rightarrow> Inr x, host3)"
    using assms(2,3) drop
    by (simp add: invoke_def bind_action_def action_simps split: option.split sum.split)
  ultimately show ?thesis using reach by blast
qed

lemma invoke_releases_capacity_witness:
  "\<exists>host3. invoke (sample_env []) (Some 5) (\<lambda>ic host. (None :: (nat + nat) option, host)) sample_host =
     (Inl Panic, host3) \<and> Suc (active_invocations host3) = active_invocations (snd sample_admit)"
  using invoke_releases_capacity [OF sample_host_reach sample_admitted, of "\<lambda>ic host. (None :: (nat + nat) option, host)",
      OF refl host_admit [OF sample_host_reach sample_admitted sample_room]] by auto

end
