(* ===== verification/Task_Supervisor.thy ===== *)
theory Task_Supervisor
  imports Stateful Ordered_Collections "HOL-Library.Word"
begin

text \<open>
  The task supervisor of \<open>kernox-host-tokio/src/lib.rs\<close>: bounded, named tasks on a Tokio runtime.

  Tokio is not part of the repository. Of it the model keeps what the code reads: the
  \<open>CancellationToken\<close> is a flag, the \<open>TaskTracker\<close> the closed flag and the tracked futures that were
  not dropped yet, an \<open>AbortHandle\<close> the identity of its task, and the aborts that were requested.
  What a runtime does with the tasks is the step relation \<open>task_step\<close>; waiting for the tracker is
  the parameter \<open>tokio_runtime\<close>. What an operation does under the lock of \<open>State\<close> is one step:
  \<open>spawn\<close> and \<open>quiesce\<close> hold it to their end. \<open>record_panic\<close> gives it up before it closes the tracker
  and cancels the token, so a task that panics goes through three steps, and \<open>sv_panics\<close> says how far
  it has come.
\<close>

section \<open>Names and identities\<close>

definition MAX_TASK_NAME_BYTES :: nat where "MAX_TASK_NAME_BYTES = 128"

datatype spawn_error = InvalidName | SpawnClosed | SpawnCapacity | NoRuntime

fun spawn_error_tag :: "spawn_error \<Rightarrow> str" where
  "spawn_error_tag InvalidName = ''tokio-task.invalid-name''"
| "spawn_error_tag SpawnClosed = ''tokio-task.closed''"
| "spawn_error_tag SpawnCapacity = ''tokio-task.capacity''"
| "spawn_error_tag NoRuntime = ''tokio-task.no-runtime''"

fun spawn_error_display :: "spawn_error \<Rightarrow> str" where
  "spawn_error_display InvalidName = ''task name is empty, oversized, or contains control characters''"
| "spawn_error_display SpawnClosed = ''task supervisor is quiescing''"
| "spawn_error_display SpawnCapacity = ''task supervisor capacity is exhausted''"
| "spawn_error_display NoRuntime = ''no Tokio runtime is active''"

datatype task_name = TaskName (task_name_as_str: utext)

definition is_unsafe_name_char :: "nat \<Rightarrow> bool" where
  "is_unsafe_name_char character \<longleftrightarrow> is_control character \<or>
     character = 0x061C \<or> 0x200B \<le> character \<and> character \<le> 0x200F \<or>
     0x2028 \<le> character \<and> character \<le> 0x202E \<or> 0x2060 \<le> character \<and> character \<le> 0x2064 \<or>
     0x2066 \<le> character \<and> character \<le> 0x206F \<or> character = 0xFEFF"

definition task_name_new :: "utext \<Rightarrow> spawn_error + task_name" where
  "task_name_new value =
     (if value = [] \<or> MAX_TASK_NAME_BYTES < text_len value \<or> list_ex is_unsafe_name_char value
      then Inl InvalidName else Inr (TaskName value))"

datatype task_id = TaskId (task_id_value: "64 word")

instantiation task_id :: linorder
begin

definition less_eq_task_id :: "task_id \<Rightarrow> task_id \<Rightarrow> bool" where
  "less_eq_task_id a b \<longleftrightarrow> task_id_value a \<le> task_id_value b"

definition less_task_id :: "task_id \<Rightarrow> task_id \<Rightarrow> bool" where
  "less_task_id a b \<longleftrightarrow> task_id_value a < task_id_value b"

instance
  by standard (auto simp: less_eq_task_id_def less_task_id_def task_id.expand)

end

section \<open>The supervisor\<close>

record pending_task =
  pt_id :: task_id
  pt_name :: task_name

record task_failure =
  tf_id :: task_id
  tf_name :: task_name
  tf_error_tag :: str

record tokio_task_config =
  max_tasks :: nat
  drain_timeout :: nat            \<comment> \<open>seconds\<close>

definition tokio_task_config_default :: tokio_task_config where
  "tokio_task_config_default = \<lparr>max_tasks = 16384, drain_timeout = 30\<rparr>"

record task_record =
  tr_name :: task_name
  tr_abort :: "task_id option"

record supervisor_state =
  ss_accepting :: bool
  ss_next_id :: "64 word"
  ss_tasks :: "(task_id, task_record) btree_map"
  ss_terminal_failure :: "task_failure option"
  ss_drain_reported :: bool

datatype panic_step = FailureRecorded | TrackerClosed | PanicDone
  \<comment> \<open>the last step of \<open>record_panic\<close> that a task which panicked has done\<close>

record task_supervisor =
  sv_config :: tokio_task_config
  sv_cancelled :: bool
  sv_tracker_closed :: bool
  sv_tracked :: "task_id list"
  sv_aborted :: "task_id list"
  sv_panics :: "(task_id, panic_step) btree_map"
  sv_state :: supervisor_state

definition on_state :: "(supervisor_state \<Rightarrow> supervisor_state) \<Rightarrow> task_supervisor \<Rightarrow> task_supervisor" where
  "on_state f sv = sv\<lparr>sv_state := f (sv_state sv)\<rparr>"

definition supervisor_new :: "tokio_task_config \<Rightarrow> task_supervisor" where
  "supervisor_new config =
     \<lparr>sv_config = config, sv_cancelled = False, sv_tracker_closed = False, sv_tracked = [], sv_aborted = [],
      sv_panics = [], sv_state = \<lparr>ss_accepting = True, ss_next_id = 1, ss_tasks = [], ss_terminal_failure = None,
        ss_drain_reported = False\<rparr>\<rparr>"

definition close_tracker :: "task_supervisor \<Rightarrow> task_supervisor" where
  "close_tracker sv = sv\<lparr>sv_tracker_closed := True\<rparr>"

definition cancel_token :: "task_supervisor \<Rightarrow> task_supervisor" where
  "cancel_token sv = sv\<lparr>sv_cancelled := True\<rparr>"

definition drop_registration :: "task_id \<Rightarrow> task_supervisor \<Rightarrow> task_supervisor" where
  "drop_registration task = on_state (\<lambda>s. s\<lparr>ss_tasks := bm_remove task (ss_tasks s)\<rparr>)"

definition record_failure :: "task_id \<Rightarrow> task_supervisor \<Rightarrow> task_supervisor" where
  \<comment> \<open>what \<open>record_panic\<close> does under the lock\<close>
  "record_failure task =
     on_state (\<lambda>state.
       let state = (if ss_terminal_failure state = None then
               let name = (case bm_get (ss_tasks state) task of
                     None \<Rightarrow> TaskName (text_of ''unknown-task'') | Some entry \<Rightarrow> tr_name entry)
               in state\<lparr>ss_terminal_failure :=
                    Some \<lparr>tf_id = task, tf_name = name, tf_error_tag = ''tokio-task.panicked''\<rparr>\<rparr>
             else state)
       in state\<lparr>ss_accepting := False\<rparr>)"

definition record_panic :: "task_id \<Rightarrow> task_supervisor \<Rightarrow> task_supervisor" where
  \<comment> \<open>all of it, when nothing comes in between\<close>
  "record_panic task sv = cancel_token (close_tracker (record_failure task sv))"

definition quiesce :: "task_supervisor \<Rightarrow> task_supervisor" where
  "quiesce sv = cancel_token (close_tracker (on_state (\<lambda>state. state\<lparr>ss_accepting := False\<rparr>) sv))"

definition has_tracked_tasks :: "task_supervisor \<Rightarrow> bool" where
  "has_tracked_tasks sv \<longleftrightarrow> sv_tracked sv \<noteq> []"

definition abort_all :: "task_supervisor \<Rightarrow> task_supervisor" where
  "abort_all sv = sv\<lparr>sv_aborted := sv_aborted sv @ List.map_filter tr_abort (bm_values (ss_tasks (sv_state sv)))\<rparr>"

definition claim_drain_report :: "task_supervisor \<Rightarrow> bool \<times> task_supervisor" where
  "claim_drain_report sv =
     (if ss_drain_reported (sv_state sv) then (False, sv)
      else (True, on_state (\<lambda>state. state\<lparr>ss_drain_reported := True\<rparr>) sv))"

definition spawn :: "bool \<Rightarrow> task_name \<Rightarrow> (task_supervisor, spawn_error, task_id) action" where
  \<comment> \<open>the first argument is whether \<open>Handle::try_current\<close> succeeds\<close>
  "spawn current name sv =
     (let state = sv_state sv
      in if \<not> ss_accepting state then (Inl SpawnClosed, sv)
         else if \<not> current then (Inl NoRuntime, sv)
         else if max_tasks (sv_config sv) \<le> length (ss_tasks state) then (Inl SpawnCapacity, sv)
         else if ss_next_id state = - 1 then (Inl SpawnCapacity, sv)
         else
           let task = TaskId (ss_next_id state);
               state = state\<lparr>ss_next_id := ss_next_id state + 1,
                 ss_tasks := bm_insert task \<lparr>tr_name = name, tr_abort = None\<rparr> (ss_tasks state)\<rparr>;
               sv = sv\<lparr>sv_tracked := sv_tracked sv @ [task]\<rparr>;
               state = state\<lparr>ss_tasks := bm_modify task (\<lambda>entry. entry\<lparr>tr_abort := Some task\<rparr>) (ss_tasks state)\<rparr>
           in (Inr task, sv\<lparr>sv_state := state\<rparr>))"

definition cancellation_token :: "task_supervisor \<Rightarrow> bool" where
  "cancellation_token sv = sv_cancelled sv"

definition pending_tasks :: "task_supervisor \<Rightarrow> pending_task list" where
  "pending_tasks sv = map (\<lambda>(task, entry). \<lparr>pt_id = task, pt_name = tr_name entry\<rparr>) (ss_tasks (sv_state sv))"

definition terminal_failure :: "task_supervisor \<Rightarrow> task_failure option" where
  "terminal_failure sv = ss_terminal_failure (sv_state sv)"

section \<open>What Tokio does\<close>

text \<open>A task that panics is recorded while its registration is there, once and in three steps between which
  anything may happen; the registration is dropped with the future, after \<open>record_panic\<close> has returned,
  which a completed or aborted task loses before the tracker forgets it.\<close>

definition panic_at :: "task_id \<Rightarrow> panic_step \<Rightarrow> task_supervisor \<Rightarrow> task_supervisor" where
  "panic_at task done_step sv = sv\<lparr>sv_panics := bm_insert task done_step (sv_panics sv)\<rparr>"

definition is_panicking :: "task_supervisor \<Rightarrow> task_id \<Rightarrow> bool" where
  \<comment> \<open>the task is inside \<open>record_panic\<close>\<close>
  "is_panicking sv task \<longleftrightarrow> bm_get (sv_panics sv) task \<in> {Some FailureRecorded, Some TrackerClosed}"

inductive task_step :: "task_supervisor \<Rightarrow> task_supervisor \<Rightarrow> bool" where
  task_panics: "bm_contains (ss_tasks (sv_state sv)) task \<Longrightarrow> bm_get (sv_panics sv) task = None \<Longrightarrow>
    task_step sv (panic_at task FailureRecorded (record_failure task sv))"
| panic_closes: "bm_get (sv_panics sv) task = Some FailureRecorded \<Longrightarrow>
    task_step sv (panic_at task TrackerClosed (close_tracker sv))"
| panic_cancels: "bm_get (sv_panics sv) task = Some TrackerClosed \<Longrightarrow>
    task_step sv (panic_at task PanicDone (cancel_token sv))"
| task_dropped: "bm_contains (ss_tasks (sv_state sv)) task \<Longrightarrow> \<not> is_panicking sv task \<Longrightarrow>
    task_step sv (drop_registration task sv)"
| task_untracked: "task \<in> set (sv_tracked sv) \<Longrightarrow> \<not> bm_contains (ss_tasks (sv_state sv)) task \<Longrightarrow>
    task_step sv (sv\<lparr>sv_tracked := remove1 task (sv_tracked sv)\<rparr>)"

text \<open>Waiting: \<open>rt_timeout\<close> is \<open>timeout(limit, tracker.wait())\<close>, with whether the wait ended in time;
  \<open>rt_wait\<close> is \<open>tracker.wait()\<close>, or \<open>None\<close> when it never ends; and \<open>rt_meanwhile\<close> is what the tasks do
  between \<open>pending_tasks\<close> and \<open>abort_all\<close>, which take the lock one after the other.\<close>

record tokio_runtime =
  rt_timeout :: "nat \<Rightarrow> task_supervisor \<Rightarrow> bool \<times> task_supervisor"
  rt_meanwhile :: "task_supervisor \<Rightarrow> task_supervisor"
  rt_wait :: "task_supervisor \<Rightarrow> task_supervisor option"

definition drain :: "tokio_runtime \<Rightarrow> task_supervisor \<Rightarrow> (pending_task list \<times> task_supervisor) option" where
  \<comment> \<open>\<open>None\<close> when it never returns\<close>
  "drain rt sv =
     (if sv_tracked sv = [] then Some ([], sv)
      else case rt_timeout rt (drain_timeout (sv_config sv)) sv of
          (True, sv) \<Rightarrow> Some ([], sv)
        | (False, sv) \<Rightarrow>
            let pending = pending_tasks sv
            in map_option (Pair pending) (rt_wait rt (abort_all (rt_meanwhile rt sv))))"

section \<open>The invariant\<close>

definition registry_inv :: "task_supervisor \<Rightarrow> bool" where
  \<comment> \<open>what is registered is tracked, within the bound, under identities handed out before\<close>
  "registry_inv sv \<longleftrightarrow>
     (let state = sv_state sv in
      bm_wf (ss_tasks state) \<and> set (bm_keys (ss_tasks state)) \<subseteq> set (sv_tracked sv) \<and>
      distinct (sv_tracked sv) \<and> (\<forall>task \<in> set (sv_tracked sv). task_id_value task < ss_next_id state) \<and>
      length (ss_tasks state) \<le> max_tasks (sv_config sv) \<and>
      (\<forall>(task, entry) \<in> set (ss_tasks state). tr_abort entry = Some task))"

definition admission_inv :: "task_supervisor \<Rightarrow> bool" where
  \<comment> \<open>who closed admission closes the tracker and cancels the token\<close>
  "admission_inv sv \<longleftrightarrow>
     (ss_accepting (sv_state sv) \<longrightarrow> \<not> sv_tracker_closed sv \<and> terminal_failure sv = None) \<and>
     (sv_cancelled sv \<longrightarrow> sv_tracker_closed sv) \<and>
     (ss_accepting (sv_state sv) \<or> sv_tracker_closed sv \<or> (\<exists>task. bm_get (sv_panics sv) task = Some FailureRecorded)) \<and>
     (ss_accepting (sv_state sv) \<or> sv_cancelled sv \<or> (\<exists>task. is_panicking sv task))"

definition panics_inv :: "task_supervisor \<Rightarrow> bool" where
  "panics_inv sv \<longleftrightarrow> bm_wf (sv_panics sv) \<and>
     (\<forall>task s. bm_get (sv_panics sv) task = Some s \<longrightarrow>
        task_id_value task < ss_next_id (sv_state sv) \<and> terminal_failure sv \<noteq> None \<and>
        (s \<noteq> FailureRecorded \<longrightarrow> sv_tracker_closed sv) \<and> (s = PanicDone \<longrightarrow> sv_cancelled sv) \<and>
        (s \<noteq> PanicDone \<longrightarrow> bm_contains (ss_tasks (sv_state sv)) task)) \<and>
     (\<forall>f. terminal_failure sv = Some f \<longrightarrow> bm_get (sv_panics sv) (tf_id f) \<noteq> None \<and>
        tf_error_tag f = ''tokio-task.panicked'')"

definition supervisor_inv :: "task_supervisor \<Rightarrow> bool" where
  "supervisor_inv sv \<longleftrightarrow> registry_inv sv \<and> admission_inv sv \<and> panics_inv sv"

lemma registry_invD:
  assumes "registry_inv sv"
  shows "bm_wf (ss_tasks (sv_state sv))" and "set (bm_keys (ss_tasks (sv_state sv))) \<subseteq> set (sv_tracked sv)"
    and "distinct (sv_tracked sv)"
    and "task \<in> set (sv_tracked sv) \<Longrightarrow> task_id_value task < ss_next_id (sv_state sv)"
    and "length (ss_tasks (sv_state sv)) \<le> max_tasks (sv_config sv)"
    and "(task, entry) \<in> set (ss_tasks (sv_state sv)) \<Longrightarrow> tr_abort entry = Some task"
  using assms unfolding registry_inv_def Let_def by blast+

lemma supervisor_invD:
  assumes "supervisor_inv sv"
  shows "registry_inv sv" and "admission_inv sv" and "panics_inv sv"
    and "sv_cancelled sv \<Longrightarrow> sv_tracker_closed sv" and "sv_cancelled sv \<Longrightarrow> \<not> ss_accepting (sv_state sv)"
    and "bm_get (sv_panics sv) task = Some s \<Longrightarrow> task_id_value task < ss_next_id (sv_state sv)"
    and "bm_get (sv_panics sv) task = Some s \<Longrightarrow> s \<noteq> PanicDone \<Longrightarrow> bm_contains (ss_tasks (sv_state sv)) task"
    and "bm_get (sv_panics sv) task = Some s \<Longrightarrow> s = PanicDone \<Longrightarrow> sv_cancelled sv"
    and "terminal_failure sv = Some f \<Longrightarrow> tf_error_tag f = ''tokio-task.panicked''"
    and "terminal_failure sv = Some f \<Longrightarrow> \<not> ss_accepting (sv_state sv)"
    and "terminal_failure sv = Some f \<Longrightarrow> task_id_value (tf_id f) < ss_next_id (sv_state sv)"
proof -
  show "registry_inv sv" "admission_inv sv" "panics_inv sv" using assms by (simp_all add: supervisor_inv_def)
  then show "sv_cancelled sv \<Longrightarrow> sv_tracker_closed sv" "sv_cancelled sv \<Longrightarrow> \<not> ss_accepting (sv_state sv)"
    "terminal_failure sv = Some f \<Longrightarrow> \<not> ss_accepting (sv_state sv)"
    "bm_get (sv_panics sv) task = Some s \<Longrightarrow> task_id_value task < ss_next_id (sv_state sv)"
    "bm_get (sv_panics sv) task = Some s \<Longrightarrow> s \<noteq> PanicDone \<Longrightarrow> bm_contains (ss_tasks (sv_state sv)) task"
    "bm_get (sv_panics sv) task = Some s \<Longrightarrow> s = PanicDone \<Longrightarrow> sv_cancelled sv"
    "terminal_failure sv = Some f \<Longrightarrow> tf_error_tag f = ''tokio-task.panicked''"
    unfolding admission_inv_def panics_inv_def by auto
  show "task_id_value (tf_id f) < ss_next_id (sv_state sv)" if "terminal_failure sv = Some f"
    using \<open>panics_inv sv\<close> that unfolding panics_inv_def by (metis not_None_eq)
qed

lemma supervisor_new_inv: "supervisor_inv (supervisor_new config)"
  by (simp add: supervisor_inv_def registry_inv_def admission_inv_def panics_inv_def terminal_failure_def supervisor_new_def)

lemma bm_contains_key: "bm_contains m k \<Longrightarrow> k \<in> set (bm_keys m)"
  by (simp add: bm_contains_iff)

lemma set_bm_keys_remove: "set (bm_keys (bm_remove k m)) = set (bm_keys m) - {k}"
  by (auto simp: bm_keys_def bm_remove_def)

lemmas supervisor_ops = drop_registration_def record_failure_def quiesce_def abort_all_def claim_drain_report_def
  close_tracker_def cancel_token_def panic_at_def on_state_def terminal_failure_def

text \<open>The registry depends on few of the fields.\<close>

lemma registry_inv_cong:
  assumes "registry_inv sv" and "sv_config sv' = sv_config sv" and "sv_tracked sv' = sv_tracked sv"
    and "ss_tasks (sv_state sv') = ss_tasks (sv_state sv)" and "ss_next_id (sv_state sv') = ss_next_id (sv_state sv)"
  shows "registry_inv sv'"
  using assms(1) unfolding registry_inv_def Let_def assms(2-5) .

lemma drop_registration_inv:
  assumes inv: "supervisor_inv sv" and out: "\<not> is_panicking sv task"
  shows "supervisor_inv (drop_registration task sv)"
proof -
  note i = registry_invD [OF supervisor_invD(1) [OF inv]]
  let ?m = "bm_remove task (ss_tasks (sv_state sv))"
  have "bm_wf ?m" using i(1) by (rule bm_wf_remove)
  moreover have "set (bm_keys ?m) \<subseteq> set (sv_tracked sv)" using i(2) by (auto simp: set_bm_keys_remove)
  moreover have "length ?m \<le> max_tasks (sv_config sv)"
    using i(5) length_filter_le le_trans unfolding bm_remove_def by blast
  moreover have "set ?m \<subseteq> set (ss_tasks (sv_state sv))" by (auto simp: bm_remove_def)
  ultimately have "registry_inv (drop_registration task sv)"
    using supervisor_invD(1) [OF inv] unfolding registry_inv_def Let_def drop_registration_def on_state_def by auto
  moreover have "admission_inv (drop_registration task sv)"
    using supervisor_invD(2) [OF inv] by (simp add: admission_inv_def is_panicking_def supervisor_ops)
  moreover have "bm_contains ?m t" if "bm_get (sv_panics sv) t = Some s" "s \<noteq> PanicDone" for t s
  proof -
    have "t \<noteq> task" using that out by (cases s) (auto simp: is_panicking_def)
    with supervisor_invD(7) [OF inv that] show ?thesis by (auto simp: bm_contains_iff set_bm_keys_remove)
  qed
  then have "panics_inv (drop_registration task sv)"
    using supervisor_invD(3) [OF inv] by (auto simp: panics_inv_def supervisor_ops)
  ultimately show ?thesis by (simp add: supervisor_inv_def)
qed

text \<open>The steps of a panic move one task on and leave the others where they were.\<close>

lemma panics_wf: "supervisor_inv sv \<Longrightarrow> bm_wf (sv_panics sv)"
  using supervisor_invD(3) by (simp add: panics_inv_def)

lemma panic_at_get:
  "supervisor_inv sv \<Longrightarrow> sv_panics sv' = sv_panics sv \<Longrightarrow>
     bm_get (sv_panics (panic_at task s sv')) t = (if t = task then Some s else bm_get (sv_panics sv) t)"
  using panics_wf by (simp add: panic_at_def bm_get_insert)

lemma task_panics_inv:
  assumes inv: "supervisor_inv sv" and reg: "bm_contains (ss_tasks (sv_state sv)) task"
  shows "supervisor_inv (panic_at task FailureRecorded (record_failure task sv))"
proof -
  note i = registry_invD [OF supervisor_invD(1) [OF inv]]
  let ?sv = "panic_at task FailureRecorded (record_failure task sv)"
  have same: "sv_panics (record_failure task sv) = sv_panics sv" by (simp add: record_failure_def on_state_def)
  note get = panic_at_get [OF inv same]
  have "registry_inv ?sv"
    using supervisor_invD(1) [OF inv] by (rule registry_inv_cong) (simp_all add: supervisor_ops Let_def)
  moreover have "sv_cancelled sv \<Longrightarrow> sv_tracker_closed sv" by (rule supervisor_invD(4) [OF inv])
  then have "admission_inv ?sv"
    unfolding admission_inv_def is_panicking_def get by (auto simp: supervisor_ops Let_def)
  moreover have "task_id_value task < ss_next_id (sv_state sv)"
    using i(2,4) reg by (auto simp: bm_contains_iff)
  then have "panics_inv ?sv"
    using supervisor_invD(3) [OF inv] reg
    unfolding panics_inv_def get by (auto simp: supervisor_ops Let_def bm_wf_insert)
  ultimately show ?thesis by (simp add: supervisor_inv_def)
qed

lemma panic_closes_inv:
  assumes inv: "supervisor_inv sv" and at: "bm_get (sv_panics sv) task = Some FailureRecorded"
  shows "supervisor_inv (panic_at task TrackerClosed (close_tracker sv))"
proof -
  let ?sv = "panic_at task TrackerClosed (close_tracker sv)"
  have same: "sv_panics (close_tracker sv) = sv_panics sv" by (simp add: close_tracker_def)
  note get = panic_at_get [OF inv same]
  have "terminal_failure sv \<noteq> None" and reg: "bm_contains (ss_tasks (sv_state sv)) task"
    using supervisor_invD(3) [OF inv] at unfolding panics_inv_def by blast+
  then have "\<not> ss_accepting (sv_state sv)" using supervisor_invD(10) [OF inv] by blast
  then have "admission_inv ?sv" unfolding admission_inv_def is_panicking_def get by (auto simp: supervisor_ops)
  moreover have "registry_inv ?sv"
    using supervisor_invD(1) [OF inv] by (rule registry_inv_cong) (simp_all add: supervisor_ops)
  moreover have "panics_inv ?sv"
    using supervisor_invD(3) [OF inv] at reg
    unfolding panics_inv_def get by (auto simp: supervisor_ops bm_wf_insert)
  ultimately show ?thesis by (simp add: supervisor_inv_def)
qed

lemma panic_cancels_inv:
  assumes inv: "supervisor_inv sv" and at: "bm_get (sv_panics sv) task = Some TrackerClosed"
  shows "supervisor_inv (panic_at task PanicDone (cancel_token sv))"
proof -
  let ?sv = "panic_at task PanicDone (cancel_token sv)"
  have same: "sv_panics (cancel_token sv) = sv_panics sv" by (simp add: cancel_token_def)
  note get = panic_at_get [OF inv same]
  have "terminal_failure sv \<noteq> None" and closed: "sv_tracker_closed sv"
    using supervisor_invD(3) [OF inv] at unfolding panics_inv_def by blast+
  then have "\<not> ss_accepting (sv_state sv)" using supervisor_invD(10) [OF inv] by blast
  with closed have "admission_inv ?sv" by (simp add: admission_inv_def supervisor_ops)
  moreover have "registry_inv ?sv"
    using supervisor_invD(1) [OF inv] by (rule registry_inv_cong) (simp_all add: supervisor_ops)
  moreover have "panics_inv ?sv"
    using supervisor_invD(3) [OF inv] at closed
    unfolding panics_inv_def get by (auto simp: supervisor_ops bm_wf_insert)
  ultimately show ?thesis by (simp add: supervisor_inv_def)
qed

lemma untrack_inv:
  assumes inv: "supervisor_inv sv" and gone: "\<not> bm_contains (ss_tasks (sv_state sv)) task"
  shows "supervisor_inv (sv\<lparr>sv_tracked := remove1 task (sv_tracked sv)\<rparr>)"
proof -
  let ?sv = "sv\<lparr>sv_tracked := remove1 task (sv_tracked sv)\<rparr>"
  note i = registry_invD [OF supervisor_invD(1) [OF inv]]
  have tr: "set (remove1 task (sv_tracked sv)) = set (sv_tracked sv) - {task}" using i(3) by simp
  have "set (bm_keys (ss_tasks (sv_state sv))) \<subseteq> set (remove1 task (sv_tracked sv))"
    using i(2) gone unfolding tr bm_contains_iff by blast
  then have "registry_inv ?sv"
    using supervisor_invD(1) [OF inv] tr unfolding registry_inv_def Let_def by simp
  moreover have "admission_inv ?sv" "panics_inv ?sv"
    using supervisor_invD(2,3) [OF inv] by (simp_all add: admission_inv_def panics_inv_def is_panicking_def terminal_failure_def)
  ultimately show ?thesis by (simp add: supervisor_inv_def)
qed

lemma task_step_inv: "task_step sv sv' \<Longrightarrow> supervisor_inv sv \<Longrightarrow> supervisor_inv sv'"
  by (induction rule: task_step.induct)
    (simp_all add: task_panics_inv panic_closes_inv panic_cancels_inv drop_registration_inv untrack_inv)

lemma quiesce_inv:
  assumes inv: "supervisor_inv sv"
  shows "supervisor_inv (quiesce sv)"
proof -
  have "registry_inv (quiesce sv)"
    using supervisor_invD(1) [OF inv] by (rule registry_inv_cong) (simp_all add: supervisor_ops)
  moreover have "admission_inv (quiesce sv)" by (simp add: admission_inv_def supervisor_ops)
  moreover have "panics_inv (quiesce sv)"
    using supervisor_invD(3) [OF inv] by (auto simp: panics_inv_def supervisor_ops)
  ultimately show ?thesis by (simp add: supervisor_inv_def)
qed

lemma abort_all_inv: "supervisor_inv (abort_all sv) = supervisor_inv sv"
  by (simp add: supervisor_inv_def registry_inv_def admission_inv_def panics_inv_def is_panicking_def supervisor_ops)

lemma claim_inv: "claim_drain_report sv = (b, sv') \<Longrightarrow> supervisor_inv sv \<Longrightarrow> supervisor_inv sv'"
proof (cases "ss_drain_reported (sv_state sv)")
  case False
  assume "claim_drain_report sv = (b, sv')" and inv: "supervisor_inv sv"
  with False have sv': "sv' = on_state (\<lambda>state. state\<lparr>ss_drain_reported := True\<rparr>) sv"
    by (simp add: claim_drain_report_def)
  show ?thesis
    using inv unfolding sv' on_state_def supervisor_inv_def registry_inv_def admission_inv_def panics_inv_def
      is_panicking_def terminal_failure_def Let_def by simp
qed (simp add: claim_drain_report_def)

text \<open>When no task is inside \<open>record_panic\<close>, the three ways to see that admission is closed agree.\<close>

lemma settled:
  assumes "supervisor_inv sv" and "\<forall>task. \<not> is_panicking sv task"
  shows "ss_accepting (sv_state sv) \<longleftrightarrow> \<not> sv_cancelled sv" and "sv_tracker_closed sv \<longleftrightarrow> sv_cancelled sv"
  using supervisor_invD(2) [OF assms(1)] assms(2) unfolding admission_inv_def by auto

lemma bm_insert_again: "bm_wf m \<Longrightarrow> bm_insert k v (bm_insert k w m) = bm_insert k v m"
  by (induction m) (auto simp: bm_wf_Cons)

lemma record_panic_steps:
  assumes inv: "supervisor_inv sv" and task: "bm_contains (ss_tasks (sv_state sv)) task"
    and new: "bm_get (sv_panics sv) task = None"
  shows "task_step\<^sup>*\<^sup>* sv (panic_at task PanicDone (record_panic task sv))"
proof -
  let ?one = "panic_at task FailureRecorded (record_failure task sv)"
  let ?two = "panic_at task TrackerClosed (close_tracker ?one)"
  note wf = panics_wf [OF inv]
  have "task_step sv ?one" using task new by (rule task_panics)
  moreover have "task_step ?one ?two"
    by (rule panic_closes) (simp add: supervisor_ops bm_get_insert wf)
  moreover have "task_step ?two (panic_at task PanicDone (cancel_token ?two))"
    by (rule panic_cancels) (simp add: supervisor_ops bm_get_insert bm_insert_again wf)
  moreover have "panic_at task PanicDone (cancel_token ?two) = panic_at task PanicDone (record_panic task sv)"
    by (simp add: record_panic_def supervisor_ops bm_insert_again wf)
  ultimately show ?thesis by (metis converse_rtranclp_into_rtranclp rtranclp.rtrancl_refl)
qed

end
