(* ===== verification/Task_Properties.thy ===== *)
theory Task_Properties
  imports Task_Supervisor Scope
begin

text \<open>
  The guarantees of the task supervisor of \<open>kernox-host-tokio/src/lib.rs\<close> over every sequence of its
  operations and of what the runtime does with the tasks.
\<close>

section \<open>Spawning\<close>

lemma bm_insert_length: "bm_get m k = None \<Longrightarrow> length (bm_insert k v m) = Suc (length m)"
  by (induction m) (auto split: if_splits)

lemma set_bm_modify_insert:
  assumes "bm_get m k = None"
  shows "set (bm_modify k f (bm_insert k v m)) = insert (k, f v) (set m)"
proof -
  have "fst p \<noteq> k" if "p \<in> set m" for p
    using assms that by (auto simp: bm_get_None_iff bm_keys_def)
  then have "(\<lambda>p. if fst p = k then (fst p, f (snd p)) else p) ` set m = set m" by force
  then show ?thesis by (simp add: bm_modify_def set_bm_insert_fresh [OF assms])
qed

definition spawned :: "task_id \<Rightarrow> task_name \<Rightarrow> task_supervisor \<Rightarrow> task_supervisor" where
  "spawned task name sv = sv\<lparr>sv_tracked := sv_tracked sv @ [task],
     sv_state := (sv_state sv)\<lparr>ss_next_id := ss_next_id (sv_state sv) + 1,
       ss_tasks := bm_modify task (\<lambda>entry. entry\<lparr>tr_abort := Some task\<rparr>)
         (bm_insert task \<lparr>tr_name = name, tr_abort = None\<rparr> (ss_tasks (sv_state sv)))\<rparr>\<rparr>"

lemma spawn_spawned:
  "spawn current name sv =
     (if \<not> ss_accepting (sv_state sv) then (Inl SpawnClosed, sv)
      else if \<not> current then (Inl NoRuntime, sv)
      else if max_tasks (sv_config sv) \<le> length (ss_tasks (sv_state sv)) \<or> ss_next_id (sv_state sv) = - 1 then
        (Inl SpawnCapacity, sv)
      else (Inr (TaskId (ss_next_id (sv_state sv))), spawned (TaskId (ss_next_id (sv_state sv))) name sv))"
  by (simp add: spawn_def spawned_def Let_def)

lemma spawned_inv:
  assumes inv: "supervisor_inv sv" and acc: "ss_accepting (sv_state sv)"
    and free: "length (ss_tasks (sv_state sv)) < max_tasks (sv_config sv)" and n: "ss_next_id (sv_state sv) \<noteq> - 1"
  defines "task \<equiv> TaskId (ss_next_id (sv_state sv))"
  shows "supervisor_inv (spawned task name sv)"
proof -
  note i = registry_invD [OF supervisor_invD(1) [OF inv]]
  let ?m = "ss_tasks (sv_state sv)" and ?n = "ss_next_id (sv_state sv)"
  let ?m' = "bm_modify task (\<lambda>entry. entry\<lparr>tr_abort := Some task\<rparr>) (bm_insert task \<lparr>tr_name = name, tr_abort = None\<rparr> ?m)"
  have new: "task \<notin> set (sv_tracked sv)" using i(4) by (force simp: task_def)
  then have fresh: "bm_get ?m task = None" using i(2) by (auto simp: bm_get_None_iff)
  have below: "m \<le> ?n \<Longrightarrow> m < ?n + 1" for m using room_less [of ?n] n by (simp add: room_def)
  have keys: "set (bm_keys ?m') = insert task (set (bm_keys ?m))"
    by (simp add: bm_keys_modify set_bm_keys_insert)
  have "bm_wf ?m'" using i(1) by (simp add: bm_wf_modify bm_wf_insert)
  moreover have "length ?m' \<le> max_tasks (sv_config sv)"
    using free bm_insert_length [OF fresh] by (simp add: bm_modify_def)
  moreover have "\<forall>(t, entry) \<in> set ?m'. tr_abort entry = Some t"
    using i(6) by (auto simp: set_bm_modify_insert [OF fresh])
  moreover have "\<forall>t \<in> set (sv_tracked sv @ [task]). task_id_value t < ?n + 1"
    using i(4) below by (auto simp: task_def less_imp_le)
  ultimately have "registry_inv (spawned task name sv)"
    using i(2,3) new keys by (auto simp: registry_inv_def Let_def spawned_def)
  moreover have "admission_inv (spawned task name sv)"
    using supervisor_invD(2) [OF inv] by (simp add: admission_inv_def is_panicking_def terminal_failure_def spawned_def)
  moreover have "panics_inv (spawned task name sv)"
    using supervisor_invD(3) [OF inv] below
    by (auto simp: panics_inv_def terminal_failure_def spawned_def bm_contains_iff bm_keys_modify set_bm_keys_insert less_imp_le)
  ultimately show ?thesis by (simp add: supervisor_inv_def)
qed

section \<open>Histories\<close>

inductive supervisor_step :: "task_supervisor \<Rightarrow> task_supervisor \<Rightarrow> bool" where
  step_spawn: "spawn current name sv = (r, sv') \<Longrightarrow> supervisor_step sv sv'"
| step_task: "task_step sv sv' \<Longrightarrow> supervisor_step sv sv'"
| step_quiesce: "supervisor_step sv (quiesce sv)"
| step_abort: "supervisor_step sv (abort_all sv)"
| step_claim: "claim_drain_report sv = (claimed, sv') \<Longrightarrow> supervisor_step sv sv'"

inductive supervisor_history :: "tokio_task_config \<Rightarrow> task_supervisor \<Rightarrow> bool" for config where
  history_new: "supervisor_history config (supervisor_new config)"
| history_step: "supervisor_history config sv \<Longrightarrow> supervisor_step sv sv' \<Longrightarrow> supervisor_history config sv'"

lemma supervisor_step_inv: "supervisor_step sv sv' \<Longrightarrow> supervisor_inv sv \<Longrightarrow> supervisor_inv sv'"
proof (induction rule: supervisor_step.induct)
  case (step_spawn current name sv r sv')
  then show ?case by (auto simp: spawn_spawned intro: spawned_inv split: if_splits)
qed (simp_all add: task_step_inv quiesce_inv abort_all_inv claim_inv)

text \<open>What no step changes.\<close>

definition keeps :: "task_supervisor \<Rightarrow> task_supervisor \<Rightarrow> bool" where
  "keeps sv sv' \<longleftrightarrow> sv_config sv' = sv_config sv \<and>
     (ss_accepting (sv_state sv') \<longrightarrow> ss_accepting (sv_state sv)) \<and>
     (sv_tracker_closed sv \<longrightarrow> sv_tracker_closed sv') \<and> (sv_cancelled sv \<longrightarrow> sv_cancelled sv') \<and>
     (ss_terminal_failure (sv_state sv) \<noteq> None \<longrightarrow>
        ss_terminal_failure (sv_state sv') = ss_terminal_failure (sv_state sv)) \<and>
     (ss_drain_reported (sv_state sv) \<longrightarrow> ss_drain_reported (sv_state sv')) \<and>
     (\<not> ss_accepting (sv_state sv) \<longrightarrow> set (sv_tracked sv') \<subseteq> set (sv_tracked sv))"

lemma keeps_refl: "keeps sv sv" by (simp add: keeps_def)

lemma keeps_trans: "keeps sv sv' \<Longrightarrow> keeps sv' sv'' \<Longrightarrow> keeps sv sv''"
  unfolding keeps_def by auto

lemma task_step_keeps: "task_step sv sv' \<Longrightarrow> keeps sv sv' \<and> sv_aborted sv' = sv_aborted sv \<and>
    ss_drain_reported (sv_state sv') = ss_drain_reported (sv_state sv)"
proof (induction rule: task_step.induct)
  case (task_panics sv task)
  then show ?case by (auto simp: keeps_def supervisor_ops Let_def)
next
  case (task_untracked task sv)
  then show ?case by (simp add: keeps_def set_remove1_subset)
qed (simp_all add: keeps_def supervisor_ops)

lemma supervisor_step_keeps: "supervisor_step sv sv' \<Longrightarrow> keeps sv sv'"
proof (induction rule: supervisor_step.induct)
  case (step_spawn current name sv r sv')
  then show ?case by (auto simp: spawn_spawned spawned_def keeps_def split: if_splits)
next
  case (step_claim sv claimed sv')
  then show ?case by (auto simp: claim_drain_report_def keeps_def on_state_def split: if_splits)
qed (simp_all add: task_step_keeps, simp_all add: keeps_def supervisor_ops)

lemma history_inv: "supervisor_history config sv \<Longrightarrow> supervisor_inv sv \<and> sv_config sv = config"
proof (induction rule: supervisor_history.induct)
  case history_new
  show ?case using supervisor_new_inv by (simp add: supervisor_new_def)
next
  case (history_step sv sv')
  then show ?case using supervisor_step_inv supervisor_step_keeps [unfolded keeps_def] by blast
qed

lemma steps_keep: "supervisor_step\<^sup>*\<^sup>* sv sv' \<Longrightarrow> keeps sv sv'"
  by (induction rule: rtranclp_induct) (blast intro: keeps_refl keeps_trans supervisor_step_keeps)+

lemma steps_history: "supervisor_step\<^sup>*\<^sup>* sv sv' \<Longrightarrow> supervisor_history config sv \<Longrightarrow> supervisor_history config sv'"
  by (induction rule: rtranclp_induct) (blast intro: history_step)+

section \<open>Properties\<close>

definition worker :: task_name where "worker = TaskName (text_of ''worker'')"

definition spawned_twice :: task_supervisor where
  "spawned_twice = snd (spawn True worker (snd (spawn True worker (supervisor_new \<lparr>max_tasks = 2, drain_timeout = 1\<rparr>))))"


definition busy_supervisor :: task_supervisor where
  \<comment> \<open>two tasks, one of which panicked\<close>
  "busy_supervisor = panic_at (TaskId 2) PanicDone (record_panic (TaskId 2) spawned_twice)"

lemma spawned_twice_history: "supervisor_history \<lparr>max_tasks = 2, drain_timeout = 1\<rparr> spawned_twice"
proof -
  let ?new = "supervisor_new \<lparr>max_tasks = 2, drain_timeout = 1\<rparr>"
  have "supervisor_step (snd (spawn True worker ?new)) spawned_twice"
    unfolding spawned_twice_def by (rule step_spawn) (rule prod.collapse [symmetric])
  moreover have "supervisor_step ?new (snd (spawn True worker ?new))" by (rule step_spawn) (rule prod.collapse [symmetric])
  ultimately show ?thesis by (meson history_new history_step)
qed

lemma spawned_twice_registers: "bm_contains (ss_tasks (sv_state spawned_twice)) (TaskId 2)" by code_simp

lemma spawned_twice_calm: "bm_get (sv_panics spawned_twice) (TaskId 2) = None" by code_simp


lemma task_steps_supervisor: "task_step\<^sup>*\<^sup>* sv sv' \<Longrightarrow> supervisor_step\<^sup>*\<^sup>* sv sv'"
  by (induction rule: rtranclp_induct) (auto intro: rtranclp.rtrancl_into_rtrancl step_task)

lemma busy_history: "supervisor_history \<lparr>max_tasks = 2, drain_timeout = 1\<rparr> busy_supervisor"
proof -
  have "supervisor_inv spawned_twice" using history_inv [OF spawned_twice_history] by blast
  from task_steps_supervisor [OF record_panic_steps [OF this spawned_twice_registers spawned_twice_calm]]
  show ?thesis unfolding busy_supervisor_def by (rule steps_history) (rule spawned_twice_history)
qed



text \<open>\<open>spawn\<close> admits a task exactly while admission is open, a runtime is there and both the bound and
  the identities leave room, tests this in the order closed, runtime, capacity, and changes nothing
  when it refuses; an admitted task gets an identity no tracked task has, above all others, and is
  the last of the pending tasks.\<close>

lemma spawn_decides:
  assumes "supervisor_history config sv"
  shows "if \<not> ss_accepting (sv_state sv) then spawn current name sv = (Inl SpawnClosed, sv)
    else if \<not> current then spawn current name sv = (Inl NoRuntime, sv)
    else if length (pending_tasks sv) = max_tasks config \<or> ss_next_id (sv_state sv) = - 1 then
      spawn current name sv = (Inl SpawnCapacity, sv)
    else \<exists>task sv'. spawn current name sv = (Inr task, sv') \<and>
      (\<forall>t \<in> set (sv_tracked sv). t < task) \<and>
      sv_tracked sv' = sv_tracked sv @ [task] \<and>
      set (pending_tasks sv') = insert \<lparr>pt_id = task, pt_name = name\<rparr> (set (pending_tasks sv)) \<and>
      length (pending_tasks sv') = Suc (length (pending_tasks sv)) \<and> terminal_failure sv' = None"
proof -
  from history_inv [OF assms] have inv: "supervisor_inv sv" and config: "sv_config sv = config" by auto
  note i = registry_invD [OF supervisor_invD(1) [OF inv]]
  let ?task = "TaskId (ss_next_id (sv_state sv))" and ?m = "ss_tasks (sv_state sv)"
  have above: "\<forall>t \<in> set (sv_tracked sv). t < ?task" using i(4) by (simp add: less_task_id_def)
  then have fresh: "bm_get ?m ?task = None" using i(2) by (force simp: bm_get_None_iff)
  have len: "length (pending_tasks sv) = length ?m" by (simp add: pending_tasks_def)
  have "set (pending_tasks (spawned ?task name sv)) =
      insert \<lparr>pt_id = ?task, pt_name = name\<rparr> (set (pending_tasks sv))"
    by (simp add: pending_tasks_def spawned_def set_bm_modify_insert [OF fresh])
  moreover have "length (pending_tasks (spawned ?task name sv)) = Suc (length (pending_tasks sv))"
    by (simp add: len) (simp add: pending_tasks_def spawned_def bm_modify_def bm_insert_length [OF fresh])
  moreover have "terminal_failure (spawned ?task name sv) = None" if "ss_accepting (sv_state sv)"
    using that supervisor_invD(10) [OF inv] by (cases "terminal_failure sv") (auto simp: terminal_failure_def spawned_def)
  moreover have "sv_tracked (spawned ?task name sv) = sv_tracked sv @ [?task]" by (simp add: spawned_def)
  ultimately show ?thesis
    using above i(5) by (auto simp: spawn_spawned len config)
qed

lemma spawn_decides_witness: "spawn True worker busy_supervisor = (Inl SpawnClosed, busy_supervisor)"
proof -
  have "\<not> ss_accepting (sv_state busy_supervisor)" by code_simp
  with spawn_decides [OF busy_history, of True worker] show ?thesis by simp
qed

text \<open>Closing is final and the first failure stays: whatever happens next, admission is not opened
  again, the token stays cancelled, no task is added, and a recorded terminal failure is never
  replaced.\<close>

lemma supervisor_closing_final:
  assumes "supervisor_history config sv" and "supervisor_step\<^sup>*\<^sup>* sv sv'"
  shows "(cancellation_token sv \<longrightarrow> cancellation_token sv' \<and> \<not> ss_accepting (sv_state sv') \<and>
      set (sv_tracked sv') \<subseteq> set (sv_tracked sv)) \<and>
    (\<forall>f. terminal_failure sv = Some f \<longrightarrow> terminal_failure sv' = Some f)"
proof -
  have "supervisor_inv sv" "supervisor_inv sv'"
    using history_inv [OF assms(1)] history_inv [OF steps_history [OF assms(2,1)]] by auto
  then show ?thesis
    using steps_keep [OF assms(2)] supervisor_invD(5)
    unfolding keeps_def cancellation_token_def terminal_failure_def by auto
qed

lemma supervisor_closing_final_witness:
  "terminal_failure (quiesce busy_supervisor) = Some \<lparr>tf_id = TaskId 2, tf_name = worker, tf_error_tag = ''tokio-task.panicked''\<rparr>"
proof -
  have "terminal_failure busy_supervisor =
      Some \<lparr>tf_id = TaskId 2, tf_name = worker, tf_error_tag = ''tokio-task.panicked''\<rparr>" by code_simp
  with supervisor_closing_final [OF busy_history r_into_rtranclp [where r = supervisor_step, OF step_quiesce]]
  show ?thesis by blast
qed

end
