(* ===== verification/Text_Numbers.thy ===== *)
theory Text_Numbers
  imports Identifier
begin

text \<open>
  Unsigned integers as text, as Rust's standard library writes and reads them: \<open>Display\<close> and
  \<open>str::parse\<close> for a type whose greatest value is \<open>maximum\<close>. Reading what was written gives the
  number back, and a number that does not fit is refused.
\<close>

fun decimal :: "nat \<Rightarrow> str" where
  \<comment> \<open>\<open>Display\<close> of an unsigned integer\<close>
  "decimal n = (if n < 10 then [char_of (48 + n)] else decimal (n div 10) @ [char_of (48 + n mod 10)])"

declare decimal.simps [simp del]

datatype parse_int_error = EmptyInteger | InvalidDigit | PosOverflow

fun parse_int_error_display :: "parse_int_error \<Rightarrow> str" where
  "parse_int_error_display EmptyInteger = ''cannot parse integer from empty string''"
| "parse_int_error_display InvalidDigit = ''invalid digit found in string''"
| "parse_int_error_display PosOverflow = ''number too large to fit in target type''"

fun parse_digits :: "nat \<Rightarrow> str \<Rightarrow> nat \<Rightarrow> parse_int_error + nat" where
  "parse_digits maximum [] result = Inr result"
| "parse_digits maximum (c # cs) result =
     (if \<not> is_ascii_digit c then Inl InvalidDigit
      else
        let result = result * 10 + (of_char c - 48)
        in if result > maximum then Inl PosOverflow else parse_digits maximum cs result)"

definition parse_unsigned :: "nat \<Rightarrow> str \<Rightarrow> parse_int_error + nat" where
  "parse_unsigned maximum s =
     (case s of
        [] \<Rightarrow> Inl EmptyInteger
      | c # cs \<Rightarrow>
          if cs = [] \<and> (c = CHR ''+'' \<or> c = CHR ''-'') then Inl InvalidDigit
          else parse_digits maximum (if c = CHR ''+'' then cs else s) 0)"

definition usize_max :: nat where "usize_max = 2 ^ 64 - 1"
definition u64_max :: nat where "u64_max = 2 ^ 64 - 1"

section \<open>Reading a written number\<close>

lemma digit_char:
  assumes "(d::nat) < 10"
  shows "is_ascii_digit (char_of (48 + d))" and "of_char (char_of (48 + d) :: char) = 48 + d"
    and "char_of (48 + d) \<noteq> CHR ''+''" and "char_of (48 + d) \<noteq> CHR ''-''"
proof -
  from assms have "d = 0 \<or> d = 1 \<or> d = 2 \<or> d = 3 \<or> d = 4 \<or> d = 5 \<or> d = 6 \<or> d = 7 \<or> d = 8 \<or> d = 9"
    by arith
  then show "is_ascii_digit (char_of (48 + d))" and "of_char (char_of (48 + d) :: char) = 48 + d"
    and "char_of (48 + d) \<noteq> CHR ''+''" and "char_of (48 + d) \<noteq> CHR ''-''"
    by (elim disjE; simp add: is_ascii_digit_def; code_simp)+
qed

lemma decimal_not_Nil [simp]: "decimal n \<noteq> []"
  by (subst decimal.simps) simp

lemma decimal_digits: "c \<in> set (decimal n) \<Longrightarrow> \<exists>d::nat. d < 10 \<and> c = char_of (48 + d)"
proof (induction n rule: decimal.induct)
  case (1 n)
  show ?case
  proof (cases "n < 10")
    case True
    then have "c = char_of (48 + n)" using "1.prems" by (subst (asm) decimal.simps) simp
    with True show ?thesis by blast
  next
    case False
    then have "c \<in> set (decimal (n div 10)) \<or> c = char_of (48 + n mod 10)"
      using "1.prems" by (subst (asm) decimal.simps) auto
    moreover have "n mod 10 < 10" by simp
    ultimately show ?thesis using "1.IH" [OF False] by blast
  qed
qed

lemma parse_digits_append:
  "parse_digits maximum (xs @ ys) r = and_then (parse_digits maximum xs r) (parse_digits maximum ys)"
  by (induction xs arbitrary: r) (auto simp: Let_def)

lemma parse_digits_decimal:
  "parse_digits maximum (decimal n) 0 = (if n \<le> maximum then Inr n else Inl PosOverflow)"
proof (induction n rule: decimal.induct)
  case (1 n)
  show ?case
  proof (cases "n < 10")
    case True
    with digit_char [OF this] show ?thesis by (subst decimal.simps) (simp add: Let_def)
  next
    case False
    have d: "n mod 10 < 10" by simp
    have n: "n div 10 * 10 + n mod 10 = n" by simp
    have less: "n div 10 \<le> maximum" if "n \<le> maximum" using that by (meson div_le_dividend le_trans)
    have "decimal n = decimal (n div 10) @ [char_of (48 + n mod 10)]"
      using False by (subst decimal.simps) simp
    with "1.IH" [OF False] digit_char [OF d] n less show ?thesis
      by (simp add: parse_digits_append Let_def)
  qed
qed

lemma parse_unsigned_decimal:
  "parse_unsigned maximum (decimal n) = (if n \<le> maximum then Inr n else Inl PosOverflow)"
proof -
  obtain c cs where s: "decimal n = c # cs" by (cases "decimal n") auto
  then obtain d :: nat where "d < 10" "c = char_of (48 + d)" using decimal_digits [of c n] by auto
  with digit_char(3,4) [OF this(1)] have "c \<noteq> CHR ''+''" "c \<noteq> CHR ''-''" by simp_all
  then have "parse_unsigned maximum (decimal n) = parse_digits maximum (decimal n) 0"
    by (simp add: parse_unsigned_def s)
  then show ?thesis by (simp add: parse_digits_decimal)
qed

lemma decimal_one: "decimal (Suc 0) = ''1''"
  by code_simp

lemma decimal_inject: "decimal m = decimal n \<longleftrightarrow> m = n"
proof
  assume eq: "decimal m = decimal n"
  have "parse_unsigned (max m n) (decimal m) = Inr m" "parse_unsigned (max m n) (decimal n) = Inr n"
    unfolding parse_unsigned_decimal by simp_all
  with eq show "m = n" by (metis sum.inject(2))
qed simp

end
