(* ===== verification/Tokio_Plugin.thy ===== *)
theory Tokio_Plugin
  imports Task_Properties Lifecycle Text_Numbers
begin

text \<open>
  \<open>TokioTaskPlugin\<close> of \<open>kernox-host-tokio/src/lib.rs\<close>: the plugin that publishes a task supervisor,
  and draining it. The supervisor is shared behind an \<open>Arc\<close> between the plugin and whoever holds the
  published interface, so it lives in the world, by its address; \<open>handle_of\<close> is the interface made
  of the address. \<open>Version::parse\<close> and \<open>VersionReq::parse\<close> are parameters.
\<close>

section \<open>Draining\<close>

definition task_id_display :: "task_id \<Rightarrow> str" where
  "task_id_display task = ''task-'' @ decimal (unat (task_id_value task))"

definition task_display :: "task_id \<Rightarrow> task_name \<Rightarrow> utext" where
  "task_display task name = text_of (task_id_display task @ '':'') @ task_name_as_str name"

definition drain_error :: "task_supervisor \<Rightarrow> pending_task list \<Rightarrow> plugin_error option" where
  "drain_error sv pending =
     (case terminal_failure sv of
        Some failure \<Rightarrow>
          let pending_suffix = (if pending = [] then [] else
                text_of (''; '' @ decimal (length pending) @ '' peer task(s) also exceeded drain budget''))
          in Some \<lparr>pe_tag = tf_error_tag failure, pe_message =
               task_display (tf_id failure) (tf_name failure) @ text_of '' terminated unexpectedly'' @ pending_suffix\<rparr>
      | None \<Rightarrow>
          if pending = [] then None
          else
            let names = join_with (text_of '', '') (map (\<lambda>t. task_display (pt_id t) (pt_name t)) (take 16 pending))
            in Some \<lparr>pe_tag = ''tokio-task.drain-timeout'', pe_message =
                 text_of (decimal (length pending) @ '' task(s) exceeded drain budget: '') @ names\<rparr>)"

definition drain_failure ::
  "tokio_runtime \<Rightarrow> bool \<Rightarrow> task_supervisor \<Rightarrow> (plugin_error option \<times> task_supervisor) option" where
  \<comment> \<open>\<open>None\<close> when draining never returns\<close>
  "drain_failure rt current sv =
     (if \<not> current \<and> has_tracked_tasks sv then
        Some (case claim_drain_report (abort_all sv) of
          (False, sv) \<Rightarrow> (None, sv)
        | (True, sv) \<Rightarrow>
            (Some \<lparr>pe_tag = spawn_error_tag NoRuntime,
               pe_message = text_of ''Tokio runtime is required to drain supervised tasks''\<rparr>, sv))
      else
        case drain rt sv of
          None \<Rightarrow> None
        | Some (pending, sv) \<Rightarrow>
            Some (case claim_drain_report sv of
              (False, sv) \<Rightarrow> (None, sv)
            | (True, sv) \<Rightarrow> (drain_error sv pending, sv)))"

section \<open>The plugin\<close>

definition PLUGIN_ID :: str where "PLUGIN_ID = ''dev.kernox.host.tokio''"
definition TASK_CAPABILITY_ID :: str where "TASK_CAPABILITY_ID = ''dev.kernox.host.tokio.tasks''"
definition TOKIO_RUNTIME_CAPABILITY_ID :: str where
  "TOKIO_RUNTIME_CAPABILITY_ID = ''dev.kernox.host.tokio.runtime''"
definition CONTRACT_VERSION :: str where "CONTRACT_VERSION = ''1.0.0''"
definition NO_TIMER_ERROR_TAG :: str where "NO_TIMER_ERROR_TAG = ''tokio-task.no-timer''"

definition tokio_tasks_capability :: "type_id \<Rightarrow> str \<Rightarrow> type_id \<Rightarrow> capability_marker" where
  \<comment> \<open>\<open>TokioTasksCapability\<close>, with the type identities the compiler gives it\<close>
  "tokio_tasks_capability marker name interface =
     \<lparr>cm_type = marker, cm_name = name, cm_ID = TASK_CAPABILITY_ID, cm_VERSION = CONTRACT_VERSION,
      cm_interface = interface\<rparr>"

datatype tokio_task_plugin_error =
    ZeroCapacity
  | TaskDescriptor descriptor_error
  | TaskIdentifier
  | TaskVersion str

record ('v, 'q) tokio_task_plugin =
  tp_descriptor :: "('v, 'q) plugin_descriptor"
  tp_config :: tokio_task_config
  tp_host_requirements :: "'q host_requirement list"
  tp_supervisor :: "nat option"

definition tokio_task_plugin_id :: "identifier_error + plugin_id" where
  "tokio_task_plugin_id = plugin_id_new PLUGIN_ID"

definition tokio_runtime_capability ::
  "(str \<Rightarrow> str + 'v) \<Rightarrow> tokio_task_plugin_error + 'v host_capability" where
  "tokio_runtime_capability parse_version =
     and_then (map_err (\<lambda>_. TaskIdentifier) (capability_id_new TOKIO_RUNTIME_CAPABILITY_ID)) (\<lambda>capability.
     and_then (map_err TaskVersion (parse_version CONTRACT_VERSION)) (\<lambda>version.
     Inr \<lparr>hc_id = capability, hc_version = version\<rparr>))"

definition tokio_task_plugin_new ::
  "(str \<Rightarrow> str + 'v) \<Rightarrow> (str \<Rightarrow> str + 'q) \<Rightarrow> tokio_task_config
     \<Rightarrow> tokio_task_plugin_error + ('v, 'q) tokio_task_plugin" where
  "tokio_task_plugin_new parse_version parse_req config =
     (if max_tasks config = 0 then Inl ZeroCapacity
      else
        and_then (map_err (\<lambda>_. TaskIdentifier) (plugin_id_new PLUGIN_ID)) (\<lambda>plugin.
        and_then (map_err (\<lambda>_. TaskIdentifier) (capability_id_new TASK_CAPABILITY_ID)) (\<lambda>capability.
        and_then (map_err TaskVersion (parse_version CONTRACT_VERSION)) (\<lambda>version.
        and_then (tokio_runtime_capability parse_version) (\<lambda>runtime.
        and_then (map_err TaskVersion (parse_req ''^1.0'')) (\<lambda>req.
        and_then (map_err TaskDescriptor (provide \<lparr>offer_id = capability, offer_version = version\<rparr>
          (descriptor_new plugin version))) (\<lambda>descriptor.
        Inr \<lparr>tp_descriptor = descriptor, tp_config = config,
          tp_host_requirements = [\<lparr>hr_id = hc_id runtime, hr_version = req\<rparr>], tp_supervisor = None\<rparr>)))))))"

section \<open>Lifecycle hooks\<close>

record tokio_world =
  tw_current :: bool                     \<comment> \<open>\<open>Handle::try_current\<close> succeeds\<close>
  tw_timer :: bool                       \<comment> \<open>creating a timer does not unwind\<close>
  tw_supervisors :: "task_supervisor list"

type_synonym ('v, 'q) tokio_state = "('v, 'q) tokio_task_plugin \<times> tokio_world"

definition ready :: "plugin_error + 't \<Rightarrow> ('s, 't) future option" where
  \<comment> \<open>\<open>Box::pin(async { result })\<close>\<close>
  "ready result = Some (\<lambda>s. (Some result, s))"

definition supervisor_at :: "tokio_world \<Rightarrow> nat \<Rightarrow> task_supervisor" where
  "supervisor_at w a = tw_supervisors w ! a"

definition set_supervisor :: "nat \<Rightarrow> task_supervisor \<Rightarrow> tokio_world \<Rightarrow> tokio_world" where
  "set_supervisor a sv w = w\<lparr>tw_supervisors := (tw_supervisors w)[a := sv]\<rparr>"

definition tokio_initialize ::
  "(str \<Rightarrow> str + 'v) \<Rightarrow> ('v provision_error \<Rightarrow> utext) \<Rightarrow> capability_marker \<Rightarrow> (nat \<Rightarrow> 'h)
     \<Rightarrow> ('v, 'q, 'h) initialization_context \<Rightarrow> scope_view
     \<Rightarrow> (('v, 'q) tokio_state, ('v, 'h) provision_set) hook" where
  "tokio_initialize parse_version display C handle_of context view = (\<lambda>(self, w).
     if \<not> tw_current w then
       (ready (Inl \<lparr>pe_tag = spawn_error_tag NoRuntime, pe_message = text_of (spawn_error_display NoRuntime)\<rparr>),
        (self, w))
     else if \<not> tw_timer w then
       (ready (Inl \<lparr>pe_tag = NO_TIMER_ERROR_TAG, pe_message = text_of ''Tokio runtime timers are not enabled''\<rparr>),
        (self, w))
     else
       let a = length (tw_supervisors w);
           w = w\<lparr>tw_supervisors := tw_supervisors w @ [supervisor_new (tp_config self)]\<rparr>;
           self = self\<lparr>tp_supervisor := Some a\<rparr>
       in (ready (map_err (\<lambda>error. \<lparr>pe_tag = provision_error_tag error, pe_message = display error\<rparr>)
             (provision_set_provide parse_version C (handle_of a) [])), (self, w)))"

definition tokio_quiesce :: "scope_view \<Rightarrow> (('v, 'q) tokio_state, unit) hook" where
  "tokio_quiesce view = (\<lambda>(self, w).
     (ready (Inr ()), (self, case tp_supervisor self of
        None \<Rightarrow> w | Some a \<Rightarrow> set_supervisor a (quiesce (supervisor_at w a)) w)))"

definition drain_at :: "tokio_runtime \<Rightarrow> nat \<Rightarrow> tokio_world \<Rightarrow> ((plugin_error + unit) \<times> tokio_world) option" where
  "drain_at rt a w =
     (case drain_failure rt (tw_current w) (supervisor_at w a) of
        None \<Rightarrow> None
      | Some (error, sv) \<Rightarrow>
          Some (case error of None \<Rightarrow> Inr () | Some error \<Rightarrow> Inl error, set_supervisor a sv w))"

definition drain_result ::
  "('v, 'q) tokio_state \<Rightarrow> ((plugin_error + unit) \<times> tokio_world) option
     \<Rightarrow> (plugin_error + unit) option \<times> ('v, 'q) tokio_state" where
  \<comment> \<open>how the future of a hook ends; the lifecycle has no other way to end it early than by unwinding,
    which stands for a drain that never returns\<close>
  "drain_result s result = (case result of None \<Rightarrow> (None, s) | Some (r, w) \<Rightarrow> (Some r, (fst s, w)))"

definition tokio_stop :: "tokio_runtime \<Rightarrow> scope_view \<Rightarrow> (('v, 'q) tokio_state, unit) hook" where
  "tokio_stop rt view = (\<lambda>(self, w).
     (Some (\<lambda>(p, w). case tp_supervisor self of
        None \<Rightarrow> (Some (Inr ()), (p, w))
      | Some a \<Rightarrow> drain_result (p, w) (drain_at rt a w)), (self, w)))"

definition tokio_dispose :: "tokio_runtime \<Rightarrow> scope_view \<Rightarrow> (('v, 'q) tokio_state, unit) hook" where
  "tokio_dispose rt view = (\<lambda>(self, w).
     (Some (\<lambda>(p, w). case tp_supervisor self of
        None \<Rightarrow> (Some (Inr ()), (p, w))
      | Some a \<Rightarrow> drain_result (p, w) (drain_at rt a (set_supervisor a (quiesce (supervisor_at w a)) w))),
      (self\<lparr>tp_supervisor := None\<rparr>, w)))"

definition tokio_interface ::
  "(str \<Rightarrow> str + 'v) \<Rightarrow> ('v provision_error \<Rightarrow> utext) \<Rightarrow> capability_marker \<Rightarrow> (nat \<Rightarrow> 'h) \<Rightarrow> tokio_runtime
     \<Rightarrow> (('v, 'q) tokio_task_plugin, tokio_world, 'v, 'q, 'h) plugin_interface" where
  "tokio_interface parse_version display C handle_of rt =
     \<lparr>pi_descriptor = tp_descriptor, pi_host_requirements = tp_host_requirements,
      pi_initialize = tokio_initialize parse_version display C handle_of, pi_start = default_hook,
      pi_quiesce = tokio_quiesce, pi_stop = tokio_stop rt, pi_dispose = tokio_dispose rt\<rparr>"

end
