(* ===== verification/Tokio_Properties.thy ===== *)
theory Tokio_Properties
  imports Tokio_Plugin
begin

text \<open>
  Draining the tasks of \<open>kernox-host-tokio/src/lib.rs\<close>, as far as Tokio keeps its documented
  promises (\<open>tokio_ok\<close>). A wait for the tracker that ends, in time or at all, found the tracker empty, and nothing but steps of the tasks happened meanwhile. That the wait ends is promised
  only for a closed tracker all of whose registered tasks were aborted; a task that was not may run
  forever, and then \<open>tracker.wait()\<close> never ends.
\<close>

definition all_aborted :: "task_supervisor \<Rightarrow> bool" where
  "all_aborted sv \<longleftrightarrow> set (bm_keys (ss_tasks (sv_state sv))) \<subseteq> set (sv_aborted sv)"

definition tokio_ok :: "tokio_runtime \<Rightarrow> bool" where
  "tokio_ok rt \<longleftrightarrow> (\<forall>sv limit. supervisor_inv sv \<longrightarrow>
     task_step\<^sup>*\<^sup>* sv (rt_meanwhile rt sv) \<and>
     task_step\<^sup>*\<^sup>* sv (snd (rt_timeout rt limit sv)) \<and>
     (fst (rt_timeout rt limit sv) \<longrightarrow> sv_tracked (snd (rt_timeout rt limit sv)) = []) \<and>
     (\<forall>sv'. rt_wait rt sv = Some sv' \<longrightarrow> task_step\<^sup>*\<^sup>* sv sv' \<and> sv_tracked sv' = []) \<and>
     (sv_tracker_closed sv \<and> all_aborted sv \<longrightarrow> rt_wait rt sv \<noteq> None))"

lemma tokio_okD:
  assumes "tokio_ok rt" and "supervisor_inv sv"
  shows "task_step\<^sup>*\<^sup>* sv (rt_meanwhile rt sv)"
    and "rt_timeout rt limit sv = (intime, sv') \<Longrightarrow> task_step\<^sup>*\<^sup>* sv sv' \<and> (intime \<longrightarrow> sv_tracked sv' = [])"
    and "rt_wait rt sv = Some sv' \<Longrightarrow> task_step\<^sup>*\<^sup>* sv sv' \<and> sv_tracked sv' = []"
    and "sv_tracker_closed sv \<Longrightarrow> all_aborted sv \<Longrightarrow> \<exists>sv'. rt_wait rt sv = Some sv'"
proof -
  have promise: "task_step\<^sup>*\<^sup>* sv (rt_meanwhile rt sv) \<and> task_step\<^sup>*\<^sup>* sv (snd (rt_timeout rt limit sv)) \<and>
     (fst (rt_timeout rt limit sv) \<longrightarrow> sv_tracked (snd (rt_timeout rt limit sv)) = []) \<and>
     (\<forall>sv'. rt_wait rt sv = Some sv' \<longrightarrow> task_step\<^sup>*\<^sup>* sv sv' \<and> sv_tracked sv' = []) \<and>
     (sv_tracker_closed sv \<and> all_aborted sv \<longrightarrow> rt_wait rt sv \<noteq> None)" for limit
    using assms unfolding tokio_ok_def by blast
  then show "task_step\<^sup>*\<^sup>* sv (rt_meanwhile rt sv)"
    "rt_wait rt sv = Some sv' \<Longrightarrow> task_step\<^sup>*\<^sup>* sv sv' \<and> sv_tracked sv' = []"
    "sv_tracker_closed sv \<Longrightarrow> all_aborted sv \<Longrightarrow> \<exists>sv'. rt_wait rt sv = Some sv'" by blast+
  show "task_step\<^sup>*\<^sup>* sv sv' \<and> (intime \<longrightarrow> sv_tracked sv' = [])" if "rt_timeout rt limit sv = (intime, sv')"
    using promise [of limit] by (simp add: that)
qed

lemma task_steps:
  assumes "task_step\<^sup>*\<^sup>* sv sv'"
  shows "supervisor_step\<^sup>*\<^sup>* sv sv' \<and> (supervisor_inv sv \<longrightarrow> supervisor_inv sv') \<and>
    ss_drain_reported (sv_state sv') = ss_drain_reported (sv_state sv)"
  using assms
proof (induction rule: rtranclp_induct)
  case (step sv1 sv2)
  then show ?case
    using task_step_inv task_step_keeps by (auto intro: rtranclp.rtrancl_into_rtrancl step_task)
qed simp

section \<open>Draining\<close>

lemma abort_all_aborts: "supervisor_inv sv \<Longrightarrow> all_aborted (abort_all sv)"
proof -
  assume inv: "supervisor_inv sv"
  have "tr_abort entry = Some task" if "(task, entry) \<in> set (ss_tasks (sv_state sv))" for task entry
    using registry_invD(6) [OF supervisor_invD(1) [OF inv] that] .
  then show ?thesis
    by (fastforce simp: all_aborted_def abort_all_def bm_keys_def bm_values_def List.map_filter_def image_iff)
qed

definition drained_from :: "task_supervisor \<Rightarrow> task_supervisor \<Rightarrow> bool" where
  "drained_from sv sv' \<longleftrightarrow> supervisor_step\<^sup>*\<^sup>* sv sv' \<and> supervisor_inv sv' \<and> sv_tracked sv' = [] \<and>
     ss_drain_reported (sv_state sv') = ss_drain_reported (sv_state sv)"

lemma drain_ok:
  assumes rt: "tokio_ok rt" and inv: "supervisor_inv sv" and closed: "sv_tracker_closed sv"
  obtains pending sv' where "drain rt sv = Some (pending, sv')" and "drained_from sv sv'"
proof (cases "sv_tracked sv = []")
  case True
  with inv that show thesis by (simp add: drain_def drained_from_def)
next
  case False
  obtain intime sv1 where t: "rt_timeout rt (drain_timeout (sv_config sv)) sv = (intime, sv1)" by fastforce
  note s1 = tokio_okD(2) [OF rt inv t]
  note 1 = task_steps [OF s1 [THEN conjunct1]]
  show thesis
  proof (cases intime)
    case True
    with False t s1 1 inv that [of "[]" sv1] show thesis by (simp add: drain_def drained_from_def)
  next
    case late: False
    let ?sv2 = "rt_meanwhile rt sv1"
    have inv1: "supervisor_inv sv1" using 1 inv by blast
    note 2 = task_steps [OF tokio_okD(1) [OF rt inv1]]
    have inv2: "supervisor_inv ?sv2" using 2 inv1 by blast
    have steps: "supervisor_step\<^sup>*\<^sup>* sv ?sv2" using 1 2 by (meson rtranclp_trans)
    have inv3: "supervisor_inv (abort_all ?sv2)" using inv2 by (simp add: abort_all_inv)
    have "sv_tracker_closed (abort_all ?sv2)"
      using steps_keep [OF steps] closed by (simp add: keeps_def abort_all_def)
    then obtain sv' where w: "rt_wait rt (abort_all ?sv2) = Some sv'"
      using tokio_okD(4) [OF rt inv3 _ abort_all_aborts [OF inv2]] by blast
    have "supervisor_step\<^sup>*\<^sup>* sv (abort_all ?sv2)" using steps step_abort by (rule rtranclp.rtrancl_into_rtrancl)
    with task_steps [OF tokio_okD(3) [OF rt inv3 w, THEN conjunct1]] tokio_okD(3) [OF rt inv3 w] inv3 1 2
    have "drained_from sv sv'" by (auto simp: drained_from_def abort_all_def intro: rtranclp_trans)
    then show thesis using that [of "pending_tasks sv1" sv'] False t late w by (simp add: drain_def Let_def)
  qed
qed

lemma no_tracked_no_pending: "supervisor_inv sv \<Longrightarrow> sv_tracked sv = [] \<Longrightarrow> pending_tasks sv = []"
  using registry_invD(2) [OF supervisor_invD(1)] by (fastforce simp: pending_tasks_def bm_keys_def)

lemma drain_error_tags: "drain_error sv pending = Some e \<Longrightarrow> supervisor_inv sv \<Longrightarrow>
    pe_tag e = (if terminal_failure sv = None then ''tokio-task.drain-timeout'' else ''tokio-task.panicked'')"
  using supervisor_invD(9) by (auto simp: drain_error_def Let_def terminal_failure_def split: option.splits if_splits)

lemma drain_failure_ok:
  assumes rt: "tokio_ok rt" and inv: "supervisor_inv sv" and closed: "sv_tracker_closed sv"
    and go: "current \<or> sv_tracked sv = []"
  obtains pending sv1 e sv' where "drain rt sv = Some (pending, sv1)" and "drain_failure rt current sv = Some (e, sv')"
    and "supervisor_step\<^sup>*\<^sup>* sv sv'" and "supervisor_inv sv'"
    and "sv_tracked sv' = []" and "ss_drain_reported (sv_state sv')"
    and "e = (if ss_drain_reported (sv_state sv) then None else drain_error sv' pending)"
proof -
  obtain pending sv1 where d: "drain rt sv = Some (pending, sv1)" and ok: "drained_from sv sv1"
    by (rule drain_ok [OF rt inv closed])
  note ok = ok [unfolded drained_from_def]
  obtain claimed sv2 where c: "claim_drain_report sv1 = (claimed, sv2)" by fastforce
  have "supervisor_step\<^sup>*\<^sup>* sv sv2"
    using ok step_claim [OF c] by (auto intro: rtranclp.rtrancl_into_rtrancl)
  moreover have "supervisor_inv sv2" using claim_inv [OF c] ok by blast
  moreover have "sv_tracked sv2 = sv_tracked sv1" "ss_drain_reported (sv_state sv2)"
    "claimed \<longleftrightarrow> \<not> ss_drain_reported (sv_state sv1)"
    using c by (auto simp: claim_drain_report_def on_state_def split: if_splits)
  moreover have "drain_failure rt current sv = Some (if claimed then drain_error sv2 pending else None, sv2)"
    using go d c by (auto simp: drain_failure_def has_tracked_tasks_def split: bool.split)
  ultimately show thesis using that [OF d] ok by simp
qed

definition drain_outcome :: "task_supervisor \<Rightarrow> pending_task list \<Rightarrow> plugin_error option \<Rightarrow> task_supervisor \<Rightarrow> bool" where
  "drain_outcome sv pending e sv' \<longleftrightarrow>
     (ss_drain_reported (sv_state sv) \<longrightarrow> e = None) \<and>
     (\<not> ss_drain_reported (sv_state sv) \<longrightarrow>
        (e = None \<longleftrightarrow> terminal_failure sv' = None \<and> pending = []) \<and>
        (\<forall>error. e = Some error \<longrightarrow> pe_tag error =
           (if terminal_failure sv' = None then ''tokio-task.drain-timeout'' else ''tokio-task.panicked'')))"

text \<open>What a drain under a runtime does to a cancelled supervisor.\<close>

lemma drain_closes:
  assumes rt: "tokio_ok rt" and history: "supervisor_history config sv" and cancelled: "cancellation_token sv"
  obtains pending sv1 e sv' where "drain rt sv = Some (pending, sv1)" and "drain_failure rt True sv = Some (e, sv')"
    and "supervisor_history config sv'" and "cancellation_token sv'" and "pending_tasks sv' = []"
    and "sv_tracked sv' = []" and "ss_drain_reported (sv_state sv')" and "drain_outcome sv pending e sv'"
proof -
  have inv: "supervisor_inv sv" using history_inv [OF history] by blast
  then have closed: "sv_tracker_closed sv" using supervisor_invD(4) cancelled by (simp add: cancellation_token_def)
  obtain pending sv1 e sv' where d: "drain rt sv = Some (pending, sv1)" "drain_failure rt True sv = Some (e, sv')"
    "supervisor_step\<^sup>*\<^sup>* sv sv'" "supervisor_inv sv'" "sv_tracked sv' = []" "ss_drain_reported (sv_state sv')"
    "e = (if ss_drain_reported (sv_state sv) then None else drain_error sv' pending)"
    by (rule drain_failure_ok [OF rt inv closed, of True]) auto
  have "drain_error sv' pending = None \<longleftrightarrow> terminal_failure sv' = None \<and> pending = []"
    by (simp add: drain_error_def Let_def split: option.split)
  then have "drain_outcome sv pending e sv'"
    using d(7) drain_error_tags [OF _ d(4)] by (simp add: drain_outcome_def)
  moreover have "cancellation_token sv'"
    using steps_keep [OF d(3)] cancelled by (simp add: keeps_def cancellation_token_def)
  ultimately show thesis
    using that [OF d(1,2)] steps_history [OF d(3) history] no_tracked_no_pending [OF d(4,5)] d(5,6) by blast
qed

text \<open>C20: once the supervisor is closed and a runtime is there, draining returns, even when a task that
  was not aborted would run forever, since what is left after the budget is aborted; it leaves no task
  behind, and over all drains at most one failure is reported: the terminal failure when there is
  one, otherwise the tasks that exceeded the budget, and nothing when there is neither.\<close>

theorem drain_reports_once:
  assumes "tokio_ok rt" and "supervisor_history config sv" and "cancellation_token sv"
  shows "\<exists>e sv' pending sv1. drain_failure rt True sv = Some (e, sv') \<and> drain rt sv = Some (pending, sv1) \<and>
    supervisor_history config sv' \<and> cancellation_token sv' \<and> pending_tasks sv' = [] \<and> sv_tracked sv' = [] \<and>
    (ss_drain_reported (sv_state sv) \<longrightarrow> e = None) \<and>
    (\<not> ss_drain_reported (sv_state sv) \<longrightarrow>
       (e = None \<longleftrightarrow> terminal_failure sv' = None \<and> pending = []) \<and>
       (\<forall>error. e = Some error \<longrightarrow> pe_tag error =
          (if terminal_failure sv' = None then ''tokio-task.drain-timeout'' else ''tokio-task.panicked''))) \<and>
    (\<exists>sv2. drain_failure rt True sv' = Some (None, sv2))"
proof -
  obtain pending sv1 e sv' where d: "drain rt sv = Some (pending, sv1)" "drain_failure rt True sv = Some (e, sv')"
    "supervisor_history config sv'" "cancellation_token sv'" "pending_tasks sv' = []" "sv_tracked sv' = []"
    "ss_drain_reported (sv_state sv')" "drain_outcome sv pending e sv'"
    by (rule drain_closes [OF assms])
  obtain pending' sv1' e' sv2 where "drain_failure rt True sv' = Some (e', sv2)" "drain_outcome sv' pending' e' sv2"
    by (rule drain_closes [OF assms(1) d(3,4)])
  then have "\<exists>sv2. drain_failure rt True sv' = Some (None, sv2)" using d(7) by (simp add: drain_outcome_def)
  then show ?thesis using d(3-6,8) by (simp add: d(1,2) drain_outcome_def)
qed

section \<open>A runtime that keeps its promises\<close>

definition end_panic :: "task_id \<Rightarrow> task_supervisor \<Rightarrow> task_supervisor" where
  \<comment> \<open>the rest of \<open>record_panic\<close>, when the task is inside it\<close>
  "end_panic task sv =
     (let sv = (if bm_get (sv_panics sv) task = Some FailureRecorded then panic_at task TrackerClosed (close_tracker sv) else sv)
      in if bm_get (sv_panics sv) task = Some TrackerClosed then panic_at task PanicDone (cancel_token sv) else sv)"

definition end_task :: "task_id \<Rightarrow> task_supervisor \<Rightarrow> task_supervisor" where
  "end_task task sv = drop_registration task (end_panic task sv)"

definition finish_tasks :: "task_supervisor \<Rightarrow> task_supervisor" where
  "finish_tasks sv = (fold end_task (bm_keys (ss_tasks (sv_state sv))) sv)\<lparr>sv_tracked := []\<rparr>"

definition prompt_runtime :: tokio_runtime where
  "prompt_runtime = \<lparr>rt_timeout = (\<lambda>limit sv. (True, finish_tasks sv)), rt_meanwhile = id, rt_wait = Some \<circ> finish_tasks\<rparr>"

definition lazy_runtime :: tokio_runtime where
  \<comment> \<open>no task ends unless it is aborted\<close>
  "lazy_runtime = \<lparr>rt_timeout = (\<lambda>limit sv. (sv_tracked sv = [], sv)), rt_meanwhile = id,
     rt_wait = (\<lambda>sv. if all_aborted sv then Some (finish_tasks sv) else None)\<rparr>"

lemma end_panic_ok:
  assumes inv: "supervisor_inv sv"
  shows "task_step\<^sup>*\<^sup>* sv (end_panic task sv)" and "\<not> is_panicking (end_panic task sv) task"
    and "ss_tasks (sv_state (end_panic task sv)) = ss_tasks (sv_state sv)"
    and "sv_tracked (end_panic task sv) = sv_tracked sv"
proof -
  note wf = panics_wf [OF inv]
  let ?closed = "panic_at task TrackerClosed (close_tracker sv)"
  have one: "task_step sv ?closed" if "bm_get (sv_panics sv) task = Some FailureRecorded"
    using that by (rule panic_closes)
  have two: "task_step s (panic_at task PanicDone (cancel_token s))" if "bm_get (sv_panics s) task = Some TrackerClosed" for s
    using that by (rule panic_cancels)
  have get: "bm_get (sv_panics ?closed) task = Some TrackerClosed" by (simp add: supervisor_ops bm_get_insert wf)
  from one two [OF get] two [of sv] get show "task_step\<^sup>*\<^sup>* sv (end_panic task sv)"
    unfolding end_panic_def Let_def by (auto intro: converse_rtranclp_into_rtranclp)
  show "\<not> is_panicking (end_panic task sv) task"
    by (auto simp: end_panic_def Let_def is_panicking_def supervisor_ops bm_get_insert bm_insert_again wf)
qed (simp_all add: end_panic_def Let_def supervisor_ops)

lemma end_task_ok:
  assumes inv: "supervisor_inv sv" and task: "task \<in> set (bm_keys (ss_tasks (sv_state sv)))"
  shows "task_step\<^sup>*\<^sup>* sv (end_task task sv)"
    and "set (bm_keys (ss_tasks (sv_state (end_task task sv)))) = set (bm_keys (ss_tasks (sv_state sv))) - {task}"
    and "sv_tracked (end_task task sv) = sv_tracked sv"
proof -
  note p = end_panic_ok [OF inv, of task]
  have "task_step (end_panic task sv) (end_task task sv)"
    unfolding end_task_def using task p(2,3) by (intro task_dropped) (simp_all add: bm_contains_iff)
  with p(1) show "task_step\<^sup>*\<^sup>* sv (end_task task sv)" by (rule rtranclp.rtrancl_into_rtrancl)
qed (simp_all add: end_task_def drop_registration_def on_state_def set_bm_keys_remove end_panic_ok [OF inv])

lemma end_tasks:
  "supervisor_inv sv \<Longrightarrow> distinct ks \<Longrightarrow> set ks \<subseteq> set (bm_keys (ss_tasks (sv_state sv))) \<Longrightarrow>
     task_step\<^sup>*\<^sup>* sv (fold end_task ks sv) \<and>
     set (bm_keys (ss_tasks (sv_state (fold end_task ks sv)))) = set (bm_keys (ss_tasks (sv_state sv))) - set ks \<and>
     sv_tracked (fold end_task ks sv) = sv_tracked sv"
proof (induction ks arbitrary: sv)
  case (Cons k ks)
  let ?sv = "end_task k sv"
  have "k \<in> set (bm_keys (ss_tasks (sv_state sv)))" using Cons.prems(3) by simp
  note step = end_task_ok [OF Cons.prems(1) this]
  have inv: "supervisor_inv ?sv" using task_steps [OF step(1)] Cons.prems(1) by blast
  have "set ks \<subseteq> set (bm_keys (ss_tasks (sv_state ?sv)))" using Cons.prems(2,3) step(2) by auto
  note rest = Cons.IH [OF inv _ this]
  from rest step Cons.prems(2) show ?case by (auto intro: rtranclp_trans)
qed simp

lemma untrack_all:
  "ss_tasks (sv_state sv) = [] \<Longrightarrow> task_step\<^sup>*\<^sup>* sv (sv\<lparr>sv_tracked := []\<rparr>)"
proof (induction "sv_tracked sv" arbitrary: sv)
  case (Cons k ks)
  let ?sv = "sv\<lparr>sv_tracked := remove1 k (sv_tracked sv)\<rparr>"
  have "remove1 k (sv_tracked sv) = ks" using Cons.hyps(2) [symmetric] by simp
  then have "task_step\<^sup>*\<^sup>* ?sv (?sv\<lparr>sv_tracked := []\<rparr>)" using Cons.hyps(1) [of ?sv] Cons.prems by simp
  moreover have "task_step sv ?sv"
    using Cons.prems Cons.hyps(2) [symmetric] by (intro task_untracked) (simp_all add: bm_contains_def bm_get_def)
  ultimately show ?case by (simp add: converse_rtranclp_into_rtranclp)
next
  case Nil
  then have "sv\<lparr>sv_tracked := []\<rparr> = sv" by simp
  then show ?case by simp
qed

lemma finish_tasks_ok:
  assumes inv: "supervisor_inv sv"
  shows "task_step\<^sup>*\<^sup>* sv (finish_tasks sv)" and "sv_tracked (finish_tasks sv) = []"
proof -
  let ?ks = "bm_keys (ss_tasks (sv_state sv))"
  have "distinct ?ks" using bm_wf_distinct [OF registry_invD(1) [OF supervisor_invD(1) [OF inv]]] .
  from end_tasks [OF inv this subset_refl]
  have "task_step\<^sup>*\<^sup>* sv (fold end_task ?ks sv)" "ss_tasks (sv_state (fold end_task ?ks sv)) = []"
    by (simp_all add: bm_keys_def)
  with untrack_all show "task_step\<^sup>*\<^sup>* sv (finish_tasks sv)" unfolding finish_tasks_def by (meson rtranclp_trans)
qed (simp add: finish_tasks_def)

lemma prompt_runtime_ok: "tokio_ok prompt_runtime"
  unfolding tokio_ok_def prompt_runtime_def by (simp add: finish_tasks_ok)

lemma lazy_runtime_ok: "tokio_ok lazy_runtime"
  unfolding tokio_ok_def lazy_runtime_def by (simp add: finish_tasks_ok)

lemma drain_reports_once_witness:
  "\<exists>error sv'. drain_failure lazy_runtime True busy_supervisor = Some (Some error, sv') \<and>
     pe_tag error = ''tokio-task.panicked'' \<and> sv_tracked sv' = []"
proof -
  have "cancellation_token busy_supervisor" "\<not> ss_drain_reported (sv_state busy_supervisor)" by code_simp+
  moreover have "terminal_failure (snd (the (drain_failure lazy_runtime True busy_supervisor))) \<noteq> None" by code_simp
  ultimately show ?thesis
    using drain_reports_once [OF lazy_runtime_ok busy_history] by fastforce
qed

section \<open>The plugin's shutdown\<close>

text \<open>Whatever its tasks did, the hooks \<open>quiesce\<close>, \<open>stop\<close> and \<open>dispose\<close> of an initialized plugin run in
  this order never unwind and leave no task behind: admission is closed, the token cancelled, and
  nothing is tracked. Only \<open>stop\<close> can report a failure, which it does exactly for a panicked task
  or an exceeded budget, and other supervisors are not touched.\<close>

lemma tokio_plugin_teardown:
  fixes p :: "('v, 'q) tokio_task_plugin"
  assumes "tokio_ok rt" and "tp_supervisor p = Some a" and "a < length (tw_supervisors w)" and "tw_current w"
    and "supervisor_history config (supervisor_at w a)" and "\<not> ss_drain_reported (sv_state (supervisor_at w a))"
  shows "\<exists>w1 r w2 w3 pending sv. run_plugin_hook (tokio_quiesce view) (p, w) = (Inr (), (p, w1)) \<and>
    run_plugin_hook (tokio_stop rt view) (p, w1) = (r, (p, w2)) \<and>
    run_plugin_hook (tokio_dispose rt view) (p, w2) = (Inr (), (p\<lparr>tp_supervisor := None\<rparr>, w3)) \<and>
    cancellation_token (supervisor_at w3 a) \<and> sv_tracked (supervisor_at w3 a) = [] \<and>
    drain rt (supervisor_at w1 a) = Some (pending, sv) \<and>
    (r = Inr () \<longleftrightarrow> terminal_failure (supervisor_at w2 a) = None \<and> pending = []) \<and>
    (\<forall>e. r = Inl e \<longrightarrow> pe_tag e =
       (if terminal_failure (supervisor_at w2 a) = None then ''tokio-task.drain-timeout'' else ''tokio-task.panicked'')) \<and>
    (\<forall>b. b \<noteq> a \<longrightarrow> supervisor_at w3 b = supervisor_at w b)"
proof -
  let ?sv = "quiesce (supervisor_at w a)"
  have h1: "supervisor_history config ?sv" using assms(5) step_quiesce by (rule history_step)
  have q1: "cancellation_token ?sv" "\<not> ss_drain_reported (sv_state ?sv)"
    using assms(6) by (simp_all add: cancellation_token_def supervisor_ops)
  obtain pending sv1 e sv2 where d2: "drain rt ?sv = Some (pending, sv1)" "drain_failure rt True ?sv = Some (e, sv2)"
    "supervisor_history config sv2" "ss_drain_reported (sv_state sv2)" "drain_outcome ?sv pending e sv2"
    by (rule drain_closes [OF assms(1) h1 q1(1)])
  have h3: "supervisor_history config (quiesce sv2)" using d2(3) step_quiesce by (rule history_step)
  have q3: "cancellation_token (quiesce sv2)" "ss_drain_reported (sv_state (quiesce sv2))"
    using d2(4) by (simp_all add: cancellation_token_def supervisor_ops)
  obtain pending3 e3 sv3 where d3: "drain_failure rt True (quiesce sv2) = Some (e3, sv3)"
    "cancellation_token sv3" "sv_tracked sv3 = []" "drain_outcome (quiesce sv2) pending3 e3 sv3"
    by (rule drain_closes [OF assms(1) h3 q3(1)])
  then have e3: "e3 = None" using q3(2) by (simp add: drain_outcome_def)
  define w1 w2 w3 where "w1 = set_supervisor a ?sv w" and "w2 = set_supervisor a sv2 w1"
    and "w3 = set_supervisor a sv3 (set_supervisor a (quiesce sv2) w2)"
  define r :: "plugin_error + unit" where "r = (case e of None \<Rightarrow> Inr () | Some error \<Rightarrow> Inl error)"
  have at: "supervisor_at w1 a = ?sv" "supervisor_at w2 a = sv2" "supervisor_at w3 a = sv3"
    "tw_current w1" "tw_current w2" "supervisor_at (set_supervisor a (quiesce sv2) w2) a = quiesce sv2"
    using assms(3,4) by (simp_all add: w1_def w2_def w3_def set_supervisor_def supervisor_at_def)
  have hooks: "run_plugin_hook (tokio_quiesce view) (p, w) = (Inr (), (p, w1))"
    "run_plugin_hook (tokio_stop rt view) (p, w1) = (r, (p, w2))"
    "run_plugin_hook (tokio_dispose rt view) (p, w2) = (Inr (), (p\<lparr>tp_supervisor := None\<rparr>, w3))"
    using d2(2) d3(1) at e3
    by (simp_all add: run_plugin_hook_def tokio_quiesce_def tokio_stop_def tokio_dispose_def ready_def drain_at_def
        drain_result_def assms(2) r_def w1_def w2_def w3_def set_supervisor_def)
  have others: "\<forall>b. b \<noteq> a \<longrightarrow> supervisor_at w3 b = supervisor_at w b"
    by (simp add: w1_def w2_def w3_def set_supervisor_def supervisor_at_def)
  have r: "r = Inr () \<longleftrightarrow> e = None" "\<And>x. r = Inl x \<longleftrightarrow> e = Some x"
    by (simp_all add: r_def split: option.split)
  show ?thesis
    using hooks others d2(1) d2(5) [unfolded drain_outcome_def] d3(2,3) q1(2)
    by (intro exI [of _ w1] exI [of _ r] exI [of _ w2] exI [of _ w3] exI [of _ pending] exI [of _ sv1] conjI)
      (simp_all add: at r)
qed

definition sample_tokio_plugin :: "(nat, nat) tokio_task_plugin" where
  "sample_tokio_plugin = projr (tokio_task_plugin_new (\<lambda>_. Inr 1) (\<lambda>_. Inr 1) \<lparr>max_tasks = 2, drain_timeout = 1\<rparr>)"

definition sample_view :: scope_view where
  "sample_view = (\<lparr>next_scope_namespace = 1, scope_counters = [], scope_inners = []\<rparr>, 0)"

definition sample_tokio_world :: tokio_world where
  "sample_tokio_world = \<lparr>tw_current = True, tw_timer = True, tw_supervisors = [busy_supervisor]\<rparr>"

lemma tokio_plugin_teardown_witness:
  "\<exists>w1 r w2 w3. run_plugin_hook (tokio_stop prompt_runtime sample_view) (sample_tokio_plugin\<lparr>tp_supervisor := Some 0\<rparr>, w1) =
       (r, (sample_tokio_plugin\<lparr>tp_supervisor := Some 0\<rparr>, w2)) \<and>
     run_plugin_hook (tokio_dispose prompt_runtime sample_view) (sample_tokio_plugin\<lparr>tp_supervisor := Some 0\<rparr>, w2) =
       (Inr (), (sample_tokio_plugin\<lparr>tp_supervisor := None\<rparr>, w3)) \<and>
     sv_tracked (supervisor_at w3 0) = []"
proof -
  let ?p = "sample_tokio_plugin\<lparr>tp_supervisor := Some 0\<rparr>" and ?config = "\<lparr>max_tasks = 2, drain_timeout = 1\<rparr>"
  have at: "supervisor_at sample_tokio_world 0 = busy_supervisor"
    by (simp add: supervisor_at_def sample_tokio_world_def)
  have "tp_supervisor ?p = Some 0" "0 < length (tw_supervisors sample_tokio_world)" "tw_current sample_tokio_world"
    by (simp_all add: sample_tokio_world_def)
  moreover have "supervisor_history ?config (supervisor_at sample_tokio_world 0)" unfolding at by (rule busy_history)
  moreover have "\<not> ss_drain_reported (sv_state (supervisor_at sample_tokio_world 0))" unfolding at by code_simp
  ultimately have "\<exists>w1 r w2 w3. run_plugin_hook (tokio_quiesce sample_view) (?p, sample_tokio_world) = (Inr (), (?p, w1)) \<and>
    run_plugin_hook (tokio_stop prompt_runtime sample_view) (?p, w1) = (r, (?p, w2)) \<and>
    run_plugin_hook (tokio_dispose prompt_runtime sample_view) (?p, w2) = (Inr (), (?p\<lparr>tp_supervisor := None\<rparr>, w3)) \<and>
    sv_tracked (supervisor_at w3 0) = []"
    using tokio_plugin_teardown [OF prompt_runtime_ok, of ?p 0 sample_tokio_world ?config sample_view] by blast
  then show ?thesis by auto
qed

end
