(* ===== verification/Lifecycle_Frame.thy ===== *)
theory Lifecycle_Frame
  imports Shutdown_Properties
begin

text \<open>
  A frame rule for the lifecycle of \<open>kernox-runtime/src/app.rs\<close>: a property of the running state
  that every hook and every observation keeps is kept by \<open>start\<close> and \<open>shutdown\<close>, on every path of
  their rollback and cleanup. The locale's assumptions are about single hooks; its lemmas carry
  them through the operations.
\<close>

section \<open>What every step of the lifecycle keeps\<close>

definition hook_outcome :: "plugin_error + 't \<Rightarrow> lifecycle_outcome" where
  "hook_outcome r = (case r of Inr _ \<Rightarrow> Succeeded | Inl e \<Rightarrow> Failed (safe_tag (pe_tag e)))"

definition unit_hook ::
  "('p, 'w, 'v, 'q, 'h) plugin_interface \<Rightarrow> lifecycle_phase \<Rightarrow> scope_view \<Rightarrow> ('p \<times> 'w, unit) hook" where
  "unit_hook iface ph view = (if ph = Start then pi_start iface view else cleanup_hook iface ph view)"

definition keeps :: "('s \<Rightarrow> bool) \<Rightarrow> ('s, 'e, 'a) action \<Rightarrow> bool" where
  "keeps P m \<longleftrightarrow> (\<forall>s. P s \<longrightarrow> P (snd (m s)))"

lemma keeps_return [intro]: "keeps P (return_action a)" "keeps P (fail_action e)"
  by (simp_all add: keeps_def)

lemma keeps_bind [intro]: "keeps P m \<Longrightarrow> (\<And>a. keeps P (k a)) \<Longrightarrow> keeps P (bind_action m k)"
proof (unfold keeps_def, intro allI impI)
  fix s assume m: "\<forall>s. P s \<longrightarrow> P (snd (m s))" and k: "\<And>a. \<forall>s. P s \<longrightarrow> P (snd (k a s))" and s: "P s"
  obtain r s' where r: "m s = (r, s')" by (cases "m s")
  with m s have "P s'" by (metis snd_conv)
  with r k show "P (snd (bind_action m k s))" by (cases r) (simp_all add: bind_action_def)
qed

lemma keeps_loop: "(\<And>x a. x \<in> set xs \<Longrightarrow> keeps P (body x a)) \<Longrightarrow> keeps P (loop_action body xs a)"
  by (induction xs arbitrary: a) auto

lemma keepsD: "keeps P m \<Longrightarrow> m s = (r, s') \<Longrightarrow> P s \<Longrightarrow> P s'"
  unfolding keeps_def by (metis snd_conv)

text \<open>Closing scopes does not touch their identities.\<close>

lemma update_inner_id:
  "(\<And>i. si_id (f i) = si_id i) \<Longrightarrow> si_id (inner (update_inner a f st) b) = si_id (inner st b)"
  by (cases "a < length (scope_inners st)"; cases "scope_inners st ! a"; cases "a = b")
    (auto simp: inner_def update_inner_def list_update_beyond)

lemma store_state_id: "si_id (inner (store_state a x st) b) = si_id (inner st b)"
  by (simp add: store_state_def update_inner_id)

lemma each_live_ids:
  assumes "\<And>c st st'. f c st = Some st' \<Longrightarrow> si_id (inner st' b) = si_id (inner st b)"
    and "each_live f cs st = Some st'"
  shows "si_id (inner st' b) = si_id (inner st b)"
  using assms(2)
proof (induction cs arbitrary: st)
  case (Cons c cs)
  then show ?case using assms(1) by (auto split: if_splits option.splits)
qed simp

lemma begin_close_ids: "begin_close fuel a st = Some st' \<Longrightarrow> si_id (inner st' b) = si_id (inner st b)"
proof (induction fuel arbitrary: a st st')
  case (Suc fuel)
  from Suc.prems show ?case
    by (auto simp: Let_def store_state_id split: if_splits)
      (metis each_live_ids [of "begin_close fuel" b] Suc.IH store_state_id)
qed simp

lemma finish_close_ids: "finish_close fuel a st = Some st' \<Longrightarrow> si_id (inner st' b) = si_id (inner st b)"
proof (induction fuel arbitrary: a st st')
  case (Suc fuel)
  from Suc.prems show ?case
    by (auto simp: Let_def store_state_id retain_others_def update_inner_id split: if_splits option.splits)
      (metis each_live_ids [of "finish_close fuel" b] Suc.IH)+
qed simp

text \<open>A property \<open>P\<close> of the running state that hooks and observations keep, where \<open>possible\<close> says which
  outcomes a hook can have in a phase.\<close>

definition after_hook ::
  "plugin_id \<Rightarrow> lifecycle_phase \<Rightarrow> 'p \<Rightarrow> 'w \<Rightarrow> ('p, 'w, 'v, 'h) app_state \<Rightarrow> ('p, 'w, 'v, 'h) app_state" where
  "after_hook p ph x w st = trace_append (HookRan p ph)
     (st\<lparr>st_plugins := bm_modify p (\<lambda>_. x) (st_plugins st), st_world := w\<rparr>)"

locale lifecycle_frame =
  fixes env :: "('p, 'w, 'v, 'q, 'h) runtime_env"
    and P :: "('p, 'w, 'v, 'h) app_state \<Rightarrow> bool"
    and possible :: "plugin_id \<Rightarrow> lifecycle_phase \<Rightarrow> lifecycle_outcome \<Rightarrow> bool"
  assumes hook_keeps: "P st \<Longrightarrow> bm_get (st_plugins st) p = Some x \<Longrightarrow> ph \<noteq> Initialize \<Longrightarrow>
      run_plugin_hook (unit_hook (env_interface env) ph view) (x, st_world st) = (r, x', w') \<Longrightarrow>
      P (after_hook p ph x' w' st) \<and> possible p ph (hook_outcome r)"
    and initialize_keeps: "P st \<Longrightarrow> bm_get (st_plugins st) p = Some x \<Longrightarrow>
      run_plugin_hook (pi_initialize (env_interface env) context view) (x, st_world st) = (result', x', w') \<Longrightarrow>
      P (after_hook p Initialize x' w' st)"
    and initialize_possible: "P st \<Longrightarrow> bm_get (st_plugins st) p = Some x \<Longrightarrow>
      run_plugin_hook (pi_initialize (env_interface env) context view) (x, st_world st) = (Inl e, x', w') \<Longrightarrow>
      possible p Initialize (Failed (safe_tag (pe_tag e)))"
    and commit_possible: "P st \<Longrightarrow> bm_get (st_plugins st) p = Some x \<Longrightarrow>
      run_plugin_hook (pi_initialize (env_interface env) context view) (x, st_world st) = (Inr staged, x', w') \<Longrightarrow>
      graph_plugin (env_graph env) p = Some d \<Longrightarrow> commit p d staged registry = (c, registry') \<Longrightarrow>
      possible p Initialize (case c of Inr _ \<Rightarrow> Succeeded | Inl e' \<Rightarrow> Failed (provision_error_tag e'))"
    and observe_keeps: "P st \<Longrightarrow> possible p ph out \<Longrightarrow> P (observe env p ph out t0 st)"
    and clear_keeps: "P st \<Longrightarrow> P (st\<lparr>st_registry := []\<rparr>)"
    and commit_keeps: "P st \<Longrightarrow>
      run_plugin_hook (pi_initialize (env_interface env) context view) (x, w) = (Inr staged, x', w') \<Longrightarrow>
      commit p d staged (st_registry st) = (c, registry') \<Longrightarrow> P (st\<lparr>st_registry := registry'\<rparr>)"
    and terminal_keeps: "P (st\<lparr>st_terminal := report'\<rparr>) \<longleftrightarrow> P st"
    and scopes_keep: "view_id scopes' (env_scope env) = view_id (st_scopes st) (env_scope env) \<Longrightarrow>
      P (st\<lparr>st_scopes := scopes'\<rparr>) \<longleftrightarrow> P st"
begin

lemma scope_closing_keeps:
  "keeps P (begin_scope_close env :: _ \<Rightarrow> ('e fault + _) \<times> _)"
  "keeps P (finish_scope_close env :: _ \<Rightarrow> ('e fault + _) \<times> _)"
  by (auto simp: keeps_def begin_scope_close_def finish_scope_close_def scopes_keep view_id_def
      begin_close_ids finish_close_ids split: option.splits)

lemma plugin_mut_unit:
  assumes "P st" and "ph \<noteq> Initialize"
    and "plugin_mut p ph (unit_hook (env_interface env) ph view) st = (Inr r :: 'e fault + _, st')"
  shows "P st'" and "possible p ph (hook_outcome r)"
  using assms hook_keeps [OF assms(1) _ assms(2), of p _ view]
  by (auto simp: plugin_mut_def after_hook_def split: option.splits prod.splits)

lemma cleanup_one_keeps:
  assumes "ph \<in> {Quiesce, Stop, Dispose}"
  shows "keeps P (cleanup_one env ph p fs :: _ \<Rightarrow> ('e fault + _) \<times> _)"
proof -
  have "P (snd (run_cleanup_hook env p ph st :: ('e fault + _) \<times> _))" if st: "P st" for st
  proof -
    have hook: "cleanup_hook (env_interface env) ph = unit_hook (env_interface env) ph" "ph \<noteq> Initialize"
      using assms by (auto simp: unit_hook_def)
    obtain m st1 where m: "plugin_mut p ph (unit_hook (env_interface env) ph (st_scopes st, env_scope env)) st =
        (m :: 'e fault + _, st1)" by fastforce
    show ?thesis
    proof (cases m)
      case (Inl f)
      with m have "st1 = st" by (auto simp: plugin_mut_def split: option.splits prod.splits)
      with st m Inl show ?thesis by (simp add: run_cleanup_hook_def Let_def hook bind_action_def)
    next
      case (Inr r)
      note kept = plugin_mut_unit [OF st hook(2) m [unfolded Inr]]
      from kept(1) observe_keeps [OF kept] m Inr show ?thesis
        by (cases r) (simp_all add: run_cleanup_hook_def Let_def hook bind_action_def hook_outcome_def)
    qed
  qed
  then have "keeps P (run_cleanup_hook env p ph :: _ \<Rightarrow> ('e fault + _) \<times> _)" by (simp add: keeps_def)
  then show ?thesis unfolding cleanup_one_def by blast
qed

lemma cleanup_loop_keeps:
  assumes "set phases \<subseteq> {Quiesce, Stop, Dispose}"
  shows "keeps P (loop_action (\<lambda>ph. loop_action (cleanup_one env ph) ps) phases fs :: _ \<Rightarrow> ('e fault + _) \<times> _)"
  using assms by (intro keeps_loop cleanup_one_keeps) auto

lemma rollback_keeps:
  "keeps P (rollback_dispose env ps :: _ \<Rightarrow> ('e fault + _) \<times> _)"
  "keeps P (rollback_start env affected ps :: _ \<Rightarrow> ('e fault + _) \<times> _)"
  unfolding rollback_dispose_def rollback_start_def cleanup_def
  by (intro keeps_bind keeps_return scope_closing_keeps cleanup_loop_keeps; simp)+

lemma rollback_initialize_keeps:
  assumes "P st" and "possible p Initialize (Failed tag)"
  shows "P (snd (rollback_initialize env p t0 tag primary initialized st :: (_ + 'x) \<times> _))"
proof -
  have "P (observe env p Initialize (Failed tag) t0 st)" by (rule observe_keeps [OF assms])
  moreover have "keeps P (bind_action (rollback_dispose env (initialized @ [p])) (\<lambda>fs.
      fail_action (Err \<lparr>lf_primary = primary, lf_cleanup_failures = fs\<rparr>)) :: _ \<Rightarrow> (_ + 'x) \<times> _)"
    by (intro keeps_bind keeps_return rollback_keeps)
  ultimately show ?thesis by (simp add: rollback_initialize_def observe_failure_def keeps_def)
qed

lemma initialize_one_keeps: "keeps P (initialize_one env p initialized)"
proof (unfold keeps_def, intro allI impI)
  fix st assume st: "P st"
  let ?hook = "pi_initialize (env_interface env) (initialize_context env p st) (st_scopes st, env_scope env)"
  show "P (snd (initialize_one env p initialized st))"
  proof (cases "bm_get (st_plugins st) p")
    case None
    with st show ?thesis by (simp add: initialize_one_def Let_def plugin_mut_def bind_action_def)
  next
    case (Some x)
    obtain r x' w' where run: "run_plugin_hook ?hook (x, st_world st) = (r, x', w')" by (cases "run_plugin_hook ?hook (x, st_world st)") auto
    let ?st1 = "after_hook p Initialize x' w' st"
    have st1: "P ?st1" by (rule initialize_keeps [OF st Some run])
    have step: "plugin_mut p Initialize ?hook st = (Inr r :: lifecycle_failure fault + _, ?st1)"
      by (simp add: plugin_mut_def Some run after_hook_def)
    show ?thesis
    proof (cases r)
      case (Inl e)
      with rollback_initialize_keeps [OF st1 initialize_possible [OF st Some run [unfolded Inl]]] step
      show ?thesis by (simp add: initialize_one_def Let_def bind_action_def)
    next
      case (Inr staged)
      show ?thesis
      proof (cases "graph_plugin (env_graph env) p")
        case None
        with st1 step Inr show ?thesis by (simp add: initialize_one_def Let_def bind_action_def)
      next
        case (Some d)
        obtain c registry' where c: "commit p d staged (st_registry ?st1) = (c, registry')" by fastforce
        note poss = commit_possible [OF st \<open>bm_get (st_plugins st) p = Some x\<close> run [unfolded Inr] Some c]
        have st2: "P (?st1\<lparr>st_registry := registry'\<rparr>)" by (rule commit_keeps [OF st1 run [unfolded Inr] c])
        show ?thesis
        proof (cases c)
          case (Inl e)
          with rollback_initialize_keeps [OF st2, of p "provision_error_tag e"] poss step c Inr Some
          show ?thesis by (simp add: initialize_one_def Let_def bind_action_def commit_staged_def)
        next
          case (Inr u)
          with observe_keeps [OF st2, of p Initialize Succeeded] poss step c \<open>r = Inr staged\<close> Some
          show ?thesis by (simp add: initialize_one_def Let_def bind_action_def commit_staged_def observe_success_def)
        qed
      qed
    qed
  qed
qed

lemma start_one_keeps: "keeps P (start_one env p started initialized)"
proof (unfold keeps_def, intro allI impI)
  fix st assume st: "P st"
  have hook: "pi_start (env_interface env) = unit_hook (env_interface env) Start"
    by (rule ext) (simp add: unit_hook_def)
  obtain m st1 where m: "plugin_mut p Start (unit_hook (env_interface env) Start (st_scopes st, env_scope env)) st =
      (m :: lifecycle_failure fault + _, st1)" by fastforce
  show "P (snd (start_one env p started initialized st))"
  proof (cases m)
    case (Inl f)
    with m have "st1 = st" by (auto simp: plugin_mut_def split: option.splits prod.splits)
    with st m Inl show ?thesis by (simp add: start_one_def Let_def hook bind_action_def)
  next
    case (Inr r)
    note kept = plugin_mut_unit [OF st _ m [unfolded Inr]]
    have "P (observe env p Start (hook_outcome r) t0 st1)" for t0 by (rule observe_keeps) (use kept in simp_all)
    moreover have "keeps P (bind_action (rollback_start env (started @ [p]) initialized) (\<lambda>fs.
        fail_action (Err \<lparr>lf_primary = f, lf_cleanup_failures = fs\<rparr>)) :: _ \<Rightarrow> (_ + unit) \<times> _)" for f
      by (intro keeps_bind keeps_return rollback_keeps)
    ultimately show ?thesis using m Inr
      by (cases r) (simp_all add: start_one_def Let_def hook bind_action_def hook_outcome_def observe_success_def
          observe_failure_def keeps_def)
  qed
qed

lemma start_keeps: "start env st = (r, st') \<Longrightarrow> P st \<Longrightarrow> P st'"
proof -
  have modify: "keeps P (modify_action (\<lambda>st. st\<lparr>st_registry := []\<rparr>))"
    "keeps P (modify_action (\<lambda>st. st\<lparr>st_terminal := None\<rparr>))"
    by (simp_all add: keeps_def clear_keeps terminal_keeps)
  have "keeps P (start env)"
    unfolding start_def initialize_all_def start_all_def Let_def
    by (intro keeps_bind keeps_loop keeps_return modify initialize_one_keeps start_one_keeps)
  then show "start env st = (r, st') \<Longrightarrow> P st \<Longrightarrow> P st'" by (rule keepsD)
qed

lemma shutdown_keeps: "shutdown env st = (r :: 'e fault + _, st') \<Longrightarrow> P st \<Longrightarrow> P st'"
proof -
  have modify: "keeps P (modify_action (\<lambda>st. st\<lparr>st_terminal := t\<rparr>))" for t
    by (simp add: keeps_def terminal_keeps)
  have "keeps P (shutdown env :: _ \<Rightarrow> ('e fault + _) \<times> _)"
  proof (unfold keeps_def, intro allI impI)
    fix st assume "P st"
    moreover have "keeps P (bind_action (begin_scope_close env) (\<lambda>_.
          bind_action (loop_action (\<lambda>phase. loop_action (cleanup_one env phase)
              (rev (rg_startup_order (env_graph env)))) [Quiesce, Stop, Dispose] []) (\<lambda>failures.
          bind_action (finish_scope_close env) (\<lambda>_.
          bind_action (modify_action (\<lambda>st. st\<lparr>st_terminal := Some \<lparr>sr_failures = failures\<rparr>\<rparr>)) (\<lambda>_.
          return_action \<lparr>sr_failures = failures\<rparr>)))) :: _ \<Rightarrow> ('e fault + _) \<times> _)"
      by (intro keeps_bind keeps_return scope_closing_keeps modify cleanup_loop_keeps) simp
    ultimately show "P (snd (shutdown env st :: ('e fault + _) \<times> _))"
      by (cases "st_terminal st") (simp_all add: shutdown_def keeps_def)
  qed
  then show "shutdown env st = (r :: 'e fault + _, st') \<Longrightarrow> P st \<Longrightarrow> P st'" by (rule keepsD)
qed

end

end
