(* ===== verification/Registry_Types.thy ===== *)
theory Registry_Types
  imports Lifecycle_Frame
begin

text \<open>
  Type safety of the type-erased registry (\<open>kernox-runtime/src/capability.rs\<close>) across a whole start:
  \<open>Box<dyn Any>\<close> forgets the type of a handle, and \<open>downcast_ref\<close> has to find it again. A provision
  set that is filled by \<open>ProvisionSet::provide\<close> keeps every handle under the marker of its type, and
  so does everything that happens between initialization and shutdown.
\<close>

definition typed_entries :: "(type_id \<Rightarrow> type_id) \<Rightarrow> ('k, ('v, 'h) provision) btree_map \<Rightarrow> bool" where
  "typed_entries iface m \<longleftrightarrow> (\<forall>e \<in> set m. typed_provision iface (snd e))"

definition provides_typed :: "(type_id \<Rightarrow> type_id) \<Rightarrow> ('p, 'w, 'v, 'q, 'h) plugin_interface \<Rightarrow> bool" where
  "provides_typed iface plugins \<longleftrightarrow> (\<forall>ctx view s staged s'.
     run_plugin_hook (pi_initialize plugins ctx view) s = (Inr staged, s') \<longrightarrow> typed_entries iface staged)"

lemma typed_entries_Nil [simp]: "typed_entries iface []"
  by (simp add: typed_entries_def)

lemma typed_entries_Cons [simp]:
  "typed_entries iface (e # m) \<longleftrightarrow> typed_provision iface (snd e) \<and> typed_entries iface m"
  by (simp add: typed_entries_def)

lemma typed_entries_insert:
  "typed_entries iface m \<Longrightarrow> typed_provision iface s \<Longrightarrow> typed_entries iface (bm_insert k s m)"
  using set_bm_insert_subset [of k s m] by (auto simp: typed_entries_def)

lemma typed_entries_lookup: "typed_entries iface m \<Longrightarrow> bm_get m k = Some s \<Longrightarrow> typed_provision iface s"
  by (fastforce simp: typed_entries_def bm_get_def dest: map_of_SomeD)

text \<open>\<open>provide\<close> is the only way to fill a provision set.\<close>

lemma provide_typed:
  assumes "typed_marker iface C" and "typed_entries iface staged"
    and "provision_set_provide parse_version C h staged = Inr staged'"
  shows "typed_entries iface staged'"
  using assms(3)
proof (rule provision_set_provide_ok)
  fix k assume "contract_of parse_version C = Inr k" and staged': "staged' = bm_insert (cc_id k)
      \<lparr>pv_contract = k, pv_value = \<lparr>any_type = cm_interface C, any_handle = h\<rparr>\<rparr> staged"
  with assms(1) have "typed_provision iface \<lparr>pv_contract = k, pv_value = \<lparr>any_type = cm_interface C, any_handle = h\<rparr>\<rparr>"
    by (simp add: typed_provision_def typed_marker_def contract_of_marker)
  with assms(2) show ?thesis by (simp add: staged' typed_entries_insert)
qed

lemma commit_typed:
  assumes "typed_entries iface staged" and "typed_entries iface reg" and "commit p d staged reg = (c, reg')"
  shows "typed_entries iface reg'"
proof -
  have "typed_entries iface (fold (\<lambda>(c, s). bm_insert (p, c) s) staged reg)"
    using assms(1,2)
  proof (induction staged arbitrary: reg)
    case (Cons e staged)
    then show ?case by (simp add: case_prod_unfold typed_entries_insert)
  qed simp
  with assms(2,3) show ?thesis by (auto simp: commit_def split: sum.splits)
qed

lemma observe_registry [simp]: "st_registry (observe env p ph out t0 st) = st_registry st"
  by (simp add: observe_def emit_observation_def trace_append_def Let_def split: prod.splits option.splits)

lemma typed_frame:
  fixes env :: "('p, 'w, 'v, 'q, 'h) runtime_env"
  assumes "provides_typed iface (env_interface env)"
  shows "lifecycle_frame env (\<lambda>st. typed_entries iface (st_registry st)) (\<lambda>_ _ _. True)"
proof
  fix st :: "('p, 'w, 'v, 'h) app_state" and ctx view x w staged x' w' p d c registry'
  assume "typed_entries iface (st_registry st)"
    and "run_plugin_hook (pi_initialize (env_interface env) ctx view) (x, w) = (Inr staged, x', w')"
    and "commit p d staged (st_registry st) = (c, registry')"
  with assms show "typed_entries iface (st_registry (st\<lparr>st_registry := registry'\<rparr>))"
    using commit_typed unfolding provides_typed_def by fastforce
qed (simp_all add: after_hook_def trace_append_def)

text \<open>C34: when every plugin fills its provision sets through \<open>provide\<close>, then after \<open>start\<close>, whether it
  succeeds or rolls back, every published handle still has the interface type of the marker it was
  published under, and shutdown does not change this. A typed lookup in the application gives
  exactly the handle published under the same marker, and reports a type mismatch only for a
  provision that really is another marker's, never because a downcast failed.\<close>

theorem published_handles_typed:
  assumes "provides_typed iface (env_interface env)" and "typed_entries iface (st_registry st)"
    and "start env st = (r, st1)" and "shutdown env st1 = (r2 :: 'e fault + _, st2)" and "typed_marker iface C"
  shows "typed_entries iface (st_registry st1) \<and> typed_entries iface (st_registry st2) \<and>
    (\<forall>h. capability_from parse_version env C p st1 = Inr h \<longrightarrow>
       (\<exists>c s. bm_get (st_registry st1) (p, c) = Some s \<and> cc_marker_type (pv_contract s) = cm_type C \<and>
          h = any_handle (pv_value s))) \<and>
    (\<forall>c m n. capability_from parse_version env C p st1 = Inl (AccessTypeMismatch p c m n) \<longrightarrow>
       (\<exists>s. bm_get (st_registry st1) (p, c) = Some s \<and> cc_marker_type (pv_contract s) \<noteq> cm_type C))"
proof (intro conjI allI impI)
  note frame = typed_frame [OF assms(1)]
  show st1: "typed_entries iface (st_registry st1)" by (rule lifecycle_frame.start_keeps [OF frame assms(3,2)])
  show "typed_entries iface (st_registry st2)" by (rule lifecycle_frame.shutdown_keeps [OF frame assms(4) st1])
  have lookup: "\<exists>k s. registry_get C (st_registry st1) p k = r \<and> bm_get (st_registry st1) (p, cc_id k) = Some s \<and>
      r = (if cc_marker_type (pv_contract s) = cm_type C then Inr (any_handle (pv_value s))
           else Inl (AccessTypeMismatch p (cc_id k) (cm_name C) (cc_marker_name (pv_contract s))))"
    if "capability_from parse_version env C p st1 = r" and "r \<in> range Inr \<or> r \<in> {Inl (AccessTypeMismatch p c m n) |c m n. True}"
    for r
  proof -
    from that obtain k where k: "contract_of parse_version C = Inr k"
      and get: "registry_get C (st_registry st1) p k = r"
      by (cases "contract_of parse_version C")
        (auto simp: capability_from_def root_capability_def map_err_def split: if_splits)
    with that(2) obtain s where s: "bm_get (st_registry st1) (p, cc_id k) = Some s"
      by (auto simp: registry_get_def split: option.splits)
    with registry_get_typed [OF assms(5) k s typed_entries_lookup [OF st1 s]] get show ?thesis by auto
  qed
  show "\<exists>c s. bm_get (st_registry st1) (p, c) = Some s \<and> cc_marker_type (pv_contract s) = cm_type C \<and>
      h = any_handle (pv_value s)" if "capability_from parse_version env C p st1 = Inr h" for h
    using lookup [OF that] by (auto split: if_splits)
  show "\<exists>s. bm_get (st_registry st1) (p, c) = Some s \<and> cc_marker_type (pv_contract s) \<noteq> cm_type C"
    if "capability_from parse_version env C p st1 = Inl (AccessTypeMismatch p c m n)" for c m n
    using lookup [OF that] by (auto split: if_splits)
qed

text \<open>The sample plugins publish clocks; the interface of every marker has the type 70.\<close>

lemma sample_provides_typed: "provides_typed (\<lambda>_. 70) sample_interface"
proof -
  have "typed_entries (\<lambda>_. 70) (fold (\<lambda>ofr. bm_insert (offer_id ofr) (clock_provision (f ofr) h)) ofrs m)"
    if "typed_entries (\<lambda>_. 70) m" for m :: "(nat, str) provision_set" and f h and ofrs :: "nat capability_offer list"
    using that by (induction ofrs arbitrary: m)
      (simp_all add: typed_entries_insert typed_provision_def clock_provision_def)
  then show ?thesis
    by (auto simp: provides_typed_def sample_interface_def run_plugin_hook_def sample_hook_def sample_provisions_def
        split: if_splits)
qed

lemma published_handles_typed_witness:
  "typed_entries (\<lambda>_. 70) (st_registry (snd (start (sample_env []) (sample_state [])))) \<and>
   st_registry (snd (start (sample_env []) (sample_state []))) \<noteq> []"
proof -
  obtain r st2 where run: "shutdown (sample_env []) (snd (start (sample_env []) (sample_state []))) = (r :: unit fault + _, st2)"
    by fastforce
  have "typed_entries (\<lambda>_. 70) (st_registry (snd (start (sample_env []) (sample_state []))))"
    using published_handles_typed [of "\<lambda>_. 70" "sample_env []" "sample_state []" "Inr ()" _ r st2 clock_marker sample_parse
      undefined, OF _ _ sample_starts run] sample_provides_typed
    by (simp add: sample_env_interface sample_state_def app_state_of_def typed_marker_def clock_marker_def)
  moreover have "st_registry (snd (start (sample_env []) (sample_state []))) \<noteq> []" by code_simp
  ultimately show ?thesis by simp
qed

end
