(* ===== verification/Testkit.thy ===== *)
theory Testkit
  imports Attribution Shutdown_Properties
begin

text \<open>
  \<open>kernox-testkit/src/lib.rs\<close> and \<open>conformance.rs\<close>: the recording observation sink, the probe
  plugin with its failure plan, and the conformance oracle that runs an application through its
  whole lifecycle. The recorder is shared behind an \<open>Arc\<close> between the application and the test, so
  its events live in the world, next to whatever else is outside Kernox.
\<close>

section \<open>The recorder\<close>

record recorded_lifecycle =
  rl_plugin :: plugin_id
  rl_scope :: scope_id
  rl_phase :: lifecycle_phase
  rl_outcome :: lifecycle_outcome

type_synonym lifecycle_recorder = "recorded_lifecycle list"

definition recorder_default :: lifecycle_recorder where
  "recorder_default = []"

definition recorder_snapshot :: "lifecycle_recorder \<Rightarrow> recorded_lifecycle list" where
  "recorder_snapshot events = events"

definition recorder_clear :: "lifecycle_recorder \<Rightarrow> lifecycle_recorder" where
  "recorder_clear events = []"

definition recorder_record :: "lifecycle_observation \<Rightarrow> lifecycle_recorder \<Rightarrow> lifecycle_recorder" where
  "recorder_record observation events = events @
     [\<lparr>rl_plugin = ob_plugin observation, rl_scope = ob_scope observation,
       rl_phase = ob_phase observation, rl_outcome = ob_outcome observation\<rparr>]"

definition recorder_sink :: "(lifecycle_recorder \<times> 'w) observation_sink" where
  \<comment> \<open>\<open>impl ObservationSink for LifecycleRecorder\<close>\<close>
  "recorder_sink observation = (\<lambda>(events, w). (False, (recorder_record observation events, w)))"

section \<open>Probe plugins\<close>

record injected_failure =
  if_tag :: str
  if_message :: utext

definition into_error :: "injected_failure \<Rightarrow> plugin_error" where
  "into_error self = \<lparr>pe_tag = if_tag self, pe_message = if_message self\<rparr>"

record failure_plan =
  fp_initialize :: "injected_failure option"
  fp_start :: "injected_failure option"
  fp_quiesce :: "injected_failure option"
  fp_stop :: "injected_failure option"
  fp_dispose :: "injected_failure option"

definition failure_plan_default :: failure_plan where
  "failure_plan_default = \<lparr>fp_initialize = None, fp_start = None, fp_quiesce = None, fp_stop = None,
     fp_dispose = None\<rparr>"

record ('v, 'q) probe_plugin =
  pp_descriptor :: "('v, 'q) plugin_descriptor"
  pp_failures :: failure_plan

definition probe_new :: "('v, 'q) plugin_descriptor \<Rightarrow> ('v, 'q) probe_plugin" where
  "probe_new descriptor = \<lparr>pp_descriptor = descriptor, pp_failures =
     \<lparr>fp_initialize = None, fp_start = None, fp_quiesce = None, fp_stop = None, fp_dispose = None\<rparr>\<rparr>"

definition probe_with_failures :: "failure_plan \<Rightarrow> ('v, 'q) probe_plugin \<Rightarrow> ('v, 'q) probe_plugin" where
  "probe_with_failures failures self = self\<lparr>pp_failures := failures\<rparr>"

definition probe_result :: "'t \<Rightarrow> injected_failure option \<Rightarrow> ('s, 't) future option" where
  \<comment> \<open>\<open>Box::pin(async move { failure.map_or_else(...) })\<close>\<close>
  "probe_result ok failure =
     Some (\<lambda>s. (Some (case failure of None \<Rightarrow> Inr ok | Some failure \<Rightarrow> Inl (into_error failure)), s))"

definition probe_initialize ::
  "('v, 'q, 'h) initialization_context \<Rightarrow> scope_view \<Rightarrow> (('v, 'q) probe_plugin \<times> 'w, ('v, 'h) provision_set) hook" where
  "probe_initialize context view = (\<lambda>(self, w).
     (probe_result [] (fp_initialize (pp_failures self)), (self, w)))"

definition probe_hook ::
  "(failure_plan \<Rightarrow> injected_failure option) \<Rightarrow> scope_view \<Rightarrow> (('v, 'q) probe_plugin \<times> 'w, unit) hook" where
  \<comment> \<open>\<open>hook(self.failures.<phase>)\<close>\<close>
  "probe_hook planned view = (\<lambda>(self, w). (probe_result () (planned (pp_failures self)), (self, w)))"

definition probe_interface :: "(('v, 'q) probe_plugin, 'w, 'v, 'q, 'h) plugin_interface" where
  "probe_interface =
     \<lparr>pi_descriptor = pp_descriptor, pi_host_requirements = (\<lambda>_. []),
      pi_initialize = probe_initialize, pi_start = probe_hook fp_start, pi_quiesce = probe_hook fp_quiesce,
      pi_stop = probe_hook fp_stop, pi_dispose = probe_hook fp_dispose\<rparr>"

section \<open>The conformance oracle\<close>

record conformance_report =
  cr_plugin_count :: nat
  cr_source_packages :: "utext list"
  cr_startup_order :: "plugin_id list"
  cr_teardown_order :: "plugin_id list"

datatype conformance_error =
    AttributionFailed attribution_error
  | LifecycleFailed lifecycle_failure
  | ShutdownFailed nat "failure_record list"      \<comment> \<open>count, failures\<close>

fun conformance_error_tag :: "conformance_error \<Rightarrow> str" where
  "conformance_error_tag (AttributionFailed error) = attribution_error_tag error"
| "conformance_error_tag (LifecycleFailed _) = ''conformance.lifecycle-failed''"
| "conformance_error_tag (ShutdownFailed _ _) = ''conformance.shutdown-failed''"

definition map_err_action :: "('e \<Rightarrow> 'f) \<Rightarrow> ('s, 'e, 'a) action \<Rightarrow> ('s, 'f, 'a) action" where
  "map_err_action f m s = (case m s of (r, s') \<Rightarrow> (map_err f r, s'))"

definition verify_application ::
  "('p, 'w, 'v, 'q, 'h) runtime_env
     \<Rightarrow> (('p, 'w, 'v, 'h) app_state, conformance_error fault, conformance_report) action" where
  "verify_application env =
     (case verify_graph_attribution (env_graph env) of
        Inl error \<Rightarrow> fail_action (Err (AttributionFailed error))
      | Inr attribution \<Rightarrow>
          let startup_order = rg_startup_order (env_graph env);
              teardown = teardown_order (env_graph env)
          in bind_action (map_err_action (map_fault LifecycleFailed) (start env)) (\<lambda>_.
             bind_action (shutdown env) (\<lambda>report.
             if \<not> is_clean report then
               fail_action (Err (ShutdownFailed (length (sr_failures report)) (sr_failures report)))
             else
               return_action \<lparr>cr_plugin_count = att_plugin_count attribution,
                 cr_source_packages = att_source_packages attribution, cr_startup_order = startup_order,
                 cr_teardown_order = teardown\<rparr>)))"

end
