(* ===== verification/Testkit_Properties.thy ===== *)
theory Testkit_Properties
  imports Testkit Lifecycle_Frame
begin

text \<open>
  What the test kit establishes: exactly which applications pass the conformance oracle, that the
  recorder sees the lifecycle and nothing else, and that an application of probes fails exactly
  where a failure is planned.
\<close>

section \<open>The oracle\<close>

definition full_lifecycle :: "plugin_id list \<Rightarrow> (plugin_id \<times> lifecycle_phase) list" where
  \<comment> \<open>initialize and start in startup order, then quiesce, stop and dispose in the reverse order\<close>
  "full_lifecycle order = in_phase Initialize order @ in_phase Start order @
     concat (map (\<lambda>ph. in_phase ph (rev order)) [Quiesce, Stop, Dispose])"

definition conformance_of :: "('v, 'q) resolved_graph \<Rightarrow> conformance_report" where
  "conformance_of g = \<lparr>cr_plugin_count = length (rg_plugins g),
     cr_source_packages = map (the \<circ> package_of) (bm_values (rg_plugins g)),
     cr_startup_order = rg_startup_order g, cr_teardown_order = rev (rg_startup_order g)\<rparr>"

lemma verify_graph_attribution_cases:
  "\<not> attributed g \<and> (\<exists>e. verify_graph_attribution g = Inl e) \<or>
   attributed g \<and> verify_graph_attribution g = Inr \<lparr>att_plugin_count = length (rg_plugins g),
          att_source_packages = map (the \<circ> package_of) (bm_values (rg_plugins g))\<rparr>"
  using verify_graph_attribution_ok [of g] by (cases "verify_graph_attribution g") blast+

lemma start_terminal: "start env st = (Inr u, st') \<Longrightarrow> st_terminal st' = None"
  by (auto simp: start_def Let_def bind_action_eq_Inr_iff)

lemma verify_application_attributed:
  assumes "attributed (env_graph env)"
  shows "verify_application env st =
     (case start env st of
        (Inl f, st1) \<Rightarrow> (Inl (map_fault LifecycleFailed f), st1)
      | (Inr _, st1) \<Rightarrow> bind_action (shutdown env) (\<lambda>report.
          if sr_failures report \<noteq> [] then
            fail_action (Err (ShutdownFailed (length (sr_failures report)) (sr_failures report)))
          else return_action (conformance_of (env_graph env))) st1)"
  using verify_graph_attribution_cases [of "env_graph env"] assms
  by (auto simp: verify_application_def Let_def bind_action_def map_err_action_def map_err_def is_clean_def
      conformance_of_def teardown_order_def split: prod.splits sum.splits)

lemma verify_application_cases:
  assumes ok: "app_ok env st"
  defines "g \<equiv> env_graph env"
  obtains (unattributed) e where "\<not> attributed g" and "verify_graph_attribution g = Inl e"
      and "verify_application env st = (Inl (Err (AttributionFailed e)), st)"
    | (start_failed) lf st' hs where "attributed g" and "start env st = (Inl (Err lf), st')"
      and "verify_application env st = (Inl (Err (LifecycleFailed lf)), st')"
      and "runs env st st' hs (failed_as lf)" and "app_state_scope env st' = Closed"
    | (shut_down) fs st1 st' where "attributed g" and "start env st = (Inr (), st1)"
      and "shutdown env st1 = (Inr \<lparr>sr_failures = fs\<rparr> :: conformance_error fault + _, st')"
      and "verify_application env st = (if fs \<noteq> [] then Inl (Err (ShutdownFailed (length fs) fs))
        else Inr (conformance_of g), st')"
      and "runs env st st' (full_lifecycle (rg_startup_order g)) fs" and "app_state_scope env st' = Closed"
proof (cases "attributed g")
  case False
  then obtain e where "verify_graph_attribution g = Inl e" using verify_graph_attribution_cases [of g] by blast
  with False show thesis using unattributed by (simp add: verify_application_def g_def)
next
  case True
  note run = verify_application_attributed [OF True [unfolded g_def], of st]
  from start_cases [OF ok] show thesis
  proof (elim disjE exE conjE)
    fix st1 assume 1: "start env st = (Inr (), st1)"
      "runs env st st1 (in_phase Initialize (rg_startup_order (env_graph env)) @
        in_phase Start (rg_startup_order (env_graph env))) []"
    obtain fs st2 where 2: "shutdown env st1 = (Inr \<lparr>sr_failures = fs\<rparr> :: conformance_error fault + _, st2)"
      "runs env st1 st2 (concat (map (\<lambda>ph. in_phase ph (rev (rg_startup_order (env_graph env)))) [Quiesce, Stop, Dispose])) fs"
      "st_terminal st2 = Some \<lparr>sr_failures = fs\<rparr>" "app_state_scope env st2 = Closed"
      by (rule shutdown_ok [OF runs_ok [OF 1(2)] start_terminal [OF 1(1)]])
    show thesis
      using shut_down [OF True 1(1) 2(1)] runs_trans [OF 1(2) 2(2)] 2(4)
      by (simp add: run 1(1) bind_action_def 2(1) g_def full_lifecycle_def)
  qed (use start_failed True run in \<open>auto simp: g_def\<close>)
qed

lemma failed_as_not_Nil: "failed_as lf \<noteq> []"
  by (simp add: failed_as_def)

text \<open>C26: the conformance oracle never panics; it passes exactly the applications whose graph is
  attributed and whose whole lifecycle is observed without a failure. A passing run initialized and
  started every plugin in startup order, quiesced, stopped and disposed of every one in the reverse
  order, and reports the graph; a failing one reports exactly the failures that were observed. Once
  the lifecycle has begun, the application scope is closed at the end.\<close>

theorem verify_application_iff:
  assumes ok: "app_ok env st"
  defines "g \<equiv> env_graph env"
  shows "\<exists>r st' t. verify_application env st = (r, st') \<and> r \<noteq> Inl Panic \<and> st_trace st' = st_trace st @ t \<and>
    ((\<exists>c. r = Inr c) \<longleftrightarrow> attributed g \<and> failed_observations t = []) \<and>
    (\<forall>c. r = Inr c \<longrightarrow> c = conformance_of g \<and> hooks t = full_lifecycle (rg_startup_order g)) \<and>
    (\<forall>e. r = Inl (Err (AttributionFailed e)) \<longrightarrow> verify_graph_attribution g = Inl e \<and> st' = st) \<and>
    (\<forall>lf. r = Inl (Err (LifecycleFailed lf)) \<longrightarrow>
       failed_observations t = map failure_key (lf_primary lf # lf_cleanup_failures lf)) \<and>
    (\<forall>n fs. r = Inl (Err (ShutdownFailed n fs)) \<longrightarrow> n = length fs \<and> failed_observations t = map failure_key fs) \<and>
    (attributed g \<longrightarrow> app_state_scope env st' = Closed)"
  using ok
proof (cases rule: verify_application_cases)
  case (unattributed e)
  then show ?thesis by (intro exI [of _ "Inl (Err (AttributionFailed e))"] exI [of _ st] exI [of _ "[]"]) (simp add: g_def)
next
  case (start_failed lf st' hs)
  from start_failed(4) obtain t where "st_trace st' = st_trace st @ t"
    "failed_observations t = map failure_key (failed_as lf)" by (auto simp: runs_def)
  with start_failed show ?thesis
    by (intro exI [of _ "Inl (Err (LifecycleFailed lf))"] exI [of _ st'] exI [of _ t]) (auto simp: g_def failed_as_def)
next
  case (shut_down fs st1 st')
  from shut_down(5) obtain t where t: "st_trace st' = st_trace st @ t"
    "hooks t = full_lifecycle (rg_startup_order g)" "failed_observations t = map failure_key fs"
    by (auto simp: runs_def g_def)
  then show ?thesis using shut_down
    by (intro exI [of _ "if fs \<noteq> [] then Inl (Err (ShutdownFailed (length fs) fs)) else Inr (conformance_of g)"]
        exI [of _ st'] exI [of _ t]) (simp add: g_def)
qed

section \<open>The recorder\<close>

definition recorded_of :: "lifecycle_observation \<Rightarrow> recorded_lifecycle" where
  "recorded_of o' = \<lparr>rl_plugin = ob_plugin o', rl_scope = ob_scope o', rl_phase = ob_phase o',
     rl_outcome = ob_outcome o'\<rparr>"

definition spares_recorder :: "('p, lifecycle_recorder \<times> 'u, 'v, 'q, 'h) plugin_interface \<Rightarrow> bool" where
  \<comment> \<open>no hook records or clears events itself\<close>
  "spares_recorder iface \<longleftrightarrow>
     (\<forall>ph view x w. fst (snd (snd (run_plugin_hook (unit_hook iface ph view) (x, w)))) = fst w) \<and>
     (\<forall>context view x w. fst (snd (snd (run_plugin_hook (pi_initialize iface context view) (x, w)))) = fst w)"

definition recorded ::
  "('p, lifecycle_recorder \<times> 'u, 'v, 'q, 'h) runtime_env
     \<Rightarrow> (plugin_id \<Rightarrow> lifecycle_phase \<Rightarrow> lifecycle_outcome \<Rightarrow> bool)
     \<Rightarrow> ('p, lifecycle_recorder \<times> 'u, 'v, 'h) app_state \<Rightarrow> ('p, lifecycle_recorder \<times> 'u, 'v, 'h) app_state \<Rightarrow> bool" where
  \<comment> \<open>since \<open>st0\<close> the recorder has received exactly the observations, of possible outcomes\<close>
  "recorded env possible st0 st \<longleftrightarrow>
     view_id (st_scopes st) (env_scope env) = view_id (st_scopes st0) (env_scope env) \<and>
     (\<exists>t. st_trace st = st_trace st0 @ t \<and>
        fst (st_world st) = fst (st_world st0) @ map recorded_of (observations t) \<and>
        (\<forall>o' \<in> set (observations t). ob_scope o' = view_id (st_scopes st0) (env_scope env) \<and>
           possible (ob_plugin o') (ob_phase o') (ob_outcome o')))"

lemma recorded_refl: "recorded env possible st st"
  by (simp add: recorded_def)

lemma recorded_after_hook:
  assumes "recorded env possible st0 st" and "fst w = fst (st_world st)"
  shows "recorded env possible st0 (after_hook p ph x w st)"
proof -
  from assms(1) obtain t where "st_trace st = st_trace st0 @ t"
    "fst (st_world st) = fst (st_world st0) @ map recorded_of (observations t)"
    "\<forall>o' \<in> set (observations t). ob_scope o' = view_id (st_scopes st0) (env_scope env) \<and>
       possible (ob_plugin o') (ob_phase o') (ob_outcome o')"
    by (auto simp: recorded_def)
  with assms show ?thesis
    by (auto simp: recorded_def after_hook_def trace_append_def intro!: exI [of _ "t @ [HookRan p ph]"])
qed

lemma recorded_observe:
  assumes "recorded env possible st0 st" and "possible p ph out" and "env_observer env = recorder_sink"
  shows "recorded env possible st0 (observe env p ph out t0 st)"
proof -
  from assms(1) obtain t where t: "st_trace st = st_trace st0 @ t"
    "fst (st_world st) = fst (st_world st0) @ map recorded_of (observations t)"
    "\<forall>o' \<in> set (observations t). ob_scope o' = view_id (st_scopes st0) (env_scope env) \<and>
       possible (ob_plugin o') (ob_phase o') (ob_outcome o')"
    "view_id (st_scopes st) (env_scope env) = view_id (st_scopes st0) (env_scope env)"
    by (auto simp: recorded_def)
  let ?o = "\<lparr>ob_plugin = p, ob_scope = view_id (st_scopes st) (env_scope env), ob_phase = ph,
    ob_outcome = out, ob_duration = env_now env (st_world st) - t0\<rparr>"
  have "st_trace (observe env p ph out t0 st) = st_trace st0 @ t @ [Observed ?o]"
    "fst (st_world (observe env p ph out t0 st)) = fst (st_world st) @ [recorded_of ?o]"
    "st_scopes (observe env p ph out t0 st) = st_scopes st"
    by (simp_all add: observe_def emit_observation_def assms(3) recorder_sink_def recorder_record_def
        recorded_of_def trace_append_def t(1) split: prod.splits)
  with t assms(2) show ?thesis
    by (auto simp: recorded_def intro!: exI [of _ "t @ [Observed ?o]"])
qed

lemma recorded_fields:
  "recorded env possible st0 (st\<lparr>st_registry := x\<rparr>) = recorded env possible st0 st"
  "recorded env possible st0 (st\<lparr>st_terminal := y\<rparr>) = recorded env possible st0 st"
  "view_id scopes (env_scope env) = view_id (st_scopes st) (env_scope env) \<Longrightarrow>
     recorded env possible st0 (st\<lparr>st_scopes := scopes\<rparr>) = recorded env possible st0 st"
  by (simp_all add: recorded_def)

lemma recorder_frame:
  assumes "env_observer env = recorder_sink" and "spares_recorder (env_interface env)"
  shows "lifecycle_frame env (recorded env (\<lambda>_ _ _. True) st0) (\<lambda>_ _ _. True)"
proof -
  have spare: "fst w' = fst w" if "run_plugin_hook (unit_hook (env_interface env) ph view) (x, w) = (r, x', w')"
    for ph view x w r x' w'
    using assms(2) that unfolding spares_recorder_def by (metis snd_conv)
  have spare': "fst w' = fst w" if "run_plugin_hook (pi_initialize (env_interface env) c view) (x, w) = (r, x', w')"
    for c view x w r x' w'
    using assms(2) that unfolding spares_recorder_def by (metis snd_conv)
  show ?thesis
    by unfold_locales (auto simp: recorded_fields intro!: recorded_after_hook recorded_observe assms(1)
        dest: spare spare')
qed

lemma recorded_success:
  assumes "recorded env possible st0 st" and "runs env st0 st hs []"
  shows "fst (st_world st) = fst (st_world st0) @ map (\<lambda>(p, ph). \<lparr>rl_plugin = p,
      rl_scope = view_id (st_scopes st0) (env_scope env), rl_phase = ph, rl_outcome = Succeeded\<rparr>) hs"
    and "\<forall>(p, ph) \<in> set hs. possible p ph Succeeded"
proof -
  let ?sid = "view_id (st_scopes st0) (env_scope env)"
  from assms obtain t where t: "fst (st_world st) = fst (st_world st0) @ map recorded_of (observations t)"
    "\<forall>o' \<in> set (observations t). ob_scope o' = ?sid \<and> possible (ob_plugin o') (ob_phase o') (ob_outcome o')"
    "map (\<lambda>o'. (ob_plugin o', ob_phase o')) (observations t) = hs" "failed_observations t = []"
    by (auto simp: recorded_def runs_def)
  have ok: "ob_outcome o' = Succeeded" if "o' \<in> set (observations t)" for o'
    using t(4) that by (cases "ob_outcome o'") (force simp: failed_observations_def)+
  show "fst (st_world st) = fst (st_world st0) @ map (\<lambda>(p, ph). \<lparr>rl_plugin = p,
      rl_scope = ?sid, rl_phase = ph, rl_outcome = Succeeded\<rparr>) hs"
    unfolding t(1) t(3) [symmetric] using t(2) ok by (simp add: recorded_of_def)
  show "\<forall>(p, ph) \<in> set hs. possible p ph Succeeded"
    using t(2) ok by (force simp: t(3) [symmetric])
qed

lemma verify_application_keeps:
  assumes "lifecycle_frame env P possible" and "app_ok env st" and "P st"
    and "verify_application env st = (r, st')"
  shows "P st'"
  using assms(2)
proof (cases rule: verify_application_cases)
  case (start_failed lf st'' hs)
  with assms show ?thesis using lifecycle_frame.start_keeps [OF assms(1) start_failed(2)] by auto
next
  case (shut_down fs st1 st'')
  have "P st1" by (rule lifecycle_frame.start_keeps [OF assms(1) shut_down(2) assms(3)])
  with lifecycle_frame.shutdown_keeps [OF assms(1) shut_down(3)] shut_down(4) assms(4) show ?thesis by auto
qed (use assms in auto)

definition all_succeed :: "scope_id \<Rightarrow> (plugin_id \<times> lifecycle_phase) list \<Rightarrow> recorded_lifecycle list" where
  "all_succeed scope hs =
     map (\<lambda>(p, ph). \<lparr>rl_plugin = p, rl_scope = scope, rl_phase = ph, rl_outcome = Succeeded\<rparr>) hs"

text \<open>When an application whose plugins leave the recorder alone passes the oracle, the snapshot
  of its recorder has grown by exactly one successful event per plugin and phase, in the order of
  the lifecycle and under the identity of the application scope.\<close>

lemma recorder_sees_lifecycle:
  assumes "app_ok env st" and "env_observer env = recorder_sink" and "spares_recorder (env_interface env)"
    and run: "verify_application env st = (Inr c, st')"
  shows "recorder_snapshot (fst (st_world st')) = recorder_snapshot (fst (st_world st)) @
    all_succeed (view_id (st_scopes st) (env_scope env)) (full_lifecycle (rg_startup_order (env_graph env)))"
proof -
  have "recorded env (\<lambda>_ _ _. True) st st'"
    by (rule verify_application_keeps [OF recorder_frame [OF assms(2,3)] assms(1) recorded_refl run])
  moreover have "runs env st st' (full_lifecycle (rg_startup_order (env_graph env))) []"
    using assms(1) by (cases rule: verify_application_cases) (use run in \<open>auto split: if_splits\<close>)
  ultimately show ?thesis using recorded_success(1) by (simp add: recorder_snapshot_def all_succeed_def)
qed

section \<open>Probes\<close>

fun planned_failure :: "failure_plan \<Rightarrow> lifecycle_phase \<Rightarrow> injected_failure option" where
  "planned_failure plan Initialize = fp_initialize plan"
| "planned_failure plan Start = fp_start plan"
| "planned_failure plan Quiesce = fp_quiesce plan"
| "planned_failure plan Stop = fp_stop plan"
| "planned_failure plan Dispose = fp_dispose plan"

definition probe_outcome ::
  "('v, 'q) resolved_graph \<Rightarrow> (plugin_id, ('v, 'q) probe_plugin) btree_map \<Rightarrow> plugin_id \<Rightarrow> lifecycle_phase
     \<Rightarrow> lifecycle_outcome" where
  \<comment> \<open>the planned failure, and a missing provision for a probe whose descriptor offers something\<close>
  "probe_outcome g plugins p ph =
     (case bm_get plugins p of
        None \<Rightarrow> Succeeded
      | Some x \<Rightarrow>
          (case planned_failure (pp_failures x) ph of
             Some f \<Rightarrow> Failed (safe_tag (if_tag f))
           | None \<Rightarrow>
               (case graph_plugin g p of
                  Some d \<Rightarrow> if ph = Initialize \<and> provides d \<noteq> [] then Failed ''provision.missing'' else Succeeded
                | None \<Rightarrow> Succeeded)))"

lemma run_probe_hook:
  "run_plugin_hook (unit_hook probe_interface ph view) (x, w) =
     (if ph = Initialize then (Inl hook_panicked, x, w)
      else (case planned_failure (pp_failures x) ph of None \<Rightarrow> Inr () | Some f \<Rightarrow> Inl (into_error f), x, w))"
  by (cases ph) (simp_all add: run_plugin_hook_def unit_hook_def cleanup_hook_def probe_interface_def
      probe_hook_def probe_result_def)

lemma run_probe_initialize:
  "run_plugin_hook (pi_initialize probe_interface context view) (x, w) =
     (case fp_initialize (pp_failures x) of None \<Rightarrow> Inr [] | Some f \<Rightarrow> Inl (into_error f), x, w)"
  by (simp add: run_plugin_hook_def probe_interface_def probe_initialize_def probe_result_def)

lemma commit_nothing:
  "commit p d [] registry = (c, registry') \<Longrightarrow>
     (case c of Inr _ \<Rightarrow> Succeeded | Inl e \<Rightarrow> Failed (provision_error_tag e)) =
     (if provides d = [] then Succeeded else Failed ''provision.missing'')"
  by (cases "provides d") (auto simp: commit_def check_offered_def bm_contains_def bm_get_def)

lemma bm_get_modify_same: "bm_get m p = Some x \<Longrightarrow> bm_get (bm_modify p (\<lambda>_. x) m) = bm_get m"
  by (rule ext) (simp add: bm_get_modify)

definition probe_env ::
  "(lifecycle_recorder \<times> 'w \<Rightarrow> nat) \<Rightarrow> ('v provision_error \<Rightarrow> utext) \<Rightarrow> ('v, 'q) resolved_graph \<Rightarrow> scope_ref
     \<Rightarrow> (('v, 'q) probe_plugin, lifecycle_recorder \<times> 'w, 'v, 'q, 'h) runtime_env" where
  "probe_env now display g scope = \<lparr>env_interface = probe_interface, env_now = now, env_display = display,
     env_graph = g, env_observer = recorder_sink, env_scope = scope\<rparr>"

definition probe_inv ::
  "(('v, 'q) probe_plugin, lifecycle_recorder \<times> 'w, 'v, 'q, 'h) runtime_env
     \<Rightarrow> (('v, 'q) probe_plugin, lifecycle_recorder \<times> 'w, 'v, 'h) app_state
     \<Rightarrow> (('v, 'q) probe_plugin, lifecycle_recorder \<times> 'w, 'v, 'h) app_state \<Rightarrow> bool" where
  "probe_inv env st0 st \<longleftrightarrow> bm_get (st_plugins st) = bm_get (st_plugins st0) \<and>
     recorded env (\<lambda>p ph out. out = probe_outcome (env_graph env) (st_plugins st0) p ph) st0 st"

lemma probe_env_fields [simp]:
  "env_interface (probe_env now display g scope) = probe_interface"
  "env_observer (probe_env now display g scope) = recorder_sink"
  "env_graph (probe_env now display g scope) = g" "env_scope (probe_env now display g scope) = scope"
  by (simp_all add: probe_env_def)

lemma probe_inv_after_hook:
  assumes "probe_inv env st0 st" and "bm_get (st_plugins st) p = Some x" and "fst w = fst (st_world st)"
  shows "probe_inv env st0 (after_hook p ph x w st)"
  using assms bm_get_modify_same [OF assms(2)]
  by (simp add: probe_inv_def recorded_after_hook) (simp add: after_hook_def trace_append_def)

lemma observe_plugins: "st_plugins (observe env p ph out t0 st) = st_plugins st"
  by (simp add: observe_def emit_observation_def trace_append_def split: prod.splits)

interpretation probe: lifecycle_frame "probe_env now display g scope"
    "probe_inv (probe_env now display g scope) st0" "\<lambda>p ph out. out = probe_outcome g (st_plugins st0) p ph"
  for now :: "lifecycle_recorder \<times> 'w \<Rightarrow> nat" and display :: "'v provision_error \<Rightarrow> utext"
    and g :: "('v, 'q) resolved_graph" and scope
    and st0 :: "(('v, 'q) probe_plugin, lifecycle_recorder \<times> 'w, 'v, 'h) app_state"
proof
  let ?env = "probe_env now display g scope"
  fix st p x view r x' w'
  assume st: "probe_inv ?env st0 st" "bm_get (st_plugins st) p = Some x"
  then have x: "bm_get (st_plugins st0) p = Some x" by (simp add: probe_inv_def)
  {
    fix ph assume "ph \<noteq> Initialize"
      and "run_plugin_hook (unit_hook (env_interface ?env) ph view) (x, st_world st) = (r, x', w')"
    then show "probe_inv ?env st0 (after_hook p ph x' w' st) \<and> hook_outcome r = probe_outcome g (st_plugins st0) p ph"
      using probe_inv_after_hook [OF st] x by (auto simp: run_probe_hook hook_outcome_def probe_outcome_def
          into_error_def split: option.splits)
  }
  fix ctx :: "('v, 'q, 'h) initialization_context" and result and staged :: "('v, 'h) provision_set"
    and d registry c registry' e
  let ?run = "run_plugin_hook (pi_initialize (env_interface ?env) ctx view) (x, st_world st)"
  show "probe_inv ?env st0 (after_hook p Initialize x' w' st)" if "?run = (result, x', w')"
    using that probe_inv_after_hook [OF st] by (auto simp: run_probe_initialize)
  show "Failed (safe_tag (pe_tag e)) = probe_outcome g (st_plugins st0) p Initialize" if "?run = (Inl e, x', w')"
    using that x by (auto simp: run_probe_initialize probe_outcome_def into_error_def split: option.splits)
  show "(case c of Inr _ \<Rightarrow> Succeeded | Inl e' \<Rightarrow> Failed (provision_error_tag e')) =
      probe_outcome g (st_plugins st0) p Initialize"
    if "?run = (Inr staged, x', w')" "graph_plugin (env_graph ?env) p = Some d" "commit p d staged registry = (c, registry')"
    using that x commit_nothing [of p d registry c registry']
    by (auto simp: run_probe_initialize probe_outcome_def split: option.splits)
qed (auto simp: probe_inv_def recorded_fields recorded_observe observe_plugins)

lemma full_lifecycle_set: "(p, ph) \<in> set (full_lifecycle order) \<longleftrightarrow> p \<in> set order"
  by (cases ph) (auto simp: full_lifecycle_def in_phase_def)

lemma recorded_no_failure:
  assumes "recorded env (\<lambda>p ph out. out = expected p ph) st st'" and "runs env st st' hs fs"
    and "\<And>p ph. expected p ph = Succeeded"
  shows "fs = []"
proof -
  from assms(1,2) obtain t where t: "failed_observations t = map failure_key fs"
    "\<forall>o' \<in> set (observations t). ob_outcome o' = expected (ob_plugin o') (ob_phase o')"
    by (auto simp: recorded_def runs_def)
  have "failed_observations t = []" using t(2) by (auto simp: failed_observations_def assms(3))
  with t(1) show ?thesis by simp
qed

text \<open>C36: an application of probes under the recorder passes the oracle exactly when its graph is
  attributed, no failure is planned and no probe declares an offer, which it would not provide. In
  any case every recorded event has the outcome that was planned for that plugin and phase, so each phase
  runs the hook of that name.\<close>

theorem probe_conformance:
  assumes ok: "app_ok (probe_env now display g scope) st"
  shows "\<exists>r st' new. verify_application (probe_env now display g scope) st = (r, st') \<and>
    ((\<exists>c. r = Inr c) \<longleftrightarrow> attributed g \<and>
       (\<forall>p \<in> set (rg_startup_order g). \<forall>ph. probe_outcome g (st_plugins st) p ph = Succeeded)) \<and>
    recorder_snapshot (fst (st_world st')) = recorder_snapshot (fst (st_world st)) @ new \<and>
    (\<forall>e \<in> set new. rl_outcome e = probe_outcome g (st_plugins st) (rl_plugin e) (rl_phase e))"
proof -
  let ?env = "probe_env now display g scope" and ?out = "probe_outcome g (st_plugins st)"
  have beyond: "?out p ph = Succeeded" if "p \<notin> set (rg_startup_order g)" for p ph
  proof -
    have "bm_get (st_plugins st) p = None" using ok that by (simp add: app_ok_def bm_get_None_iff)
    then show ?thesis by (simp add: probe_outcome_def)
  qed
  obtain r st' where run: "verify_application ?env st = (r, st')" by fastforce
  have start: "probe_inv ?env st st" by (simp add: probe_inv_def recorded_refl)
  have inv: "recorded ?env (\<lambda>p ph out. out = ?out p ph) st st'"
    using verify_application_keeps [OF probe.lifecycle_frame_axioms ok start run] by (simp add: probe_inv_def)
  have silent: "fs = []" if "\<forall>p \<in> set (rg_startup_order g). \<forall>ph. ?out p ph = Succeeded"
    and "runs ?env st st' hs fs" for hs fs
    by (rule recorded_no_failure [OF inv that(2)]) (use beyond that(1) in blast)
  have "(\<exists>c. r = Inr c) \<longleftrightarrow> attributed g \<and> (\<forall>p \<in> set (rg_startup_order g). \<forall>ph. ?out p ph = Succeeded)"
    using ok
  proof (cases rule: verify_application_cases)
    case (start_failed lf st'' hs)
    with run have "st'' = st'" by simp
    with silent start_failed(4) run start_failed(3) failed_as_not_Nil [of lf] show ?thesis by auto
  next
    case (shut_down fs st1 st'')
    with run have st'': "st'' = st'" by simp
    have "fs = []" if "\<forall>p \<in> set (rg_startup_order g). \<forall>ph. ?out p ph = Succeeded"
      using silent [OF that] shut_down(5) unfolding st'' by blast
    moreover have "?out p ph = Succeeded" if "fs = []" "p \<in> set (rg_startup_order g)" for p ph
    proof -
      have "runs ?env st st' (full_lifecycle (rg_startup_order g)) []" using shut_down(5) that(1) st'' by simp
      from bspec [OF recorded_success(2) [OF inv this], of "(p, ph)"] that(2) show ?thesis
        by (simp add: full_lifecycle_set)
    qed
    ultimately show ?thesis using run shut_down(1,4) by (auto split: if_splits)
  qed (use run in auto)
  moreover obtain t where "fst (st_world st') = fst (st_world st) @ map recorded_of (observations t)"
    "\<forall>o' \<in> set (observations t). ob_outcome o' = ?out (ob_plugin o') (ob_phase o')"
    using inv by (auto simp: recorded_def)
  ultimately show ?thesis using run
    by (intro exI [of _ r] exI [of _ st'] exI [of _ "map recorded_of (observations t)"])
      (auto simp: recorder_snapshot_def recorded_of_def)
qed

section \<open>Three probes\<close>

definition probe_source :: "str \<Rightarrow> plugin_source" where
  "probe_source name = \<lparr>src_package = text_of name, src_repository = Some (text_of ''r'')\<rparr>"

definition sample_probe :: "str \<Rightarrow> (nat, nat) probe_plugin" where
  "sample_probe name = probe_new ((descriptor_new (PluginId name) 1)\<lparr>pd_source := Some (probe_source name)\<rparr>)"

definition probe_builder :: "failure_plan \<Rightarrow> ((nat, nat) probe_plugin, lifecycle_recorder \<times> unit, nat, nat) app_builder" where
  "probe_builder plan = fold builder_plugin
     [sample_probe ''x.b'', probe_with_failures plan (sample_probe ''x.a''), sample_probe ''x.c'']
     (builder_observation_sink recorder_sink app_builder_new)"

definition probe_app :: "failure_plan \<Rightarrow> ((nat, nat) probe_plugin, lifecycle_recorder \<times> unit, nat, nat) resolved_app" where
  "probe_app plan = projr (fst (app_resolve (=) (probe_interface :: (_, _, _, _, str) plugin_interface)
     (probe_builder plan) initial_scopes))"

definition stop_failure :: failure_plan where
  "stop_failure = failure_plan_default\<lparr>fp_stop := Some \<lparr>if_tag = ''probe.stop'', if_message = text_of ''no''\<rparr>\<rparr>"

definition probe_scopes :: "failure_plan \<Rightarrow> scope_store" where
  "probe_scopes plan = snd (app_resolve (=) (probe_interface :: (_, _, _, _, str) plugin_interface)
     (probe_builder plan) initial_scopes)"

lemma probe_app_resolves:
  assumes "plan \<in> {failure_plan_default, stop_failure}"
  shows "app_resolve (=) (probe_interface :: (_, _, _, _, str) plugin_interface) (probe_builder plan) initial_scopes =
    (Inr (probe_app plan), probe_scopes plan)"
proof -
  have "\<not> isl (fst (app_resolve (=) (probe_interface :: (_, _, _, _, str) plugin_interface)
      (probe_builder failure_plan_default) initial_scopes))"
    "\<not> isl (fst (app_resolve (=) (probe_interface :: (_, _, _, _, str) plugin_interface)
      (probe_builder stop_failure) initial_scopes))"
    by code_simp+
  with assms show ?thesis unfolding probe_app_def probe_scopes_def using isl_projr by blast
qed

definition sample_probe_env :: "failure_plan \<Rightarrow> ((nat, nat) probe_plugin, lifecycle_recorder \<times> unit, nat, nat, str) runtime_env" where
  "sample_probe_env plan = probe_env (\<lambda>_. 0) (\<lambda>_. []) (ra_graph (probe_app plan)) (ra_scope (probe_app plan))"

definition sample_probe_state :: "failure_plan \<Rightarrow> ((nat, nat) probe_plugin, lifecycle_recorder \<times> unit, nat, str) app_state" where
  "sample_probe_state plan = app_state_of (probe_app plan) (probe_scopes plan) (recorder_default, ())"

lemma sample_probe_wf: "\<forall>p \<in> set (ab_plugins (probe_builder plan)).
    descriptor_wf (pi_descriptor (probe_interface :: (_, unit, _, _, str) plugin_interface) p)"
  by (simp add: probe_builder_def builder_plugin_def builder_observation_sink_def app_builder_new_def
      probe_interface_def sample_probe_def probe_new_def probe_with_failures_def descriptor_new_def
      descriptor_wf_def)

lemma sample_probe_ok:
  assumes "plan \<in> {failure_plan_default, stop_failure}"
  shows "app_ok (sample_probe_env plan) (sample_probe_state plan)"
proof -
  have "app_ok (app_env (probe_interface :: (_, _, _, _, str) plugin_interface) (\<lambda>_. 0) (\<lambda>_. []) (probe_app plan))
      (sample_probe_state plan)"
    unfolding sample_probe_state_def
    by (rule app_resolve_ok(1) [OF initial_scopes_ok _ probe_app_resolves [OF assms]])
      (use sample_probe_wf in \<open>auto simp: probe_interface_def\<close>)
  then show ?thesis by (simp add: app_ok_def sample_probe_env_def app_env_def)
qed

lemma verify_application_iff_witness:
  "\<exists>r st'. verify_application (sample_probe_env stop_failure) (sample_probe_state stop_failure) = (r, st') \<and>
     r \<noteq> Inl Panic"
proof -
  have "app_ok (sample_probe_env stop_failure) (sample_probe_state stop_failure)" by (rule sample_probe_ok) simp
  from verify_application_iff [OF this] show ?thesis by blast
qed

lemma sample_probe_passes:
  "verify_application (sample_probe_env failure_plan_default) (sample_probe_state failure_plan_default) =
     (Inr (projr (fst (verify_application (sample_probe_env failure_plan_default) (sample_probe_state failure_plan_default)))),
      snd (verify_application (sample_probe_env failure_plan_default) (sample_probe_state failure_plan_default)))"
proof -
  have "\<not> isl (fst (verify_application (sample_probe_env failure_plan_default) (sample_probe_state failure_plan_default)))"
    by code_simp
  then show ?thesis by (rule isl_projr)
qed

lemma probes_spare_recorder: "spares_recorder probe_interface"
  by (simp add: spares_recorder_def run_probe_hook run_probe_initialize)

lemma recorder_sees_lifecycle_witness:
  "\<exists>sid. recorder_snapshot (fst (st_world (snd (verify_application (sample_probe_env failure_plan_default)
     (sample_probe_state failure_plan_default))))) =
   all_succeed sid (full_lifecycle [PluginId ''x.a'', PluginId ''x.b'', PluginId ''x.c''])"
proof -
  have ok: "app_ok (sample_probe_env failure_plan_default) (sample_probe_state failure_plan_default)"
    by (rule sample_probe_ok) simp
  have env: "env_observer (sample_probe_env failure_plan_default) = recorder_sink"
    "spares_recorder (env_interface (sample_probe_env failure_plan_default))"
    by (simp_all add: sample_probe_env_def probes_spare_recorder)
  have order: "rg_startup_order (env_graph (sample_probe_env failure_plan_default)) =
      [PluginId ''x.a'', PluginId ''x.b'', PluginId ''x.c'']" by code_simp
  have "recorder_snapshot (fst (st_world (sample_probe_state failure_plan_default))) = []"
    by (simp add: sample_probe_state_def app_state_of_def recorder_snapshot_def recorder_default_def)
  with recorder_sees_lifecycle [OF ok env sample_probe_passes] show ?thesis by (auto simp: order)
qed

lemma probe_conformance_witness:
  "\<not> (\<exists>c st'. verify_application (sample_probe_env stop_failure) (sample_probe_state stop_failure) = (Inr c, st'))"
proof -
  let ?g = "ra_graph (probe_app stop_failure)"
  have ok: "app_ok (probe_env (\<lambda>_. 0) (\<lambda>_. []) ?g (ra_scope (probe_app stop_failure))) (sample_probe_state stop_failure)"
    using sample_probe_ok [of stop_failure] by (simp add: sample_probe_env_def)
  have "PluginId ''x.a'' \<in> set (rg_startup_order ?g)" by code_simp
  moreover have "probe_outcome ?g (st_plugins (sample_probe_state stop_failure)) (PluginId ''x.a'') Stop \<noteq> Succeeded"
    by code_simp
  ultimately show ?thesis
    using probe_conformance [OF ok] unfolding sample_probe_env_def by fastforce
qed

end
