(* ===== verification/Command_Line.thy ===== *)
theory Command_Line
  imports Attribution Report Text_Numbers
begin

text \<open>
  \<open>cargo-kernox/src/main.rs\<close>: the command that validates a composition file and renders its graph.

  Outside the source are \<open>clap\<close> (which turns arguments into a command or ends the process),
  \<open>serde_json\<close>, \<open>semver\<close>, the file system and the \<open>Display\<close> texts that \<open>thiserror\<close> generates for the
  errors of the core: they are the fields of \<open>cli_library\<close>. A reader gives one event per byte it is
  asked for; \<open>Interrupted\<close>, which \<open>read_to_end\<close> retries, is not an event.
\<close>

section \<open>Reading\<close>

datatype reader_event = Byte char | EndOfFile | ReadError str

type_synonym reader = "nat \<Rightarrow> reader_event"
  \<comment> \<open>the event of the \<open>n\<close>-th read of one byte\<close>

primrec read_to_end :: "nat \<Rightarrow> reader \<Rightarrow> nat \<Rightarrow> str \<Rightarrow> str + str" where
  \<comment> \<open>\<open>Take::read_to_end\<close> with the number of bytes the limit still allows\<close>
  "read_to_end 0 reader position bytes = Inr bytes"
| "read_to_end (Suc limit) reader position bytes =
     (case reader position of
        Byte b \<Rightarrow> read_to_end limit reader (Suc position) (bytes @ [b])
      | EndOfFile \<Rightarrow> Inr bytes
      | ReadError error \<Rightarrow> Inl error)"

definition MAX_SPEC_BYTES :: nat where "MAX_SPEC_BYTES = 16 * 1024 * 1024"

section \<open>Commands, errors and the outside\<close>

datatype graph_format = Json | Dot

datatype command =
    Check str bool            \<comment> \<open>spec, verified\<close>
  | Graph str graph_format    \<comment> \<open>spec, format\<close>

datatype ('v, 'q) cli_error =
    CliRead str
  | InputTooLarge
  | CliJson str
  | CliResolve "('v, 'q) resolve_error"
  | CliAttribution attribution_error
  | CliFormat

fun cli_error_tag :: "('v, 'q) cli_error \<Rightarrow> str" where
  "cli_error_tag (CliRead _) = ''cli.read-failed''"
| "cli_error_tag InputTooLarge = ''cli.input-too-large''"
| "cli_error_tag (CliJson _) = ''cli.invalid-json''"
| "cli_error_tag (CliResolve error) = resolve_error_tag error"
| "cli_error_tag (CliAttribution error) = attribution_error_tag error"
| "cli_error_tag CliFormat = ''cli.format-failed''"

record ('v, 'q) cli_library =
  lib_matches :: "'q \<Rightarrow> 'v \<Rightarrow> bool"
  lib_stdin :: reader
  lib_open :: "str \<Rightarrow> str + reader"
  lib_from_slice :: "str \<Rightarrow> str + ('v, 'q) composition_spec"
  lib_to_string_pretty :: "'v graph_report \<Rightarrow> str + str"
  lib_resolve_display :: "('v, 'q) resolve_error \<Rightarrow> str"
  lib_attribution_display :: "attribution_error \<Rightarrow> str"
  lib_parse_from :: "str list \<Rightarrow> nat + command"
    \<comment> \<open>\<open>clap\<close> ends the process with an exit code, or returns the command\<close>

fun cli_error_display :: "('v, 'q) cli_library \<Rightarrow> ('v, 'q) cli_error \<Rightarrow> str" where
  "cli_error_display lib (CliRead error) = ''failed to read composition: '' @ error"
| "cli_error_display lib InputTooLarge =
     ''composition exceeds '' @ decimal MAX_SPEC_BYTES @ '' byte input bound''"
| "cli_error_display lib (CliJson error) = ''invalid composition JSON: '' @ error"
| "cli_error_display lib (CliResolve error) = ''composition rejected: '' @ lib_resolve_display lib error"
| "cli_error_display lib (CliAttribution error) =
     ''verified application graph rejected: '' @ lib_attribution_display lib error"
| "cli_error_display lib CliFormat =
     ''failed to render graph: an error occurred when formatting an argument''"

section \<open>The command\<close>

definition read_bounded :: "reader \<Rightarrow> ('v, 'q) cli_error + str" where
  "read_bounded reader =
     and_then (map_err CliRead (read_to_end (MAX_SPEC_BYTES + 1) reader 0 [])) (\<lambda>bytes.
     if length bytes > MAX_SPEC_BYTES then Inl InputTooLarge else Inr bytes)"

text \<open>\<open>Path\<close> values are compared by their components: repeated and trailing separators do not count, nor
  does a \<open>.\<close> that is not the first component.\<close>

definition path_components :: "str \<Rightarrow> str list" where
  \<comment> \<open>on Unix, the root being the empty component\<close>
  "path_components path =
     (if path = [] then []
      else case split_on CHR ''/'' path of
          [] \<Rightarrow> []
        | first # rest \<Rightarrow> first # filter (\<lambda>component. component \<noteq> [] \<and> component \<noteq> ''.'') rest)"

definition same_path :: "str \<Rightarrow> str \<Rightarrow> bool" where
  "same_path path other \<longleftrightarrow> path_components path = path_components other"

definition load_and_resolve ::
  "('v, 'q) cli_library \<Rightarrow> str \<Rightarrow> ('v, 'q) cli_error fault + ('v, 'q) resolved_graph \<times> 'v graph_report" where
  "load_and_resolve lib path =
     and_then (fallible (if same_path path ''-'' then read_bounded (lib_stdin lib)
         else and_then (map_err CliRead (lib_open lib path)) read_bounded)) (\<lambda>bytes.
     and_then (fallible (map_err CliJson (lib_from_slice lib bytes))) (\<lambda>spec.
     and_then (map_err (map_fault CliResolve) (resolve (lib_matches lib) spec)) (\<lambda>graph.
     Inr (graph, report graph))))"

definition quoted :: "str \<Rightarrow> str" where
  "quoted s = ''\"'' @ s @ ''\"''"

definition dot_plugin :: "'v plugin_summary \<Rightarrow> str" where
  "dot_plugin plugin = ''  '' @ quoted (plugin_id_as_str (ps_id plugin)) @ '';'' @ [CHR 0x0A]"

definition dot_edge :: "resolved_edge \<Rightarrow> str" where
  "dot_edge edge = ''  '' @ quoted (plugin_id_as_str (edge_provider edge)) @ '' -> '' @
     quoted (plugin_id_as_str (edge_consumer edge)) @ '' [label='' @
     quoted (capability_id_as_str (edge_capability edge)) @ ''];'' @ [CHR 0x0A]"

definition render_dot :: "'v graph_report \<Rightarrow> ('v, 'q) cli_error + str" where
  \<comment> \<open>writing into a \<open>String\<close> does not fail\<close>
  "render_dot r =
     (let output = ''digraph kernox {'' @ [CHR 0x0A] @ ''  rankdir=LR;'' @ [CHR 0x0A];
          output = fold (\<lambda>plugin output. output @ dot_plugin plugin) (rep_plugins r) output;
          output = fold (\<lambda>edge output. output @ dot_edge edge) (rep_edges r) output
      in Inr (output @ ''}'' @ [CHR 0x0A]))"

definition verified_summary :: "attribution_report \<Rightarrow> 'v graph_report \<Rightarrow> str" where
  "verified_summary attribution r =
     ''verified: '' @ decimal (att_plugin_count attribution) @ '' plugin(s), '' @
     decimal (length (att_source_packages attribution)) @ '' source package(s), '' @
     decimal (length (rep_edges r)) @ '' edge(s), schema '' @ decimal (unat (rep_schema_version r))"

definition valid_summary :: "'v graph_report \<Rightarrow> str" where
  "valid_summary r =
     ''valid: '' @ decimal (length (rep_plugins r)) @ '' plugin(s), '' @
     decimal (length (rep_edges r)) @ '' edge(s), '' @
     decimal (length (rep_diagnostics r)) @ '' diagnostic(s), schema '' @ decimal (unat (rep_schema_version r))"

definition run_cli :: "('v, 'q) cli_library \<Rightarrow> command \<Rightarrow> ('v, 'q) cli_error fault + str" where
  "run_cli lib cmd =
     (case cmd of
        Check spec verified \<Rightarrow>
          and_then (load_and_resolve lib spec) (\<lambda>(graph, r).
            if verified then
              and_then (fallible (map_err CliAttribution (verify_graph_attribution graph))) (\<lambda>attribution.
                Inr (verified_summary attribution r))
            else Inr (valid_summary r))
      | Graph spec format \<Rightarrow>
          and_then (load_and_resolve lib spec) (\<lambda>(_, r).
            case format of
              Json \<Rightarrow> fallible (map_err CliJson (lib_to_string_pretty lib r))
            | Dot \<Rightarrow> fallible (render_dot r)))"

record process_result =
  pr_exit :: nat
  pr_stdout :: str
  pr_stderr :: str

definition cli_main :: "('v, 'q) cli_library \<Rightarrow> str list \<Rightarrow> process_result option" where
  \<comment> \<open>\<open>None\<close> is a panic; what \<open>clap\<close> prints when it ends the process is not modelled\<close>
  "cli_main lib arguments =
     (let arguments = (if 1 < length arguments \<and> arguments ! 1 = ''kernox'' then take 1 arguments @ drop 2 arguments
            else arguments)
      in case lib_parse_from lib arguments of
           Inl code \<Rightarrow> Some \<lparr>pr_exit = code, pr_stdout = [], pr_stderr = []\<rparr>
         | Inr cmd \<Rightarrow>
             (case run_cli lib cmd of
                Inr output \<Rightarrow> Some \<lparr>pr_exit = 0, pr_stdout = output @ [CHR 0x0A], pr_stderr = []\<rparr>
              | Inl Panic \<Rightarrow> None
              | Inl (Err error) \<Rightarrow>
                  Some \<lparr>pr_exit = 2, pr_stdout = [],
                    pr_stderr = cli_error_tag error @ '': '' @ cli_error_display lib error @ [CHR 0x0A]\<rparr>))"

end
