(* ===== verification/Command_Line_Properties.thy ===== *)
theory Command_Line_Properties
  imports Command_Line
begin

text \<open>
  What the command line of \<open>cargo-kernox\<close> promises: how much it reads, which compositions \<open>check\<close>
  accepts and what it prints and exits with, and that a DOT rendering determines the graph.
\<close>

section \<open>Bounded reading\<close>

definition supplies :: "reader \<Rightarrow> str \<Rightarrow> bool" where
  "supplies reader bytes \<longleftrightarrow> (\<forall>i < length bytes. reader i = Byte (bytes ! i))"

lemma supplies_snoc: "supplies reader (bytes @ [b]) \<longleftrightarrow> supplies reader bytes \<and> reader (length bytes) = Byte b"
  by (auto simp: supplies_def nth_append less_Suc_eq)

lemma supplies_unique:
  assumes "supplies reader xs" and "supplies reader ys" and "length xs = length ys"
  shows "xs = ys"
  using assms by (intro nth_equalityI) (auto simp: supplies_def)

lemma read_to_end_spec:
  assumes "supplies reader bytes"
  shows "(\<exists>more. length more = limit \<and> supplies reader (bytes @ more) \<and>
      read_to_end limit reader (length bytes) bytes = Inr (bytes @ more)) \<or>
    (\<exists>more. length more < limit \<and> supplies reader (bytes @ more) \<and>
      (reader (length (bytes @ more)) = EndOfFile \<and>
         read_to_end limit reader (length bytes) bytes = Inr (bytes @ more) \<or>
       (\<exists>e. reader (length (bytes @ more)) = ReadError e \<and>
         read_to_end limit reader (length bytes) bytes = Inl e)))"
  using assms
proof (induction limit arbitrary: bytes)
  case (Suc limit)
  show ?case
  proof (cases "reader (length bytes)")
    case (Byte b)
    with Suc.prems have "supplies reader (bytes @ [b])" by (simp add: supplies_snoc)
    from Suc.IH [OF this] show ?thesis
    proof (elim disjE exE conjE)
      fix more assume "length more = limit" "supplies reader ((bytes @ [b]) @ more)"
        "read_to_end limit reader (length (bytes @ [b])) (bytes @ [b]) = Inr ((bytes @ [b]) @ more)"
      with Byte show ?thesis by (intro disjI1 exI [of _ "b # more"]) simp
    next
      fix more assume "length more < limit" "supplies reader ((bytes @ [b]) @ more)"
        "reader (length ((bytes @ [b]) @ more)) = EndOfFile"
        "read_to_end limit reader (length (bytes @ [b])) (bytes @ [b]) = Inr ((bytes @ [b]) @ more)"
      with Byte show ?thesis by (intro disjI2 exI [of _ "b # more"]) simp
    next
      fix more e assume "length more < limit" "supplies reader ((bytes @ [b]) @ more)"
        "reader (length ((bytes @ [b]) @ more)) = ReadError e"
        "read_to_end limit reader (length (bytes @ [b])) (bytes @ [b]) = Inl e"
      with Byte show ?thesis by (intro disjI2 exI [of _ "b # more"]) simp
    qed
  qed (use Suc.prems in \<open>intro disjI2 exI [of _ "[]"]; simp\<close>)+
qed simp

lemma read_bounded_cases:
  obtains (whole) bytes where "length bytes \<le> MAX_SPEC_BYTES" and "supplies reader bytes"
      and "reader (length bytes) = EndOfFile" and "read_bounded reader = (Inr bytes :: ('v, 'q) cli_error + str)"
    | (too_large) bytes where "length bytes = Suc MAX_SPEC_BYTES" and "supplies reader bytes"
      and "read_bounded reader = (Inl InputTooLarge :: ('v, 'q) cli_error + str)"
    | (failed) bytes e where "length bytes \<le> MAX_SPEC_BYTES" and "supplies reader bytes"
      and "reader (length bytes) = ReadError e" and "read_bounded reader = (Inl (CliRead e) :: ('v, 'q) cli_error + str)"
proof -
  have "supplies reader []" by (simp add: supplies_def)
  from read_to_end_spec [OF this, of "MAX_SPEC_BYTES + 1"] show thesis
    using that by (auto simp: read_bounded_def map_err_def less_Suc_eq_le)
qed

lemma read_bounded_outcomes:
  "(read_bounded reader = (Inr bytes :: ('v, 'q) cli_error + str) \<longleftrightarrow>
     length bytes \<le> MAX_SPEC_BYTES \<and> supplies reader bytes \<and> reader (length bytes) = EndOfFile) \<and>
   (read_bounded reader = (Inl InputTooLarge :: ('v, 'q) cli_error + str) \<longleftrightarrow> (\<exists>bs. length bs = Suc MAX_SPEC_BYTES \<and> supplies reader bs)) \<and>
   (read_bounded reader = (Inl (CliRead e) :: ('v, 'q) cli_error + str) \<longleftrightarrow>
     (\<exists>bs. length bs \<le> MAX_SPEC_BYTES \<and> supplies reader bs \<and> reader (length bs) = ReadError e))"
proof -
  let ?stops = "\<lambda>n. reader n = EndOfFile \<or> (\<exists>d. reader n = ReadError d)"
  have short: "length xs \<le> length ys" if "supplies reader xs" "?stops (length ys)" for xs ys
    using that unfolding supplies_def by (metis not_le reader_event.distinct(1,3))
  have same: "length xs = length ys" if "supplies reader xs" "?stops (length xs)" "supplies reader ys" "?stops (length ys)" for xs ys
    using short [OF that(1,4)] short [OF that(3,2)] by (rule le_antisym)
  show ?thesis
  proof (cases rule: read_bounded_cases [where 'v = 'v and 'q = 'q and reader = reader])
    case (whole bs)
    then have stop: "?stops (length bs)" by simp
    have eq: "ys = bs" if "supplies reader ys" "reader (length ys) = EndOfFile" for ys
      by (rule supplies_unique [OF that(1) whole(2) same [OF that(1) _ whole(2) stop]]) (simp add: that(2))
    have few: "length ys \<noteq> Suc MAX_SPEC_BYTES" if "supplies reader ys" for ys
      using short [OF that stop] whole(1) by linarith
    have fine: "reader (length ys) \<noteq> ReadError e" if "supplies reader ys" for ys
    proof
      assume "reader (length ys) = ReadError e"
      with same [OF whole(2) stop that] whole(3) show False by simp
    qed
    show ?thesis unfolding whole(4) sum.inject sum.distinct simp_thms
      using whole(1-3) eq few fine by blast
  next
    case (too_large bs)
    have no_stop: "reader (length ys) \<noteq> EndOfFile \<and> reader (length ys) \<noteq> ReadError e"
      if "length ys \<le> MAX_SPEC_BYTES" for ys
      using short [OF too_large(2), of ys] too_large(1) that by auto
    show ?thesis using too_large(1,2) no_stop
      by (simp only: too_large(3) sum.inject sum.simps cli_error.simps simp_thms) blast
  next
    case (failed bs e')
    then have stop: "?stops (length bs)" by simp
    have few: "length ys \<noteq> Suc MAX_SPEC_BYTES" if "supplies reader ys" for ys
      using short [OF that stop] failed(1) by linarith
    have same_error: "reader (length ys) = ReadError e'" if "supplies reader ys" "?stops (length ys)" for ys
      using same [OF that failed(2) stop] failed(3) by simp
    show ?thesis using failed(1-3) few same_error
      by (simp only: failed(4) sum.inject sum.simps cli_error.simps simp_thms) (metis reader_event.distinct(5) reader_event.inject(2))
  qed
qed

text \<open>\<open>read_bounded\<close> returns a content exactly when the reader supplies it and then ends within
  16 MiB; it refuses the input exactly when the reader supplies one byte more, and reports a read
  error exactly when it occurs before. What the reader would give beyond that byte has no influence.\<close>

lemma read_bounded_exact:
  "(read_bounded reader = (Inr bytes :: ('v, 'q) cli_error + str) \<longleftrightarrow>
     length bytes \<le> MAX_SPEC_BYTES \<and> supplies reader bytes \<and> reader (length bytes) = EndOfFile) \<and>
   (read_bounded reader = (Inl InputTooLarge :: ('v, 'q) cli_error + str) \<longleftrightarrow> (\<exists>bs. length bs = Suc MAX_SPEC_BYTES \<and> supplies reader bs)) \<and>
   (read_bounded reader = (Inl (CliRead e) :: ('v, 'q) cli_error + str) \<longleftrightarrow>
     (\<exists>bs. length bs \<le> MAX_SPEC_BYTES \<and> supplies reader bs \<and> reader (length bs) = ReadError e))"
  by (rule read_bounded_outcomes)

section \<open>The check command\<close>

lemma stdin_paths: "same_path ''-/'' ''-''" "same_path ''-/.'' ''-''" "\<not> same_path ''./-'' ''-''" "\<not> same_path ''/-'' ''-''"
  by (simp_all add: same_path_def path_components_def)

definition reads :: "('v, 'q) cli_library \<Rightarrow> str \<Rightarrow> str \<Rightarrow> bool" where
  \<comment> \<open>the file, or standard input, opens and holds these bytes, within the bound\<close>
  "reads lib path bytes \<longleftrightarrow> (\<exists>reader. (if same_path path ''-'' then reader = lib_stdin lib else lib_open lib path = Inr reader) \<and>
     length bytes \<le> MAX_SPEC_BYTES \<and> supplies reader bytes \<and> reader (length bytes) = EndOfFile)"

definition decodes_well_formed :: "('v, 'q) cli_library \<Rightarrow> bool" where
  \<comment> \<open>\<open>serde_json\<close> builds descriptors with \<open>PluginDescriptor::deserialize\<close> only\<close>
  "decodes_well_formed lib \<longleftrightarrow> (\<forall>bytes spec. lib_from_slice lib bytes = Inr spec \<longrightarrow>
     (\<forall>d \<in> set (spec_plugins spec). descriptor_wf d))"

definition attributed_spec :: "('v, 'q) composition_spec \<Rightarrow> bool" where
  "attributed_spec spec \<longleftrightarrow> 3 \<le> length (spec_plugins spec) \<and>
     (\<forall>d \<in> set (spec_plugins spec). package_of d \<noteq> None) \<and> distinct (map package_of (spec_plugins spec))"

definition check_summary :: "('q \<Rightarrow> 'v \<Rightarrow> bool) \<Rightarrow> ('v, 'q) composition_spec \<Rightarrow> bool \<Rightarrow> str" where
  "check_summary matches spec verified =
     (let ds = spec_plugins spec; bs = spec_bindings spec;
          plugins = decimal (length ds);
          edges = decimal (length (dependency_edges matches ds bs))
      in if verified then
           ''verified: '' @ plugins @ '' plugin(s), '' @ plugins @ '' source package(s), '' @ edges @ '' edge(s), schema 1''
         else
           ''valid: '' @ plugins @ '' plugin(s), '' @ edges @ '' edge(s), '' @
             decimal (card (expected_diagnostics matches ds bs)) @ '' diagnostic(s), schema 1'')"

lemma resolved_plugins_mset:
  assumes "valid_composition matches spec" and "resolves_to matches spec g"
  shows "mset (bm_values (rg_plugins g)) = mset (spec_plugins spec)"
proof -
  have wf: "bm_wf (rg_plugins g)" and ps: "set (rg_plugins g) = (\<lambda>d. (pd_id d, d)) ` set (spec_plugins spec)"
    using assms(2) by (simp_all add: resolves_to_def Let_def)
  have "distinct (map pd_id (spec_plugins spec))" using assms(1) by (simp add: valid_composition_def Let_def)
  then have ds: "distinct (spec_plugins spec)" by (simp add: distinct_map)
  have "distinct (map fst (rg_plugins g))" using bm_wf_distinct [OF wf] by (simp add: bm_keys_def)
  moreover have "map fst (rg_plugins g) = map pd_id (bm_values (rg_plugins g))"
    using ps by (auto simp: bm_values_def)
  ultimately have vs: "distinct (bm_values (rg_plugins g))" by (simp add: distinct_map)
  have "set (bm_values (rg_plugins g)) = set (spec_plugins spec)" by (auto simp: bm_values_def ps image_image)
  with ds vs show ?thesis by (simp add: set_eq_iff_mset_eq_distinct)
qed

lemma attributed_resolved:
  assumes "valid_composition matches spec" and "resolves_to matches spec g"
  shows "attributed g \<longleftrightarrow> attributed_spec spec"
proof -
  note m = resolved_plugins_mset [OF assms]
  have "length (rg_plugins g) = length (bm_values (rg_plugins g))" by (simp add: bm_values_def)
  also have "\<dots> = length (spec_plugins spec)" using m by (rule mset_eq_length)
  moreover have "set (bm_values (rg_plugins g)) = set (spec_plugins spec)" using m by (rule mset_eq_setD)
  moreover have "distinct (map package_of (bm_values (rg_plugins g))) \<longleftrightarrow> distinct (map package_of (spec_plugins spec))"
    using m by (intro mset_eq_imp_distinct_iff) simp
  ultimately show ?thesis by (simp add: attributed_def attributed_spec_def)
qed

lemma resolved_counts:
  assumes "valid_composition matches spec" and "resolves_to matches spec g"
  shows "length (rg_plugins g) = length (spec_plugins spec)"
    and "rg_edges g = dependency_edges matches (spec_plugins spec) (spec_bindings spec)"
    and "length (rg_diagnostics g) = card (expected_diagnostics matches (spec_plugins spec) (spec_bindings spec))"
proof -
  have "length (rg_plugins g) = length (bm_values (rg_plugins g))" by (simp add: bm_values_def)
  then show "length (rg_plugins g) = length (spec_plugins spec)"
    using mset_eq_length [OF resolved_plugins_mset [OF assms]] by simp
  have "ascending (rg_diagnostics g)" and
    "set (rg_diagnostics g) = expected_diagnostics matches (spec_plugins spec) (spec_bindings spec)"
    and "rg_edges g = dependency_edges matches (spec_plugins spec) (spec_bindings spec)"
    using assms(2) by (simp_all add: resolves_to_def Let_def)
  then show "rg_edges g = dependency_edges matches (spec_plugins spec) (spec_bindings spec)"
    "length (rg_diagnostics g) = card (expected_diagnostics matches (spec_plugins spec) (spec_bindings spec))"
    using distinct_card [OF ascending_distinct] by metis+
qed

lemma load_and_resolve_ok:
  "load_and_resolve lib path = Inr (g, r) \<longleftrightarrow> r = report g \<and>
     (\<exists>bytes spec. reads lib path bytes \<and> lib_from_slice lib bytes = Inr spec \<and> resolve (lib_matches lib) spec = Inr g)"
  by (auto simp: load_and_resolve_def reads_def result_simps read_bounded_outcomes map_err_iff)

lemma map_fault_Panic: "Panic = map_fault f x \<longleftrightarrow> x = Panic"
  by (cases x) auto

lemma load_and_resolve_no_panic:
  assumes "decodes_well_formed lib"
  shows "load_and_resolve lib path \<noteq> Inl Panic"
proof
  assume "load_and_resolve lib path = Inl Panic"
  then obtain bytes spec where "lib_from_slice lib bytes = Inr spec" "resolve (lib_matches lib) spec = Inl Panic"
    by (auto simp: load_and_resolve_def and_then_Inl_iff map_err_iff map_fault_Panic fallible_eq_iff split: if_splits)
  with assms resolve_never_panics show False by (metis decodes_well_formed_def)
qed

definition check_accepts :: "('v, 'q) cli_library \<Rightarrow> str \<Rightarrow> bool \<Rightarrow> ('v, 'q) composition_spec \<Rightarrow> bool" where
  "check_accepts lib path verified spec \<longleftrightarrow>
     (\<exists>bytes. reads lib path bytes \<and> lib_from_slice lib bytes = Inr spec) \<and>
     valid_composition (lib_matches lib) spec \<and> (verified \<longrightarrow> attributed_spec spec)"

lemma run_check_ok:
  assumes "decodes_well_formed lib"
  shows "run_cli lib (Check path verified) = Inr out \<longleftrightarrow>
    (\<exists>spec. check_accepts lib path verified spec \<and> out = check_summary (lib_matches lib) spec verified)"
proof -
  let ?out = "\<lambda>g. if verified then
      verified_summary \<lparr>att_plugin_count = length (rg_plugins g),
        att_source_packages = map (the \<circ> package_of) (bm_values (rg_plugins g))\<rparr> (report g)
    else valid_summary (report g)"
  have run: "run_cli lib (Check path verified) = Inr out \<longleftrightarrow>
      (\<exists>g. load_and_resolve lib path = Inr (g, report g) \<and> (verified \<longrightarrow> attributed g) \<and> out = ?out g)"
  proof (cases "load_and_resolve lib path")
    case (Inr l)
    then obtain g where "load_and_resolve lib path = Inr (g, report g)"
      using load_and_resolve_ok by (metis prod.collapse)
    then show ?thesis
      by (auto simp: run_cli_def result_simps map_err_iff verify_graph_attribution_ok)
  qed (simp add: run_cli_def)
  have summary: "?out g = check_summary (lib_matches lib) spec verified"
    if "valid_composition (lib_matches lib) spec" "resolves_to (lib_matches lib) spec g" for g spec
    using resolved_counts [OF that]
    by (simp add: check_summary_def Let_def verified_summary_def valid_summary_def report_def bm_values_def
        GRAPH_REPORT_SCHEMA_VERSION_def decimal_one)
  have correct: "resolve (lib_matches lib) spec = Inr g \<longleftrightarrow>
      valid_composition (lib_matches lib) spec \<and> resolves_to (lib_matches lib) spec g"
    if "lib_from_slice lib bytes = Inr spec" for bytes spec g
    using resolve_correct that assms by (metis decodes_well_formed_def)
  show ?thesis
  proof
    assume "run_cli lib (Check path verified) = Inr out"
    then obtain g bytes spec where g: "verified \<longrightarrow> attributed g" "out = ?out g" "reads lib path bytes"
      "lib_from_slice lib bytes = Inr spec" "resolve (lib_matches lib) spec = Inr g"
      unfolding run load_and_resolve_ok by blast
    have "valid_composition (lib_matches lib) spec" "resolves_to (lib_matches lib) spec g"
      using correct [OF g(4), of g] g(5) by blast+
    with g summary [OF this] attributed_resolved [OF this]
    show "\<exists>spec. check_accepts lib path verified spec \<and> out = check_summary (lib_matches lib) spec verified"
      unfolding check_accepts_def by metis
  next
    assume "\<exists>spec. check_accepts lib path verified spec \<and> out = check_summary (lib_matches lib) spec verified"
    then obtain spec bytes where spec: "reads lib path bytes" "lib_from_slice lib bytes = Inr spec"
      "valid_composition (lib_matches lib) spec" "verified \<longrightarrow> attributed_spec spec"
      "out = check_summary (lib_matches lib) spec verified"
      unfolding check_accepts_def by blast
    obtain g where g: "resolve (lib_matches lib) spec = Inr g"
      using resolve_complete(1) [OF _ spec(3)] assms spec(2) unfolding decodes_well_formed_def by metis
    then have "resolves_to (lib_matches lib) spec g" using correct [OF spec(2), of g] by blast
    with g spec summary [OF spec(3) this] attributed_resolved [OF spec(3) this]
    show "run_cli lib (Check path verified) = Inr out"
      unfolding run load_and_resolve_ok by metis
  qed
qed

lemma run_check_no_panic:
  assumes "decodes_well_formed lib"
  shows "run_cli lib (Check path verified) \<noteq> Inl Panic"
  using load_and_resolve_no_panic [OF assms, of path] by (auto simp: run_cli_def and_then_Inl_iff split: if_splits)

text \<open>C27: for a decoder that yields well-formed descriptors, \<open>check\<close> exits with 0 exactly when the
  input is at most 16 MiB, decodes, is a valid composition and, with \<open>--verified\<close>, is attributed; it
  then prints exactly the summary of that composition. Otherwise it exits with 2, prints nothing on
  standard output and one tagged line on standard error. It never panics.\<close>

theorem check_command_exact:
  assumes "decodes_well_formed lib" and "lib_parse_from lib (prog # arguments) = Inr (Check path verified)"
    and "arguments = [] \<or> hd arguments \<noteq> ''kernox''"
  shows "\<exists>p. cli_main lib (prog # arguments) = Some p \<and> cli_main lib (prog # ''kernox'' # arguments) = Some p \<and>
    (pr_exit p = 0 \<longleftrightarrow> (\<exists>spec. check_accepts lib path verified spec)) \<and>
    (\<forall>spec. check_accepts lib path verified spec \<longrightarrow>
       pr_stdout p = check_summary (lib_matches lib) spec verified @ [CHR 0x0A] \<and> pr_stderr p = []) \<and>
    (pr_exit p \<noteq> 0 \<longrightarrow> pr_exit p = 2 \<and> pr_stdout p = [] \<and>
       (\<exists>e. pr_stderr p = cli_error_tag e @ '': '' @ cli_error_display lib e @ [CHR 0x0A]))"
proof -
  have main: "cli_main lib args = (case run_cli lib (Check path verified) of
      Inr output \<Rightarrow> Some \<lparr>pr_exit = 0, pr_stdout = output @ [CHR 0x0A], pr_stderr = []\<rparr>
    | Inl Panic \<Rightarrow> None
    | Inl (Err error) \<Rightarrow> Some \<lparr>pr_exit = 2, pr_stdout = [],
        pr_stderr = cli_error_tag error @ '': '' @ cli_error_display lib error @ [CHR 0x0A]\<rparr>)"
    if "args = prog # arguments \<or> args = prog # ''kernox'' # arguments" for args
    using assms(2,3) that by (cases arguments) (auto simp: cli_main_def Let_def)
  show ?thesis
  proof (cases "run_cli lib (Check path verified)")
    case (Inr out)
    note run = run_check_ok [OF assms(1), of path verified]
    from run Inr have "\<exists>spec. check_accepts lib path verified spec" by blast
    moreover have "out = check_summary (lib_matches lib) spec verified" if "check_accepts lib path verified spec" for spec
      using run [of "check_summary (lib_matches lib) spec verified"] that Inr by auto
    ultimately show ?thesis using Inr by (simp add: main)
  next
    case (Inl f)
    then obtain e where "f = Err e" using run_check_no_panic [OF assms(1)] by (metis fault.exhaust)
    moreover have "\<nexists>spec. check_accepts lib path verified spec"
      using run_check_ok [OF assms(1), of path verified] Inl by (metis sum.distinct(1))
    ultimately show ?thesis using Inl by (auto simp: main)
  qed
qed

definition sample_library :: "(nat, nat) cli_library" where
  \<comment> \<open>standard input holds two bytes, which decode to the sample composition\<close>
  "sample_library =
     \<lparr>lib_matches = sample_matches, lib_stdin = (\<lambda>i. if i < 2 then Byte (''{}'' ! i) else EndOfFile),
      lib_open = (\<lambda>_. Inl ''not found''), lib_from_slice = (\<lambda>_. Inr sample_spec),
      lib_to_string_pretty = (\<lambda>_. Inr ''{}''), lib_resolve_display = (\<lambda>_. []),
      lib_attribution_display = (\<lambda>_. []), lib_parse_from = (\<lambda>_. Inr (Check ''-'' False))\<rparr>"

lemma sample_library_accepts: "check_accepts sample_library ''-'' False sample_spec"
proof -
  have "reads sample_library ''-'' ''{}''"
    by (simp add: reads_def same_path_def sample_library_def supplies_def MAX_SPEC_BYTES_def)
  moreover have "valid_composition sample_matches sample_spec"
    using resolve_correct [OF sample_wf] sample_resolves by blast
  ultimately show ?thesis by (auto simp: check_accepts_def sample_library_def)
qed

lemma check_command_exact_witness:
  "\<exists>p. cli_main sample_library [''cargo-kernox'', ''check'', ''-''] = Some p \<and> pr_exit p = 0 \<and>
     pr_stdout p = ''valid: 3 plugin(s), 1 edge(s), 2 diagnostic(s), schema 1'' @ [CHR 0x0A]"
proof -
  have "decodes_well_formed sample_library"
    using sample_wf by (simp add: decodes_well_formed_def sample_library_def)
  moreover have "lib_parse_from sample_library (''cargo-kernox'' # [''check'', ''-'']) = Inr (Check ''-'' False)"
    by (simp add: sample_library_def)
  moreover have "[''check'', ''-''] = [] \<or> hd [''check'', ''-''] \<noteq> ''kernox''" by simp
  moreover have "expected_diagnostics sample_matches (spec_plugins sample_spec) (spec_bindings sample_spec) =
      set (rg_diagnostics sample_graph)"
    using resolve_correct [OF sample_wf] sample_resolves by (simp add: resolves_to_def Let_def)
  then have "check_summary (lib_matches sample_library) sample_spec False =
      ''valid: '' @ decimal (length (spec_plugins sample_spec)) @ '' plugin(s), '' @
      decimal (length (dependency_edges sample_matches (spec_plugins sample_spec) (spec_bindings sample_spec))) @ '' edge(s), '' @
      decimal (card (set (rg_diagnostics sample_graph))) @ '' diagnostic(s), schema 1''"
    by (simp add: check_summary_def sample_library_def Let_def)
  moreover have "\<dots> = ''valid: 3 plugin(s), 1 edge(s), 2 diagnostic(s), schema 1''" by code_simp
  ultimately show ?thesis
    using check_command_exact [of sample_library "''cargo-kernox''" "[''check'', ''-'']" "''-''" False]
      sample_library_accepts by fastforce
qed

section \<open>The DOT rendering\<close>

definition dot_fields :: "str \<Rightarrow> str list" where
  \<comment> \<open>the quoted fields of a line\<close>
  "dot_fields line = (case split_on CHR 0x22 line of
     [_, a, _] \<Rightarrow> [a] | [_, a, _, b, _, c, _] \<Rightarrow> [a, b, c] | _ \<Rightarrow> [])"

definition read_dot :: "str \<Rightarrow> plugin_id list \<times> resolved_edge list" where
  \<comment> \<open>the nodes and the edges of a rendered graph\<close>
  "read_dot s =
     (let fields = map dot_fields (split_on CHR 0x0A s)
      in (concat (map (\<lambda>fs. case fs of [a] \<Rightarrow> [PluginId a] | _ \<Rightarrow> []) fields),
          concat (map (\<lambda>fs. case fs of
            [a, b, c] \<Rightarrow> [ResolvedEdge (PluginId a) (PluginId b) (CapabilityId c)] | _ \<Rightarrow> []) fields)))"

definition plain :: "str \<Rightarrow> bool" where
  "plain s \<longleftrightarrow> CHR 0x22 \<notin> set s \<and> CHR 0x0A \<notin> set s"

lemma canonical_identifier_plain:
  assumes "canonical_identifier s"
  shows "plain s"
proof -
  obtain segs where "s = join_with ''.'' segs" "\<forall>seg \<in> set segs. canonical_segment seg"
    using assms by (auto simp: canonical_identifier_def)
  moreover have "CHR 0x22 \<notin> set seg \<and> CHR 0x0A \<notin> set seg" if "canonical_segment seg" for seg
    using that by (auto simp: canonical_segment_def is_segment_byte_def is_ascii_lowercase_def is_ascii_digit_def
        less_eq_char_def)
  moreover have "set (join_with d xss) \<subseteq> set d \<union> \<Union> (set ` set xss)" for d :: str and xss
    by (induction d xss rule: join_with.induct) auto
  ultimately show ?thesis unfolding plain_def by fastforce
qed

lemma split_on_separator: "d \<notin> set s \<Longrightarrow> split_on d (s @ d # r) = s # split_on d r"
  by (simp add: split_on_prefix)

lemma split_on_none: "d \<notin> set s \<Longrightarrow> split_on d s = [s]"
  using split_on_prefix [of d s "[]"] by simp

lemma split_lines:
  "\<forall>l \<in> set ls. d \<notin> set l \<Longrightarrow> split_on d (concat (map (\<lambda>l. l @ [d]) ls)) = ls @ [[]]"
  by (induction ls) (simp_all add: split_on_separator)

lemma dot_plugin_fields:
  assumes "plain (plugin_id_as_str (ps_id p))"
  shows "\<exists>l. dot_plugin p = l @ [CHR 0x0A] \<and> CHR 0x0A \<notin> set l \<and> dot_fields l = [plugin_id_as_str (ps_id p)]"
proof -
  have "split_on CHR 0x22 (''  '' @ quoted (plugin_id_as_str (ps_id p)) @ '';'') =
      [''  '', plugin_id_as_str (ps_id p), '';'']"
    using assms by (simp add: plain_def quoted_def split_on_separator split_on_none)
  then have "dot_fields (''  '' @ quoted (plugin_id_as_str (ps_id p)) @ '';'') = [plugin_id_as_str (ps_id p)]"
    by (simp only: dot_fields_def list.case)
  with assms show ?thesis
    by (intro exI [of _ "''  '' @ quoted (plugin_id_as_str (ps_id p)) @ '';''"])
      (simp add: dot_plugin_def plain_def quoted_def)
qed

lemma dot_edge_fields:
  assumes "plain (plugin_id_as_str (edge_provider e))" and "plain (plugin_id_as_str (edge_consumer e))"
    and "plain (capability_id_as_str (edge_capability e))"
  shows "\<exists>l. dot_edge e = l @ [CHR 0x0A] \<and> CHR 0x0A \<notin> set l \<and> dot_fields l =
    [plugin_id_as_str (edge_provider e), plugin_id_as_str (edge_consumer e), capability_id_as_str (edge_capability e)]"
proof -
  let ?l = "''  '' @ quoted (plugin_id_as_str (edge_provider e)) @ '' -> '' @
     quoted (plugin_id_as_str (edge_consumer e)) @ '' [label='' @
     quoted (capability_id_as_str (edge_capability e)) @ ''];''"
  have "split_on CHR 0x22 ?l = [''  '', plugin_id_as_str (edge_provider e), '' -> '',
      plugin_id_as_str (edge_consumer e), '' [label='', capability_id_as_str (edge_capability e), ''];'']"
    using assms by (simp add: plain_def quoted_def split_on_separator split_on_none)
  then have "dot_fields ?l = [plugin_id_as_str (edge_provider e), plugin_id_as_str (edge_consumer e),
      capability_id_as_str (edge_capability e)]"
    by (simp only: dot_fields_def list.case)
  with assms show ?thesis
    by (intro exI [of _ ?l]) (simp add: dot_edge_def plain_def quoted_def)
qed

lemma lines_of:
  assumes "\<forall>x \<in> set xs. \<exists>l. f x = l @ [d] \<and> d \<notin> set l \<and> dot_fields l = g x"
  obtains ls where "concat (map f xs) = concat (map (\<lambda>l. l @ [d]) ls)" and "\<forall>l \<in> set ls. d \<notin> set l"
    and "map dot_fields ls = map g xs"
  using assms
proof (induction xs arbitrary: thesis)
  case (Cons x xs)
  from Cons.prems(2) obtain l where l: "f x = l @ [d]" "d \<notin> set l" "dot_fields l = g x" by auto
  obtain ls where ls: "concat (map f xs) = concat (map (\<lambda>l. l @ [d]) ls)" "\<forall>l \<in> set ls. d \<notin> set l"
    "map dot_fields ls = map g xs"
    using Cons.IH Cons.prems(2) by auto
  show ?case using l ls by (intro Cons.prems(1) [of "l # ls"]) simp_all
qed simp

definition named_canonically :: "'v graph_report \<Rightarrow> bool" where
  \<comment> \<open>every identifier in the report was accepted by its constructor\<close>
  "named_canonically r \<longleftrightarrow>
     (\<forall>p \<in> set (rep_plugins r). plugin_id_new (plugin_id_as_str (ps_id p)) = Inr (ps_id p)) \<and>
     (\<forall>e \<in> set (rep_edges r). plugin_id_new (plugin_id_as_str (edge_provider e)) = Inr (edge_provider e) \<and>
        plugin_id_new (plugin_id_as_str (edge_consumer e)) = Inr (edge_consumer e) \<and>
        capability_id_new (capability_id_as_str (edge_capability e)) = Inr (edge_capability e))"

lemma fold_append: "fold (\<lambda>x acc. acc @ f x) xs acc = acc @ concat (map f xs)"
  by (induction xs arbitrary: acc) simp_all

text \<open>C35: for a report whose identifiers are canonical, the DOT rendering determines the graph: the
  plugins and the edges, in their order, are read back from it.\<close>

theorem render_dot_roundtrip:
  assumes "named_canonically r"
  shows "\<exists>out. render_dot r = (Inr out :: ('v, 'q) cli_error + _) \<and>
    read_dot out = (map ps_id (rep_plugins r), rep_edges r)"
proof -
  let ?pf = "\<lambda>p. [plugin_id_as_str (ps_id p)]"
    and ?ef = "\<lambda>e. [plugin_id_as_str (edge_provider e), plugin_id_as_str (edge_consumer e), capability_id_as_str (edge_capability e)]"
  have plain: "plugin_id_new s = Inr p \<Longrightarrow> plain s" "capability_id_new s = Inr c \<Longrightarrow> plain s" for s p c
    by (auto simp: plugin_id_new_def capability_id_new_def result_simps validate_identifier_ok
        intro: canonical_identifier_plain)
  obtain ps where ps: "concat (map dot_plugin (rep_plugins r)) = concat (map (\<lambda>l. l @ [CHR 0x0A]) ps)"
    "\<forall>l \<in> set ps. CHR 0x0A \<notin> set l" "map dot_fields ps = map ?pf (rep_plugins r)"
    by (rule lines_of [of "rep_plugins r" dot_plugin "CHR 0x0A" ?pf])
      (use assms in \<open>auto simp: named_canonically_def intro!: dot_plugin_fields intro: plain\<close>)
  obtain es where es: "concat (map dot_edge (rep_edges r)) = concat (map (\<lambda>l. l @ [CHR 0x0A]) es)"
    "\<forall>l \<in> set es. CHR 0x0A \<notin> set l" "map dot_fields es = map ?ef (rep_edges r)"
    by (rule lines_of [of "rep_edges r" dot_edge "CHR 0x0A" ?ef])
      (use assms in \<open>auto simp: named_canonically_def intro!: dot_edge_fields intro: plain\<close>)
  define out where "out = concat (map (\<lambda>l. l @ [CHR 0x0A])
    ([''digraph kernox {'', ''  rankdir=LR;''] @ ps @ es @ [''}'']))"
  have "render_dot r = (Inr out :: ('v, 'q) cli_error + _)"
    by (simp add: render_dot_def fold_append ps(1) es(1) out_def)
  moreover have "split_on CHR 0x0A out = ([''digraph kernox {'', ''  rankdir=LR;''] @ ps @ es @ [''}'']) @ [[]]"
    unfolding out_def by (rule split_lines) (use ps(2) es(2) in auto)
  then have "map dot_fields (split_on CHR 0x0A out) =
      [[], []] @ map ?pf (rep_plugins r) @ map ?ef (rep_edges r) @ [[], []]"
    by (simp add: ps(3) es(3)) (simp add: dot_fields_def)
  then have "read_dot out = (map ps_id (rep_plugins r), rep_edges r)"
    by (simp add: read_dot_def comp_def)
  ultimately show ?thesis by blast
qed

lemma render_dot_roundtrip_witness:
  "\<exists>out. render_dot (report sample_graph) = (Inr out :: (nat, nat) cli_error + _) \<and>
     read_dot out = (map ps_id (rep_plugins (report sample_graph)), rep_edges (report sample_graph))"
proof -
  have "named_canonically (report sample_graph)" by code_simp
  from render_dot_roundtrip [OF this] show ?thesis .
qed

end
