(* ===== verification/Float64.thy ===== *)
theory Float64
  imports Text_Numbers Complex_Main "HOL-Library.Log_Nat"
begin

text \<open>
  Rust's \<open>f64\<close> as far as the benchmark gate of \<open>xtask\<close> uses it: IEEE 754 binary64 with exact
  rational values, rounding to nearest with ties to even, gradual underflow and overflow to an
  infinity. There is one zero; the sign of a zero, which only printing shows, is not kept. The
  theorem of this file is that rounding is monotone.
\<close>

section \<open>Values and rounding\<close>

datatype f64 = NaN | Infinite bool | Finite rat      \<comment> \<open>\<open>Infinite True\<close> is the positive one\<close>

definition pow2 :: "int \<Rightarrow> rat" where
  "pow2 e = (if 0 \<le> e then 2 ^ nat e else 1 / 2 ^ nat (- e))"

definition ilog2 :: "rat \<Rightarrow> int" where
  \<comment> \<open>the exponent of the leading bit of a positive number\<close>
  "ilog2 q =
     (case quotient_of q of (n, d) \<Rightarrow>
        let k = bitlen n - bitlen d
        in if pow2 k \<le> q then k else k - 1)"

definition round_half_even :: "rat \<Rightarrow> int" where
  "round_half_even q =
     (let f = \<lfloor>q\<rfloor>; r = q - of_int f
      in if r < 1 / 2 then f else if 1 / 2 < r then f + 1 else if even f then f else f + 1)"

definition round_magnitude :: "rat \<Rightarrow> rat" where
  \<comment> \<open>a positive number to 53 bits, or to the least subnormal's place\<close>
  "round_magnitude q =
     (let e = max (ilog2 q - 52) (- 1074) in of_int (round_half_even (q / pow2 e)) * pow2 e)"

definition round64 :: "rat \<Rightarrow> f64" where
  "round64 q =
     (if q = 0 then Finite 0
      else
        let r = round_magnitude \<bar>q\<bar>
        in if pow2 1024 \<le> r then Infinite (0 < q) else Finite (if q < 0 then - r else r))"

section \<open>Operations\<close>

fun is_finite :: "f64 \<Rightarrow> bool" where
  "is_finite (Finite _) = True"
| "is_finite _ = False"

fun f64_le :: "f64 \<Rightarrow> f64 \<Rightarrow> bool" where
  \<comment> \<open>\<open><=\<close>, false on a NaN\<close>
  "f64_le (Finite a) (Finite b) \<longleftrightarrow> a \<le> b"
| "f64_le (Infinite a) (Infinite b) \<longleftrightarrow> a \<longrightarrow> b"
| "f64_le (Infinite a) (Finite _) \<longleftrightarrow> \<not> a"
| "f64_le (Finite _) (Infinite b) \<longleftrightarrow> b"
| "f64_le _ _ \<longleftrightarrow> False"

definition f64_gt :: "f64 \<Rightarrow> f64 \<Rightarrow> bool" where
  "f64_gt a b \<longleftrightarrow> a \<noteq> NaN \<and> b \<noteq> NaN \<and> \<not> f64_le a b"

fun f64_neg :: "f64 \<Rightarrow> f64" where
  "f64_neg (Finite a) = Finite (- a)"
| "f64_neg (Infinite a) = Infinite (\<not> a)"
| "f64_neg NaN = NaN"

fun f64_add :: "f64 \<Rightarrow> f64 \<Rightarrow> f64" where
  "f64_add (Finite a) (Finite b) = round64 (a + b)"
| "f64_add (Infinite a) (Finite _) = Infinite a"
| "f64_add (Finite _) (Infinite b) = Infinite b"
| "f64_add (Infinite a) (Infinite b) = (if a = b then Infinite a else NaN)"
| "f64_add _ _ = NaN"

definition f64_sub :: "f64 \<Rightarrow> f64 \<Rightarrow> f64" where
  "f64_sub a b = f64_add a (f64_neg b)"

fun f64_div :: "f64 \<Rightarrow> f64 \<Rightarrow> f64" where
  \<comment> \<open>the sign of a zero divisor is taken as positive\<close>
  "f64_div (Finite a) (Finite b) =
     (if b \<noteq> 0 then round64 (a / b) else if a = 0 then NaN else Infinite (0 < a))"
| "f64_div (Infinite a) (Finite b) = Infinite (a = (0 \<le> b))"
| "f64_div (Finite _) (Infinite _) = Finite 0"
| "f64_div _ _ = NaN"

fun f64_min :: "f64 \<Rightarrow> f64 \<Rightarrow> f64" where
  \<comment> \<open>a NaN is ignored\<close>
  "f64_min NaN b = b"
| "f64_min a NaN = a"
| "f64_min a b = (if f64_le a b then a else b)"

fun f64_max :: "f64 \<Rightarrow> f64 \<Rightarrow> f64" where
  "f64_max NaN b = b"
| "f64_max a NaN = a"
| "f64_max a b = (if f64_le a b then b else a)"

definition f64_midpoint :: "f64 \<Rightarrow> f64 \<Rightarrow> f64" where
  \<comment> \<open>\<open>f64::midpoint\<close>: the average, computed without an intermediate overflow\<close>
  "f64_midpoint a b =
     (case (a, b) of
        (Finite a, Finite b) \<Rightarrow> round64 ((a + b) / 2)
      | _ \<Rightarrow> f64_div (f64_add a b) (Finite 2))"

definition total_key :: "f64 \<Rightarrow> int \<times> rat" where
  \<comment> \<open>\<open>total_cmp\<close> orders by this key; a NaN is taken as positive and so the greatest\<close>
  "total_key a = (case a of Infinite False \<Rightarrow> (0, 0) | Finite q \<Rightarrow> (1, q) | Infinite True \<Rightarrow> (2, 0) | NaN \<Rightarrow> (3, 0))"

section \<open>Printing\<close>

definition fixed6 :: "f64 \<Rightarrow> str" where
  \<comment> \<open>the format \<open>{:.6}\<close>\<close>
  "fixed6 a =
     (case a of
        NaN \<Rightarrow> ''NaN''
      | Infinite True \<Rightarrow> ''inf''
      | Infinite False \<Rightarrow> ''-inf''
      | Finite q \<Rightarrow>
          let m = nat (round_half_even (\<bar>q\<bar> * 1000000)); digits = decimal (m mod 1000000)
          in (if q < 0 then ''-'' else []) @ decimal (m div 1000000) @ ''.'' @
             replicate (6 - length digits) CHR ''0'' @ digits)"

section \<open>Powers of two\<close>

lemma pow2_powi: "pow2 e = 2 powi e"
  unfolding pow2_def power_int_def by (simp add: power_one_over)

lemma pow2_pos [simp]: "0 < pow2 e" "pow2 e \<noteq> 0" "0 \<le> pow2 e"
  by (simp_all add: pow2_powi)

lemma pow2_add: "pow2 (a + b) = pow2 a * pow2 b"
  by (simp add: pow2_powi power_int_add)

lemma pow2_mono: "a \<le> b \<Longrightarrow> pow2 a \<le> pow2 b"
  by (simp add: pow2_powi power_int_increasing)

lemma pow2_strict: "a < b \<Longrightarrow> pow2 a < pow2 b"
  by (simp add: pow2_powi power_int_strict_increasing)

lemma pow2_nat: "0 \<le> e \<Longrightarrow> pow2 e = of_int (2 ^ nat e)"
  by (simp add: pow2_def)

lemma ilog2_bounds:
  assumes "0 < q"
  shows "pow2 (ilog2 q) \<le> q" and "q < pow2 (ilog2 q + 1)"
proof -
  obtain n d where nd: "quotient_of q = (n, d)" by (cases "quotient_of q")
  have d: "0 < d" and q: "q = of_int n / of_int d"
    using quotient_of_denom_pos [OF nd] quotient_of_div [OF nd] by auto
  with assms have n: "0 < n" by (simp add: zero_less_divide_iff)
  have bound: "pow2 (bitlen x - 1) \<le> of_int x \<and> of_int x < pow2 (bitlen x)" if "0 < x" for x
  proof -
    have "1 \<le> bitlen x" using that bitlen_nonneg [of x] bitlen_eq_zero_iff [of x] by linarith
    then have "pow2 (bitlen x - 1) = of_int (2 ^ nat (bitlen x - 1))" "pow2 (bitlen x) = of_int (2 ^ nat (bitlen x))"
      by (intro pow2_nat; simp)+
    with bitlen_bounds [OF that] show ?thesis by (simp only: of_int_le_iff of_int_less_iff)
  qed
  let ?k = "bitlen n - bitlen d"
  have "pow2 (bitlen n - 1) / pow2 (bitlen d) < q" "q < pow2 (bitlen n) / pow2 (bitlen d - 1)"
    unfolding q using bound [OF n] bound [OF d] d n by (intro frac_less2 frac_less; simp)+
  moreover have "pow2 (bitlen n - 1) = pow2 (?k - 1) * pow2 (bitlen d)"
    "pow2 (bitlen n) = pow2 (?k + 1) * pow2 (bitlen d - 1)"
    by (simp_all flip: pow2_add)
  ultimately have "pow2 (?k - 1) < q" "q < pow2 (?k + 1)" by simp_all
  then show "pow2 (ilog2 q) \<le> q" and "q < pow2 (ilog2 q + 1)"
    unfolding ilog2_def nd by (simp_all add: Let_def)
qed

lemma ilog2_le:
  assumes "0 < p" and "p \<le> q"
  shows "ilog2 p \<le> ilog2 q"
proof (rule ccontr)
  assume "\<not> ilog2 p \<le> ilog2 q"
  then have "pow2 (ilog2 q + 1) \<le> pow2 (ilog2 p)" by (intro pow2_mono) simp
  with ilog2_bounds(1) [OF assms(1)] ilog2_bounds(2) [of q] assms show False by simp
qed

section \<open>Rounding is monotone\<close>

lemma round_half_even_near: "\<lfloor>q\<rfloor> \<le> round_half_even q" "round_half_even q \<le> \<lfloor>q\<rfloor> + 1"
  by (auto simp: round_half_even_def Let_def)

lemma round_half_even_int [simp]: "round_half_even (of_int n) = n"
  by (simp add: round_half_even_def)

lemma round_half_even_mono:
  assumes "p \<le> q"
  shows "round_half_even p \<le> round_half_even q"
proof (cases "\<lfloor>p\<rfloor> = \<lfloor>q\<rfloor>")
  case True
  then show ?thesis using assms by (auto simp: round_half_even_def Let_def)
next
  case False
  with assms have "\<lfloor>p\<rfloor> + 1 \<le> \<lfloor>q\<rfloor>" using floor_mono by fastforce
  with round_half_even_near [of p] round_half_even_near [of q] show ?thesis by linarith
qed

lemma round_magnitude_mono:
  assumes "0 < p" and "p \<le> q"
  shows "round_magnitude p \<le> round_magnitude q"
proof -
  define e where "e = max (ilog2 p - 52) (- 1074)"
  define f where "f = max (ilog2 q - 52) (- 1074)"
  have ef: "e \<le> f" using ilog2_le [OF assms] by (simp add: e_def f_def)
  show ?thesis
  proof (cases "e = f")
    case True
    have "round_half_even (p / pow2 f) \<le> round_half_even (q / pow2 f)"
      using assms by (intro round_half_even_mono) (simp add: divide_right_mono)
    with True show ?thesis
      by (simp add: round_magnitude_def Let_def e_def [symmetric] f_def [symmetric])
  next
    case False
    define B where "B = pow2 (f + 52)"
    from False ef have f: "f = ilog2 q - 52" by (auto simp: e_def f_def split: if_splits)
    have whole: "B / pow2 g = of_int (2 ^ nat (f + 52 - g))" if "g \<le> f + 52" for g
    proof -
      have "B = pow2 (f + 52 - g) * pow2 g" by (simp add: B_def flip: pow2_add)
      then show ?thesis using that pow2_nat [of "f + 52 - g"] by simp
    qed
    have "ilog2 p - 52 \<le> e" by (simp add: e_def)
    moreover have "e < f" using False ef by simp
    ultimately have "ilog2 p + 1 \<le> f + 52" by linarith
    then have "p < B" unfolding B_def using ilog2_bounds(2) [OF assms(1)] pow2_mono by fastforce
    have scaled: "of_int (2 ^ nat (f + 52 - g)) * pow2 g = B" if "g \<le> f + 52" for g
      using whole [OF that] by (simp add: field_simps)
    have exact: "round_half_even (B / pow2 g) = 2 ^ nat (f + 52 - g)" if "g \<le> f + 52" for g
      by (simp only: whole [OF that] round_half_even_int)
    have "p / pow2 e \<le> B / pow2 e" using \<open>p < B\<close> by (intro divide_right_mono) simp_all
    then have "round_half_even (p / pow2 e) \<le> 2 ^ nat (f + 52 - e)"
      using round_half_even_mono [of "p / pow2 e" "B / pow2 e"] exact [of e] ef by simp
    then have "of_int (round_half_even (p / pow2 e)) * pow2 e \<le> of_int (2 ^ nat (f + 52 - e)) * pow2 e"
      by (intro mult_right_mono) (simp_all only: of_int_le_iff pow2_pos)
    moreover have "of_int (2 ^ nat (f + 52 - e)) * pow2 e = B" by (rule scaled) (use ef in simp)
    ultimately have below: "round_magnitude p \<le> B"
      by (simp only: round_magnitude_def Let_def e_def [symmetric])
    have "B \<le> q" using ilog2_bounds(1) [of q] assms f by (simp add: B_def)
    then have "B / pow2 f \<le> q / pow2 f" by (intro divide_right_mono) simp_all
    then have "2 ^ nat (f + 52 - f) \<le> round_half_even (q / pow2 f)"
      using round_half_even_mono [of "B / pow2 f" "q / pow2 f"] exact [of f] by simp
    then have "of_int (2 ^ nat (f + 52 - f)) * pow2 f \<le> of_int (round_half_even (q / pow2 f)) * pow2 f"
      by (intro mult_right_mono) (simp_all only: of_int_le_iff pow2_pos)
    moreover have "of_int (2 ^ nat (f + 52 - f)) * pow2 f = B" by (rule scaled) simp
    ultimately have "B \<le> round_magnitude q"
      by (simp only: round_magnitude_def Let_def f_def [symmetric])
    with below show ?thesis by simp
  qed
qed

lemma round_magnitude_nonneg: "0 < q \<Longrightarrow> 0 \<le> round_magnitude q"
proof -
  assume "0 < q"
  then have "round_half_even (of_int 0) \<le> round_half_even (q / pow2 e)" for e
    by (intro round_half_even_mono) simp
  then have "0 \<le> round_half_even (q / pow2 e)" for e by (simp only: round_half_even_int)
  then show ?thesis by (simp add: round_magnitude_def Let_def)
qed

lemma f64_le_refl: "x \<noteq> NaN \<Longrightarrow> f64_le x x"
  by (cases x) auto

lemma f64_le_trans: "f64_le x y \<Longrightarrow> f64_le y z \<Longrightarrow> f64_le x z"
  by (cases x; cases y; cases z) auto

lemma f64_le_linear: "x \<noteq> NaN \<Longrightarrow> y \<noteq> NaN \<Longrightarrow> f64_le x y \<or> f64_le y x"
  by (cases x; cases y) auto

lemma round64_sign:
  "p \<le> 0 \<Longrightarrow> f64_le (round64 p) (Finite 0)" "0 \<le> p \<Longrightarrow> f64_le (Finite 0) (round64 p)"
  using round_magnitude_nonneg [of "\<bar>p\<bar>"] by (auto simp: round64_def Let_def)

lemma round64_mono:
  assumes "p \<le> q"
  shows "f64_le (round64 p) (round64 q)"
proof -
  consider "0 < p" | "q < 0" | "p \<le> 0" "0 \<le> q" using assms by linarith
  then show ?thesis
  proof cases
    case 1
    with assms round_magnitude_mono [OF 1 assms] show ?thesis by (auto simp: round64_def Let_def)
  next
    case 2
    with assms have "round_magnitude (- q) \<le> round_magnitude (- p)" by (intro round_magnitude_mono) auto
    with 2 assms show ?thesis by (auto simp: round64_def Let_def)
  next
    case 3
    then show ?thesis using f64_le_trans round64_sign by blast
  qed
qed

lemma total_key_le: "is_finite x \<Longrightarrow> is_finite y \<Longrightarrow> total_key x \<le> total_key y \<longleftrightarrow> f64_le x y"
  by (cases x; cases y) (auto simp: total_key_def)

end
