(* ===== verification/Json_Value.thy ===== *)
theory Json_Value
  imports Float64
begin

text \<open>
  JSON documents as \<open>xtask\<close> reads them through \<open>serde_json::Value\<close>: the value type with the
  accessors the source calls. Parsing is a parameter of the code that uses it; a number is
  represented by what \<open>as_f64\<close> gives.
\<close>

datatype json = JNull | JBool bool | JNumber f64 | JString str | JArray "json list" | JObject "(str \<times> json) list"

fun json_get :: "json \<Rightarrow> str \<Rightarrow> json option" where
  "json_get (JObject fields) field = map_of fields field"
| "json_get _ _ = None"

definition json_index :: "json \<Rightarrow> str \<Rightarrow> json" where
  \<comment> \<open>\<open>value[field]\<close>: null where there is no such field\<close>
  "json_index v field = (case json_get v field of Some x \<Rightarrow> x | None \<Rightarrow> JNull)"

fun as_str :: "json \<Rightarrow> str option" where
  "as_str (JString s) = Some s"
| "as_str _ = None"

fun as_array :: "json \<Rightarrow> json list option" where
  "as_array (JArray vs) = Some vs"
| "as_array _ = None"

fun as_f64 :: "json \<Rightarrow> f64 option" where
  "as_f64 (JNumber x) = Some x"
| "as_f64 _ = None"

definition ok_or :: "'e \<Rightarrow> 'a option \<Rightarrow> 'e + 'a" where
  \<comment> \<open>\<open>Option::ok_or_else\<close>\<close>
  "ok_or e a = (case a of None \<Rightarrow> Inl e | Some x \<Rightarrow> Inr x)"

lemma ok_or_iff [result_simps]:
  "ok_or e a = Inr x \<longleftrightarrow> a = Some x"
  "ok_or e a = Inl e' \<longleftrightarrow> a = None \<and> e' = e"
  by (cases a; auto simp: ok_or_def)+

definition path_join :: "str \<Rightarrow> str \<Rightarrow> str" where
  \<comment> \<open>\<open>Path::join\<close>\<close>
  "path_join base p =
     (if p \<noteq> [] \<and> hd p = CHR ''/'' then p
      else if base = [] \<or> last base = CHR ''/'' then base @ p
      else base @ ''/'' @ p)"

end
