(* ===== verification/Bench_Budget.thy ===== *)
theory Bench_Budget
  imports Json_Value Stateful
begin

text \<open>
  \<open>xtask/src/bench_budget.rs\<close>: the gate that decides whether the steady-state benchmarks are within
  budget, its argument parsing and its recording of benchmark runs.

  The file system, \<open>cargo\<close> and the JSON parser are the fields of \<open>bench_library\<close>; reading a file
  gives the same answer whenever it is asked. Times are nanoseconds after the epoch.
\<close>

definition STEADY_STATE_BUDGET :: f64 where "STEADY_STATE_BUDGET = round64 (2 / 100)"
definition DEFAULT_RUNS :: nat where "DEFAULT_RUNS = 5"
definition MIN_RUNS :: nat where "MIN_RUNS = 5"
definition DIRECT_BENCHMARK :: str where "DIRECT_BENCHMARK = ''steady-state-call/direct-arc-dyn-trait''"
definition KERNOX_BENCHMARK :: str where "KERNOX_BENCHMARK = ''steady-state-call/kernox-extracted-arc-dyn-trait''"
definition STEADY_STATE_GROUP :: str where "STEADY_STATE_GROUP = ''steady-state-call''"
definition ESTIMATES_FILE :: str where "ESTIMATES_FILE = ''estimates.json''"
definition BASELINE_PREFIX :: str where "BASELINE_PREFIX = ''run''"

section \<open>Estimates\<close>

record estimate =
  est_point :: f64
  est_lower :: f64
  est_upper :: f64

definition not_positive :: "f64 \<Rightarrow> bool" where
  "not_positive x \<longleftrightarrow> f64_le x (Finite 0)"

definition estimate_new :: "f64 \<Rightarrow> f64 \<Rightarrow> f64 \<Rightarrow> str + estimate" where
  "estimate_new point lower upper =
     (if \<not> is_finite point then Inl ''field mean.point_estimate is not finite''
      else if \<not> is_finite lower then Inl ''field mean.confidence_interval.lower_bound is not finite''
      else if \<not> is_finite upper then Inl ''field mean.confidence_interval.upper_bound is not finite''
      else if not_positive point then Inl ''field mean.point_estimate is not positive''
      else if not_positive lower then Inl ''field mean.confidence_interval.lower_bound is not positive''
      else if not_positive upper then Inl ''field mean.confidence_interval.upper_bound is not positive''
      else if f64_gt lower upper then Inl ''field mean.confidence_interval.lower_bound exceeds upper_bound''
      else Inr \<lparr>est_point = point, est_lower = lower, est_upper = upper\<rparr>)"

definition finite_field :: "json \<Rightarrow> str \<Rightarrow> str \<Rightarrow> str + f64" where
  "finite_field v field path =
     and_then (ok_or (path @ '': field '' @ field @ '' is missing or not a number'')
       (case json_get v field of None \<Rightarrow> None | Some x \<Rightarrow> as_f64 x)) (\<lambda>number.
     if \<not> is_finite number then Inl (path @ '': field '' @ field @ '' is not finite'') else Inr number)"

definition parse_estimate :: "(str \<Rightarrow> str + json) \<Rightarrow> str \<Rightarrow> str \<Rightarrow> str + estimate" where
  "parse_estimate parse_json source path =
     and_then (map_err (\<lambda>error. path @ '': unparsable estimates JSON: '' @ error) (parse_json source)) (\<lambda>document.
     and_then (ok_or (path @ '': missing field mean'') (json_get document ''mean'')) (\<lambda>mean.
     and_then (finite_field mean ''point_estimate'' path) (\<lambda>point.
     and_then (ok_or (path @ '': missing field mean.confidence_interval'') (json_get mean ''confidence_interval'')) (\<lambda>interval.
     and_then (finite_field interval ''lower_bound'' path) (\<lambda>lower.
     and_then (finite_field interval ''upper_bound'' path) (\<lambda>upper.
     map_err (\<lambda>error. path @ '': '' @ error) (estimate_new point lower upper)))))))"

section \<open>The decision\<close>

record run_sample =
  rs_direct :: estimate
  rs_kernox :: estimate
  rs_direct_path :: str
  rs_kernox_path :: str
  rs_direct_modified :: int
  rs_kernox_modified :: int

record runs_outcome =
  ro_deltas :: "f64 list"
  ro_median_delta :: f64
  ro_min_side_delta :: f64
  ro_min_delta :: f64
  ro_max_delta :: f64
  ro_overlap :: bool
  ro_pass :: bool
  ro_direct_min :: f64
  ro_kernox_min :: f64
  ro_direct_point_median :: f64
  ro_kernox_point_median :: f64
  ro_direct_lower :: f64
  ro_direct_upper :: f64
  ro_kernox_lower :: f64
  ro_kernox_upper :: f64

definition median_of :: "f64 list \<Rightarrow> 'e fault + f64" where
  \<comment> \<open>an index out of range panics\<close>
  "median_of values =
     (let sorted = sort_key total_key values; middle = length sorted div 2
      in if length sorted mod 2 = 0 then
           if middle = 0 then Inl Panic else Inr (f64_midpoint (sorted ! (middle - 1)) (sorted ! middle))
         else Inr (sorted ! middle))"

definition check_sample :: "int \<Rightarrow> run_sample list \<Rightarrow> nat \<times> run_sample \<Rightarrow> str + unit" where
  \<comment> \<open>the freshness and ordering check of one recording\<close>
  "check_sample not_before samples = (\<lambda>(index, sample).
     let run = index + 1
     in if rs_direct_modified sample < not_before then
          Inl (rs_direct_path sample @ '' was modified before the recorded invocation start; stale input'')
        else if rs_kernox_modified sample < not_before then
          Inl (rs_kernox_path sample @ '' was modified before the recorded invocation start; stale input'')
        else if rs_kernox_modified sample \<le> rs_direct_modified sample then
          Inl (rs_kernox_path sample @ '' is not newer than '' @ rs_direct_path sample @ ''; run '' @
            decimal run @ '' is not one ordered invocation'')
        else if index \<noteq> 0 \<and> rs_direct_modified sample \<le> rs_kernox_modified (samples ! (index - 1)) then
          Inl (rs_direct_path sample @ '' is not newer than '' @ rs_kernox_path (samples ! (index - 1)) @
            ''; run '' @ decimal run @ '' was not recorded after run '' @ decimal index)
        else Inr ())"

definition sample_delta :: "run_sample \<Rightarrow> f64" where
  "sample_delta sample =
     f64_div (f64_sub (est_point (rs_kernox sample)) (est_point (rs_direct sample))) (est_point (rs_direct sample))"

definition push_delta :: "run_sample \<Rightarrow> f64 list \<Rightarrow> str + f64 list" where
  "push_delta sample deltas =
     (let delta = sample_delta sample
      in if \<not> is_finite delta then
           Inl (''computed delta is not finite for '' @ rs_direct_path sample @ '' and '' @ rs_kernox_path sample)
         else Inr (deltas @ [delta]))"

definition fold_min :: "f64 list \<Rightarrow> f64" where
  "fold_min xs = fold (\<lambda>x acc. f64_min acc x) xs (Infinite True)"

definition fold_max :: "f64 list \<Rightarrow> f64" where
  "fold_max xs = fold (\<lambda>x acc. f64_max acc x) xs (Infinite False)"

definition check_runs_present :: "run_sample list \<Rightarrow> str + unit" where
  "check_runs_present samples =
     (if samples = [] then Inl ''no recorded benchmark runs to evaluate''
      else if length samples < MIN_RUNS then
        Inl (''at least '' @ decimal MIN_RUNS @ '' recorded runs are required for a median decision; got '' @
          decimal (length samples))
      else Inr ())"

definition evaluate_runs :: "(f64 \<Rightarrow> str) \<Rightarrow> run_sample list \<Rightarrow> int \<Rightarrow> str fault + runs_outcome" where
  \<comment> \<open>the first argument is the \<open>Display\<close> of a number\<close>
  "evaluate_runs display samples not_before =
     and_then (fallible (check_runs_present samples)) (\<lambda>_.
     and_then (fallible (for_each (\<lambda>entry _. check_sample not_before samples entry) (enumerate 0 samples) ())) (\<lambda>_.
     and_then (fallible (for_each push_delta samples [])) (\<lambda>deltas.
     let direct_points = map (\<lambda>s. est_point (rs_direct s)) samples;
         kernox_points = map (\<lambda>s. est_point (rs_kernox s)) samples;
         direct_min = fold_min direct_points;
         kernox_min = fold_min kernox_points;
         min_side_delta = f64_div (f64_sub kernox_min direct_min) direct_min
     in if \<not> is_finite min_side_delta then
          Inl (Err (''computed min-side delta is not finite (direct minimum '' @ display direct_min @ '')''))
        else
     and_then (median_of deltas) (\<lambda>median_delta.
     if \<not> is_finite median_delta then Inl (Err ''computed median paired delta is not finite'')
     else
       let direct_lower = fold_min (map (\<lambda>s. est_lower (rs_direct s)) samples);
           direct_upper = fold_max (map (\<lambda>s. est_upper (rs_direct s)) samples);
           kernox_lower = fold_min (map (\<lambda>s. est_lower (rs_kernox s)) samples);
           kernox_upper = fold_max (map (\<lambda>s. est_upper (rs_kernox s)) samples)
       in
     and_then (median_of direct_points) (\<lambda>direct_point_median.
     and_then (median_of kernox_points) (\<lambda>kernox_point_median.
     Inr \<lparr>ro_deltas = deltas, ro_median_delta = median_delta, ro_min_side_delta = min_side_delta,
       ro_min_delta = fold_min deltas, ro_max_delta = fold_max deltas,
       ro_overlap = (f64_le direct_lower kernox_upper \<and> f64_le kernox_lower direct_upper),
       ro_pass = f64_le median_delta STEADY_STATE_BUDGET, ro_direct_min = direct_min, ro_kernox_min = kernox_min,
       ro_direct_point_median = direct_point_median, ro_kernox_point_median = kernox_point_median,
       ro_direct_lower = direct_lower, ro_direct_upper = direct_upper, ro_kernox_lower = kernox_lower,
       ro_kernox_upper = kernox_upper\<rparr>))))))"

section \<open>Arguments\<close>

datatype criterion_dir = DefaultDir | ExplicitDir str

record gate_options =
  go_criterion_dir :: criterion_dir
  go_runs :: nat
  go_not_before :: int

record record_options =
  rc_criterion_dir :: criterion_dir
  rc_runs :: nat

definition check_runs :: "nat \<Rightarrow> str + unit" where
  "check_runs runs =
     (if runs < MIN_RUNS then
        Inl (''at least '' @ decimal MIN_RUNS @ '' recorded runs are required so the paired median is meaningful; got '' @
          decimal runs)
      else Inr ())"

definition epoch_time :: "nat \<Rightarrow> 'e fault + int" where
  \<comment> \<open>\<open>UNIX_EPOCH + Duration::from_secs(epoch)\<close>, whose seconds are a signed 64-bit number\<close>
  "epoch_time epoch = (if epoch < 2 ^ 63 then Inr (int epoch * 1000000000) else Inl Panic)"

fun parse_gate_loop :: "str list \<Rightarrow> criterion_dir \<times> nat \<times> int option \<Rightarrow> str fault + criterion_dir \<times> nat \<times> int option" where
  "parse_gate_loop [] st = Inr st"
| "parse_gate_loop (argument # rest) (dir, runs, not_before) =
     (if argument = ''--criterion-dir'' then
        (case rest of
           [] \<Rightarrow> Inl (Err ''bench-budget expects --criterion-dir DIR'')
         | v # rest' \<Rightarrow> parse_gate_loop rest' (ExplicitDir v, runs, not_before))
      else if argument = ''--runs'' then
        (case rest of
           [] \<Rightarrow> Inl (Err ''bench-budget expects --runs COUNT'')
         | v # rest' \<Rightarrow>
             (case parse_unsigned usize_max v of
                Inl error \<Rightarrow> Inl (Err (''bench-budget --runs is not a count: '' @ parse_int_error_display error))
              | Inr n \<Rightarrow> parse_gate_loop rest' (dir, n, not_before)))
      else if argument = ''--not-before'' then
        (case rest of
           [] \<Rightarrow> Inl (Err ''bench-budget expects --not-before EPOCH_SECONDS'')
         | v # rest' \<Rightarrow>
             (case parse_unsigned u64_max v of
                Inl error \<Rightarrow>
                  Inl (Err (''bench-budget --not-before is not an epoch in seconds: '' @ parse_int_error_display error))
              | Inr epoch \<Rightarrow>
                  (case epoch_time epoch of
                     Inl f \<Rightarrow> Inl f
                   | Inr time \<Rightarrow> parse_gate_loop rest' (dir, runs, Some time))))
      else Inl (Err (''unknown bench-budget argument '' @ argument)))"

definition parse_gate_arguments :: "str list \<Rightarrow> str fault + gate_options" where
  "parse_gate_arguments arguments =
     and_then (parse_gate_loop arguments (DefaultDir, DEFAULT_RUNS, None)) (\<lambda>(dir, runs, not_before).
     and_then (fallible (ok_or
       ''bench-budget requires --not-before EPOCH_SECONDS recorded before bench-budget-record ran'' not_before)) (\<lambda>time.
     and_then (fallible (check_runs runs)) (\<lambda>_.
     Inr \<lparr>go_criterion_dir = dir, go_runs = runs, go_not_before = time\<rparr>)))"

fun parse_record_loop :: "str list \<Rightarrow> criterion_dir \<times> nat \<Rightarrow> str + criterion_dir \<times> nat" where
  "parse_record_loop [] st = Inr st"
| "parse_record_loop (argument # rest) (dir, runs) =
     (if argument = ''--criterion-dir'' then
        (case rest of
           [] \<Rightarrow> Inl ''bench-budget-record expects --criterion-dir DIR''
         | v # rest' \<Rightarrow> parse_record_loop rest' (ExplicitDir v, runs))
      else if argument = ''--runs'' then
        (case rest of
           [] \<Rightarrow> Inl ''bench-budget-record expects --runs COUNT''
         | v # rest' \<Rightarrow>
             (case parse_unsigned usize_max v of
                Inl error \<Rightarrow> Inl (''bench-budget-record --runs is not a count: '' @ parse_int_error_display error)
              | Inr n \<Rightarrow> parse_record_loop rest' (dir, n)))
      else Inl (''unknown bench-budget-record argument '' @ argument))"

definition parse_record_arguments :: "str list \<Rightarrow> str + record_options" where
  "parse_record_arguments arguments =
     and_then (parse_record_loop arguments (DefaultDir, DEFAULT_RUNS)) (\<lambda>(dir, runs).
     and_then (check_runs runs) (\<lambda>_.
     Inr \<lparr>rc_criterion_dir = dir, rc_runs = runs\<rparr>))"

end
