(* ===== verification/Bench_Gate.thy ===== *)
theory Bench_Gate
  imports Bench_Budget
begin

text \<open>
  The parts of \<open>xtask/src/bench_budget.rs\<close> that meet the outside: reading the recorded estimates,
  the target directory, the gate with its report, and recording fresh benchmark runs.
\<close>

record process_output =
  po_success :: bool
  po_stdout :: "str + str"          \<comment> \<open>the UTF-8 error's text, or the text\<close>
  po_stderr :: str                  \<comment> \<open>decoded lossily and trimmed\<close>

record bench_library =
  bl_parse_json :: "str \<Rightarrow> str + json"
  bl_metadata :: "str \<Rightarrow> str + (str + int)"
    \<comment> \<open>\<open>fs::metadata\<close>, then \<open>modified\<close>\<close>
  bl_read_to_string :: "str \<Rightarrow> str + str"
  bl_cargo_metadata :: "str + process_output"
  bl_display :: "f64 \<Rightarrow> str"

section \<open>Recorded estimates\<close>

definition estimate_path :: "str \<Rightarrow> str \<Rightarrow> nat \<Rightarrow> str" where
  "estimate_path criterion_dir benchmark run =
     path_join (path_join (path_join criterion_dir benchmark) (BASELINE_PREFIX @ decimal run)) ESTIMATES_FILE"

definition read_estimate :: "bench_library \<Rightarrow> str \<Rightarrow> str + estimate \<times> int" where
  "read_estimate lib path =
     and_then (map_err (\<lambda>error. ''could not inspect '' @ path @ '': '' @ error) (bl_metadata lib path)) (\<lambda>metadata.
     and_then (map_err (\<lambda>error. ''could not read the modification time of '' @ path @ '': '' @ error) metadata) (\<lambda>modified.
     and_then (map_err (\<lambda>error. ''could not read '' @ path @ '': '' @ error) (bl_read_to_string lib path)) (\<lambda>source.
     and_then (parse_estimate (bl_parse_json lib) source path) (\<lambda>estimate.
     Inr (estimate, modified)))))"

definition target_directory_from_metadata :: "(str \<Rightarrow> str + json) \<Rightarrow> str \<Rightarrow> str + str" where
  "target_directory_from_metadata parse_json source =
     and_then (map_err (\<lambda>error. ''unparsable cargo metadata: '' @ error) (parse_json source)) (\<lambda>document.
     ok_or ''cargo metadata is missing a string target_directory''
       (case json_get document ''target_directory'' of None \<Rightarrow> None | Some v \<Rightarrow> as_str v))"

definition resolve_criterion_dir :: "bench_library \<Rightarrow> criterion_dir \<Rightarrow> str + str" where
  "resolve_criterion_dir lib selection =
     (case selection of
        ExplicitDir dir \<Rightarrow> Inr dir
      | DefaultDir \<Rightarrow>
          and_then (map_err (\<lambda>error. ''could not run cargo metadata to resolve the target directory: '' @ error)
            (bl_cargo_metadata lib)) (\<lambda>output.
          if \<not> po_success output then
            Inl (''cargo metadata failed while resolving the target directory: '' @ po_stderr output)
          else
            and_then (map_err (\<lambda>error. ''cargo metadata output is not UTF-8: '' @ error) (po_stdout output)) (\<lambda>source.
            and_then (target_directory_from_metadata (bl_parse_json lib) source) (\<lambda>target.
            Inr (path_join target ''criterion'')))))"

section \<open>The gate\<close>

definition read_sample :: "bench_library \<Rightarrow> str \<Rightarrow> nat \<Rightarrow> run_sample list \<Rightarrow> str + run_sample list" where
  "read_sample lib criterion_dir run samples =
     (let direct_path = estimate_path criterion_dir DIRECT_BENCHMARK run;
          kernox_path = estimate_path criterion_dir KERNOX_BENCHMARK run
      in and_then (read_estimate lib direct_path) (\<lambda>(direct, direct_modified).
         and_then (read_estimate lib kernox_path) (\<lambda>(kernox, kernox_modified).
         Inr (samples @ [\<lparr>rs_direct = direct, rs_kernox = kernox, rs_direct_path = direct_path,
           rs_kernox_path = kernox_path, rs_direct_modified = direct_modified,
           rs_kernox_modified = kernox_modified\<rparr>]))))"

definition report_sample :: "runs_outcome \<Rightarrow> nat \<times> run_sample \<Rightarrow> str list" where
  "report_sample outcome = (\<lambda>(index, sample).
     let run = ''bench-budget.run'' @ decimal (index + 1); direct = rs_direct sample; kernox = rs_kernox sample
     in [run @ ''.direct='' @ fixed6 (est_point direct),
         run @ ''.kernox='' @ fixed6 (est_point kernox),
         run @ ''.direct.interval=['' @ fixed6 (est_lower direct) @ '', '' @ fixed6 (est_upper direct) @ '']'',
         run @ ''.kernox.interval=['' @ fixed6 (est_lower kernox) @ '', '' @ fixed6 (est_upper kernox) @ '']'',
         run @ ''.delta='' @ fixed6 (ro_deltas outcome ! index)])"

definition print_report :: "str \<Rightarrow> nat \<Rightarrow> run_sample list \<Rightarrow> runs_outcome \<Rightarrow> str list" where
  "print_report criterion_dir runs samples outcome =
     [''bench-budget.mode=runs'',
      ''bench-budget.runs='' @ decimal runs,
      ''bench-budget.criterion-dir='' @ criterion_dir,
      ''bench-budget.statistic=paired-median-delta''] @
     concat (map (report_sample outcome) (enumerate 0 samples)) @
     [''bench-budget.direct.min='' @ fixed6 (ro_direct_min outcome),
      ''bench-budget.kernox.min='' @ fixed6 (ro_kernox_min outcome),
      ''bench-budget.min_side.delta='' @ fixed6 (ro_min_side_delta outcome),
      ''bench-budget.direct.point_median='' @ fixed6 (ro_direct_point_median outcome),
      ''bench-budget.kernox.point_median='' @ fixed6 (ro_kernox_point_median outcome),
      ''bench-budget.direct.interval=['' @ fixed6 (ro_direct_lower outcome) @ '', '' @ fixed6 (ro_direct_upper outcome) @ '']'',
      ''bench-budget.kernox.interval=['' @ fixed6 (ro_kernox_lower outcome) @ '', '' @ fixed6 (ro_kernox_upper outcome) @ '']'',
      ''bench-budget.delta='' @ fixed6 (ro_median_delta outcome),
      ''bench-budget.delta.median='' @ fixed6 (ro_median_delta outcome),
      ''bench-budget.delta.min='' @ fixed6 (ro_min_delta outcome),
      ''bench-budget.delta.max='' @ fixed6 (ro_max_delta outcome),
      ''bench-budget.delta.spread='' @ fixed6 (f64_sub (ro_max_delta outcome) (ro_min_delta outcome)),
      ''bench-budget.overlap='' @ (if ro_overlap outcome then ''true'' else ''false''),
      ''bench-budget.result='' @ (if ro_pass outcome then ''pass'' else ''fail'')]"

definition run_gate :: "bench_library \<Rightarrow> gate_options \<Rightarrow> (str list, str fault, unit) action" where
  \<comment> \<open>\<open>run\<close>; the state is the lines printed\<close>
  "run_gate lib options printed =
     (case and_then (fallible (resolve_criterion_dir lib (go_criterion_dir options))) (\<lambda>criterion_dir.
           and_then (fallible (for_each (read_sample lib criterion_dir) [1..<go_runs options + 1] [])) (\<lambda>samples.
           and_then (evaluate_runs (bl_display lib) samples (go_not_before options)) (\<lambda>outcome.
           Inr (criterion_dir, samples, outcome)))) of
        Inl f \<Rightarrow> (Inl f, printed)
      | Inr (criterion_dir, samples, outcome) \<Rightarrow>
          (if ro_pass outcome then Inr ()
           else Inl (Err (''median paired steady-state point-estimate delta '' @ fixed6 (ro_median_delta outcome) @
             '' exceeds declared budget '' @ fixed6 STEADY_STATE_BUDGET)),
           printed @ print_report criterion_dir (go_runs options) samples outcome))"

section \<open>Recording\<close>

datatype removal = Removed | NotFound | RemoveFailed str

record 'w record_library =
  rl_base :: bench_library
  rl_remove_dir_all :: "str \<Rightarrow> 'w \<Rightarrow> removal \<times> 'w"
  rl_cargo :: "str list \<Rightarrow> 'w \<Rightarrow> (str + bool \<times> str) \<times> 'w"
    \<comment> \<open>the status of a \<open>cargo\<close> command: whether it is a success, and its text\<close>

record 'w recording =
  rg_world :: 'w
  rg_printed :: "str list"
  rg_commands :: "str list list"      \<comment> \<open>ghost: the commands run\<close>

definition print_line :: "str \<Rightarrow> ('w recording, 'e, unit) action" where
  "print_line line = modify_action (\<lambda>s. s\<lparr>rg_printed := rg_printed s @ [line]\<rparr>)"

definition clear_results :: "'w record_library \<Rightarrow> str \<Rightarrow> ('w recording, str, unit) action" where
  "clear_results lib steady_state s =
     (let (result, w) = rl_remove_dir_all lib steady_state (rg_world s)
      in (case result of
            RemoveFailed error \<Rightarrow> Inl (''could not clear '' @ steady_state @ '': '' @ error)
          | _ \<Rightarrow> Inr (), s\<lparr>rg_world := w\<rparr>))"

definition bench_arguments :: "nat \<Rightarrow> str list" where
  "bench_arguments run =
     [''bench'', ''--locked'', ''-p'', ''kernox'', ''--bench'', ''kernel'', ''--'', STEADY_STATE_GROUP,
      ''--save-baseline'', BASELINE_PREFIX @ decimal run]"

definition record_one :: "'w record_library \<Rightarrow> nat \<Rightarrow> unit \<Rightarrow> ('w recording, str, unit) action" where
  "record_one lib run u s =
     (let (status, w) = rl_cargo lib (bench_arguments run) (rg_world s);
          s = s\<lparr>rg_world := w, rg_commands := rg_commands s @ [bench_arguments run]\<rparr>
      in (case status of
            Inl error \<Rightarrow> Inl (''could not run benchmark run '' @ decimal run @ '': '' @ error)
          | Inr (success, text) \<Rightarrow>
              if \<not> success then Inl (''benchmark run '' @ decimal run @ '' exited with '' @ text) else Inr (), s))"

definition run_record :: "'w record_library \<Rightarrow> record_options \<Rightarrow> ('w recording, str, unit) action" where
  "run_record lib options =
     (case resolve_criterion_dir (rl_base lib) (rc_criterion_dir options) of
        Inl error \<Rightarrow> fail_action error
      | Inr criterion_dir \<Rightarrow>
          bind_action (clear_results lib (path_join criterion_dir STEADY_STATE_GROUP)) (\<lambda>_.
          bind_action (print_line (''bench-budget-record.criterion-dir='' @ criterion_dir)) (\<lambda>_.
          bind_action (print_line (''bench-budget-record.runs='' @ decimal (rc_runs options))) (\<lambda>_.
          loop_action (record_one lib) [1..<rc_runs options + 1] ()))))"

end
