(* ===== verification/Bench_Properties.thy ===== *)
theory Bench_Properties
  imports Bench_Gate
begin

text \<open>
  What the benchmark gate guarantees: which recordings it accepts as evidence, that its median rule is
  a majority vote of the paired deltas, that a passing gate has read every file, and how its
  arguments and the recording behave.
\<close>

section \<open>The median\<close>

lemma sorted_count:
  assumes "\<And>i j. i < j \<Longrightarrow> j < length ys \<Longrightarrow> P (ys ! j) \<Longrightarrow> P (ys ! i)" and "k < length ys"
  shows "P (ys ! k) \<longleftrightarrow> k < length (filter P ys)"
  using assms
proof (induction ys arbitrary: k)
  case (Cons y ys)
  have mono: "P (ys ! j) \<Longrightarrow> P (ys ! i)" if "i < j" "j < length ys" for i j
    using Cons.prems(1) [of "Suc i" "Suc j"] that by simp
  show ?case
  proof (cases "P y")
    case True
    then show ?thesis using Cons.IH [OF mono] Cons.prems(2) by (cases k) simp_all
  next
    case False
    then have "\<not> P z" if "z \<in> set ys" for z
      using Cons.prems(1) [of 0] that by (force simp: in_set_conv_nth)
    with False show ?thesis using Cons.prems(2) by (cases k) (simp_all add: filter_empty_conv)
  qed
qed simp

lemma total_sorted_count:
  assumes "\<forall>x \<in> set xs. is_finite x" and "k < length xs"
  shows "f64_le (sort_key total_key xs ! k) b \<longleftrightarrow> k < length (filter (\<lambda>x. f64_le x b) xs)"
proof -
  let ?ys = "sort_key total_key xs"
  have "f64_le (?ys ! i) b" if ij: "i < j" "j < length ?ys" and j: "f64_le (?ys ! j) b" for i j
  proof -
    have "total_key (?ys ! i) \<le> total_key (?ys ! j)"
      using sorted_sort_key [of total_key xs] ij by (simp add: sorted_iff_nth_mono)
    moreover have "?ys ! i \<in> set ?ys" "?ys ! j \<in> set ?ys" using ij by (intro nth_mem; simp)+
    then have "is_finite (?ys ! i)" "is_finite (?ys ! j)" using assms(1) by simp_all
    ultimately show ?thesis using j total_key_le f64_le_trans by blast
  qed
  with assms(2) have "f64_le (?ys ! k) b \<longleftrightarrow> k < length (filter (\<lambda>x. f64_le x b) ?ys)"
    by (intro sorted_count) simp_all
  also have "length (filter (\<lambda>x. f64_le x b) ?ys) = length (filter (\<lambda>x. f64_le x b) xs)"
    by (metis mset_filter mset_sort size_mset)
  finally show ?thesis .
qed

lemma round64_small:
  assumes "round_magnitude \<bar>q\<bar> < 1" and "0 < q"
  shows "round64 q = Finite (round_magnitude q)"
proof -
  have "1 \<le> pow2 1024" using pow2_mono [of 0 1024] by (simp add: pow2_def)
  with assms show ?thesis by (simp add: round64_def Let_def)
qed

lemma budget_magnitude:
  "round_magnitude (2 / 100) = 5764607523034235 / 288230376151711744"
  "round_magnitude (5764607523034235 / 288230376151711744) = 5764607523034235 / 288230376151711744"
  by code_simp+

lemma budget_value: "STEADY_STATE_BUDGET = Finite (5764607523034235 / 288230376151711744)"
  unfolding STEADY_STATE_BUDGET_def using round64_small [of "2 / 100"] budget_magnitude(1) by simp

lemma budget_representable: "round64 (5764607523034235 / 288230376151711744) = STEADY_STATE_BUDGET"
  unfolding budget_value
  using round64_small [of "5764607523034235 / 288230376151711744"] budget_magnitude(2) by simp

lemma midpoint_within_budget:
  assumes "f64_le x STEADY_STATE_BUDGET" and "f64_le y STEADY_STATE_BUDGET" and "is_finite x" and "is_finite y"
  shows "f64_le (f64_midpoint x y) STEADY_STATE_BUDGET"
proof -
  obtain a b where xy: "x = Finite a" "y = Finite b" using assms(3,4) by (cases x; cases y) auto
  with assms have "(a + b) / 2 \<le> 5764607523034235 / 288230376151711744" by (simp add: budget_value)
  from round64_mono [OF this] show ?thesis by (simp add: xy f64_midpoint_def budget_representable)
qed

lemma median_majority:
  assumes fin: "\<forall>x \<in> set xs. is_finite x" and med: "median_of xs = Inr m"
  defines "c \<equiv> length (filter (\<lambda>x. f64_le x STEADY_STATE_BUDGET) xs)"
  shows "length xs < 2 * c \<Longrightarrow> f64_le m STEADY_STATE_BUDGET"
    and "odd (length xs) \<Longrightarrow> f64_le m STEADY_STATE_BUDGET \<Longrightarrow> length xs < 2 * c"
proof -
  let ?ys = "sort_key total_key xs" and ?k = "length xs div 2"
  have elem: "is_finite (?ys ! i)" if "i < length xs" for i
    using fin that nth_mem [of i ?ys] by simp
  have c: "c \<le> length xs" by (simp add: c_def)
  {
    assume odd: "odd (length xs)"
    then have m: "m = ?ys ! ?k" and k: "?k < length xs"
      using med by (auto simp: median_of_def Let_def split: if_splits)
    have "f64_le m STEADY_STATE_BUDGET \<longleftrightarrow> ?k < c"
      unfolding m c_def by (rule total_sorted_count [OF fin k])
    also have "\<dots> \<longleftrightarrow> length xs < 2 * c" using odd by (auto elim!: oddE)
    finally have "f64_le m STEADY_STATE_BUDGET \<longleftrightarrow> length xs < 2 * c" .
  }
  note odd_case = this
  show "odd (length xs) \<Longrightarrow> f64_le m STEADY_STATE_BUDGET \<Longrightarrow> length xs < 2 * c"
    using odd_case by blast
  assume many: "length xs < 2 * c"
  show "f64_le m STEADY_STATE_BUDGET"
  proof (cases "odd (length xs)")
    case False
    with many c have k: "?k < c" "?k < length xs" "?k \<noteq> 0" by (auto elim!: evenE)
    have m: "m = f64_midpoint (?ys ! (?k - 1)) (?ys ! ?k)"
      using med False k(3) by (simp add: median_of_def Let_def)
    have "f64_le (?ys ! i) STEADY_STATE_BUDGET" if "i \<le> ?k" for i
      using total_sorted_count [OF fin, of i STEADY_STATE_BUDGET] that k by (simp add: c_def)
    then show ?thesis unfolding m using k elem by (intro midpoint_within_budget) auto
  qed (use odd_case many in blast)
qed

section \<open>Evaluating the recordings\<close>

definition modification_times :: "run_sample list \<Rightarrow> int list" where
  "modification_times samples = concat (map (\<lambda>s. [rs_direct_modified s, rs_kernox_modified s]) samples)"

definition ordered_recordings :: "int \<Rightarrow> run_sample list \<Rightarrow> bool" where
  \<comment> \<open>the files were written one after the other, none before the start\<close>
  "ordered_recordings not_before samples \<longleftrightarrow>
     (\<forall>t \<in> set (modification_times samples). not_before \<le> t) \<and> sorted_wrt (<) (modification_times samples)"

lemma modification_times_simps [simp]:
  "modification_times [] = []"
  "modification_times (s # ss) = rs_direct_modified s # rs_kernox_modified s # modification_times ss"
  "modification_times (ss @ ts) = modification_times ss @ modification_times ts"
  by (simp_all add: modification_times_def)

lemma check_sample_ok:
  assumes "i < length samples"
  shows "check_sample not_before samples (i, samples ! i) = Inr () \<longleftrightarrow>
    not_before \<le> rs_direct_modified (samples ! i) \<and> rs_direct_modified (samples ! i) < rs_kernox_modified (samples ! i) \<and>
    (i \<noteq> 0 \<longrightarrow> rs_kernox_modified (samples ! (i - 1)) < rs_direct_modified (samples ! i))"
  by (auto simp: check_sample_def Let_def)

lemma sorted_times_snoc:
  assumes "ss \<noteq> []"
  shows "sorted_wrt (<) (modification_times (ss @ [s])) \<longleftrightarrow> sorted_wrt (<) (modification_times ss) \<and>
    rs_kernox_modified (last ss) < rs_direct_modified s \<and> rs_direct_modified s < rs_kernox_modified s"
proof -
  obtain ts l where ss: "ss = ts @ [l]" using assms by (cases ss rule: rev_cases) auto
  have "x \<le> rs_kernox_modified l" if "sorted_wrt (<) (modification_times ss)" "x \<in> set (modification_times ss)" for x
    using that by (auto simp: ss sorted_wrt_append)
  then show ?thesis by (auto simp: ss sorted_wrt_append)
qed

lemma ordered_checks:
  "(\<forall>i < length samples. check_sample not_before samples (i, samples ! i) = Inr ()) \<longleftrightarrow>
     ordered_recordings not_before samples"
proof (induction samples rule: rev_induct)
  case (snoc s ss)
  have same: "check_sample not_before (ss @ [s]) (i, (ss @ [s]) ! i) = Inr () \<longleftrightarrow>
      check_sample not_before ss (i, ss ! i) = Inr ()" if "i < length ss" for i
    using that check_sample_ok [of i "ss @ [s]" not_before] check_sample_ok [of i ss not_before]
    by (simp add: nth_append less_imp_diff_less)
  let ?ok = "\<lambda>i. check_sample not_before (ss @ [s]) (i, (ss @ [s]) ! i) = Inr ()"
  have new: "?ok (length ss) \<longleftrightarrow> not_before \<le> rs_direct_modified s \<and> rs_direct_modified s < rs_kernox_modified s \<and>
      (ss \<noteq> [] \<longrightarrow> rs_kernox_modified (last ss) < rs_direct_modified s)"
    using check_sample_ok [of "length ss" "ss @ [s]" not_before] by (simp add: last_conv_nth nth_append)
  have "(\<forall>i < length (ss @ [s]). ?ok i) \<longleftrightarrow> (\<forall>i < length ss. ?ok i) \<and> ?ok (length ss)"
    unfolding length_append_singleton using less_Suc_eq by blast
  also have "\<dots> \<longleftrightarrow> ordered_recordings not_before ss \<and> ?ok (length ss)"
    using same snoc.IH by blast
  also have "\<dots> \<longleftrightarrow> ordered_recordings not_before ss \<and> not_before \<le> rs_direct_modified s \<and>
      rs_direct_modified s < rs_kernox_modified s \<and>
      (ss \<noteq> [] \<longrightarrow> rs_kernox_modified (last ss) < rs_direct_modified s)"
    unfolding new ..
  also have "\<dots> \<longleftrightarrow> ordered_recordings not_before (ss @ [s])"
    using sorted_times_snoc [of ss s] by (cases "ss = []") (auto simp: ordered_recordings_def)
  finally show ?case .
qed (simp add: ordered_recordings_def)

lemma checks_ok:
  "for_each (\<lambda>entry _. check_sample not_before samples entry) (enumerate 0 samples) () = Inr () \<longleftrightarrow>
     ordered_recordings not_before samples"
  unfolding for_each_check_ok ordered_checks [symmetric]
  by (auto simp: in_set_enumerate_eq)

lemma push_deltas_ok:
  "for_each push_delta samples ds = Inr ds' \<longleftrightarrow>
     (\<forall>s \<in> set samples. is_finite (sample_delta s)) \<and> ds' = ds @ map sample_delta samples"
  by (induction samples arbitrary: ds) (auto simp: push_delta_def Let_def result_simps)

lemma median_no_panic: "xs \<noteq> [] \<Longrightarrow> median_of xs \<noteq> Inl f"
  by (cases xs) (auto simp: median_of_def Let_def)

definition usable :: "int \<Rightarrow> run_sample list \<Rightarrow> bool" where
  \<comment> \<open>enough recordings, in order, whose computed numbers are finite\<close>
  "usable not_before samples \<longleftrightarrow> 5 \<le> length samples \<and> ordered_recordings not_before samples \<and>
     (\<forall>s \<in> set samples. is_finite (sample_delta s)) \<and>
     is_finite (f64_div (f64_sub (fold_min (map (est_point \<circ> rs_kernox) samples)) (fold_min (map (est_point \<circ> rs_direct) samples)))
       (fold_min (map (est_point \<circ> rs_direct) samples))) \<and>
     (\<forall>m. median_of (map sample_delta samples) = (Inr m :: str fault + _) \<longrightarrow> is_finite m)"

lemma evaluate_runs_ok:
  assumes "evaluate_runs display samples not_before = Inr outcome"
  shows "usable not_before samples" and "ro_deltas outcome = map sample_delta samples"
    and "median_of (map sample_delta samples) = (Inr (ro_median_delta outcome) :: str fault + _)"
    and "ro_pass outcome = f64_le (ro_median_delta outcome) STEADY_STATE_BUDGET"
  using assms
  by (auto simp: evaluate_runs_def and_then_Inr_iff fallible_eq_iff checks_ok push_deltas_ok check_runs_present_def
      MIN_RUNS_def Let_def usable_def comp_def split: if_splits)

lemma evaluate_runs_usable:
  assumes "usable not_before samples"
  shows "\<exists>outcome. evaluate_runs display samples not_before = Inr outcome"
proof -
  have ne: "samples \<noteq> []" using assms by (auto simp: usable_def)
  have ok: "\<exists>m. median_of xs = (Inr m :: str fault + _)" if "xs \<noteq> []" for xs
    using median_no_panic [OF that] by (metis sum.exhaust)
  obtain m d k where m: "median_of (map sample_delta samples) = (Inr m :: str fault + _)"
    "median_of (map (\<lambda>s. est_point (rs_direct s)) samples) = (Inr d :: str fault + _)"
    "median_of (map (\<lambda>s. est_point (rs_kernox s)) samples) = (Inr k :: str fault + _)"
    using ok [of "map _ samples"] ne by (metis map_is_Nil_conv)
  have "for_each (\<lambda>entry _. check_sample not_before samples entry) (enumerate 0 samples) () = Inr ()"
    "for_each push_delta samples [] = Inr (map sample_delta samples)"
    "check_runs_present samples = Inr ()"
    using assms ne by (simp_all add: usable_def checks_ok push_deltas_ok check_runs_present_def MIN_RUNS_def)
  with assms m show ?thesis
    by (simp add: evaluate_runs_def usable_def Let_def comp_def)
qed

definition within_budget :: "run_sample list \<Rightarrow> nat" where
  "within_budget samples = length (filter (\<lambda>s. f64_le (sample_delta s) STEADY_STATE_BUDGET) samples)"

lemma within_budget_deltas:
  "within_budget samples = length (filter (\<lambda>x. f64_le x STEADY_STATE_BUDGET) (map sample_delta samples))"
  by (simp add: within_budget_def filter_map comp_def)

lemma evaluate_runs_majority:
  assumes "evaluate_runs display samples not_before = Inr outcome"
  shows "length samples < 2 * within_budget samples \<Longrightarrow> ro_pass outcome"
    and "odd (length samples) \<Longrightarrow> ro_pass outcome \<Longrightarrow> length samples < 2 * within_budget samples"
proof -
  note ok = evaluate_runs_ok [OF assms]
  have fin: "\<forall>x \<in> set (map sample_delta samples). is_finite x" using ok(1) by (simp add: usable_def)
  show "length samples < 2 * within_budget samples \<Longrightarrow> ro_pass outcome"
    "odd (length samples) \<Longrightarrow> ro_pass outcome \<Longrightarrow> length samples < 2 * within_budget samples"
    using median_majority [OF fin ok(3)] by (simp_all add: ok(4) within_budget_deltas)
qed

text \<open>The gate evaluates a set of recordings exactly when there are at least five, their files
  were written strictly one after the other and none before the given start, and every number it
  computes is finite; nothing it indexes is out of range. For an odd number of recordings it passes
  exactly when the paired delta is within 2 percent in more than half of them, and for an even
  number whenever that is so.\<close>

lemma evaluate_runs_decision:
  "evaluate_runs display samples not_before \<noteq> Inl Panic \<and>
   ((\<exists>outcome. evaluate_runs display samples not_before = Inr outcome) \<longleftrightarrow> usable not_before samples) \<and>
   (\<forall>outcome. evaluate_runs display samples not_before = Inr outcome \<longrightarrow>
      (length samples < 2 * within_budget samples \<longrightarrow> ro_pass outcome) \<and>
      (odd (length samples) \<longrightarrow> ro_pass outcome \<longrightarrow> length samples < 2 * within_budget samples))"
proof -
  have "evaluate_runs display samples not_before \<noteq> Inl Panic"
  proof
    assume "evaluate_runs display samples not_before = Inl Panic"
    moreover have "samples \<noteq> []" if "check_runs_present samples = Inr u" for u
      using that by (auto simp: check_runs_present_def)
    ultimately show False
      using median_no_panic [of "map _ samples" Panic]
      by (auto simp: evaluate_runs_def and_then_Inl_iff fallible_eq_iff push_deltas_ok Let_def split: if_splits)
  qed
  then show ?thesis using evaluate_runs_ok(1) evaluate_runs_usable evaluate_runs_majority by blast
qed

definition equal_estimate :: estimate where
  "equal_estimate = \<lparr>est_point = Finite 100, est_lower = Finite 99, est_upper = Finite 101\<rparr>"

definition steady_samples :: "run_sample list" where
  \<comment> \<open>five recordings of equal speed, one second apart\<close>
  "steady_samples = map (\<lambda>i. \<lparr>rs_direct = equal_estimate, rs_kernox = equal_estimate,
     rs_direct_path = estimate_path ''c'' DIRECT_BENCHMARK i,
     rs_kernox_path = estimate_path ''c'' KERNOX_BENCHMARK i, rs_direct_modified = 2 * int i,
     rs_kernox_modified = 2 * int i + 1\<rparr>) [1, 2, 3, 4, 5]"

lemma steady_samples_usable: "usable 2 steady_samples"
proof -
  have deltas: "map sample_delta steady_samples = replicate 5 (Finite 0)"
    by (simp add: steady_samples_def sample_delta_def equal_estimate_def f64_sub_def round64_def numeral_eq_Suc)
  have "sort_key total_key (replicate 5 (Finite 0)) = replicate 5 (Finite 0)"
    by (simp add: numeral_eq_Suc)
  then have "median_of (replicate 5 (Finite 0)) = (Inr (Finite 0) :: str fault + _)"
    by (simp add: median_of_def Let_def)
  moreover have "\<forall>s \<in> set steady_samples. is_finite (sample_delta s)"
    by (simp add: steady_samples_def sample_delta_def equal_estimate_def f64_sub_def round64_def)
  moreover have "ordered_recordings 2 steady_samples"
    by (simp add: ordered_recordings_def steady_samples_def)
  moreover have "fold_min (map (est_point \<circ> rs_kernox) steady_samples) = Finite 100"
    "fold_min (map (est_point \<circ> rs_direct) steady_samples) = Finite 100"
    by (simp_all add: fold_min_def steady_samples_def equal_estimate_def)
  moreover have "length steady_samples = 5" by (simp add: steady_samples_def)
  ultimately show ?thesis by (simp add: usable_def deltas f64_sub_def round64_def)
qed

lemma evaluate_runs_decision_witness:
  "\<exists>outcome. evaluate_runs (\<lambda>_. []) steady_samples 2 = Inr outcome \<and> ro_pass outcome"
proof -
  have "within_budget steady_samples = 5" "length steady_samples = 5"
    by (simp_all add: within_budget_def steady_samples_def sample_delta_def equal_estimate_def f64_sub_def
        round64_def budget_value)
  then show ?thesis
    using evaluate_runs_decision [of "\<lambda>_. []" steady_samples 2] steady_samples_usable by force
qed

section \<open>The gate\<close>

definition estimate_ok :: "estimate \<Rightarrow> bool" where
  "estimate_ok e \<longleftrightarrow> (\<exists>p l u. e = \<lparr>est_point = Finite p, est_lower = Finite l, est_upper = Finite u\<rparr> \<and>
     0 < p \<and> 0 < l \<and> l \<le> u)"

lemma estimate_new_ok: "estimate_new p l u = Inr e \<Longrightarrow> estimate_ok e"
  by (cases p; cases l; cases u)
    (auto simp: estimate_new_def not_positive_def f64_gt_def estimate_ok_def split: if_splits)

lemma read_estimate_ok: "read_estimate lib path = Inr (e, m) \<Longrightarrow> bl_metadata lib path = Inr (Inr m) \<and> estimate_ok e"
  by (auto simp: read_estimate_def parse_estimate_def result_simps map_err_iff dest: estimate_new_ok)

definition recorded_run :: "bench_library \<Rightarrow> str \<Rightarrow> nat \<Rightarrow> run_sample \<Rightarrow> bool" where
  \<comment> \<open>both files of a run are there, with these estimates and modification times\<close>
  "recorded_run lib dir run s \<longleftrightarrow>
     rs_direct_path s = estimate_path dir DIRECT_BENCHMARK run \<and>
     rs_kernox_path s = estimate_path dir KERNOX_BENCHMARK run \<and>
     read_estimate lib (rs_direct_path s) = Inr (rs_direct s, rs_direct_modified s) \<and>
     read_estimate lib (rs_kernox_path s) = Inr (rs_kernox s, rs_kernox_modified s)"

lemma read_sample_ok:
  "read_sample lib dir run samples = Inr samples' \<longleftrightarrow> (\<exists>s. recorded_run lib dir run s \<and> samples' = samples @ [s])"
proof
  assume "read_sample lib dir run samples = Inr samples'"
  then obtain d dm k km where
    "read_estimate lib (estimate_path dir DIRECT_BENCHMARK run) = Inr (d, dm)"
    "read_estimate lib (estimate_path dir KERNOX_BENCHMARK run) = Inr (k, km)"
    "samples' = samples @ [\<lparr>rs_direct = d, rs_kernox = k, rs_direct_path = estimate_path dir DIRECT_BENCHMARK run,
       rs_kernox_path = estimate_path dir KERNOX_BENCHMARK run, rs_direct_modified = dm, rs_kernox_modified = km\<rparr>]"
    by (auto simp: read_sample_def Let_def and_then_Inr_iff)
  then show "\<exists>s. recorded_run lib dir run s \<and> samples' = samples @ [s]" by (auto simp: recorded_run_def)
qed (auto simp: read_sample_def recorded_run_def)

lemma read_samples_ok:
  "for_each (read_sample lib dir) [1..<n + 1] [] = Inr samples \<longleftrightarrow>
     length samples = n \<and> (\<forall>i < n. recorded_run lib dir (Suc i) (samples ! i))"
proof (induction n arbitrary: samples)
  case (Suc n)
  have "[1..<Suc n + 1] = [1..<n + 1] @ [Suc n]" by simp
  then have "for_each (read_sample lib dir) [1..<Suc n + 1] [] = Inr samples \<longleftrightarrow>
      (\<exists>ss s. length ss = n \<and> (\<forall>i < n. recorded_run lib dir (Suc i) (ss ! i)) \<and>
        recorded_run lib dir (Suc n) s \<and> samples = ss @ [s])"
    by (simp only: for_each_append and_then_Inr_iff Suc.IH) (auto simp: read_sample_ok and_then_Inr_iff)
  also have "\<dots> \<longleftrightarrow> length samples = Suc n \<and> (\<forall>i < Suc n. recorded_run lib dir (Suc i) (samples ! i))"
    (is "?l \<longleftrightarrow> ?r")
  proof
    assume ?r
    then show ?l by (intro exI [of _ "take n samples"] exI [of _ "samples ! n"]) (simp add: take_Suc_conv_app_nth [symmetric])
  qed (auto simp: nth_append less_Suc_eq)
  finally show ?case .
qed auto

text \<open>C28: with an odd number of runs the gate succeeds exactly when every one of the two files per
  run is read with finite, positive and ordered numbers, they were written strictly one after the
  other and none before the given start, and the paired delta is within 2 percent in more than half
  of the runs.\<close>

theorem gate_passes_iff:
  assumes "odd (go_runs options)"
  shows "fst (run_gate lib options printed) = Inr () \<longleftrightarrow>
    (\<exists>dir samples. resolve_criterion_dir lib (go_criterion_dir options) = Inr dir \<and>
       length samples = go_runs options \<and> (\<forall>i < go_runs options. recorded_run lib dir (Suc i) (samples ! i)) \<and>
       (\<forall>s \<in> set samples. estimate_ok (rs_direct s) \<and> estimate_ok (rs_kernox s)) \<and>
       usable (go_not_before options) samples \<and> go_runs options < 2 * within_budget samples)"
    (is "?passes \<longleftrightarrow> ?evidence")
proof
  assume ?passes
  then obtain dir samples outcome where run: "resolve_criterion_dir lib (go_criterion_dir options) = Inr dir"
    "for_each (read_sample lib dir) [1..<go_runs options + 1] [] = Inr samples"
    "evaluate_runs (bl_display lib) samples (go_not_before options) = Inr outcome" "ro_pass outcome"
    by (auto simp: run_gate_def result_simps split: sum.splits if_splits)
  note samples = run(2) [unfolded read_samples_ok]
  moreover have "\<forall>s \<in> set samples. estimate_ok (rs_direct s) \<and> estimate_ok (rs_kernox s)"
    using samples read_estimate_ok by (auto simp: in_set_conv_nth recorded_run_def) metis+
  ultimately show ?evidence
    using run(1) evaluate_runs_ok(1) [OF run(3)] evaluate_runs_majority(2) [OF run(3) _ run(4)] assms by metis
next
  assume ?evidence
  then obtain dir samples where ev: "resolve_criterion_dir lib (go_criterion_dir options) = Inr dir"
    "for_each (read_sample lib dir) [1..<go_runs options + 1] [] = Inr samples" "length samples = go_runs options"
    "usable (go_not_before options) samples" "go_runs options < 2 * within_budget samples"
    unfolding read_samples_ok by blast
  obtain outcome where out: "evaluate_runs (bl_display lib) samples (go_not_before options) = Inr outcome"
    using evaluate_runs_usable [OF ev(4)] by blast
  with evaluate_runs_majority(1) [OF out] ev show ?passes by (simp add: run_gate_def)
qed

definition steady_library :: bench_library where
  \<comment> \<open>the files of the steady recordings\<close>
  "steady_library =
     \<lparr>bl_parse_json = (\<lambda>_. Inr (JObject [(''mean'', JObject [(''point_estimate'', JNumber (Finite 100)),
        (''confidence_interval'', JObject [(''lower_bound'', JNumber (Finite 99)), (''upper_bound'', JNumber (Finite 101))])])])),
      bl_metadata = (\<lambda>path. case map_of (concat (map (\<lambda>s. [(rs_direct_path s, rs_direct_modified s),
        (rs_kernox_path s, rs_kernox_modified s)]) steady_samples)) path of None \<Rightarrow> Inl ''not found'' | Some t \<Rightarrow> Inr (Inr t)),
      bl_read_to_string = (\<lambda>_. Inr ''{}''), bl_cargo_metadata = Inl ''no cargo'', bl_display = (\<lambda>_. [])\<rparr>"

definition steady_options :: gate_options where
  "steady_options = \<lparr>go_criterion_dir = ExplicitDir ''c'', go_runs = 5, go_not_before = 2\<rparr>"

lemma gate_passes_iff_witness: "fst (run_gate steady_library steady_options []) = Inr ()"
proof -
  have "odd (go_runs steady_options)" by (simp add: steady_options_def)
  moreover have "resolve_criterion_dir steady_library (go_criterion_dir steady_options) = Inr ''c''"
    by (simp add: resolve_criterion_dir_def steady_options_def)
  moreover have "recorded_run steady_library ''c'' 1 (steady_samples ! 0)"
    "recorded_run steady_library ''c'' 2 (steady_samples ! 1)" "recorded_run steady_library ''c'' 3 (steady_samples ! 2)"
    "recorded_run steady_library ''c'' 4 (steady_samples ! 3)" "recorded_run steady_library ''c'' 5 (steady_samples ! 4)"
    by code_simp+
  then have "\<forall>i < go_runs steady_options. recorded_run steady_library ''c'' (Suc i) (steady_samples ! i)"
    by (simp add: steady_options_def numeral_eq_Suc All_less_Suc)
  moreover have "\<forall>s \<in> set steady_samples. estimate_ok (rs_direct s) \<and> estimate_ok (rs_kernox s)"
    by (simp add: steady_samples_def estimate_ok_def equal_estimate_def)
  moreover have "length steady_samples = go_runs steady_options" "within_budget steady_samples = 5"
    by (simp_all add: within_budget_def steady_samples_def sample_delta_def equal_estimate_def f64_sub_def
        round64_def budget_value steady_options_def)
  moreover have "usable (go_not_before steady_options) steady_samples" "go_runs steady_options < 10"
    using steady_samples_usable by (simp_all add: steady_options_def)
  ultimately show ?thesis
    unfolding gate_passes_iff [OF \<open>odd (go_runs steady_options)\<close>]
    by (intro exI [of _ "''c''"] exI [of _ steady_samples]) simp
qed

end
