(* ===== verification/Bench_Arguments.thy ===== *)
theory Bench_Arguments
  imports Bench_Gate
begin

text \<open>
  The arguments of the benchmark gate, read back from the settings they state, with the one value the
  parser does not survive; and the recording, which runs every benchmark once and in order.
\<close>

section \<open>Gate arguments\<close>

datatype gate_setting = SetDir str | SetRuns nat | SetNotBefore nat

fun setting_arguments :: "gate_setting \<Rightarrow> str list" where
  "setting_arguments (SetDir dir) = [''--criterion-dir'', dir]"
| "setting_arguments (SetRuns n) = [''--runs'', decimal n]"
| "setting_arguments (SetNotBefore epoch) = [''--not-before'', decimal epoch]"

fun setting_fits :: "gate_setting \<Rightarrow> bool" where
  "setting_fits (SetDir dir) = True"
| "setting_fits (SetRuns n) = (n < 2 ^ 64)"
| "setting_fits (SetNotBefore epoch) = (epoch < 2 ^ 63)"

fun apply_setting :: "gate_setting \<Rightarrow> criterion_dir \<times> nat \<times> int option \<Rightarrow> criterion_dir \<times> nat \<times> int option" where
  "apply_setting (SetDir dir) (_, runs, t) = (ExplicitDir dir, runs, t)"
| "apply_setting (SetRuns n) (dir, _, t) = (dir, n, t)"
| "apply_setting (SetNotBefore epoch) (dir, runs, _) = (dir, runs, Some (int epoch * 1000000000))"

lemma maxima: "n \<le> usize_max \<longleftrightarrow> n < 2 ^ 64" "n \<le> u64_max \<longleftrightarrow> n < 2 ^ 64"
  by (auto simp: usize_max_def u64_max_def)

lemma gate_loop_setting:
  assumes "setting_fits setting"
  shows "parse_gate_loop (setting_arguments setting @ rest) st = parse_gate_loop rest (apply_setting setting st)"
  using assms
  by (cases setting; cases st) (auto simp: parse_unsigned_decimal maxima epoch_time_def)

lemma gate_loop_settings:
  "\<forall>s \<in> set settings. setting_fits s \<Longrightarrow>
     parse_gate_loop (concat (map setting_arguments settings) @ rest) st = parse_gate_loop rest (fold apply_setting settings st)"
proof (induction settings arbitrary: st)
  case (Cons s settings)
  then show ?case by (simp add: gate_loop_setting del: parse_gate_loop.simps)
qed simp

text \<open>Arguments written from a list of settings are read back: a later setting replaces an
  earlier one, five runs are the default, and the result is refused exactly when no start was
  given or fewer than five runs are asked for.\<close>

lemma parse_gate_arguments_roundtrip:
  assumes "\<forall>s \<in> set settings. setting_fits s"
  shows "parse_gate_arguments (concat (map setting_arguments settings)) =
    (case fold apply_setting settings (DefaultDir, 5, None) of
       (dir, runs, None) \<Rightarrow>
         Inl (Err ''bench-budget requires --not-before EPOCH_SECONDS recorded before bench-budget-record ran'')
     | (dir, runs, Some t) \<Rightarrow>
         if 5 \<le> runs then Inr \<lparr>go_criterion_dir = dir, go_runs = runs, go_not_before = t\<rparr>
         else Inl (Err (''at least 5 recorded runs are required so the paired median is meaningful; got '' @ decimal runs)))"
proof -
  have "decimal 5 = ''5''" by code_simp
  moreover have "parse_gate_loop [] st = Inr st" for st by (cases st) simp
  ultimately show ?thesis using gate_loop_settings [OF assms, of "[]"]
    by (simp add: parse_gate_arguments_def DEFAULT_RUNS_def check_runs_def MIN_RUNS_def ok_or_def
        split: prod.splits option.splits)
qed

lemma parse_gate_arguments_roundtrip_witness:
  "parse_gate_arguments [''--runs'', ''7'', ''--not-before'', ''12''] =
     Inr \<lparr>go_criterion_dir = DefaultDir, go_runs = 7, go_not_before = 12000000000\<rparr>"
proof -
  have "decimal 7 = ''7''" "decimal 12 = ''12''" by code_simp+
  with parse_gate_arguments_roundtrip [of "[SetRuns 7, SetNotBefore 12]"] show ?thesis by simp
qed

text \<open>After settings that are read back, a start that fits the 64 bits it is parsed with but not the signed
  seconds of the system time makes the gate panic instead of refusing it, whatever follows.\<close>

lemma not_before_panics:
  assumes "\<forall>s \<in> set settings. setting_fits s" and "2 ^ 63 \<le> epoch" and "epoch < 2 ^ 64"
  shows "parse_gate_arguments (concat (map setting_arguments settings) @ ''--not-before'' # decimal epoch # rest) = Inl Panic"
proof -
  obtain dir runs t where "fold apply_setting settings (DefaultDir, 5, None) = (dir, runs, t)" by (rule prod_cases3)
  with gate_loop_settings [OF assms(1)] assms(2,3) show ?thesis
    by (simp add: parse_gate_arguments_def DEFAULT_RUNS_def parse_unsigned_decimal maxima epoch_time_def)
qed

section \<open>Record arguments\<close>

lemma record_loop_settings:
  assumes "\<forall>s \<in> set settings. setting_fits s \<and> (\<forall>epoch. s \<noteq> SetNotBefore epoch)"
  shows "\<exists>t. fold apply_setting settings (dir, runs, None) = (fst t, snd t, None) \<and>
    parse_record_loop (concat (map setting_arguments settings)) (dir, runs) = Inr t"
  using assms
proof (induction settings arbitrary: dir runs)
  case (Cons s settings)
  then show ?case by (cases s) (auto simp: parse_unsigned_decimal maxima)
qed simp

section \<open>Recording\<close>

lemma record_one_commands:
  "record_one lib run u s = (r, s') \<Longrightarrow> rg_commands s' = rg_commands s @ [bench_arguments run]"
  by (auto simp: record_one_def Let_def split: prod.splits)

lemma record_loop_commands:
  "loop_action (record_one lib) xs u s = (r, s') \<Longrightarrow>
     \<exists>k \<le> length xs. rg_commands s' = rg_commands s @ map bench_arguments (take k xs) \<and> (r = Inr () \<longrightarrow> k = length xs)"
proof (induction xs arbitrary: u s)
  case (Cons x xs)
  obtain r1 s1 where one: "record_one lib x u s = (r1, s1)" by fastforce
  note c = record_one_commands [OF one]
  show ?case
  proof (cases r1)
    case (Inl e)
    with one Cons.prems have "s' = s1" "r = Inl e" by (simp_all add: bind_action_def)
    with c show ?thesis by (intro exI [of _ 1]) simp
  next
    case (Inr v)
    with one Cons.prems have "loop_action (record_one lib) xs v s1 = (r, s')" by (simp add: bind_action_def)
    from Cons.IH [OF this] obtain k where "k \<le> length xs"
      "rg_commands s' = rg_commands s1 @ map bench_arguments (take k xs)" "r = Inr () \<longrightarrow> k = length xs" by blast
    with c show ?thesis by (intro exI [of _ "Suc k"]) simp
  qed
qed simp

lemma run_record_commands:
  assumes "run_record lib options s = (r, s')"
  shows "\<exists>k \<le> rc_runs options. rg_commands s' = rg_commands s @ map bench_arguments [1..<k + 1] \<and>
    (r = Inr () \<longrightarrow> k = rc_runs options \<and>
       (\<exists>dir. resolve_criterion_dir (rl_base lib) (rc_criterion_dir options) = Inr dir \<and>
          fst (rl_remove_dir_all lib (path_join dir STEADY_STATE_GROUP) (rg_world s)) \<in> {Removed, NotFound}))"
proof (cases "resolve_criterion_dir (rl_base lib) (rc_criterion_dir options)")
  case (Inl e)
  with assms show ?thesis by (intro exI [of _ 0]) (auto simp: run_record_def)
next
  case (Inr dir)
  obtain removal w where rm: "rl_remove_dir_all lib (path_join dir STEADY_STATE_GROUP) (rg_world s) = (removal, w)"
    by fastforce
  show ?thesis
  proof (cases "\<exists>e. removal = RemoveFailed e")
    case True
    with assms Inr rm show ?thesis
      by (intro exI [of _ 0]) (auto simp: run_record_def clear_results_def bind_action_def)
  next
    case False
    let ?runs = "[1..<rc_runs options + 1]"
    from False have ok: "removal \<in> {Removed, NotFound}" by (cases removal) auto
    then obtain s1 where "loop_action (record_one lib) [1..<rc_runs options + 1] () s1 = (r, s')"
      and s1: "rg_commands s1 = rg_commands s"
      using assms Inr rm by (auto simp: run_record_def clear_results_def bind_action_def print_line_def)
    from record_loop_commands [OF this(1)] obtain k where "k \<le> length ?runs"
      and cmds: "rg_commands s' = rg_commands s1 @ map bench_arguments (take k ?runs)"
      and all: "r = Inr () \<longrightarrow> k = length ?runs" by blast
    moreover have len: "length ?runs = rc_runs options" by simp
    ultimately have k: "k \<le> rc_runs options" "r = Inr () \<longrightarrow> k = rc_runs options" by simp_all
    have "take k ?runs = [1..<k + 1]" using k(1) by (simp only: take_upt) simp
    then have "rg_commands s' = rg_commands s @ map bench_arguments [1..<k + 1]" unfolding cmds s1 by simp
    with k Inr ok rm show ?thesis by (intro exI [of _ k]) simp
  qed
qed

end
