(* ===== verification/Xtask_Process.thy ===== *)
theory Xtask_Process
  imports Json_Value Stateful Ordered_Collections
begin

text \<open>
  What the commands of \<open>xtask/src/main.rs\<close> share: running a program, printing a line, and decoded
  output. Programs and the file system are the fields of \<open>xtask_library\<close>; they act on a world \<open>'w\<close>
  that no other process changes in between. The state keeps the lines printed and a ghost record of
  the programs run and of what they returned.
\<close>

record program_run =
  iv_program :: str
  iv_arguments :: "str list"
  iv_environment :: "(str \<times> str option) list"   \<comment> \<open>variables that are set, or removed with \<open>None\<close>\<close>

datatype io_error = IoNotFound str | IoOther str

fun io_text :: "io_error \<Rightarrow> str" where
  "io_text (IoNotFound text) = text"
| "io_text (IoOther text) = text"

record exit_output =
  eo_success :: bool
  eo_status :: str              \<comment> \<open>the \<open>Display\<close> of the exit status\<close>
  eo_stdout :: str
  eo_stdout_text :: utext       \<comment> \<open>\<open>String::from_utf8_lossy\<close>\<close>
  eo_stderr_text :: utext

record 'w xtask_library =
  xl_command :: "program_run \<Rightarrow> 'w \<Rightarrow> (io_error + exit_output) \<times> 'w"
  xl_parse_json :: "str \<Rightarrow> str + json"
  xl_is_file :: "'w \<Rightarrow> str \<Rightarrow> bool"
  xl_exists :: "'w \<Rightarrow> str \<Rightarrow> bool"
  xl_debug_names :: "str list \<Rightarrow> str"          \<comment> \<open>the \<open>Debug\<close> text of a collection of strings\<close>
  xl_debug_text :: "utext option \<Rightarrow> str"

record 'w xtask =
  xt_world :: 'w
  xt_printed :: "str list"
  xt_commands :: "(program_run \<times> (io_error + exit_output)) list"

definition println :: "str \<Rightarrow> ('w xtask, 'e, unit) action" where
  "println line = modify_action (\<lambda>s. s\<lparr>xt_printed := xt_printed s @ [line]\<rparr>)"

definition command_output :: "'w xtask_library \<Rightarrow> program_run \<Rightarrow> ('w xtask, 'e, io_error + exit_output) action" where
  \<comment> \<open>\<open>Command::output\<close> and \<open>Command::status\<close>\<close>
  "command_output lib iv s =
     (let (result, w) = xl_command lib iv (xt_world s)
      in (Inr result, s\<lparr>xt_world := w, xt_commands := xt_commands s @ [(iv, result)]\<rparr>))"

definition run_program :: "'w xtask_library \<Rightarrow> str \<Rightarrow> str \<Rightarrow> str list \<Rightarrow> (str \<times> str) list
    \<Rightarrow> ('w xtask, str, unit) action" where
  "run_program lib label program arguments environment =
     bind_action (println (''verify.'' @ label)) (\<lambda>_.
     bind_action (command_output lib \<lparr>iv_program = program, iv_arguments = arguments,
       iv_environment = map (\<lambda>(name, v). (name, Some v)) environment\<rparr>) (\<lambda>status.
     case status of
       Inl error \<Rightarrow> fail_action (''could not run '' @ program @ '': '' @ io_text error)
     | Inr output \<Rightarrow>
         if eo_success output then return_action ()
         else fail_action (label @ '' exited with '' @ eo_status output)))"

definition of_result :: "'e + 'a \<Rightarrow> ('s, 'e, 'a) action" where
  "of_result r s = (r, s)"

lemma of_result_simps [simp]: "of_result r s = (r, s)"
  by (simp add: of_result_def)

section \<open>Text\<close>

definition utf8_char :: "nat \<Rightarrow> str" where
  "utf8_char c =
     (if c < 0x80 then [char_of c]
      else if c < 0x800 then [char_of (0xC0 + c div 64), char_of (0x80 + c mod 64)]
      else if c < 0x10000 then
        [char_of (0xE0 + c div 4096), char_of (0x80 + c div 64 mod 64), char_of (0x80 + c mod 64)]
      else [char_of (0xF0 + c div 262144), char_of (0x80 + c div 4096 mod 64),
        char_of (0x80 + c div 64 mod 64), char_of (0x80 + c mod 64)])"

definition utf8 :: "utext \<Rightarrow> str" where
  "utf8 t = concat (map utf8_char t)"

fun text_lines :: "utext \<Rightarrow> utext list" where
  \<comment> \<open>\<open>str::lines\<close>: a line feed, with a carriage return before it, ends a line\<close>
  "text_lines [] = []"
| "text_lines (c # t) =
     (if c = 10 then [] # text_lines t
      else if c = 13 \<and> t \<noteq> [] \<and> hd t = 10 then text_lines t
      else case text_lines t of [] \<Rightarrow> [[c]] | l # ls \<Rightarrow> (c # l) # ls)"

definition first_word :: "utext \<Rightarrow> utext option" where
  \<comment> \<open>\<open>split_whitespace().next()\<close>\<close>
  "first_word t =
     (let rest = dropWhile is_whitespace t
      in if rest = [] then None else Some (takeWhile (\<lambda>c. \<not> is_whitespace c) rest))"

end
