(* ===== verification/Xtask_Release.thy ===== *)
theory Xtask_Release
  imports Xtask_Process
begin

text \<open>
  The release check of \<open>xtask/src/main.rs\<close>: the publishable packages of the workspace are the ones of
  the release order, they have one version below 1.0 and complete metadata, and every path
  dependency among them comes earlier in the order. The messages quote Rust's \<open>Debug\<close> text of a set,
  which is a parameter; \<open>order[name]\<close> is an index that could panic.
\<close>

definition RELEASE_ORDER :: "str list" where
  "RELEASE_ORDER = [''kernox-core'', ''kernox-runtime'', ''kernox-host-serverless'', ''kernox-host-tokio'',
     ''kernox-testkit'', ''kernox'', ''cargo-kernox'']"

definition cargo_metadata :: "'w xtask_library \<Rightarrow> ('w xtask, str, json) action" where
  "cargo_metadata lib =
     bind_action (command_output lib \<lparr>iv_program = ''cargo'',
       iv_arguments = [''metadata'', ''--locked'', ''--format-version'', ''1''], iv_environment = []\<rparr>) (\<lambda>result.
     case result of
       Inl error \<Rightarrow> fail_action (''could not inspect Cargo metadata: '' @ io_text error)
     | Inr output \<Rightarrow>
         if \<not> eo_success output then fail_action ''cargo metadata failed''
         else of_result (map_err (\<lambda>error. ''invalid cargo metadata: '' @ error)
           (xl_parse_json lib (eo_stdout output))))"

definition is_crates_io_publishable :: "json \<Rightarrow> bool" where
  "is_crates_io_publishable package =
     (case json_index package ''publish'' of
        JNull \<Rightarrow> True
      | JArray registries \<Rightarrow> list_ex (\<lambda>registry. as_str registry = Some ''crates-io'') registries
      | _ \<Rightarrow> False)"

fun parse_release_loop :: "str list \<Rightarrow> str option \<Rightarrow> str + str option" where
  "parse_release_loop [] expected = Inr expected"
| "parse_release_loop (argument # rest) expected =
     (if argument = ''--version'' then
        (case rest of
           [] \<Rightarrow> Inl ''release-check expects one --version VERSION argument''
         | v # rest' \<Rightarrow>
             if expected \<noteq> None then Inl ''release-check expects one --version VERSION argument''
             else parse_release_loop rest' (Some v))
      else Inl (''unknown release-check argument '' @ argument))"

definition parse_release_version_argument :: "str list \<Rightarrow> str + str option" where
  "parse_release_version_argument arguments = parse_release_loop arguments None"

section \<open>The packages of the workspace\<close>

definition member_ids :: "json list \<Rightarrow> str btree_set" where
  "member_ids workspace_members = bs_of (List.map_filter as_str workspace_members)"

definition workspace_entry :: "str btree_set \<Rightarrow> json \<Rightarrow> (str \<times> json) option" where
  "workspace_entry ids package =
     (case as_str (json_index package ''id'') of
        None \<Rightarrow> None
      | Some package_id \<Rightarrow>
          (case as_str (json_index package ''name'') of
             None \<Rightarrow> None
           | Some name \<Rightarrow> if bs_contains ids package_id then Some (name, package) else None))"

definition collect_map :: "('k::linorder \<times> 'v) list \<Rightarrow> ('k, 'v) btree_map" where
  \<comment> \<open>\<open>collect::<BTreeMap<_, _>>()\<close>: a later entry replaces an earlier one\<close>
  "collect_map entries = fold (\<lambda>(k, v). bm_insert k v) entries []"

definition workspace_packages :: "json list \<Rightarrow> json list \<Rightarrow> (str, json) btree_map" where
  "workspace_packages packages workspace_members =
     collect_map (List.map_filter (workspace_entry (member_ids workspace_members)) packages)"

definition publishable_names :: "(str, json) btree_map \<Rightarrow> str btree_set" where
  "publishable_names packages = bs_of (map fst (filter (\<lambda>(name, package). is_crates_io_publishable package) packages))"

section \<open>The check\<close>

definition release_version :: "str option \<Rightarrow> (str, json) btree_map \<Rightarrow> str + str" where
  "release_version expected packages =
     and_then (ok_or ''release package kernox-core missing from workspace'' (bm_get packages (RELEASE_ORDER ! 0)))
       (\<lambda>first_package.
     and_then (ok_or ''kernox-core version missing from cargo metadata'' (as_str (json_index first_package ''version'')))
       (\<lambda>version.
     if take 2 version \<noteq> ''0.'' then
       Inl (''stable 1.x publication is disabled during development; release version is '' @ version)
     else (case expected of
         Some requested \<Rightarrow>
           if version \<noteq> requested then
             Inl (''workspace version '' @ version @ '' does not match requested '' @ requested)
           else Inr version
       | None \<Rightarrow> Inr version)))"

definition release_index :: "(str, nat) btree_map" where
  "release_index = collect_map (map (\<lambda>(i, name). (name, i)) (enumerate 0 RELEASE_ORDER))"

definition check_field :: "str \<Rightarrow> json \<Rightarrow> str \<Rightarrow> str + unit" where
  "check_field name package field =
     (case as_str (json_index package field) of
        Some v \<Rightarrow>
          if v \<noteq> [] then Inr ()
          else Inl (''release package '' @ name @ '' is missing package metadata field '' @ field)
      | None \<Rightarrow> Inl (''release package '' @ name @ '' is missing package metadata field '' @ field))"

definition check_dependency :: "str \<Rightarrow> json \<Rightarrow> str fault + unit" where
  "check_dependency name dependency =
     (case as_str (json_index dependency ''name'') of
        None \<Rightarrow> Inr ()
      | Some dependency_name \<Rightarrow>
          (case bm_get release_index dependency_name of
             None \<Rightarrow> Inr ()
           | Some dependency_index \<Rightarrow>
               if as_str (json_index dependency ''path'') \<noteq> None then
                 (case bm_get release_index name of
                    None \<Rightarrow> Inl Panic
                  | Some index \<Rightarrow>
                      if index \<le> dependency_index then
                        Inl (Err (''release order places '' @ name @ '' before its path dependency '' @ dependency_name))
                      else Inr ())
               else Inr ()))"

definition check_package :: "(str, json) btree_map \<Rightarrow> str \<Rightarrow> str \<Rightarrow> str fault + unit" where
  "check_package packages version name =
     and_then (fallible (ok_or (''release package '' @ name @ '' missing from workspace'') (bm_get packages name)))
       (\<lambda>package.
     and_then (fallible (ok_or (name @ '' version missing from cargo metadata'') (as_str (json_index package ''version''))))
       (\<lambda>package_version.
     if package_version \<noteq> version then
       Inl (Err (''release package '' @ name @ '' has version '' @ package_version @ '', expected '' @ version))
     else
     and_then (fallible (for_each (\<lambda>field _. check_field name package field)
       [''description'', ''license'', ''repository'', ''readme''] ())) (\<lambda>_.
     and_then (fallible (ok_or (name @ '' dependencies missing from cargo metadata'')
       (as_array (json_index package ''dependencies'')))) (\<lambda>dependencies.
     for_each (\<lambda>dependency _. check_dependency name dependency) dependencies ()))))"

definition check_workspace :: "(str list \<Rightarrow> str) \<Rightarrow> str option \<Rightarrow> json \<Rightarrow> str fault + str" where
  "check_workspace debug_names expected metadata =
     and_then (fallible (ok_or ''cargo metadata packages missing'' (as_array (json_index metadata ''packages'')))) (\<lambda>packages.
     and_then (fallible (ok_or ''cargo metadata workspace members missing''
       (as_array (json_index metadata ''workspace_members'')))) (\<lambda>workspace_members.
     let workspace = workspace_packages packages workspace_members;
         release_names = bs_of RELEASE_ORDER;
         actual_publishable = publishable_names workspace
     in if actual_publishable \<noteq> release_names then
          Inl (Err (''publishable workspace packages do not match release order; expected '' @
            debug_names RELEASE_ORDER @ '', found '' @ debug_names actual_publishable))
        else
     and_then (fallible (release_version expected workspace)) (\<lambda>version.
     and_then (for_each (\<lambda>name _. check_package workspace version name) RELEASE_ORDER ()) (\<lambda>_.
     Inr version))))"

definition joined_names :: "str list \<Rightarrow> str" where
  \<comment> \<open>\<open>join(",")\<close>\<close>
  "joined_names names = concat (take 1 names) @ concat (map (\<lambda>name. '','' @ name) (drop 1 names))"

definition release_check :: "'w xtask_library \<Rightarrow> str list \<Rightarrow> ('w xtask, str fault, unit) action" where
  "release_check lib arguments =
     bind_action (of_result (fallible (parse_release_version_argument arguments))) (\<lambda>expected.
     bind_action (\<lambda>s. case cargo_metadata lib s of (r, s) \<Rightarrow> (fallible r, s)) (\<lambda>metadata.
     bind_action (of_result (check_workspace (xl_debug_names lib) expected metadata)) (\<lambda>version s.
     if \<not> xl_is_file lib (xt_world s) ''Cargo.lock'' then
       fail_action (Err ''Cargo.lock is required for a reproducible release'') s
     else println (''release.check version='' @ version @ '' packages='' @ joined_names RELEASE_ORDER) s)))"

end
