(* ===== verification/Xtask_Release_Properties.thy ===== *)
theory Xtask_Release_Properties
  imports Xtask_Release Topology
begin

text \<open>
  What the release check guarantees: it passes exactly for a releasable workspace, and then the
  release order is a topological order of the path dependencies among the released packages.
\<close>

definition json_text :: "json \<Rightarrow> str \<Rightarrow> str option" where
  "json_text v field = as_str (json_index v field)"

definition path_dependency :: "(str, json) btree_map \<Rightarrow> str \<Rightarrow> str \<Rightarrow> bool" where
  \<comment> \<open>the package depends on the other one by path\<close>
  "path_dependency workspace name dependency \<longleftrightarrow> (\<exists>package ds d. bm_get workspace name = Some package \<and>
     json_index package ''dependencies'' = JArray ds \<and> d \<in> set ds \<and>
     json_text d ''name'' = Some dependency \<and> json_text d ''path'' \<noteq> None)"

definition released_package :: "str \<Rightarrow> json \<Rightarrow> bool" where
  "released_package version package \<longleftrightarrow> json_text package ''version'' = Some version \<and>
     (\<forall>field \<in> {''description'', ''license'', ''repository'', ''readme''}. json_text package field \<notin> {None, Some []}) \<and>
     as_array (json_index package ''dependencies'') \<noteq> None"

definition releasable :: "(str, json) btree_map \<Rightarrow> str \<Rightarrow> bool" where
  "releasable workspace version \<longleftrightarrow>
     {name. \<exists>package. bm_get workspace name = Some package \<and> is_crates_io_publishable package} = set RELEASE_ORDER \<and>
     (\<exists>rest. version = ''0.'' @ rest) \<and>
     (\<forall>name \<in> set RELEASE_ORDER. \<exists>package. bm_get workspace name = Some package \<and> released_package version package) \<and>
     topological (set RELEASE_ORDER) (\<lambda>name. {d \<in> set RELEASE_ORDER. path_dependency workspace name d}) RELEASE_ORDER"

section \<open>The pieces\<close>

lemma parse_release_version_iff:
  "parse_release_version_argument arguments = Inr expected \<longleftrightarrow>
     arguments = [] \<and> expected = None \<or> (\<exists>v. arguments = [''--version'', v] \<and> expected = Some v)"
proof -
  have given: "parse_release_loop args (Some v) = Inr e \<longleftrightarrow> args = [] \<and> e = Some v" for args v e
    by (cases args) (auto split: list.splits)
  show ?thesis
    by (cases arguments) (auto simp: parse_release_version_argument_def given split: list.splits if_splits)
qed

lemma distinct_release_order [simp]: "distinct RELEASE_ORDER"
  by (simp add: RELEASE_ORDER_def)

lemma collect_map_get: "bm_get (collect_map entries) k = map_of (rev entries) k"
  and collect_map_wf: "bm_wf (collect_map entries)"
proof -
  have "bm_wf m \<Longrightarrow> bm_wf (fold (\<lambda>(k, v). bm_insert k v) entries m) \<and>
      bm_get (fold (\<lambda>(k, v). bm_insert k v) entries m) k =
        (case map_of (rev entries) k of None \<Rightarrow> bm_get m k | Some v \<Rightarrow> Some v)" for m
  proof (induction entries arbitrary: m)
    case (Cons e entries)
    then show ?case
      by (cases e) (auto simp: bm_wf_insert bm_get_insert map_add_def split: option.splits)
  qed simp
  from this [of "[]"] show "bm_get (collect_map entries) k = map_of (rev entries) k" "bm_wf (collect_map entries)"
    by (simp_all add: collect_map_def split: option.splits)
qed

lemma release_index_get: "bm_get release_index name = Some i \<longleftrightarrow> i < length RELEASE_ORDER \<and> RELEASE_ORDER ! i = name"
proof -
  let ?es = "rev (map (\<lambda>(i, name). (name, i)) (enumerate 0 RELEASE_ORDER))"
  have "map (\<lambda>p. snd p) (enumerate 0 RELEASE_ORDER) = RELEASE_ORDER" by (simp only: map_snd_enumerate)
  then have "distinct (map fst ?es)" by (simp add: rev_map [symmetric] comp_def case_prod_unfold)
  then have "map_of ?es name = Some i \<longleftrightarrow> (name, i) \<in> set ?es" by (rule map_of_eq_Some_iff)
  also have "\<dots> \<longleftrightarrow> (i, name) \<in> set (enumerate 0 RELEASE_ORDER)" by force
  also have "\<dots> \<longleftrightarrow> i < length RELEASE_ORDER \<and> RELEASE_ORDER ! i = name"
    by (auto simp: in_set_enumerate_eq)
  finally show ?thesis by (simp add: release_index_def collect_map_get)
qed

lemma check_dependency_ok:
  assumes "i < length RELEASE_ORDER"
  shows "check_dependency (RELEASE_ORDER ! i) d = Inr () \<longleftrightarrow>
      (\<forall>j < length RELEASE_ORDER. json_text d ''name'' = Some (RELEASE_ORDER ! j) \<and> json_text d ''path'' \<noteq> None \<longrightarrow> j < i)"
    and "check_dependency (RELEASE_ORDER ! i) d \<noteq> Inl Panic"
proof -
  from assms have index: "bm_get release_index (RELEASE_ORDER ! i) = Some i" by (simp add: release_index_get)
  then show "check_dependency (RELEASE_ORDER ! i) d \<noteq> Inl Panic"
    by (simp add: check_dependency_def split: option.splits)
  consider (nameless) "json_text d ''name'' = None" | (foreign) dn where "json_text d ''name'' = Some dn" "dn \<notin> set RELEASE_ORDER"
    | (member) j where "j < length RELEASE_ORDER" "json_text d ''name'' = Some (RELEASE_ORDER ! j)"
    by (cases "json_text d ''name''") (auto simp: in_set_conv_nth)
  then show "check_dependency (RELEASE_ORDER ! i) d = Inr () \<longleftrightarrow>
      (\<forall>j < length RELEASE_ORDER. json_text d ''name'' = Some (RELEASE_ORDER ! j) \<and> json_text d ''path'' \<noteq> None \<longrightarrow> j < i)"
  proof cases
    case nameless
    then show ?thesis by (simp add: check_dependency_def json_text_def)
  next
    case foreign
    then have "bm_get release_index dn = None"
      using release_index_get [of dn] by (cases "bm_get release_index dn") (auto simp: in_set_conv_nth)
    with foreign show ?thesis by (auto simp: check_dependency_def json_text_def in_set_conv_nth)
  next
    case member
    then have "bm_get release_index (RELEASE_ORDER ! j) = Some j" by (simp add: release_index_get)
    moreover have "RELEASE_ORDER ! j = RELEASE_ORDER ! j' \<longleftrightarrow> j = j'" if "j' < length RELEASE_ORDER" for j'
      using member(1) that by (simp add: nth_eq_iff_index_eq)
    ultimately show ?thesis using member index
      by (simp add: check_dependency_def json_text_def not_less)
  qed
qed

lemma check_fields_ok:
  "for_each (\<lambda>field _. check_field name package field) [''description'', ''license'', ''repository'', ''readme''] () = Inr () \<longleftrightarrow>
     (\<forall>field \<in> {''description'', ''license'', ''repository'', ''readme''}. json_text package field \<notin> {None, Some []})"
proof -
  have "check_field name package field = Inr () \<longleftrightarrow> json_text package field \<notin> {None, Some []}" for field
    by (auto simp: check_field_def json_text_def split: option.splits)
  then show ?thesis by (simp only: for_each_check_ok set_simps)
qed

lemma as_array_iff: "as_array v = Some vs \<longleftrightarrow> v = JArray vs"
  by (cases v) auto

lemma check_package_ok:
  assumes i: "i < length RELEASE_ORDER"
  shows "check_package workspace version (RELEASE_ORDER ! i) = Inr () \<longleftrightarrow>
     (\<exists>package. bm_get workspace (RELEASE_ORDER ! i) = Some package \<and> released_package version package) \<and>
     (\<forall>j < length RELEASE_ORDER. path_dependency workspace (RELEASE_ORDER ! i) (RELEASE_ORDER ! j) \<longrightarrow> j < i)"
    and "check_package workspace version (RELEASE_ORDER ! i) \<noteq> Inl Panic"
proof -
  define name where "name = RELEASE_ORDER ! i"
  have "for_each (\<lambda>d _. check_dependency name d) ds () \<noteq> Inl Panic" for ds
    using check_dependency_ok(2) [OF i] by (simp add: for_each_error name_def)
  then show "check_package workspace version (RELEASE_ORDER ! i) \<noteq> Inl Panic"
    by (auto simp: check_package_def and_then_Inl_iff name_def)
  have package: "check_package workspace version name = Inr () \<longleftrightarrow>
      (\<exists>package ds. bm_get workspace name = Some package \<and> released_package version package \<and>
         json_index package ''dependencies'' = JArray ds \<and> (\<forall>d \<in> set ds. check_dependency name d = Inr ()))"
    using check_fields_ok [of name]
    by (auto simp: check_package_def released_package_def result_simps json_text_def for_each_check_ok as_array_iff
        simp del: for_each.simps split: if_splits)
  show "check_package workspace version (RELEASE_ORDER ! i) = Inr () \<longleftrightarrow>
     (\<exists>package. bm_get workspace (RELEASE_ORDER ! i) = Some package \<and> released_package version package) \<and>
     (\<forall>j < length RELEASE_ORDER. path_dependency workspace (RELEASE_ORDER ! i) (RELEASE_ORDER ! j) \<longrightarrow> j < i)"
  proof (cases "\<exists>package ds. bm_get workspace name = Some package \<and> json_index package ''dependencies'' = JArray ds")
    case True
    then obtain package ds where p: "bm_get workspace name = Some package" "json_index package ''dependencies'' = JArray ds"
      by blast
    then have "path_dependency workspace name dn \<longleftrightarrow>
        (\<exists>d \<in> set ds. json_text d ''name'' = Some dn \<and> json_text d ''path'' \<noteq> None)" for dn
      by (auto simp: path_dependency_def)
    with p package check_dependency_ok(1) [OF i] show ?thesis unfolding name_def by auto
  next
    case False
    with package show ?thesis
      by (auto simp: released_package_def as_array_iff name_def)
  qed
qed

lemma topological_nth:
  assumes "distinct xs"
  shows "topological (set xs) (\<lambda>n. {d \<in> set xs. R n d}) xs \<longleftrightarrow>
    (\<forall>i < length xs. \<forall>j < length xs. R (xs ! i) (xs ! j) \<longrightarrow> j < i)"
proof
  assume top: "topological (set xs) (\<lambda>n. {d \<in> set xs. R n d}) xs"
  show "\<forall>i < length xs. \<forall>j < length xs. R (xs ! i) (xs ! j) \<longrightarrow> j < i"
  proof (intro allI impI)
    fix i j assume i: "i < length xs" and j: "j < length xs" and r: "R (xs ! i) (xs ! j)"
    have "xs = take i xs @ xs ! i # drop (Suc i) xs" using i by (rule id_take_nth_drop)
    with top r j have "xs ! j \<in> set (take i xs)" unfolding topological_def by fastforce
    then obtain k where "k < i" "xs ! j = xs ! k" using i by (auto simp: in_set_conv_nth)
    with i j show "j < i" using nth_eq_iff_index_eq [OF assms, of j k] by simp
  qed
next
  assume less: "\<forall>i < length xs. \<forall>j < length xs. R (xs ! i) (xs ! j) \<longrightarrow> j < i"
  have "{d \<in> set xs. R v d} \<subseteq> set ys" if split: "xs = ys @ v # zs" for ys v zs
  proof
    fix d assume "d \<in> {d \<in> set xs. R v d}"
    then obtain j where j: "j < length xs" "d = xs ! j" "R v d" by (auto simp: in_set_conv_nth)
    moreover have "xs ! length ys = v" "length ys < length xs" using split by simp_all
    ultimately have "j < length ys" using less by blast
    with j split show "d \<in> set ys" by (simp add: nth_append)
  qed
  with assms show "topological (set xs) (\<lambda>n. {d \<in> set xs. R n d}) xs" by (simp add: topological_def)
qed

lemma map_of_wf: "bm_wf m \<Longrightarrow> (k, v) \<in> set m \<longleftrightarrow> bm_get m k = Some v"
  by (auto simp: bm_get_def bm_wf_def dest: ascending_distinct)

lemma publishable_names_iff:
  assumes "bm_wf workspace"
  shows "publishable_names workspace = bs_of RELEASE_ORDER \<longleftrightarrow>
    {name. \<exists>package. bm_get workspace name = Some package \<and> is_crates_io_publishable package} = set RELEASE_ORDER"
proof -
  have "bs_of xs = bs_of ys \<longleftrightarrow> set xs = set ys" for xs ys :: "str list"
    by (metis set_bs_of ascending_bs_of ascending_unique)
  moreover have "set (map fst (filter (\<lambda>(name, package). is_crates_io_publishable package) workspace)) =
      {name. \<exists>package. bm_get workspace name = Some package \<and> is_crates_io_publishable package}"
    using map_of_wf [OF assms] by force
  ultimately show ?thesis by (simp add: publishable_names_def)
qed

lemma release_version_iff:
  "release_version expected workspace = Inr version \<longleftrightarrow>
     (\<exists>package. bm_get workspace ''kernox-core'' = Some package \<and> json_text package ''version'' = Some version) \<and>
     (\<exists>rest. version = ''0.'' @ rest) \<and> (expected \<noteq> None \<longrightarrow> expected = Some version)"
proof -
  have "take 2 version = ''0.'' \<longleftrightarrow> (\<exists>rest. version = ''0.'' @ rest)"
  proof
    assume "take 2 version = ''0.''"
    then have "version = ''0.'' @ drop 2 version" by (metis append_take_drop_id)
    then show "\<exists>rest. version = ''0.'' @ rest" by blast
  qed auto
  moreover have "RELEASE_ORDER ! 0 = ''kernox-core''" by (simp add: RELEASE_ORDER_def)
  ultimately show ?thesis
    by (cases expected) (auto simp: release_version_def result_simps json_text_def split: if_splits)
qed

lemma check_workspace_iff:
  fixes metadata :: json
  shows "check_workspace debug expected metadata = Inr version \<longleftrightarrow>
     (\<exists>packages members. json_index metadata ''packages'' = JArray packages \<and>
        json_index metadata ''workspace_members'' = JArray members \<and>
        releasable (workspace_packages packages members) version \<and> (expected \<noteq> None \<longrightarrow> expected = Some version))"
    and "check_workspace debug expected metadata \<noteq> Inl Panic"
proof -
  have all: "for_each (\<lambda>name _. check_package ws v name) RELEASE_ORDER () = Inr () \<longleftrightarrow>
      (\<forall>name \<in> set RELEASE_ORDER. \<exists>package. bm_get ws name = Some package \<and> released_package v package) \<and>
      topological (set RELEASE_ORDER) (\<lambda>name. {d \<in> set RELEASE_ORDER. path_dependency ws name d}) RELEASE_ORDER" for ws v
    unfolding for_each_check_ok topological_nth [OF distinct_release_order] all_set_conv_all_nth
    using check_package_ok(1) by blast
  have "for_each (\<lambda>name _. check_package ws v name) RELEASE_ORDER () \<noteq> Inl Panic" for ws v
    using check_package_ok(2) by (auto simp: for_each_error in_set_conv_nth) (metis in_set_conv_decomp in_set_conv_nth)
  then show "check_workspace debug expected metadata \<noteq> Inl Panic"
    by (auto simp: check_workspace_def and_then_Inl_iff Let_def split: if_splits)
  have core: "''kernox-core'' \<in> set RELEASE_ORDER" by (simp add: RELEASE_ORDER_def)
  have wf: "bm_wf (workspace_packages packages members)" for packages members
    by (simp add: workspace_packages_def collect_map_wf)
  have "check_workspace debug expected metadata = Inr version \<longleftrightarrow>
     (\<exists>packages members. json_index metadata ''packages'' = JArray packages \<and>
        json_index metadata ''workspace_members'' = JArray members \<and>
        publishable_names (workspace_packages packages members) = bs_of RELEASE_ORDER \<and>
        release_version expected (workspace_packages packages members) = Inr version \<and>
        for_each (\<lambda>name _. check_package (workspace_packages packages members) version name) RELEASE_ORDER () = Inr ())"
    by (auto simp: check_workspace_def result_simps as_array_iff Let_def simp del: for_each.simps split: if_splits)
  also have "\<dots> \<longleftrightarrow> (\<exists>packages members. json_index metadata ''packages'' = JArray packages \<and>
        json_index metadata ''workspace_members'' = JArray members \<and>
        releasable (workspace_packages packages members) version \<and> (expected \<noteq> None \<longrightarrow> expected = Some version))"
    unfolding all publishable_names_iff [OF wf] release_version_iff releasable_def
    using core unfolding released_package_def by blast
  finally show "check_workspace debug expected metadata = Inr version \<longleftrightarrow>
     (\<exists>packages members. json_index metadata ''packages'' = JArray packages \<and>
        json_index metadata ''workspace_members'' = JArray members \<and>
        releasable (workspace_packages packages members) version \<and> (expected \<noteq> None \<longrightarrow> expected = Some version))" .
qed

section \<open>The command\<close>

text \<open>C29: the release check never panics. It passes exactly when it is asked for no version or for the
  workspace's, \<open>cargo metadata\<close> describes a releasable workspace and a lock file is there: the publishable
  packages are those of the release order, all have the one version, which is below 1.0, complete
  metadata, and the release order is a topological order of the path dependencies among them.\<close>

theorem release_check_iff:
  "fst (release_check lib arguments st) \<noteq> Inl Panic \<and>
   (fst (release_check lib arguments st) = Inr () \<longleftrightarrow>
     (\<exists>version metadata st1 packages members. (arguments = [] \<or> arguments = [''--version'', version]) \<and>
        cargo_metadata lib st = (Inr metadata, st1) \<and> json_index metadata ''packages'' = JArray packages \<and>
        json_index metadata ''workspace_members'' = JArray members \<and>
        releasable (workspace_packages packages members) version \<and> xl_is_file lib (xt_world st1) ''Cargo.lock''))"
proof -
  obtain r st1 where meta: "cargo_metadata lib st = (r, st1)" by fastforce
  show ?thesis
  proof (cases "parse_release_version_argument arguments")
    case (Inl e)
    then have "arguments \<noteq> []" "arguments \<noteq> [''--version'', version]" for version
      using parse_release_version_iff [of arguments] by auto
    with Inl show ?thesis by (simp add: release_check_def bind_action_def)
  next
    case (Inr expected)
    then have arguments: "(arguments = [] \<or> arguments = [''--version'', version]) \<longleftrightarrow>
        (expected \<noteq> None \<longrightarrow> expected = Some version)" for version
      using parse_release_version_iff [of arguments expected] by auto
    show ?thesis
    proof (cases r)
      case (Inl e)
      with Inr meta show ?thesis by (simp add: release_check_def bind_action_def)
    next
      case (Inr metadata)
      have run: "fst (release_check lib arguments st) =
          (case check_workspace (xl_debug_names lib) expected metadata of Inl e \<Rightarrow> Inl e
           | Inr version \<Rightarrow> if xl_is_file lib (xt_world st1) ''Cargo.lock'' then Inr ()
               else Inl (Err ''Cargo.lock is required for a reproducible release''))"
        using Inr meta \<open>parse_release_version_argument arguments = Inr expected\<close>
        by (simp add: release_check_def bind_action_def println_def split: sum.splits)
      have "fst (release_check lib arguments st) = Inr () \<longleftrightarrow>
          (\<exists>version. check_workspace (xl_debug_names lib) expected metadata = Inr version) \<and>
          xl_is_file lib (xt_world st1) ''Cargo.lock''"
        unfolding run by (auto split: sum.splits)
      moreover have "fst (release_check lib arguments st) \<noteq> Inl Panic"
        using check_workspace_iff(2) [of "xl_debug_names lib" expected metadata] unfolding run
        by (auto split: sum.splits)
      ultimately show ?thesis unfolding check_workspace_iff(1) arguments using meta Inr by auto
    qed
  qed
qed

text \<open>A workspace that passes: seven packages, each with a path dependency on the one before it.\<close>

definition sample_package :: "str \<Rightarrow> str list \<Rightarrow> json" where
  "sample_package name dependencies = JObject [(''id'', JString name), (''name'', JString name),
     (''version'', JString ''0.3.0''), (''description'', JString ''d''), (''license'', JString ''MIT''),
     (''repository'', JString ''r''), (''readme'', JString ''README.md''),
     (''dependencies'', JArray (map (\<lambda>d. JObject [(''name'', JString d), (''path'', JString d)]) dependencies))]"

definition sample_metadata :: json where
  "sample_metadata = JObject
     [(''packages'', JArray (sample_package ''kernox-core'' [] #
        map (\<lambda>i. sample_package (RELEASE_ORDER ! i) [RELEASE_ORDER ! (i - 1)]) [1, 2, 3, 4, 5, 6])),
      (''workspace_members'', JArray (map JString RELEASE_ORDER))]"

lemma sample_workspace_passes: "check_workspace (\<lambda>_. []) (Some ''0.3.0'') sample_metadata = Inr ''0.3.0''"
  by code_simp

end
