(* ===== verification/Xtask_Boundary.thy ===== *)
theory Xtask_Boundary
  imports Xtask_Release
begin

text \<open>
  The dependency boundaries that \<open>xtask/src/main.rs\<close> enforces: \<open>kernox-core\<close> does not reach a Tokio
  package in the resolved graph of \<open>cargo metadata\<close> (a breadth-first search with a queue), no workspace
  package is the forbidden CLI host crate, and the checkout example has no host runtime in its
  \<open>cargo tree\<close>.
\<close>

section \<open>The core boundary\<close>

definition FORBIDDEN_RUNTIMES :: "str list" where
  \<comment> \<open>the names in \<open>matches!\<close>\<close>
  "FORBIDDEN_RUNTIMES = [''tokio'', ''tokio-util'']"

definition package_name_entry :: "json \<Rightarrow> (str \<times> str) option" where
  "package_name_entry package =
     (case as_str (json_index package ''id'') of
        None \<Rightarrow> None
      | Some package_id \<Rightarrow>
          (case as_str (json_index package ''name'') of None \<Rightarrow> None | Some name \<Rightarrow> Some (package_id, name)))"

definition node_entry :: "json \<Rightarrow> (str \<times> str list) option" where
  "node_entry node =
     (case as_str (json_index node ''id'') of
        None \<Rightarrow> None
      | Some node_id \<Rightarrow>
          (case as_array (json_index node ''dependencies'') of
             None \<Rightarrow> None
           | Some dependencies \<Rightarrow> Some (node_id, List.map_filter as_str dependencies)))"

definition unvisited_nodes :: "(str, str list) btree_map \<Rightarrow> str btree_set \<Rightarrow> str set" where
  "unvisited_nodes dependencies visited = set (bm_keys dependencies) - set visited"

lemma search_boundary_decreases:
  assumes "\<not> bs_contains visited package"
  shows "(((case bm_get dependencies package of None \<Rightarrow> queue | Some children \<Rightarrow> queue @ children), bs_insert package visited),
      (package # queue, visited)) \<in> measures
      [\<lambda>(queue, visited). card (unvisited_nodes dependencies visited), \<lambda>(queue, visited). length queue]"
proof (cases "bm_get dependencies package")
  case None
  then have "unvisited_nodes dependencies (bs_insert package visited) = unvisited_nodes dependencies visited"
    by (auto simp: unvisited_nodes_def bm_get_None_iff)
  with None show ?thesis by simp
next
  case (Some children)
  then have "package \<in> set (bm_keys dependencies)" using bm_get_None_iff [of dependencies package] by auto
  with assms have "unvisited_nodes dependencies (bs_insert package visited) \<subset> unvisited_nodes dependencies visited"
    by (auto simp: unvisited_nodes_def bs_contains_def)
  then have "card (unvisited_nodes dependencies (bs_insert package visited)) < card (unvisited_nodes dependencies visited)"
    by (rule psubset_card_mono [rotated]) (simp add: unvisited_nodes_def)
  then show ?thesis by simp
qed

function search_boundary ::
  "(str, str) btree_map \<Rightarrow> (str, str list) btree_map \<Rightarrow> str list \<Rightarrow> str btree_set \<Rightarrow> str + unit" where
  "search_boundary names dependencies [] visited = Inr ()"
| "search_boundary names dependencies (package # queue) visited =
     (if bs_contains visited package then search_boundary names dependencies queue visited
      else
        let visited = bs_insert package visited;
            queue = (case bm_get dependencies package of None \<Rightarrow> queue | Some children \<Rightarrow> queue @ children)
        in (case bm_get names package of
              Some name \<Rightarrow>
                if name \<in> set FORBIDDEN_RUNTIMES then
                  Inl (''kernox-core transitively depends on forbidden runtime '' @ name)
                else search_boundary names dependencies queue visited
            | None \<Rightarrow> search_boundary names dependencies queue visited))"
  by pat_completeness auto

termination
  by (relation "inv_image (measures [\<lambda>(d, queue, visited). card (unvisited_nodes d visited),
      \<lambda>(d, queue, visited). length queue]) (\<lambda>(names, d, queue, visited). (d, queue, visited))")
    (use search_boundary_decreases in \<open>fastforce+\<close>)

definition enforce_core_dependency_boundary :: "'w xtask_library \<Rightarrow> ('w xtask, str, unit) action" where
  "enforce_core_dependency_boundary lib =
     bind_action (cargo_metadata lib) (\<lambda>metadata. of_result
       (and_then (ok_or ''metadata packages missing'' (as_array (json_index metadata ''packages''))) (\<lambda>packages.
        let names = collect_map (List.map_filter package_name_entry packages)
        in and_then (ok_or ''kernox-core missing from metadata''
             (map_option fst (find (\<lambda>(package_id, name). name = ''kernox-core'') names))) (\<lambda>core.
           and_then (ok_or ''metadata resolve nodes missing''
             (as_array (json_index (json_index metadata ''resolve'') ''nodes''))) (\<lambda>nodes.
           search_boundary names (collect_map (List.map_filter node_entry nodes)) [core] [])))))"

section \<open>The forbidden host crate\<close>

fun check_member :: "str btree_set \<Rightarrow> json \<Rightarrow> str + unit" where
  "check_member ids package =
     (case as_str (json_index package ''id'') of
        None \<Rightarrow> Inr ()
      | Some package_id \<Rightarrow>
          if \<not> bs_contains ids package_id then Inr ()
          else (case as_str (json_index package ''name'') of
                  None \<Rightarrow> Inr ()
                | Some name \<Rightarrow>
                    if name = ''kernox-host-cli'' then
                      Inl ''workspace contains kernox-host-cli; dest KR-HOST forbids a fourth CLI host crate''
                    else Inr ()))"

definition enforce_no_cli_host_crate :: "'w xtask_library \<Rightarrow> ('w xtask, str, unit) action" where
  "enforce_no_cli_host_crate lib =
     bind_action (println ''verify.no-cli-host-crate'') (\<lambda>_.
     bind_action (cargo_metadata lib) (\<lambda>metadata. of_result
       (and_then (ok_or ''metadata packages missing'' (as_array (json_index metadata ''packages''))) (\<lambda>packages.
        and_then (ok_or ''metadata workspace members missing''
          (as_array (json_index metadata ''workspace_members''))) (\<lambda>workspace_members.
        for_each (\<lambda>package _. check_member (member_ids workspace_members) package) packages ())))))"

section \<open>The checkout example\<close>

definition tree_package :: "utext \<Rightarrow> utext option" where
  "tree_package line = (let line = trim line in if line = [] then None else first_word line)"

definition package_names_from_cargo_tree :: "utext \<Rightarrow> utext btree_set" where
  "package_names_from_cargo_tree output = bs_of (List.map_filter tree_package (text_lines output))"

definition FORBIDDEN_IN_CHECKOUT :: "str list" where
  "FORBIDDEN_IN_CHECKOUT = [''tokio'', ''tokio-util'', ''kernox-host-tokio'', ''kernox-host-cli'']"

definition check_absent :: "utext btree_set \<Rightarrow> str \<Rightarrow> str + unit" where
  "check_absent names forbidden =
     (if bs_contains names (text_of forbidden) then
        Inl (''CLI-without-Tokio checkout-app depends on forbidden host runtime '' @ forbidden)
      else Inr ())"

definition enforce_cli_without_tokio :: "'w xtask_library \<Rightarrow> ('w xtask, str, unit) action" where
  "enforce_cli_without_tokio lib =
     bind_action (println ''verify.cli-without-tokio'') (\<lambda>_.
     bind_action (command_output lib \<lparr>iv_program = ''cargo'',
       iv_arguments = [''tree'', ''-p'', ''kernox-example-checkout-app'', ''--locked'', ''--edges'', ''normal'',
         ''--prefix'', ''none'', ''--format'', ''{p}''], iv_environment = []\<rparr>) (\<lambda>result.
     case result of
       Inl error \<Rightarrow> fail_action (''could not inspect checkout-app cargo tree: '' @ io_text error)
     | Inr output \<Rightarrow>
         if \<not> eo_success output then
           fail_action (''checkout-app cargo tree failed: '' @ utf8 (eo_stderr_text output))
         else of_result (for_each (\<lambda>forbidden _.
           check_absent (package_names_from_cargo_tree (eo_stdout_text output)) forbidden) FORBIDDEN_IN_CHECKOUT ())))"

end
