(* ===== verification/Xtask_Boundary_Properties.thy ===== *)
theory Xtask_Boundary_Properties
  imports Xtask_Boundary Xtask_Release_Properties
begin

text \<open>
  The boundaries hold exactly when nothing forbidden is reachable: the search over the resolved graph
  is complete, whatever cycles it has, and ends.
\<close>

definition child_of :: "(str, str list) btree_map \<Rightarrow> (str \<times> str) set" where
  "child_of dependencies = {(a, b). \<exists>children. bm_get dependencies a = Some children \<and> b \<in> set children}"

definition allowed :: "(str, str) btree_map \<Rightarrow> str \<Rightarrow> bool" where
  "allowed names package \<longleftrightarrow> (\<forall>name. bm_get names package = Some name \<longrightarrow> name \<notin> set FORBIDDEN_RUNTIMES)"

lemma reach_through_visited:
  assumes "(v, x) \<in> R\<^sup>*" and "v \<in> V" and closed: "\<And>a b. a \<in> V \<Longrightarrow> (a, b) \<in> R \<Longrightarrow> b \<in> V \<or> b \<in> Q"
  shows "x \<in> V \<or> x \<in> R\<^sup>* `` Q"
  using assms(1,2)
proof (induction rule: rtrancl_induct)
  case (step y z)
  then show ?case using closed [of y z] by (auto intro: rtrancl_into_rtrancl)
qed simp

lemma search_boundary_iff:
  assumes "\<And>a b. a \<in> set visited \<Longrightarrow> (a, b) \<in> child_of dependencies \<Longrightarrow> b \<in> set visited \<or> b \<in> set queue"
  shows "search_boundary names dependencies queue visited = Inr () \<longleftrightarrow>
    (\<forall>x \<in> (child_of dependencies)\<^sup>* `` set queue - set visited. allowed names x)"
  using assms
proof (induction names dependencies queue visited rule: search_boundary.induct)
  case (1 names dependencies visited)
  then show ?case by simp
next
  case (2 names dependencies package queue visited)
  let ?R = "child_of dependencies"
  show ?case
  proof (cases "bs_contains visited package")
    case True
    then have seen: "package \<in> set visited" by (simp add: bs_contains_def)
    have closed: "b \<in> set visited \<or> b \<in> set queue" if "a \<in> set visited" "(a, b) \<in> ?R" for a b
      using "2.prems" [OF that] seen by auto
    have "x \<in> set visited \<or> x \<in> ?R\<^sup>* `` set queue" if "(package, x) \<in> ?R\<^sup>*" for x
      by (rule reach_through_visited [OF that seen]) (use closed in blast)
    then have "?R\<^sup>* `` set (package # queue) - set visited = ?R\<^sup>* `` set queue - set visited" by auto
    with True "2.IH"(1) [OF True closed] show ?thesis by simp
  next
    case False
    define queue' where "queue' = (case bm_get dependencies package of None \<Rightarrow> queue | Some children \<Rightarrow> queue @ children)"
    have queue': "set queue' = set queue \<union> ?R `` {package}"
      by (auto simp: queue'_def child_of_def split: option.splits)
    have closed: "b \<in> set (bs_insert package visited) \<or> b \<in> set queue'"
      if "a \<in> set (bs_insert package visited)" "(a, b) \<in> ?R" for a b
      using "2.prems" [of a b] that by (auto simp: queue')
    have "?R\<^sup>* `` {package} = insert package (?R\<^sup>* `` (?R `` {package}))"
      by (auto elim: converse_rtranclE intro: converse_rtrancl_into_rtrancl)
    then have "?R\<^sup>* `` set (package # queue) - set visited =
        insert package (?R\<^sup>* `` set queue' - set (bs_insert package visited))"
      using False by (auto simp: queue' bs_contains_def)
    moreover have "search_boundary names dependencies queue' (bs_insert package visited) = Inr () \<longleftrightarrow>
        (\<forall>x \<in> ?R\<^sup>* `` set queue' - set (bs_insert package visited). allowed names x)"
      if "allowed names package"
    proof (cases "bm_get names package")
      case None
      show ?thesis by (rule "2.IH"(2) [OF False refl queue'_def None closed])
    next
      case (Some name)
      with that have "name \<notin> set FORBIDDEN_RUNTIMES" by (simp add: allowed_def)
      then show ?thesis by (intro "2.IH"(3) [OF False refl queue'_def Some _ closed])
    qed
    moreover have "search_boundary names dependencies (package # queue) visited =
        (if allowed names package then search_boundary names dependencies queue' (bs_insert package visited)
         else Inl (''kernox-core transitively depends on forbidden runtime '' @ the (bm_get names package)))"
      using False by (auto simp: queue'_def allowed_def Let_def simp del: set_simps split: option.splits)
    ultimately show ?thesis by simp
  qed
qed

lemma find_least:
  assumes "bm_wf m"
  shows "map_option fst (find (\<lambda>(k, v). v = n) m) = Some k \<longleftrightarrow>
    bm_get m k = Some n \<and> (\<forall>k'. bm_get m k' = Some n \<longrightarrow> k \<le> k')"
  using assms
proof (induction m)
  case (Cons p m)
  then have wf: "bm_wf m" and less: "\<forall>k \<in> set (bm_keys m). fst p < k" by (simp_all add: bm_wf_Cons)
  have later: "fst p < k'" if "bm_get m k' = Some v" for k' v
    using that less bm_get_None_iff [of m k'] by auto
  show ?case
  proof (cases "snd p = n")
    case True
    then show ?thesis using later by (auto simp: case_prod_unfold dest: less_imp_le) (metis leD option.inject)
  next
    case False
    have "bm_get (p # m) k' = Some n \<longleftrightarrow> bm_get m k' = Some n" for k' using False later [of k'] by auto
    moreover have "find (\<lambda>(k, v). v = n) (p # m) = find (\<lambda>(k, v). v = n) m"
      using False by (simp add: case_prod_unfold)
    ultimately show ?thesis using Cons.IH [OF wf] by presburger
  qed
qed simp

section \<open>The commands\<close>

text \<open>C30: the core boundary holds exactly when the resolved graph of \<open>cargo metadata\<close> has a package
  \<open>kernox-core\<close>, and no package named \<open>tokio\<close> or \<open>tokio-util\<close> is reachable from it (from the one with
  the least package id, should there be several), along any path and through any cycle. The search
  always ends.\<close>

theorem core_boundary_iff:
  "fst (enforce_core_dependency_boundary lib st) = Inr () \<longleftrightarrow>
    (\<exists>metadata st1 packages nodes core. cargo_metadata lib st = (Inr metadata, st1) \<and>
       json_index metadata ''packages'' = JArray packages \<and>
       json_index (json_index metadata ''resolve'') ''nodes'' = JArray nodes \<and>
       (let names = collect_map (List.map_filter package_name_entry packages);
            dependencies = collect_map (List.map_filter node_entry nodes)
        in bm_get names core = Some ''kernox-core'' \<and>
           (\<forall>other. bm_get names other = Some ''kernox-core'' \<longrightarrow> core \<le> other) \<and>
           (\<forall>package. (core, package) \<in> (child_of dependencies)\<^sup>* \<longrightarrow>
              bm_get names package \<notin> {Some ''tokio'', Some ''tokio-util''})))"
proof -
  have allowed: "allowed names x \<longleftrightarrow> bm_get names x \<notin> {Some ''tokio'', Some ''tokio-util''}" for names x
    by (auto simp: allowed_def FORBIDDEN_RUNTIMES_def)
  have search: "search_boundary names dependencies [core] [] = Inr () \<longleftrightarrow>
      (\<forall>x. (core, x) \<in> (child_of dependencies)\<^sup>* \<longrightarrow> bm_get names x \<notin> {Some ''tokio'', Some ''tokio-util''})"
    for names dependencies core
    by (subst search_boundary_iff) (auto simp: allowed)
  obtain r st1 where meta: "cargo_metadata lib st = (r, st1)" by fastforce
  show ?thesis
  proof (cases r)
    case (Inl e)
    with meta show ?thesis by (simp add: enforce_core_dependency_boundary_def bind_action_def)
  next
    case (Inr metadata)
    with meta show ?thesis
      by (simp add: enforce_core_dependency_boundary_def bind_action_def Let_def result_simps as_array_iff
          search find_least [OF collect_map_wf] del: search_boundary.simps map_option_eq_Some) blast
  qed
qed

text \<open>A graph with a cycle through \<open>kernox-core\<close> and a Tokio package that depends on it.\<close>

definition sample_named :: "json list" where
  "sample_named = [JObject [(''id'', JString ''c''), (''name'', JString ''kernox-core'')],
     JObject [(''id'', JString ''t''), (''name'', JString ''tokio'')]]"

definition sample_nodes :: "json list" where
  "sample_nodes = map (\<lambda>(i, d). JObject [(''id'', JString i), (''dependencies'', JArray [JString d])])
     [(''t'', ''c''), (''c'', ''d''), (''d'', ''c'')]"

definition sample_resolved :: json where
  "sample_resolved = JObject [(''packages'', JArray sample_named), (''resolve'', JObject [(''nodes'', JArray sample_nodes)])]"

definition metadata_library :: "json \<Rightarrow> unit xtask_library" where
  "metadata_library metadata = \<lparr>xl_command = (\<lambda>_ w. (Inr \<lparr>eo_success = True, eo_status = [],
       eo_stdout = [], eo_stdout_text = [], eo_stderr_text = []\<rparr>, w)),
     xl_parse_json = (\<lambda>_. Inr metadata), xl_is_file = (\<lambda>_ _. True), xl_exists = (\<lambda>_ _. True),
     xl_debug_names = (\<lambda>_. []), xl_debug_text = (\<lambda>_. [])\<rparr>"

definition fresh_xtask :: "unit xtask" where
  "fresh_xtask = \<lparr>xt_world = (), xt_printed = [], xt_commands = []\<rparr>"

lemma core_boundary_iff_witness:
  "(''c'', ''t'') \<notin> (child_of (collect_map (List.map_filter node_entry sample_nodes)))\<^sup>*"
proof -
  have passes: "fst (enforce_core_dependency_boundary (metadata_library sample_resolved) fresh_xtask) = Inr ()"
    by code_simp
  have meta: "fst (cargo_metadata (metadata_library sample_resolved) fresh_xtask) = Inr sample_resolved"
    by (simp add: cargo_metadata_def metadata_library_def bind_action_def command_output_def map_err_def)
  have fields: "json_index sample_resolved ''packages'' = JArray sample_named"
    "json_index (json_index sample_resolved ''resolve'') ''nodes'' = JArray sample_nodes" by code_simp+
  have names: "collect_map (List.map_filter package_name_entry sample_named) = [(''c'', ''kernox-core''), (''t'', ''tokio'')]"
    by code_simp
  from passes obtain metadata st1 packages nodes core
    where "cargo_metadata (metadata_library sample_resolved) fresh_xtask = (Inr metadata, st1)"
      and "json_index metadata ''packages'' = JArray packages"
      and "json_index (json_index metadata ''resolve'') ''nodes'' = JArray nodes"
      and core: "bm_get (collect_map (List.map_filter package_name_entry packages)) core = Some ''kernox-core''"
      and reach: "\<forall>package. (core, package) \<in> (child_of (collect_map (List.map_filter node_entry nodes)))\<^sup>* \<longrightarrow>
        bm_get (collect_map (List.map_filter package_name_entry packages)) package \<notin> {Some ''tokio'', Some ''tokio-util''}"
    unfolding core_boundary_iff Let_def by blast
  with meta fields have same: "packages = sample_named" "nodes = sample_nodes" by simp_all
  note core = core [unfolded same names] and reach = reach [unfolded same names]
  from core have "core = ''c''" by (auto split: if_splits)
  with reach show ?thesis by auto
qed

text \<open>The host crate check passes exactly when no workspace member has the forbidden name.\<close>

lemma no_cli_host_crate_iff:
  "fst (enforce_no_cli_host_crate lib st) = Inr () \<longleftrightarrow>
    (\<exists>metadata st1 packages members. cargo_metadata lib (st\<lparr>xt_printed := xt_printed st @ [''verify.no-cli-host-crate'']\<rparr>) =
         (Inr metadata, st1) \<and>
       json_index metadata ''packages'' = JArray packages \<and> json_index metadata ''workspace_members'' = JArray members \<and>
       (\<forall>package \<in> set packages. \<forall>id. json_text package ''id'' = Some id \<and> JString id \<in> set members \<longrightarrow>
          json_text package ''name'' \<noteq> Some ''kernox-host-cli''))"
proof -
  have ids: "i \<in> set (member_ids members) \<longleftrightarrow> JString i \<in> set members" for members i
  proof -
    have "as_str v = Some i \<longleftrightarrow> v = JString i" for v by (cases v) auto
    then show ?thesis by (force simp: member_ids_def map_filter_def)
  qed
  have check: "check_member (member_ids members) package = Inr () \<longleftrightarrow>
      (\<forall>id. json_text package ''id'' = Some id \<and> JString id \<in> set members \<longrightarrow>
         json_text package ''name'' \<noteq> Some ''kernox-host-cli'')" for members package
    by (auto simp: json_text_def bs_contains_def ids split: option.splits)
  obtain r st1 where meta: "cargo_metadata lib (st\<lparr>xt_printed := xt_printed st @ [''verify.no-cli-host-crate'']\<rparr>) = (r, st1)"
    by fastforce
  show ?thesis
  proof (cases r)
    case (Inl e)
    with meta show ?thesis by (simp add: enforce_no_cli_host_crate_def bind_action_def println_def)
  next
    case (Inr metadata)
    with meta show ?thesis
      by (simp add: enforce_no_cli_host_crate_def bind_action_def println_def result_simps as_array_iff
          for_each_check_ok check del: check_member.simps)
  qed
qed

end
