(* ===== verification/Xtask_Secret_Scan.thy ===== *)
theory Xtask_Secret_Scan
  imports Xtask_Process Text_Numbers
begin

text \<open>
  The secret scan of \<open>xtask/src/main.rs\<close>: no suppression file in the worktree or its history, a scanner
  whose checksum and version are the pinned ones, an external configuration that is removed again,
  and the scan itself. Git, \<open>curl\<close>, \<open>tar\<close>, \<open>sha256sum\<close> and the scanner are programs of the library.
\<close>

definition GITLEAKS_VERSION :: str where "GITLEAKS_VERSION = ''8.30.1''"

definition GITLEAKS_LINUX_X64_ARCHIVE_SHA256 :: str where
  "GITLEAKS_LINUX_X64_ARCHIVE_SHA256 = ''551f6fc83ea457d62a0d98237cbad105af8d557003051f41f3e7ca7b3f2470eb''"

definition GITLEAKS_LINUX_X64_BINARY_SHA256 :: str where
  "GITLEAKS_LINUX_X64_BINARY_SHA256 = ''88f91962aa2f93ac6ab281d553b9e125f5197bbbce38f9f2437f7299c32e5509''"

definition GITLEAKS_SUPPRESSION_PATHS :: "str list" where
  "GITLEAKS_SUPPRESSION_PATHS = [''.gitleaks.toml'', ''.gitleaksignore'']"

definition line_feed :: str where "line_feed = [CHR 0x0A]"

definition GITLEAKS_EXTERNAL_CONFIG :: str where
  "GITLEAKS_EXTERNAL_CONFIG = ''# Pinned by xtask: default rules, no allowlists.'' @ line_feed @ ''[extend]'' @ line_feed @
     ''useDefault = true'' @ line_feed"

record 'w scan_library = "'w xtask_library" +
  sl_search_path :: "str list option"            \<comment> \<open>the directories of \<open>PATH\<close>\<close>
  sl_temp_dir :: str
  sl_process_id :: nat
  sl_since_epoch :: "'w \<Rightarrow> nat option"             \<comment> \<open>nanoseconds, unless the clock is before the epoch\<close>
  sl_create_dir_all :: "str \<Rightarrow> 'w \<Rightarrow> (str + unit) \<times> 'w"
  sl_write :: "str \<Rightarrow> str \<Rightarrow> 'w \<Rightarrow> (str + unit) \<times> 'w"
  sl_remove_dir_all :: "str \<Rightarrow> 'w \<Rightarrow> (str + unit) \<times> 'w"
  sl_os :: str
  sl_arch :: str

definition run_of :: "str \<Rightarrow> str list \<Rightarrow> program_run" where
  "run_of program arguments = \<lparr>iv_program = program, iv_arguments = arguments, iv_environment = []\<rparr>"

definition on_world :: "('w \<Rightarrow> (str + unit) \<times> 'w) \<Rightarrow> (str \<Rightarrow> str) \<Rightarrow> ('w xtask, str, unit) action" where
  \<comment> \<open>a file operation whose error is described\<close>
  "on_world operation describe s =
     (let (result, w) = operation (xt_world s) in (map_err describe result, s\<lparr>xt_world := w\<rparr>))"

section \<open>Suppression files\<close>

definition git_history :: "str \<Rightarrow> program_run" where
  "git_history path = run_of ''git'' [''log'', ''--all'', ''--format=%H'', ''--'', path]"

definition commit_count :: "exit_output \<Rightarrow> nat" where
  "commit_count output = length (filter (\<lambda>line. trim line \<noteq> []) (text_lines (eo_stdout_text output)))"

definition check_suppression_path :: "'w scan_library \<Rightarrow> str \<Rightarrow> ('w xtask, str, unit) action" where
  "check_suppression_path lib path s =
     (if xl_exists lib (xt_world s) path then
        fail_action (''repository-controlled secret-scan suppression file '' @ path @ '' exists in the worktree; remove it and fix findings instead (the pinned scanner only honours its external config)'') s
      else
        bind_action (command_output (xtask_library.truncate lib) (git_history path)) (\<lambda>result.
        case result of
          Inl error \<Rightarrow> fail_action (''could not inspect Git history for '' @ path @ '': '' @ io_text error)
        | Inr output \<Rightarrow>
            if \<not> eo_success output then
              fail_action (''Git history inspection for '' @ path @ '' exited with '' @ eo_status output)
            else if 0 < commit_count output then
              fail_action (''repository-controlled secret-scan suppression file '' @ path @ '' exists in Git history ('' @ decimal (commit_count output) @ '' commit(s) touch it); remove it from history and fix findings instead (the pinned scanner only honours its external config)'')
            else return_action ()) s)"

definition enforce_no_repository_suppression :: "'w scan_library \<Rightarrow> ('w xtask, str, unit) action" where
  "enforce_no_repository_suppression lib =
     loop_action (\<lambda>path _. check_suppression_path lib path) GITLEAKS_SUPPRESSION_PATHS ()"

section \<open>The external boundary\<close>

record scan_boundary =
  sb_root :: str
  sb_config :: str
  sb_ignores :: str

definition create_boundary :: "'w scan_library \<Rightarrow> ('w xtask, str, scan_boundary) action" where
  \<comment> \<open>\<open>SecretScanBoundary::create\<close>\<close>
  "create_boundary lib s =
     (let nonce = (case sl_since_epoch lib (xt_world s) of Some elapsed \<Rightarrow> elapsed | None \<Rightarrow> 0);
          root = path_join (sl_temp_dir lib)
            (''kernox-secret-scan-'' @ decimal (sl_process_id lib) @ ''-'' @ decimal nonce);
          config = path_join root ''config.toml'';
          ignores = path_join root ''ignores''
      in bind_action (on_world (sl_create_dir_all lib ignores) (\<lambda>error. ''could not create '' @ ignores @ '': '' @ error)) (\<lambda>_.
         bind_action (on_world (sl_write lib config GITLEAKS_EXTERNAL_CONFIG)
           (\<lambda>error. ''could not write '' @ config @ '': '' @ error)) (\<lambda>_.
         return_action \<lparr>sb_root = root, sb_config = config, sb_ignores = ignores\<rparr>)) s)"

definition drop_boundary :: "'w scan_library \<Rightarrow> scan_boundary \<Rightarrow> 'w xtask \<Rightarrow> 'w xtask" where
  "drop_boundary lib boundary s = s\<lparr>xt_world := snd (sl_remove_dir_all lib (sb_root boundary) (xt_world s))\<rparr>"

section \<open>The pinned scanner\<close>

definition resolve_on_path :: "'w scan_library \<Rightarrow> str \<Rightarrow> 'w xtask \<Rightarrow> str option" where
  "resolve_on_path lib name s =
     (case sl_search_path lib of
        None \<Rightarrow> None
      | Some directories \<Rightarrow> find (xl_is_file lib (xt_world s)) (map (\<lambda>directory. path_join directory name) directories))"

definition checksum_of :: "str \<Rightarrow> program_run" where
  "checksum_of path = run_of ''sha256sum'' [path]"

definition version_of :: "str \<Rightarrow> program_run" where
  "version_of program = run_of program [''version'']"

definition file_sha256 :: "'w scan_library \<Rightarrow> str \<Rightarrow> ('w xtask, str, utext option) action" where
  "file_sha256 lib path s =
     (if \<not> xl_is_file lib (xt_world s) path then return_action None s
      else
        bind_action (command_output (xtask_library.truncate lib) (checksum_of path)) (\<lambda>result.
        case result of
          Inl error \<Rightarrow> fail_action (''could not checksum '' @ path @ '': '' @ io_text error)
        | Inr output \<Rightarrow>
            if \<not> eo_success output then return_action None
            else return_action (first_word (eo_stdout_text output))) s)"

definition gitleaks_version :: "'w scan_library \<Rightarrow> str \<Rightarrow> ('w xtask, str, utext option) action" where
  "gitleaks_version lib program =
     bind_action (command_output (xtask_library.truncate lib) (version_of program)) (\<lambda>result.
     case result of
       Inl (IoNotFound _) \<Rightarrow> return_action None
     | Inl error \<Rightarrow> fail_action (''could not inspect '' @ program @ '': '' @ io_text error)
     | Inr output \<Rightarrow>
         if \<not> eo_success output then return_action None
         else return_action (Some (trim (eo_stdout_text output))))"

definition is_pinned_gitleaks :: "'w scan_library \<Rightarrow> str \<Rightarrow> ('w xtask, str, bool) action" where
  "is_pinned_gitleaks lib program =
     bind_action (file_sha256 lib program) (\<lambda>digest.
     if digest \<noteq> Some (text_of GITLEAKS_LINUX_X64_BINARY_SHA256) then return_action False
     else
       bind_action (gitleaks_version lib program) (\<lambda>version.
       if version = Some (text_of GITLEAKS_VERSION) then return_action True
       else fail_action (''gitleaks at '' @ program @ '' matches the pinned release checksum but reports '' @
         xl_debug_text lib version @ '', expected '' @ GITLEAKS_VERSION)))"

definition install_pinned_gitleaks :: "'w scan_library \<Rightarrow> str \<Rightarrow> ('w xtask, str, str) action" where
  "install_pinned_gitleaks lib install_dir =
     (if (sl_os lib, sl_arch lib) \<noteq> (''linux'', ''x86_64'') then
        fail_action (''the pinned gitleaks '' @ GITLEAKS_VERSION @ '' secret-scan oracle is checksum-verified for linux x86_64 only; this host is '' @
          sl_os lib @ ''/'' @ sl_arch lib @ '' and has no checksum-matching scanner, so verification fails closed'')
      else
        let archive_name = ''gitleaks_'' @ GITLEAKS_VERSION @ ''_linux_x64.tar.gz'';
            download_url = ''https://github.com/gitleaks/gitleaks/releases/download/v'' @ GITLEAKS_VERSION @ ''/'' @ archive_name;
            archive = path_join install_dir archive_name
        in
        bind_action (on_world (sl_create_dir_all lib install_dir) (\<lambda>error. ''could not create '' @ install_dir @ '': '' @ error)) (\<lambda>_.
        bind_action (command_output (xtask_library.truncate lib) (run_of ''curl''
          [''--fail'', ''--location'', ''--silent'', ''--show-error'', ''--retry'', ''3'', ''--output'', archive, download_url])) (\<lambda>download.
        case download of
          Inl error \<Rightarrow> fail_action (''could not download pinned gitleaks: '' @ io_text error)
        | Inr download \<Rightarrow>
        if \<not> eo_success download then
          fail_action (''could not download pinned gitleaks '' @ GITLEAKS_VERSION @ '' from '' @ download_url @ '' ('' @ eo_status download @
            ''); install the pinned binary manually (sha256 '' @ GITLEAKS_LINUX_X64_BINARY_SHA256 @ '') and put it on PATH'')
        else
        bind_action (command_output (xtask_library.truncate lib) (checksum_of archive)) (\<lambda>checksum.
        case checksum of
          Inl error \<Rightarrow> fail_action (''could not checksum pinned gitleaks: '' @ io_text error)
        | Inr checksum \<Rightarrow>
        let observed = first_word (eo_stdout_text checksum) in
        if \<not> eo_success checksum \<or> observed \<noteq> Some (text_of GITLEAKS_LINUX_X64_ARCHIVE_SHA256) then
          fail_action (''pinned gitleaks checksum mismatch: expected '' @ GITLEAKS_LINUX_X64_ARCHIVE_SHA256 @ '', found '' @
            (case observed of Some digest \<Rightarrow> utf8 digest | None \<Rightarrow> ''no digest''))
        else
        bind_action (command_output (xtask_library.truncate lib) (run_of ''tar'' [''-xzf'', archive, ''-C'', install_dir, ''gitleaks''])) (\<lambda>extract.
        case extract of
          Inl error \<Rightarrow> fail_action (''could not extract pinned gitleaks: '' @ io_text error)
        | Inr extract \<Rightarrow>
        if \<not> eo_success extract then
          fail_action (''could not extract pinned gitleaks archive ('' @ eo_status extract @ '')'')
        else
        let installed = path_join install_dir ''gitleaks'' in
        bind_action (is_pinned_gitleaks lib installed) (\<lambda>pinned.
        if pinned then return_action installed
        else fail_action (''provisioned gitleaks at '' @ installed @ '' does not match the pinned release binary checksum'')))))))"

fun first_pinned :: "'w scan_library \<Rightarrow> str list \<Rightarrow> ('w xtask, str, str option) action" where
  "first_pinned lib [] = return_action None"
| "first_pinned lib (candidate # candidates) =
     bind_action (is_pinned_gitleaks lib candidate) (\<lambda>pinned.
     if pinned then return_action (Some candidate) else first_pinned lib candidates)"

definition pinned_gitleaks :: "'w scan_library \<Rightarrow> ('w xtask, str, str) action" where
  "pinned_gitleaks lib s =
     (let install_dir = path_join (path_join ''target'' ''kernox-tools'') (''gitleaks-'' @ GITLEAKS_VERSION);
          candidates = (case resolve_on_path lib ''gitleaks'' s of Some on_path \<Rightarrow> [on_path] | None \<Rightarrow> []) @
            [path_join install_dir ''gitleaks'']
      in bind_action (first_pinned lib candidates) (\<lambda>found.
         case found of Some candidate \<Rightarrow> return_action candidate | None \<Rightarrow> install_pinned_gitleaks lib install_dir) s)"

section \<open>The scan\<close>

definition scan_with :: "str \<Rightarrow> scan_boundary \<Rightarrow> program_run" where
  "scan_with scanner boundary = \<lparr>iv_program = scanner,
     iv_arguments = [''git'', ''--no-banner'', ''--redact'', ''--verbose'', ''--log-opts=--all'', ''--config'', sb_config boundary,
       ''--gitleaks-ignore-path'', sb_ignores boundary, ''--ignore-gitleaks-allow'', ''.''],
     iv_environment = [(''GITLEAKS_CONFIG'', None), (''GITLEAKS_CONFIG_TOML'', None)]\<rparr>"

definition scan_history :: "'w scan_library \<Rightarrow> str \<Rightarrow> scan_boundary \<Rightarrow> ('w xtask, str, unit) action" where
  "scan_history lib scanner boundary =
     bind_action (command_output (xtask_library.truncate lib) (scan_with scanner boundary)) (\<lambda>status.
     case status of
       Inl error \<Rightarrow> fail_action (''could not run '' @ scanner @ '': '' @ io_text error)
     | Inr status \<Rightarrow>
         if \<not> eo_success status then
           fail_action (''the pinned gitleaks secret scan found committed credentials in repository history ('' @ eo_status status @
             ''); remove the secret and rotate it instead of allowlisting it'')
         else return_action ())"

definition verify_secret_scan :: "'w scan_library \<Rightarrow> ('w xtask, str, unit) action" where
  "verify_secret_scan lib =
     bind_action (println ''verify.secret-scan-suppression'') (\<lambda>_.
     bind_action (enforce_no_repository_suppression lib) (\<lambda>_.
     bind_action (println ''verify.secret-scan'') (\<lambda>_.
     bind_action (pinned_gitleaks lib) (\<lambda>scanner.
     bind_action (create_boundary lib) (\<lambda>boundary s.
       let (result, s) = scan_history lib scanner boundary s in (result, drop_boundary lib boundary s))))))"

end
