(* ===== verification/Xtask_Scan_Properties.thy ===== *)
theory Xtask_Scan_Properties
  imports Xtask_Secret_Scan
begin

text \<open>
  What a passing secret scan is evidence of, read off the record of the programs that ran: the
  histories of both suppression files were inspected and empty, and the program that scanned the
  history is the one whose checksum and version had just been verified.
\<close>

definition no_commits :: "(io_error + exit_output) \<Rightarrow> bool" where
  \<comment> \<open>Git succeeded and named no commit\<close>
  "no_commits result \<longleftrightarrow> (\<exists>output. result = Inr output \<and> eo_success output \<and>
     (\<forall>line \<in> set (text_lines (eo_stdout_text output)). trim line = []))"

definition reports_digest :: "str \<Rightarrow> (io_error + exit_output) \<Rightarrow> bool" where
  "reports_digest digest result \<longleftrightarrow> (\<exists>output. result = Inr output \<and> eo_success output \<and>
     first_word (eo_stdout_text output) = Some (text_of digest))"

definition reports_version :: "str \<Rightarrow> (io_error + exit_output) \<Rightarrow> bool" where
  "reports_version version result \<longleftrightarrow> (\<exists>output. result = Inr output \<and> eo_success output \<and>
     trim (eo_stdout_text output) = text_of version)"

definition verified_scanner :: "str \<Rightarrow> (program_run \<times> (io_error + exit_output)) list \<Rightarrow> bool" where
  \<comment> \<open>the last two programs that ran verified this one\<close>
  "verified_scanner scanner t \<longleftrightarrow> (\<exists>earlier digest version.
     t = earlier @ [(checksum_of scanner, digest), (version_of scanner, version)] \<and>
     reports_digest GITLEAKS_LINUX_X64_BINARY_SHA256 digest \<and> reports_version GITLEAKS_VERSION version)"

lemma verified_scanner_append: "verified_scanner scanner t \<Longrightarrow> verified_scanner scanner (t' @ t)"
  unfolding verified_scanner_def by (metis append.assoc)

section \<open>Programs that ran\<close>

lemma succeeded_case:
  "(case r of Inl e \<Rightarrow> fail_action (f e) | Inr a \<Rightarrow> k a) s = (Inr b, s') \<longleftrightarrow> (\<exists>a. r = Inr a \<and> k a s = (Inr b, s'))"
  by (cases r) simp_all

lemma succeeded_if:
  "(if P then fail_action e else m) s = (Inr b, s') \<longleftrightarrow> \<not> P \<and> m s = (Inr b, s')"
  "(if P then m else fail_action e) s = (Inr b, s') \<longleftrightarrow> P \<and> m s = (Inr b, s')"
  by simp_all

lemmas succeeded = bind_action_eq_Inr_iff succeeded_case succeeded_if

text \<open>Code that prints nothing and only adds to the record of programs.\<close>

definition quiet :: "('w xtask, 'e, 'a) action \<Rightarrow> bool" where
  "quiet m \<longleftrightarrow> (\<forall>s. \<exists>t. xt_commands (snd (m s)) = xt_commands s @ t \<and> xt_printed (snd (m s)) = xt_printed s)"

lemma quietE:
  assumes "quiet m" and "m s = (r, s')"
  obtains t where "xt_commands s' = xt_commands s @ t" "xt_printed s' = xt_printed s"
  using assms unfolding quiet_def by (metis snd_conv)

lemma quiet_bind: "quiet m \<Longrightarrow> (\<And>a. quiet (k a)) \<Longrightarrow> quiet (bind_action m k)"
  unfolding quiet_def
proof
  fix s assume m: "\<forall>s. \<exists>t. xt_commands (snd (m s)) = xt_commands s @ t \<and> xt_printed (snd (m s)) = xt_printed s"
    and k: "\<And>a. \<forall>s. \<exists>t. xt_commands (snd (k a s)) = xt_commands s @ t \<and> xt_printed (snd (k a s)) = xt_printed s"
  obtain r s' where r: "m s = (r, s')" by fastforce
  with m obtain t where t: "xt_commands s' = xt_commands s @ t" "xt_printed s' = xt_printed s" by (metis snd_conv)
  show "\<exists>t. xt_commands (snd (bind_action m k s)) = xt_commands s @ t \<and> xt_printed (snd (bind_action m k s)) = xt_printed s"
  proof (cases r)
    case (Inl e)
    with r t show ?thesis by (simp add: bind_action_def)
  next
    case (Inr a)
    obtain u where "xt_commands (snd (k a s')) = xt_commands s' @ u" "xt_printed (snd (k a s')) = xt_printed s'"
      using k by blast
    with r t Inr show ?thesis by (simp add: bind_action_def)
  qed
qed

lemma quiet_simple [simp]:
  "quiet (return_action a)" "quiet (fail_action e)" "quiet (command_output lib iv)"
  "quiet (on_world operation describe)" "quiet (of_result r)" "quiet (Pair r)"
  by (simp_all add: quiet_def command_output_def on_world_def Let_def split: prod.split)

lemma quiet_case [simp]:
  "(\<And>e. quiet (f e)) \<Longrightarrow> (\<And>a. quiet (k a)) \<Longrightarrow> quiet (case r of Inl e \<Rightarrow> f e | Inr a \<Rightarrow> k a)"
  by (cases r) simp_all

lemma quiet_if [simp]: "quiet m \<Longrightarrow> quiet n \<Longrightarrow> quiet (if P then m else n)"
  "quiet m \<Longrightarrow> quiet n \<Longrightarrow> quiet (\<lambda>s. if Q s then m s else n s)"
  by (simp_all add: quiet_def)

lemma command_output_ran: "command_output lib iv s = (r, s') \<Longrightarrow> xt_commands s' = xt_commands s @ [(iv, projr r)]"
  and on_world_ran: "on_world operation describe s = (r', s') \<Longrightarrow> xt_commands s' = xt_commands s"
  by (auto simp: command_output_def on_world_def Let_def split: prod.splits)

lemma file_sha256_quiet: "quiet (file_sha256 lib path)"
  unfolding file_sha256_def [abs_def] by (intro quiet_if quiet_bind quiet_case quiet_simple)

lemma gitleaks_version_quiet: "quiet (gitleaks_version lib program)"
  unfolding gitleaks_version_def by (rule quiet_bind) (simp_all split: sum.split io_error.split)

lemma is_pinned_quiet: "quiet (is_pinned_gitleaks lib program)"
  unfolding is_pinned_gitleaks_def
  by (intro quiet_if quiet_bind quiet_simple file_sha256_quiet gitleaks_version_quiet)

lemma pinned_quiet: "quiet (pinned_gitleaks lib)"
proof -
  have first: "quiet (first_pinned lib candidates)" for candidates
    by (induction candidates) (simp_all add: quiet_bind is_pinned_quiet)
  have install: "quiet (install_pinned_gitleaks lib install_dir)" for install_dir
    unfolding install_pinned_gitleaks_def Let_def
    by (intro quiet_if quiet_bind quiet_case quiet_simple is_pinned_quiet)
  have "quiet (bind_action (first_pinned lib candidates) (\<lambda>found.
      case found of Some candidate \<Rightarrow> return_action candidate | None \<Rightarrow> install_pinned_gitleaks lib install_dir))"
    for candidates install_dir
    by (rule quiet_bind [OF first]) (simp add: install split: option.split)
  then show ?thesis unfolding quiet_def pinned_gitleaks_def [abs_def] Let_def by simp
qed

section \<open>Verified scanners\<close>

lemma file_sha256_some:
  assumes "file_sha256 lib path s = (Inr (Some digest), s')"
  shows "\<exists>output. xt_commands s' = xt_commands s @ [(checksum_of path, Inr output)] \<and> eo_success output \<and>
    first_word (eo_stdout_text output) = Some digest"
  using assms by (auto simp: file_sha256_def command_output_def bind_action_def Let_def
      split: if_splits prod.splits sum.splits)

lemma gitleaks_version_some:
  assumes "gitleaks_version lib program s = (Inr (Some version), s')"
  shows "\<exists>output. xt_commands s' = xt_commands s @ [(version_of program, Inr output)] \<and> eo_success output \<and>
    trim (eo_stdout_text output) = version"
  using assms by (auto simp: gitleaks_version_def command_output_def bind_action_def Let_def
      split: if_splits prod.splits sum.splits io_error.splits)

lemma is_pinned_verified:
  assumes "is_pinned_gitleaks lib program s = (Inr True, s')"
  shows "\<exists>t. xt_commands s' = xt_commands s @ t \<and> verified_scanner program t"
proof -
  from assms obtain s1 where digest: "file_sha256 lib program s = (Inr (Some (text_of GITLEAKS_LINUX_X64_BINARY_SHA256)), s1)"
    and version: "gitleaks_version lib program s1 = (Inr (Some (text_of GITLEAKS_VERSION)), s')"
    by (auto simp: is_pinned_gitleaks_def bind_action_eq_Inr_iff split: if_splits)
  from file_sha256_some [OF digest] gitleaks_version_some [OF version] show ?thesis
    by (auto simp: verified_scanner_def reports_digest_def reports_version_def)
qed

lemma first_pinned_verified:
  assumes "first_pinned lib candidates s = (Inr found, s')"
  shows "\<exists>t. xt_commands s' = xt_commands s @ t \<and> (\<forall>scanner. found = Some scanner \<longrightarrow> verified_scanner scanner t)"
  using assms
proof (induction candidates arbitrary: s)
  case (Cons c cs)
  then obtain pinned s1 where step: "is_pinned_gitleaks lib c s = (Inr pinned, s1)"
    and rest: "(if pinned then return_action (Some c) else first_pinned lib cs) s1 = (Inr found, s')"
    by (auto simp: bind_action_eq_Inr_iff)
  show ?case
  proof (cases pinned)
    case True
    with is_pinned_verified step rest show ?thesis by fastforce
  next
    case False
    from is_pinned_quiet step obtain t where t: "xt_commands s1 = xt_commands s @ t" by (rule quietE)
    from Cons.IH rest False obtain u where "xt_commands s' = xt_commands s1 @ u"
      "\<forall>scanner. found = Some scanner \<longrightarrow> verified_scanner scanner u" by auto
    with t show ?thesis by (auto intro: verified_scanner_append)
  qed
qed simp

lemma install_verified:
  assumes "install_pinned_gitleaks lib install_dir s = (Inr scanner, s')"
  shows "\<exists>t. xt_commands s' = xt_commands s @ t \<and> verified_scanner scanner t"
proof -
  let ?run = "command_output (xtask_library.truncate lib) :: _ \<Rightarrow> _ \<Rightarrow> (str + _) \<times> _"
  from assms obtain op describe s1 i1 r1 s2 i2 r2 s3 i3 r3 s4
    where "on_world op describe s = (Inr (), s1)" "?run i1 s1 = (Inr r1, s2)" "?run i2 s2 = (Inr r2, s3)"
      "?run i3 s3 = (Inr r3, s4)"
      and pinned: "is_pinned_gitleaks lib (path_join install_dir ''gitleaks'') s4 = (Inr True, s')"
      and scanner: "scanner = path_join install_dir ''gitleaks''"
    unfolding install_pinned_gitleaks_def Let_def succeeded by auto
  then have "\<exists>t. xt_commands s4 = xt_commands s @ t" by (auto dest!: command_output_ran on_world_ran)
  with is_pinned_verified [OF pinned] scanner show ?thesis by (auto intro: verified_scanner_append)
qed

lemma pinned_verified:
  assumes "pinned_gitleaks lib s = (Inr scanner, s')"
  shows "\<exists>t. xt_commands s' = xt_commands s @ t \<and> verified_scanner scanner t"
proof -
  from assms obtain candidates found s1 install_dir where found: "first_pinned lib candidates s = (Inr found, s1)"
    and rest: "(case found of Some candidate \<Rightarrow> return_action candidate
      | None \<Rightarrow> install_pinned_gitleaks lib install_dir) s1 = (Inr scanner, s')"
    by (auto simp: pinned_gitleaks_def bind_action_eq_Inr_iff Let_def)
  from first_pinned_verified [OF found] obtain t where t: "xt_commands s1 = xt_commands s @ t"
    "\<forall>scanner. found = Some scanner \<longrightarrow> verified_scanner scanner t" by blast
  show ?thesis
  proof (cases found)
    case None
    with rest install_verified obtain u where "xt_commands s' = xt_commands s1 @ u" "verified_scanner scanner u"
      by fastforce
    with t(1) show ?thesis by (auto intro: verified_scanner_append)
  qed (use rest t in auto)
qed

section \<open>The scan\<close>

definition after_history :: "'w scan_library \<Rightarrow> str \<Rightarrow> 'w \<Rightarrow> 'w" where
  \<comment> \<open>the world once the history of this file has been inspected\<close>
  "after_history lib path w = snd (xl_command (xtask_library.truncate lib) (git_history path) w)"

lemma suppression_checked:
  assumes "check_suppression_path lib path s = (Inr (), s')"
  shows "\<exists>history. xt_commands s' = xt_commands s @ [(git_history path, history)] \<and> no_commits history"
    and "\<not> xl_exists lib (xt_world s) path"
    and "xt_world s' = after_history lib path (xt_world s)"
proof -
  from assms show absent: "\<not> xl_exists lib (xt_world s) path"
    by (auto simp: check_suppression_path_def)
  with assms obtain found where run: "command_output (xtask_library.truncate lib) (git_history path) s = (Inr (Inr found) :: str + _, s')"
    and "eo_success found" "commit_count found = 0"
    unfolding check_suppression_path_def by (auto simp: succeeded)
  then have "no_commits (Inr found)" by (auto simp: no_commits_def commit_count_def filter_empty_conv)
  with command_output_ran [OF run]
  show "\<exists>history. xt_commands s' = xt_commands s @ [(git_history path, history)] \<and> no_commits history" by auto
  from run show "xt_world s' = after_history lib path (xt_world s)"
    by (auto simp: command_output_def after_history_def split: prod.splits)
qed

lemma no_suppression:
  assumes "enforce_no_repository_suppression lib s = (Inr (), s')"
  shows "\<exists>toml ignore. xt_commands s' = xt_commands s @
      [(git_history ''.gitleaks.toml'', toml), (git_history ''.gitleaksignore'', ignore)] \<and> no_commits toml \<and> no_commits ignore"
    and "\<not> xl_exists lib (xt_world s) ''.gitleaks.toml''"
    and "\<not> xl_exists lib (after_history lib ''.gitleaks.toml'' (xt_world s)) ''.gitleaksignore''"
proof -
  from assms obtain s1 where first: "check_suppression_path lib ''.gitleaks.toml'' s = (Inr (), s1)"
    and second: "check_suppression_path lib ''.gitleaksignore'' s1 = (Inr (), s')"
    by (auto simp: enforce_no_repository_suppression_def GITLEAKS_SUPPRESSION_PATHS_def bind_action_eq_Inr_iff)
  from suppression_checked(1) [OF first] suppression_checked(1) [OF second]
  show "\<exists>toml ignore. xt_commands s' = xt_commands s @
      [(git_history ''.gitleaks.toml'', toml), (git_history ''.gitleaksignore'', ignore)] \<and> no_commits toml \<and> no_commits ignore"
    by auto
  show "\<not> xl_exists lib (xt_world s) ''.gitleaks.toml''" by (rule suppression_checked(2) [OF first])
  show "\<not> xl_exists lib (after_history lib ''.gitleaks.toml'' (xt_world s)) ''.gitleaksignore''"
    using suppression_checked(2) [OF second] suppression_checked(3) [OF first] by simp
qed

text \<open>C31: a passing secret scan is evidence: neither suppression file was in the worktree when it was looked
  for, \<open>.gitleaks.toml\<close> at the start and \<open>.gitleaksignore\<close> once the history of the first had been inspected,
  and neither has a commit in the history; the history was scanned, with the external configuration and without the environment's,
  by a program whose SHA-256 and version had just been read and were the pinned ones, and that scan
  was the last program to run and succeeded; the external configuration has been removed.\<close>

theorem secret_scan_trusted:
  assumes "verify_secret_scan lib s = (Inr (), s')"
  shows "\<exists>toml ignore earlier scanner boundary status. xt_commands s' = xt_commands s @
      [(git_history ''.gitleaks.toml'', toml), (git_history ''.gitleaksignore'', ignore)] @ earlier @
      [(scan_with scanner boundary, Inr status)] \<and>
    no_commits toml \<and> no_commits ignore \<and> \<not> xl_exists lib (xt_world s) ''.gitleaks.toml'' \<and>
    \<not> xl_exists lib (after_history lib ''.gitleaks.toml'' (xt_world s)) ''.gitleaksignore'' \<and>
    verified_scanner scanner earlier \<and> eo_success status \<and>
    (\<exists>w. xt_world s' = snd (sl_remove_dir_all lib (sb_root boundary) w))"
proof -
  from assms obtain s1 s2 s3 scanner boundary
    where suppression: "enforce_no_repository_suppression lib (s\<lparr>xt_printed := xt_printed s @ [''verify.secret-scan-suppression'']\<rparr>) = (Inr (), s1)"
    and pinned: "pinned_gitleaks lib (s1\<lparr>xt_printed := xt_printed s1 @ [''verify.secret-scan'']\<rparr>) = (Inr scanner, s2)"
    and boundary: "create_boundary lib s2 = (Inr boundary, s3)"
    and rest: "(case scan_history lib scanner boundary s3 of (result, s) \<Rightarrow> (result, drop_boundary lib boundary s)) = (Inr (), s')"
    by (auto simp: verify_secret_scan_def println_def bind_action_eq_Inr_iff Let_def)
  from rest obtain s4 where scan: "scan_history lib scanner boundary s3 = (Inr (), s4)" and s': "s' = drop_boundary lib boundary s4"
    by (auto split: prod.splits)
  from no_suppression [OF suppression] obtain toml ignore where h: "xt_commands s1 = xt_commands s @
      [(git_history ''.gitleaks.toml'', toml), (git_history ''.gitleaksignore'', ignore)]" "no_commits toml" "no_commits ignore"
      "\<not> xl_exists lib (xt_world s) ''.gitleaks.toml''"
      "\<not> xl_exists lib (after_history lib ''.gitleaks.toml'' (xt_world s)) ''.gitleaksignore''" by auto
  from pinned_verified [OF pinned] obtain earlier where t: "xt_commands s2 = xt_commands s1 @ earlier"
    "verified_scanner scanner earlier" by auto
  from boundary have "xt_commands s3 = xt_commands s2"
    by (auto simp: create_boundary_def Let_def bind_action_eq_Inr_iff dest!: on_world_ran)
  moreover from scan obtain status where run: "command_output (xtask_library.truncate lib) (scan_with scanner boundary) s3 =
      (Inr (Inr status) :: str + _, s4)" and ok: "eo_success status"
    unfolding scan_history_def by (auto simp: succeeded)
  ultimately have "xt_commands s4 = xt_commands s @ [(git_history ''.gitleaks.toml'', toml), (git_history ''.gitleaksignore'', ignore)] @
      earlier @ [(scan_with scanner boundary, Inr status)]"
    using command_output_ran [OF run] h(1) t(1) by simp
  moreover have "xt_commands s' = xt_commands s4" "xt_world s' = snd (sl_remove_dir_all lib (sb_root boundary) (xt_world s4))"
    by (simp_all add: s' drop_boundary_def)
  ultimately show ?thesis using h t ok by auto
qed

text \<open>A scan that passes with the first candidate.\<close>

definition says :: "utext \<Rightarrow> exit_output" where
  "says text = \<lparr>eo_success = True, eo_status = ''exit status: 0'', eo_stdout = [], eo_stdout_text = text, eo_stderr_text = []\<rparr>"

definition sample_scan :: "nat scan_library" where
  "sample_scan = \<lparr>xl_command = (\<lambda>iv w. (Inr (if iv_program iv = ''sha256sum'' then
         says (text_of (GITLEAKS_LINUX_X64_BINARY_SHA256 @ ''  bin/gitleaks'' @ line_feed))
       else if iv_arguments iv = [''version''] then says (text_of (GITLEAKS_VERSION @ line_feed)) else says []), Suc w)),
     xl_parse_json = (\<lambda>_. Inl []), xl_is_file = (\<lambda>_ path. path = ''bin/gitleaks''), xl_exists = (\<lambda>_ _. False),
     xl_debug_names = (\<lambda>_. []), xl_debug_text = (\<lambda>_. []), sl_search_path = Some [''usr'', ''bin''],
     sl_temp_dir = ''/tmp'', sl_process_id = 7, sl_since_epoch = Some, sl_create_dir_all = (\<lambda>_ w. (Inr (), w)),
     sl_write = (\<lambda>_ _ w. (Inr (), w)), sl_remove_dir_all = (\<lambda>_ w. (Inr (), 0)), sl_os = ''linux'', sl_arch = ''x86_64''\<rparr>"

lemma sample_scan_passes: "fst (verify_secret_scan (sample_scan\<lparr>xl_parse_json := parse\<rparr>) s) = Inr ()"
proof -
  have "first_word (text_of (GITLEAKS_LINUX_X64_BINARY_SHA256 @ ''  bin/gitleaks'' @ line_feed)) =
      Some (text_of GITLEAKS_LINUX_X64_BINARY_SHA256)"
    by (simp add: first_word_def text_of_def GITLEAKS_LINUX_X64_BINARY_SHA256_def is_whitespace_def line_feed_def)
  moreover have "trim (text_of (GITLEAKS_VERSION @ line_feed)) = text_of GITLEAKS_VERSION"
    by (simp add: trim_def text_of_def GITLEAKS_VERSION_def is_whitespace_def line_feed_def)
  ultimately show ?thesis
    by (simp add: verify_secret_scan_def bind_action_def enforce_no_repository_suppression_def
        GITLEAKS_SUPPRESSION_PATHS_def check_suppression_path_def command_output_def println_def pinned_gitleaks_def
        resolve_on_path_def is_pinned_gitleaks_def file_sha256_def gitleaks_version_def create_boundary_def on_world_def
        scan_history_def sample_scan_def says_def git_history_def checksum_of_def version_of_def scan_with_def
        run_of_def commit_count_def xtask_library.defs path_join_def Let_def map_err_def)
qed

lemma secret_scan_trusted_witness:
  "\<exists>scanner boundary status earlier. xt_commands (snd (verify_secret_scan sample_scan \<lparr>xt_world = 0, xt_printed = [], xt_commands = []\<rparr>)) =
     earlier @ [(scan_with scanner boundary, Inr status)] \<and> eo_success status"
proof -
  have "fst (verify_secret_scan sample_scan \<lparr>xt_world = 0, xt_printed = [], xt_commands = []\<rparr>) = Inr ()"
    using sample_scan_passes [of "xl_parse_json sample_scan"] by simp
  then have "verify_secret_scan sample_scan \<lparr>xt_world = 0, xt_printed = [], xt_commands = []\<rparr> =
      (Inr (), snd (verify_secret_scan sample_scan \<lparr>xt_world = 0, xt_printed = [], xt_commands = []\<rparr>))"
    by (metis prod.collapse)
  from secret_scan_trusted [OF this] obtain toml ignore earlier scanner boundary status where
    "xt_commands (snd (verify_secret_scan sample_scan \<lparr>xt_world = 0, xt_printed = [], xt_commands = []\<rparr>)) =
       ([(git_history ''.gitleaks.toml'', toml), (git_history ''.gitleaksignore'', ignore)] @ earlier) @
       [(scan_with scanner boundary, Inr status)]" and "eo_success status" by auto
  then show ?thesis by blast
qed

end
