(* ===== verification/Xtask_Workflow.thy ===== *)
theory Xtask_Workflow
  imports Json_Value
begin

text \<open>
  The workflow runner boundary of \<open>xtask/src/main.rs\<close>: every job of every workflow runs on an approved
  runner. A YAML document is the value type of \<open>serde_yaml\<close>, whose accessors look through tags; parsing,
  the directory, the files and \<open>Debug\<close> texts are the fields of \<open>workflow_library\<close>. A directory entry is
  an error or a file name. All paths have the same parent, so they are ordered as their texts are.
\<close>

datatype yaml = YNull | YBool bool | YNumber str | YString str | YSequence "yaml list"
  | YMapping "(yaml \<times> yaml) list" | YTagged str yaml

fun untag :: "yaml \<Rightarrow> yaml" where
  "untag (YTagged tag v) = untag v"
| "untag v = v"

definition yaml_str :: "yaml \<Rightarrow> str option" where
  "yaml_str v = (case untag v of YString s \<Rightarrow> Some s | _ \<Rightarrow> None)"

definition yaml_mapping :: "yaml \<Rightarrow> (yaml \<times> yaml) list option" where
  "yaml_mapping v = (case untag v of YMapping entries \<Rightarrow> Some entries | _ \<Rightarrow> None)"

definition yaml_get :: "yaml \<Rightarrow> str \<Rightarrow> yaml option" where
  "yaml_get v field = (case yaml_mapping v of None \<Rightarrow> None | Some entries \<Rightarrow> map_of entries (YString field))"

record workflow_library =
  wl_read_dir :: "str + (str + str) list"
  wl_read_to_string :: "str \<Rightarrow> str + str"
  wl_parse_yaml :: "str \<Rightarrow> str + yaml"
  wl_debug_str :: "str \<Rightarrow> str"
  wl_debug_yaml :: "yaml \<Rightarrow> str"

definition APPROVED_RUNNERS :: "str list" where
  "APPROVED_RUNNERS = [''sylphx-linux-standard'', ''sylphx-linux-xlarge'']"

definition WORKFLOW_DIR :: str where "WORKFLOW_DIR = ''.github/workflows''"

section \<open>Runner profiles\<close>

fun push_label :: "yaml \<Rightarrow> str list \<Rightarrow> str + str list" where
  "push_label label formatted =
     (case yaml_str label of
        None \<Rightarrow> Inl ''runs-on sequence contains a non-string label''
      | Some label \<Rightarrow> Inr (formatted @ [label]))"

definition comma_joined :: "str list \<Rightarrow> str" where
  \<comment> \<open>\<open>join(", ")\<close>\<close>
  "comma_joined labels = concat (take 1 labels) @ concat (map (\<lambda>label. '', '' @ label) (drop 1 labels))"

definition format_runs_on :: "workflow_library \<Rightarrow> yaml \<Rightarrow> str + str" where
  "format_runs_on lib v =
     (case v of
        YString label \<Rightarrow> Inr label
      | YSequence labels \<Rightarrow>
          and_then (for_each push_label labels []) (\<lambda>formatted. Inr (''['' @ comma_joined formatted @ '']''))
      | _ \<Rightarrow> Inl (''unsupported runs-on value '' @ wl_debug_yaml lib v))"

definition push_profile :: "workflow_library \<Rightarrow> yaml \<times> yaml \<Rightarrow> (str \<times> str) list \<Rightarrow> str + (str \<times> str) list" where
  "push_profile lib = (\<lambda>(name, job) profiles.
     let name = (case yaml_str name of Some s \<Rightarrow> s | None \<Rightarrow> [])
     in case yaml_mapping job of
          None \<Rightarrow> Inl (''job '' @ name @ '' is not a mapping'')
        | Some job \<Rightarrow>
            (case map_of job (YString ''runs-on'') of
               None \<Rightarrow> Inl (''job '' @ name @ '' declares no runner profile'')
             | Some runs_on \<Rightarrow> and_then (format_runs_on lib runs_on) (\<lambda>profile. Inr (profiles @ [(name, profile)]))))"

definition runner_profiles_from_workflow :: "workflow_library \<Rightarrow> str \<Rightarrow> str + (str \<times> str) list" where
  "runner_profiles_from_workflow lib source =
     and_then (map_err (\<lambda>error. ''invalid workflow YAML: '' @ error) (wl_parse_yaml lib source)) (\<lambda>parsed.
     and_then (ok_or ''workflow declares no jobs mapping''
       (case yaml_get parsed ''jobs'' of None \<Rightarrow> None | Some v \<Rightarrow> yaml_mapping v)) (\<lambda>jobs.
     and_then (for_each (push_profile lib) jobs []) (\<lambda>profiles.
     Inr (sort_key fst profiles))))"

section \<open>The boundary\<close>

definition path_extension :: "str \<Rightarrow> str option" where
  \<comment> \<open>what follows the last dot, where something precedes it\<close>
  "path_extension name =
     (let after = rev (takeWhile (\<lambda>c. c \<noteq> CHR ''.'') (rev name))
      in if CHR ''.'' \<notin> set name \<or> name = ''..'' \<or> length name = Suc (length after) then None else Some after)"

definition push_workflow :: "str + str \<Rightarrow> str list \<Rightarrow> str + str list" where
  "push_workflow entry workflow_paths =
     and_then (map_err (\<lambda>error. ''could not inspect workflow entry: '' @ error) entry) (\<lambda>name.
     if path_extension name \<in> {Some ''yml'', Some ''yaml''} then Inr (workflow_paths @ [path_join WORKFLOW_DIR name])
     else Inr workflow_paths)"

definition check_profile :: "workflow_library \<Rightarrow> str \<Rightarrow> str \<times> str \<Rightarrow> str + unit" where
  "check_profile lib path = (\<lambda>(job, profile).
     if profile \<notin> set APPROVED_RUNNERS then
       Inl (path @ '' job '' @ job @ '' declares unsupported runs-on '' @ wl_debug_str lib profile @
         ''; use one static approved Sylphx runner profile'')
     else Inr ())"

definition check_workflow :: "workflow_library \<Rightarrow> str \<Rightarrow> str + unit" where
  "check_workflow lib path =
     and_then (map_err (\<lambda>error. ''could not read '' @ path @ '': '' @ error) (wl_read_to_string lib path)) (\<lambda>source.
     and_then (map_err (\<lambda>error. path @ '': '' @ error) (runner_profiles_from_workflow lib source)) (\<lambda>profiles.
     if profiles = [] then Inl (path @ '' declares no runner profile'')
     else for_each (\<lambda>entry _. check_profile lib path entry) profiles ()))"

definition enforce_workflow_runner_boundary :: "workflow_library \<Rightarrow> str + unit" where
  "enforce_workflow_runner_boundary lib =
     and_then (map_err (\<lambda>error. ''could not read '' @ WORKFLOW_DIR @ '': '' @ error) (wl_read_dir lib)) (\<lambda>entries.
     and_then (for_each push_workflow entries []) (\<lambda>workflow_paths.
     let workflow_paths = sort workflow_paths
     in if workflow_paths = [] then Inl (''no workflow files found under '' @ WORKFLOW_DIR)
        else for_each (\<lambda>path _. check_workflow lib path) workflow_paths ()))"

section \<open>What it enforces\<close>

definition approved_job :: "yaml \<Rightarrow> bool" where
  \<comment> \<open>a mapping whose \<open>runs-on\<close> is the plain name of an approved runner\<close>
  "approved_job job \<longleftrightarrow> (\<exists>fields label. yaml_mapping job = Some fields \<and>
     map_of fields (YString ''runs-on'') = Some (YString label) \<and> label \<in> {''sylphx-linux-standard'', ''sylphx-linux-xlarge''})"

definition approved_workflow :: "workflow_library \<Rightarrow> str \<Rightarrow> bool" where
  "approved_workflow lib path \<longleftrightarrow> (\<exists>source parsed v jobs. wl_read_to_string lib path = Inr source \<and>
     wl_parse_yaml lib source = Inr parsed \<and> yaml_get parsed ''jobs'' = Some v \<and> yaml_mapping v = Some jobs \<and>
     jobs \<noteq> [] \<and> (\<forall>(name, job) \<in> set jobs. approved_job job))"

lemma format_runs_on_approved:
  "(\<exists>label \<in> set APPROVED_RUNNERS. format_runs_on lib v = Inr label) \<longleftrightarrow> v \<in> YString ` set APPROVED_RUNNERS"
proof -
  have "hd label \<noteq> CHR ''[''" "label \<noteq> []" if "label \<in> set APPROVED_RUNNERS" for label
    using that by (auto simp: APPROVED_RUNNERS_def)
  then show ?thesis by (cases v) (force simp: format_runs_on_def result_simps)+
qed

lemma profiles_approved:
  "(\<exists>ps. for_each (push_profile lib) jobs acc = Inr ps \<and> snd ` set ps \<subseteq> set APPROVED_RUNNERS) \<longleftrightarrow>
     snd ` set acc \<subseteq> set APPROVED_RUNNERS \<and> (\<forall>(name, job) \<in> set jobs. approved_job job)"
  (is "?accepted jobs acc \<longleftrightarrow> _")
proof (induction jobs arbitrary: acc)
  case (Cons j jobs)
  obtain name job where j: "j = (name, job)" by fastforce
  show ?case
  proof (cases "push_profile lib j acc")
    case (Inl e)
    then have "\<not> approved_job job"
      by (auto simp: j push_profile_def approved_job_def format_runs_on_def Let_def result_simps split: option.splits)
    with Inl show ?thesis by (auto simp: j)
  next
    case (Inr acc')
    then obtain fields v label n where parts: "yaml_mapping job = Some fields" "map_of fields (YString ''runs-on'') = Some v"
      "format_runs_on lib v = Inr label" "acc' = acc @ [(n, label)]"
      by (auto simp: j push_profile_def Let_def result_simps split: option.splits)
    have "approved_job job \<longleftrightarrow> label \<in> set APPROVED_RUNNERS"
      using parts format_runs_on_approved [of lib v]
      by (auto simp: approved_job_def APPROVED_RUNNERS_def format_runs_on_def)
    with Inr parts(4) Cons.IH [of acc'] show ?thesis by (auto simp: j)
  qed
qed auto

lemma profiles_length:
  assumes "for_each (push_profile lib) jobs acc = Inr ps"
  shows "length ps = length jobs + length acc"
  using assms
proof (induction jobs arbitrary: acc)
  case (Cons j jobs)
  then obtain acc' where "push_profile lib j acc = Inr acc'" "for_each (push_profile lib) jobs acc' = Inr ps"
    by (auto simp: result_simps)
  moreover from this(1) have "length acc' = Suc (length acc)"
    by (auto simp: push_profile_def Let_def result_simps split: option.splits prod.splits)
  ultimately show ?case using Cons.IH [of acc'] by simp
qed simp

lemma runner_profiles_ok:
  "runner_profiles_from_workflow lib source = Inr ps' \<longleftrightarrow> (\<exists>parsed v jobs ps. wl_parse_yaml lib source = Inr parsed \<and>
     yaml_get parsed ''jobs'' = Some v \<and> yaml_mapping v = Some jobs \<and>
     for_each (push_profile lib) jobs [] = Inr ps \<and> ps' = sort_key fst ps)"
  by (auto simp: runner_profiles_from_workflow_def result_simps split: option.splits)

lemma check_workflow_ok: "check_workflow lib path = Inr () \<longleftrightarrow> approved_workflow lib path"
proof -
  have check: "check_profile lib path e = Inr () \<longleftrightarrow> snd e \<in> set APPROVED_RUNNERS" for e
    by (cases e) (simp add: check_profile_def)
  have "for_each (\<lambda>entry _. check_profile lib path entry) ps () = Inr () \<longleftrightarrow> snd ` set ps \<subseteq> set APPROVED_RUNNERS" for ps
    unfolding for_each_check_ok check by auto
  then have "check_workflow lib path = Inr () \<longleftrightarrow> (\<exists>source. wl_read_to_string lib path = Inr source \<and>
      (\<exists>ps. runner_profiles_from_workflow lib source = Inr ps \<and> ps \<noteq> [] \<and> snd ` set ps \<subseteq> set APPROVED_RUNNERS))"
    by (auto simp: check_workflow_def result_simps split: if_splits)
  also have "\<dots> \<longleftrightarrow> (\<exists>source parsed v jobs. wl_read_to_string lib path = Inr source \<and>
      wl_parse_yaml lib source = Inr parsed \<and> yaml_get parsed ''jobs'' = Some v \<and> yaml_mapping v = Some jobs \<and>
      (\<exists>ps. for_each (push_profile lib) jobs [] = Inr ps \<and> ps \<noteq> [] \<and> snd ` set ps \<subseteq> set APPROVED_RUNNERS))"
  proof -
    have empty: "sort_key fst ps \<noteq> [] \<longleftrightarrow> ps \<noteq> []" for ps :: "(str \<times> str) list"
      by (metis length_0_conv length_sort)
    have profiles: "(\<exists>ps. runner_profiles_from_workflow lib source = Inr ps \<and> Q ps) \<longleftrightarrow>
        (\<exists>parsed v jobs ps. wl_parse_yaml lib source = Inr parsed \<and> yaml_get parsed ''jobs'' = Some v \<and>
           yaml_mapping v = Some jobs \<and> for_each (push_profile lib) jobs [] = Inr ps \<and> Q (sort_key fst ps))" for source Q
      unfolding runner_profiles_ok by (rule iffI) (elim exE conjE, simp, blast)+
    show ?thesis
      unfolding profiles empty set_sort by blast
  qed
  finally have check_iff: "check_workflow lib path = Inr () \<longleftrightarrow> (\<exists>source parsed v jobs. wl_read_to_string lib path = Inr source \<and>
      wl_parse_yaml lib source = Inr parsed \<and> yaml_get parsed ''jobs'' = Some v \<and> yaml_mapping v = Some jobs \<and>
      (\<exists>ps. for_each (push_profile lib) jobs [] = Inr ps \<and> ps \<noteq> [] \<and> snd ` set ps \<subseteq> set APPROVED_RUNNERS))" .
  have jobs_iff: "(\<exists>ps. for_each (push_profile lib) jobs [] = Inr ps \<and> ps \<noteq> [] \<and> snd ` set ps \<subseteq> set APPROVED_RUNNERS) \<longleftrightarrow>
      jobs \<noteq> [] \<and> (\<forall>(name, job) \<in> set jobs. approved_job job)" for jobs
  proof -
    have "ps = [] \<longleftrightarrow> jobs = []" if "for_each (push_profile lib) jobs [] = Inr ps" for ps
      using profiles_length [OF that] by auto
    then have "(\<exists>ps. for_each (push_profile lib) jobs [] = Inr ps \<and> ps \<noteq> [] \<and> snd ` set ps \<subseteq> set APPROVED_RUNNERS) \<longleftrightarrow>
        jobs \<noteq> [] \<and> (\<exists>ps. for_each (push_profile lib) jobs [] = Inr ps \<and> snd ` set ps \<subseteq> set APPROVED_RUNNERS)" by blast
    then show ?thesis unfolding profiles_approved by simp
  qed
  show ?thesis unfolding check_iff jobs_iff approved_workflow_def ..
qed

lemma push_workflows_ok:
  "for_each push_workflow entries acc = Inr paths \<longleftrightarrow> (\<exists>names. entries = map Inr names \<and>
     paths = acc @ map (path_join WORKFLOW_DIR) (filter (\<lambda>n. path_extension n \<in> {Some ''yml'', Some ''yaml''}) names))"
proof (induction entries arbitrary: acc)
  case (Cons e entries)
  show ?case
  proof (cases e)
    case (Inr n)
    then have "(\<exists>names. e # entries = map Inr names \<and> P names) \<longleftrightarrow> (\<exists>names. entries = map Inr names \<and> P (n # names))" for P
      by (auto simp: Cons_eq_map_conv)
    with Inr Cons.IH show ?thesis by (auto simp: push_workflow_def map_err_def)
  qed (auto simp: push_workflow_def map_err_def)
qed auto

text \<open>C32: the workflow boundary passes exactly when the workflow directory can be listed, it has at least
  one YAML file, and every YAML file parses to a non-empty mapping of jobs, each of which names one of
  the two approved runners as a plain string; a sequence of labels never passes, nor does a tagged
  label.\<close>

theorem workflow_boundary_iff:
  "enforce_workflow_runner_boundary lib = Inr () \<longleftrightarrow>
    (\<exists>names. wl_read_dir lib = Inr (map Inr names) \<and>
       (\<exists>n \<in> set names. path_extension n \<in> {Some ''yml'', Some ''yaml''}) \<and>
       (\<forall>n \<in> set names. path_extension n \<in> {Some ''yml'', Some ''yaml''} \<longrightarrow>
          approved_workflow lib (path_join WORKFLOW_DIR n)))"
proof -
  have "enforce_workflow_runner_boundary lib = Inr () \<longleftrightarrow>
      (\<exists>names. wl_read_dir lib = Inr (map Inr names) \<and>
         (let fs = filter (\<lambda>n. path_extension n \<in> {Some ''yml'', Some ''yaml''}) names
          in sort (map (path_join WORKFLOW_DIR) fs) \<noteq> [] \<and>
             (\<forall>p \<in> set (sort (map (path_join WORKFLOW_DIR) fs)). approved_workflow lib p)))"
    by (auto simp: enforce_workflow_runner_boundary_def result_simps push_workflows_ok Let_def for_each_check_ok
        check_workflow_ok simp del: set_sort split: if_splits)
  also have "\<dots> \<longleftrightarrow> (\<exists>names. wl_read_dir lib = Inr (map Inr names) \<and>
       (\<exists>n \<in> set names. path_extension n \<in> {Some ''yml'', Some ''yaml''}) \<and>
       (\<forall>n \<in> set names. path_extension n \<in> {Some ''yml'', Some ''yaml''} \<longrightarrow>
          approved_workflow lib (path_join WORKFLOW_DIR n)))"
  proof -
    have "sort (map (path_join WORKFLOW_DIR) fs) = [] \<longleftrightarrow> fs = []" for fs
      by (metis length_0_conv length_map length_sort)
    then show ?thesis by (simp add: Let_def filter_empty_conv) blast
  qed
  finally show ?thesis .
qed

definition sample_workflows :: workflow_library where
  "sample_workflows = \<lparr>wl_read_dir = Inr [Inr ''ci.yml'', Inr ''README.md''],
     wl_read_to_string = (\<lambda>path. if path = ''.github/workflows/ci.yml'' then Inr ''text'' else Inl ''missing''),
     wl_parse_yaml = (\<lambda>_. Inr (YMapping [(YString ''jobs'', YMapping [(YString ''verify'',
       YMapping [(YString ''runs-on'', YString ''sylphx-linux-xlarge'')])])])),
     wl_debug_str = id, wl_debug_yaml = (\<lambda>_. [])\<rparr>"

lemma workflow_boundary_iff_witness: "enforce_workflow_runner_boundary sample_workflows = Inr ()"
proof -
  have path: "path_join WORKFLOW_DIR ''ci.yml'' = ''.github/workflows/ci.yml''" by code_simp
  have ext: "path_extension ''ci.yml'' = Some ''yml''" "path_extension ''README.md'' = Some ''md''" by code_simp+
  have "approved_workflow sample_workflows ''.github/workflows/ci.yml''"
    by (simp add: approved_workflow_def sample_workflows_def yaml_get_def yaml_mapping_def approved_job_def)
  then show ?thesis
    unfolding workflow_boundary_iff
    by (intro exI [of _ "[''ci.yml'', ''README.md'']"]) (simp add: path ext, simp add: sample_workflows_def)
qed

end
