(* ===== verification/Xtask.thy ===== *)
theory Xtask
  imports Xtask_Boundary Xtask_Workflow Xtask_Secret_Scan Bench_Gate
begin

text \<open>
  The commands of \<open>xtask/src/main.rs\<close> put together: \<open>verify\<close> runs every check in a fixed order and stops
  at the first failure, and \<open>main\<close> selects a command and turns its result into an exit code.
\<close>

record 'w xtask_environment =
  xe_scan :: "'w scan_library"
  xe_workflows :: "'w \<Rightarrow> workflow_library"
  xe_bench :: "'w \<Rightarrow> bench_library"
  xe_record :: "'w record_library"

abbreviation xe_programs :: "'w xtask_environment \<Rightarrow> 'w xtask_library" where
  "xe_programs env \<equiv> xtask_library.truncate (xe_scan env)"

section \<open>The verification\<close>

definition run_cargo :: "'w xtask_environment \<Rightarrow> str \<Rightarrow> str list \<Rightarrow> ('w xtask, str, unit) action" where
  "run_cargo env label arguments = run_program (xe_programs env) label ''cargo'' arguments []"

definition check_workflows :: "'w xtask_environment \<Rightarrow> ('w xtask, str, unit) action" where
  "check_workflows env s = of_result (enforce_workflow_runner_boundary (xe_workflows env (xt_world s))) s"

definition example_arguments :: "str \<Rightarrow> str \<Rightarrow> str list" where
  "example_arguments package bin = [''run'', ''--locked'', ''-p'', package, ''--bin'', bin]"

definition consumer_arguments :: "str list \<Rightarrow> str list \<Rightarrow> str list" where
  "consumer_arguments flags rest =
     [''run''] @ flags @ [''--locked'', ''--manifest-path'', ''fixtures/clean-consumer/Cargo.toml''] @ rest"

definition verify_host_examples :: "'w xtask_environment \<Rightarrow> ('w xtask, str, unit) action" where
  "verify_host_examples env =
     bind_action (run_cargo env ''long-lived-example'' (example_arguments ''kernox-example-order-app'' ''long_lived'')) (\<lambda>_.
     bind_action (run_cargo env ''serverless-example'' (example_arguments ''kernox-example-order-app'' ''serverless'')) (\<lambda>_.
     bind_action (run_cargo env ''checkout-example'' (example_arguments ''kernox-example-checkout-app'' ''checkout'')) (\<lambda>_.
     bind_action (enforce_cli_without_tokio (xe_programs env)) (\<lambda>_.
     run_cargo env ''worker-example'' (example_arguments ''kernox-example-worker-app'' ''worker'')))))"

definition verify_clean_consumer_fanout :: "'w xtask_environment \<Rightarrow> ('w xtask, str, unit) action" where
  "verify_clean_consumer_fanout env =
     run_cargo env ''clean-consumer-fanout'' (consumer_arguments [] [''--'', ''--fanout''])"

definition verify :: "'w xtask_environment \<Rightarrow> ('w xtask, str, unit) action" where
  "verify env =
     bind_action (println ''verify.workflow-runner-authority'') (\<lambda>_.
     bind_action (check_workflows env) (\<lambda>_.
     bind_action (run_cargo env ''format'' [''fmt'', ''--all'', ''--'', ''--check'']) (\<lambda>_.
     bind_action (run_cargo env ''check'' [''check'', ''--locked'', ''--workspace'', ''--all-targets'', ''--all-features'']) (\<lambda>_.
     bind_action (run_cargo env ''clippy'' [''clippy'', ''--locked'', ''--workspace'', ''--all-targets'', ''--all-features'',
       ''--'', ''-D'', ''warnings'']) (\<lambda>_.
     bind_action (run_cargo env ''tests'' [''test'', ''--locked'', ''--workspace'', ''--all-features'']) (\<lambda>_.
     bind_action (run_program (xe_programs env) ''docs'' ''cargo'' [''doc'', ''--locked'', ''--workspace'', ''--all-features'', ''--no-deps'']
       [(''RUSTDOCFLAGS'', ''-D warnings'')]) (\<lambda>_.
     bind_action (run_cargo env ''minimal-core'' [''check'', ''--locked'', ''-p'', ''kernox-core'', ''--no-default-features'']) (\<lambda>_.
     bind_action (enforce_core_dependency_boundary (xe_programs env)) (\<lambda>_.
     bind_action (enforce_no_cli_host_crate (xe_programs env)) (\<lambda>_.
     bind_action (verify_host_examples env) (\<lambda>_.
     bind_action (run_cargo env ''clean-consumer'' (consumer_arguments [] [])) (\<lambda>_.
     bind_action (run_cargo env ''clean-consumer-workload'' (consumer_arguments [''--release''] [''--'', ''--workload''])) (\<lambda>_.
     bind_action (run_cargo env ''clean-consumer-serverless'' (consumer_arguments [] [''--'', ''--serverless''])) (\<lambda>_.
     bind_action (verify_clean_consumer_fanout env) (\<lambda>_.
     bind_action (run_cargo env ''dependency-policy'' [''deny'', ''check'']) (\<lambda>_.
     bind_action (run_cargo env ''advisories'' [''audit'', ''--deny'', ''warnings'']) (\<lambda>_.
     bind_action (verify_secret_scan (xe_scan env)) (\<lambda>_.
     run_cargo env ''core-package'' [''package'', ''--locked'', ''-p'', ''kernox-core'']))))))))))))))))))"

section \<open>The entry point\<close>

definition usage_lines :: "str list" where
  "usage_lines = [''usage: cargo run -p xtask -- verify'',
     ''       cargo run -p xtask -- release-check [--version VERSION]'',
     ''       cargo run -p xtask -- bench-budget [--criterion-dir DIR] [--runs COUNT] --not-before EPOCH_SECONDS'',
     ''       cargo run -p xtask -- bench-budget-record [--criterion-dir DIR] [--runs COUNT]'']"

definition bench_budget :: "'w xtask_environment \<Rightarrow> str list \<Rightarrow> ('w xtask, str fault, unit) action" where
  "bench_budget env arguments s =
     (case parse_gate_arguments arguments of
        Inl f \<Rightarrow> (Inl f, s)
      | Inr options \<Rightarrow>
          let (result, printed) = run_gate (xe_bench env (xt_world s)) options (xt_printed s)
          in (result, s\<lparr>xt_printed := printed\<rparr>))"

definition bench_budget_record :: "'w xtask_environment \<Rightarrow> str list \<Rightarrow> ('w xtask, str, unit) action" where
  "bench_budget_record env arguments s =
     (case parse_record_arguments arguments of
        Inl error \<Rightarrow> (Inl error, s)
      | Inr options \<Rightarrow>
          let (result, recorded) = run_record (xe_record env) options
                \<lparr>rg_world = xt_world s, rg_printed = xt_printed s, rg_commands = []\<rparr>
          in (result, s\<lparr>xt_world := rg_world recorded, xt_printed := rg_printed recorded\<rparr>))"

fun selected_command :: "'w xtask_environment \<Rightarrow> str list \<Rightarrow> ('w xtask, str fault, unit) action option" where
  "selected_command env [] = None"
| "selected_command env (command # arguments) =
     (if command = ''verify'' \<and> arguments = [] then Some (\<lambda>s. case verify env s of (r, s) \<Rightarrow> (fallible r, s))
      else if command = ''release-check'' then Some (release_check (xe_programs env) arguments)
      else if command = ''bench-budget'' then Some (bench_budget env arguments)
      else if command = ''bench-budget-record'' then
        Some (\<lambda>s. case bench_budget_record env arguments s of (r, s) \<Rightarrow> (fallible r, s))
      else None)"

definition xtask_main :: "'w xtask_environment \<Rightarrow> str list \<Rightarrow> 'w xtask \<Rightarrow> (nat \<times> str list) option \<times> 'w xtask" where
  \<comment> \<open>the exit code and the lines on standard error; \<open>None\<close> is a panic\<close>
  "xtask_main env arguments s =
     (case selected_command env arguments of
        None \<Rightarrow> (Some (2, usage_lines), s)
      | Some command \<Rightarrow>
          (case command s of
             (Inr _, s) \<Rightarrow> (Some (0, []), s)
           | (Inl (Err error), s) \<Rightarrow> (Some (1, [''xtask.failed: '' @ error]), s)
           | (Inl Panic, s) \<Rightarrow> (None, s)))"

end
