(* ===== verification/Xtask_Verify_Properties.thy ===== *)
theory Xtask_Verify_Properties
  imports Xtask_Scan_Properties Xtask "HOL-Library.Sublist"
begin

text \<open>
  What a verification run shows: it announces its checks in one fixed order and stops at the first that
  fails; when it passes, every program of the list below has run, in this order, and succeeded.
\<close>

definition announced :: "str list" where
  "announced = [''verify.workflow-runner-authority'', ''verify.format'', ''verify.check'', ''verify.clippy'', ''verify.tests'',
     ''verify.docs'', ''verify.minimal-core'', ''verify.no-cli-host-crate'', ''verify.long-lived-example'',
     ''verify.serverless-example'', ''verify.checkout-example'', ''verify.cli-without-tokio'', ''verify.worker-example'',
     ''verify.clean-consumer'', ''verify.clean-consumer-workload'', ''verify.clean-consumer-serverless'',
     ''verify.clean-consumer-fanout'', ''verify.dependency-policy'', ''verify.advisories'',
     ''verify.secret-scan-suppression'', ''verify.secret-scan'', ''verify.core-package'']"

definition cargo :: "str list \<Rightarrow> program_run" where
  "cargo arguments = \<lparr>iv_program = ''cargo'', iv_arguments = arguments, iv_environment = []\<rparr>"

definition required_runs :: "program_run list" where
  "required_runs =
     [cargo [''fmt'', ''--all'', ''--'', ''--check''],
      cargo [''check'', ''--locked'', ''--workspace'', ''--all-targets'', ''--all-features''],
      cargo [''clippy'', ''--locked'', ''--workspace'', ''--all-targets'', ''--all-features'', ''--'', ''-D'', ''warnings''],
      cargo [''test'', ''--locked'', ''--workspace'', ''--all-features''],
      (cargo [''doc'', ''--locked'', ''--workspace'', ''--all-features'', ''--no-deps''])
        \<lparr>iv_environment := [(''RUSTDOCFLAGS'', Some ''-D warnings'')]\<rparr>,
      cargo [''check'', ''--locked'', ''-p'', ''kernox-core'', ''--no-default-features''],
      cargo [''run'', ''--locked'', ''-p'', ''kernox-example-order-app'', ''--bin'', ''long_lived''],
      cargo [''run'', ''--locked'', ''-p'', ''kernox-example-order-app'', ''--bin'', ''serverless''],
      cargo [''run'', ''--locked'', ''-p'', ''kernox-example-checkout-app'', ''--bin'', ''checkout''],
      cargo [''run'', ''--locked'', ''-p'', ''kernox-example-worker-app'', ''--bin'', ''worker''],
      cargo [''run'', ''--locked'', ''--manifest-path'', ''fixtures/clean-consumer/Cargo.toml''],
      cargo [''run'', ''--release'', ''--locked'', ''--manifest-path'', ''fixtures/clean-consumer/Cargo.toml'', ''--'', ''--workload''],
      cargo [''run'', ''--locked'', ''--manifest-path'', ''fixtures/clean-consumer/Cargo.toml'', ''--'', ''--serverless''],
      cargo [''run'', ''--locked'', ''--manifest-path'', ''fixtures/clean-consumer/Cargo.toml'', ''--'', ''--fanout''],
      cargo [''deny'', ''check''],
      cargo [''audit'', ''--deny'', ''warnings''],
      cargo [''package'', ''--locked'', ''-p'', ''kernox-core'']]"

definition succeeded_runs :: "(program_run \<times> (io_error + exit_output)) list \<Rightarrow> program_run list" where
  "succeeded_runs t = map fst (filter (\<lambda>(iv, result). case result of Inl _ \<Rightarrow> False | Inr found \<Rightarrow> eo_success found) t)"

lemma succeeded_runs_append [simp]: "succeeded_runs (t @ u) = succeeded_runs t @ succeeded_runs u"
  by (simp add: succeeded_runs_def)

section \<open>Steps\<close>

definition performs :: "('w xtask, 'e, 'a) action \<Rightarrow> str list \<Rightarrow> program_run list \<Rightarrow> bool" where
  \<comment> \<open>the step prints these lines, a prefix of them if it fails; if it passes, these programs succeeded\<close>
  "performs m lines runs \<longleftrightarrow> (\<forall>s r s'. m s = (r, s') \<longrightarrow> (\<exists>t printed. xt_commands s' = xt_commands s @ t \<and>
     xt_printed s' = xt_printed s @ printed \<and> prefix printed lines \<and>
     (\<forall>a. r = Inr a \<longrightarrow> printed = lines \<and> subseq runs (succeeded_runs t))))"

lemma performsE:
  assumes "performs m lines runs" and "m s = (r, s')"
  obtains t printed where "xt_commands s' = xt_commands s @ t" "xt_printed s' = xt_printed s @ printed" "prefix printed lines"
    "\<forall>a. r = Inr a \<longrightarrow> printed = lines \<and> subseq runs (succeeded_runs t)"
  using assms(1) [unfolded performs_def, THEN spec, THEN spec, THEN spec, THEN mp, OF assms(2)] by (elim exE conjE)

lemma performsI:
  assumes "\<And>s r s'. m s = (r, s') \<Longrightarrow> \<exists>t printed. xt_commands s' = xt_commands s @ t \<and>
     xt_printed s' = xt_printed s @ printed \<and> prefix printed lines \<and>
     (\<forall>a. r = Inr a \<longrightarrow> printed = lines \<and> subseq runs (succeeded_runs t))"
  shows "performs m lines runs"
  using assms by (simp add: performs_def)

lemma performs_bind:
  assumes m: "performs m lines runs" and k: "\<And>a. performs (k a) lines' runs'"
  shows "performs (bind_action m k) (lines @ lines') (runs @ runs')"
proof (rule performsI)
  fix s r s' assume run: "bind_action m k s = (r, s')"
  obtain r1 s1 where first: "m s = (r1, s1)" by fastforce
  from m first obtain t p where tp: "xt_commands s1 = xt_commands s @ t" "xt_printed s1 = xt_printed s @ p" "prefix p lines"
    "\<forall>a. r1 = Inr a \<longrightarrow> p = lines \<and> subseq runs (succeeded_runs t)" by (rule performsE)
  show "\<exists>t printed. xt_commands s' = xt_commands s @ t \<and> xt_printed s' = xt_printed s @ printed \<and>
    prefix printed (lines @ lines') \<and> (\<forall>a. r = Inr a \<longrightarrow> printed = lines @ lines' \<and> subseq (runs @ runs') (succeeded_runs t))"
  proof (cases r1)
    case (Inl e)
    with run first have "s' = s1" "r = Inl e" by (simp_all add: bind_action_def)
    with tp show ?thesis by (auto intro: prefix_prefix)
  next
    case (Inr a)
    with run first have "k a s1 = (r, s')" by (simp add: bind_action_def)
    with k obtain u q where "xt_commands s' = xt_commands s1 @ u" "xt_printed s' = xt_printed s1 @ q" "prefix q lines'"
      "\<forall>b. r = Inr b \<longrightarrow> q = lines' \<and> subseq runs' (succeeded_runs u)" by (rule performsE)
    with tp Inr show ?thesis by (intro exI [of _ "t @ u"] exI [of _ "p @ q"]) (auto intro: list_emb_append_mono)
  qed
qed

lemma performs_quiet:
  assumes "quiet m"
  shows "performs m [] []"
proof (rule performsI)
  fix s r s' assume "m s = (r, s')"
  with assms obtain t where "xt_commands s' = xt_commands s @ t" "xt_printed s' = xt_printed s" by (rule quietE)
  then show "\<exists>t printed. xt_commands s' = xt_commands s @ t \<and> xt_printed s' = xt_printed s @ printed \<and> prefix printed [] \<and>
      (\<forall>a. r = Inr a \<longrightarrow> printed = [] \<and> subseq [] (succeeded_runs t))" by simp
qed

lemma performs_println: "performs (println line) [line] []"
  by (rule performsI) (auto simp: println_def)

lemma performs_run:
  "performs (run_program lib label program arguments environment) [''verify.'' @ label]
     [\<lparr>iv_program = program, iv_arguments = arguments, iv_environment = map (\<lambda>(n, v). (n, Some v)) environment\<rparr>]"
  by (rule performsI)
    (auto simp: run_program_def println_def command_output_def bind_action_def Let_def succeeded_runs_def
      split: prod.splits sum.splits if_splits)

section \<open>The checks between the programs\<close>

lemma cargo_metadata_quiet: "quiet (cargo_metadata lib)"
  unfolding cargo_metadata_def by (intro quiet_bind quiet_case quiet_if quiet_simple)

lemma workflows_performs: "performs (check_workflows env) [] []"
  by (rule performs_quiet) (simp add: quiet_def check_workflows_def)

lemma core_boundary_performs: "performs (enforce_core_dependency_boundary lib) [] []"
  unfolding enforce_core_dependency_boundary_def
  by (intro performs_quiet quiet_bind cargo_metadata_quiet quiet_simple)

lemma no_cli_performs: "performs (enforce_no_cli_host_crate lib) ([''verify.no-cli-host-crate''] @ []) ([] @ [])"
  unfolding enforce_no_cli_host_crate_def
  by (intro performs_bind performs_println performs_quiet quiet_bind cargo_metadata_quiet quiet_simple)

lemma without_tokio_performs: "performs (enforce_cli_without_tokio lib) ([''verify.cli-without-tokio''] @ []) ([] @ [])"
  unfolding enforce_cli_without_tokio_def
  by (intro performs_bind performs_println performs_quiet quiet_bind quiet_case quiet_if quiet_simple)

lemma suppression_quiet: "quiet (enforce_no_repository_suppression lib)"
proof -
  have path: "quiet (check_suppression_path lib path)" for path
    unfolding check_suppression_path_def [abs_def] by (intro quiet_if quiet_bind quiet_case quiet_simple)
  have "quiet (loop_action (\<lambda>path _. check_suppression_path lib path) paths ())" for paths
    by (induction paths) (simp_all add: quiet_bind path)
  then show ?thesis by (simp add: enforce_no_repository_suppression_def)
qed

lemma scan_quiet: "quiet (bind_action (create_boundary lib) (\<lambda>boundary s.
    let (result, s) = scan_history lib scanner boundary s in (result, drop_boundary lib boundary s)))"
proof (rule quiet_bind)
  show "quiet (create_boundary lib)"
    unfolding quiet_def create_boundary_def Let_def
    by (auto simp: on_world_def bind_action_def split: prod.splits sum.splits)
  have "quiet (scan_history lib scanner boundary)" for boundary
    unfolding scan_history_def by (intro quiet_bind quiet_case quiet_if quiet_simple)
  then show "quiet (\<lambda>s. let (result, s) = scan_history lib scanner boundary s in (result, drop_boundary lib boundary s))" for boundary
    unfolding quiet_def by (simp add: drop_boundary_def case_prod_unfold Let_def)
qed

lemma secret_scan_performs: "performs (verify_secret_scan lib)
    ([''verify.secret-scan-suppression''] @ [] @ [''verify.secret-scan''] @ []) ([] @ [] @ [] @ [])"
  unfolding verify_secret_scan_def
  by (intro performs_bind performs_println performs_quiet [OF suppression_quiet]
      performs_quiet [OF quiet_bind [OF pinned_quiet scan_quiet]])

lemmas step_performs = performs_println performs_run workflows_performs core_boundary_performs no_cli_performs
  without_tokio_performs secret_scan_performs

lemma performs_eq: "performs m lines runs \<Longrightarrow> lines = lines' \<Longrightarrow> runs = runs' \<Longrightarrow> performs m lines' runs'"
  by simp

lemma verify_performs: "performs (verify env) announced required_runs"
  unfolding verify_def run_cargo_def verify_host_examples_def verify_clean_consumer_fanout_def
  by (rule performs_eq, (rule performs_bind step_performs)+)
    (simp_all add: announced_def required_runs_def cargo_def example_arguments_def consumer_arguments_def)

section \<open>The checks in their order\<close>

definition verification_checks :: "'w xtask_environment \<Rightarrow> ('w xtask, str, unit) action list" where
  \<comment> \<open>everything a verification does, one after the other\<close>
  "verification_checks env =
     (let step = (\<lambda>label run. run_program (xe_programs env) label (iv_program run) (iv_arguments run)
            (map (\<lambda>(name, v). (name, the v)) (iv_environment run)));
          run = (\<lambda>label i. step label (required_runs ! i))
      in [println ''verify.workflow-runner-authority'', check_workflows env,
          run ''format'' 0, run ''check'' 1, run ''clippy'' 2, run ''tests'' 3, run ''docs'' 4, run ''minimal-core'' 5,
          enforce_core_dependency_boundary (xe_programs env), enforce_no_cli_host_crate (xe_programs env),
          run ''long-lived-example'' 6, run ''serverless-example'' 7, run ''checkout-example'' 8,
          enforce_cli_without_tokio (xe_programs env), run ''worker-example'' 9,
          run ''clean-consumer'' 10, run ''clean-consumer-workload'' 11, run ''clean-consumer-serverless'' 12,
          run ''clean-consumer-fanout'' 13, run ''dependency-policy'' 14, run ''advisories'' 15,
          verify_secret_scan (xe_scan env), run ''core-package'' 16])"

fun passed_in_order :: "('s, 'e, unit) action list \<Rightarrow> 's \<Rightarrow> 's \<Rightarrow> bool" where
  "passed_in_order [] s s' \<longleftrightarrow> s' = s"
| "passed_in_order (m # ms) s s' \<longleftrightarrow> (\<exists>s1. m s = (Inr (), s1) \<and> passed_in_order ms s1 s')"

fun in_order :: "('s, 'e, unit) action list \<Rightarrow> ('s, 'e, unit) action" where
  "in_order [] = return_action ()"
| "in_order [m] = m"
| "in_order (m # ms) = bind_action m (\<lambda>_. in_order ms)"

lemma in_order_passes: "ms \<noteq> [] \<Longrightarrow> in_order ms s = (Inr (), s') \<Longrightarrow> passed_in_order ms s s'"
  by (induction ms arbitrary: s rule: in_order.induct) (auto simp: bind_action_eq_Inr_iff)

lemma in_order_fails:
  "ms \<noteq> [] \<Longrightarrow> in_order ms s = (Inl e, s') \<Longrightarrow>
     \<exists>k < length ms. \<exists>s1. passed_in_order (take k ms) s s1 \<and> (ms ! k) s1 = (Inl e, s')"
proof (induction ms arbitrary: s rule: in_order.induct)
  case (3 m n ms)
  show ?case
  proof (cases "fst (m s)")
    case (Inl e')
    then have "m s = (Inl e, s')" using 3(3) by (auto simp: bind_action_def split: prod.splits)
    then show ?thesis by (intro exI [of _ 0]) simp
  next
    case (Inr u)
    then obtain s1 where first: "m s = (Inr (), s1)" by (metis old.unit.exhaust prod.collapse)
    then have "in_order (n # ms) s1 = (Inl e, s')" using 3(3) by (simp add: bind_action_Inr)
    with 3(1) obtain k s2 where "k < length (n # ms)" "passed_in_order (take k (n # ms)) s1 s2"
      "((n # ms) ! k) s2 = (Inl e, s')" by blast
    with first show ?thesis by (intro exI [of _ "Suc k"]) auto
  qed
qed auto

lemma bind_action_assoc: "bind_action (bind_action m k) f = bind_action m (\<lambda>a. bind_action (k a) f)"
  by (rule ext) (simp add: bind_action_def split: prod.split sum.split)

lemma verify_in_order: "verify env = in_order (verification_checks env)"
  unfolding verify_def run_cargo_def verify_host_examples_def verify_clean_consumer_fanout_def verification_checks_def Let_def
  by (simp add: required_runs_def cargo_def example_arguments_def consumer_arguments_def bind_action_assoc)

text \<open>C33: a verification stops at the first of its checks that fails, after all before it have passed, and
  passes only when every check has passed in this order: the workflow boundary, the Cargo runs, the
  dependency boundaries, the examples, the clean consumers, the policies, the secret scan and the
  package. It announces the checks in one fixed order, so what it printed is a prefix of the list of
  announcements; when it passes it has announced them all, the workflows it started from keep the
  runner boundary, and every required program has run, in the order of the list, and succeeded.\<close>

theorem verify_complete:
  assumes "verify env s = (r, s')"
  shows "(r = Inr () \<longrightarrow> passed_in_order (verification_checks env) s s' \<and>
      enforce_workflow_runner_boundary (xe_workflows env (xt_world s)) = Inr ()) \<and>
    (\<forall>e. r = Inl e \<longrightarrow> (\<exists>k < length (verification_checks env). \<exists>s1.
      passed_in_order (take k (verification_checks env)) s s1 \<and> (verification_checks env ! k) s1 = (Inl e, s'))) \<and>
    (\<exists>t printed. xt_commands s' = xt_commands s @ t \<and> xt_printed s' = xt_printed s @ printed \<and>
      prefix printed announced \<and> (r = Inr () \<longrightarrow> printed = announced \<and> subseq required_runs (succeeded_runs t)))"
proof (intro conjI)
  have some: "verification_checks env \<noteq> []" by (simp add: verification_checks_def Let_def)
  have run: "in_order (verification_checks env) s = (r, s')" using assms by (simp add: verify_in_order)
  have passed: "passed_in_order (verification_checks env) s s'" if "r = Inr ()"
    using in_order_passes [OF some] run that by simp
  have "enforce_workflow_runner_boundary (xe_workflows env (xt_world s)) = Inr ()" if "r = Inr ()"
    using passed [OF that] by (auto simp: verification_checks_def Let_def println_def check_workflows_def)
  with passed show "r = Inr () \<longrightarrow> passed_in_order (verification_checks env) s s' \<and>
      enforce_workflow_runner_boundary (xe_workflows env (xt_world s)) = Inr ()" by blast
  show "\<forall>e. r = Inl e \<longrightarrow> (\<exists>k < length (verification_checks env). \<exists>s1.
      passed_in_order (take k (verification_checks env)) s s1 \<and> (verification_checks env ! k) s1 = (Inl e, s'))"
    using in_order_fails [OF some] run by blast
  show "\<exists>t printed. xt_commands s' = xt_commands s @ t \<and> xt_printed s' = xt_printed s @ printed \<and>
      prefix printed announced \<and> (r = Inr () \<longrightarrow> printed = announced \<and> subseq required_runs (succeeded_runs t))"
    using verify_performs assms by (rule performsE) blast
qed

section \<open>A run that passes\<close>

definition passes :: "('w xtask, 'e, 'a) action \<Rightarrow> bool" where
  "passes m \<longleftrightarrow> (\<forall>s. \<exists>a. fst (m s) = Inr a)"

lemma passes_bind: "passes m \<Longrightarrow> (\<And>a. passes (k a)) \<Longrightarrow> passes (bind_action m k)"
  unfolding passes_def
proof
  fix s assume m: "\<forall>s. \<exists>a. fst (m s) = Inr a" and k: "\<And>a. \<forall>s. \<exists>b. fst (k a s) = Inr b"
  obtain a s' where "m s = (Inr a, s')" using m by (metis prod.collapse)
  with k show "\<exists>b. fst (bind_action m k s) = Inr b" by (simp add: bind_action_def)
qed

definition sample_workspace :: json where
  "sample_workspace = JObject [(''packages'', JArray [JObject [(''id'', JString ''c''), (''name'', JString ''kernox-core'')]]),
     (''workspace_members'', JArray [JString ''c'']),
     (''resolve'', JObject [(''nodes'', JArray [JObject [(''id'', JString ''c''), (''dependencies'', JArray [JString ''c''])]])])]"

definition sample_verification :: "bench_library \<Rightarrow> nat record_library \<Rightarrow> nat xtask_environment" where
  "sample_verification bench record = \<lparr>xe_scan = sample_scan\<lparr>xl_parse_json := (\<lambda>_. Inr sample_workspace)\<rparr>,
     xe_workflows = (\<lambda>_. sample_workflows), xe_bench = (\<lambda>_. bench), xe_record = record\<rparr>"

lemma sample_command: "xl_command (xe_programs (sample_verification b r)) \<lparr>iv_program = ''cargo'', iv_arguments = args,
    iv_environment = e\<rparr> w = (Inr (if args = [''version''] then says (text_of (GITLEAKS_VERSION @ line_feed)) else says []), Suc w)"
  by (simp add: sample_verification_def sample_scan_def xtask_library.defs)

lemma sample_run_passes: "passes (run_program (xe_programs (sample_verification b r)) label ''cargo'' args e)"
  by (simp add: passes_def run_program_def println_def command_output_def bind_action_def Let_def sample_command says_def)

lemma sample_metadata_passes: "cargo_metadata (xe_programs (sample_verification b r)) s = (Inr sample_workspace, s') \<longleftrightarrow>
    s' = snd (cargo_metadata (xe_programs (sample_verification b r)) s)"
  by (auto simp: cargo_metadata_def command_output_def bind_action_def Let_def sample_command says_def map_err_def)
    (simp add: sample_verification_def xtask_library.defs)

lemma passes_println: "passes (println line)"
  by (simp add: passes_def println_def)

lemma sample_metadata_check_passes:
  assumes "check sample_workspace = Inr a"
  shows "passes (bind_action (cargo_metadata (xe_programs (sample_verification b r))) (\<lambda>metadata. of_result (check metadata)))"
proof -
  have "\<exists>s'. cargo_metadata (xe_programs (sample_verification b r)) s = (Inr sample_workspace, s')" for s
    using sample_metadata_passes by blast
  then show ?thesis unfolding passes_def using assms by (metis (no_types, lifting) bind_action_Inr fst_conv of_result_simps)
qed

lemma sample_checks_pass:
  "passes (check_workflows (sample_verification b r))"
  "passes (enforce_core_dependency_boundary (xe_programs (sample_verification b r)))"
  "passes (enforce_no_cli_host_crate (xe_programs (sample_verification b r)))"
  "passes (enforce_cli_without_tokio (xe_programs (sample_verification b r)))"
  "passes (verify_secret_scan (xe_scan (sample_verification b r)))"
proof -
  have "enforce_workflow_runner_boundary sample_workflows = Inr ()" by code_simp
  then show "passes (check_workflows (sample_verification b r))"
    by (simp add: passes_def check_workflows_def sample_verification_def)
  show "passes (enforce_core_dependency_boundary (xe_programs (sample_verification b r)))"
    unfolding enforce_core_dependency_boundary_def by (rule sample_metadata_check_passes) code_simp
  show "passes (enforce_no_cli_host_crate (xe_programs (sample_verification b r)))"
    unfolding enforce_no_cli_host_crate_def by (rule passes_bind [OF passes_println], rule sample_metadata_check_passes) code_simp
  have "package_names_from_cargo_tree [] = []" by code_simp
  then show "passes (enforce_cli_without_tokio (xe_programs (sample_verification b r)))"
    by (simp add: passes_def enforce_cli_without_tokio_def println_def command_output_def bind_action_def Let_def
        sample_command says_def check_absent_def bs_contains_def FORBIDDEN_IN_CHECKOUT_def)
  show "passes (verify_secret_scan (xe_scan (sample_verification b r)))"
    by (simp add: passes_def sample_verification_def sample_scan_passes)
qed

lemma sample_verification_passes: "passes (verify (sample_verification b r))"
  unfolding verify_def run_cargo_def verify_host_examples_def verify_clean_consumer_fanout_def
  by (intro passes_bind passes_println sample_run_passes sample_checks_pass)

lemma verify_complete_witness:
  "\<exists>s'. verify (sample_verification undefined undefined) \<lparr>xt_world = 0, xt_printed = [], xt_commands = []\<rparr> = (Inr (), s') \<and>
     passed_in_order (verification_checks (sample_verification undefined undefined)) \<lparr>xt_world = 0, xt_printed = [], xt_commands = []\<rparr> s' \<and>
     xt_printed s' = announced \<and> subseq required_runs (succeeded_runs (xt_commands s'))"
proof -
  obtain s' where run: "verify (sample_verification undefined undefined) \<lparr>xt_world = 0, xt_printed = [], xt_commands = []\<rparr> = (Inr (), s')"
    using sample_verification_passes unfolding passes_def by (metis (full_types) prod.collapse unit.exhaust)
  with verify_complete [OF run] show ?thesis by auto
qed

end
