(* ===== verification/Quiet_Run.thy ===== *)
theory Quiet_Run
  imports Shutdown_Properties
begin

text \<open>
  Running a concrete application by rewriting: what each step of the lifecycle does to the state of an
  application without an observation sink, up to the ghost trace, and that the graph of a composition
  depends on \<open>VersionReq::matches\<close> only through the versions that occur in it.
\<close>

section \<open>The graph and the version oracle\<close>

definition same_matches ::
  "('q \<Rightarrow> 'v \<Rightarrow> bool) \<Rightarrow> ('q \<Rightarrow> 'v \<Rightarrow> bool) \<Rightarrow> ('v, 'q) plugin_descriptor list \<Rightarrow> bool" where
  "same_matches m m' ds \<longleftrightarrow> (\<forall>d \<in> set ds. \<forall>r \<in> set (requires d). \<forall>d' \<in> set ds.
     offers_match m r d' = offers_match m' r d')"

lemma same_matches_cong:
  assumes "same_matches m m' ds" and "d \<in> set ds" and "r \<in> set (requires d)"
  shows "compatible_ids m ds r = compatible_ids m' ds r" and "chosen m ds bs d r = chosen m' ds bs d r"
    and "satisfiable m ds bs d r = satisfiable m' ds bs d r"
proof -
  have "filter (offers_match m r) ds = filter (offers_match m' r) ds"
    using assms unfolding same_matches_def by (intro filter_cong) auto
  then show c: "compatible_ids m ds r = compatible_ids m' ds r" by (simp add: compatible_ids_def)
  show "chosen m ds bs d r = chosen m' ds bs d r" "satisfiable m ds bs d r = satisfiable m' ds bs d r"
    by (simp_all add: chosen_def satisfiable_def c split: option.split)
qed

lemma resolve_same_matches:
  assumes wf: "\<forall>d \<in> set (spec_plugins spec). descriptor_wf d" and same: "same_matches m m' (spec_plugins spec)"
  shows "resolve m spec = Inr g \<longleftrightarrow> resolve m' spec = Inr g"
proof -
  let ?ds = "spec_plugins spec" and ?bs = "spec_bindings spec"
  note cong = same_matches_cong [OF same]
  have edges: "dependency_edges m ?ds ?bs = dependency_edges m' ?ds ?bs"
    unfolding dependency_edges_def by (intro arg_cong [where f = bs_of] arg_cong [where f = concat] map_cong refl) (simp add: cong)
  have reqs: "expected_requirements m ?ds ?bs = expected_requirements m' ?ds ?bs"
    unfolding expected_requirements_def using cong(2) by (intro Collect_cong) metis
  have diags: "expected_diagnostics m ?ds ?bs = expected_diagnostics m' ?ds ?bs"
    unfolding expected_diagnostics_def using cong(2) by (intro arg_cong2 [where f = "(\<union>)"] Collect_cong) metis+
  have "(\<forall>d \<in> set ?ds. \<forall>r \<in> set (requires d). satisfiable m ?ds ?bs d r) \<longleftrightarrow>
      (\<forall>d \<in> set ?ds. \<forall>r \<in> set (requires d). satisfiable m' ?ds ?bs d r)"
    by (intro ball_cong refl) (simp add: cong(3))
  then have "valid_composition m spec = valid_composition m' spec"
    unfolding valid_composition_def Let_def edges by simp
  then show ?thesis
    unfolding resolve_correct [OF wf] resolves_to_def Let_def edges reqs diags by blast
qed

section \<open>Steps\<close>

definition quiet_env :: "('p, 'w, 'v, 'q, 'h) runtime_env \<Rightarrow> bool" where
  \<comment> \<open>no observation sink, and only \<open>initialize\<close> is overridden by the plugins\<close>
  "quiet_env env \<longleftrightarrow> env_observer env = default_sink \<and> pi_start (env_interface env) = default_hook \<and>
     pi_quiesce (env_interface env) = default_hook \<and> pi_stop (env_interface env) = default_hook \<and>
     pi_dispose (env_interface env) = default_hook"

lemma observe_quiet:
  "env_observer env = default_sink \<Longrightarrow>
     \<exists>t. observe env p ph out n st = st\<lparr>st_trace := t\<rparr>"
  by (simp add: observe_def emit_observation_def default_sink_def trace_append_def) blast

lemma initialize_quiet:
  assumes "env_observer env = default_sink" and "bm_get (st_plugins st) p = Some x"
    and "run_plugin_hook (pi_initialize (env_interface env) (initialize_context env p st)
      (st_scopes st, env_scope env)) (x, st_world st) = (Inr staged, (x', w'))"
    and "graph_plugin (env_graph env) p = Some d"
    and "commit p d staged (st_registry st) = (Inr (), reg')"
  shows "\<exists>t. initialize_one env p initialized st =
    (Inr (), st\<lparr>st_plugins := bm_modify p (\<lambda>_. x') (st_plugins st), st_world := w', st_registry := reg', st_trace := t\<rparr>)"
proof -
  let ?st = "trace_append (HookRan p Initialize)
      (st\<lparr>st_plugins := bm_modify p (\<lambda>_. x') (st_plugins st), st_world := w'\<rparr>)"
  have "initialize_one env p initialized st = (Inr (),
      observe_success env p Initialize (env_now env (st_world st)) (?st\<lparr>st_registry := reg'\<rparr>))"
    using assms(2-5)
    by (simp add: initialize_one_def plugin_mut_def commit_staged_def bind_action_def Let_def trace_append_def)
  moreover obtain t where "observe_success env p Initialize (env_now env (st_world st)) (?st\<lparr>st_registry := reg'\<rparr>) =
      ?st\<lparr>st_registry := reg', st_trace := t\<rparr>"
    using observe_quiet [OF assms(1)] unfolding observe_success_def by blast
  ultimately show ?thesis by (simp add: trace_append_def) blast
qed

lemma initialize_kept:
  \<comment> \<open>the plugin itself does not change\<close>
  assumes "env_observer env = default_sink" and "bm_wf (st_plugins st)" and "bm_get (st_plugins st) p = Some x"
    and "run_plugin_hook (pi_initialize (env_interface env) (initialize_context env p st)
      (st_scopes st, env_scope env)) (x, st_world st) = (Inr staged, (x, w'))"
    and "graph_plugin (env_graph env) p = Some d"
    and "commit p d staged (st_registry st) = (Inr (), reg')"
  shows "\<exists>t. initialize_one env p initialized st =
    (Inr (), st\<lparr>st_world := w', st_registry := reg', st_trace := t\<rparr>)"
  using initialize_quiet [OF assms(1,3-6), of initialized] bm_modify_same [OF assms(2,3)]
  by (cases st) simp

lemma default_hook_quiet:
  assumes "bm_wf (st_plugins st)" and "bm_get (st_plugins st) p = Some x"
  shows "plugin_mut p ph (default_hook view) st =
    (Inr (Inr ()), trace_append (HookRan p ph) st)"
  using bm_modify_same [OF assms]
  by (simp add: plugin_mut_def assms(2) default_hook_def run_plugin_hook_def)

lemma start_step:
  assumes "env_observer env = default_sink" and "bm_get (st_plugins st) p = Some x"
    and "run_plugin_hook (pi_start (env_interface env) (st_scopes st, env_scope env)) (x, st_world st) = (Inr (), (x', w'))"
  shows "\<exists>t. start_one env p started initialized st =
    (Inr (), st\<lparr>st_plugins := bm_modify p (\<lambda>_. x') (st_plugins st), st_world := w', st_trace := t\<rparr>)"
proof -
  let ?st = "trace_append (HookRan p Start)
      (st\<lparr>st_plugins := bm_modify p (\<lambda>_. x') (st_plugins st), st_world := w'\<rparr>)"
  have "start_one env p started initialized st = (Inr (), observe_success env p Start (env_now env (st_world st)) ?st)"
    using assms(2,3) by (simp add: start_one_def plugin_mut_def bind_action_def Let_def)
  moreover obtain t where "observe_success env p Start (env_now env (st_world st)) ?st = ?st\<lparr>st_trace := t\<rparr>"
    using observe_quiet [OF assms(1)] unfolding observe_success_def by blast
  ultimately show ?thesis by (simp add: trace_append_def) blast
qed

lemma cleanup_step:
  assumes "env_observer env = default_sink" and "bm_get (st_plugins st) p = Some x"
    and "run_plugin_hook (cleanup_hook (env_interface env) ph (st_scopes st, env_scope env)) (x, st_world st) =
      (Inr (), (x', w'))"
  shows "\<exists>t. cleanup_one env ph p failures st =
    (Inr failures, st\<lparr>st_plugins := bm_modify p (\<lambda>_. x') (st_plugins st), st_world := w', st_trace := t\<rparr>)"
proof -
  let ?st = "trace_append (HookRan p ph)
      (st\<lparr>st_plugins := bm_modify p (\<lambda>_. x') (st_plugins st), st_world := w'\<rparr>)"
  have "cleanup_one env ph p failures st =
      (Inr failures, observe env p ph Succeeded (env_now env (st_world st)) ?st)"
    using assms(2,3) by (simp add: cleanup_one_def run_cleanup_hook_def plugin_mut_def bind_action_def Let_def)
  moreover obtain t where "observe env p ph Succeeded (env_now env (st_world st)) ?st = ?st\<lparr>st_trace := t\<rparr>"
    using observe_quiet [OF assms(1)] by blast
  ultimately show ?thesis by (simp add: trace_append_def) blast
qed

lemma start_kept:
  assumes "env_observer env = default_sink" and "bm_wf (st_plugins st)" and "bm_get (st_plugins st) p = Some x"
    and "run_plugin_hook (pi_start (env_interface env) (st_scopes st, env_scope env)) (x, st_world st) = (Inr (), (x, w'))"
  shows "\<exists>t. start_one env p started initialized st = (Inr (), st\<lparr>st_world := w', st_trace := t\<rparr>)"
  using start_step [OF assms(1,3,4), of started initialized] bm_modify_same [OF assms(2,3)] by (cases st) simp

lemma cleanup_kept:
  assumes "env_observer env = default_sink" and "bm_wf (st_plugins st)" and "bm_get (st_plugins st) p = Some x"
    and "run_plugin_hook (cleanup_hook (env_interface env) ph (st_scopes st, env_scope env)) (x, st_world st) =
      (Inr (), (x, w'))"
  shows "\<exists>t. cleanup_one env ph p failures st = (Inr failures, st\<lparr>st_world := w', st_trace := t\<rparr>)"
  using cleanup_step [OF assms(1,3,4), of failures] bm_modify_same [OF assms(2,3)] by (cases st) simp

lemma start_one_quiet:
  assumes "quiet_env env" and "bm_wf (st_plugins st)" and "p \<in> set (bm_keys (st_plugins st))"
  shows "\<exists>t. start_one env p started initialized st = (Inr (), st\<lparr>st_trace := t\<rparr>)"
proof -
  obtain x where x: "bm_get (st_plugins st) p = Some x" using assms(3) bm_get_None_iff by fastforce
  have "start_one env p started initialized st = (Inr (),
      observe_success env p Start (env_now env (st_world st)) (trace_append (HookRan p Start) st))"
    using assms(1) by (simp add: start_one_def quiet_env_def default_hook_quiet [OF assms(2) x] bind_action_def)
  moreover obtain t where "observe_success env p Start (env_now env (st_world st)) (trace_append (HookRan p Start) st) =
      (trace_append (HookRan p Start) st)\<lparr>st_trace := t\<rparr>"
    using observe_quiet assms(1) unfolding quiet_env_def observe_success_def by blast
  ultimately show ?thesis by (simp add: trace_append_def) blast
qed

lemma cleanup_one_quiet:
  assumes "quiet_env env" and "ph \<in> {Quiesce, Stop, Dispose}" and "bm_wf (st_plugins st)"
    and "p \<in> set (bm_keys (st_plugins st))"
  shows "\<exists>t. cleanup_one env ph p failures st = (Inr failures, st\<lparr>st_trace := t\<rparr>)"
proof -
  obtain x where x: "bm_get (st_plugins st) p = Some x" using assms(4) bm_get_None_iff by fastforce
  have hook: "cleanup_hook (env_interface env) ph view = default_hook view" for view
    using assms(1,2) by (auto simp: cleanup_hook_def quiet_env_def)
  have "cleanup_one env ph p failures st = (Inr failures,
      observe env p ph Succeeded (env_now env (st_world st)) (trace_append (HookRan p ph) st))"
    by (simp add: cleanup_one_def run_cleanup_hook_def hook default_hook_quiet [OF assms(3) x] bind_action_def Let_def)
  moreover obtain t where "observe env p ph Succeeded (env_now env (st_world st)) (trace_append (HookRan p ph) st) =
      (trace_append (HookRan p ph) st)\<lparr>st_trace := t\<rparr>"
    using observe_quiet assms(1) unfolding quiet_env_def by blast
  ultimately show ?thesis by (simp add: trace_append_def) blast
qed

lemma loop_quiet:
  assumes "\<And>x a t. x \<in> set xs \<Longrightarrow> \<exists>t'. body x a (st\<lparr>st_trace := t\<rparr>) = (Inr (f x a), st\<lparr>st_trace := t'\<rparr>)"
  shows "\<exists>t'. loop_action body xs a (st\<lparr>st_trace := t\<rparr>) = (Inr (fold f xs a), st\<lparr>st_trace := t'\<rparr>)"
  using assms
proof (induction xs arbitrary: a t)
  case Nil
  show ?case by auto
next
  case (Cons x xs)
  obtain t1 where "body x a (st\<lparr>st_trace := t\<rparr>) = (Inr (f x a), st\<lparr>st_trace := t1\<rparr>)"
    using Cons.prems [of x a t] by auto
  moreover obtain t2 where
    "loop_action body xs (f x a) (st\<lparr>st_trace := t1\<rparr>) = (Inr (fold f xs (f x a)), st\<lparr>st_trace := t2\<rparr>)"
    using Cons.IH [of "f x a" t1] Cons.prems by (metis list.set_intros(2))
  ultimately have "loop_action body (x # xs) a (st\<lparr>st_trace := t\<rparr>) = (Inr (fold f (x # xs) a), st\<lparr>st_trace := t2\<rparr>)"
    by (simp add: bind_action_Inr)
  then show ?case by blast
qed

lemma start_all_quiet:
  assumes "quiet_env env" and "bm_wf (st_plugins st)" and "set order \<subseteq> set (bm_keys (st_plugins st))"
  shows "\<exists>started t. start_all env order initialized st = (Inr started, st\<lparr>st_trace := t\<rparr>)"
proof -
  have step: "\<exists>t'. bind_action (start_one env x a initialized) (\<lambda>_. return_action (a @ [x])) (st\<lparr>st_trace := t\<rparr>) =
      (Inr (a @ [x]), st\<lparr>st_trace := t'\<rparr>)" if "x \<in> set order" for x a t
  proof -
    have "x \<in> set (bm_keys (st_plugins (st\<lparr>st_trace := t\<rparr>)))" using assms(3) that by auto
    then obtain t' where "start_one env x a initialized (st\<lparr>st_trace := t\<rparr>) = (Inr (), st\<lparr>st_trace := t'\<rparr>)"
      using start_one_quiet [OF assms(1), of "st\<lparr>st_trace := t\<rparr>" x a initialized] assms(2) by auto
    then show ?thesis unfolding bind_action_def by auto
  qed
  have "\<exists>t'. start_all env order initialized (st\<lparr>st_trace := st_trace st\<rparr>) =
      (Inr (fold (\<lambda>x a. a @ [x]) order []), st\<lparr>st_trace := t'\<rparr>)"
    unfolding start_all_def by (rule loop_quiet) (rule step)
  then show ?thesis by auto
qed

lemma fold_keep: "fold (\<lambda>x a. a) xs a = a"
  by (induction xs) simp_all

lemma cleanup_phases_quiet:
  assumes "quiet_env env" and "bm_wf (st_plugins st)" and "set ps \<subseteq> set (bm_keys (st_plugins st))"
    and "set phases \<subseteq> {Quiesce, Stop, Dispose}"
  shows "\<exists>t. loop_action (\<lambda>ph. loop_action (cleanup_one env ph) ps) phases failures st =
    (Inr failures, st\<lparr>st_trace := t\<rparr>)"
proof -
  have one: "\<exists>t'. cleanup_one env ph p a (st\<lparr>st_trace := t\<rparr>) = (Inr a, st\<lparr>st_trace := t'\<rparr>)"
    if ph: "ph \<in> set phases" and p: "p \<in> set ps" for ph p t and a
  proof -
    have "ph \<in> {Quiesce, Stop, Dispose}" "p \<in> set (bm_keys (st_plugins (st\<lparr>st_trace := t\<rparr>)))"
      using ph p assms(3,4) by auto
    from cleanup_one_quiet [OF assms(1) this(1) _ this(2), of a] assms(2) show ?thesis by auto
  qed
  have all: "\<exists>t'. loop_action (cleanup_one env ph) ps a (st\<lparr>st_trace := t\<rparr>) = (Inr a, st\<lparr>st_trace := t'\<rparr>)"
    if ph: "ph \<in> set phases" for ph a t
  proof -
    have "\<exists>t'. loop_action (cleanup_one env ph) ps a (st\<lparr>st_trace := t\<rparr>) =
        (Inr (fold (\<lambda>x a. a) ps a), st\<lparr>st_trace := t'\<rparr>)"
      by (rule loop_quiet) (rule one [OF ph])
    then show ?thesis by (simp add: fold_keep)
  qed
  have "\<exists>t'. loop_action (\<lambda>ph. loop_action (cleanup_one env ph) ps) phases failures (st\<lparr>st_trace := st_trace st\<rparr>) =
      (Inr (fold (\<lambda>x a. a) phases failures), st\<lparr>st_trace := t'\<rparr>)"
    by (rule loop_quiet) (rule all)
  then show ?thesis by (simp add: fold_keep)
qed

text \<open>Shutting a quiet application down is clean.\<close>

lemma shutdown_quiet:
  assumes ok: "app_ok env st" and quiet: "quiet_env env" and wf: "bm_wf (st_plugins st)" and up: "st_terminal st = None"
  shows "\<exists>st'. shutdown env st = (Inr \<lparr>sr_failures = []\<rparr> :: 'e fault + _, st')"
proof -
  let ?ps = "rev (rg_startup_order (env_graph env))"
  obtain st1 where 1: "begin_scope_close env st = (Inr () :: 'e fault + _, st1)" "runs env st st1 [] []"
    by (rule begin_scope_close_ok [OF ok])
  have same: "st_plugins st1 = st_plugins st"
    using 1(1) by (auto simp: begin_scope_close_def split: option.splits)
  have "set ?ps \<subseteq> set (bm_keys (st_plugins st1))" using ok same by (simp add: app_ok_def)
  then obtain t where 2: "loop_action (\<lambda>ph. loop_action (cleanup_one env ph) ?ps) [Quiesce, Stop, Dispose] [] st1 =
      (Inr [] :: 'e fault + _, st1\<lparr>st_trace := t\<rparr>)"
    using cleanup_phases_quiet [OF quiet, of st1 ?ps "[Quiesce, Stop, Dispose]" "[]"] wf same by auto
  have "app_ok env (st1\<lparr>st_trace := t\<rparr>)" using runs_ok [OF 1(2)] by (simp add: app_ok_def)
  then obtain st3 where 3: "finish_scope_close env (st1\<lparr>st_trace := t\<rparr>) = (Inr () :: 'e fault + _, st3)"
    by (rule finish_scope_close_ok)
  have "shutdown env st = (Inr \<lparr>sr_failures = []\<rparr> :: 'e fault + _, st3\<lparr>st_terminal := Some \<lparr>sr_failures = []\<rparr>\<rparr>)"
    unfolding shutdown_def up option.case
    by (simp only: bind_action_def 1(1) 2 3 prod.case sum.case action_simps)
  then show ?thesis by blast
qed

end
