(* ===== verification/Example_Support.thy ===== *)
theory Example_Support
  imports Quiet_Run Text_Numbers
begin

text \<open>
  What the programs under \<open>examples/\<close> share: the marker types of their ports, the oracles for \<open>semver\<close> and
  the generated \<open>Display\<close> texts, the helpers of their \<open>initialize\<close> hooks, and the lemmas that run such a
  hook: staging and publishing one provision, and requiring the one that was selected.
\<close>

section \<open>Ports and oracles\<close>

record marker_type =
  mt_marker :: type_id
  mt_name :: str
  mt_interface :: type_id

definition marker_of :: "marker_type \<Rightarrow> str \<Rightarrow> str \<Rightarrow> capability_marker" where
  \<comment> \<open>a marker type with its two associated constants\<close>
  "marker_of t i version =
     \<lparr>cm_type = mt_marker t, cm_name = mt_name t, cm_ID = i, cm_VERSION = version,
      cm_interface = mt_interface t\<rparr>"

record ('v, 'q) example_env =
  ex_parse_version :: "str \<Rightarrow> str + 'v"
  ex_parse_req :: "str \<Rightarrow> str + 'q"
  ex_matches :: "'q \<Rightarrow> 'v \<Rightarrow> bool"
  ex_provision_display :: "'v provision_error \<Rightarrow> utext"
  ex_access_display :: "access_error \<Rightarrow> utext"

section \<open>Hooks\<close>

definition stage ::
  "('v, 'q, 'z) example_env_scheme \<Rightarrow> capability_marker \<Rightarrow> 'h \<Rightarrow> plugin_error + ('v, 'h) provision_set" where
  "stage env C value =
     map_err (\<lambda>error. \<lparr>pe_tag = provision_error_tag error, pe_message = ex_provision_display env error\<rparr>)
       (provision_set_provide (ex_parse_version env) C value [])"

definition unwinding :: "'e fault + 'a \<Rightarrow> ('e + 'a) option" where
  \<comment> \<open>the value of a call, or \<open>None\<close> when it unwinds\<close>
  "unwinding r = (case r of Inl Panic \<Rightarrow> None | Inl (Err e) \<Rightarrow> Some (Inl e) | Inr a \<Rightarrow> Some (Inr a))"

definition lift_err :: "('e \<Rightarrow> 'm) \<Rightarrow> 'e fault + 'a \<Rightarrow> 'm fault + 'a" where
  "lift_err f r = (case r of Inl Panic \<Rightarrow> Inl Panic | Inl (Err e) \<Rightarrow> Inl (Err (f e)) | Inr a \<Rightarrow> Inr a)"

section \<open>Descriptors with one offer\<close>

definition offering ::
  "str \<Rightarrow> plugin_source \<Rightarrow> str \<Rightarrow> 'v \<Rightarrow> (capability_id, 'q capability_requirement) btree_map \<Rightarrow> ('v, 'q) plugin_descriptor" where
  "offering p source c v rs = \<lparr>pd_id = PluginId p, pd_version = v, pd_source = Some source,
     pd_provides = [(CapabilityId c, \<lparr>offer_id = CapabilityId c, offer_version = v\<rparr>)],
     pd_requires = rs, pd_conflicts = []\<rparr>"

definition accepts_literals :: "('v, 'q, 'z) example_env_scheme \<Rightarrow> 'v \<Rightarrow> 'q \<Rightarrow> bool" where
  \<comment> \<open>\<open>semver\<close> reads the literals of the examples, and \<open>^1.0\<close> matches \<open>1.0.0\<close>\<close>
  "accepts_literals env v q \<longleftrightarrow> ex_parse_version env ''1.0.0'' = Inr v \<and>
     ex_parse_req env ''^1.0'' = Inr q \<and> ex_matches env q v"

definition selected :: "str \<Rightarrow> str \<Rightarrow> str \<Rightarrow> resolved_requirement" where
  "selected i c p = \<lparr>rr_consumer = PluginId i, rr_capability = CapabilityId c,
     rr_cardinality = ExactlyOne, rr_providers = [PluginId p]\<rparr>"

section \<open>One provision\<close>

definition provision_of :: "'v \<Rightarrow> marker_type \<Rightarrow> str \<Rightarrow> 'h \<Rightarrow> ('v, 'h) provision" where
  "provision_of v t c h = \<lparr>pv_contract = \<lparr>cc_id = CapabilityId c, cc_version = v, cc_marker_type = mt_marker t,
     cc_marker_name = mt_name t\<rparr>, pv_value = \<lparr>any_type = mt_interface t, any_handle = h\<rparr>\<rparr>"

lemma contract_of_marker_of:
  assumes "accepts_literals env v q" and "capability_id_new c = Inr (CapabilityId c)"
  shows "contract_of (ex_parse_version env) (marker_of t c ''1.0.0'') =
    Inr (pv_contract (provision_of v t c h))"
  using assms by (simp add: contract_of_def marker_of_def map_err_def
      accepts_literals_def provision_of_def)

lemma stage_marker:
  assumes "accepts_literals env v q" and "capability_id_new c = Inr (CapabilityId c)"
  shows "stage env (marker_of t c ''1.0.0'') h = Inr [(CapabilityId c, provision_of v t c h)]"
  by (simp add: stage_def provision_set_provide_def contract_of_marker_of [OF assms, of t h] map_err_def)
    (simp add: provision_of_def marker_of_def)

lemma commit_single:
  assumes "pd_provides d = [(CapabilityId c, \<lparr>offer_id = CapabilityId c, offer_version = v\<rparr>)]"
  shows "commit p d [(CapabilityId c, provision_of v t c h)] reg =
     (Inr (), bm_insert (p, CapabilityId c) (provision_of v t c h) reg)"
  by (simp add: commit_def check_staged_def check_offered_def provides_def assms provision_of_def bm_contains_def)

lemma commit_offering:
  "commit p (offering i source c v rs) [(CapabilityId c, provision_of v t c h)] reg =
     (Inr (), bm_insert (p, CapabilityId c) (provision_of v t c h) reg)"
  by (rule commit_single) (simp add: offering_def)

lemma registry_get_provision:
  assumes "accepts_literals env v q" and "capability_id_new c = Inr (CapabilityId c)"
    and "bm_get reg (p, CapabilityId c) = Some (provision_of v t c h)"
  shows "root_capability (ex_parse_version env) (marker_of t c ''1.0.0'') reg p = Inr h"
  using assms(3)
  by (simp add: root_capability_def contract_of_marker_of [OF assms(1,2), of t h] map_err_def registry_get_def)
    (simp add: provision_of_def marker_of_def downcast_ref_def)

lemma require_selected:
  assumes "accepts_literals env v q" and "capability_id_new c = Inr (CapabilityId c)"
    and "requirement (ctx_graph ctx) (ctx_consumer ctx) (CapabilityId c) = Some (selected i c p)"
    and "bm_get (ctx_registry ctx) (PluginId p, CapabilityId c) = Some (provision_of v t c h)"
  shows "ctx_require (ex_parse_version env) (marker_of t c ''1.0.0'') ctx = Inr h"
  using registry_get_provision [OF assms(1,2,4)]
  by (simp add: ctx_require_def root_capability_def contract_of_marker_of [OF assms(1,2), of t h] map_err_def
      ctx_requirement_def assms(3) provision_of_def selected_def)

section \<open>Composing and starting\<close>

definition plain_builder :: "'p list \<Rightarrow> binding list \<Rightarrow> ('p, 'w, 'v, 'q) app_builder" where
  \<comment> \<open>plugins and bindings under the default limits, on a host that supplies nothing\<close>
  "plain_builder ps bs = \<lparr>ab_plugins = ps, ab_bindings = bs, ab_limits = graph_limits_default,
     ab_observer = None, ab_host_capabilities = []\<rparr>"

definition plain_spec ::
  "('p \<Rightarrow> ('v, 'q) plugin_descriptor) \<Rightarrow> 'p list \<Rightarrow> binding list \<Rightarrow> ('v, 'q) composition_spec" where
  "plain_spec df ps bs = \<lparr>spec_schema_version = 1, spec_limits = graph_limits_default,
     spec_plugins = map df ps, spec_bindings = bs\<rparr>"

definition composed_as ::
  "('p \<Rightarrow> ('v, 'q) plugin_descriptor) \<Rightarrow> 'p list \<Rightarrow> plugin_id list \<Rightarrow> resolved_requirement list
     \<Rightarrow> ('p, 'w, 'v, 'q) resolved_app \<Rightarrow> bool" where
  "composed_as df ps order reqs app \<longleftrightarrow>
     rg_startup_order (ra_graph app) = order \<and> rg_requirements (ra_graph app) = reqs \<and>
     (\<forall>p \<in> set ps. graph_plugin (ra_graph app) (pd_id (df p)) = Some (df p) \<and>
        bm_get (ra_plugins app) (pd_id (df p)) = Some p) \<and>
     bm_wf (ra_plugins app) \<and> ra_observer app = default_sink"

lemma plain_builder_spec:
  "builder_spec (map (\<lambda>p. (df p, p, rs p)) ps) bs graph_limits_default = plain_spec df ps bs"
  (is "?spec = _")
proof -
  have "spec_schema_version ?spec = 1" "spec_limits ?spec = graph_limits_default"
    "spec_plugins ?spec = map df ps" "spec_bindings ?spec = bs"
    by (simp_all add: builder_spec_fields comp_def)
  then show ?thesis by (cases ?spec) (simp add: plain_spec_def)
qed

lemma compose_hosted:
  fixes iface :: "('p, 'w, 'v, 'q, 'h) plugin_interface"
  assumes iface: "pi_descriptor iface = df"
    and host: "validate_host_requirements m (map (\<lambda>p. (df p, p, pi_host_requirements iface p)) ps) hs = Inr ()"
    and wf: "\<forall>d \<in> set (spec_plugins (plain_spec df ps bs)). descriptor_wf d"
    and dist: "distinct (map (\<lambda>p. pd_id (df p)) ps)"
    and same: "same_matches m (\<lambda>_ _. True) (map df ps)"
    and res: "map_sum (\<lambda>_. ()) (\<lambda>g. (rg_startup_order g, rg_requirements g))
      (resolve (\<lambda>_ _. True) (plain_spec df ps bs)) = Inr (order, reqs)"
  obtains app where "app_resolve m iface ((plain_builder ps bs)\<lparr>ab_host_capabilities := hs\<rparr>) scopes = (Inr app, snd (application scopes))"
    and "composed_as df ps order reqs app"
proof -
  let ?b = "(plain_builder ps bs)\<lparr>ab_host_capabilities := hs\<rparr> :: ('p, 'w, 'v, 'q) app_builder"
  let ?declared = "map (\<lambda>p. (pi_descriptor iface p, p, pi_host_requirements iface p)) ps"
  have b: "ab_plugins ?b = ps" "ab_bindings ?b = bs" "ab_limits ?b = graph_limits_default"
    "ab_host_capabilities ?b = hs" "ab_observer ?b = None"
    by (simp_all add: plain_builder_def)
  obtain g where g: "resolve (\<lambda>_ _. True) (plain_spec df ps bs) = Inr g"
    "rg_startup_order g = order" "rg_requirements g = reqs"
    using res by (cases "resolve (\<lambda>_ _. True) (plain_spec df ps bs)") auto
  have "same_matches m (\<lambda>_ _. True) (spec_plugins (plain_spec df ps bs))" using same by (simp add: plain_spec_def)
  then have gm: "resolve m (plain_spec df ps bs) = Inr g" using resolve_same_matches [OF wf] g(1) by blast
  have spec: "builder_spec ?declared bs graph_limits_default = plain_spec df ps bs"
    unfolding iface by (rule plain_builder_spec)
  define app :: "('p, 'w, 'v, 'q) resolved_app" where "app = \<lparr>ra_graph = g,
      ra_plugins = fold (\<lambda>(descriptor, plugin, _). bm_insert (pd_id descriptor) plugin) ?declared [],
      ra_observer = default_sink,
      ra_scope = fst (application scopes)\<rparr>"
  have run: "app_resolve m iface ?b scopes = (Inr app, snd (application scopes))"
    unfolding app_resolve_run b spec gm host [folded iface] app_def by simp
  have "bm_wf (ra_plugins app)" unfolding app_def resolved_app.simps by (rule fold_insert_wf) simp
  moreover have "bm_get (ra_plugins app) (pd_id (df p)) = Some p" if "p \<in> set ps" for p
  proof -
    have "distinct (map (\<lambda>(d, _). pd_id d) ?declared)"
      using dist by (simp add: iface comp_def)
    moreover have "(df p, p, pi_host_requirements iface p) \<in> set ?declared" using that by (auto simp: iface)
    ultimately show ?thesis unfolding app_def resolved_app.simps by (intro fold_insert_get bm_wf_Nil)
  qed
  moreover have "graph_plugin g (pd_id (df p)) = Some (df p)" if "p \<in> set ps" for p
  proof -
    have "resolves_to m (plain_spec df ps bs) g"
      using resolve_correct [OF wf, THEN iffD1, OF gm] by (rule conjunct2)
    then have "bm_wf (rg_plugins g)" "set (rg_plugins g) = (\<lambda>d. (pd_id d, d)) ` set (map df ps)"
      by (simp_all add: resolves_to_def Let_def plain_spec_def)
    then show ?thesis using that by (simp add: graph_plugin_def bm_get_eq_Some_iff)
  qed
  moreover have "ra_observer app = default_sink" by (simp add: app_def)
  ultimately have "composed_as df ps order reqs app" using g(2,3) by (simp add: composed_as_def app_def)
  then show thesis using that run by blast
qed

lemma compose_plain:
  assumes "pi_descriptor iface = df" and "pi_host_requirements iface = (\<lambda>_. [])"
    and "\<forall>d \<in> set (spec_plugins (plain_spec df ps bs)). descriptor_wf d"
    and "distinct (map (\<lambda>p. pd_id (df p)) ps)" and "same_matches m (\<lambda>_ _. True) (map df ps)"
    and "map_sum (\<lambda>_. ()) (\<lambda>g. (rg_startup_order g, rg_requirements g))
      (resolve (\<lambda>_ _. True) (plain_spec df ps bs)) = Inr (order, reqs)"
  obtains app where "app_resolve m iface (plain_builder ps bs) scopes = (Inr app, snd (application scopes))"
    and "composed_as df ps order reqs app"
proof (rule compose_hosted [OF assms(1) _ assms(3-6), where hs = "[]"])
  show "validate_host_requirements m (map (\<lambda>p. (df p, p, pi_host_requirements iface p)) ps) [] = Inr ()"
    by (auto simp: validate_host_requirements_ok host_satisfies_def assms(2))
  show thesis if "app_resolve m iface ((plain_builder ps bs)\<lparr>ab_host_capabilities := []\<rparr>) scopes =
      (Inr app, snd (application scopes))" and "composed_as df ps order reqs app" for app
    using that by (intro \<open>\<And>app. app_resolve m iface (plain_builder ps bs) scopes = (Inr app, snd (application scopes)) \<Longrightarrow>
      composed_as df ps order reqs app \<Longrightarrow> thesis\<close>) (simp_all add: plain_builder_def)
qed

lemma composed_asD:
  assumes "composed_as df ps order reqs app"
  shows "rg_startup_order (ra_graph app) = order" and "rg_requirements (ra_graph app) = reqs"
    and "p \<in> set ps \<Longrightarrow> graph_plugin (ra_graph app) (pd_id (df p)) = Some (df p)"
    and "p \<in> set ps \<Longrightarrow> bm_get (ra_plugins app) (pd_id (df p)) = Some p"
    and "bm_wf (ra_plugins app)" and "ra_observer app = default_sink"
  using assms by (simp_all add: composed_as_def)

lemma composed_keys:
  assumes "composed_as df ps order reqs app" and "set order \<subseteq> (\<lambda>p. pd_id (df p)) ` set ps"
  shows "set order \<subseteq> set (bm_keys (ra_plugins app))"
proof
  fix i assume "i \<in> set order"
  then obtain p where "p \<in> set ps" "i = pd_id (df p)" using assms(2) by blast
  then have "bm_get (ra_plugins app) i \<noteq> None" using composed_asD(4) [OF assms(1)] by simp
  then show "i \<in> set (bm_keys (ra_plugins app))" unfolding bm_get_None_iff by simp
qed

text \<open>Once all plugins are initialized, a quiet application has started.\<close>

lemma start_initialized:
  assumes "quiet_env env" and "bm_wf (st_plugins st)" and "set (rg_startup_order (env_graph env)) \<subseteq> set (bm_keys (st_plugins st))"
    and init: "initialize_all env (rg_startup_order (env_graph env)) (st\<lparr>st_registry := []\<rparr>) =
      (Inr initialized, st\<lparr>st_world := w, st_registry := reg, st_trace := t\<rparr>)"
  shows "\<exists>t. start env st = (Inr (), st\<lparr>st_world := w, st_registry := reg, st_terminal := None, st_trace := t\<rparr>)"
proof -
  let ?st1 = "st\<lparr>st_world := w, st_registry := reg, st_trace := t\<rparr>"
  obtain started t' where "start_all env (rg_startup_order (env_graph env)) initialized ?st1 =
      (Inr started, ?st1\<lparr>st_trace := t'\<rparr>)"
    using start_all_quiet [OF assms(1), of ?st1 "rg_startup_order (env_graph env)" initialized] assms(2,3) by auto
  then have "start env st = (Inr (), st\<lparr>st_world := w, st_registry := reg, st_terminal := None, st_trace := t'\<rparr>)"
    by (simp add: start_def bind_action_def init)
  then show ?thesis by blast
qed

end
