(* ===== verification/Checkout_App.thy ===== *)
theory Checkout_App
  imports Example_Support
begin

text \<open>
  \<open>examples/checkout-app\<close>: the checkout domain, its four plugins, the composition with an explicit
  payment binding, and the binary that runs one purchase.

  The registry holds one kind of handle per port: \<open>checkout_handle\<close> has a constructor for each. A
  \<open>MemoryInventory\<close> is shared behind an \<open>Arc\<close>, so it lives in the world, by its address. The parsers
  of \<open>semver\<close>, the type identities the compiler gives the markers, and the generated \<open>Display\<close>
  texts of provision and access errors are parameters.
\<close>

section \<open>The checkout domain\<close>

definition CHECKOUT_CONTRACT_VERSION :: str where "CHECKOUT_CONTRACT_VERSION = ''1.0.0''"
definition CHECKOUT_PLUGIN_ID :: str where "CHECKOUT_PLUGIN_ID = ''dev.kernox.examples.checkout.service''"
definition INVENTORY_PLUGIN_ID :: str where "INVENTORY_PLUGIN_ID = ''dev.kernox.examples.checkout.inventory''"
definition CARD_PLUGIN_ID :: str where "CARD_PLUGIN_ID = ''dev.kernox.examples.checkout.card-payment''"
definition WALLET_PLUGIN_ID :: str where "WALLET_PLUGIN_ID = ''dev.kernox.examples.checkout.wallet-payment''"
definition CHECKOUT_CAPABILITY_ID :: str where "CHECKOUT_CAPABILITY_ID = ''dev.kernox.examples.checkout.service''"
definition INVENTORY_CAPABILITY_ID :: str where
  "INVENTORY_CAPABILITY_ID = ''dev.kernox.examples.checkout.inventory''"
definition PAYMENT_CAPABILITY_ID :: str where "PAYMENT_CAPABILITY_ID = ''dev.kernox.examples.checkout.payment''"

datatype payment_provider = Card | Wallet

fun payment_provider_name :: "payment_provider \<Rightarrow> str" where
  "payment_provider_name Card = ''card''"
| "payment_provider_name Wallet = ''wallet''"

record receipt =
  rc_sku :: utext
  rc_cents :: "64 word"
  rc_provider :: str

datatype payment_error = Declined str

fun payment_error_display :: "payment_error \<Rightarrow> str" where
  "payment_error_display (Declined provider) = ''payment declined by '' @ provider"

datatype purchase_error = OutOfStock utext | PaymentFailed payment_error

record checkout_world =
  cw_inventories :: "utext btree_set list"

datatype memory_inventory = MemoryInventory nat

definition memory_inventory_new :: "checkout_world \<Rightarrow> memory_inventory \<times> checkout_world" where
  "memory_inventory_new w =
     (MemoryInventory (length (cw_inventories w)),
      w\<lparr>cw_inventories := cw_inventories w @ [bs_of [text_of ''kernox-book'', text_of ''kernox-sticker'']]\<rparr>)"

fun reserve :: "memory_inventory \<Rightarrow> utext \<Rightarrow> checkout_world \<Rightarrow> bool \<times> checkout_world" where
  "reserve (MemoryInventory a) sku w =
     (let available = cw_inventories w ! a
      in (bs_contains available sku,
          w\<lparr>cw_inventories := (cw_inventories w)[a := filter (\<lambda>s. s \<noteq> sku) available]\<rparr>))"

datatype payment_gateway = CardPayment | WalletPayment

fun gateway_name :: "payment_gateway \<Rightarrow> str" where
  "gateway_name CardPayment = ''card''"
| "gateway_name WalletPayment = ''wallet''"

fun charge :: "payment_gateway \<Rightarrow> 64 word \<Rightarrow> payment_error + unit" where
  "charge CardPayment cents = Inr ()"
| "charge WalletPayment cents = Inr ()"

record checkout_service =
  cs_inventory :: memory_inventory
  cs_payment :: payment_gateway

definition purchase ::
  "checkout_service \<Rightarrow> utext \<Rightarrow> 64 word \<Rightarrow> (checkout_world, purchase_error, receipt) action" where
  "purchase self sku cents w =
     (case reserve (cs_inventory self) sku w of
        (False, w) \<Rightarrow> (Inl (OutOfStock sku), w)
      | (True, w) \<Rightarrow>
          (case charge (cs_payment self) cents of
             Inl error \<Rightarrow> (Inl (PaymentFailed error), w)
           | Inr _ \<Rightarrow>
               (Inr \<lparr>rc_sku = sku, rc_cents = cents, rc_provider = gateway_name (cs_payment self)\<rparr>, w)))"

section \<open>The ports\<close>

datatype checkout_handle =
    InventoryHandle memory_inventory
  | PaymentHandle payment_gateway
  | CheckoutHandle checkout_service

record checkout_markers =
  inventory_type :: marker_type
  payment_type :: marker_type
  checkout_type :: marker_type

definition inventory_capability :: "checkout_markers \<Rightarrow> capability_marker" where
  "inventory_capability ty = marker_of (inventory_type ty) INVENTORY_CAPABILITY_ID CHECKOUT_CONTRACT_VERSION"

definition payment_gateway_capability :: "checkout_markers \<Rightarrow> capability_marker" where
  "payment_gateway_capability ty = marker_of (payment_type ty) PAYMENT_CAPABILITY_ID CHECKOUT_CONTRACT_VERSION"

definition checkout_capability :: "checkout_markers \<Rightarrow> capability_marker" where
  "checkout_capability ty = marker_of (checkout_type ty) CHECKOUT_CAPABILITY_ID CHECKOUT_CONTRACT_VERSION"

section \<open>The plugins\<close>

datatype ('v, 'q) compose_error =
    ComposeIdentifier identifier_error
  | ComposeDescriptor descriptor_error
  | ComposeVersion str
  | ComposeResolve "('v, 'q) app_resolve_error"

record ('v, 'q) checkout_env = "('v, 'q) example_env" +
  ce_markers :: checkout_markers

definition checkout_plugin_id_of :: "str \<Rightarrow> ('v, 'q) compose_error + plugin_id" where
  "checkout_plugin_id_of value = map_err ComposeIdentifier (plugin_id_new value)"

definition checkout_capability_id :: "str \<Rightarrow> ('v, 'q) compose_error + capability_id" where
  "checkout_capability_id value = map_err ComposeIdentifier (capability_id_new value)"

definition checkout_version :: "('v, 'q) checkout_env \<Rightarrow> ('v, 'q) compose_error + 'v" where
  "checkout_version env = map_err ComposeVersion (ex_parse_version env CHECKOUT_CONTRACT_VERSION)"

definition checkout_source :: "str \<Rightarrow> ('v, 'q) compose_error + plugin_source" where
  "checkout_source package =
     map_err ComposeDescriptor (plugin_source_new (text_of package)
       (Some (text_of ''https://github.com/SylphxAI/kernox/tree/main/examples/checkout-app'')))"

definition checkout_access_failure :: "('v, 'q) checkout_env \<Rightarrow> access_error \<Rightarrow> plugin_error" where
  "checkout_access_failure env error =
     \<lparr>pe_tag = access_error_tag error, pe_message = ex_access_display env error\<rparr>"

datatype ('v, 'q) checkout_plugin =
    CheckoutPlugin "('v, 'q) plugin_descriptor"
  | InventoryPlugin "('v, 'q) plugin_descriptor"
  | PaymentPlugin "('v, 'q) plugin_descriptor" payment_provider

fun checkout_descriptor :: "('v, 'q) checkout_plugin \<Rightarrow> ('v, 'q) plugin_descriptor" where
  "checkout_descriptor (CheckoutPlugin descriptor) = descriptor"
| "checkout_descriptor (InventoryPlugin descriptor) = descriptor"
| "checkout_descriptor (PaymentPlugin descriptor _) = descriptor"

definition inventory_plugin_new ::
  "('v, 'q) checkout_env \<Rightarrow> ('v, 'q) compose_error + ('v, 'q) checkout_plugin" where
  "inventory_plugin_new env =
     and_then (checkout_plugin_id_of INVENTORY_PLUGIN_ID) (\<lambda>plugin.
     and_then (checkout_version env) (\<lambda>version.
     and_then (checkout_source ''kernox-example-checkout-inventory'') (\<lambda>source.
     and_then (checkout_capability_id INVENTORY_CAPABILITY_ID) (\<lambda>capability.
     and_then (checkout_version env) (\<lambda>offered.
     and_then (map_err ComposeDescriptor (provide \<lparr>offer_id = capability, offer_version = offered\<rparr>
       (sourced_from source (descriptor_new plugin version)))) (\<lambda>descriptor.
     Inr (InventoryPlugin descriptor)))))))"

definition payment_plugin_new ::
  "('v, 'q) checkout_env \<Rightarrow> payment_provider \<Rightarrow> ('v, 'q) compose_error + ('v, 'q) checkout_plugin" where
  "payment_plugin_new env provider =
     (let (plugin, package) = (case provider of
            Card \<Rightarrow> (CARD_PLUGIN_ID, ''kernox-example-checkout-card'')
          | Wallet \<Rightarrow> (WALLET_PLUGIN_ID, ''kernox-example-checkout-wallet''))
      in and_then (checkout_plugin_id_of plugin) (\<lambda>plugin.
         and_then (checkout_version env) (\<lambda>version.
         and_then (checkout_source package) (\<lambda>source.
         and_then (checkout_capability_id PAYMENT_CAPABILITY_ID) (\<lambda>capability.
         and_then (checkout_version env) (\<lambda>offered.
         and_then (map_err ComposeDescriptor (provide \<lparr>offer_id = capability, offer_version = offered\<rparr>
           (sourced_from source (descriptor_new plugin version)))) (\<lambda>descriptor.
         Inr (PaymentPlugin descriptor provider))))))))"

definition checkout_plugin_new ::
  "('v, 'q) checkout_env \<Rightarrow> ('v, 'q) compose_error + ('v, 'q) checkout_plugin" where
  "checkout_plugin_new env =
     and_then (map_err ComposeVersion (ex_parse_req env ''^1.0'')) (\<lambda>req.
     and_then (checkout_plugin_id_of CHECKOUT_PLUGIN_ID) (\<lambda>plugin.
     and_then (checkout_version env) (\<lambda>version.
     and_then (checkout_source ''kernox-example-checkout-service'') (\<lambda>source.
     and_then (checkout_capability_id CHECKOUT_CAPABILITY_ID) (\<lambda>capability.
     and_then (checkout_version env) (\<lambda>offered.
     and_then (map_err ComposeDescriptor (provide \<lparr>offer_id = capability, offer_version = offered\<rparr>
       (sourced_from source (descriptor_new plugin version)))) (\<lambda>descriptor.
     and_then (checkout_capability_id INVENTORY_CAPABILITY_ID) (\<lambda>inventory.
     and_then (map_err ComposeDescriptor (require_capability (exactly_one inventory req) descriptor)) (\<lambda>descriptor.
     and_then (checkout_capability_id PAYMENT_CAPABILITY_ID) (\<lambda>payment.
     and_then (map_err ComposeDescriptor (require_capability (exactly_one payment req) descriptor)) (\<lambda>descriptor.
     Inr (CheckoutPlugin descriptor))))))))))))"

section \<open>Initialization\<close>

type_synonym ('v, 'q) checkout_state = "('v, 'q) checkout_plugin \<times> checkout_world"

definition gateway_of :: "payment_provider \<Rightarrow> payment_gateway" where
  "gateway_of provider = (case provider of Card \<Rightarrow> CardPayment | Wallet \<Rightarrow> WalletPayment)"

definition inventory_initialize ::
  "('v, 'q) checkout_env \<Rightarrow> (('v, 'q) checkout_state, ('v, checkout_handle) provision_set) hook" where
  "inventory_initialize env = (\<lambda>(self, w).
     let (inventory, w) = memory_inventory_new w
     in (Some (\<lambda>s. (Some (stage env (inventory_capability (ce_markers env)) (InventoryHandle inventory)), s)),
         (self, w)))"

definition payment_initialize ::
  "('v, 'q) checkout_env \<Rightarrow> payment_provider
     \<Rightarrow> (('v, 'q) checkout_state, ('v, checkout_handle) provision_set) hook" where
  "payment_initialize env provider = (\<lambda>s.
     (Some (\<lambda>s. (Some (stage env (payment_gateway_capability (ce_markers env)) (PaymentHandle (gateway_of provider))),
        s)), s))"

definition build_service ::
  "('v, 'q) checkout_env \<Rightarrow> access_error + checkout_handle \<Rightarrow> access_error + checkout_handle
     \<Rightarrow> (plugin_error + ('v, checkout_handle) provision_set) option" where
  \<comment> \<open>the body of the future; a handle of another port cannot be there, which the type checker knows\<close>
  "build_service env inventory payment =
     (case map_err (checkout_access_failure env) inventory of
        Inl error \<Rightarrow> Some (Inl error)
      | Inr (InventoryHandle inventory) \<Rightarrow>
          (case map_err (checkout_access_failure env) payment of
             Inl error \<Rightarrow> Some (Inl error)
           | Inr (PaymentHandle payment) \<Rightarrow>
               Some (stage env (checkout_capability (ce_markers env))
                 (CheckoutHandle \<lparr>cs_inventory = inventory, cs_payment = payment\<rparr>))
           | Inr _ \<Rightarrow> None)
      | Inr _ \<Rightarrow> None)"

definition checkout_initialize ::
  "('v, 'q) checkout_env \<Rightarrow> ('v, 'q, checkout_handle) initialization_context
     \<Rightarrow> (('v, 'q) checkout_state, ('v, checkout_handle) provision_set) hook" where
  "checkout_initialize env ctx = (\<lambda>s.
     case unwinding (ctx_require (ex_parse_version env) (inventory_capability (ce_markers env)) ctx) of
       None \<Rightarrow> (None, s)
     | Some inventory \<Rightarrow>
         (case unwinding (ctx_require (ex_parse_version env) (payment_gateway_capability (ce_markers env)) ctx) of
            None \<Rightarrow> (None, s)
          | Some payment \<Rightarrow> (Some (\<lambda>s. (build_service env inventory payment, s)), s)))"

definition checkout_interface ::
  "('v, 'q) checkout_env \<Rightarrow> (('v, 'q) checkout_plugin, checkout_world, 'v, 'q, checkout_handle) plugin_interface" where
  "checkout_interface env =
     \<lparr>pi_descriptor = checkout_descriptor, pi_host_requirements = (\<lambda>_. []),
      pi_initialize = (\<lambda>ctx view s. case fst s of
          CheckoutPlugin _ \<Rightarrow> checkout_initialize env ctx s
        | InventoryPlugin _ \<Rightarrow> inventory_initialize env s
        | PaymentPlugin _ provider \<Rightarrow> payment_initialize env provider s),
      pi_start = default_hook, pi_quiesce = default_hook, pi_stop = default_hook, pi_dispose = default_hook\<rparr>"

section \<open>Composition and the binary\<close>

definition payment_provider_plugin_id :: "payment_provider \<Rightarrow> ('v, 'q) compose_error + plugin_id" where
  "payment_provider_plugin_id provider =
     checkout_plugin_id_of (case provider of Card \<Rightarrow> CARD_PLUGIN_ID | Wallet \<Rightarrow> WALLET_PLUGIN_ID)"

definition checkout_builder ::
  "('v, 'q) checkout_env \<Rightarrow> payment_provider
     \<Rightarrow> ('v, 'q) compose_error + (('v, 'q) checkout_plugin, checkout_world, 'v, 'q) app_builder" where
  "checkout_builder env provider =
     and_then (checkout_plugin_id_of CHECKOUT_PLUGIN_ID) (\<lambda>checkout.
     and_then (payment_provider_plugin_id provider) (\<lambda>payment.
     and_then (checkout_plugin_new env) (\<lambda>service.
     and_then (inventory_plugin_new env) (\<lambda>inventory.
     and_then (payment_plugin_new env Card) (\<lambda>card.
     and_then (payment_plugin_new env Wallet) (\<lambda>wallet.
     and_then (checkout_capability_id PAYMENT_CAPABILITY_ID) (\<lambda>capability.
     Inr (builder_binding \<lparr>bind_consumer = checkout, bind_capability = capability, bind_provider = payment\<rparr>
       (fold builder_plugin [service, inventory, card, wallet] app_builder_new)))))))))"

definition checkout_compose ::
  "('v, 'q) checkout_env \<Rightarrow> payment_provider
     \<Rightarrow> (scope_store, ('v, 'q) compose_error fault, (('v, 'q) checkout_plugin, checkout_world, 'v, 'q) resolved_app) action" where
  "checkout_compose env provider scopes =
     (case checkout_builder env provider of
        Inl error \<Rightarrow> (Inl (Err error), scopes)
      | Inr builder \<Rightarrow>
          (case app_resolve (ex_matches env) (checkout_interface env) builder scopes of
             (Inl Panic, scopes) \<Rightarrow> (Inl Panic, scopes)
           | (Inl (Err error), scopes) \<Rightarrow> (Inl (Err (ComposeResolve error)), scopes)
           | (Inr app, scopes) \<Rightarrow> (Inr app, scopes)))"

definition checkout_plugin_id :: "identifier_error + plugin_id" where
  "checkout_plugin_id = plugin_id_new CHECKOUT_PLUGIN_ID"

datatype ('v, 'q) checkout_main_error =
    UnknownProvider utext
  | MainCompose "('v, 'q) compose_error"
  | MainStart lifecycle_failure
  | MainIdentifier identifier_error
  | MainAccess access_error
  | MainPurchase purchase_error
  | MainShutdown str

definition select_provider :: "utext list \<Rightarrow> utext + payment_provider" where
  \<comment> \<open>the match on the first argument, or the argument that is refused\<close>
  "select_provider args =
     (case args of
        _ # value # _ \<Rightarrow>
          (if value = text_of ''card'' then Inr Card
           else if value = text_of ''wallet'' then Inr Wallet
           else Inl value)
      | _ \<Rightarrow> Inr Card)"

definition receipt_line :: "receipt \<Rightarrow> utext" where
  "receipt_line r =
     text_of (''provider='' @ rc_provider r @ '' purchased '') @ rc_sku r @
       text_of ('' for '' @ decimal (unat (rc_cents r)) @ '' cents'')"

definition checkout_run ::
  "('v, 'q) checkout_env
     \<Rightarrow> (('v, 'q) checkout_plugin, checkout_world, 'v, 'q, checkout_handle) runtime_env
     \<Rightarrow> ((('v, 'q) checkout_plugin, checkout_world, 'v, checkout_handle) app_state,
        ('v, 'q) checkout_main_error fault, utext \<times> (('v, 'q) checkout_main_error + unit)) action" where
  \<comment> \<open>\<open>main\<close> from \<open>start\<close> on: the line it prints and the result it then returns\<close>
  "checkout_run env rt =
     bind_action (\<lambda>st. let (r, st) = start rt st in (lift_err MainStart r, st)) (\<lambda>_.
     bind_action (\<lambda>st. (fallible (map_err MainIdentifier checkout_plugin_id), st)) (\<lambda>plugin.
     bind_action (\<lambda>st. (fallible (map_err MainAccess
         (capability_from (ex_parse_version env) rt (checkout_capability (ce_markers env)) plugin st)), st)) (\<lambda>handle.
     bind_action (\<lambda>st. case handle of
         CheckoutHandle service \<Rightarrow>
           (let (r, w) = purchase service (text_of ''kernox-book'') 1999 (st_world st)
            in (fallible (map_err MainPurchase r), st\<lparr>st_world := w\<rparr>))
       | _ \<Rightarrow> (Inl Panic, st)) (\<lambda>receipt.
     bind_action (shutdown rt) (\<lambda>report.
     return_action (receipt_line receipt,
       if is_clean report then Inr ()
       else Inl (MainShutdown (''shutdown had '' @ decimal (length (sr_failures report)) @ '' failure(s)''))))))))"

definition checkout_main ::
  "('v, 'q) checkout_env \<Rightarrow> (checkout_world \<Rightarrow> nat) \<Rightarrow> utext list \<Rightarrow> scope_store \<Rightarrow> checkout_world
     \<Rightarrow> ('v, 'q) checkout_main_error fault + utext \<times> (('v, 'q) checkout_main_error + unit)" where
  "checkout_main env now args scopes w =
     and_then (fallible (map_err UnknownProvider (select_provider args))) (\<lambda>provider.
       let (composed, scopes) = checkout_compose env provider scopes
       in and_then (lift_err MainCompose composed) (\<lambda>app.
            fst (checkout_run env (app_env (checkout_interface env) now (ex_provision_display env) app)
              (app_state_of app scopes w))))"

end
