(* ===== verification/Checkout_Run.thy ===== *)
theory Checkout_Run
  imports Checkout_App
begin

text \<open>
  The composition of the checkout example runs: whatever parsers and version oracle \<open>semver\<close> provides,
  as long as they accept the literals of the example, it resolves with the selected payment provider
  in a known order, and every plugin initializes and starts. The lemmas give the resulting state.
\<close>

section \<open>The descriptors\<close>

definition example_source :: "str \<Rightarrow> plugin_source" where
  "example_source package = \<lparr>src_package = text_of package, src_repository =
     Some (text_of ''https://github.com/SylphxAI/kernox/tree/main/examples/checkout-app'')\<rparr>"

definition service_descriptor :: "'v \<Rightarrow> 'q \<Rightarrow> ('v, 'q) plugin_descriptor" where
  "service_descriptor v q =
     offering CHECKOUT_PLUGIN_ID (example_source ''kernox-example-checkout-service'') CHECKOUT_CAPABILITY_ID v
       [(CapabilityId INVENTORY_CAPABILITY_ID, exactly_one (CapabilityId INVENTORY_CAPABILITY_ID) q),
        (CapabilityId PAYMENT_CAPABILITY_ID, exactly_one (CapabilityId PAYMENT_CAPABILITY_ID) q)]"

definition inventory_descriptor :: "'v \<Rightarrow> ('v, 'q) plugin_descriptor" where
  "inventory_descriptor v =
     offering INVENTORY_PLUGIN_ID (example_source ''kernox-example-checkout-inventory'') INVENTORY_CAPABILITY_ID v []"

fun provider_id :: "payment_provider \<Rightarrow> str" where
  "provider_id Card = CARD_PLUGIN_ID"
| "provider_id Wallet = WALLET_PLUGIN_ID"

fun provider_package :: "payment_provider \<Rightarrow> str" where
  "provider_package Card = ''kernox-example-checkout-card''"
| "provider_package Wallet = ''kernox-example-checkout-wallet''"

definition payment_descriptor :: "'v \<Rightarrow> payment_provider \<Rightarrow> ('v, 'q) plugin_descriptor" where
  "payment_descriptor v provider =
     offering (provider_id provider) (example_source (provider_package provider)) PAYMENT_CAPABILITY_ID v []"

lemma example_ids:
  "plugin_id_new CHECKOUT_PLUGIN_ID = Inr (PluginId CHECKOUT_PLUGIN_ID)"
  "plugin_id_new INVENTORY_PLUGIN_ID = Inr (PluginId INVENTORY_PLUGIN_ID)"
  "plugin_id_new CARD_PLUGIN_ID = Inr (PluginId CARD_PLUGIN_ID)"
  "plugin_id_new WALLET_PLUGIN_ID = Inr (PluginId WALLET_PLUGIN_ID)"
  "capability_id_new CHECKOUT_CAPABILITY_ID = Inr (CapabilityId CHECKOUT_CAPABILITY_ID)"
  "capability_id_new INVENTORY_CAPABILITY_ID = Inr (CapabilityId INVENTORY_CAPABILITY_ID)"
  "capability_id_new PAYMENT_CAPABILITY_ID = Inr (CapabilityId PAYMENT_CAPABILITY_ID)"
  by code_simp+

lemma example_ids_distinct:
  "INVENTORY_PLUGIN_ID \<noteq> CHECKOUT_PLUGIN_ID" "CARD_PLUGIN_ID \<noteq> CHECKOUT_PLUGIN_ID"
  "WALLET_PLUGIN_ID \<noteq> CHECKOUT_PLUGIN_ID" "CARD_PLUGIN_ID \<noteq> INVENTORY_PLUGIN_ID"
  "WALLET_PLUGIN_ID \<noteq> INVENTORY_PLUGIN_ID" "CARD_PLUGIN_ID \<noteq> WALLET_PLUGIN_ID"
  "INVENTORY_CAPABILITY_ID \<noteq> PAYMENT_CAPABILITY_ID"
  by code_simp+

lemma example_capabilities_ordered:
  "CapabilityId INVENTORY_CAPABILITY_ID < CapabilityId PAYMENT_CAPABILITY_ID"
  "\<not> CapabilityId PAYMENT_CAPABILITY_ID < CapabilityId INVENTORY_CAPABILITY_ID"
  by code_simp+

lemmas example_ids_neq = example_capabilities_ordered example_ids_distinct example_ids_distinct [symmetric]

lemma example_sources:
  "checkout_source ''kernox-example-checkout-inventory'' = Inr (example_source ''kernox-example-checkout-inventory'')"
  "checkout_source ''kernox-example-checkout-service'' = Inr (example_source ''kernox-example-checkout-service'')"
  "checkout_source ''kernox-example-checkout-card'' = Inr (example_source ''kernox-example-checkout-card'')"
  "checkout_source ''kernox-example-checkout-wallet'' = Inr (example_source ''kernox-example-checkout-wallet'')"
  by (simp_all add: checkout_source_def plugin_source_new_def validate_source_field_def text_of_def trim_def
     is_whitespace_def is_control_def text_len_def utf8_width_def MAX_SOURCE_PACKAGE_LENGTH_def
     MAX_SOURCE_REPOSITORY_LENGTH_def example_source_def result_simps map_err_def)

lemmas plugin_constructors =
  checkout_plugin_new_def inventory_plugin_new_def payment_plugin_new_def checkout_plugin_id_of_def
  checkout_capability_id_def checkout_version_def CHECKOUT_CONTRACT_VERSION_def map_err_def
  provide_def require_capability_def sourced_from_def descriptor_new_def offering_def exactly_one_def

lemma plugins_new:
  assumes "accepts_literals env v q"
  shows "checkout_plugin_new env = Inr (CheckoutPlugin (service_descriptor v q))"
    and "inventory_plugin_new env = Inr (InventoryPlugin (inventory_descriptor v))"
    and "payment_plugin_new env Card = Inr (PaymentPlugin (payment_descriptor v Card) Card)"
    and "payment_plugin_new env Wallet = Inr (PaymentPlugin (payment_descriptor v Wallet) Wallet)"
  using assms
  by (simp_all add: accepts_literals_def plugin_constructors example_ids example_sources example_ids_neq
      service_descriptor_def inventory_descriptor_def payment_descriptor_def)

section \<open>The composition\<close>

definition example_plugins :: "'v \<Rightarrow> 'q \<Rightarrow> ('v, 'q) checkout_plugin list" where
  "example_plugins v q = [CheckoutPlugin (service_descriptor v q), InventoryPlugin (inventory_descriptor v),
     PaymentPlugin (payment_descriptor v Card) Card, PaymentPlugin (payment_descriptor v Wallet) Wallet]"

definition example_bindings :: "payment_provider \<Rightarrow> binding list" where
  "example_bindings provider = [\<lparr>bind_consumer = PluginId CHECKOUT_PLUGIN_ID,
     bind_capability = CapabilityId PAYMENT_CAPABILITY_ID, bind_provider = PluginId (provider_id provider)\<rparr>]"

lemma checkout_builder_example:
  assumes "accepts_literals env v q"
  shows "checkout_builder env provider = Inr (plain_builder (example_plugins v q) (example_bindings provider))"
  by (cases provider)
    (simp_all add: checkout_builder_def payment_provider_plugin_id_def checkout_plugin_id_of_def
      checkout_capability_id_def map_err_def example_ids plugins_new [OF assms] plain_builder_def
      example_plugins_def example_bindings_def
      builder_binding_def builder_plugin_def app_builder_new_def)

fun example_order :: "payment_provider \<Rightarrow> plugin_id list" where
  "example_order Card = [PluginId CARD_PLUGIN_ID, PluginId INVENTORY_PLUGIN_ID, PluginId CHECKOUT_PLUGIN_ID,
     PluginId WALLET_PLUGIN_ID]"
| "example_order Wallet = [PluginId CARD_PLUGIN_ID, PluginId INVENTORY_PLUGIN_ID, PluginId WALLET_PLUGIN_ID,
     PluginId CHECKOUT_PLUGIN_ID]"

definition example_requirements :: "payment_provider \<Rightarrow> resolved_requirement list" where
  "example_requirements provider = [selected CHECKOUT_PLUGIN_ID INVENTORY_CAPABILITY_ID INVENTORY_PLUGIN_ID,
     selected CHECKOUT_PLUGIN_ID PAYMENT_CAPABILITY_ID (provider_id provider)]"

lemma example_resolves:
  "map_sum (\<lambda>_. ()) (\<lambda>g. (rg_startup_order g, rg_requirements g))
     (resolve (\<lambda>_ _. True) (plain_spec checkout_descriptor (example_plugins v q) (example_bindings provider))) =
   Inr (example_order provider, example_requirements provider)"
  by (cases provider; simp only:; code_simp)

lemmas example_descriptors = service_descriptor_def inventory_descriptor_def payment_descriptor_def offering_def

lemma example_wf:
  "\<forall>d \<in> set (spec_plugins (plain_spec checkout_descriptor (example_plugins v q) bs)). descriptor_wf d"
  by (auto simp: plain_spec_def example_plugins_def descriptor_wf_def example_descriptors exactly_one_def
      bm_wf_Cons example_ids_neq)

definition example_app ::
  "'v \<Rightarrow> 'q \<Rightarrow> payment_provider \<Rightarrow> (('v, 'q) checkout_plugin, checkout_world, 'v, 'q) resolved_app \<Rightarrow> bool" where
  "example_app v q provider app \<longleftrightarrow> composed_as checkout_descriptor (example_plugins v q)
     (example_order provider) (example_requirements provider) app"

lemma checkout_composes:
  assumes lit: "accepts_literals env v q"
  obtains app where "checkout_compose env provider scopes = (Inr app, snd (application scopes))"
    and "app_resolve (ex_matches env) (checkout_interface env)
      (plain_builder (example_plugins v q) (example_bindings provider)) scopes = (Inr app, snd (application scopes))"
    and "example_app v q provider app"
proof (rule compose_plain [OF _ _ example_wf _ _ example_resolves])
  show "pi_descriptor (checkout_interface env) = checkout_descriptor"
    "pi_host_requirements (checkout_interface env) = (\<lambda>_. [])"
    by (simp_all add: checkout_interface_def)
  show "distinct (map (\<lambda>p. pd_id (checkout_descriptor p)) (example_plugins v q))"
    by (simp add: example_plugins_def example_descriptors example_ids_neq)
  show "same_matches (ex_matches env) (\<lambda>_ _. True) (map checkout_descriptor (example_plugins v q))"
    using lit by (auto simp: same_matches_def accepts_literals_def example_plugins_def requires_def
        example_descriptors offers_match_def offer_def exactly_one_def)
next
  fix app assume run: "app_resolve (ex_matches env) (checkout_interface env)
      (plain_builder (example_plugins v q) (example_bindings provider)) scopes = (Inr app, snd (application scopes))"
    and "composed_as checkout_descriptor (example_plugins v q) (example_order provider) (example_requirements provider) app"
  moreover from run have "checkout_compose env provider scopes = (Inr app, snd (application scopes))"
    by (simp add: checkout_compose_def checkout_builder_example [OF lit])
  ultimately show thesis using that by (simp add: example_app_def)
qed

section \<open>Starting\<close>

lemma selected_requirements:
  assumes "rg_requirements g = example_requirements provider"
  shows "requirement g (PluginId CHECKOUT_PLUGIN_ID) (CapabilityId INVENTORY_CAPABILITY_ID) =
      Some (selected CHECKOUT_PLUGIN_ID INVENTORY_CAPABILITY_ID INVENTORY_PLUGIN_ID)"
    and "requirement g (PluginId CHECKOUT_PLUGIN_ID) (CapabilityId PAYMENT_CAPABILITY_ID) =
      Some (selected CHECKOUT_PLUGIN_ID PAYMENT_CAPABILITY_ID (provider_id provider))"
  unfolding requirement_def assms by (cases provider; simp only:; code_simp)+

definition checkout_runtime ::
  "('v, 'q) checkout_env \<Rightarrow> (checkout_world \<Rightarrow> nat)
     \<Rightarrow> (('v, 'q) checkout_plugin, checkout_world, 'v, 'q) resolved_app
     \<Rightarrow> (('v, 'q) checkout_plugin, checkout_world, 'v, 'q, checkout_handle) runtime_env" where
  "checkout_runtime env now app = app_env (checkout_interface env) now (ex_provision_display env) app"

lemma checkout_runtime_fields:
  "env_interface (checkout_runtime env now app) = checkout_interface env"
  "env_graph (checkout_runtime env now app) = ra_graph app"
  "env_observer (checkout_runtime env now app) = ra_observer app"
  "env_scope (checkout_runtime env now app) = ra_scope app"
  by (simp_all add: checkout_runtime_def app_env_def)

lemma example_appD:
  assumes "example_app v q provider app"
  shows "rg_startup_order (ra_graph app) = example_order provider"
    and "rg_requirements (ra_graph app) = example_requirements provider"
    and "graph_plugin (ra_graph app) (PluginId CHECKOUT_PLUGIN_ID) = Some (service_descriptor v q)"
    and "graph_plugin (ra_graph app) (PluginId INVENTORY_PLUGIN_ID) = Some (inventory_descriptor v)"
    and "graph_plugin (ra_graph app) (PluginId (provider_id p)) = Some (payment_descriptor v p)"
    and "bm_get (ra_plugins app) (PluginId CHECKOUT_PLUGIN_ID) = Some (CheckoutPlugin (service_descriptor v q))"
    and "bm_get (ra_plugins app) (PluginId INVENTORY_PLUGIN_ID) = Some (InventoryPlugin (inventory_descriptor v))"
    and "bm_get (ra_plugins app) (PluginId (provider_id p)) = Some (PaymentPlugin (payment_descriptor v p) p)"
    and "bm_wf (ra_plugins app)" and "ra_observer app = default_sink"
  using assms
  by (cases p; simp add: example_app_def composed_as_def example_plugins_def example_descriptors)+

definition stocked :: "utext btree_set" where
  "stocked = bs_of [text_of ''kernox-book'', text_of ''kernox-sticker'']"

definition inventory_entry where
  "inventory_entry env v a = provision_of v (inventory_type (ce_markers env)) INVENTORY_CAPABILITY_ID
     (InventoryHandle (MemoryInventory a))"

definition payment_entry where
  "payment_entry env v p = provision_of v (payment_type (ce_markers env)) PAYMENT_CAPABILITY_ID
     (PaymentHandle (gateway_of p))"

definition service_entry where
  "service_entry env v a p = provision_of v (checkout_type (ce_markers env)) CHECKOUT_CAPABILITY_ID
     (CheckoutHandle \<lparr>cs_inventory = MemoryInventory a, cs_payment = gateway_of p\<rparr>)"

lemma initialize_inventory:
  assumes lit: "accepts_literals env v q" and app: "example_app v q provider app"
    and st: "st_plugins st = ra_plugins app"
  shows "\<exists>t. initialize_one (checkout_runtime env now app) (PluginId INVENTORY_PLUGIN_ID) initialized st =
    (Inr (), st\<lparr>st_world := (st_world st)\<lparr>cw_inventories := cw_inventories (st_world st) @ [stocked]\<rparr>,
      st_registry := bm_insert (PluginId INVENTORY_PLUGIN_ID, CapabilityId INVENTORY_CAPABILITY_ID)
        (inventory_entry env v (length (cw_inventories (st_world st)))) (st_registry st), st_trace := t\<rparr>)"
proof (rule initialize_kept)
  note facts = example_appD [OF app] checkout_runtime_fields st
  show "env_observer (checkout_runtime env now app) = default_sink" "bm_wf (st_plugins st)"
    "bm_get (st_plugins st) (PluginId INVENTORY_PLUGIN_ID) = Some (InventoryPlugin (inventory_descriptor v))"
    "graph_plugin (env_graph (checkout_runtime env now app)) (PluginId INVENTORY_PLUGIN_ID) = Some (inventory_descriptor v)"
    by (simp_all add: facts)
  show "run_plugin_hook (pi_initialize (env_interface (checkout_runtime env now app))
      (initialize_context (checkout_runtime env now app) (PluginId INVENTORY_PLUGIN_ID) st)
      (st_scopes st, env_scope (checkout_runtime env now app))) (InventoryPlugin (inventory_descriptor v), st_world st) =
    (Inr [(CapabilityId INVENTORY_CAPABILITY_ID, inventory_entry env v (length (cw_inventories (st_world st))))],
     (InventoryPlugin (inventory_descriptor v),
      (st_world st)\<lparr>cw_inventories := cw_inventories (st_world st) @ [stocked]\<rparr>))"
    by (simp add: checkout_runtime_fields checkout_interface_def run_plugin_hook_def inventory_initialize_def
        memory_inventory_new_def inventory_capability_def CHECKOUT_CONTRACT_VERSION_def stage_marker [OF lit example_ids(6)]
        inventory_entry_def stocked_def)
qed (simp add: inventory_entry_def inventory_descriptor_def commit_offering)

lemma initialize_payment:
  assumes lit: "accepts_literals env v q" and app: "example_app v q provider app"
    and st: "st_plugins st = ra_plugins app"
  shows "\<exists>t. initialize_one (checkout_runtime env now app) (PluginId (provider_id p)) initialized st =
    (Inr (), st\<lparr>st_world := st_world st,
      st_registry := bm_insert (PluginId (provider_id p), CapabilityId PAYMENT_CAPABILITY_ID)
        (payment_entry env v p) (st_registry st), st_trace := t\<rparr>)"
proof (rule initialize_kept)
  note facts = example_appD [OF app] checkout_runtime_fields st
  show "env_observer (checkout_runtime env now app) = default_sink" "bm_wf (st_plugins st)"
    "bm_get (st_plugins st) (PluginId (provider_id p)) = Some (PaymentPlugin (payment_descriptor v p) p)"
    "graph_plugin (env_graph (checkout_runtime env now app)) (PluginId (provider_id p)) = Some (payment_descriptor v p)"
    by (simp_all add: facts)
  show "run_plugin_hook (pi_initialize (env_interface (checkout_runtime env now app))
      (initialize_context (checkout_runtime env now app) (PluginId (provider_id p)) st)
      (st_scopes st, env_scope (checkout_runtime env now app))) (PaymentPlugin (payment_descriptor v p) p, st_world st) =
    (Inr [(CapabilityId PAYMENT_CAPABILITY_ID, payment_entry env v p)],
     (PaymentPlugin (payment_descriptor v p) p, st_world st))"
    by (simp add: checkout_runtime_fields checkout_interface_def run_plugin_hook_def payment_initialize_def
        payment_gateway_capability_def CHECKOUT_CONTRACT_VERSION_def stage_marker [OF lit example_ids(7)] payment_entry_def)
qed (simp add: payment_entry_def payment_descriptor_def commit_offering)

lemma initialize_service:
  assumes lit: "accepts_literals env v q" and app: "example_app v q provider app"
    and st: "st_plugins st = ra_plugins app"
    and inv: "bm_get (st_registry st) (PluginId INVENTORY_PLUGIN_ID, CapabilityId INVENTORY_CAPABILITY_ID) =
      Some (inventory_entry env v a)"
    and pay: "bm_get (st_registry st) (PluginId (provider_id provider), CapabilityId PAYMENT_CAPABILITY_ID) =
      Some (payment_entry env v provider)"
  shows "\<exists>t. initialize_one (checkout_runtime env now app) (PluginId CHECKOUT_PLUGIN_ID) initialized st =
    (Inr (), st\<lparr>st_world := st_world st,
      st_registry := bm_insert (PluginId CHECKOUT_PLUGIN_ID, CapabilityId CHECKOUT_CAPABILITY_ID)
        (service_entry env v a provider) (st_registry st), st_trace := t\<rparr>)"
proof (rule initialize_kept)
  note facts = example_appD [OF app] checkout_runtime_fields st
  let ?ctx = "initialize_context (checkout_runtime env now app) (PluginId CHECKOUT_PLUGIN_ID) st"
  have ctx: "ctx_graph ?ctx = ra_graph app" "ctx_consumer ?ctx = PluginId CHECKOUT_PLUGIN_ID"
    "ctx_registry ?ctx = st_registry st"
    by (simp_all add: initialize_context_def checkout_runtime_fields)
  have "ctx_require (ex_parse_version env) (inventory_capability (ce_markers env)) ?ctx =
      Inr (InventoryHandle (MemoryInventory a))"
    unfolding inventory_capability_def CHECKOUT_CONTRACT_VERSION_def
    by (rule require_selected [OF lit example_ids(6)])
      (use inv in \<open>simp_all add: ctx inventory_entry_def selected_requirements(1) [OF example_appD(2) [OF app]]\<close>)
  moreover have "ctx_require (ex_parse_version env) (payment_gateway_capability (ce_markers env)) ?ctx =
      Inr (PaymentHandle (gateway_of provider))"
    unfolding payment_gateway_capability_def CHECKOUT_CONTRACT_VERSION_def
    by (rule require_selected [OF lit example_ids(7)])
      (use pay in \<open>simp_all add: ctx payment_entry_def selected_requirements(2) [OF example_appD(2) [OF app]]\<close>)
  ultimately show "run_plugin_hook (pi_initialize (env_interface (checkout_runtime env now app)) ?ctx
      (st_scopes st, env_scope (checkout_runtime env now app))) (CheckoutPlugin (service_descriptor v q), st_world st) =
    (Inr [(CapabilityId CHECKOUT_CAPABILITY_ID, service_entry env v a provider)],
     (CheckoutPlugin (service_descriptor v q), st_world st))"
    by (simp add: checkout_runtime_fields checkout_interface_def run_plugin_hook_def checkout_initialize_def
        unwinding_def build_service_def map_err_def checkout_capability_def CHECKOUT_CONTRACT_VERSION_def stage_marker [OF lit example_ids(5)]
        service_entry_def)
  show "env_observer (checkout_runtime env now app) = default_sink" "bm_wf (st_plugins st)"
    "bm_get (st_plugins st) (PluginId CHECKOUT_PLUGIN_ID) = Some (CheckoutPlugin (service_descriptor v q))"
    "graph_plugin (env_graph (checkout_runtime env now app)) (PluginId CHECKOUT_PLUGIN_ID) = Some (service_descriptor v q)"
    by (simp_all add: facts)
qed (simp add: service_entry_def service_descriptor_def commit_offering)

definition with_inventory :: "checkout_world \<Rightarrow> checkout_world" where
  "with_inventory w = w\<lparr>cw_inventories := cw_inventories w @ [stocked]\<rparr>"

definition started_registry ::
  "('v, 'q) checkout_env \<Rightarrow> 'v \<Rightarrow> nat \<Rightarrow> payment_provider \<Rightarrow> ('v, checkout_handle) registry \<Rightarrow> bool" where
  "started_registry env v a provider reg \<longleftrightarrow> bm_wf reg \<and>
     bm_get reg (PluginId CHECKOUT_PLUGIN_ID, CapabilityId CHECKOUT_CAPABILITY_ID) =
       Some (service_entry env v a provider)"

lemma initialize_all_example:
  assumes lit: "accepts_literals env v q" and app: "example_app v q provider app"
    and st: "st_plugins st = ra_plugins app" and reg: "st_registry st = []"
  shows "\<exists>t reg. initialize_all (checkout_runtime env now app) (example_order provider) st =
      (Inr (example_order provider), st\<lparr>st_world := with_inventory (st_world st), st_registry := reg, st_trace := t\<rparr>) \<and>
    started_registry env v (length (cw_inventories (st_world st))) provider reg"
proof -
  let ?rt = "checkout_runtime env now app" and ?a = "length (cw_inventories (st_world st))"
  let ?card = "(PluginId CARD_PLUGIN_ID, CapabilityId PAYMENT_CAPABILITY_ID)"
    and ?wallet = "(PluginId WALLET_PLUGIN_ID, CapabilityId PAYMENT_CAPABILITY_ID)"
    and ?inv = "(PluginId INVENTORY_PLUGIN_ID, CapabilityId INVENTORY_CAPABILITY_ID)"
    and ?svc = "(PluginId CHECKOUT_PLUGIN_ID, CapabilityId CHECKOUT_CAPABILITY_ID)"
  define r1 where "r1 = bm_insert ?card (payment_entry env v Card) []"
  define r2 where "r2 = bm_insert ?inv (inventory_entry env v ?a) r1"
  obtain t1 where 1: "initialize_one ?rt (PluginId CARD_PLUGIN_ID) [] st =
      (Inr (), st\<lparr>st_registry := r1, st_trace := t1\<rparr>)"
    using initialize_payment [OF lit app st, where now = now and p = Card and initialized = "[]"] by (auto simp: reg r1_def)
  let ?st1 = "st\<lparr>st_registry := r1, st_trace := t1\<rparr>"
  obtain t2 where 2: "initialize_one ?rt (PluginId INVENTORY_PLUGIN_ID) [PluginId CARD_PLUGIN_ID] ?st1 =
      (Inr (), st\<lparr>st_world := with_inventory (st_world st), st_registry := r2, st_trace := t2\<rparr>)"
    using initialize_inventory [OF lit app, where st = ?st1 and now = now and initialized = "[PluginId CARD_PLUGIN_ID]"]
    by (auto simp: st r2_def with_inventory_def)
  let ?st2 = "\<lambda>r t. st\<lparr>st_world := with_inventory (st_world st), st_registry := r, st_trace := t\<rparr>"
  have r2: "bm_wf r2" "bm_get r2 ?card = Some (payment_entry env v Card)" "bm_get r2 ?inv = Some (inventory_entry env v ?a)"
    by (simp_all add: r2_def r1_def bm_wf_insert bm_get_insert example_ids_neq del: bm_insert.simps)
  show ?thesis
  proof (cases provider)
    case Card
    define r3 where "r3 = bm_insert ?svc (service_entry env v ?a Card) r2"
    define r4 where "r4 = bm_insert ?wallet (payment_entry env v Wallet) r3"
    obtain t3 where 3: "initialize_one ?rt (PluginId CHECKOUT_PLUGIN_ID) [PluginId CARD_PLUGIN_ID, PluginId INVENTORY_PLUGIN_ID]
        (?st2 r2 t2) = (Inr (), ?st2 r3 t3)"
      using initialize_service [OF lit app, where st = "?st2 r2 t2" and a = ?a and now = now and initialized =
        "[PluginId CARD_PLUGIN_ID, PluginId INVENTORY_PLUGIN_ID]"]
      by (auto simp: st Card r2 r3_def)
    obtain t4 where 4: "initialize_one ?rt (PluginId WALLET_PLUGIN_ID)
        [PluginId CARD_PLUGIN_ID, PluginId INVENTORY_PLUGIN_ID, PluginId CHECKOUT_PLUGIN_ID]
        (?st2 r3 t3) = (Inr (), ?st2 r4 t4)"
      using initialize_payment [OF lit app, where st = "?st2 r3 t3" and now = now and p = Wallet and initialized =
        "[PluginId CARD_PLUGIN_ID, PluginId INVENTORY_PLUGIN_ID, PluginId CHECKOUT_PLUGIN_ID]"]
      by (auto simp: st r4_def)
    have "started_registry env v ?a Card r4"
      using r2(1) by (simp add: started_registry_def r4_def r3_def bm_wf_insert bm_get_insert example_ids_neq)
    then show ?thesis by (auto simp: Card initialize_all_def bind_action_def 1 2 3 4)
  next
    case Wallet
    define r3 where "r3 = bm_insert ?wallet (payment_entry env v Wallet) r2"
    define r4 where "r4 = bm_insert ?svc (service_entry env v ?a Wallet) r3"
    obtain t3 where 3: "initialize_one ?rt (PluginId WALLET_PLUGIN_ID) [PluginId CARD_PLUGIN_ID, PluginId INVENTORY_PLUGIN_ID]
        (?st2 r2 t2) = (Inr (), ?st2 r3 t3)"
      using initialize_payment [OF lit app, where st = "?st2 r2 t2" and now = now and p = Wallet and initialized =
        "[PluginId CARD_PLUGIN_ID, PluginId INVENTORY_PLUGIN_ID]"]
      by (auto simp: st r3_def)
    have r3: "bm_wf r3" "bm_get r3 ?wallet = Some (payment_entry env v Wallet)" "bm_get r3 ?inv = Some (inventory_entry env v ?a)"
      using r2 by (simp_all add: r3_def bm_wf_insert bm_get_insert example_ids_neq)
    obtain t4 where 4: "initialize_one ?rt (PluginId CHECKOUT_PLUGIN_ID)
        [PluginId CARD_PLUGIN_ID, PluginId INVENTORY_PLUGIN_ID, PluginId WALLET_PLUGIN_ID]
        (?st2 r3 t3) = (Inr (), ?st2 r4 t4)"
      using initialize_service [OF lit app, where st = "?st2 r3 t3" and a = ?a and now = now and initialized =
        "[PluginId CARD_PLUGIN_ID, PluginId INVENTORY_PLUGIN_ID, PluginId WALLET_PLUGIN_ID]"]
      by (auto simp: st Wallet r3 r4_def)
    have "started_registry env v ?a Wallet r4"
      using r3(1) by (simp add: started_registry_def r4_def bm_wf_insert bm_get_insert)
    then show ?thesis by (auto simp: Wallet initialize_all_def bind_action_def 1 2 3 4)
  qed
qed

lemma checkout_quiet: "example_app v q provider app \<Longrightarrow> quiet_env (checkout_runtime env now app)"
  by (simp add: quiet_env_def checkout_runtime_fields example_appD checkout_interface_def)

lemma checkout_starts:
  assumes lit: "accepts_literals env v q" and app: "example_app v q provider app"
    and st: "st_plugins st = ra_plugins app"
  obtains reg t where "start (checkout_runtime env now app) st = (Inr (),
      st\<lparr>st_world := with_inventory (st_world st), st_registry := reg, st_terminal := None, st_trace := t\<rparr>)"
    and "started_registry env v (length (cw_inventories (st_world st))) provider reg"
proof -
  let ?rt = "checkout_runtime env now app"
  have order: "rg_startup_order (env_graph ?rt) = example_order provider"
    by (simp add: checkout_runtime_fields example_appD(1) [OF app])
  obtain t reg where init: "initialize_all ?rt (example_order provider) (st\<lparr>st_registry := []\<rparr>) =
      (Inr (example_order provider), st\<lparr>st_world := with_inventory (st_world st), st_registry := reg, st_trace := t\<rparr>)"
    and reg: "started_registry env v (length (cw_inventories (st_world st))) provider reg"
    using initialize_all_example [OF lit app, where st = "st\<lparr>st_registry := []\<rparr>" and now = now] by (auto simp: st)
  have "set (example_order provider) \<subseteq> set (bm_keys (st_plugins st))"
    unfolding st using app [unfolded example_app_def]
    by (rule composed_keys) (cases provider; simp add: example_plugins_def example_descriptors)
  with start_initialized [OF checkout_quiet [OF app], of st env now, unfolded order, OF _ _ init] example_appD(9) [OF app]
  show thesis using that reg st by auto
qed

end
