(* ===== verification/Checkout_Properties.thy ===== *)
theory Checkout_Properties
  imports Checkout_Run
begin

text \<open>
  What the checkout example promises: its binary sells one book through the selected provider and shuts
  down cleanly, and an inventory sells every stocked unit once, over any sequence of purchases.
\<close>

section \<open>The binary\<close>

definition checkout_outcome :: "utext + payment_provider
     \<Rightarrow> ('v, 'q) checkout_main_error fault + utext \<times> (('v, 'q) checkout_main_error + unit)" where
  "checkout_outcome selection =
     (case selection of
        Inl value \<Rightarrow> Inl (Err (UnknownProvider value))
      | Inr provider \<Rightarrow>
          Inr (text_of (''provider='' @ payment_provider_name provider @ '' purchased kernox-book for 1999 cents''), Inr ()))"

lemma gateway_of_name: "gateway_name (gateway_of provider) = payment_provider_name provider"
  by (cases provider) (simp_all add: gateway_of_def)

lemma book_stocked: "text_of ''kernox-book'' \<in> set stocked"
  by (simp add: stocked_def)

lemma checkout_run_sells:
  assumes lit: "accepts_literals env v q" and app: "example_app v q provider app"
    and ok: "app_ok (checkout_runtime env now app) st" and st: "st_plugins st = ra_plugins app"
    and up: "state_of (st_scopes st) (ra_scope app) = Open"
  shows "fst (checkout_run env (checkout_runtime env now app) st) = checkout_outcome (Inr provider)"
proof -
  let ?rt = "checkout_runtime env now app" and ?a = "length (cw_inventories (st_world st))"
  let ?service = "\<lparr>cs_inventory = MemoryInventory ?a, cs_payment = gateway_of provider\<rparr>"
  obtain reg t where start: "start ?rt st = (Inr (),
      st\<lparr>st_world := with_inventory (st_world st), st_registry := reg, st_terminal := None, st_trace := t\<rparr>)"
      (is "_ = (_, ?st1)")
    and reg: "started_registry env v ?a provider reg"
    using checkout_starts [OF lit app st] by blast
  have "root_capability (ex_parse_version env) (checkout_capability (ce_markers env)) reg (PluginId CHECKOUT_PLUGIN_ID) =
      Inr (CheckoutHandle ?service)"
    unfolding checkout_capability_def CHECKOUT_CONTRACT_VERSION_def
    by (rule registry_get_provision [OF lit example_ids(5)])
      (use reg in \<open>simp add: started_registry_def service_entry_def\<close>)
  then have cap: "capability_from (ex_parse_version env) ?rt (checkout_capability (ce_markers env))
      (PluginId CHECKOUT_PLUGIN_ID) ?st1 = Inr (CheckoutHandle ?service)"
    by (simp add: capability_from_def is_closing_def checkout_runtime_fields up)
  obtain w where buy: "purchase ?service (text_of ''kernox-book'') 1999 (with_inventory (st_world st)) =
      (Inr \<lparr>rc_sku = text_of ''kernox-book'', rc_cents = 1999, rc_provider = payment_provider_name provider\<rparr>, w)"
    using book_stocked
    by (cases provider)
      (auto simp: purchase_def with_inventory_def Let_def bs_contains_def gateway_of_def)
  let ?st2 = "st\<lparr>st_registry := reg, st_terminal := None, st_trace := t, st_world := w\<rparr>"
  have "app_ok ?rt ?st2" using ok by (simp add: app_ok_def)
  then obtain st3 where down: "shutdown ?rt ?st2 =
      (Inr \<lparr>sr_failures = []\<rparr> :: ('a, 'b) checkout_main_error fault + shutdown_report, st3)"
    using shutdown_quiet [OF _ checkout_quiet [OF app]] example_appD(9) [OF app] st by fastforce
  have "unat (1999 :: 64 word) = 1999" by simp
  then have line: "receipt_line \<lparr>rc_sku = text_of ''kernox-book'', rc_cents = 1999,
      rc_provider = payment_provider_name provider\<rparr> =
    text_of (''provider='' @ payment_provider_name provider @ '' purchased kernox-book for 1999 cents'')"
    by (simp add: receipt_line_def text_of_def decimal.simps)
  show ?thesis
    unfolding checkout_run_def
    by (simp add: bind_action_def start lift_err_def checkout_plugin_id_def example_ids map_err_def cap buy
        down is_clean_def line checkout_outcome_def)
qed

text \<open>C37: the checkout binary, whatever \<open>semver\<close> is as long as it reads the literals of the example: for no
  argument, \<open>card\<close> or \<open>wallet\<close> it composes and starts the application, sells one book through the
  selected payment provider, prints the receipt and exits cleanly; any other argument is refused.\<close>

theorem checkout_main_sells:
  assumes "accepts_literals env v q" and "wf_scopes scopes" and "room (next_scope_namespace scopes)"
  shows "checkout_main env now args scopes w = checkout_outcome (select_provider args)"
proof (cases "select_provider args")
  case (Inl argument)
  then show ?thesis by (simp add: checkout_main_def checkout_outcome_def map_err_def)
next
  case (Inr provider)
  obtain app where compose: "checkout_compose env provider scopes = (Inr app, snd (application scopes))"
    and run: "app_resolve (ex_matches env) (checkout_interface env) (plain_builder (example_plugins v q) (example_bindings provider)) scopes =
      (Inr app, snd (application scopes))"
    and app: "example_app v q provider app"
    by (rule checkout_composes [OF assms(1)])
  have wf: "\<forall>p \<in> set (ab_plugins (plain_builder (example_plugins v q) (example_bindings provider))).
      descriptor_wf (pi_descriptor (checkout_interface env) p)"
    using example_wf [of v q "example_bindings provider"] by (auto simp: plain_spec_def plain_builder_def checkout_interface_def)
  let ?st = "app_state_of app (snd (application scopes)) w"
  have "app_ok (checkout_runtime env now app) ?st"
    unfolding checkout_runtime_def by (rule app_resolve_ok(1) [OF assms(2,3) wf run])
  moreover have "state_of (st_scopes ?st) (ra_scope app) = Open"
    using app_resolve_ok(2) [OF assms(2,3) wf run] by (simp add: app_state_of_def)
  moreover have "st_plugins ?st = ra_plugins app" by (simp add: app_state_of_def)
  ultimately have "fst (checkout_run env (checkout_runtime env now app) ?st) = checkout_outcome (Inr provider)"
    by (intro checkout_run_sells [OF assms(1) app])
  then show ?thesis
    by (simp add: checkout_main_def Inr compose lift_err_def checkout_runtime_def map_err_def)
qed

definition literal_env :: "(str, str) checkout_env" where
  \<comment> \<open>versions and requirements kept as text, and a requirement that \<open>1.0.0\<close> meets\<close>
  "literal_env = \<lparr>ex_parse_version = Inr, ex_parse_req = Inr,
     ex_matches = (\<lambda>req version. req = ''^1.0'' \<and> version = ''1.0.0''),
     ex_provision_display = (\<lambda>_. []), ex_access_display = (\<lambda>_. []),
     ce_markers = \<lparr>inventory_type = \<lparr>mt_marker = 1, mt_name = ''InventoryCapability'', mt_interface = 10\<rparr>,
       payment_type = \<lparr>mt_marker = 2, mt_name = ''PaymentGatewayCapability'', mt_interface = 20\<rparr>,
       checkout_type = \<lparr>mt_marker = 3, mt_name = ''CheckoutCapability'', mt_interface = 30\<rparr>\<rparr>\<rparr>"

lemma checkout_main_sells_witness:
  "checkout_main literal_env (\<lambda>_. 0) [text_of ''checkout'', text_of ''wallet''] initial_scopes
     \<lparr>cw_inventories = []\<rparr> =
   Inr (text_of ''provider=wallet purchased kernox-book for 1999 cents'', Inr ())"
proof -
  have lit: "accepts_literals literal_env ''1.0.0'' ''^1.0''" by (simp add: accepts_literals_def literal_env_def)
  have "select_provider [text_of ''checkout'', text_of ''wallet''] = Inr Wallet"
    by (simp add: select_provider_def text_of_def)
  then show ?thesis
    unfolding checkout_main_sells [OF lit initial_scopes_ok] by (simp add: checkout_outcome_def)
qed

section \<open>The inventory\<close>

fun purchase_all ::
  "checkout_service \<Rightarrow> (utext \<times> 64 word) list \<Rightarrow> checkout_world \<Rightarrow> (purchase_error + receipt) list \<times> checkout_world" where
  \<comment> \<open>a sequence of purchases by any clients of one service\<close>
  "purchase_all self [] w = ([], w)"
| "purchase_all self ((sku, cents) # requests) w =
     (let (r, w) = purchase self sku cents w; (rs, w) = purchase_all self requests w in (r # rs, w))"

definition stock :: "checkout_service \<Rightarrow> checkout_world \<Rightarrow> utext btree_set" where
  "stock self w = (case cs_inventory self of MemoryInventory a \<Rightarrow> cw_inventories w ! a)"

lemma purchase_stock:
  assumes "cs_inventory self = MemoryInventory a" and "a < length (cw_inventories w)"
  shows "\<exists>w'. purchase self sku cents w =
      (if sku \<in> set (stock self w)
       then Inr \<lparr>rc_sku = sku, rc_cents = cents, rc_provider = gateway_name (cs_payment self)\<rparr>
       else Inl (OutOfStock sku), w') \<and>
    set (stock self w') = set (stock self w) - {sku} \<and> length (cw_inventories w') = length (cw_inventories w)"
  using assms by (cases "cs_payment self") (auto simp: purchase_def stock_def Let_def bs_contains_def)

text \<open>Over any sequence of purchases at one service, each goes through exactly when its unit was in stock
  at the beginning and no earlier purchase asked for it, with a receipt for what was asked and the
  name of the payment provider; every other one is out of stock. Afterwards the stock is what nobody
  asked for.\<close>

lemma inventory_sells_once:
  assumes "cs_inventory self = MemoryInventory a" and "a < length (cw_inventories w)"
  shows "length (fst (purchase_all self requests w)) = length requests \<and>
    (\<forall>i < length requests. fst (purchase_all self requests w) ! i =
       (case requests ! i of (sku, cents) \<Rightarrow>
          if sku \<in> set (stock self w) - fst ` set (take i requests)
          then Inr \<lparr>rc_sku = sku, rc_cents = cents, rc_provider = gateway_name (cs_payment self)\<rparr>
          else Inl (OutOfStock sku))) \<and>
    set (stock self (snd (purchase_all self requests w))) = set (stock self w) - fst ` set requests"
  using assms(2)
proof (induction requests arbitrary: w)
  case (Cons request requests)
  obtain sku cents where request: "request = (sku, cents)" by (cases request)
  obtain w' where w': "purchase self sku cents w =
      (if sku \<in> set (stock self w)
       then Inr \<lparr>rc_sku = sku, rc_cents = cents, rc_provider = gateway_name (cs_payment self)\<rparr>
       else Inl (OutOfStock sku), w')"
    "set (stock self w') = set (stock self w) - {sku}" "length (cw_inventories w') = length (cw_inventories w)"
    using purchase_stock [OF assms(1) Cons.prems] by blast
  have run: "purchase_all self (request # requests) w =
      (fst (purchase self sku cents w) # fst (purchase_all self requests w'), snd (purchase_all self requests w'))"
    by (simp add: request w'(1) split: prod.split)
  note IH = Cons.IH [of w', unfolded w'(2,3), OF Cons.prems]
  show ?case
  proof (intro conjI allI impI)
    show "length (fst (purchase_all self (request # requests) w)) = length (request # requests)"
      using IH unfolding run by (simp del: purchase_all.simps)
    show "set (stock self (snd (purchase_all self (request # requests) w))) =
        set (stock self w) - fst ` set (request # requests)"
      using IH unfolding run by (auto simp: request simp del: purchase_all.simps)
    fix i assume i: "i < length (request # requests)"
    show "fst (purchase_all self (request # requests) w) ! i =
       (case (request # requests) ! i of (sku, cents) \<Rightarrow>
          if sku \<in> set (stock self w) - fst ` set (take i (request # requests))
          then Inr \<lparr>rc_sku = sku, rc_cents = cents, rc_provider = gateway_name (cs_payment self)\<rparr>
          else Inl (OutOfStock sku))"
    proof (cases i)
      case 0
      then show ?thesis unfolding run by (simp add: request w'(1))
    next
      case (Suc j)
      then show ?thesis using IH i unfolding run by (auto simp: request split: prod.split)
    qed
  qed
qed simp

lemma inventory_sells_once_witness:
  "fst (purchase_all \<lparr>cs_inventory = MemoryInventory 0, cs_payment = CardPayment\<rparr> [([1], 5), ([1], 5)]
     \<lparr>cw_inventories = [[[1], [2]]]\<rparr>) =
   [Inr \<lparr>rc_sku = [1], rc_cents = 5, rc_provider = ''card''\<rparr>, Inl (OutOfStock [1])]"
proof -
  let ?self = "\<lparr>cs_inventory = MemoryInventory 0, cs_payment = CardPayment\<rparr>"
    and ?w = "\<lparr>cw_inventories = [[[1], [2]]]\<rparr>" and ?requests = "[([1], 5), ([1], 5)] :: (utext \<times> 64 word) list"
  have "length (fst (purchase_all ?self ?requests ?w)) = 2"
    and "\<forall>i < 2. fst (purchase_all ?self ?requests ?w) ! i =
       (case ?requests ! i of (sku, cents) \<Rightarrow>
          if sku \<in> set (stock ?self ?w) - fst ` set (take i ?requests)
          then Inr \<lparr>rc_sku = sku, rc_cents = cents, rc_provider = gateway_name (cs_payment ?self)\<rparr>
          else Inl (OutOfStock sku))"
    using inventory_sells_once [of ?self 0 ?w ?requests] by (simp_all del: purchase_all.simps)
  then show ?thesis
    by (intro nth_equalityI) (auto simp: less_Suc_eq numeral_2_eq_2 stock_def simp del: purchase_all.simps)
qed

end
