(* ===== verification/Order_App.thy ===== *)
theory Order_App
  imports Example_Support Serverless
begin

text \<open>
  \<open>examples/order-app\<close>: the order domain, its three plugins, their composition, and the two binaries that
  run it, one as a long-lived process and one behind the serverless host.

  A \<open>MemoryOrderStore\<close> and the \<open>AtomicU64\<close> of a service are shared behind \<open>Arc\<close>s, so they live in the
  world, by their addresses; the world also has the system time. The parsers of \<open>semver\<close>, the type
  identities of the markers and generated texts are parameters, as in \<open>Example_Support\<close>.
\<close>

section \<open>The order domain\<close>

definition ORDER_VERSION :: str where "ORDER_VERSION = ''1.0.0''"
definition CLOCK_PLUGIN_ID :: str where "CLOCK_PLUGIN_ID = ''dev.kernox.examples.system-clock''"
definition STORE_PLUGIN_ID :: str where "STORE_PLUGIN_ID = ''dev.kernox.examples.order-store''"
definition SERVICE_PLUGIN_ID :: str where "SERVICE_PLUGIN_ID = ''dev.kernox.examples.order-service''"
definition CLOCK_CAPABILITY_ID :: str where "CLOCK_CAPABILITY_ID = ''dev.kernox.examples.clock''"
definition STORE_CAPABILITY_ID :: str where "STORE_CAPABILITY_ID = ''dev.kernox.examples.orders.store''"
definition SERVICE_CAPABILITY_ID :: str where "SERVICE_CAPABILITY_ID = ''dev.kernox.examples.orders.service''"

record order =
  or_id :: "64 word"
  or_sku :: utext
  or_created_at_millis :: nat

record order_world =
  ow_time :: int                                       \<comment> \<open>nanoseconds since the Unix epoch\<close>
  ow_stores :: "(64 word, order) btree_map list"
  ow_counters :: "64 word list"

datatype system_clock = SystemClock
datatype memory_order_store = MemoryOrderStore nat

fun now_millis :: "system_clock \<Rightarrow> order_world \<Rightarrow> nat" where
  "now_millis SystemClock w = (if ow_time w < 0 then 0 else nat (ow_time w div 1000000))"

fun save_order :: "memory_order_store \<Rightarrow> order \<Rightarrow> order_world \<Rightarrow> order_world" where
  "save_order (MemoryOrderStore a) order w =
     w\<lparr>ow_stores := (ow_stores w)[a := bm_insert (or_id order) order (ow_stores w ! a)]\<rparr>"

fun find_order :: "memory_order_store \<Rightarrow> 64 word \<Rightarrow> order_world \<Rightarrow> order option" where
  "find_order (MemoryOrderStore a) i w = bm_get (ow_stores w ! a) i"

definition memory_order_store_default :: "order_world \<Rightarrow> memory_order_store \<times> order_world" where
  "memory_order_store_default w =
     (MemoryOrderStore (length (ow_stores w)), w\<lparr>ow_stores := ow_stores w @ [[]]\<rparr>)"

record order_service =
  os_clock :: system_clock
  os_store :: memory_order_store
  os_next_id :: nat                                    \<comment> \<open>the address of the counter\<close>

definition create_order :: "order_service \<Rightarrow> utext \<Rightarrow> order_world \<Rightarrow> order \<times> order_world" where
  "create_order self sku w =
     (let i = ow_counters w ! os_next_id self;
          w = w\<lparr>ow_counters := (ow_counters w)[os_next_id self := i + 1]\<rparr>;
          order = \<lparr>or_id = i, or_sku = sku, or_created_at_millis = now_millis (os_clock self) w\<rparr>
      in (order, save_order (os_store self) order w))"

section \<open>The ports\<close>

datatype order_handle =
    ClockHandle system_clock
  | StoreHandle memory_order_store
  | ServiceHandle order_service

record order_markers =
  clock_type :: marker_type
  store_type :: marker_type
  service_type :: marker_type

definition clock_capability :: "order_markers \<Rightarrow> capability_marker" where
  "clock_capability ty = marker_of (clock_type ty) CLOCK_CAPABILITY_ID ORDER_VERSION"

definition order_store_capability :: "order_markers \<Rightarrow> capability_marker" where
  "order_store_capability ty = marker_of (store_type ty) STORE_CAPABILITY_ID ORDER_VERSION"

definition order_service_capability :: "order_markers \<Rightarrow> capability_marker" where
  "order_service_capability ty = marker_of (service_type ty) SERVICE_CAPABILITY_ID ORDER_VERSION"

section \<open>The plugins\<close>

datatype ('v, 'q) order_compose_error =
    OrderIdentifier identifier_error
  | OrderDescriptor descriptor_error
  | OrderVersion str
  | OrderResolve "('v, 'q) app_resolve_error"

record ('v, 'q) order_env = "('v, 'q) example_env" +
  oe_markers :: order_markers

definition order_plugin_id :: "str \<Rightarrow> ('v, 'q) order_compose_error + plugin_id" where
  "order_plugin_id value = map_err OrderIdentifier (plugin_id_new value)"

definition order_capability_id :: "str \<Rightarrow> ('v, 'q) order_compose_error + capability_id" where
  "order_capability_id value = map_err OrderIdentifier (capability_id_new value)"

definition order_version :: "('v, 'q) order_env \<Rightarrow> ('v, 'q) order_compose_error + 'v" where
  "order_version env = map_err OrderVersion (ex_parse_version env ORDER_VERSION)"

definition order_source :: "str \<Rightarrow> ('v, 'q) order_compose_error + plugin_source" where
  "order_source package =
     map_err OrderDescriptor (plugin_source_new (text_of package)
       (Some (text_of ''https://github.com/SylphxAI/kernox'')))"

definition order_access_failure :: "('v, 'q) order_env \<Rightarrow> access_error \<Rightarrow> plugin_error" where
  "order_access_failure env error =
     \<lparr>pe_tag = access_error_tag error, pe_message = ex_access_display env error\<rparr>"

datatype ('v, 'q) order_plugin =
    SystemClockPlugin "('v, 'q) plugin_descriptor"
  | OrderStorePlugin "('v, 'q) plugin_descriptor"
  | OrderServicePlugin "('v, 'q) plugin_descriptor"

fun order_descriptor :: "('v, 'q) order_plugin \<Rightarrow> ('v, 'q) plugin_descriptor" where
  "order_descriptor (SystemClockPlugin descriptor) = descriptor"
| "order_descriptor (OrderStorePlugin descriptor) = descriptor"
| "order_descriptor (OrderServicePlugin descriptor) = descriptor"

definition system_clock_plugin_new ::
  "('v, 'q) order_env \<Rightarrow> ('v, 'q) order_compose_error + ('v, 'q) order_plugin" where
  "system_clock_plugin_new env =
     and_then (order_plugin_id CLOCK_PLUGIN_ID) (\<lambda>plugin.
     and_then (order_version env) (\<lambda>version.
     and_then (order_source ''kernox-example-system-clock'') (\<lambda>source.
     and_then (order_capability_id CLOCK_CAPABILITY_ID) (\<lambda>capability.
     and_then (order_version env) (\<lambda>offered.
     and_then (map_err OrderDescriptor (provide \<lparr>offer_id = capability, offer_version = offered\<rparr>
       (sourced_from source (descriptor_new plugin version)))) (\<lambda>descriptor.
     Inr (SystemClockPlugin descriptor)))))))"

definition order_store_plugin_new ::
  "('v, 'q) order_env \<Rightarrow> ('v, 'q) order_compose_error + ('v, 'q) order_plugin" where
  "order_store_plugin_new env =
     and_then (order_plugin_id STORE_PLUGIN_ID) (\<lambda>plugin.
     and_then (order_version env) (\<lambda>version.
     and_then (order_source ''kernox-example-order-store'') (\<lambda>source.
     and_then (order_capability_id STORE_CAPABILITY_ID) (\<lambda>capability.
     and_then (order_version env) (\<lambda>offered.
     and_then (map_err OrderDescriptor (provide \<lparr>offer_id = capability, offer_version = offered\<rparr>
       (sourced_from source (descriptor_new plugin version)))) (\<lambda>descriptor.
     Inr (OrderStorePlugin descriptor)))))))"

definition order_service_plugin_new ::
  "('v, 'q) order_env \<Rightarrow> ('v, 'q) order_compose_error + ('v, 'q) order_plugin" where
  "order_service_plugin_new env =
     and_then (map_err OrderVersion (ex_parse_req env ''^1.0'')) (\<lambda>req.
     and_then (order_plugin_id SERVICE_PLUGIN_ID) (\<lambda>plugin.
     and_then (order_version env) (\<lambda>version.
     and_then (order_source ''kernox-example-order-service'') (\<lambda>source.
     and_then (order_capability_id SERVICE_CAPABILITY_ID) (\<lambda>capability.
     and_then (order_version env) (\<lambda>offered.
     and_then (map_err OrderDescriptor (provide \<lparr>offer_id = capability, offer_version = offered\<rparr>
       (sourced_from source (descriptor_new plugin version)))) (\<lambda>descriptor.
     and_then (order_capability_id CLOCK_CAPABILITY_ID) (\<lambda>clock.
     and_then (map_err OrderDescriptor (require_capability (exactly_one clock req) descriptor)) (\<lambda>descriptor.
     and_then (order_capability_id STORE_CAPABILITY_ID) (\<lambda>store.
     and_then (map_err OrderDescriptor (require_capability (exactly_one store req) descriptor)) (\<lambda>descriptor.
     Inr (OrderServicePlugin descriptor))))))))))))"

section \<open>Initialization\<close>

type_synonym ('v, 'q) order_state = "('v, 'q) order_plugin \<times> order_world"

definition system_clock_initialize ::
  "('v, 'q) order_env \<Rightarrow> (('v, 'q) order_state, ('v, order_handle) provision_set) hook" where
  "system_clock_initialize env = (\<lambda>s.
     (Some (\<lambda>s. (Some (stage env (clock_capability (oe_markers env)) (ClockHandle SystemClock)), s)), s))"

definition order_store_initialize ::
  "('v, 'q) order_env \<Rightarrow> (('v, 'q) order_state, ('v, order_handle) provision_set) hook" where
  "order_store_initialize env = (\<lambda>(self, w).
     let (store, w) = memory_order_store_default w
     in (Some (\<lambda>s. (Some (stage env (order_store_capability (oe_markers env)) (StoreHandle store)), s)), (self, w)))"

definition build_order_service ::
  "('v, 'q) order_env \<Rightarrow> access_error + order_handle \<Rightarrow> access_error + order_handle
     \<Rightarrow> (('v, 'q) order_state, ('v, order_handle) provision_set) future" where
  \<comment> \<open>the body of the future, which allocates the counter once both ports are there; a handle of
     another port cannot be there, which the type checker knows\<close>
  "build_order_service env clock store = (\<lambda>(self, w).
     case map_err (order_access_failure env) clock of
       Inl error \<Rightarrow> (Some (Inl error), (self, w))
     | Inr (ClockHandle clock) \<Rightarrow>
         (case map_err (order_access_failure env) store of
            Inl error \<Rightarrow> (Some (Inl error), (self, w))
          | Inr (StoreHandle store) \<Rightarrow>
              (Some (stage env (order_service_capability (oe_markers env))
                 (ServiceHandle \<lparr>os_clock = clock, os_store = store, os_next_id = length (ow_counters w)\<rparr>)),
               (self, w\<lparr>ow_counters := ow_counters w @ [1]\<rparr>))
          | Inr _ \<Rightarrow> (None, (self, w)))
     | Inr _ \<Rightarrow> (None, (self, w)))"

definition order_service_initialize ::
  "('v, 'q) order_env \<Rightarrow> ('v, 'q, order_handle) initialization_context
     \<Rightarrow> (('v, 'q) order_state, ('v, order_handle) provision_set) hook" where
  "order_service_initialize env ctx = (\<lambda>s.
     case unwinding (ctx_require (ex_parse_version env) (clock_capability (oe_markers env)) ctx) of
       None \<Rightarrow> (None, s)
     | Some clock \<Rightarrow>
         (case unwinding (ctx_require (ex_parse_version env) (order_store_capability (oe_markers env)) ctx) of
            None \<Rightarrow> (None, s)
          | Some store \<Rightarrow> (Some (build_order_service env clock store), s)))"

definition order_interface ::
  "('v, 'q) order_env \<Rightarrow> (('v, 'q) order_plugin, order_world, 'v, 'q, order_handle) plugin_interface" where
  "order_interface env =
     \<lparr>pi_descriptor = order_descriptor, pi_host_requirements = (\<lambda>_. []),
      pi_initialize = (\<lambda>ctx view s. case fst s of
          SystemClockPlugin _ \<Rightarrow> system_clock_initialize env s
        | OrderStorePlugin _ \<Rightarrow> order_store_initialize env s
        | OrderServicePlugin _ \<Rightarrow> order_service_initialize env ctx s),
      pi_start = default_hook, pi_quiesce = default_hook, pi_stop = default_hook, pi_dispose = default_hook\<rparr>"

section \<open>Composition\<close>

definition order_builder ::
  "('v, 'q) order_env \<Rightarrow> ('v, 'q) order_compose_error + (('v, 'q) order_plugin, order_world, 'v, 'q) app_builder" where
  "order_builder env =
     and_then (order_service_plugin_new env) (\<lambda>service.
     and_then (order_store_plugin_new env) (\<lambda>store.
     and_then (system_clock_plugin_new env) (\<lambda>clock.
     Inr (fold builder_plugin [service, store, clock] app_builder_new))))"

definition order_compose ::
  "('v, 'q) order_env
     \<Rightarrow> (scope_store, ('v, 'q) order_compose_error fault, (('v, 'q) order_plugin, order_world, 'v, 'q) resolved_app) action" where
  "order_compose env scopes =
     (case order_builder env of
        Inl error \<Rightarrow> (Inl (Err error), scopes)
      | Inr builder \<Rightarrow>
          (case app_resolve (ex_matches env) (order_interface env) builder scopes of
             (Inl Panic, scopes) \<Rightarrow> (Inl Panic, scopes)
           | (Inl (Err error), scopes) \<Rightarrow> (Inl (Err (OrderResolve error)), scopes)
           | (Inr app, scopes) \<Rightarrow> (Inr app, scopes)))"

definition order_service_plugin_id :: "identifier_error + plugin_id" where
  "order_service_plugin_id = plugin_id_new SERVICE_PLUGIN_ID"

section \<open>The long-lived binary\<close>

datatype infallible = Infallible   \<comment> \<open>the type without values; no definition makes one\<close>

datatype ('v, 'q) order_main_error =
    OrderCompose "('v, 'q) order_compose_error"
  | OrderStart lifecycle_failure
  | OrderId identifier_error
  | OrderAccess access_error
  | OrderConfig serverless_config_error
  | OrderInvoke "infallible invocation_error"
  | OrderShutdown str

definition shutdown_result :: "shutdown_report \<Rightarrow> ('v, 'q) order_main_error + unit" where
  "shutdown_result r =
     (if is_clean r then Inr ()
      else Inl (OrderShutdown (''shutdown had '' @ decimal (length (sr_failures r)) @ '' failure(s)'')))"

definition order_start ::
  "(('v, 'q) order_plugin, order_world, 'v, 'q, order_handle) runtime_env
     \<Rightarrow> ((('v, 'q) order_plugin, order_world, 'v, order_handle) app_state, ('v, 'q) order_main_error fault, unit) action" where
  "order_start rt st = (let (r, st) = start rt st in (lift_err OrderStart r, st))"

type_synonym ('v, 'q) printed = "utext \<times> (('v, 'q) order_main_error + unit)"
  \<comment> \<open>the line a binary prints and the result it then returns\<close>

definition long_lived_run ::
  "('v, 'q) order_env \<Rightarrow> (('v, 'q) order_plugin, order_world, 'v, 'q, order_handle) runtime_env
     \<Rightarrow> ((('v, 'q) order_plugin, order_world, 'v, order_handle) app_state,
        ('v, 'q) order_main_error fault, ('v, 'q) printed) action" where
  "long_lived_run env rt =
     bind_action (order_start rt) (\<lambda>_.
     bind_action (\<lambda>st. (fallible (map_err OrderId order_service_plugin_id), st)) (\<lambda>plugin.
     bind_action (\<lambda>st. (fallible (map_err OrderAccess
         (capability_from (ex_parse_version env) rt (order_service_capability (oe_markers env)) plugin st)), st)) (\<lambda>handle.
     bind_action (\<lambda>st. case handle of
         ServiceHandle orders \<Rightarrow>
           (let (order, w) = create_order orders (text_of ''kernox-book'') (st_world st)
            in (Inr order, st\<lparr>st_world := w\<rparr>))
       | _ \<Rightarrow> (Inl Panic, st)) (\<lambda>order.
     bind_action (shutdown rt) (\<lambda>report.
     return_action
       (text_of (''created order '' @ decimal (unat (or_id order)) @ '' for '') @ or_sku order,
        shutdown_result report))))))"

definition order_main ::
  "((('v, 'q) order_plugin, order_world, 'v, 'q, order_handle) runtime_env
      \<Rightarrow> (('v, 'q) order_plugin, order_world, 'v, order_handle) app_state
      \<Rightarrow> ('v, 'q) order_main_error fault + ('v, 'q) printed)
     \<Rightarrow> ('v, 'q) order_env \<Rightarrow> (order_world \<Rightarrow> nat) \<Rightarrow> scope_store \<Rightarrow> order_world
     \<Rightarrow> ('v, 'q) order_main_error fault + ('v, 'q) printed" where
  \<comment> \<open>\<open>compose\<close>, and the rest of a \<open>main\<close>\<close>
  "order_main run env now scopes w =
     (let (composed, scopes) = order_compose env scopes
      in and_then (lift_err OrderCompose composed) (\<lambda>app.
           run (app_env (order_interface env) now (ex_provision_display env) app) (app_state_of app scopes w)))"

definition long_lived_main ::
  "('v, 'q) order_env \<Rightarrow> (order_world \<Rightarrow> nat) \<Rightarrow> scope_store \<Rightarrow> order_world
     \<Rightarrow> ('v, 'q) order_main_error fault + ('v, 'q) printed" where
  "long_lived_main env = order_main (\<lambda>rt st. fst (long_lived_run env rt st)) env"

section \<open>The serverless binary\<close>

definition order_handler ::
  "order_service
     \<Rightarrow> ((('v, 'q) order_plugin, order_world, 'v, order_handle) serverless_host, infallible, scope_id \<times> order) handler" where
  "order_handler orders ic host =
     (let (order, w) = create_order orders (text_of ''serverless-kernox-book'') (st_world (sh_app host))
      in (Some (Inr (view_id (st_scopes (sh_app host)) (ic_scope ic), order)),
          host\<lparr>sh_app := (sh_app host)\<lparr>st_world := w\<rparr>\<rparr>))"

definition serverless_run ::
  "(scope_id \<Rightarrow> utext) \<Rightarrow> ('v, 'q) order_env
     \<Rightarrow> (('v, 'q) order_plugin, order_world, 'v, 'q, order_handle) runtime_env
     \<Rightarrow> (('v, 'q) order_plugin, order_world, 'v, order_handle) app_state
     \<Rightarrow> ('v, 'q) order_main_error fault + ('v, 'q) printed" where
  \<comment> \<open>\<open>scope_debug\<close> is the derived \<open>Debug\<close> text of a scope identity\<close>
  "serverless_run scope_debug env rt st =
     (let (started, app) = order_start rt st
      in and_then started (\<lambda>_.
         and_then (fallible (map_err OrderConfig (serverless_new app serverless_config_default))) (\<lambda>host.
         and_then (fallible (map_err OrderId order_service_plugin_id)) (\<lambda>plugin.
         and_then (fallible (map_err OrderAccess (serverless_capability_from (ex_parse_version env) rt
           (order_service_capability (oe_markers env)) plugin host))) (\<lambda>handle.
         case handle of
           ServiceHandle orders \<Rightarrow>
             (let (invoked, host) = invoke rt None (order_handler orders) host
              in and_then (lift_err OrderInvoke invoked) (\<lambda>(scope, order).
                 and_then (fst (serverless_shutdown rt host)) (\<lambda>r.
                 Inr (text_of ''scope '' @ scope_debug scope @ text_of ('' created order '' @ decimal (unat (or_id order))),
                   shutdown_result r))))
         | _ \<Rightarrow> Inl Panic)))))"

definition serverless_main ::
  "(scope_id \<Rightarrow> utext) \<Rightarrow> ('v, 'q) order_env \<Rightarrow> (order_world \<Rightarrow> nat) \<Rightarrow> scope_store \<Rightarrow> order_world
     \<Rightarrow> ('v, 'q) order_main_error fault + ('v, 'q) printed" where
  "serverless_main scope_debug env = order_main (serverless_run scope_debug env) env"

end
