(* ===== verification/Order_Run.thy ===== *)
theory Order_Run
  imports Order_App
begin

text \<open>
  The composition of the order example runs: with a \<open>semver\<close> that accepts its literals it resolves, the
  store and the clock start before the service, and every plugin initializes and starts. The lemmas
  give the resulting state.
\<close>

section \<open>The descriptors\<close>

definition order_source_of :: "str \<Rightarrow> plugin_source" where
  "order_source_of package = \<lparr>src_package = text_of package,
     src_repository = Some (text_of ''https://github.com/SylphxAI/kernox'')\<rparr>"

definition order_service_descriptor :: "'v \<Rightarrow> 'q \<Rightarrow> ('v, 'q) plugin_descriptor" where
  "order_service_descriptor v q =
     offering SERVICE_PLUGIN_ID (order_source_of ''kernox-example-order-service'') SERVICE_CAPABILITY_ID v
       [(CapabilityId CLOCK_CAPABILITY_ID, exactly_one (CapabilityId CLOCK_CAPABILITY_ID) q),
        (CapabilityId STORE_CAPABILITY_ID, exactly_one (CapabilityId STORE_CAPABILITY_ID) q)]"

definition order_store_descriptor :: "'v \<Rightarrow> ('v, 'q) plugin_descriptor" where
  "order_store_descriptor v =
     offering STORE_PLUGIN_ID (order_source_of ''kernox-example-order-store'') STORE_CAPABILITY_ID v []"

definition system_clock_descriptor :: "'v \<Rightarrow> ('v, 'q) plugin_descriptor" where
  "system_clock_descriptor v =
     offering CLOCK_PLUGIN_ID (order_source_of ''kernox-example-system-clock'') CLOCK_CAPABILITY_ID v []"

lemma order_ids:
  "plugin_id_new CLOCK_PLUGIN_ID = Inr (PluginId CLOCK_PLUGIN_ID)"
  "plugin_id_new STORE_PLUGIN_ID = Inr (PluginId STORE_PLUGIN_ID)"
  "plugin_id_new SERVICE_PLUGIN_ID = Inr (PluginId SERVICE_PLUGIN_ID)"
  "capability_id_new CLOCK_CAPABILITY_ID = Inr (CapabilityId CLOCK_CAPABILITY_ID)"
  "capability_id_new STORE_CAPABILITY_ID = Inr (CapabilityId STORE_CAPABILITY_ID)"
  "capability_id_new SERVICE_CAPABILITY_ID = Inr (CapabilityId SERVICE_CAPABILITY_ID)"
  by code_simp+

lemma order_ids_distinct:
  "CLOCK_PLUGIN_ID \<noteq> STORE_PLUGIN_ID" "CLOCK_PLUGIN_ID \<noteq> SERVICE_PLUGIN_ID" "STORE_PLUGIN_ID \<noteq> SERVICE_PLUGIN_ID"
  "CLOCK_CAPABILITY_ID \<noteq> STORE_CAPABILITY_ID"
  by code_simp+

lemma order_capabilities_ordered:
  "CapabilityId CLOCK_CAPABILITY_ID < CapabilityId STORE_CAPABILITY_ID"
  "\<not> CapabilityId STORE_CAPABILITY_ID < CapabilityId CLOCK_CAPABILITY_ID"
  by code_simp+

lemmas order_ids_neq = order_capabilities_ordered order_ids_distinct order_ids_distinct [symmetric]

lemma order_sources:
  "order_source ''kernox-example-order-service'' = Inr (order_source_of ''kernox-example-order-service'')"
  "order_source ''kernox-example-order-store'' = Inr (order_source_of ''kernox-example-order-store'')"
  "order_source ''kernox-example-system-clock'' = Inr (order_source_of ''kernox-example-system-clock'')"
  by (simp_all add: order_source_def plugin_source_new_def validate_source_field_def text_of_def trim_def
     is_whitespace_def is_control_def text_len_def utf8_width_def MAX_SOURCE_PACKAGE_LENGTH_def
     MAX_SOURCE_REPOSITORY_LENGTH_def order_source_of_def result_simps map_err_def)

lemma order_plugins_new:
  assumes "accepts_literals env v q"
  shows "order_service_plugin_new env = Inr (OrderServicePlugin (order_service_descriptor v q))"
    and "order_store_plugin_new env = Inr (OrderStorePlugin (order_store_descriptor v))"
    and "system_clock_plugin_new env = Inr (SystemClockPlugin (system_clock_descriptor v))"
  using assms
  by (simp_all add: accepts_literals_def order_service_plugin_new_def order_store_plugin_new_def
      system_clock_plugin_new_def order_plugin_id_def order_capability_id_def order_version_def ORDER_VERSION_def
      map_err_def provide_def require_capability_def sourced_from_def descriptor_new_def offering_def exactly_one_def
      order_ids order_sources order_ids_neq order_service_descriptor_def order_store_descriptor_def
      system_clock_descriptor_def)

section \<open>The composition\<close>

definition order_plugins :: "'v \<Rightarrow> 'q \<Rightarrow> ('v, 'q) order_plugin list" where
  "order_plugins v q = [OrderServicePlugin (order_service_descriptor v q),
     OrderStorePlugin (order_store_descriptor v), SystemClockPlugin (system_clock_descriptor v)]"

lemma order_builder_example:
  "accepts_literals env v q \<Longrightarrow> order_builder env = Inr (plain_builder (order_plugins v q) [])"
  by (simp add: order_builder_def order_plugins_new plain_builder_def order_plugins_def builder_plugin_def
      app_builder_new_def)

definition order_startup :: "plugin_id list" where
  "order_startup = [PluginId STORE_PLUGIN_ID, PluginId CLOCK_PLUGIN_ID, PluginId SERVICE_PLUGIN_ID]"

definition order_requirements :: "resolved_requirement list" where
  "order_requirements = [selected SERVICE_PLUGIN_ID CLOCK_CAPABILITY_ID CLOCK_PLUGIN_ID,
     selected SERVICE_PLUGIN_ID STORE_CAPABILITY_ID STORE_PLUGIN_ID]"

lemma order_resolves:
  "map_sum (\<lambda>_. ()) (\<lambda>g. (rg_startup_order g, rg_requirements g))
     (resolve (\<lambda>_ _. True) (plain_spec order_descriptor (order_plugins v q) [])) =
   Inr (order_startup, order_requirements)"
  by code_simp

lemmas order_descriptors = order_service_descriptor_def order_store_descriptor_def system_clock_descriptor_def offering_def

lemma order_wf: "\<forall>d \<in> set (spec_plugins (plain_spec order_descriptor (order_plugins v q) bs)). descriptor_wf d"
  by (auto simp: plain_spec_def order_plugins_def descriptor_wf_def order_descriptors exactly_one_def
      bm_wf_Cons order_ids_neq)

definition order_app :: "'v \<Rightarrow> 'q \<Rightarrow> (('v, 'q) order_plugin, order_world, 'v, 'q) resolved_app \<Rightarrow> bool" where
  "order_app v q app \<longleftrightarrow> composed_as order_descriptor (order_plugins v q) order_startup order_requirements app"

lemma order_composes:
  assumes lit: "accepts_literals env v q"
  obtains app where "order_compose env scopes = (Inr app, snd (application scopes))"
    and "app_resolve (ex_matches env) (order_interface env) (plain_builder (order_plugins v q) []) scopes =
      (Inr app, snd (application scopes))"
    and "order_app v q app"
proof (rule compose_plain [OF _ _ order_wf _ _ order_resolves])
  show "pi_descriptor (order_interface env) = order_descriptor"
    "pi_host_requirements (order_interface env) = (\<lambda>_. [])"
    by (simp_all add: order_interface_def)
  show "distinct (map (\<lambda>p. pd_id (order_descriptor p)) (order_plugins v q))"
    by (simp add: order_plugins_def order_descriptors order_ids_neq)
  show "same_matches (ex_matches env) (\<lambda>_ _. True) (map order_descriptor (order_plugins v q))"
    using lit by (auto simp: same_matches_def accepts_literals_def order_plugins_def requires_def
        order_descriptors offers_match_def offer_def exactly_one_def)
next
  fix app assume run: "app_resolve (ex_matches env) (order_interface env)
      (plain_builder (order_plugins v q) []) scopes = (Inr app, snd (application scopes))"
    and "composed_as order_descriptor (order_plugins v q) order_startup order_requirements app"
  moreover from run have "order_compose env scopes = (Inr app, snd (application scopes))"
    by (simp add: order_compose_def order_builder_example [OF lit])
  ultimately show thesis using that by (simp add: order_app_def)
qed

section \<open>Starting\<close>

definition order_runtime ::
  "('v, 'q) order_env \<Rightarrow> (order_world \<Rightarrow> nat) \<Rightarrow> (('v, 'q) order_plugin, order_world, 'v, 'q) resolved_app
     \<Rightarrow> (('v, 'q) order_plugin, order_world, 'v, 'q, order_handle) runtime_env" where
  "order_runtime env now app = app_env (order_interface env) now (ex_provision_display env) app"

lemma order_runtime_fields:
  "env_interface (order_runtime env now app) = order_interface env"
  "env_graph (order_runtime env now app) = ra_graph app"
  "env_observer (order_runtime env now app) = ra_observer app"
  "env_scope (order_runtime env now app) = ra_scope app"
  by (simp_all add: order_runtime_def app_env_def)

lemma order_requirement:
  assumes "rg_requirements g = order_requirements"
  shows "requirement g (PluginId SERVICE_PLUGIN_ID) (CapabilityId CLOCK_CAPABILITY_ID) =
      Some (selected SERVICE_PLUGIN_ID CLOCK_CAPABILITY_ID CLOCK_PLUGIN_ID)"
    and "requirement g (PluginId SERVICE_PLUGIN_ID) (CapabilityId STORE_CAPABILITY_ID) =
      Some (selected SERVICE_PLUGIN_ID STORE_CAPABILITY_ID STORE_PLUGIN_ID)"
  unfolding requirement_def assms by code_simp+

lemma order_appD:
  assumes "order_app v q app"
  shows "rg_startup_order (ra_graph app) = order_startup" and "rg_requirements (ra_graph app) = order_requirements"
    and "graph_plugin (ra_graph app) (PluginId SERVICE_PLUGIN_ID) = Some (order_service_descriptor v q)"
    and "graph_plugin (ra_graph app) (PluginId STORE_PLUGIN_ID) = Some (order_store_descriptor v)"
    and "graph_plugin (ra_graph app) (PluginId CLOCK_PLUGIN_ID) = Some (system_clock_descriptor v)"
    and "bm_get (ra_plugins app) (PluginId SERVICE_PLUGIN_ID) = Some (OrderServicePlugin (order_service_descriptor v q))"
    and "bm_get (ra_plugins app) (PluginId STORE_PLUGIN_ID) = Some (OrderStorePlugin (order_store_descriptor v))"
    and "bm_get (ra_plugins app) (PluginId CLOCK_PLUGIN_ID) = Some (SystemClockPlugin (system_clock_descriptor v))"
    and "bm_wf (ra_plugins app)" and "ra_observer app = default_sink"
  using assms by (simp_all add: order_app_def composed_as_def order_plugins_def order_descriptors)

lemma order_quiet: "order_app v q app \<Longrightarrow> quiet_env (order_runtime env now app)"
  by (simp add: quiet_env_def order_runtime_fields order_appD order_interface_def)

definition clock_entry where
  "clock_entry env v = provision_of v (clock_type (oe_markers env)) CLOCK_CAPABILITY_ID (ClockHandle SystemClock)"

definition store_entry where
  "store_entry env v a = provision_of v (store_type (oe_markers env)) STORE_CAPABILITY_ID
     (StoreHandle (MemoryOrderStore a))"

definition orders_of :: "nat \<Rightarrow> nat \<Rightarrow> order_service" where
  "orders_of a c = \<lparr>os_clock = SystemClock, os_store = MemoryOrderStore a, os_next_id = c\<rparr>"

definition orders_entry where
  "orders_entry env v a c = provision_of v (service_type (oe_markers env)) SERVICE_CAPABILITY_ID
     (ServiceHandle (orders_of a c))"

lemma initialize_store:
  assumes lit: "accepts_literals env v q" and app: "order_app v q app"
    and st: "st_plugins st = ra_plugins app"
  shows "\<exists>t. initialize_one (order_runtime env now app) (PluginId STORE_PLUGIN_ID) initialized st =
    (Inr (), st\<lparr>st_world := (st_world st)\<lparr>ow_stores := ow_stores (st_world st) @ [[]]\<rparr>,
      st_registry := bm_insert (PluginId STORE_PLUGIN_ID, CapabilityId STORE_CAPABILITY_ID)
        (store_entry env v (length (ow_stores (st_world st)))) (st_registry st), st_trace := t\<rparr>)"
proof (rule initialize_kept)
  note facts = order_appD [OF app] order_runtime_fields st
  show "env_observer (order_runtime env now app) = default_sink" "bm_wf (st_plugins st)"
    "bm_get (st_plugins st) (PluginId STORE_PLUGIN_ID) = Some (OrderStorePlugin (order_store_descriptor v))"
    "graph_plugin (env_graph (order_runtime env now app)) (PluginId STORE_PLUGIN_ID) = Some (order_store_descriptor v)"
    by (simp_all add: facts)
  show "run_plugin_hook (pi_initialize (env_interface (order_runtime env now app))
      (initialize_context (order_runtime env now app) (PluginId STORE_PLUGIN_ID) st)
      (st_scopes st, env_scope (order_runtime env now app))) (OrderStorePlugin (order_store_descriptor v), st_world st) =
    (Inr [(CapabilityId STORE_CAPABILITY_ID, store_entry env v (length (ow_stores (st_world st))))],
     (OrderStorePlugin (order_store_descriptor v), (st_world st)\<lparr>ow_stores := ow_stores (st_world st) @ [[]]\<rparr>))"
    by (simp add: order_runtime_fields order_interface_def run_plugin_hook_def order_store_initialize_def
        memory_order_store_default_def order_store_capability_def ORDER_VERSION_def
        stage_marker [OF lit order_ids(5)] store_entry_def)
qed (simp add: store_entry_def order_store_descriptor_def commit_offering)

lemma initialize_clock:
  assumes lit: "accepts_literals env v q" and app: "order_app v q app"
    and st: "st_plugins st = ra_plugins app"
  shows "\<exists>t. initialize_one (order_runtime env now app) (PluginId CLOCK_PLUGIN_ID) initialized st =
    (Inr (), st\<lparr>st_world := st_world st,
      st_registry := bm_insert (PluginId CLOCK_PLUGIN_ID, CapabilityId CLOCK_CAPABILITY_ID)
        (clock_entry env v) (st_registry st), st_trace := t\<rparr>)"
proof (rule initialize_kept)
  note facts = order_appD [OF app] order_runtime_fields st
  show "env_observer (order_runtime env now app) = default_sink" "bm_wf (st_plugins st)"
    "bm_get (st_plugins st) (PluginId CLOCK_PLUGIN_ID) = Some (SystemClockPlugin (system_clock_descriptor v))"
    "graph_plugin (env_graph (order_runtime env now app)) (PluginId CLOCK_PLUGIN_ID) = Some (system_clock_descriptor v)"
    by (simp_all add: facts)
  show "run_plugin_hook (pi_initialize (env_interface (order_runtime env now app))
      (initialize_context (order_runtime env now app) (PluginId CLOCK_PLUGIN_ID) st)
      (st_scopes st, env_scope (order_runtime env now app))) (SystemClockPlugin (system_clock_descriptor v), st_world st) =
    (Inr [(CapabilityId CLOCK_CAPABILITY_ID, clock_entry env v)],
     (SystemClockPlugin (system_clock_descriptor v), st_world st))"
    by (simp add: order_runtime_fields order_interface_def run_plugin_hook_def system_clock_initialize_def
        clock_capability_def ORDER_VERSION_def stage_marker [OF lit order_ids(4)] clock_entry_def)
qed (simp add: clock_entry_def system_clock_descriptor_def commit_offering)

lemma initialize_orders:
  assumes lit: "accepts_literals env v q" and app: "order_app v q app"
    and st: "st_plugins st = ra_plugins app"
    and clk: "bm_get (st_registry st) (PluginId CLOCK_PLUGIN_ID, CapabilityId CLOCK_CAPABILITY_ID) =
      Some (clock_entry env v)"
    and sto: "bm_get (st_registry st) (PluginId STORE_PLUGIN_ID, CapabilityId STORE_CAPABILITY_ID) =
      Some (store_entry env v a)"
  shows "\<exists>t. initialize_one (order_runtime env now app) (PluginId SERVICE_PLUGIN_ID) initialized st =
    (Inr (), st\<lparr>st_world := (st_world st)\<lparr>ow_counters := ow_counters (st_world st) @ [1]\<rparr>,
      st_registry := bm_insert (PluginId SERVICE_PLUGIN_ID, CapabilityId SERVICE_CAPABILITY_ID)
        (orders_entry env v a (length (ow_counters (st_world st)))) (st_registry st), st_trace := t\<rparr>)"
proof (rule initialize_kept)
  note facts = order_appD [OF app] order_runtime_fields st
  let ?ctx = "initialize_context (order_runtime env now app) (PluginId SERVICE_PLUGIN_ID) st"
  have ctx: "ctx_graph ?ctx = ra_graph app" "ctx_consumer ?ctx = PluginId SERVICE_PLUGIN_ID"
    "ctx_registry ?ctx = st_registry st"
    by (simp_all add: initialize_context_def order_runtime_fields)
  have "ctx_require (ex_parse_version env) (clock_capability (oe_markers env)) ?ctx = Inr (ClockHandle SystemClock)"
    unfolding clock_capability_def ORDER_VERSION_def
    by (rule require_selected [OF lit order_ids(4)])
      (use clk in \<open>simp_all add: ctx clock_entry_def order_requirement(1) [OF order_appD(2) [OF app]]\<close>)
  moreover have "ctx_require (ex_parse_version env) (order_store_capability (oe_markers env)) ?ctx =
      Inr (StoreHandle (MemoryOrderStore a))"
    unfolding order_store_capability_def ORDER_VERSION_def
    by (rule require_selected [OF lit order_ids(5)])
      (use sto in \<open>simp_all add: ctx store_entry_def order_requirement(2) [OF order_appD(2) [OF app]]\<close>)
  ultimately show "run_plugin_hook (pi_initialize (env_interface (order_runtime env now app)) ?ctx
      (st_scopes st, env_scope (order_runtime env now app))) (OrderServicePlugin (order_service_descriptor v q), st_world st) =
    (Inr [(CapabilityId SERVICE_CAPABILITY_ID, orders_entry env v a (length (ow_counters (st_world st))))],
     (OrderServicePlugin (order_service_descriptor v q),
      (st_world st)\<lparr>ow_counters := ow_counters (st_world st) @ [1]\<rparr>))"
    by (simp add: order_runtime_fields order_interface_def run_plugin_hook_def order_service_initialize_def
        unwinding_def build_order_service_def map_err_def order_service_capability_def ORDER_VERSION_def
        stage_marker [OF lit order_ids(6)] orders_entry_def orders_of_def)
  show "env_observer (order_runtime env now app) = default_sink" "bm_wf (st_plugins st)"
    "bm_get (st_plugins st) (PluginId SERVICE_PLUGIN_ID) = Some (OrderServicePlugin (order_service_descriptor v q))"
    "graph_plugin (env_graph (order_runtime env now app)) (PluginId SERVICE_PLUGIN_ID) = Some (order_service_descriptor v q)"
    by (simp_all add: facts)
qed (simp add: orders_entry_def order_service_descriptor_def commit_offering)

definition with_orders :: "order_world \<Rightarrow> order_world" where
  "with_orders w = w\<lparr>ow_stores := ow_stores w @ [[]], ow_counters := ow_counters w @ [1]\<rparr>"

definition fresh_orders :: "order_world \<Rightarrow> order_service" where
  \<comment> \<open>the service that a start in this world publishes\<close>
  "fresh_orders w = orders_of (length (ow_stores w)) (length (ow_counters w))"

lemma order_starts:
  assumes lit: "accepts_literals env v q" and app: "order_app v q app"
    and st: "st_plugins st = ra_plugins app"
  obtains reg t where "start (order_runtime env now app) st = (Inr (),
      st\<lparr>st_world := with_orders (st_world st), st_registry := reg, st_terminal := None, st_trace := t\<rparr>)"
    and "root_capability (ex_parse_version env) (order_service_capability (oe_markers env)) reg
      (PluginId SERVICE_PLUGIN_ID) = Inr (ServiceHandle (fresh_orders (st_world st)))"
proof -
  let ?rt = "order_runtime env now app" and ?w = "st_world st"
  let ?w1 = "?w\<lparr>ow_stores := ow_stores ?w @ [[]]\<rparr>"
  let ?store = "(PluginId STORE_PLUGIN_ID, CapabilityId STORE_CAPABILITY_ID)"
    and ?clock = "(PluginId CLOCK_PLUGIN_ID, CapabilityId CLOCK_CAPABILITY_ID)"
    and ?orders = "(PluginId SERVICE_PLUGIN_ID, CapabilityId SERVICE_CAPABILITY_ID)"
  let ?st0 = "st\<lparr>st_registry := []\<rparr>"
  define r1 where "r1 = bm_insert ?store (store_entry env v (length (ow_stores ?w))) []"
  define r2 where "r2 = bm_insert ?clock (clock_entry env v) r1"
  define r3 where "r3 = bm_insert ?orders
    (orders_entry env v (length (ow_stores ?w)) (length (ow_counters ?w))) r2"
  obtain t1 where 1: "initialize_one ?rt (PluginId STORE_PLUGIN_ID) [] ?st0 =
      (Inr (), st\<lparr>st_world := ?w1, st_registry := r1, st_trace := t1\<rparr>)"
    using initialize_store [OF lit app, where st = ?st0 and now = now and initialized = "[]"] by (auto simp: st r1_def)
  obtain t2 where 2: "initialize_one ?rt (PluginId CLOCK_PLUGIN_ID) [PluginId STORE_PLUGIN_ID]
      (st\<lparr>st_world := ?w1, st_registry := r1, st_trace := t1\<rparr>) =
      (Inr (), st\<lparr>st_world := ?w1, st_registry := r2, st_trace := t2\<rparr>)"
    using initialize_clock [OF lit app, where st = "st\<lparr>st_world := ?w1, st_registry := r1, st_trace := t1\<rparr>"
      and now = now and initialized = "[PluginId STORE_PLUGIN_ID]"] by (auto simp: st r2_def)
  have r2: "bm_wf r2" "bm_get r2 ?clock = Some (clock_entry env v)"
    "bm_get r2 ?store = Some (store_entry env v (length (ow_stores ?w)))"
    by (simp_all add: r2_def r1_def bm_wf_insert bm_get_insert order_ids_neq del: bm_insert.simps)
  obtain t3 where 3: "initialize_one ?rt (PluginId SERVICE_PLUGIN_ID) [PluginId STORE_PLUGIN_ID, PluginId CLOCK_PLUGIN_ID]
      (st\<lparr>st_world := ?w1, st_registry := r2, st_trace := t2\<rparr>) =
      (Inr (), st\<lparr>st_world := with_orders ?w, st_registry := r3, st_trace := t3\<rparr>)"
    using initialize_orders [OF lit app, where st = "st\<lparr>st_world := ?w1, st_registry := r2, st_trace := t2\<rparr>"
      and now = now and a = "length (ow_stores ?w)" and
      initialized = "[PluginId STORE_PLUGIN_ID, PluginId CLOCK_PLUGIN_ID]"] r2
    by (auto simp: st r3_def with_orders_def)
  have order: "rg_startup_order (env_graph ?rt) = order_startup"
    by (simp add: order_runtime_fields order_appD(1) [OF app])
  have init: "initialize_all ?rt order_startup ?st0 =
      (Inr order_startup, st\<lparr>st_world := with_orders ?w, st_registry := r3, st_trace := t3\<rparr>)"
    by (simp add: initialize_all_def order_startup_def bind_action_def 1 2 3)
  have "set order_startup \<subseteq> set (bm_keys (st_plugins st))"
    unfolding st using app [unfolded order_app_def]
    by (rule composed_keys) (simp add: order_startup_def order_plugins_def order_descriptors)
  with start_initialized [OF order_quiet [OF app], of st env now, unfolded order, OF _ _ init] order_appD(9) [OF app]
  obtain t where "start ?rt st = (Inr (),
      st\<lparr>st_world := with_orders ?w, st_registry := r3, st_terminal := None, st_trace := t\<rparr>)" by (auto simp: st)
  moreover have "root_capability (ex_parse_version env) (order_service_capability (oe_markers env)) r3
      (PluginId SERVICE_PLUGIN_ID) = Inr (ServiceHandle (fresh_orders ?w))"
    unfolding order_service_capability_def ORDER_VERSION_def
    by (rule registry_get_provision [OF lit order_ids(6)])
      (use r2(1) in \<open>simp add: r3_def bm_get_insert orders_entry_def fresh_orders_def\<close>)
  ultimately show thesis using that by blast
qed

end
