(* ===== verification/Order_Properties.thy ===== *)
theory Order_Properties
  imports Order_Run
begin

text \<open>
  What the order example promises: both binaries create one order and shut down cleanly, one of them in
  a scope of its own below the application's; and every order that was created is found again, under
  an identity of its own.
\<close>

section \<open>The order service\<close>

fun create_all :: "order_service \<Rightarrow> (int \<times> utext) list \<Rightarrow> order_world \<Rightarrow> order list \<times> order_world" where
  \<comment> \<open>a sequence of creations, each at some system time\<close>
  "create_all self [] w = ([], w)"
| "create_all self ((time, sku) # requests) w =
     (let (order, w) = create_order self sku (w\<lparr>ow_time := time\<rparr>);
          (orders, w) = create_all self requests w
      in (order # orders, w))"

definition serves_orders :: "order_service \<Rightarrow> 64 word \<Rightarrow> order_world \<Rightarrow> bool" where
  \<comment> \<open>the store and the counter of the service are there, and the counter has this value\<close>
  "serves_orders self n w \<longleftrightarrow>
     (case os_store self of MemoryOrderStore a \<Rightarrow> a < length (ow_stores w) \<and> bm_wf (ow_stores w ! a)) \<and>
     os_next_id self < length (ow_counters w) \<and> ow_counters w ! os_next_id self = n"

lemma create_order_finds:
  assumes "serves_orders self n w" and "create_order self sku w = (order, w')"
  shows "order = \<lparr>or_id = n, or_sku = sku, or_created_at_millis = now_millis (os_clock self) w\<rparr>"
    and "serves_orders self (n + 1) w'"
    and "find_order (os_store self) k w' = (if k = n then Some order else find_order (os_store self) k w)"
proof -
  obtain a where a: "os_store self = MemoryOrderStore a" by (cases "os_store self")
  have c: "os_clock self = SystemClock" by (cases "os_clock self")
  note facts = assms [unfolded serves_orders_def create_order_def Let_def a memory_order_store.case prod.inject]
  show order: "order = \<lparr>or_id = n, or_sku = sku, or_created_at_millis = now_millis (os_clock self) w\<rparr>"
    using facts by (auto simp: c)
  have w': "w' = w\<lparr>ow_counters := (ow_counters w)[os_next_id self := n + 1],
      ow_stores := (ow_stores w)[a := bm_insert n order (ow_stores w ! a)]\<rparr>"
    using facts by auto
  show "serves_orders self (n + 1) w'"
    using facts(1) by (simp add: serves_orders_def a w' bm_wf_insert)
  show "find_order (os_store self) k w' = (if k = n then Some order else find_order (os_store self) k w)"
    using facts(1) by (simp add: a w' bm_get_insert)
qed

lemma now_millis_at: "now_millis c (w\<lparr>ow_time := t\<rparr>) = (if t < 0 then 0 else nat (t div 1000000))"
  by (cases c) simp

lemma serves_orders_at [simp]: "serves_orders self n (w\<lparr>ow_time := t\<rparr>) = serves_orders self n w"
  by (simp add: serves_orders_def split: memory_order_store.split)

lemma find_order_at [simp]: "find_order s k (w\<lparr>ow_time := t\<rparr>) = find_order s k w"
  by (cases s) simp

lemma later_id: "i < 2 ^ 64 - 1 \<Longrightarrow> n \<noteq> n + 1 + of_nat i" for n :: "64 word" and i :: nat
proof
  assume i: "i < 2 ^ 64 - 1" and "n = n + 1 + of_nat i"
  then have "of_nat (Suc i) = (0 :: 64 word)" by (metis add.assoc add_cancel_right_right of_nat_Suc)
  then have "2 ^ 64 dvd Suc i" by (simp add: word_of_nat_eq_0_iff del: of_nat_Suc)
  with i show False by (auto dest: dvd_imp_le)
qed

text \<open>C40: over any sequence of creations by one service, however the system time changes, the orders carry what
  was asked, the time of their creation in milliseconds (zero before the epoch), and consecutive
  identities from the counter's value on. Up to \<open>2^64\<close> of them, after which the counter wraps around,
  every created order is found again under its identity, and nothing else in the store changes.\<close>

theorem created_orders_found:
  assumes "serves_orders self n w" and "length requests \<le> 2 ^ 64"
  shows "fst (create_all self requests w) = map (\<lambda>i. case requests ! i of (time, sku) \<Rightarrow>
       \<lparr>or_id = n + of_nat i, or_sku = sku,
         or_created_at_millis = (if time < 0 then 0 else nat (time div 1000000))\<rparr>) [0..<length requests] \<and>
    (\<forall>i < length requests. find_order (os_store self) (n + of_nat i) (snd (create_all self requests w)) =
       Some (fst (create_all self requests w) ! i)) \<and>
    (\<forall>k. k \<notin> (\<lambda>i. n + of_nat i) ` {0..<length requests} \<longrightarrow>
       find_order (os_store self) k (snd (create_all self requests w)) = find_order (os_store self) k w)"
  using assms
proof (induction requests arbitrary: n w)
  case (Cons request requests)
  obtain time sku where request: "request = (time, sku)" by (cases request)
  obtain order w1 where create: "create_order self sku (w\<lparr>ow_time := time\<rparr>) = (order, w1)"
    by (cases "create_order self sku (w\<lparr>ow_time := time\<rparr>)")
  have "serves_orders self n (w\<lparr>ow_time := time\<rparr>)" using Cons.prems(1) by simp
  note made = create_order_finds [OF this create, unfolded find_order_at now_millis_at]
  have run: "create_all self (request # requests) w =
      (order # fst (create_all self requests w1), snd (create_all self requests w1))"
    by (simp add: request create split: prod.split)
  have "length requests \<le> 2 ^ 64" using Cons.prems(2) by simp
  note IH = Cons.IH [OF made(2) this]
  have ids: "n + 1 + of_nat i = n + of_nat (Suc i)" for i :: nat by simp
  have fresh: "n \<notin> (\<lambda>i. n + 1 + of_nat i) ` {0..<length requests}"
    using Cons.prems(2) later_id [of _ n] by auto
  show ?case
  proof (intro conjI allI impI)
    show "fst (create_all self (request # requests) w) = map (\<lambda>i. case (request # requests) ! i of (time, sku) \<Rightarrow>
       \<lparr>or_id = n + of_nat i, or_sku = sku,
         or_created_at_millis = (if time < 0 then 0 else nat (time div 1000000))\<rparr>) [0..<length (request # requests)]"
      unfolding run using IH
      by (simp add: made(1) request map_upt_Suc ids del: upt_Suc)
    fix i assume i: "i < length (request # requests)"
    show "find_order (os_store self) (n + of_nat i) (snd (create_all self (request # requests) w)) =
        Some (fst (create_all self (request # requests) w) ! i)"
    proof (cases i)
      case 0
      then show ?thesis unfolding run using IH fresh by (simp add: made(3))
    next
      case (Suc j)
      then have j: "n + of_nat i = n + 1 + of_nat j" "j < length requests" using i by simp_all
      have "find_order (os_store self) (n + 1 + of_nat j) (snd (create_all self requests w1)) =
          Some (fst (create_all self requests w1) ! j)"
        using IH j(2) by blast
      then show ?thesis unfolding run j(1) by (simp add: Suc)
    qed
  next
    fix k assume k: "k \<notin> (\<lambda>i. n + of_nat i) ` {0..<length (request # requests)}"
    then have "k \<noteq> n" by (force simp: image_iff)
    moreover have "k \<notin> (\<lambda>i. n + 1 + of_nat i) ` {0..<length requests}"
      using k by (auto simp: image_iff ids simp del: of_nat_Suc)
    ultimately show "find_order (os_store self) k (snd (create_all self (request # requests) w)) =
        find_order (os_store self) k w"
      unfolding run using IH by (simp add: made(3))
  qed
qed simp

lemma created_orders_found_witness:
  "find_order (MemoryOrderStore 0) 2
     (snd (create_all (orders_of 0 0) [(-5, [1]), (7000000, [2])]
       \<lparr>ow_time = 0, ow_stores = [[]], ow_counters = [1]\<rparr>)) =
   Some \<lparr>or_id = 2, or_sku = [2], or_created_at_millis = 7\<rparr>"
proof -
  let ?self = "orders_of 0 0" and ?requests = "[(-5, [1]), (7000000, [2])] :: (int \<times> utext) list"
    and ?w = "\<lparr>ow_time = 0, ow_stores = [[]], ow_counters = [1]\<rparr>"
  have ok: "serves_orders ?self 1 ?w" by (simp add: serves_orders_def orders_of_def)
  have "length ?requests \<le> 2 ^ 64" by simp
  note found = created_orders_found [OF ok this]
  have store: "os_store ?self = MemoryOrderStore 0" by (simp add: orders_of_def)
  from found [THEN conjunct2, THEN conjunct1, rule_format, of 1]
  have "find_order (MemoryOrderStore 0) 2 (snd (create_all ?self ?requests ?w)) =
      Some (fst (create_all ?self ?requests ?w) ! 1)"
    unfolding store by (simp del: create_all.simps find_order.simps)
  moreover have "fst (create_all ?self ?requests ?w) ! 1 = \<lparr>or_id = 2, or_sku = [2], or_created_at_millis = 7\<rparr>"
    unfolding found [THEN conjunct1] by simp
  ultimately show ?thesis by simp
qed

section \<open>The binaries\<close>

lemma fresh_serves: "serves_orders (fresh_orders w) 1 (with_orders w)"
  by (simp add: serves_orders_def fresh_orders_def orders_of_def with_orders_def)

lemma first_order:
  obtains w' millis where "create_order (fresh_orders w) sku (with_orders w) =
    (\<lparr>or_id = 1, or_sku = sku, or_created_at_millis = millis\<rparr>, w')"
  using create_order_finds(1) [OF fresh_serves, of w sku] by (metis prod.collapse)

definition started_orders where
  \<comment> \<open>the state in which \<open>start\<close> leaves the application\<close>
  "started_orders env v st st' \<longleftrightarrow> (\<exists>reg t.
     st' = st\<lparr>st_world := with_orders (st_world st), st_registry := reg, st_terminal := None, st_trace := t\<rparr> \<and>
     root_capability (ex_parse_version env) (order_service_capability (oe_markers env)) reg
       (PluginId SERVICE_PLUGIN_ID) = Inr (ServiceHandle (fresh_orders (st_world st))))"

lemma order_start_ok:
  assumes "accepts_literals env v q" and "order_app v q app" and "st_plugins st = ra_plugins app"
  obtains st' where "order_start (order_runtime env now app) st = (Inr (), st')" and "started_orders env v st st'"
proof -
  obtain reg t where "start (order_runtime env now app) st = (Inr (),
      st\<lparr>st_world := with_orders (st_world st), st_registry := reg, st_terminal := None, st_trace := t\<rparr>)"
    "root_capability (ex_parse_version env) (order_service_capability (oe_markers env)) reg
      (PluginId SERVICE_PLUGIN_ID) = Inr (ServiceHandle (fresh_orders (st_world st)))"
    by (rule order_starts [OF assms])
  then show thesis
    using that [of "st\<lparr>st_world := with_orders (st_world st), st_registry := reg, st_terminal := None, st_trace := t\<rparr>"]
    unfolding started_orders_def by (auto simp: order_start_def lift_err_def)
qed

lemma started_ordersD:
  assumes "started_orders env v st st'"
  shows "st_world st' = with_orders (st_world st)" and "st_plugins st' = st_plugins st"
    and "st_scopes st' = st_scopes st" and "st_terminal st' = None"
    and "root_capability (ex_parse_version env) (order_service_capability (oe_markers env)) (st_registry st')
       (PluginId SERVICE_PLUGIN_ID) = Inr (ServiceHandle (fresh_orders (st_world st)))"
  using assms by (auto simp: started_orders_def)

lemma started_capability:
  assumes "started_orders env v st st'" and "state_of (st_scopes st) (ra_scope app) = Open"
  shows "capability_from (ex_parse_version env) (order_runtime env now app) (order_service_capability (oe_markers env))
    (PluginId SERVICE_PLUGIN_ID) st' = Inr (ServiceHandle (fresh_orders (st_world st)))"
  using started_ordersD [OF assms(1)] assms(2)
  by (simp add: capability_from_def is_closing_def order_runtime_fields)

lemma long_lived_run_creates:
  assumes lit: "accepts_literals env v q" and app: "order_app v q app"
    and ok: "app_ok (order_runtime env now app) st" and st: "st_plugins st = ra_plugins app"
    and up: "state_of (st_scopes st) (ra_scope app) = Open"
  shows "fst (long_lived_run env (order_runtime env now app) st) =
    Inr (text_of ''created order 1 for kernox-book'', Inr ())"
proof -
  let ?rt = "order_runtime env now app"
  obtain st1 where start: "order_start ?rt st = (Inr (), st1)" and st1: "started_orders env v st st1"
    by (rule order_start_ok [OF lit app st])
  note s = started_ordersD [OF st1] started_capability [OF st1 up, of now]
  obtain w millis where create: "create_order (fresh_orders (st_world st)) (text_of ''kernox-book'')
      (with_orders (st_world st)) =
    (\<lparr>or_id = 1, or_sku = text_of ''kernox-book'', or_created_at_millis = millis\<rparr>, w)"
    by (rule first_order)
  have "app_ok ?rt (st1\<lparr>st_world := w\<rparr>)" using ok by (simp add: app_ok_def s)
  then obtain st2 where down: "shutdown ?rt (st1\<lparr>st_world := w\<rparr>) =
      (Inr \<lparr>sr_failures = []\<rparr> :: ('a, 'b) order_main_error fault + shutdown_report, st2)"
    using shutdown_quiet [OF _ order_quiet [OF app]] order_appD(9) [OF app] s(2,4) st by fastforce
  have line: "text_of (''created order '' @ decimal (unat (1 :: 64 word)) @ '' for '') @ text_of ''kernox-book'' =
      text_of ''created order 1 for kernox-book''"
    by (simp add: text_of_def decimal_one)
  show ?thesis
    unfolding long_lived_run_def line [symmetric]
    by (simp add: bind_action_def start order_service_plugin_id_def order_ids map_err_def s create down
        shutdown_result_def is_clean_def)
qed

lemma order_main_runs:
  assumes lit: "accepts_literals env v q" and "wf_scopes scopes" and "room (next_scope_namespace scopes)"
  obtains app where "order_main run env now scopes w = run (order_runtime env now app) (app_state_of app (snd (application scopes)) w)"
    and "order_app v q app"
    and "app_ok (order_runtime env now app) (app_state_of app (snd (application scopes)) w)"
    and "state_of (snd (application scopes)) (ra_scope app) = Open" and "ra_scope app = fst (application scopes)"
proof -
  obtain app where compose: "order_compose env scopes = (Inr app, snd (application scopes))"
    and res: "app_resolve (ex_matches env) (order_interface env) (plain_builder (order_plugins v q) []) scopes =
      (Inr app, snd (application scopes))"
    and app: "order_app v q app"
    by (rule order_composes [OF lit])
  have wf: "\<forall>p \<in> set (ab_plugins (plain_builder (order_plugins v q) [])).
      descriptor_wf (pi_descriptor (order_interface env) p)"
    using order_wf [of v q "[]"] by (auto simp: plain_spec_def plain_builder_def order_interface_def)
  have "app_ok (order_runtime env now app) (app_state_of app (snd (application scopes)) w)"
    unfolding order_runtime_def by (rule app_resolve_ok(1) [OF assms(2,3) wf res])
  moreover have "state_of (snd (application scopes)) (ra_scope app) = Open"
    by (rule app_resolve_ok(2) [OF assms(2,3) wf res])
  moreover have "ra_scope app = fst (application scopes)" using app_resolve_okD(3) [OF res] by (metis fst_conv)
  moreover have "order_main run env now scopes w =
      run (order_runtime env now app) (app_state_of app (snd (application scopes)) w)"
    by (simp add: order_main_def compose lift_err_def order_runtime_def)
  ultimately show thesis using that app by blast
qed

section \<open>One invocation\<close>

text \<open>An invocation on an idle open host whose handler only changes the world outside.\<close>

lemma invoke_on_idle:
  fixes host :: "('p, 'w, 'v, 'h) serverless_host" and env :: "('p, 'w, 'v, 'q, 'h) runtime_env"
  assumes inv: "serverless_inv env host []" and acc: "sh_accepting host"
    and room: "room (scope_counters (st_scopes (sh_app host)) ! si_next_id (inner (st_scopes (sh_app host)) (env_scope env)))"
    and handler: "\<And>scope s. si_id (inner s scope) = si_id (child_inner (st_scopes (sh_app host)) (env_scope env) Invocation) \<Longrightarrow>
      handler \<lparr>ic_scope = scope, ic_deadline = None\<rparr>
        (host\<lparr>sh_active := 1, sh_app := (sh_app host)\<lparr>st_scopes := s\<rparr>\<rparr>) =
      (Some (Inr x), host\<lparr>sh_active := 1, sh_app := (sh_app host)\<lparr>st_scopes := s, st_world := w\<rparr>\<rparr>)"
  obtains host' where "invoke env None handler host = (Inr x :: 'e invocation_error fault + _, host')"
    and "serverless_inv env host' []" and "sh_accepting host'"
    and "st_plugins (sh_app host') = st_plugins (sh_app host)"
proof -
  have zero: "sh_active host = 0" using serverless_invD(2) [OF inv] by simp
  have cap: "0 < max_concurrent_invocations (sh_config host)" by (rule serverless_invD(4) [OF inv])
  obtain c s where ad: "admitted (st_scopes (sh_app host)) (env_scope env) Invocation c s"
    and begin_run: "begin_invocation env None host = (Inr \<lparr>iv_scope = c, iv_deadline = None\<rparr>,
      host\<lparr>sh_active := 1, sh_app := (sh_app host)\<lparr>st_scopes := s\<rparr>\<rparr>)" (is "_ = (Inr ?iv, ?host1)")
    using begin_invocation_cases [OF inv, of None] acc cap zero by (auto simp: elapsed_def)
  let ?host2 = "host\<lparr>sh_active := 1, sh_app := (sh_app host)\<lparr>st_scopes := s, st_world := w\<rparr>\<rparr>"
  have inv1: "serverless_inv env ?host1 [?iv]" by (rule begin_invocation_inv [OF inv begin_run room])
  then have inv2: "serverless_inv env ?host2 [?iv]"
    using acc by (simp add: serverless_inv_def app_ok_def app_state_scope_def)
  obtain s' where drop: "drop_invocation_scope (iv_scope ?iv) (sh_app ?host2) =
      (Inr () :: 'e invocation_error fault + _, (sh_app ?host2)\<lparr>st_scopes := drop_inner (iv_scope ?iv) s'\<rparr>)"
    using drop_outstanding [OF serverless_invD(1) [OF inv2] serverless_invD(9) [OF inv2, of ?iv]]
    by (metis list.set_intros(1))
  obtain host3 where host3: "drop_invocation ?iv ?host2 = (Inr () :: 'e invocation_error fault + _, host3)"
    "serverless_inv env host3 (remove1 ?iv [?iv])" "sh_accepting host3 = sh_accepting ?host2"
    by (rule drop_invocation_inv [OF inv2, of ?iv]) simp_all
  have "st_plugins (sh_app host3) = st_plugins (sh_app host)"
    using host3(1) drop by (auto simp: drop_invocation_def)
  moreover have "handler (context_of ?iv) ?host1 = (Some (Inr x), ?host2)"
    using handler [of s c] admittedD(6) [OF ad] by (simp add: context_of_def)
  then have "invoke env None handler host = (Inr x :: 'e invocation_error fault + _, host3)"
    using host3(1) by (simp add: invoke_def begin_run bind_action_def)
  ultimately show thesis using that host3(2,3) acc by simp
qed

lemma serverless_run_creates:
  assumes lit: "accepts_literals env v q" and app: "order_app v q app"
    and ok: "app_ok (order_runtime env now app) st" and st: "st_plugins st = ra_plugins app"
    and scopes: "st_scopes st = snd (application scopes)" "ra_scope app = fst (application scopes)"
    and up: "state_of (st_scopes st) (ra_scope app) = Open"
  shows "serverless_run scope_debug env (order_runtime env now app) st =
    Inr (text_of ''scope '' @ scope_debug (ScopeId (next_scope_namespace scopes) 1) @ text_of '' created order 1'', Inr ())"
proof -
  let ?rt = "order_runtime env now app"
  obtain st1 where start: "order_start ?rt st = (Inr (), st1)" and st1: "started_orders env v st st1"
    by (rule order_start_ok [OF lit app st])
  note s = started_ordersD [OF st1]
  define host where "host = \<lparr>sh_app = st1, sh_config = serverless_config_default, sh_accepting = True, sh_active = 0\<rparr>"
  have new: "serverless_new st1 serverless_config_default = Inr host"
    by (simp add: serverless_new_def serverless_config_default_def host_def)
  have "serverless_reach ?rt host []"
    using ok up by (intro host_new [OF _ _ _ new]) (simp_all add: app_ok_def app_state_scope_def s order_runtime_fields)
  then have inv: "serverless_inv ?rt host []" by (rule serverless_reach_inv)
  obtain c sc where appl: "application scopes = (c, sc)" by (cases "application scopes")
  note fresh = application_facts(4,6) [OF appl]
  have counter: "scope_counters (st_scopes st1) ! si_next_id (inner (st_scopes st1) (ra_scope app)) = 1"
    by (simp add: s scopes appl fresh)
  have id: "si_id (child_inner (st_scopes st1) (ra_scope app) Invocation) = ScopeId (next_scope_namespace scopes) 1"
    by (simp add: child_inner_def s scopes appl fresh)
  obtain w millis where create: "create_order (fresh_orders (st_world st)) (text_of ''serverless-kernox-book'')
      (with_orders (st_world st)) =
    (\<lparr>or_id = 1, or_sku = text_of ''serverless-kernox-book'', or_created_at_millis = millis\<rparr>, w)" (is "_ = (?order, w)")
    by (rule first_order)
  obtain host' where invoke: "invoke ?rt None (order_handler (fresh_orders (st_world st))) host =
      (Inr (ScopeId (next_scope_namespace scopes) 1, ?order) :: infallible invocation_error fault + _, host')"
    and inv': "serverless_inv ?rt host' []" "sh_accepting host'"
      "st_plugins (sh_app host') = st_plugins (sh_app host)"
  proof (rule invoke_on_idle [OF inv])
    show "sh_accepting host" by (simp add: host_def)
    show "room (scope_counters (st_scopes (sh_app host)) ! si_next_id (inner (st_scopes (sh_app host)) (env_scope ?rt)))"
      by (simp add: host_def order_runtime_fields counter room_def)
    show "order_handler (fresh_orders (st_world st)) \<lparr>ic_scope = scope, ic_deadline = None\<rparr>
        (host\<lparr>sh_active := 1, sh_app := (sh_app host)\<lparr>st_scopes := scs\<rparr>\<rparr>) =
      (Some (Inr (ScopeId (next_scope_namespace scopes) 1, ?order)),
       host\<lparr>sh_active := 1, sh_app := (sh_app host)\<lparr>st_scopes := scs, st_world := w\<rparr>\<rparr>)"
      if "si_id (inner scs scope) = si_id (child_inner (st_scopes (sh_app host)) (env_scope ?rt) Invocation)" for scope scs
      using that by (simp add: order_handler_def host_def s(1,2) create view_id_def id order_runtime_fields)
  qed
  have "st_terminal (sh_app host') = None" using serverless_invD(6) [OF inv'(1)] inv'(2) by simp
  moreover have "st_plugins (sh_app host') = ra_plugins app" using inv'(3) by (simp add: host_def s(2) st)
  ultimately obtain st2 where down: "shutdown ?rt (sh_app host') =
      (Inr \<lparr>sr_failures = []\<rparr> :: ('a, 'b) order_main_error fault + shutdown_report, st2)"
    using shutdown_quiet [OF serverless_invD(1) [OF inv'(1)] order_quiet [OF app]] order_appD(9) [OF app] by fastforce
  have line: "text_of ('' created order '' @ decimal (unat (1 :: 64 word))) = text_of '' created order 1''"
    by (simp add: decimal_one)
  have cap: "serverless_capability_from (ex_parse_version env) ?rt (order_service_capability (oe_markers env))
      (PluginId SERVICE_PLUGIN_ID) host = Inr (ServiceHandle (fresh_orders (st_world st)))"
    using started_capability [OF st1 up, of now] by (simp add: serverless_capability_from_def host_def)
  show ?thesis
    unfolding serverless_run_def start prod.case Let_def line [symmetric]
    by (simp add: new order_service_plugin_id_def order_ids map_err_def cap invoke lift_err_def
        serverless_shutdown_def down shutdown_result_def is_clean_def)
qed

section \<open>Properties\<close>

text \<open>C39: the two binaries of the order example, whatever \<open>semver\<close> is as long as it reads their literals:
  both compose and start the application, create the first order and shut down cleanly; behind the
  serverless host the order is created in a scope of its own, the second identity of the application's
  namespace.\<close>

theorem order_binaries_run:
  assumes "accepts_literals env v q" and "wf_scopes scopes" and "room (next_scope_namespace scopes)"
  shows "long_lived_main env now scopes w = Inr (text_of ''created order 1 for kernox-book'', Inr ()) \<and>
    serverless_main scope_debug env now scopes w =
      Inr (text_of ''scope '' @ scope_debug (ScopeId (next_scope_namespace scopes) 1) @ text_of '' created order 1'', Inr ())"
proof
  have st: "st_plugins (app_state_of app sc w) = ra_plugins app" "st_scopes (app_state_of app sc w) = sc"
    for app :: "(('a, 'b) order_plugin, order_world, 'a, 'b) resolved_app" and sc
    by (simp_all add: app_state_of_def)
  show "long_lived_main env now scopes w = Inr (text_of ''created order 1 for kernox-book'', Inr ())"
    unfolding long_lived_main_def
    by (rule order_main_runs [OF assms, of "\<lambda>rt st. fst (long_lived_run env rt st)" now w])
      (simp add: long_lived_run_creates [OF assms(1)] st)
  show "serverless_main scope_debug env now scopes w =
      Inr (text_of ''scope '' @ scope_debug (ScopeId (next_scope_namespace scopes) 1) @ text_of '' created order 1'', Inr ())"
    unfolding serverless_main_def
    by (rule order_main_runs [OF assms, of "serverless_run scope_debug env" now w])
      (simp add: serverless_run_creates [OF assms(1)] st)
qed

definition literal_order_env :: "(str, str) order_env" where
  "literal_order_env = \<lparr>ex_parse_version = Inr, ex_parse_req = Inr,
     ex_matches = (\<lambda>req version. req = ''^1.0'' \<and> version = ''1.0.0''),
     ex_provision_display = (\<lambda>_. []), ex_access_display = (\<lambda>_. []),
     oe_markers = \<lparr>clock_type = \<lparr>mt_marker = 1, mt_name = ''ClockCapability'', mt_interface = 10\<rparr>,
       store_type = \<lparr>mt_marker = 2, mt_name = ''OrderStoreCapability'', mt_interface = 20\<rparr>,
       service_type = \<lparr>mt_marker = 3, mt_name = ''OrderServiceCapability'', mt_interface = 30\<rparr>\<rparr>\<rparr>"

lemma order_binaries_run_witness:
  "long_lived_main literal_order_env (\<lambda>_. 0) initial_scopes \<lparr>ow_time = 5, ow_stores = [], ow_counters = []\<rparr> =
   Inr (text_of ''created order 1 for kernox-book'', Inr ())"
proof -
  have "accepts_literals literal_order_env ''1.0.0'' ''^1.0''"
    by (simp add: accepts_literals_def literal_order_env_def)
  from order_binaries_run [OF this initial_scopes_ok] show ?thesis by (rule conjunct1)
qed

end
