(* ===== verification/Worker_App.thy ===== *)
theory Worker_App
  imports Example_Support Tokio_Plugin
begin

text \<open>
  \<open>examples/worker-app\<close>: a worker that runs its heartbeat as a supervised Tokio task, composed with the
  official Tokio plugin, and the binary that runs it.

  The world is that of the Tokio plugin, with the counters shared behind \<open>Arc\<close>s and the bodies of the
  spawned tasks: which supervisor and task they run as and which counter they advance. What the
  runtime does with these bodies is \<open>worker_step\<close>; how far it gets while \<open>main\<close> sleeps is a parameter.
\<close>

section \<open>The worker's world\<close>

definition WORKER_CONTRACT_VERSION :: str where "WORKER_CONTRACT_VERSION = ''1.0.0''"
definition WORKER_PLUGIN_ID :: str where "WORKER_PLUGIN_ID = ''dev.kernox.examples.worker.heartbeat''"
definition METRICS_CAPABILITY_ID :: str where "METRICS_CAPABILITY_ID = ''dev.kernox.examples.worker.metrics''"

record task_body =
  tb_supervisor :: nat
  tb_task :: task_id
  tb_ticks :: nat

record worker_world =
  ww_tokio :: tokio_world
  ww_ticks :: "64 word list"
  ww_bodies :: "task_body list"

datatype worker_handle = TasksHandle nat | MetricsHandle nat

definition metrics_ticks :: "nat \<Rightarrow> worker_world \<Rightarrow> 64 word" where
  "metrics_ticks ticks w = ww_ticks w ! ticks"

definition heartbeat_iteration :: "task_supervisor \<Rightarrow> 64 word \<Rightarrow> 64 word option" where
  \<comment> \<open>one test and body of the \<open>while\<close> loop, up to the sleep: the counter after it, or \<open>None\<close> when the loop
    ends\<close>
  "heartbeat_iteration sv ticks = (if cancellation_token sv then None else Some (ticks + 1))"

definition on_supervisor :: "nat \<Rightarrow> (task_supervisor \<Rightarrow> task_supervisor) \<Rightarrow> worker_world \<Rightarrow> worker_world" where
  "on_supervisor a f w = w\<lparr>ww_tokio := set_supervisor a (f (supervisor_at (ww_tokio w) a)) (ww_tokio w)\<rparr>"

definition body_supervisor :: "task_body \<Rightarrow> worker_world \<Rightarrow> task_supervisor" where
  "body_supervisor body w = supervisor_at (ww_tokio w) (tb_supervisor body)"

definition runs_body :: "task_body \<Rightarrow> worker_world \<Rightarrow> bool" where
  "runs_body body w \<longleftrightarrow> body \<in> set (ww_bodies w) \<and>
     bm_contains (ss_tasks (sv_state (body_supervisor body w))) (tb_task body)"

definition iterate_body :: "task_body \<Rightarrow> worker_world \<Rightarrow> 64 word option" where
  "iterate_body body w = heartbeat_iteration (body_supervisor body w) (ww_ticks w ! tb_ticks body)"

inductive worker_step :: "worker_world \<Rightarrow> worker_world \<Rightarrow> bool" where
  worker_beats: "runs_body body w \<Longrightarrow> iterate_body body w = Some ticks \<Longrightarrow>
    worker_step w (w\<lparr>ww_ticks := (ww_ticks w)[tb_ticks body := ticks]\<rparr>)"
| worker_ends: "runs_body body w \<Longrightarrow> iterate_body body w = None \<Longrightarrow>
    worker_step w (on_supervisor (tb_supervisor body) (drop_registration (tb_task body)) w)"
| worker_forgotten: "task \<in> set (sv_tracked (supervisor_at (ww_tokio w) a)) \<Longrightarrow>
    \<not> bm_contains (ss_tasks (sv_state (supervisor_at (ww_tokio w) a))) task \<Longrightarrow>
    worker_step w (on_supervisor a (\<lambda>sv. sv\<lparr>sv_tracked := remove1 task (sv_tracked sv)\<rparr>) w)"

text \<open>While the teardown waits for the tracker nobody reads the counters any more, so of a heartbeat that is
  polled then only what it does to the supervisor is kept: it goes back to sleep, or its loop ends, its
  registration is dropped and the tracker forgets it.\<close>

fun poll_heartbeat :: "task_supervisor \<Rightarrow> task_id \<times> 64 word \<Rightarrow> task_supervisor" where
  "poll_heartbeat sv (task, ticks) =
     (case heartbeat_iteration sv ticks of
        Some _ \<Rightarrow> sv
      | None \<Rightarrow> (drop_registration task sv)\<lparr>sv_tracked := filter (\<lambda>t. t \<noteq> task) (sv_tracked sv)\<rparr>)"

section \<open>The plugins\<close>

record worker_markers =
  tasks_type :: marker_type
  metrics_type :: marker_type

record ('v, 'q) worker_env = "('v, 'q) example_env" +
  we_markers :: worker_markers
  we_runtime :: tokio_runtime

definition worker_tasks_capability :: "worker_markers \<Rightarrow> capability_marker" where
  "worker_tasks_capability ty = tokio_tasks_capability (mt_marker (tasks_type ty)) (mt_name (tasks_type ty))
     (mt_interface (tasks_type ty))"

definition worker_metrics_capability :: "worker_markers \<Rightarrow> capability_marker" where
  "worker_metrics_capability ty = marker_of (metrics_type ty) METRICS_CAPABILITY_ID WORKER_CONTRACT_VERSION"

datatype ('v, 'q) worker_compose_error =
    WorkerIdentifier identifier_error
  | WorkerDescriptor descriptor_error
  | WorkerVersion str
  | WorkerResolve "('v, 'q) app_resolve_error"
  | WorkerTokioHost tokio_task_plugin_error

record ('v, 'q) heartbeat_worker =
  hw_descriptor :: "('v, 'q) plugin_descriptor"
  hw_tasks :: "nat option"
  hw_ticks :: nat

definition worker_plugin_id_of :: "str \<Rightarrow> ('v, 'q) worker_compose_error + plugin_id" where
  "worker_plugin_id_of value = map_err WorkerIdentifier (plugin_id_new value)"

definition worker_capability_id :: "str \<Rightarrow> ('v, 'q) worker_compose_error + capability_id" where
  "worker_capability_id value = map_err WorkerIdentifier (capability_id_new value)"

definition worker_version :: "('v, 'q) worker_env \<Rightarrow> ('v, 'q) worker_compose_error + 'v" where
  "worker_version env = map_err WorkerVersion (ex_parse_version env WORKER_CONTRACT_VERSION)"

definition worker_source :: "str \<Rightarrow> ('v, 'q) worker_compose_error + plugin_source" where
  "worker_source package =
     map_err WorkerDescriptor (plugin_source_new (text_of package)
       (Some (text_of ''https://github.com/SylphxAI/kernox/tree/main/examples/worker-app'')))"

definition worker_access_failure :: "('v, 'q) worker_env \<Rightarrow> access_error \<Rightarrow> plugin_error" where
  "worker_access_failure env error =
     \<lparr>pe_tag = access_error_tag error, pe_message = ex_access_display env error\<rparr>"

definition spawn_failure :: "spawn_error \<Rightarrow> plugin_error" where
  "spawn_failure error = \<lparr>pe_tag = spawn_error_tag error, pe_message = text_of (spawn_error_display error)\<rparr>"

definition heartbeat_worker_new ::
  "('v, 'q) worker_env \<Rightarrow> (worker_world, ('v, 'q) worker_compose_error, ('v, 'q) heartbeat_worker) action" where
  "heartbeat_worker_new env w =
     (case and_then (worker_plugin_id_of WORKER_PLUGIN_ID) (\<lambda>plugin.
           and_then (worker_version env) (\<lambda>version.
           and_then (worker_source ''kernox-example-heartbeat-worker'') (\<lambda>source.
           and_then (worker_capability_id METRICS_CAPABILITY_ID) (\<lambda>capability.
           and_then (worker_version env) (\<lambda>offered.
           and_then (map_err WorkerDescriptor (provide \<lparr>offer_id = capability, offer_version = offered\<rparr>
             (sourced_from source (descriptor_new plugin version)))) (\<lambda>descriptor.
           and_then (worker_capability_id TASK_CAPABILITY_ID) (\<lambda>tasks.
           and_then (map_err WorkerVersion (ex_parse_req env ''^1.0'')) (\<lambda>req.
           map_err WorkerDescriptor (require_capability (exactly_one tasks req) descriptor))))))))) of
        Inl error \<Rightarrow> (Inl error, w)
      | Inr descriptor \<Rightarrow>
          (Inr \<lparr>hw_descriptor = descriptor, hw_tasks = None, hw_ticks = length (ww_ticks w)\<rparr>,
           w\<lparr>ww_ticks := ww_ticks w @ [0]\<rparr>))"

section \<open>The worker's hooks\<close>

type_synonym ('v, 'q) heartbeat_state = "('v, 'q) heartbeat_worker \<times> worker_world"

definition heartbeat_initialize ::
  "('v, 'q) worker_env \<Rightarrow> ('v, 'q, worker_handle) initialization_context
     \<Rightarrow> (('v, 'q) heartbeat_state, ('v, worker_handle) provision_set) hook" where
  \<comment> \<open>a handle of another port cannot be there, which the type checker knows\<close>
  "heartbeat_initialize env ctx = (\<lambda>(self, w).
     case unwinding (ctx_require (ex_parse_version env) (worker_tasks_capability (we_markers env)) ctx) of
       None \<Rightarrow> (None, (self, w))
     | Some (Inl error) \<Rightarrow> (ready (Inl (worker_access_failure env error)), (self, w))
     | Some (Inr (TasksHandle a)) \<Rightarrow>
         (ready (stage env (worker_metrics_capability (we_markers env)) (MetricsHandle (hw_ticks self))),
          (self\<lparr>hw_tasks := Some a\<rparr>, w))
     | Some (Inr _) \<Rightarrow> (None, (self, w)))"

definition heartbeat_start :: "(('v, 'q) heartbeat_state, unit) hook" where
  "heartbeat_start = (\<lambda>(self, w).
     case hw_tasks self of
       None \<Rightarrow>
         (ready (Inl \<lparr>pe_tag = ''worker.tasks-missing'',
            pe_message = text_of ''Tokio task capability was not initialized''\<rparr>), (self, w))
     | Some a \<Rightarrow>
         (case task_name_new (text_of ''heartbeat'') of
            Inl error \<Rightarrow> (ready (Inl (spawn_failure error)), (self, w))
          | Inr name \<Rightarrow>
              (case spawn (tw_current (ww_tokio w)) name (supervisor_at (ww_tokio w) a) of
                 (Inr task, sv) \<Rightarrow>
                   (ready (Inr ()), (self, w\<lparr>ww_tokio := set_supervisor a sv (ww_tokio w),
                      ww_bodies := ww_bodies w @ [\<lparr>tb_supervisor = a, tb_task = task, tb_ticks = hw_ticks self\<rparr>]\<rparr>))
               | (Inl error, sv) \<Rightarrow>
                   (ready (Inl (spawn_failure error)), (self, w\<lparr>ww_tokio := set_supervisor a sv (ww_tokio w)\<rparr>)))))"

section \<open>Two kinds of plugins in one application\<close>

datatype ('v, 'q) worker_plugin =
    TokioPlugin "('v, 'q) tokio_task_plugin"
  | HeartbeatPlugin "('v, 'q) heartbeat_worker"

type_synonym ('v, 'q) worker_state = "('v, 'q) worker_plugin \<times> worker_world"

fun tokio_future :: "(('v, 'q) tokio_state, 't) future \<Rightarrow> (('v, 'q) worker_state, 't) future" where
  \<comment> \<open>a future of the Tokio plugin runs on it, never on another plugin\<close>
  "tokio_future future (TokioPlugin p, w) =
     (let (r, (p, t)) = future (p, ww_tokio w) in (r, (TokioPlugin p, w\<lparr>ww_tokio := t\<rparr>)))"
| "tokio_future future (HeartbeatPlugin p, w) = (None, (HeartbeatPlugin p, w))"

definition tokio_hook ::
  "(('v, 'q) tokio_state, 't) hook \<Rightarrow> ('v, 'q) tokio_task_plugin \<Rightarrow> worker_world
     \<Rightarrow> (('v, 'q) worker_state, 't) future option \<times> ('v, 'q) worker_state" where
  "tokio_hook build p w =
     (let (future, (p, t)) = build (p, ww_tokio w)
      in (map_option tokio_future future, (TokioPlugin p, w\<lparr>ww_tokio := t\<rparr>)))"

fun heartbeat_future :: "(('v, 'q) heartbeat_state, 't) future \<Rightarrow> (('v, 'q) worker_state, 't) future" where
  "heartbeat_future future (HeartbeatPlugin p, w) =
     (let (r, (p, w)) = future (p, w) in (r, (HeartbeatPlugin p, w)))"
| "heartbeat_future future (TokioPlugin p, w) = (None, (TokioPlugin p, w))"

definition heartbeat_hook ::
  "(('v, 'q) heartbeat_state, 't) hook \<Rightarrow> ('v, 'q) heartbeat_worker \<Rightarrow> worker_world
     \<Rightarrow> (('v, 'q) worker_state, 't) future option \<times> ('v, 'q) worker_state" where
  "heartbeat_hook build p w =
     (let (future, (p, w)) = build (p, w)
      in (map_option heartbeat_future future, (HeartbeatPlugin p, w)))"

fun worker_descriptor :: "('v, 'q) worker_plugin \<Rightarrow> ('v, 'q) plugin_descriptor" where
  "worker_descriptor (TokioPlugin p) = tp_descriptor p"
| "worker_descriptor (HeartbeatPlugin p) = hw_descriptor p"

fun worker_host_requirements :: "('v, 'q) worker_plugin \<Rightarrow> 'q host_requirement list" where
  "worker_host_requirements (TokioPlugin p) = tp_host_requirements p"
| "worker_host_requirements (HeartbeatPlugin p) = []"

definition worker_hook ::
  "(('v, 'q) tokio_state, 't) hook \<Rightarrow> (('v, 'q) heartbeat_state, 't) hook \<Rightarrow> (('v, 'q) worker_state, 't) hook" where
  "worker_hook tokio heartbeat = (\<lambda>(self, w). case self of
     TokioPlugin p \<Rightarrow> tokio_hook tokio p w | HeartbeatPlugin p \<Rightarrow> heartbeat_hook heartbeat p w)"

definition worker_interface ::
  "('v, 'q) worker_env \<Rightarrow> (('v, 'q) worker_plugin, worker_world, 'v, 'q, worker_handle) plugin_interface" where
  "worker_interface env =
     (let tokio = tokio_interface (ex_parse_version env) (ex_provision_display env)
            (worker_tasks_capability (we_markers env)) TasksHandle (we_runtime env)
      in \<lparr>pi_descriptor = worker_descriptor, pi_host_requirements = worker_host_requirements,
          pi_initialize = (\<lambda>ctx view. worker_hook (pi_initialize tokio ctx view) (heartbeat_initialize env ctx)),
          pi_start = (\<lambda>view. worker_hook (pi_start tokio view) heartbeat_start),
          pi_quiesce = (\<lambda>view. worker_hook (pi_quiesce tokio view) (default_hook view)),
          pi_stop = (\<lambda>view. worker_hook (pi_stop tokio view) (default_hook view)),
          pi_dispose = (\<lambda>view. worker_hook (pi_dispose tokio view) (default_hook view))\<rparr>)"

section \<open>Composition and the binary\<close>

definition worker_task_config :: tokio_task_config where
  "worker_task_config = \<lparr>max_tasks = 8, drain_timeout = 1\<rparr>"

definition worker_builder ::
  "('v, 'q) worker_env
     \<Rightarrow> (worker_world, ('v, 'q) worker_compose_error, (('v, 'q) worker_plugin, worker_world, 'v, 'q) app_builder) action" where
  "worker_builder env w =
     (case map_err WorkerTokioHost (tokio_runtime_capability (ex_parse_version env)) of
        Inl error \<Rightarrow> (Inl error, w)
      | Inr runtime \<Rightarrow>
          (case map_err WorkerTokioHost (tokio_task_plugin_new (ex_parse_version env) (ex_parse_req env) worker_task_config) of
             Inl error \<Rightarrow> (Inl error, w)
           | Inr tokio \<Rightarrow>
               (case heartbeat_worker_new env w of
                  (Inl error, w) \<Rightarrow> (Inl error, w)
                | (Inr beats, w) \<Rightarrow>
                    (Inr (builder_plugin (HeartbeatPlugin beats) (builder_plugin (TokioPlugin tokio)
                       (builder_host_capability runtime app_builder_new))), w))))"

definition worker_compose ::
  "('v, 'q) worker_env
     \<Rightarrow> (scope_store \<times> worker_world, ('v, 'q) worker_compose_error fault,
        (('v, 'q) worker_plugin, worker_world, 'v, 'q) resolved_app) action" where
  "worker_compose env = (\<lambda>(scopes, w).
     case worker_builder env w of
       (Inl error, w) \<Rightarrow> (Inl (Err error), (scopes, w))
     | (Inr builder, w) \<Rightarrow>
         (case app_resolve (ex_matches env) (worker_interface env) builder scopes of
            (Inl Panic, scopes) \<Rightarrow> (Inl Panic, (scopes, w))
          | (Inl (Err error), scopes) \<Rightarrow> (Inl (Err (WorkerResolve error)), (scopes, w))
          | (Inr app, scopes) \<Rightarrow> (Inr app, (scopes, w))))"

definition worker_plugin_id :: "identifier_error + plugin_id" where
  "worker_plugin_id = plugin_id_new WORKER_PLUGIN_ID"

datatype ('v, 'q) worker_main_error =
    WorkerCompose "('v, 'q) worker_compose_error"
  | WorkerStart lifecycle_failure
  | WorkerId identifier_error
  | WorkerAccess access_error
  | WorkerShutdown str

definition worker_run ::
  "(worker_world \<Rightarrow> worker_world) \<Rightarrow> ('v, 'q) worker_env
     \<Rightarrow> (('v, 'q) worker_plugin, worker_world, 'v, 'q, worker_handle) runtime_env
     \<Rightarrow> ((('v, 'q) worker_plugin, worker_world, 'v, worker_handle) app_state,
        ('v, 'q) worker_main_error fault, utext \<times> (('v, 'q) worker_main_error + unit)) action" where
  \<comment> \<open>\<open>main\<close> from \<open>start\<close> on: the line it prints and the result it then returns; the first argument is
     what the runtime does during the sleep\<close>
  "worker_run elapse env rt =
     bind_action (\<lambda>st. let (r, st) = start rt st in (lift_err WorkerStart r, st)) (\<lambda>_.
     bind_action (\<lambda>st. (fallible (map_err WorkerId worker_plugin_id), st)) (\<lambda>plugin.
     bind_action (\<lambda>st. (fallible (map_err WorkerAccess
         (capability_from (ex_parse_version env) rt (worker_metrics_capability (we_markers env)) plugin st)), st)) (\<lambda>handle.
     bind_action (modify_action (\<lambda>st. st\<lparr>st_world := elapse (st_world st)\<rparr>)) (\<lambda>_.
     bind_action (\<lambda>st. case handle of
         MetricsHandle ticks \<Rightarrow> (Inr (metrics_ticks ticks (st_world st)), st)
       | _ \<Rightarrow> (Inl Panic, st)) (\<lambda>ticks.
     bind_action (shutdown rt) (\<lambda>r.
     return_action (text_of (''heartbeat ticks before shutdown: '' @ decimal (unat ticks)),
       if is_clean r then Inr ()
       else Inl (WorkerShutdown (''shutdown had '' @ decimal (length (sr_failures r)) @ '' failure(s)'')))))))))"

definition worker_main ::
  "(worker_world \<Rightarrow> worker_world) \<Rightarrow> ('v, 'q) worker_env \<Rightarrow> (worker_world \<Rightarrow> nat) \<Rightarrow> scope_store \<Rightarrow> worker_world
     \<Rightarrow> ('v, 'q) worker_main_error fault + utext \<times> (('v, 'q) worker_main_error + unit)" where
  "worker_main elapse env now scopes w =
     (let (composed, (scopes, w)) = worker_compose env (scopes, w)
      in and_then (lift_err WorkerCompose composed) (\<lambda>app.
           fst (worker_run elapse env (app_env (worker_interface env) now (ex_provision_display env) app)
             (app_state_of app scopes w))))"

end
