(* ===== verification/Worker_Run.thy ===== *)
theory Worker_Run
  imports Worker_App Tokio_Properties
begin

text \<open>
  The worker example step by step: its composition resolves with the Tokio plugin first, on a Tokio runtime
  with timers every hook succeeds and one heartbeat task is supervised, what the runtime does with the
  task keeps the supervisor accepting, and the teardown drains it.
\<close>

section \<open>The composition\<close>

definition worker_source_of :: "str \<Rightarrow> plugin_source" where
  "worker_source_of package = \<lparr>src_package = text_of package, src_repository =
     Some (text_of ''https://github.com/SylphxAI/kernox/tree/main/examples/worker-app'')\<rparr>"

definition heartbeat_descriptor :: "'v \<Rightarrow> 'q \<Rightarrow> ('v, 'q) plugin_descriptor" where
  "heartbeat_descriptor v q =
     offering WORKER_PLUGIN_ID (worker_source_of ''kernox-example-heartbeat-worker'') METRICS_CAPABILITY_ID v
       [(CapabilityId TASK_CAPABILITY_ID, exactly_one (CapabilityId TASK_CAPABILITY_ID) q)]"

definition tokio_descriptor :: "'v \<Rightarrow> ('v, 'q) plugin_descriptor" where
  "tokio_descriptor v = (offering PLUGIN_ID (worker_source_of []) TASK_CAPABILITY_ID v [])\<lparr>pd_source := None\<rparr>"

lemma worker_ids:
  "plugin_id_new WORKER_PLUGIN_ID = Inr (PluginId WORKER_PLUGIN_ID)"
  "plugin_id_new PLUGIN_ID = Inr (PluginId PLUGIN_ID)"
  "capability_id_new METRICS_CAPABILITY_ID = Inr (CapabilityId METRICS_CAPABILITY_ID)"
  "capability_id_new TASK_CAPABILITY_ID = Inr (CapabilityId TASK_CAPABILITY_ID)"
  "capability_id_new TOKIO_RUNTIME_CAPABILITY_ID = Inr (CapabilityId TOKIO_RUNTIME_CAPABILITY_ID)"
  by code_simp+

lemma worker_ids_distinct:
  "WORKER_PLUGIN_ID \<noteq> PLUGIN_ID" "METRICS_CAPABILITY_ID \<noteq> TASK_CAPABILITY_ID"
  by code_simp+

lemmas worker_ids_neq = worker_ids_distinct worker_ids_distinct [symmetric]

lemma worker_source_ok:
  "worker_source ''kernox-example-heartbeat-worker'' = Inr (worker_source_of ''kernox-example-heartbeat-worker'')"
  by (simp add: worker_source_def plugin_source_new_def validate_source_field_def text_of_def trim_def
     is_whitespace_def is_control_def text_len_def utf8_width_def MAX_SOURCE_PACKAGE_LENGTH_def
     MAX_SOURCE_REPOSITORY_LENGTH_def worker_source_of_def result_simps map_err_def)

definition new_tokio :: "'v \<Rightarrow> 'q \<Rightarrow> ('v, 'q) tokio_task_plugin" where
  "new_tokio v q = \<lparr>tp_descriptor = tokio_descriptor v, tp_config = worker_task_config,
     tp_host_requirements = [\<lparr>hr_id = CapabilityId TOKIO_RUNTIME_CAPABILITY_ID, hr_version = q\<rparr>], tp_supervisor = None\<rparr>"

definition new_heartbeat :: "'v \<Rightarrow> 'q \<Rightarrow> nat \<Rightarrow> ('v, 'q) heartbeat_worker" where
  "new_heartbeat v q c = \<lparr>hw_descriptor = heartbeat_descriptor v q, hw_tasks = None, hw_ticks = c\<rparr>"

lemma new_tokio_plugin:
  assumes "accepts_literals env v q"
  shows "tokio_task_plugin_new (ex_parse_version env) (ex_parse_req env) worker_task_config = Inr (new_tokio v q)"
    and "tokio_runtime_capability (ex_parse_version env) =
      Inr \<lparr>hc_id = CapabilityId TOKIO_RUNTIME_CAPABILITY_ID, hc_version = v\<rparr>"
  using assms
  by (simp_all add: accepts_literals_def tokio_task_plugin_new_def tokio_runtime_capability_def worker_ids map_err_def
      CONTRACT_VERSION_def worker_task_config_def provide_def descriptor_new_def new_tokio_def tokio_descriptor_def
      offering_def)

lemma new_heartbeat_plugin:
  assumes "accepts_literals env v q"
  shows "heartbeat_worker_new env w = (Inr (new_heartbeat v q (length (ww_ticks w))), w\<lparr>ww_ticks := ww_ticks w @ [0]\<rparr>)"
  using assms
  by (simp add: accepts_literals_def heartbeat_worker_new_def worker_plugin_id_of_def worker_capability_id_def
      worker_version_def WORKER_CONTRACT_VERSION_def worker_ids worker_source_ok map_err_def provide_def
      require_capability_def sourced_from_def descriptor_new_def new_heartbeat_def heartbeat_descriptor_def
      offering_def exactly_one_def)

definition worker_plugins :: "'v \<Rightarrow> 'q \<Rightarrow> nat \<Rightarrow> ('v, 'q) worker_plugin list" where
  "worker_plugins v q c = [TokioPlugin (new_tokio v q), HeartbeatPlugin (new_heartbeat v q c)]"

definition worker_startup :: "plugin_id list" where
  "worker_startup = [PluginId PLUGIN_ID, PluginId WORKER_PLUGIN_ID]"

definition worker_requirements :: "resolved_requirement list" where
  "worker_requirements = [selected WORKER_PLUGIN_ID TASK_CAPABILITY_ID PLUGIN_ID]"

definition worker_hosts :: "'v \<Rightarrow> 'v host_capability list" where
  "worker_hosts v = [\<lparr>hc_id = CapabilityId TOKIO_RUNTIME_CAPABILITY_ID, hc_version = v\<rparr>]"

lemma worker_builder_example:
  assumes "accepts_literals env v q"
  shows "worker_builder env w = (Inr ((plain_builder (worker_plugins v q (length (ww_ticks w))) [])
    \<lparr>ab_host_capabilities := worker_hosts v\<rparr>), w\<lparr>ww_ticks := ww_ticks w @ [0]\<rparr>)"
  by (simp add: worker_builder_def new_tokio_plugin [OF assms] new_heartbeat_plugin [OF assms] map_err_def
      builder_plugin_def builder_host_capability_def app_builder_new_def plain_builder_def worker_plugins_def worker_hosts_def)

lemma worker_resolves:
  "map_sum (\<lambda>_. ()) (\<lambda>g. (rg_startup_order g, rg_requirements g))
     (resolve (\<lambda>_ _. True) (plain_spec worker_descriptor (worker_plugins v q c) [])) =
   Inr (worker_startup, worker_requirements)"
  by code_simp

lemmas worker_descriptors = new_tokio_def new_heartbeat_def heartbeat_descriptor_def tokio_descriptor_def offering_def

lemma worker_wf: "\<forall>d \<in> set (spec_plugins (plain_spec worker_descriptor (worker_plugins v q c) bs)). descriptor_wf d"
  by (auto simp: plain_spec_def worker_plugins_def descriptor_wf_def worker_descriptors exactly_one_def bm_wf_Cons)

definition worker_app ::
  "'v \<Rightarrow> 'q \<Rightarrow> nat \<Rightarrow> (('v, 'q) worker_plugin, worker_world, 'v, 'q) resolved_app \<Rightarrow> bool" where
  "worker_app v q c app \<longleftrightarrow>
     composed_as worker_descriptor (worker_plugins v q c) worker_startup worker_requirements app"

lemma worker_composes:
  assumes lit: "accepts_literals env v q"
  obtains app where "worker_compose env (scopes, w) =
      (Inr app, (snd (application scopes), w\<lparr>ww_ticks := ww_ticks w @ [0]\<rparr>))"
    and "app_resolve (ex_matches env) (worker_interface env) ((plain_builder (worker_plugins v q (length (ww_ticks w))) [])
        \<lparr>ab_host_capabilities := worker_hosts v\<rparr>) scopes = (Inr app, snd (application scopes))"
    and "worker_app v q (length (ww_ticks w)) app"
proof (rule compose_hosted [OF _ _ worker_wf _ _ worker_resolves])
  show iface: "pi_descriptor (worker_interface env) = worker_descriptor"
    by (simp add: worker_interface_def Let_def)
  show "validate_host_requirements (ex_matches env) (map (\<lambda>p. (worker_descriptor p, p,
      pi_host_requirements (worker_interface env) p)) (worker_plugins v q (length (ww_ticks w)))) (worker_hosts v) = Inr ()"
    using lit
    by (simp add: validate_host_requirements_ok host_satisfies_def worker_plugins_def worker_hosts_def accepts_literals_def
        worker_interface_def Let_def new_tokio_def)
  show "distinct (map (\<lambda>p. pd_id (worker_descriptor p)) (worker_plugins v q (length (ww_ticks w))))"
    by (simp add: worker_plugins_def worker_descriptors worker_ids_neq)
  show "same_matches (ex_matches env) (\<lambda>_ _. True) (map worker_descriptor (worker_plugins v q (length (ww_ticks w))))"
    using lit by (auto simp: same_matches_def accepts_literals_def worker_plugins_def requires_def
        worker_descriptors offers_match_def offer_def exactly_one_def)
next
  fix app assume run: "app_resolve (ex_matches env) (worker_interface env)
      ((plain_builder (worker_plugins v q (length (ww_ticks w))) [])\<lparr>ab_host_capabilities := worker_hosts v\<rparr>) scopes =
      (Inr app, snd (application scopes))"
    and "composed_as worker_descriptor (worker_plugins v q (length (ww_ticks w))) worker_startup worker_requirements app"
  moreover from run have "worker_compose env (scopes, w) =
      (Inr app, (snd (application scopes), w\<lparr>ww_ticks := ww_ticks w @ [0]\<rparr>))"
    by (simp add: worker_compose_def worker_builder_example [OF lit])
  ultimately show thesis using that by (simp add: worker_app_def)
qed

section \<open>Starting\<close>

definition worker_runtime ::
  "('v, 'q) worker_env \<Rightarrow> (worker_world \<Rightarrow> nat) \<Rightarrow> (('v, 'q) worker_plugin, worker_world, 'v, 'q) resolved_app
     \<Rightarrow> (('v, 'q) worker_plugin, worker_world, 'v, 'q, worker_handle) runtime_env" where
  "worker_runtime env now app = app_env (worker_interface env) now (ex_provision_display env) app"

lemma worker_runtime_fields:
  "env_interface (worker_runtime env now app) = worker_interface env"
  "env_graph (worker_runtime env now app) = ra_graph app"
  "env_observer (worker_runtime env now app) = ra_observer app"
  "env_scope (worker_runtime env now app) = ra_scope app"
  by (simp_all add: worker_runtime_def app_env_def)

lemma worker_appD:
  assumes "worker_app v q c app"
  shows "rg_startup_order (ra_graph app) = worker_startup" and "rg_requirements (ra_graph app) = worker_requirements"
    and "graph_plugin (ra_graph app) (PluginId PLUGIN_ID) = Some (tokio_descriptor v)"
    and "graph_plugin (ra_graph app) (PluginId WORKER_PLUGIN_ID) = Some (heartbeat_descriptor v q)"
    and "bm_get (ra_plugins app) (PluginId PLUGIN_ID) = Some (TokioPlugin (new_tokio v q))"
    and "bm_get (ra_plugins app) (PluginId WORKER_PLUGIN_ID) = Some (HeartbeatPlugin (new_heartbeat v q c))"
    and "bm_wf (ra_plugins app)" and "ra_observer app = default_sink"
  using assms by (simp_all add: worker_app_def composed_as_def worker_plugins_def worker_descriptors)

lemma worker_requirement:
  assumes "rg_requirements g = worker_requirements"
  shows "requirement g (PluginId WORKER_PLUGIN_ID) (CapabilityId TASK_CAPABILITY_ID) =
      Some (selected WORKER_PLUGIN_ID TASK_CAPABILITY_ID PLUGIN_ID)"
  unfolding requirement_def assms by code_simp

lemma run_tokio_hook:
  assumes "run_plugin_hook build (p, ww_tokio w) = (r, (p', t'))"
  shows "run_plugin_hook (worker_hook build heart) (TokioPlugin p, w) = (r, (TokioPlugin p', w\<lparr>ww_tokio := t'\<rparr>))"
  using assms by (auto simp: run_plugin_hook_def worker_hook_def tokio_hook_def split: prod.splits option.splits)

lemma run_heartbeat_hook:
  assumes "run_plugin_hook build (p, w) = (r, (p', w'))"
  shows "run_plugin_hook (worker_hook tokio build) (HeartbeatPlugin p, w) = (r, (HeartbeatPlugin p', w'))"
  using assms by (auto simp: run_plugin_hook_def worker_hook_def heartbeat_hook_def split: prod.splits option.splits)

lemma run_default_hook: "run_plugin_hook (default_hook view) s = (Inr (), s)"
  by (simp add: run_plugin_hook_def default_hook_def)

lemma worker_tasks_marker: "worker_tasks_capability ty = marker_of (tasks_type ty) TASK_CAPABILITY_ID ''1.0.0''"
  by (simp add: worker_tasks_capability_def tokio_tasks_capability_def marker_of_def CONTRACT_VERSION_def)

lemma worker_metrics_marker: "worker_metrics_capability ty = marker_of (metrics_type ty) METRICS_CAPABILITY_ID ''1.0.0''"
  by (simp add: worker_metrics_capability_def WORKER_CONTRACT_VERSION_def)

definition tasks_entry where
  "tasks_entry env v a = provision_of v (tasks_type (we_markers env)) TASK_CAPABILITY_ID (TasksHandle a)"

definition metrics_entry where
  "metrics_entry env v c = provision_of v (metrics_type (we_markers env)) METRICS_CAPABILITY_ID (MetricsHandle c)"

definition heartbeat_name :: task_name where
  "heartbeat_name = TaskName (text_of ''heartbeat'')"

definition heartbeat_supervisor :: task_supervisor where
  \<comment> \<open>a new supervisor that has spawned the heartbeat\<close>
  "heartbeat_supervisor = snd (spawn True heartbeat_name (supervisor_new worker_task_config))"

lemma heartbeat_spawned:
  "spawn True heartbeat_name (supervisor_new worker_task_config) = (Inr (TaskId 1), heartbeat_supervisor)"
  unfolding heartbeat_supervisor_def
  by (simp add: spawn_def supervisor_new_def worker_task_config_def Let_def)

lemma heartbeat_task_name: "task_name_new (text_of ''heartbeat'') = Inr heartbeat_name"
  by (simp add: task_name_new_def text_of_def text_len_def utf8_width_def MAX_TASK_NAME_BYTES_def
      is_unsafe_name_char_def is_control_def heartbeat_name_def)

lemma initialize_tokio:
  assumes lit: "accepts_literals env v q" and app: "worker_app v q c app" and st: "st_plugins st = ra_plugins app"
    and on: "tw_current (ww_tokio (st_world st))" "tw_timer (ww_tokio (st_world st))"
  defines "a \<equiv> length (tw_supervisors (ww_tokio (st_world st)))"
  shows "\<exists>t. initialize_one (worker_runtime env now app) (PluginId PLUGIN_ID) initialized st =
    (Inr (), st\<lparr>st_plugins := bm_modify (PluginId PLUGIN_ID)
        (\<lambda>_. TokioPlugin ((new_tokio v q)\<lparr>tp_supervisor := Some a\<rparr>)) (st_plugins st),
      st_world := (st_world st)\<lparr>ww_tokio := (ww_tokio (st_world st))\<lparr>tw_supervisors :=
        tw_supervisors (ww_tokio (st_world st)) @ [supervisor_new worker_task_config]\<rparr>\<rparr>,
      st_registry := bm_insert (PluginId PLUGIN_ID, CapabilityId TASK_CAPABILITY_ID) (tasks_entry env v a) (st_registry st),
      st_trace := t\<rparr>)"
proof (rule initialize_quiet)
  note facts = worker_appD [OF app] worker_runtime_fields st
  show "env_observer (worker_runtime env now app) = default_sink"
    "bm_get (st_plugins st) (PluginId PLUGIN_ID) = Some (TokioPlugin (new_tokio v q))"
    "graph_plugin (env_graph (worker_runtime env now app)) (PluginId PLUGIN_ID) = Some (tokio_descriptor v)"
    by (simp_all add: facts)
  have "map_err (\<lambda>error. \<lparr>pe_tag = provision_error_tag error, pe_message = ex_provision_display env error\<rparr>)
      (provision_set_provide (ex_parse_version env) (worker_tasks_capability (we_markers env)) (TasksHandle a) []) =
    Inr [(CapabilityId TASK_CAPABILITY_ID, tasks_entry env v a)]"
    using stage_marker [OF lit worker_ids(4), of "tasks_type (we_markers env)" "TasksHandle a"]
    by (simp add: stage_def worker_tasks_marker tasks_entry_def)
  then have "run_plugin_hook (tokio_initialize (ex_parse_version env) (ex_provision_display env)
      (worker_tasks_capability (we_markers env)) TasksHandle ctx view) (new_tokio v q, ww_tokio (st_world st)) =
    (Inr [(CapabilityId TASK_CAPABILITY_ID, tasks_entry env v a)],
     ((new_tokio v q)\<lparr>tp_supervisor := Some a\<rparr>, (ww_tokio (st_world st))\<lparr>tw_supervisors :=
        tw_supervisors (ww_tokio (st_world st)) @ [supervisor_new worker_task_config]\<rparr>))" for ctx view
    using on by (simp add: run_plugin_hook_def tokio_initialize_def ready_def Let_def a_def new_tokio_def)
  from run_tokio_hook [OF this]
  show "run_plugin_hook (pi_initialize (env_interface (worker_runtime env now app))
      (initialize_context (worker_runtime env now app) (PluginId PLUGIN_ID) st)
      (st_scopes st, env_scope (worker_runtime env now app))) (TokioPlugin (new_tokio v q), st_world st) =
    (Inr [(CapabilityId TASK_CAPABILITY_ID, tasks_entry env v a)],
     (TokioPlugin ((new_tokio v q)\<lparr>tp_supervisor := Some a\<rparr>),
      (st_world st)\<lparr>ww_tokio := (ww_tokio (st_world st))\<lparr>tw_supervisors :=
        tw_supervisors (ww_tokio (st_world st)) @ [supervisor_new worker_task_config]\<rparr>\<rparr>))"
    by (simp add: worker_runtime_fields worker_interface_def tokio_interface_def Let_def)
  show "commit (PluginId PLUGIN_ID) (tokio_descriptor v) [(CapabilityId TASK_CAPABILITY_ID, tasks_entry env v a)]
      (st_registry st) = (Inr (), bm_insert (PluginId PLUGIN_ID, CapabilityId TASK_CAPABILITY_ID)
        (tasks_entry env v a) (st_registry st))"
    unfolding tasks_entry_def by (rule commit_single) (simp add: tokio_descriptor_def offering_def)
qed

lemma initialize_heartbeat:
  assumes lit: "accepts_literals env v q" and app: "worker_app v q c app"
    and get: "bm_get (st_plugins st) (PluginId WORKER_PLUGIN_ID) = Some (HeartbeatPlugin (new_heartbeat v q c))"
    and tasks: "bm_get (st_registry st) (PluginId PLUGIN_ID, CapabilityId TASK_CAPABILITY_ID) = Some (tasks_entry env v a)"
  shows "\<exists>t. initialize_one (worker_runtime env now app) (PluginId WORKER_PLUGIN_ID) initialized st =
    (Inr (), st\<lparr>st_plugins := bm_modify (PluginId WORKER_PLUGIN_ID)
        (\<lambda>_. HeartbeatPlugin ((new_heartbeat v q c)\<lparr>hw_tasks := Some a\<rparr>)) (st_plugins st),
      st_world := st_world st,
      st_registry := bm_insert (PluginId WORKER_PLUGIN_ID, CapabilityId METRICS_CAPABILITY_ID)
        (metrics_entry env v c) (st_registry st), st_trace := t\<rparr>)"
proof (rule initialize_quiet)
  note facts = worker_appD [OF app] worker_runtime_fields get
  let ?ctx = "initialize_context (worker_runtime env now app) (PluginId WORKER_PLUGIN_ID) st"
  have ctx: "ctx_graph ?ctx = ra_graph app" "ctx_consumer ?ctx = PluginId WORKER_PLUGIN_ID"
    "ctx_registry ?ctx = st_registry st"
    by (simp_all add: initialize_context_def worker_runtime_fields)
  show "env_observer (worker_runtime env now app) = default_sink"
    "bm_get (st_plugins st) (PluginId WORKER_PLUGIN_ID) = Some (HeartbeatPlugin (new_heartbeat v q c))"
    "graph_plugin (env_graph (worker_runtime env now app)) (PluginId WORKER_PLUGIN_ID) = Some (heartbeat_descriptor v q)"
    by (simp_all add: facts)
  have "ctx_require (ex_parse_version env) (worker_tasks_capability (we_markers env)) ?ctx = Inr (TasksHandle a)"
    unfolding worker_tasks_marker
    by (rule require_selected [OF lit worker_ids(4)])
      (use tasks in \<open>simp_all add: ctx tasks_entry_def worker_requirement [OF worker_appD(2) [OF app]]\<close>)
  then have "run_plugin_hook (heartbeat_initialize env ?ctx) (new_heartbeat v q c, st_world st) =
    (Inr [(CapabilityId METRICS_CAPABILITY_ID, metrics_entry env v c)],
     ((new_heartbeat v q c)\<lparr>hw_tasks := Some a\<rparr>, st_world st))"
    using stage_marker [OF lit worker_ids(3), of "metrics_type (we_markers env)" "MetricsHandle c"]
    by (simp add: run_plugin_hook_def heartbeat_initialize_def unwinding_def ready_def worker_metrics_marker
        metrics_entry_def new_heartbeat_def)
  from run_heartbeat_hook [OF this]
  show "run_plugin_hook (pi_initialize (env_interface (worker_runtime env now app)) ?ctx
      (st_scopes st, env_scope (worker_runtime env now app))) (HeartbeatPlugin (new_heartbeat v q c), st_world st) =
    (Inr [(CapabilityId METRICS_CAPABILITY_ID, metrics_entry env v c)],
     (HeartbeatPlugin ((new_heartbeat v q c)\<lparr>hw_tasks := Some a\<rparr>), st_world st))"
    by (simp add: worker_runtime_fields worker_interface_def Let_def)
  show "commit (PluginId WORKER_PLUGIN_ID) (heartbeat_descriptor v q)
      [(CapabilityId METRICS_CAPABILITY_ID, metrics_entry env v c)] (st_registry st) =
    (Inr (), bm_insert (PluginId WORKER_PLUGIN_ID, CapabilityId METRICS_CAPABILITY_ID)
        (metrics_entry env v c) (st_registry st))"
    unfolding metrics_entry_def by (rule commit_single) (simp add: heartbeat_descriptor_def offering_def)
qed

definition worker_started :: "worker_world \<Rightarrow> worker_world" where
  \<comment> \<open>the world once the application has started in it\<close>
  "worker_started w = w\<lparr>ww_tokio := (ww_tokio w)\<lparr>tw_supervisors := tw_supervisors (ww_tokio w) @ [heartbeat_supervisor]\<rparr>,
     ww_ticks := ww_ticks w @ [0],
     ww_bodies := ww_bodies w @ [\<lparr>tb_supervisor = length (tw_supervisors (ww_tokio w)), tb_task = TaskId 1,
       tb_ticks = length (ww_ticks w)\<rparr>]\<rparr>"

definition running_plugins ::
  "'v \<Rightarrow> 'q \<Rightarrow> nat \<Rightarrow> nat \<Rightarrow> (plugin_id, ('v, 'q) worker_plugin) btree_map \<Rightarrow> bool" where
  "running_plugins v q a c m \<longleftrightarrow> bm_wf m \<and>
     bm_get m (PluginId PLUGIN_ID) = Some (TokioPlugin ((new_tokio v q)\<lparr>tp_supervisor := Some a\<rparr>)) \<and>
     bm_get m (PluginId WORKER_PLUGIN_ID) = Some (HeartbeatPlugin ((new_heartbeat v q c)\<lparr>hw_tasks := Some a\<rparr>))"

lemma world_rewritten:
  "st\<lparr>st_plugins := m, st_world := w, st_registry := r, st_trace := t, st_world := w', st_trace := t'\<rparr> =
    st\<lparr>st_plugins := m, st_world := w', st_registry := r, st_trace := t'\<rparr>"
  by (rule app_state.equality) simp_all

lemma worker_starts:
  assumes lit: "accepts_literals env v q" and app: "worker_app v q (length (ww_ticks w)) app"
    and st: "st_plugins st = ra_plugins app" "st_world st = w\<lparr>ww_ticks := ww_ticks w @ [0]\<rparr>"
    and on: "tw_current (ww_tokio w)" "tw_timer (ww_tokio w)"
  obtains m reg t where "start (worker_runtime env now app) st = (Inr (), st\<lparr>st_plugins := m,
      st_world := worker_started w, st_registry := reg, st_terminal := None, st_trace := t\<rparr>)"
    and "running_plugins v q (length (tw_supervisors (ww_tokio w))) (length (ww_ticks w)) m"
    and "bm_keys m = bm_keys (ra_plugins app)"
    and "root_capability (ex_parse_version env) (worker_metrics_capability (we_markers env)) reg
      (PluginId WORKER_PLUGIN_ID) = Inr (MetricsHandle (length (ww_ticks w)))"
proof -
  let ?rt = "worker_runtime env now app" and ?a = "length (tw_supervisors (ww_tokio w))" and ?c = "length (ww_ticks w)"
  let ?P = "PluginId PLUGIN_ID" and ?W = "PluginId WORKER_PLUGIN_ID"
  let ?tk = "(?P, CapabilityId TASK_CAPABILITY_ID)" and ?mt = "(?W, CapabilityId METRICS_CAPABILITY_ID)"
  let ?p = "TokioPlugin ((new_tokio v q)\<lparr>tp_supervisor := Some ?a\<rparr>)"
    and ?h = "HeartbeatPlugin ((new_heartbeat v q ?c)\<lparr>hw_tasks := Some ?a\<rparr>)"
  let ?st0 = "st\<lparr>st_registry := []\<rparr>"
  have plugins: "bm_wf (st_plugins st)" "bm_get (st_plugins st) ?P = Some (TokioPlugin (new_tokio v q))"
    "bm_get (st_plugins st) ?W = Some (HeartbeatPlugin (new_heartbeat v q ?c))"
    by (simp_all add: st worker_appD [OF app])
  have obs: "env_observer ?rt = default_sink" by (simp add: worker_runtime_fields worker_appD(8) [OF app])
  define r1 where "r1 = bm_insert ?tk (tasks_entry env v ?a) []"
  define r2 where "r2 = bm_insert ?mt (metrics_entry env v ?c) r1"
  define m1 where "m1 = bm_modify ?P (\<lambda>_. ?p) (st_plugins st)"
  define m2 where "m2 = bm_modify ?W (\<lambda>_. ?h) m1"
  define w1 where "w1 = w\<lparr>ww_ticks := ww_ticks w @ [0], ww_tokio := (ww_tokio w)\<lparr>tw_supervisors :=
      tw_supervisors (ww_tokio w) @ [supervisor_new worker_task_config]\<rparr>\<rparr>"
  obtain t1 where 1: "initialize_one ?rt ?P [] ?st0 =
      (Inr (), st\<lparr>st_plugins := m1, st_world := w1, st_registry := r1, st_trace := t1\<rparr>)"
    using initialize_tokio [OF lit app, where st = ?st0 and now = now and initialized = "[]"] on
    by (auto simp: st r1_def m1_def w1_def)
  have m1: "bm_get m1 ?W = Some (HeartbeatPlugin (new_heartbeat v q ?c))" "bm_wf m1"
    using plugins by (simp_all add: m1_def bm_get_modify worker_ids_neq)
  obtain t2 where 2: "initialize_one ?rt ?W [?P] (st\<lparr>st_plugins := m1, st_world := w1, st_registry := r1, st_trace := t1\<rparr>) =
      (Inr (), st\<lparr>st_plugins := m2, st_world := w1, st_registry := r2, st_trace := t2\<rparr>)"
    using initialize_heartbeat [OF lit app, where st = "st\<lparr>st_plugins := m1, st_world := w1, st_registry := r1, st_trace := t1\<rparr>"
      and now = now and initialized = "[?P]" and a = ?a] m1(1)
    by (auto simp: r1_def r2_def m2_def)
  have running: "running_plugins v q ?a ?c m2"
    using plugins m1 by (simp add: running_plugins_def m2_def m1_def bm_get_modify worker_ids_neq)
  let ?st2 = "st\<lparr>st_plugins := m2, st_world := w1, st_registry := r2, st_trace := t2\<rparr>"
  have "run_plugin_hook (pi_start (env_interface ?rt) view) (?p, w1) = (Inr (), (?p, w1))" for view
    using run_tokio_hook [OF run_default_hook, where w = w1]
    by (cases w1) (simp add: worker_runtime_fields worker_interface_def tokio_interface_def Let_def)
  then have "\<exists>t. start_one ?rt ?P [] [?P, ?W] ?st2 = (Inr (), ?st2\<lparr>st_world := w1, st_trace := t\<rparr>)"
    by (intro start_kept [OF obs]) (use running in \<open>simp_all add: running_plugins_def\<close>)
  then obtain t3 where 3: "start_one ?rt ?P [] [?P, ?W] ?st2 =
      (Inr (), st\<lparr>st_plugins := m2, st_world := w1, st_registry := r2, st_trace := t3\<rparr>)"
    unfolding world_rewritten by blast
  let ?st3 = "st\<lparr>st_plugins := m2, st_world := w1, st_registry := r2, st_trace := t3\<rparr>"
  have "supervisor_at (ww_tokio w1) ?a = supervisor_new worker_task_config" "tw_current (ww_tokio w1)"
    using on by (simp_all add: supervisor_at_def w1_def)
  then have "run_plugin_hook heartbeat_start ((new_heartbeat v q ?c)\<lparr>hw_tasks := Some ?a\<rparr>, w1) =
      (Inr (), ((new_heartbeat v q ?c)\<lparr>hw_tasks := Some ?a\<rparr>, worker_started w))"
    by (simp add: run_plugin_hook_def heartbeat_start_def heartbeat_task_name heartbeat_spawned ready_def
        worker_started_def w1_def set_supervisor_def new_heartbeat_def)
  from run_heartbeat_hook [OF this]
  have "run_plugin_hook (pi_start (env_interface ?rt) view) (?h, w1) = (Inr (), (?h, worker_started w))" for view
    by (simp add: worker_runtime_fields worker_interface_def Let_def)
  then have "\<exists>t. start_one ?rt ?W [?P] [?P, ?W] ?st3 = (Inr (), ?st3\<lparr>st_world := worker_started w, st_trace := t\<rparr>)"
    by (intro start_kept [OF obs]) (use running in \<open>simp_all add: running_plugins_def\<close>)
  then obtain t4 where 4: "start_one ?rt ?W [?P] [?P, ?W] ?st3 =
      (Inr (), st\<lparr>st_plugins := m2, st_world := worker_started w, st_registry := r2, st_trace := t4\<rparr>)"
    unfolding world_rewritten by blast
  have order: "rg_startup_order (env_graph ?rt) = [?P, ?W]"
    by (simp add: worker_runtime_fields worker_appD(1) [OF app] worker_startup_def)
  have "start ?rt st = (Inr (), st\<lparr>st_plugins := m2, st_world := worker_started w, st_registry := r2,
      st_terminal := None, st_trace := t4\<rparr>)"
    by (simp add: start_def order initialize_all_def start_all_def bind_action_def 1 2 3 4)
  moreover have "bm_keys m2 = bm_keys (ra_plugins app)" by (simp add: m2_def m1_def st)
  moreover have "root_capability (ex_parse_version env) (worker_metrics_capability (we_markers env)) r2 ?W =
      Inr (MetricsHandle ?c)"
    unfolding worker_metrics_marker
    by (rule registry_get_provision [OF lit worker_ids(3)]) (simp add: r2_def r1_def bm_get_insert bm_wf_insert metrics_entry_def)
  ultimately show thesis using that running by blast
qed

end
