(* ===== verification/Worker_Properties.thy ===== *)
theory Worker_Properties
  imports Worker_Run
begin

text \<open>
  What the worker example promises: its binary starts the heartbeat on the Tokio plugin's supervisor, reads
  its counter, and its teardown cancels, drains and disposes of the supervisor without a failure.
\<close>

section \<open>While the application runs\<close>

definition beating :: "nat \<Rightarrow> worker_world \<Rightarrow> bool" where
  \<comment> \<open>a runtime is there, and the supervisor at this address has neither failed nor reported\<close>
  "beating a w \<longleftrightarrow> tw_current (ww_tokio w) \<and> a < length (tw_supervisors (ww_tokio w)) \<and>
     sv_config (supervisor_at (ww_tokio w) a) = worker_task_config \<and>
     terminal_failure (supervisor_at (ww_tokio w) a) = None \<and>
     \<not> ss_drain_reported (sv_state (supervisor_at (ww_tokio w) a))"

lemma supervisor_at_set:
  "a < length (tw_supervisors w) \<Longrightarrow>
     supervisor_at (set_supervisor b sv w) a = (if a = b then sv else supervisor_at w a)"
  by (simp add: supervisor_at_def set_supervisor_def)

lemma set_supervisor_twice: "set_supervisor b sv' (set_supervisor b sv w) = set_supervisor b sv' w"
  by (simp add: set_supervisor_def)

lemma set_supervisor_fields:
  "tw_current (set_supervisor b sv w) = tw_current w"
  "length (tw_supervisors (set_supervisor b sv w)) = length (tw_supervisors w)"
  by (simp_all add: set_supervisor_def)

lemma worker_step_beating: "worker_step w w' \<Longrightarrow> beating a w \<Longrightarrow> beating a w'"
  by (cases rule: worker_step.cases)
    (auto simp: beating_def on_supervisor_def supervisor_at_set set_supervisor_fields
      drop_registration_def on_state_def terminal_failure_def split: if_splits)

lemma worker_steps_beating: "worker_step\<^sup>*\<^sup>* w w' \<Longrightarrow> beating a w \<Longrightarrow> beating a w'"
  by (induction rule: rtranclp_induct) (auto intro: worker_step_beating)

lemma started_beating: "tw_current (ww_tokio w) \<Longrightarrow> beating (length (tw_supervisors (ww_tokio w))) (worker_started w)"
  by (simp add: beating_def worker_started_def supervisor_at_def heartbeat_supervisor_def spawn_def supervisor_new_def
      worker_task_config_def terminal_failure_def on_state_def Let_def)

section \<open>The teardown\<close>

definition polls_in_time :: "tokio_runtime \<Rightarrow> bool" where
  \<comment> \<open>the scheduler is fair: within a budget that is not zero every tracked heartbeat is polled at least once,
    any number of times and in any order, and the wait for the closed tracker ends in time just when it is
    empty then\<close>
  "polls_in_time rt \<longleftrightarrow> (\<forall>limit sv. 0 < limit \<longrightarrow> sv_tracker_closed sv \<longrightarrow>
     (\<exists>polls. set (sv_tracked sv) \<subseteq> fst ` set polls \<and>
        rt_timeout rt limit sv = (sv_tracked (foldl poll_heartbeat sv polls) = [], foldl poll_heartbeat sv polls)))"

lemma polled_heartbeats:
  assumes "sv_cancelled sv"
  shows "sv_tracked (foldl poll_heartbeat sv polls) = filter (\<lambda>t. t \<notin> fst ` set polls) (sv_tracked sv) \<and>
    terminal_failure (foldl poll_heartbeat sv polls) = terminal_failure sv"
  using assms
proof (induction polls arbitrary: sv)
  case (Cons poll polls)
  obtain task ticks where poll: "poll = (task, ticks)" by (rule prod.exhaust)
  have "sv_cancelled (poll_heartbeat sv poll)" "terminal_failure (poll_heartbeat sv poll) = terminal_failure sv"
    "sv_tracked (poll_heartbeat sv poll) = filter (\<lambda>t. t \<noteq> task) (sv_tracked sv)"
    using Cons.prems by (simp_all add: poll heartbeat_iteration_def cancellation_token_def supervisor_ops)
  with Cons.IH [of "poll_heartbeat sv poll"] show ?case by (simp add: poll conj_commute)
qed simp

text \<open>A poll of a heartbeat whose token is cancelled is what \<open>worker_step\<close> lets it do: end, and be forgotten.\<close>

lemma remove1_filter: "distinct xs \<Longrightarrow> remove1 x xs = filter (\<lambda>y. y \<noteq> x) xs"
  by (induction xs) (auto intro!: filter_True [symmetric])

lemma poll_steps:
  assumes body: "runs_body body w" and ends: "iterate_body body w = None"
    and a: "tb_supervisor body < length (tw_supervisors (ww_tokio w))"
    and inv: "supervisor_inv (body_supervisor body w)"
  shows "worker_step\<^sup>*\<^sup>* w (on_supervisor (tb_supervisor body) (\<lambda>sv. poll_heartbeat sv (tb_task body, ww_ticks w ! tb_ticks body)) w)"
proof -
  let ?a = "tb_supervisor body" and ?task = "tb_task body" and ?sv = "body_supervisor body w"
  let ?w1 = "on_supervisor ?a (drop_registration ?task) w"
  note i = registry_invD [OF supervisor_invD(1) [OF inv]]
  have at: "supervisor_at (ww_tokio ?w1) ?a = drop_registration ?task ?sv"
    using a by (simp add: on_supervisor_def supervisor_at_set body_supervisor_def)
  have tracked: "sv_tracked (drop_registration ?task ?sv) = sv_tracked ?sv"
    by (simp add: drop_registration_def on_state_def)
  have "?task \<in> set (sv_tracked ?sv)" using body i(2) by (auto simp: runs_body_def bm_contains_iff)
  moreover have "\<not> bm_contains (ss_tasks (sv_state (drop_registration ?task ?sv))) ?task"
    by (simp add: drop_registration_def on_state_def bm_contains_iff set_bm_keys_remove)
  ultimately have "worker_step ?w1 (on_supervisor ?a (\<lambda>sv. sv\<lparr>sv_tracked := remove1 ?task (sv_tracked sv)\<rparr>) ?w1)"
    by (intro worker_forgotten) (simp_all add: at tracked)
  then have "worker_step\<^sup>*\<^sup>* w (on_supervisor ?a (\<lambda>sv. sv\<lparr>sv_tracked := remove1 ?task (sv_tracked sv)\<rparr>) ?w1)"
    using converse_rtranclp_into_rtranclp [of worker_step, OF worker_ends [OF body ends]] by blast
  moreover have "on_supervisor ?a (\<lambda>sv. sv\<lparr>sv_tracked := remove1 ?task (sv_tracked sv)\<rparr>) ?w1 =
      on_supervisor ?a (\<lambda>sv. poll_heartbeat sv (?task, ww_ticks w ! tb_ticks body)) w"
    using a ends i(3)
    by (simp add: on_supervisor_def supervisor_at_set set_supervisor_twice iterate_body_def
        body_supervisor_def drop_registration_def on_state_def remove1_filter)
  ultimately show ?thesis by (simp only:)
qed

definition cancelled :: "nat \<Rightarrow> worker_world \<Rightarrow> bool" where
  "cancelled a w \<longleftrightarrow> beating a w \<and> sv_cancelled (supervisor_at (ww_tokio w) a) \<and>
     sv_tracker_closed (supervisor_at (ww_tokio w) a)"

definition drained :: "nat \<Rightarrow> worker_world \<Rightarrow> bool" where
  "drained a w \<longleftrightarrow> tw_current (ww_tokio w) \<and> a < length (tw_supervisors (ww_tokio w)) \<and>
     sv_tracked (supervisor_at (ww_tokio w) a) = [] \<and> ss_drain_reported (sv_state (supervisor_at (ww_tokio w) a))"

lemma hook_quiesce:
  assumes "beating a w" and "tp_supervisor p = Some a"
  shows "\<exists>t. (\<forall>view. run_plugin_hook (tokio_quiesce view) (p, ww_tokio w) = (Inr (), (p, t))) \<and> cancelled a (w\<lparr>ww_tokio := t\<rparr>)"
  using assms
  by (simp add: run_plugin_hook_def tokio_quiesce_def ready_def cancelled_def beating_def supervisor_at_set
      set_supervisor_fields supervisor_ops)

lemma drain_in_time:
  assumes rt: "polls_in_time rt" and closed: "sv_cancelled sv" "sv_tracker_closed sv"
    and calm: "terminal_failure sv = None" and config: "sv_config sv = worker_task_config"
  obtains sv' where "drain_failure rt True sv = Some (None, sv')" and "sv_tracked sv' = []"
    and "ss_drain_reported (sv_state sv')"
proof -
  obtain sv1 where 1: "drain rt sv = Some ([], sv1)" "sv_tracked sv1 = []" "terminal_failure sv1 = None"
  proof (cases "sv_tracked sv = []")
    case True
    then show ?thesis using that calm by (simp add: drain_def)
  next
    case False
    have "0 < drain_timeout (sv_config sv)" by (simp add: config worker_task_config_def)
    then obtain polls where polls: "set (sv_tracked sv) \<subseteq> fst ` set polls"
      "rt_timeout rt (drain_timeout (sv_config sv)) sv =
         (sv_tracked (foldl poll_heartbeat sv polls) = [], foldl poll_heartbeat sv polls)"
      using rt closed(2) unfolding polls_in_time_def by blast
    have "sv_tracked (foldl poll_heartbeat sv polls) = []" "terminal_failure (foldl poll_heartbeat sv polls) = None"
      using polled_heartbeats [OF closed(1), of polls] polls(1) calm by (auto simp: filter_empty_conv)
    then show ?thesis using that polls(2) False by (simp add: drain_def)
  qed
  show thesis
    by (rule that [of "snd (claim_drain_report sv1)"])
      (use 1 in \<open>auto simp: drain_failure_def claim_drain_report_def on_state_def drain_error_def terminal_failure_def\<close>)
qed

lemma hook_stop:
  assumes rt: "polls_in_time rt" and w: "cancelled a w" and p: "tp_supervisor p = Some a"
  shows "\<exists>t. (\<forall>view. run_plugin_hook (tokio_stop rt view) (p, ww_tokio w) = (Inr (), (p, t))) \<and> drained a (w\<lparr>ww_tokio := t\<rparr>)"
proof -
  have sv: "sv_cancelled (supervisor_at (ww_tokio w) a)" "sv_tracker_closed (supervisor_at (ww_tokio w) a)"
    "terminal_failure (supervisor_at (ww_tokio w) a) = None" "sv_config (supervisor_at (ww_tokio w) a) = worker_task_config"
    "tw_current (ww_tokio w)" "a < length (tw_supervisors (ww_tokio w))"
    using w by (simp_all add: cancelled_def beating_def)
  obtain sv' where "drain_failure rt True (supervisor_at (ww_tokio w) a) = Some (None, sv')" "sv_tracked sv' = []"
    "ss_drain_reported (sv_state sv')"
    by (rule drain_in_time [OF rt sv(1-4)])
  then show ?thesis
    using sv p by (simp add: run_plugin_hook_def tokio_stop_def drain_at_def drain_result_def drained_def
        supervisor_at_set set_supervisor_fields)
qed

lemma hook_dispose:
  assumes "drained a w" and "tp_supervisor p = Some a"
  shows "\<exists>t. \<forall>view. run_plugin_hook (tokio_dispose rt view) (p, ww_tokio w) = (Inr (), (p\<lparr>tp_supervisor := None\<rparr>, t))"
proof -
  have "\<exists>sv'. drain_failure rt True (quiesce (supervisor_at (ww_tokio w) a)) = Some (None, sv')"
    using assms(1)
    by (simp add: drained_def drain_failure_def drain_def supervisor_ops)
  then show ?thesis
    using assms by (auto simp: run_plugin_hook_def tokio_dispose_def drain_at_def drain_result_def drained_def
        supervisor_at_set set_supervisor_fields)
qed

lemma worker_tears_down:
  assumes rt: "polls_in_time (we_runtime env)" and w: "beating a w" and p: "tp_supervisor p = Some a"
  obtains w1 w2 w3 p' where
      "\<And>view. run_plugin_hook (cleanup_hook (worker_interface env) Quiesce view) (TokioPlugin p, w) = (Inr (), (TokioPlugin p, w1))"
    and "\<And>view. run_plugin_hook (cleanup_hook (worker_interface env) Stop view) (TokioPlugin p, w1) = (Inr (), (TokioPlugin p, w2))"
    and "\<And>view. run_plugin_hook (cleanup_hook (worker_interface env) Dispose view) (TokioPlugin p, w2) = (Inr (), (p', w3))"
proof -
  note lift = cleanup_hook_def worker_interface_def tokio_interface_def Let_def
  obtain t1 where 1: "\<forall>view. run_plugin_hook (tokio_quiesce view) (p, ww_tokio w) = (Inr (), (p, t1))"
    "cancelled a (w\<lparr>ww_tokio := t1\<rparr>)" using hook_quiesce [OF w p] by blast
  obtain t2 where 2: "\<forall>view. run_plugin_hook (tokio_stop (we_runtime env) view) (p, ww_tokio (w\<lparr>ww_tokio := t1\<rparr>)) = (Inr (), (p, t2))"
    "drained a (w\<lparr>ww_tokio := t1\<rparr>\<lparr>ww_tokio := t2\<rparr>)" using hook_stop [OF rt 1(2) p] by blast
  obtain t3 where 3: "\<forall>view. run_plugin_hook (tokio_dispose (we_runtime env) view)
      (p, ww_tokio (w\<lparr>ww_tokio := t1\<rparr>\<lparr>ww_tokio := t2\<rparr>)) = (Inr (), (p\<lparr>tp_supervisor := None\<rparr>, t3))"
    using hook_dispose [OF 2(2) p] by blast
  show thesis
    by (rule that; simp only: lift plugin_interface.simps lifecycle_phase.case)
      (rule run_tokio_hook [OF 1(1) [rule_format]] run_tokio_hook [OF 2(1) [rule_format]] run_tokio_hook [OF 3 [rule_format]])+
qed

lemma heartbeat_cleanup:
  assumes "ph \<in> {Quiesce, Stop, Dispose}"
  shows "run_plugin_hook (cleanup_hook (worker_interface env) ph view) (HeartbeatPlugin h, w) = (Inr (), (HeartbeatPlugin h, w))"
  using assms by (auto simp: cleanup_hook_def worker_interface_def Let_def run_heartbeat_hook [OF run_default_hook])

lemma cleanup_pair:
  \<comment> \<open>one phase of the teardown: the worker's hook does nothing, and the Tokio plugin's succeeds\<close>
  assumes obs: "env_observer rt = default_sink" and iface: "env_interface rt = worker_interface env"
    and ph: "ph \<in> {Quiesce, Stop, Dispose}" and wf: "bm_wf (st_plugins st)"
    and get: "bm_get (st_plugins st) (PluginId PLUGIN_ID) = Some p"
      "bm_get (st_plugins st) (PluginId WORKER_PLUGIN_ID) = Some (HeartbeatPlugin h)"
    and hook: "\<And>view. run_plugin_hook (cleanup_hook (worker_interface env) ph view) (p, st_world st) = (Inr (), (p', w'))"
  shows "\<exists>t. loop_action (cleanup_one rt ph) [PluginId WORKER_PLUGIN_ID, PluginId PLUGIN_ID] failures st =
    (Inr failures :: 'e fault + _, st\<lparr>st_plugins := bm_modify (PluginId PLUGIN_ID) (\<lambda>_. p') (st_plugins st), st_world := w', st_trace := t\<rparr>)"
proof -
  obtain t1 where 1: "cleanup_one rt ph (PluginId WORKER_PLUGIN_ID) failures st =
      (Inr failures :: 'e fault + _, st\<lparr>st_world := st_world st, st_trace := t1\<rparr>)"
    using cleanup_kept [OF obs wf get(2) heartbeat_cleanup [OF ph, of env, folded iface], of failures] by blast
  have "\<exists>t. cleanup_one rt ph (PluginId PLUGIN_ID) failures (st\<lparr>st_trace := t1\<rparr>) = (Inr failures :: 'e fault + _,
      st\<lparr>st_plugins := bm_modify (PluginId PLUGIN_ID) (\<lambda>_. p') (st_plugins st), st_world := w', st_trace := t\<rparr>)"
    using cleanup_step [OF obs, of "st\<lparr>st_trace := t1\<rparr>" "PluginId PLUGIN_ID" p ph p' w' failures] get(1) hook
    by (simp add: iface)
  with 1 show ?thesis by (auto simp: bind_action_def return_action_def)
qed

lemma cleanup_pair_kept:
  assumes "env_observer rt = default_sink" and "env_interface rt = worker_interface env"
    and "ph \<in> {Quiesce, Stop, Dispose}" and "bm_wf (st_plugins st)"
    and "bm_get (st_plugins st) (PluginId PLUGIN_ID) = Some p"
    and "bm_get (st_plugins st) (PluginId WORKER_PLUGIN_ID) = Some (HeartbeatPlugin h)"
    and "\<And>view. run_plugin_hook (cleanup_hook (worker_interface env) ph view) (p, st_world st) = (Inr (), (p, w'))"
  shows "\<exists>t. loop_action (cleanup_one rt ph) [PluginId WORKER_PLUGIN_ID, PluginId PLUGIN_ID] failures st =
    (Inr failures :: 'e fault + _, st\<lparr>st_world := w', st_trace := t\<rparr>)"
  using cleanup_pair [OF assms, of failures] bm_modify_same [OF assms(4,5)] by (cases st) simp

lemma worker_shuts_down:
  assumes rt: "polls_in_time (we_runtime env)" and app: "worker_app v q c app"
    and ok: "app_ok (worker_runtime env now app) st" and running: "running_plugins v q a c (st_plugins st)"
    and beating: "beating a (st_world st)" and up: "st_terminal st = None"
  shows "\<exists>st'. shutdown (worker_runtime env now app) st = (Inr \<lparr>sr_failures = []\<rparr> :: 'e fault + _, st')"
proof -
  let ?rt = "worker_runtime env now app" and ?P = "PluginId PLUGIN_ID"
  let ?p = "(new_tokio v q)\<lparr>tp_supervisor := Some a\<rparr>"
  let ?ps = "rev (rg_startup_order (env_graph ?rt))"
  have ps: "?ps = [PluginId WORKER_PLUGIN_ID, ?P]"
    by (simp add: worker_runtime_fields worker_appD(1) [OF app] worker_startup_def)
  have obs: "env_observer ?rt = default_sink" and iface: "env_interface ?rt = worker_interface env"
    by (simp_all add: worker_runtime_fields worker_appD(8) [OF app])
  have m: "bm_wf (st_plugins st)" "bm_get (st_plugins st) ?P = Some (TokioPlugin ?p)"
    "bm_get (st_plugins st) (PluginId WORKER_PLUGIN_ID) = Some (HeartbeatPlugin ((new_heartbeat v q c)\<lparr>hw_tasks := Some a\<rparr>))"
    using running by (simp_all add: running_plugins_def)
  have sup: "tp_supervisor ?p = Some a" by simp
  obtain st1 where 1: "begin_scope_close ?rt st = (Inr () :: 'e fault + _, st1)" "runs ?rt st st1 [] []"
    by (rule begin_scope_close_ok [OF ok])
  have same: "st_plugins st1 = st_plugins st" "st_world st1 = st_world st"
    using 1(1) by (auto simp: begin_scope_close_def split: option.splits)
  obtain w1 w2 w3 p' where hooks:
      "\<And>view. run_plugin_hook (cleanup_hook (worker_interface env) Quiesce view) (TokioPlugin ?p, st_world st) = (Inr (), (TokioPlugin ?p, w1))"
      "\<And>view. run_plugin_hook (cleanup_hook (worker_interface env) Stop view) (TokioPlugin ?p, w1) = (Inr (), (TokioPlugin ?p, w2))"
      "\<And>view. run_plugin_hook (cleanup_hook (worker_interface env) Dispose view) (TokioPlugin ?p, w2) = (Inr (), (p', w3))"
    by (rule worker_tears_down [OF rt beating sup]) (rule that)
  have m1: "bm_wf (st_plugins (st1\<lparr>st_world := w', st_trace := t\<rparr>))"
    "bm_get (st_plugins (st1\<lparr>st_world := w', st_trace := t\<rparr>)) ?P = Some (TokioPlugin ?p)"
    "bm_get (st_plugins (st1\<lparr>st_world := w', st_trace := t\<rparr>)) (PluginId WORKER_PLUGIN_ID) =
      Some (HeartbeatPlugin ((new_heartbeat v q c)\<lparr>hw_tasks := Some a\<rparr>))" for w' t
    using m same by simp_all
  let ?phase = "\<lambda>ph. loop_action (cleanup_one ?rt ph) ?ps []
      :: (_, 'e fault, failure_record list) action"
  have "\<exists>t. ?phase Quiesce st1 = (Inr [], st1\<lparr>st_world := w1, st_trace := t\<rparr>)"
    unfolding ps by (rule cleanup_pair_kept [OF obs iface _ m [folded same(1)]]) (simp_all add: hooks same)
  then obtain t1 where q: "?phase Quiesce st1 = (Inr [], st1\<lparr>st_world := w1, st_trace := t1\<rparr>)" by blast
  have "\<exists>t. ?phase Stop (st1\<lparr>st_world := w1, st_trace := t1\<rparr>) =
      (Inr [], st1\<lparr>st_world := w1, st_trace := t1\<rparr>\<lparr>st_world := w2, st_trace := t\<rparr>)"
    unfolding ps by (rule cleanup_pair_kept [OF obs iface _ m1]) (simp_all add: hooks)
  then obtain t2 where s: "?phase Stop (st1\<lparr>st_world := w1, st_trace := t1\<rparr>) =
      (Inr [], st1\<lparr>st_world := w2, st_trace := t2\<rparr>)" by auto
  have "\<exists>t. ?phase Dispose (st1\<lparr>st_world := w2, st_trace := t2\<rparr>) = (Inr [], st1\<lparr>st_world := w2, st_trace := t2\<rparr>
      \<lparr>st_plugins := bm_modify ?P (\<lambda>_. p') (st_plugins (st1\<lparr>st_world := w2, st_trace := t2\<rparr>)), st_world := w3, st_trace := t\<rparr>)"
    unfolding ps by (rule cleanup_pair [OF obs iface _ m1]) (simp_all add: hooks)
  then obtain st2 where d: "?phase Dispose (st1\<lparr>st_world := w2, st_trace := t2\<rparr>) = (Inr [], st2)"
    and st2: "bm_keys (st_plugins st2) = bm_keys (st_plugins st1)" "st_scopes st2 = st_scopes st1" by auto
  have "app_ok ?rt st2" using runs_ok [OF 1(2)] st2 by (simp add: app_ok_def)
  then obtain st3 where 3: "finish_scope_close ?rt st2 = (Inr () :: 'e fault + _, st3)"
    by (rule finish_scope_close_ok)
  have "shutdown ?rt st = (Inr \<lparr>sr_failures = []\<rparr> :: 'e fault + _, st3\<lparr>st_terminal := Some \<lparr>sr_failures = []\<rparr>\<rparr>)"
    unfolding shutdown_def up option.case
    by (simp add: bind_action_def 1(1) q s d 3 action_simps del: rev.simps)
  then show ?thesis by blast
qed

section \<open>A host that does not keep its word\<close>

lemma initialize_refused:
  \<comment> \<open>the first plugin refuses, and is disposed of\<close>
  assumes obs: "env_observer env = default_sink" and ok: "app_ok env st"
    and wf: "bm_wf (st_plugins st)" and get: "bm_get (st_plugins st) p = Some x"
    and hook: "run_plugin_hook (pi_initialize (env_interface env) (initialize_context env p st)
      (st_scopes st, env_scope env)) (x, st_world st) = (Inl e, (x, st_world st))"
    and dispose: "\<And>view. run_plugin_hook (cleanup_hook (env_interface env) Dispose view) (x, st_world st) =
      (Inr (), (x, st_world st))"
  shows "\<exists>st'. initialize_one env p [] st =
    (Inl (Err \<lparr>lf_primary = plugin_failure p Initialize e, lf_cleanup_failures = []\<rparr>), st')"
proof -
  let ?st = "trace_append (HookRan p Initialize) st"
  have mut: "plugin_mut p Initialize (pi_initialize (env_interface env) (initialize_context env p st)
      (st_scopes st, env_scope env)) st = (Inr (Inl e) :: lifecycle_failure fault + _, ?st)"
    using hook bm_modify_same [OF wf get] by (simp add: plugin_mut_def get)
  obtain t where t: "observe_failure env p Initialize (env_now env (st_world st)) (safe_tag (pe_tag e)) ?st = ?st\<lparr>st_trace := t\<rparr>"
    using observe_quiet [OF obs] unfolding observe_failure_def by blast
  let ?st0 = "?st\<lparr>st_trace := t\<rparr>"
  have "app_ok env ?st0" using ok by (simp add: app_ok_def trace_append_def)
  then obtain st1 where 1: "begin_scope_close env ?st0 = (Inr () :: lifecycle_failure fault + _, st1)" "runs env ?st0 st1 [] []"
    by (rule begin_scope_close_ok)
  have same: "st_plugins st1 = st_plugins st" "st_world st1 = st_world st"
    using 1(1) by (auto simp: begin_scope_close_def trace_append_def split: option.splits)
  have "\<exists>t. cleanup_one env Dispose p [] st1 = (Inr [] :: lifecycle_failure fault + _, st1\<lparr>st_world := st_world st, st_trace := t\<rparr>)"
    by (rule cleanup_kept [OF obs]) (use wf get dispose in \<open>simp_all add: same\<close>)
  then obtain t2 where 2: "cleanup_one env Dispose p [] st1 =
      (Inr [] :: lifecycle_failure fault + _, st1\<lparr>st_world := st_world st, st_trace := t2\<rparr>)" by blast
  have "app_ok env (st1\<lparr>st_world := st_world st, st_trace := t2\<rparr>)" using runs_ok [OF 1(2)] by (simp add: app_ok_def)
  then obtain st3 where 3: "finish_scope_close env (st1\<lparr>st_world := st_world st, st_trace := t2\<rparr>) =
      (Inr () :: lifecycle_failure fault + _, st3)"
    by (rule finish_scope_close_ok)
  show ?thesis
    by (simp add: initialize_one_def Let_def bind_action_def mut rollback_initialize_def t rollback_dispose_def cleanup_def
        1(1) 2 3 action_simps fail_action_def)
qed

definition no_runtime_failure :: "bool \<Rightarrow> lifecycle_failure" where
  \<comment> \<open>the failure of a start without a runtime, or on one without timers\<close>
  "no_runtime_failure current = \<lparr>lf_primary = \<lparr>fr_phase = Initialize, fr_plugin = PluginId PLUGIN_ID,
       fr_error_tag = (if current then ''tokio-task.no-timer'' else ''tokio-task.no-runtime''),
       fr_message = text_of (if current then ''Tokio runtime timers are not enabled'' else ''no Tokio runtime is active'')\<rparr>,
     lf_cleanup_failures = []\<rparr>"

lemma safe_tokio_tags:
  "safe_tag ''tokio-task.no-timer'' = ''tokio-task.no-timer''" "safe_tag ''tokio-task.no-runtime'' = ''tokio-task.no-runtime''"
  by code_simp+

lemma worker_refused:
  assumes app: "worker_app v q c app" and ok: "app_ok (worker_runtime env now app) st"
    and st: "st_plugins st = ra_plugins app"
    and off: "\<not> (tw_current (ww_tokio (st_world st)) \<and> tw_timer (ww_tokio (st_world st)))"
  shows "\<exists>st'. start (worker_runtime env now app) st =
    (Inl (Err (no_runtime_failure (tw_current (ww_tokio (st_world st))))), st')"
proof -
  let ?rt = "worker_runtime env now app" and ?P = "PluginId PLUGIN_ID" and ?w = "st_world st"
  define e where "e = (if tw_current (ww_tokio ?w)
      then \<lparr>pe_tag = NO_TIMER_ERROR_TAG, pe_message = text_of ''Tokio runtime timers are not enabled''\<rparr>
      else \<lparr>pe_tag = spawn_error_tag NoRuntime, pe_message = text_of (spawn_error_display NoRuntime)\<rparr>)"
  have "run_plugin_hook (tokio_initialize (ex_parse_version env) (ex_provision_display env)
      (worker_tasks_capability (we_markers env)) TasksHandle ctx view) (new_tokio v q, ww_tokio ?w) =
    (Inl e, (new_tokio v q, ww_tokio ?w))" for ctx view
    using off by (simp add: run_plugin_hook_def tokio_initialize_def ready_def e_def)
  from run_tokio_hook [OF this]
  have init: "run_plugin_hook (pi_initialize (worker_interface env) ctx view) (TokioPlugin (new_tokio v q), ?w) =
      (Inl e, (TokioPlugin (new_tokio v q), ?w))" for ctx view
    by (simp add: worker_interface_def tokio_interface_def Let_def)
  have "run_plugin_hook (tokio_dispose (we_runtime env) view) (new_tokio v q, ww_tokio ?w) =
      (Inr (), (new_tokio v q, ww_tokio ?w))" for view
    by (simp add: run_plugin_hook_def tokio_dispose_def new_tokio_def)
  from run_tokio_hook [OF this]
  have dispose: "run_plugin_hook (cleanup_hook (worker_interface env) Dispose view) (TokioPlugin (new_tokio v q), ?w) =
      (Inr (), (TokioPlugin (new_tokio v q), ?w))" for view
    by (simp add: cleanup_hook_def worker_interface_def tokio_interface_def Let_def)
  have "\<exists>st'. initialize_one ?rt ?P [] (st\<lparr>st_registry := []\<rparr>) =
      (Inl (Err \<lparr>lf_primary = plugin_failure ?P Initialize e, lf_cleanup_failures = []\<rparr>), st')"
  proof (rule initialize_refused)
    show "run_plugin_hook (pi_initialize (env_interface ?rt) (initialize_context ?rt ?P (st\<lparr>st_registry := []\<rparr>))
        (st_scopes (st\<lparr>st_registry := []\<rparr>), env_scope ?rt)) (TokioPlugin (new_tokio v q), st_world (st\<lparr>st_registry := []\<rparr>)) =
      (Inl e, (TokioPlugin (new_tokio v q), st_world (st\<lparr>st_registry := []\<rparr>)))"
      unfolding worker_runtime_fields by (simp add: init)
    show "run_plugin_hook (cleanup_hook (env_interface ?rt) Dispose view) (TokioPlugin (new_tokio v q), st_world (st\<lparr>st_registry := []\<rparr>)) =
      (Inr (), (TokioPlugin (new_tokio v q), st_world (st\<lparr>st_registry := []\<rparr>)))" for view
      unfolding worker_runtime_fields by (simp add: dispose)
  qed (use ok in \<open>simp_all add: app_ok_def worker_runtime_fields worker_appD [OF app] st\<close>)
  moreover have "\<lparr>lf_primary = plugin_failure ?P Initialize e, lf_cleanup_failures = []\<rparr> =
      no_runtime_failure (tw_current (ww_tokio ?w))"
    by (simp add: no_runtime_failure_def plugin_failure_def e_def NO_TIMER_ERROR_TAG_def safe_tokio_tags)
  ultimately show ?thesis
    by (auto simp: start_def worker_runtime_fields worker_appD(1) [OF app] worker_startup_def initialize_all_def bind_action_def)
qed

section \<open>The binary\<close>

definition worker_outcome :: "worker_world \<Rightarrow> worker_world
     \<Rightarrow> ('v, 'q) worker_main_error fault + utext \<times> (('v, 'q) worker_main_error + unit)" where
  \<comment> \<open>from the world at the start and the one the sleep ends in\<close>
  "worker_outcome w w' =
     (if tw_current (ww_tokio w) \<and> tw_timer (ww_tokio w)
      then Inr (text_of (''heartbeat ticks before shutdown: '' @
        decimal (unat (metrics_ticks (length (ww_ticks w)) w'))), Inr ())
      else Inl (Err (WorkerStart (no_runtime_failure (tw_current (ww_tokio w))))))"

lemma worker_run_beats:
  assumes lit: "accepts_literals env v q" and app: "worker_app v q (length (ww_ticks w)) app"
    and ok: "app_ok (worker_runtime env now app) st" and st: "st_plugins st = ra_plugins app"
      "st_world st = w\<lparr>ww_ticks := ww_ticks w @ [0]\<rparr>"
    and up: "state_of (st_scopes st) (ra_scope app) = Open"
    and rt: "polls_in_time (we_runtime env)" and elapse: "\<And>w. worker_step\<^sup>*\<^sup>* w (elapse w)"
  shows "fst (worker_run elapse env (worker_runtime env now app) st) = worker_outcome w (elapse (worker_started w))"
proof (cases "tw_current (ww_tokio w) \<and> tw_timer (ww_tokio w)")
  case False
  then have "\<not> (tw_current (ww_tokio (st_world st)) \<and> tw_timer (ww_tokio (st_world st)))" by (simp add: st)
  from worker_refused [OF app ok st(1) this] obtain st'
    where "start (worker_runtime env now app) st = (Inl (Err (no_runtime_failure (tw_current (ww_tokio w)))), st')"
    by (auto simp: st(2))
  with False show ?thesis by (simp add: worker_run_def bind_action_def lift_err_def worker_outcome_def)
next
  case on: True
  let ?rt = "worker_runtime env now app" and ?a = "length (tw_supervisors (ww_tokio w))" and ?c = "length (ww_ticks w)"
  obtain m reg t where start: "start ?rt st = (Inr (), st\<lparr>st_plugins := m, st_world := worker_started w,
      st_registry := reg, st_terminal := None, st_trace := t\<rparr>)" (is "_ = (_, ?st1)")
    and m: "running_plugins v q ?a ?c m" "bm_keys m = bm_keys (ra_plugins app)"
    and metrics: "root_capability (ex_parse_version env) (worker_metrics_capability (we_markers env)) reg
      (PluginId WORKER_PLUGIN_ID) = Inr (MetricsHandle ?c)"
    using worker_starts [OF lit app st] on by metis
  have cap: "capability_from (ex_parse_version env) ?rt (worker_metrics_capability (we_markers env))
      (PluginId WORKER_PLUGIN_ID) ?st1 = Inr (MetricsHandle ?c)"
    by (simp add: capability_from_def is_closing_def worker_runtime_fields up metrics)
  let ?st2 = "st\<lparr>st_plugins := m, st_registry := reg, st_terminal := None, st_trace := t,
      st_world := elapse (worker_started w)\<rparr>"
  have "app_ok ?rt ?st2" using ok m(2) st(1) by (simp add: app_ok_def)
  moreover have "beating ?a (elapse (worker_started w))"
    using worker_steps_beating [OF elapse started_beating] on by blast
  ultimately obtain st3 where down: "shutdown ?rt ?st2 =
      (Inr \<lparr>sr_failures = []\<rparr> :: ('a, 'b) worker_main_error fault + shutdown_report, st3)"
    using worker_shuts_down [OF rt app, of now ?st2 ?a] m(1) by fastforce
  show ?thesis
    unfolding worker_run_def
    by (simp add: bind_action_def start lift_err_def worker_plugin_id_def worker_ids map_err_def cap
        modify_action_def down is_clean_def on worker_outcome_def)
qed

text \<open>C38: the worker binary, whatever \<open>semver\<close> is as long as it reads the literals, and whatever the runtime does
  with the heartbeat task while \<open>main\<close> sleeps: on a runtime with timers that polls every sleeping heartbeat
  at least once within the drain budget, the application starts, the binary prints the ticks counted so far, and the teardown
  is clean. Without a runtime, or on one without timers, the start fails with the Tokio plugin's tagged
  error and no cleanup failure.\<close>

theorem worker_main_beats:
  assumes "accepts_literals env v q" and "wf_scopes scopes" and "room (next_scope_namespace scopes)"
    and "polls_in_time (we_runtime env)" and "\<And>w. worker_step\<^sup>*\<^sup>* w (elapse w)"
  shows "worker_main elapse env now scopes w = worker_outcome w (elapse (worker_started w))"
proof -
  let ?builder = "(plain_builder (worker_plugins v q (length (ww_ticks w))) [])\<lparr>ab_host_capabilities := worker_hosts v\<rparr>
      :: (('a, 'b) worker_plugin, worker_world, 'a, 'b) app_builder"
  obtain app where compose: "worker_compose env (scopes, w) =
      (Inr app, (snd (application scopes), w\<lparr>ww_ticks := ww_ticks w @ [0]\<rparr>))"
    and run: "app_resolve (ex_matches env) (worker_interface env) ?builder scopes = (Inr app, snd (application scopes))"
    and app: "worker_app v q (length (ww_ticks w)) app"
    by (rule worker_composes [OF assms(1)])
  have wf: "\<forall>p \<in> set (ab_plugins ?builder). descriptor_wf (pi_descriptor (worker_interface env) p)"
    using worker_wf [of v q "length (ww_ticks w)" "[]"]
    by (simp add: plain_spec_def plain_builder_def worker_interface_def Let_def)
  let ?st = "app_state_of app (snd (application scopes)) (w\<lparr>ww_ticks := ww_ticks w @ [0]\<rparr>)"
  have "app_ok (worker_runtime env now app) ?st"
    unfolding worker_runtime_def by (rule app_resolve_ok(1) [OF assms(2,3) wf run])
  moreover have "state_of (st_scopes ?st) (ra_scope app) = Open"
    using app_resolve_ok(2) [OF assms(2,3) wf run] by (simp add: app_state_of_def)
  moreover have "st_plugins ?st = ra_plugins app" "st_world ?st = w\<lparr>ww_ticks := ww_ticks w @ [0]\<rparr>"
    by (simp_all add: app_state_of_def)
  ultimately have "fst (worker_run elapse env (worker_runtime env now app) ?st) = worker_outcome w (elapse (worker_started w))"
    by (intro worker_run_beats [OF assms(1) app _ _ _ _ assms(4,5)])
  then show ?thesis by (simp add: worker_main_def compose lift_err_def worker_runtime_def)
qed

definition polling_runtime :: tokio_runtime where
  \<comment> \<open>polls every tracked heartbeat once, and aborts what was asked for\<close>
  "polling_runtime = \<lparr>rt_timeout = (\<lambda>limit sv.
       let sv = foldl poll_heartbeat sv (map (\<lambda>task. (task, 0)) (sv_tracked sv)) in (sv_tracked sv = [], sv)),
     rt_meanwhile = id, rt_wait = rt_wait lazy_runtime\<rparr>"

definition literal_worker_env :: "(str, str) worker_env" where
  \<comment> \<open>versions and requirements kept as text, and a runtime that polls its tasks once\<close>
  "literal_worker_env = \<lparr>ex_parse_version = Inr, ex_parse_req = Inr,
     ex_matches = (\<lambda>req version. req = ''^1.0'' \<and> version = ''1.0.0''),
     ex_provision_display = (\<lambda>_. []), ex_access_display = (\<lambda>_. []),
     we_markers = \<lparr>tasks_type = \<lparr>mt_marker = 1, mt_name = ''TokioTasksCapability'', mt_interface = 10\<rparr>,
       metrics_type = \<lparr>mt_marker = 2, mt_name = ''WorkerMetricsCapability'', mt_interface = 20\<rparr>\<rparr>,
     we_runtime = polling_runtime\<rparr>"

definition beat_once :: "worker_world \<Rightarrow> worker_world" where
  \<comment> \<open>the first task runs one iteration\<close>
  "beat_once w = (case ww_bodies w of
     [] \<Rightarrow> w
   | body # _ \<Rightarrow>
       if runs_body body w
       then case iterate_body body w of None \<Rightarrow> w | Some ticks \<Rightarrow> w\<lparr>ww_ticks := (ww_ticks w)[tb_ticks body := ticks]\<rparr>
       else w)"

lemma beat_once_steps: "worker_step\<^sup>*\<^sup>* w (beat_once w)"
  by (auto simp: beat_once_def split: list.split option.split intro: worker_beats)

lemma polling_runtime_polls: "polls_in_time polling_runtime"
  unfolding polls_in_time_def
proof (intro allI impI)
  fix limit and sv :: task_supervisor
  let ?polls = "map (\<lambda>task. (task, 0)) (sv_tracked sv)"
  have "set (sv_tracked sv) \<subseteq> fst ` set ?polls" by force
  then show "\<exists>polls. set (sv_tracked sv) \<subseteq> fst ` set polls \<and> rt_timeout polling_runtime limit sv =
      (sv_tracked (foldl poll_heartbeat sv polls) = [], foldl poll_heartbeat sv polls)"
    by (intro exI [of _ ?polls]) (simp add: polling_runtime_def Let_def)
qed

lemma worker_main_beats_witness:
  "worker_main beat_once literal_worker_env (\<lambda>_. 0) initial_scopes
     \<lparr>ww_tokio = \<lparr>tw_current = True, tw_timer = True, tw_supervisors = []\<rparr>, ww_ticks = [], ww_bodies = []\<rparr> =
   Inr (text_of ''heartbeat ticks before shutdown: 1'', Inr ())"
  (is "worker_main _ _ _ _ ?w = _")
proof -
  have lit: "accepts_literals literal_worker_env ''1.0.0'' ''^1.0''"
    by (simp add: accepts_literals_def literal_worker_env_def)
  have wakes: "polls_in_time (we_runtime literal_worker_env)"
    by (simp add: literal_worker_env_def polling_runtime_polls)
  have "metrics_ticks (length (ww_ticks ?w)) (beat_once (worker_started ?w)) = 1" by code_simp
  then have "worker_outcome ?w (beat_once (worker_started ?w)) =
      Inr (text_of ''heartbeat ticks before shutdown: 1'', Inr ())"
    by (simp add: worker_outcome_def decimal_one)
  then show ?thesis
    unfolding worker_main_beats [OF lit initial_scopes_ok wakes beat_once_steps] .
qed

end
