(* ===== verification/Spec2Isabelle.thy ===== *)
theory Spec2Isabelle
  imports Decoding Attribution Scope_Race Serverless_Properties Tokio_Properties Registry_Types
    Testkit_Properties Command_Line_Properties Bench_Properties Bench_Arguments
    Xtask_Release_Properties Xtask_Boundary_Properties Xtask_Verify_Properties
    Checkout_Properties Order_Properties Worker_Properties
begin

text \<open>
  Kernox composes an application out of plugins: each declares which capabilities it offers and
  requires, a resolver selects providers and an order, and a runtime initializes, runs and tears down
  the plugins in that order. This library models the program's crates and states what makes them
  correct. Paths below are relative to the repository's \<open>crates/\<close> directory, unless they start with
  \<open>xtask/\<close> or \<open>examples/\<close>.

  \<^bold>\<open>Conventions.\<close> \<open>Kernox_Prelude\<close> has the vocabulary: \<open>Result\<close> is a sum with the error on the left, \<open>?\<close> is
  \<open>and_then\<close>, a \<open>for\<close> loop with early return is \<open>for_each\<close>, and code that can panic returns its error
  in \<open>fault\<close>, where \<open>Panic\<close> is a value the theorems exclude. \<open>Stateful\<close> does the same for code that
  changes state (\<open>bind_action\<close>, \<open>loop_action\<close>). \<open>Ordered_Collections\<close> models \<open>BTreeMap\<close> and
  \<open>BTreeSet\<close> as ascending lists, behind the locales \<open>keyed_store\<close> and \<open>ordered_map\<close>.
  \<open>Text_Numbers\<close>, \<open>Float64\<close> and \<open>Json_Value\<close> have what the programs use of Rust's integers as text, of
  IEEE binary64 and of \<open>serde_json\<close>.

  \<^bold>\<open>The core\<close> (\<open>kernox-core/src\<close>).
  \<^item> \<open>Identifier\<close>: \<open>id.rs\<close>, the validation of identifiers and their order; the validator decides the
    declarative grammar \<open>canonical_identifier\<close>.
  \<^item> \<open>Descriptor\<close>: \<open>descriptor.rs\<close>, offers, requirements and plugin descriptors; what the builders
    produce and what the wire form decodes to is well formed (\<open>descriptor_wf\<close>).
  \<^item> \<open>Graph_Types\<close>, \<open>Topology\<close>, \<open>Resolve\<close>: \<open>graph.rs\<close>. \<open>resolve\<close> indexes plugins and bindings, selects
    the providers of every requirement, collects edges and diagnostics and orders the plugins with
    Kahn's algorithm; \<open>find_cycle\<close> explains a failure. \<open>Topology\<close> proves the order least and the cycle
    genuine. \<open>Resolve_Spec\<close> states, over the composition alone, which compositions are valid and what
    graph they have; \<open>Resolve_Props\<close> proves that \<open>resolve\<close> implements exactly that, and
    \<open>Resolve_Errors\<close> that each error it returns describes a defect that is there. \<open>Report\<close> has the
    acceptance of decoded reports, \<open>Attribution\<close> the check of \<open>attribution.rs\<close>.
  \<^item> \<open>Decoding\<close>: the conversions of identifiers from and to text and the hand-written deserializers of
    sources and reports; every way in goes through the validating constructor.
  \<^item> \<open>Runnable_Graph\<close>: what the runtime relies on in a resolved graph; every result of \<open>resolve\<close> has it.

  \<^bold>\<open>The runtime\<close> (\<open>kernox-runtime/src\<close>).
  \<^item> \<open>Scope\<close>: \<open>scope.rs\<close>, the shared tree of scopes as a store of addresses with \<open>Weak\<close> references that
    may be gone. \<open>begin_close\<close> and \<open>finish_close\<close> recurse over the registry with fuel; the number of
    allocated scopes is enough, which \<open>Scope_Properties\<close> proves together with the invariant of the
    tree. \<open>Scope_Race\<close> interleaves admissions with a closure, access by access, under sequential
    consistency.
  \<^item> \<open>Capability\<close>: \<open>capability.rs\<close>, contracts, staged and published provisions and typed lookups;
    \<open>Capability_Access\<close> proves publication transactional and that declared dependencies are there,
    \<open>Registry_Types\<close> that handles keep their types through a whole start.
  \<^item> \<open>Host\<close>: \<open>host.rs\<close> and the negotiation of host requirements in \<open>app.rs\<close>.
  \<^item> \<open>Lifecycle\<close>: \<open>app.rs\<close>, \<open>plugin.rs\<close> and \<open>observation.rs\<close>: the builder, \<open>start\<close> with its rollback, the
    running application and \<open>shutdown\<close>. Plugins are arbitrary values behind an interface of hooks that
    may fail or unwind. A ghost trace of hooks and observations carries the properties:
    \<open>Lifecycle_Trace\<close> has the calculus of runs, \<open>Lifecycle_Properties\<close> and \<open>Shutdown_Properties\<close> the
    guarantees. \<open>Lifecycle_Frame\<close> is a locale: a property of the running state that single hooks keep
    is kept by \<open>start\<close> and \<open>shutdown\<close>; its instances are the recorder, the probes and the typed registry.

  \<^bold>\<open>Hosts, tools and tests.\<close>
  \<^item> \<open>Serverless\<close>: \<open>kernox-host-serverless/src/lib.rs\<close>, admission and invocation scopes over the
    application model.
  \<^item> \<open>Task_Supervisor\<close>, \<open>Tokio_Plugin\<close>: \<open>kernox-host-tokio/src/lib.rs\<close>, bounded named tasks, draining, and
    the plugin that publishes the supervisor. \<open>task_step\<close> is what tasks do on their own; a task that
    panics records it, closes the tracker and cancels the token in three steps, since \<open>record_panic\<close>
    gives up the lock after the first. Draining waits, so it is partial: Tokio's promises, the hypothesis
    \<open>tokio_ok\<close>, let a wait end only when every registered task was aborted or has ended by itself, and
    \<open>Tokio_Properties\<close> proves that \<open>drain\<close> returns nevertheless.
  \<^item> \<open>Testkit\<close>: \<open>kernox-testkit/src\<close>, the recorder, the probes and the conformance oracle.
  \<^item> \<open>Command_Line\<close>: \<open>cargo-kernox/src/main.rs\<close>, the \<open>check\<close> and \<open>graph\<close> commands.
  \<^item> \<open>Bench_Budget\<close>, \<open>Bench_Gate\<close>: \<open>xtask/src/bench_budget.rs\<close>, the benchmark gate over exact
    binary64 arithmetic; \<open>Bench_Properties\<close> and \<open>Bench_Arguments\<close> say what it accepts.
  \<^item> \<open>Xtask_Process\<close>, \<open>Xtask_Release\<close>, \<open>Xtask_Boundary\<close>, \<open>Xtask_Workflow\<close>, \<open>Xtask_Secret_Scan\<close> and \<open>Xtask\<close>:
    \<open>xtask/src/main.rs\<close>, the release check, the dependency and workflow boundaries, the secret scan and
    the verification run that puts them together. Programs act on an abstract world; a ghost record of
    what ran and what it returned carries the properties of the theories named \<open>_Properties\<close>. The
    search of the core boundary ends because each step visits a new package or shortens the queue.
    \<open>Xtask_Verify_Properties\<close> lists the checks of a verification and shows that it passes exactly through
    all of them in that order, or stops at the first that fails.

  \<^bold>\<open>The example applications\<close> (\<open>examples/\<close> of the repository), which put the parts together.
  \<^item> \<open>Quiet_Run\<close> and \<open>Example_Support\<close>: how a composition resolves whatever the version type is
    (\<open>resolve_same_matches\<close>), how hooks that succeed drive \<open>start\<close> and \<open>shutdown\<close>, and what publishing and
    requiring one provision does.
  \<^item> \<open>Checkout_App\<close>, \<open>Order_App\<close>, \<open>Worker_App\<close>: the plugins, ports, composition and \<open>main\<close> of each example;
    what their handles share lives in a world, by its address. The worker runs the Tokio plugin beside
    its own, and the tasks the runtime interleaves with \<open>main\<close> are the relation \<open>worker_step\<close>. Of the
    scheduler it assumes fairness only (\<open>polls_in_time\<close>): within the drain budget every sleeping heartbeat
    is polled, and that it then ends is a fact about its loop.
  \<^item> \<open>Checkout_Run\<close>, \<open>Order_Run\<close>, \<open>Worker_Run\<close> run them step by step, and the theories named \<open>_Properties\<close>
    say what each binary prints and returns, for every \<open>semver\<close> that reads the literals of the examples;
    an inventory sells every unit once, and created orders are found again up to \<open>2^64\<close> of them.

  \<^bold>\<open>Parameters.\<close> Code outside the repository enters as arguments: \<open>VersionReq::matches\<close>,
  \<open>Version::parse\<close> and \<open>VersionReq::parse\<close>; the plugins, handlers, clock and observation sink of a user;
  the Tokio runtime; \<open>clap\<close>, \<open>serde_json\<close>, the file system, \<open>cargo\<close> and other programs; the \<open>Display\<close>
  texts that \<open>thiserror\<close> generates and Rust's \<open>Debug\<close> texts. Hooks return: a hook that never completes
  is outside the lifecycle model, where a drain that never returns stands as one that unwinds; and so is
  a poisoned lock, since no code panics while it holds one.

  \<^bold>\<open>Bounds.\<close> Counters of scopes, tasks and invocations wrap as the code's 64-bit atomics do; the
  properties that need it say that none has wrapped (\<open>room\<close>). The benchmark model has one zero; the
  sign of a zero shows only in printing.

  \<^bold>\<open>Not modelled.\<close> Formatting derives, \<open>serde\<close> derives without own logic and re-exports only forward.
  The benchmarks, fuzz targets and the clean-consumer fixture only call the crates, to measure them or to
  check that they can be consumed.
\<close>

end
